(* ===== verification/Prelude.thy ===== *)
theory Prelude
  imports Main "HOL-Library.Char_ord" "HOL-Library.List_Lexorder" "HOL-Library.Multiset"
begin

text \<open>
  The base of the library: the exceptions of \<open>src/src/qtb/errors.py\<close> and the Python exceptions
  the modelled code catches, results as sums (\<open>Inl\<close> an exception, \<open>Inr\<close> a value), loops
  over fallible bodies, and the string and list operations of Python that the components use.
  The collection \<open>res_simps\<close> holds the rewrite rules for fallible computations.
\<close>

named_theorems res_simps

section \<open>Exceptions and results\<close>

text \<open>
  The class hierarchy of \<open>qtb.errors\<close>: every constructor up to \<open>LockBusy\<close> is a
  \<open>HarnessError\<close> in Python; the rest are built-in exceptions outside it.
\<close>

datatype exn =
    HarnessError string
  | Unsupported string
  | Incomplete string
  | Precondition string
  | Usage string
  | Contaminated string
  | LockBusy string
  | KeyError
  | IndexError
  | TypeError
  | ValueError
  | OverflowError
  | ZeroDivisionError
  | FileNotFoundError
  | OSError string
  | OtherException string

type_synonym 'a res = "exn + 'a"

fun is_harness_error :: "exn \<Rightarrow> bool" where
  "is_harness_error (HarnessError m) = True"
| "is_harness_error (Unsupported m) = True"
| "is_harness_error (Incomplete m) = True"
| "is_harness_error (Precondition m) = True"
| "is_harness_error (Usage m) = True"
| "is_harness_error (Contaminated m) = True"
| "is_harness_error (LockBusy m) = True"
| "is_harness_error e = False"

fun is_incomplete :: "exn \<Rightarrow> bool" where
  "is_incomplete (Incomplete m) = True"
| "is_incomplete e = False"

text \<open>\<open>str(exc)\<close>; the text of a built-in exception is not modelled beyond its class.\<close>

fun exn_message :: "exn \<Rightarrow> string" where
  "exn_message (HarnessError m) = m"
| "exn_message (Unsupported m) = m"
| "exn_message (Incomplete m) = m"
| "exn_message (Precondition m) = m"
| "exn_message (Usage m) = m"
| "exn_message (Contaminated m) = m"
| "exn_message (LockBusy m) = m"
| "exn_message KeyError = ''KeyError''"
| "exn_message IndexError = ''IndexError''"
| "exn_message TypeError = ''TypeError''"
| "exn_message ValueError = ''ValueError''"
| "exn_message OverflowError = ''OverflowError''"
| "exn_message ZeroDivisionError = ''ZeroDivisionError''"
| "exn_message FileNotFoundError = ''FileNotFoundError''"
| "exn_message (OSError m) = m"
| "exn_message (OtherException m) = m"

fun bindE :: "'a res \<Rightarrow> ('a \<Rightarrow> 'b res) \<Rightarrow> 'b res" where
  "bindE (Inl e) f = Inl e"
| "bindE (Inr a) f = f a"

definition guardE :: "bool \<Rightarrow> exn \<Rightarrow> unit res" where
  "guardE b e = (if b then Inr () else Inl e)"

lemma bindE_Inr_iff [res_simps]:
  "bindE m f = Inr y \<longleftrightarrow> (\<exists>x. m = Inr x \<and> f x = Inr y)"
  by (cases m) auto

lemma guardE_Inr_iff [res_simps]: "guardE b e = Inr u \<longleftrightarrow> b"
  by (simp add: guardE_def)

lemma guardE_simps [simp]: "guardE True e = Inr ()" "guardE False e = Inl e"
  by (simp_all add: guardE_def)

text \<open>A \<open>for\<close> loop that collects one value per element and stops at the first exception.\<close>

fun mapE :: "('a \<Rightarrow> 'b res) \<Rightarrow> 'a list \<Rightarrow> 'b list res" where
  "mapE f [] = Inr []"
| "mapE f (x # xs) = bindE (f x) (\<lambda>y. bindE (mapE f xs) (\<lambda>ys. Inr (y # ys)))"

text \<open>A \<open>for\<close> loop that threads a state and stops at the first exception.\<close>

fun foldE :: "('a \<Rightarrow> 's \<Rightarrow> 's res) \<Rightarrow> 'a list \<Rightarrow> 's \<Rightarrow> 's res" where
  "foldE f [] s = Inr s"
| "foldE f (x # xs) s = bindE (f x s) (foldE f xs)"

lemma mapE_Inr_iff [res_simps]:
  "mapE f xs = Inr ys \<longleftrightarrow> list_all2 (\<lambda>x y. f x = Inr y) xs ys"
  by (induction xs arbitrary: ys) (auto simp: res_simps list_all2_Cons1)

lemma mapE_ok_iff: "(\<exists>ys. mapE f xs = Inr ys) \<longleftrightarrow> (\<forall>x\<in>set xs. \<exists>y. f x = Inr y)"
  by (induction xs) (auto simp: bindE_Inr_iff)

lemma mapE_length: "mapE f xs = Inr ys \<Longrightarrow> length ys = length xs"
  by (auto simp: res_simps dest: list_all2_lengthD)

lemma mapE_total: "(\<And>x. x \<in> set xs \<Longrightarrow> f x = Inr (g x)) \<Longrightarrow> mapE f xs = Inr (map g xs)"
  by (induction xs) auto

lemma foldE_append: "foldE f (xs @ ys) s = bindE (foldE f xs s) (foldE f ys)"
proof (induction xs arbitrary: s)
  case (Cons x xs)
  then show ?case by (cases "f x s") auto
qed simp

lemma foldE_cong: "(\<And>x a. x \<in> set xs \<Longrightarrow> f x a = g x a) \<Longrightarrow> foldE f xs s = foldE g xs s"
proof (induction xs arbitrary: s)
  case (Cons x xs)
  then show ?case by (cases "g x s") simp_all
qed simp

lemma foldE_invariant:
  assumes "foldE f xs s = Inr s'" and "P s"
    and "\<And>x s s'. x \<in> set xs \<Longrightarrow> P s \<Longrightarrow> f x s = Inr s' \<Longrightarrow> P s'"
  shows "P s'"
  using assms
proof (induction xs arbitrary: s)
  case (Cons x xs)
  from Cons.prems(1) obtain t where t: "f x s = Inr t" "foldE f xs t = Inr s'"
    by (auto simp: res_simps)
  from Cons.prems(3)[OF _ Cons.prems(2) t(1)] have "P t" by simp
  with t(2) Cons.prems(3) show ?case by (intro Cons.IH) auto
qed simp

section \<open>Operations with a state that may fail\<close>

definition bindS :: "'a res \<times> 's \<Rightarrow> ('a \<Rightarrow> 's \<Rightarrow> 'b res \<times> 's) \<Rightarrow> 'b res \<times> 's" where
  "bindS p f = (case p of (Inl e, s) \<Rightarrow> (Inl e, s) | (Inr a, s) \<Rightarrow> f a s)"

text \<open>A \<open>for\<close> loop over such operations; it stops at the first exception.\<close>

fun foldS :: "('a \<Rightarrow> 's \<Rightarrow> unit res \<times> 's) \<Rightarrow> 'a list \<Rightarrow> 's \<Rightarrow> unit res \<times> 's" where
  "foldS f [] s = (Inr (), s)"
| "foldS f (x # xs) s = bindS (f x s) (\<lambda>_. foldS f xs)"

lemma bindS_Inr: "bindS p f = (Inr y, s') \<longleftrightarrow> (\<exists>a s. p = (Inr a, s) \<and> f a s = (Inr y, s'))"
  by (auto simp: bindS_def split: prod.split sum.split)

lemma foldS_invariant:
  assumes "foldS f xs s = (Inr u, s')" and "P s"
    and "\<And>x s s' v. x \<in> set xs \<Longrightarrow> P s \<Longrightarrow> f x s = (Inr v, s') \<Longrightarrow> P s'"
  shows "P s'"
  using assms
proof (induction xs arbitrary: s)
  case (Cons x xs)
  from Cons.prems(1) obtain v t where t: "f x s = (Inr v, t)" "foldS f xs t = (Inr u, s')"
    by (auto simp: bindS_Inr)
  have "P t" by (rule Cons.prems(3)[OF _ Cons.prems(2) t(1)]) simp
  then show ?case using Cons.IH[OF t(2)] Cons.prems(3) by (meson list.set_intros(2))
qed simp

text \<open>A loop that also collects one value per element.\<close>

fun mapS :: "('a \<Rightarrow> 's \<Rightarrow> 'b res \<times> 's) \<Rightarrow> 'a list \<Rightarrow> 's \<Rightarrow> 'b list res \<times> 's" where
  "mapS f [] s = (Inr [], s)"
| "mapS f (x # xs) s = bindS (f x s) (\<lambda>y s. bindS (mapS f xs s) (\<lambda>ys s. (Inr (y # ys), s)))"

text \<open>Invariants that hold however such an operation ends.\<close>

lemma bindS_snd:
  assumes "P (snd p)" and "\<And>a s. p = (Inr a, s) \<Longrightarrow> P s \<Longrightarrow> P (snd (f a s))"
  shows "P (snd (bindS p f))"
  using assms by (auto simp: bindS_def split: prod.split sum.split)

lemma foldS_snd:
  assumes "P s" and "\<And>x s. x \<in> set xs \<Longrightarrow> P s \<Longrightarrow> P (snd (f x s))"
  shows "P (snd (foldS f xs s))"
  using assms
proof (induction xs arbitrary: s)
  case (Cons x xs)
  show ?case unfolding foldS.simps
    by (rule bindS_snd[where P = P]) (use Cons in auto)
qed simp

lemma mapS_snd:
  assumes "P s" and "\<And>x s. x \<in> set xs \<Longrightarrow> P s \<Longrightarrow> P (snd (f x s))"
  shows "P (snd (mapS f xs s))"
  using assms
proof (induction xs arbitrary: s)
  case (Cons x xs)
  show ?case unfolding mapS.simps
  proof (rule bindS_snd[where P = P])
    fix y s
    assume "P s"
    then have "P (snd (mapS f xs s))" using Cons by auto
    then show "P (snd (bindS (mapS f xs s) (\<lambda>ys s. (Inr (y # ys), s))))" by (rule bindS_snd[where P = P]) simp
  qed (use Cons in auto)
qed simp

text \<open>What the steps of a loop establish of their values, for a relation of states that composes.\<close>

lemma mapS_all2:
  assumes "mapS f xs s = (Inr ys, s')"
    and "\<And>x s y s'. x \<in> set xs \<Longrightarrow> f x s = (Inr y, s') \<Longrightarrow> Q x y"
  shows "list_all2 Q xs ys"
  using assms
proof (induction xs arbitrary: s ys)
  case (Cons x xs)
  then obtain y t zs where t: "f x s = (Inr y, t)" "mapS f xs t = (Inr zs, s')" "ys = y # zs" by (auto simp: bindS_Inr)
  then show ?case using Cons.IH[OF t(2)] Cons.prems(2) by auto
qed simp

section \<open>Strings\<close>

text \<open>
  Python strings are modelled as character lists; the program's identifiers and statuses are
  ASCII. \<open>show_nat\<close> is \<open>str(n)\<close> of a nonnegative integer.
\<close>

definition show_digit :: "nat \<Rightarrow> char" where
  "show_digit d = (if d = 0 then CHR ''0'' else if d = 1 then CHR ''1'' else
     if d = 2 then CHR ''2'' else if d = 3 then CHR ''3'' else if d = 4 then CHR ''4'' else
     if d = 5 then CHR ''5'' else if d = 6 then CHR ''6'' else if d = 7 then CHR ''7'' else
     if d = 8 then CHR ''8'' else CHR ''9'')"

fun show_nat :: "nat \<Rightarrow> string" where
  "show_nat n =
     (if n < 10 then [show_digit n] else show_nat (n div 10) @ [show_digit (n mod 10)])"

declare show_nat.simps [simp del]

definition show_int :: "int \<Rightarrow> string" where
  "show_int i = (if i < 0 then CHR ''-'' # show_nat (nat (- i)) else show_nat (nat i))"

definition ends_with :: "string \<Rightarrow> string \<Rightarrow> bool" where
  "ends_with s suf \<longleftrightarrow> length suf \<le> length s \<and> drop (length s - length suf) s = suf"

fun starts_with :: "string \<Rightarrow> string \<Rightarrow> bool" where
  "starts_with s [] = True"
| "starts_with [] (c # p) = False"
| "starts_with (d # s) (c # p) = (d = c \<and> starts_with s p)"

text \<open>\<open>sub in s\<close>.\<close>

fun contains_str :: "string \<Rightarrow> string \<Rightarrow> bool" where
  "contains_str [] sub = (sub = [])"
| "contains_str (c # s) sub = (starts_with (c # s) sub \<or> contains_str s sub)"

text \<open>\<open>sep.join(parts)\<close>.\<close>

fun join_str :: "string \<Rightarrow> string list \<Rightarrow> string" where
  "join_str sep [] = []"
| "join_str sep [s] = s"
| "join_str sep (s # t # ss) = s @ sep @ join_str sep (t # ss)"

lemma starts_with_iff: "starts_with s p \<longleftrightarrow> (\<exists>r. s = p @ r)"
  by (induction s p rule: starts_with.induct) auto

lemma starts_with_append [simp]: "starts_with (p @ r) p"
  by (auto simp: starts_with_iff)

lemma ends_with_append [simp]: "ends_with (s @ suf) suf"
  by (simp add: ends_with_def)

lemma ends_with_iff: "ends_with s suf \<longleftrightarrow> (\<exists>p. s = p @ suf)"
  by (metis append_take_drop_id ends_with_append ends_with_def)

lemma contains_str_iff: "contains_str s sub \<longleftrightarrow> (\<exists>p r. s = p @ sub @ r)"
proof (induction s)
  case (Cons c s)
  show ?case
  proof
    assume "contains_str (c # s) sub"
    then consider "starts_with (c # s) sub" | "contains_str s sub" by auto
    then show "\<exists>p r. c # s = p @ sub @ r"
    proof cases
      case 1
      then show ?thesis by (metis append_Nil starts_with_iff)
    next
      case 2
      with Cons.IH show ?thesis by (metis append_Cons)
    qed
  next
    assume "\<exists>p r. c # s = p @ sub @ r"
    then obtain p r where eq: "c # s = p @ sub @ r" by blast
    show "contains_str (c # s) sub"
    proof (cases p)
      case Nil
      with eq have "starts_with (c # s) sub" by (metis append_Nil starts_with_append)
      then show ?thesis by simp
    next
      case (Cons d p')
      with eq have "s = p' @ sub @ r" by simp
      with Cons.IH show ?thesis by auto
    qed
  qed
qed auto

section \<open>Lists, dictionaries and sorting\<close>

text \<open>
  \<open>{k: v for ...}\<close> keeps the last value of a repeated key: \<open>last_entry\<close> is the lookup in
  the dictionary built by inserting the pairs of a list in order.
\<close>

definition dict_of :: "('k \<times> 'v) list \<Rightarrow> 'k \<rightharpoonup> 'v" where
  "dict_of kvs = map_of (rev kvs)"

lemma dict_of_distinct: "distinct (map fst kvs) \<Longrightarrow> dict_of kvs = map_of kvs"
proof -
  assume d: "distinct (map fst kvs)"
  have "map_of (rev kvs) = map_of kvs"
    by (rule map_of_eqI) (use d in \<open>auto simp: rev_map [symmetric] dest: map_of_SomeD\<close>)
  then show ?thesis by (simp add: dict_of_def)
qed

lemma dom_dict_of: "dom (dict_of kvs) = fst ` set kvs"
  by (simp add: dict_of_def dom_map_of_conv_image_fst)

lemma dict_of_mem: "dict_of kvs k = Some v \<Longrightarrow> (k, v) \<in> set kvs"
  by (auto simp: dict_of_def dest: map_of_SomeD)

lemma mset_concat_list_all2:
  assumes "list_all2 P xs ys" and "\<And>x y. x \<in> set xs \<Longrightarrow> P x y \<Longrightarrow> mset (f y) = mset (g x)"
  shows "mset (concat (map f ys)) = mset (concat (map g xs))"
  using assms by (induction rule: list_all2_induct) auto

lemma list_all2_right:
  "list_all2 P xs ys \<Longrightarrow> y \<in> set ys \<Longrightarrow> \<exists>x\<in>set xs. P x y"
  by (auto simp: list_all2_conv_all_nth in_set_conv_nth) (metis nth_mem)

lemma list_all2_left:
  "list_all2 P xs ys \<Longrightarrow> x \<in> set xs \<Longrightarrow> \<exists>y\<in>set ys. P x y"
  by (auto simp: list_all2_conv_all_nth in_set_conv_nth) (metis nth_mem)

lemma list_all2_map_eq: "list_all2 (\<lambda>x y. f x = Some y) xs ys \<Longrightarrow> ys = map (\<lambda>x. the (f x)) xs"
  by (induction rule: list_all2_induct) auto

text \<open>\<open>sorted(set(xs))\<close>.\<close>

definition sorted_set :: "'a::linorder list \<Rightarrow> 'a list" where
  "sorted_set xs = sort (remdups xs)"

lemma set_sorted_set [simp]: "set (sorted_set xs) = set xs"
  by (simp add: sorted_set_def)

lemma distinct_sorted_set [simp]: "distinct (sorted_set xs)"
  by (simp add: sorted_set_def)

lemma sorted_sorted_set [simp]: "sorted (sorted_set xs)"
  by (simp add: sorted_set_def)

lemma sorted_set_cong: "set xs = set ys \<Longrightarrow> sorted_set xs = sorted_set ys"
  by (metis distinct_sorted_set set_sorted_set sorted_distinct_set_unique sorted_sorted_set)

text \<open>The keys of a \<open>defaultdict(list)\<close> in insertion order: the first occurrences.\<close>

definition first_distinct :: "'a list \<Rightarrow> 'a list" where
  "first_distinct xs = rev (remdups (rev xs))"

lemma set_first_distinct [simp]: "set (first_distinct xs) = set xs"
  by (simp add: first_distinct_def)

lemma distinct_first_distinct [simp]: "distinct (first_distinct xs)"
  by (simp add: first_distinct_def)

lemma first_distinct_Nil [simp]: "first_distinct xs = [] \<longleftrightarrow> xs = []"
  by (simp add: first_distinct_def)

section \<open>Entries that are written once\<close>

text \<open>
  A system whose steps never change a committed entry: \<open>committed s k\<close> is the entry of \<open>k\<close>
  once it is final.
\<close>

locale write_once =
  fixes step :: "'s \<Rightarrow> 's \<Rightarrow> bool"
    and entry :: "'s \<Rightarrow> 'k \<Rightarrow> 'v option"
  assumes entry_kept: "step s s' \<Longrightarrow> entry s k = Some v \<Longrightarrow> entry s' k = Some v"
begin

lemma entry_stable: "step\<^sup>*\<^sup>* s s' \<Longrightarrow> entry s k = Some v \<Longrightarrow> entry s' k = Some v"
  by (induction rule: rtranclp_induct) (auto dest: entry_kept)

lemma entry_agree:
  "step\<^sup>*\<^sup>* s s' \<Longrightarrow> entry s k = Some v \<Longrightarrow> entry s' k = Some w \<Longrightarrow> w = v"
  by (drule (1) entry_stable) simp

lemma holds_forever:
  assumes "step\<^sup>*\<^sup>* s s'" and "entry s k = Some v" and "P v"
  shows "\<exists>v. entry s' k = Some v \<and> P v"
  using entry_stable[OF assms(1,2)] assms(3) by blast

end

end
