(* ===== verification/Records.thy ===== *)
theory Records
  imports Complex_Main Prelude
begin

text \<open>
  The data that cross the harness's components: constraint records
  (\<open>evaluator/__init__.py: record\<close>), manifest cases, quality observations with their checks,
  change scopes and build identities. Each record holds the fields of the corresponding JSON
  object that the modelled code reads; a key that may be absent (read with \<open>.get\<close>) is an
  \<open>option\<close> field. Floating point numbers of these objects are modelled as reals, without
  rounding.
\<close>

section \<open>Constraint records\<close>

datatype dval =
    DStr string
  | DReal real
  | DNat nat
  | DBool bool
  | DStrs "string list"

record crec =
  cr_id :: string
  cr_kind :: string
  cr_result :: string
  cr_subject :: string
  cr_reference :: string
  cr_details :: "(string \<times> dval) list"

text \<open>\<open>record(id_, kind, result, subject="evolved", **details)\<close>.\<close>

definition record_of ::
    "string \<Rightarrow> string \<Rightarrow> string \<Rightarrow> string \<Rightarrow> (string \<times> dval) list \<Rightarrow> crec" where
  "record_of i k r s d =
     \<lparr>cr_id = i, cr_kind = k, cr_result = r, cr_subject = s, cr_reference = ''baseline'',
      cr_details = d\<rparr>"

lemma record_of_sel [simp]:
  "cr_id (record_of i k r s d) = i" "cr_kind (record_of i k r s d) = k"
  "cr_result (record_of i k r s d) = r" "cr_subject (record_of i k r s d) = s"
  "cr_details (record_of i k r s d) = d"
  by (simp_all add: record_of_def)

definition KINDS :: "string list" where
  "KINDS = [''harness'', ''correctness'', ''guard'', ''cost'', ''improvement'', ''completeness'']"

definition RESULTS :: "string list" where
  "RESULTS = [''passed'', ''failed'', ''passed_on_rerun'', ''unresolved'', ''not_evaluated'']"

text \<open>The dictionary \<open>{r["id"]: r for r in records}\<close>: a later record of the same ID wins.\<close>

definition by_id :: "crec list \<Rightarrow> string \<Rightarrow> crec option" where
  "by_id rs i = dict_of (map (\<lambda>r. (cr_id r, r)) rs) i"

text \<open>\<open>by_id.get(i, {}).get("result")\<close>.\<close>

definition result_of :: "crec list \<Rightarrow> string \<Rightarrow> string option" where
  "result_of rs i = map_option cr_result (by_id rs i)"

lemma by_id_Some: "by_id rs i = Some r \<Longrightarrow> r \<in> set rs \<and> cr_id r = i"
  by (auto simp: by_id_def dict_of_def dest!: map_of_SomeD)

lemma by_id_None: "by_id rs i = None \<longleftrightarrow> i \<notin> cr_id ` set rs"
  by (force simp: by_id_def dict_of_def map_of_eq_None_iff)

lemma by_id_unique:
  assumes "distinct (map cr_id rs)" and "r \<in> set rs"
  shows "by_id rs (cr_id r) = Some r"
proof -
  obtain r' where r': "by_id rs (cr_id r) = Some r'"
    using assms(2) by (metis by_id_None image_eqI not_None_eq)
  with by_id_Some have "r' \<in> set rs" "cr_id r' = cr_id r" by blast+
  with assms have "r' = r" by (meson distinct_map inj_on_def)
  with r' show ?thesis by simp
qed

lemma by_id_Some_iff:
  "distinct (map cr_id rs) \<Longrightarrow> by_id rs i = Some r \<longleftrightarrow> r \<in> set rs \<and> cr_id r = i"
  using by_id_Some by_id_unique by blast

lemma by_id_set_cong:
  assumes "distinct (map cr_id rs)" "distinct (map cr_id rs')" "set rs = set rs'"
  shows "by_id rs = by_id rs'"
proof
  fix i
  show "by_id rs i = by_id rs' i"
    using assms by_id_Some_iff[OF assms(1), of i] by_id_Some_iff[OF assms(2), of i]
    by (metis option.exhaust)
qed

section \<open>Cases of a manifest\<close>

datatype metric = D2 | N2

fun metric_name :: "metric \<Rightarrow> string" where
  "metric_name D2 = ''D2''"
| "metric_name N2 = ''N2''"

record artifact =
  a_file :: string
  a_sha256 :: string

datatype semantic_reference = RefInput | RefFrozen artifact

record tcase =
  case_id :: string
  role :: string
  weight :: real
  panel :: "string option"
  seeds_per_block :: nat
  family :: string
  optimization_level :: nat
  size_band :: string
  topology :: string
  native_basis :: string
  input_group :: string
  variant :: "string option"
  modes :: "string list"
  expected :: "metric \<Rightarrow> int option"
  circuit :: artifact
  target :: artifact
  semantic_ref :: semantic_reference
  clifford_variant :: "artifact option"
  input_domain :: string
  constraint_form :: string
  logical_qubits :: nat
  initial_layout :: "int list option"
  fixed_seed :: nat
  timeout_s :: nat
  qubits_initially_zero :: bool

definition reference_sha :: "tcase \<Rightarrow> string" where
  "reference_sha c = (case semantic_ref c of RefInput \<Rightarrow> a_sha256 (circuit c)
                      | RefFrozen a \<Rightarrow> a_sha256 a)"

text \<open>\<open>STAGES\<close> of \<open>config/__init__.py\<close>: the pipeline stages of the transpiler.\<close>

definition PIPELINE_STAGES :: "string list" where
  "PIPELINE_STAGES = [''init'', ''layout'', ''routing'', ''translation'', ''optimization'',
     ''scheduling'']"

section \<open>Observations and checks\<close>

record check =
  ck_status :: string
  ck_oracle :: "string option"
  ck_mode :: "string option"
  ck_reference_hash :: "string option"
  ck_input_domain :: "string option"
  ck_covers :: "string list"
  ck_substituted :: "string list"
  ck_case_id :: "string option"
  ck_revision :: "string option"
  ck_union_width :: "nat option"

record observation =
  ob_id :: string
  ob_case_id :: string
  ob_revision :: string
  ob_seed :: nat
  ob_seed_block :: string
  ob_mode :: string
  ob_metrics :: "metric \<Rightarrow> int option"
  ob_checks :: "check list"
  ob_output_hash :: "string option"
  ob_layout :: string
  ob_cached_from :: "string option"

record scope =
  sc_stages :: "string list"
  sc_components :: "string list"
  sc_unmapped :: "string list"

section \<open>Builds\<close>

text \<open>\<open>run["builds"]\<close>: the identity of each revision's build, when it was built.\<close>

record builds =
  b_baseline :: "string option"
  b_evolved :: "string option"

definition profile_prefix :: "string \<Rightarrow> string" where
  "profile_prefix profile = (if profile = ''confirm-profile'' then ''CA'' else ''IA'')"

section \<open>A sample case\<close>

text \<open>The case on which the theories evaluate their definitions.\<close>

definition demo_artifact :: artifact where
  "demo_artifact = \<lparr>a_file = ''circuits/a'', a_sha256 = ''00''\<rparr>"

definition demo_case :: "string \<Rightarrow> string \<Rightarrow> real \<Rightarrow> tcase" where
  "demo_case i r w = \<lparr>case_id = i, role = r, weight = w, panel = None, seeds_per_block = 2,
     family = ''G1'', optimization_level = 2, size_band = ''large'', topology = ''heavy_hex'',
     native_basis = ''cz'', input_group = ''qft'', variant = None, modes = [''quality''],
     expected = (\<lambda>_. None), circuit = demo_artifact, target = demo_artifact,
     semantic_ref = RefInput, clifford_variant = None, input_domain = ''all_zero'',
     constraint_form = ''target'', logical_qubits = 2, initial_layout = None, fixed_seed = 0,
     timeout_s = 120, qubits_initially_zero = True\<rparr>"

end
