(* ===== verification/Verdict.thy ===== *)
theory Verdict
  imports Records
begin

text \<open>
  The fail-closed verdict: \<open>src/src/qtb/evaluator/__init__.py\<close>, \<open>verdict\<close> and
  \<open>EXIT_CODES\<close>, and the status that \<open>reporter/__init__.py: make_decision\<close> puts on a
  decision. The lemmas characterise each verdict by the records it can come from, show that it
  depends only on the sets of records and required IDs, and that no passing verdict exists
  with a failed or missing required record.
\<close>

section \<open>The verdict function\<close>

definition is_improvement_id :: "string \<Rightarrow> bool" where
  "is_improvement_id i = ends_with i ''/improvement''"

definition misnamed_improvement :: "crec list \<Rightarrow> string \<Rightarrow> bool" where
  "misnamed_improvement rs i =
     (is_improvement_id i \<and>
      (case by_id rs i of None \<Rightarrow> False | Some r \<Rightarrow> cr_kind r \<noteq> ''improvement''))"

definition check_row :: "crec \<Rightarrow> unit res" where
  "check_row r =
     (if cr_kind r \<notin> set KINDS \<or> cr_result r \<notin> set RESULTS
         \<or> cr_subject r \<notin> {''evolved'', ''reference''}
      then Inl (HarnessError ''Invalid constraint record'')
      else if cr_result r = ''passed_on_rerun'' \<and> cr_kind r \<noteq> ''cost''
      then Inl (HarnessError ''Only cost checks may pass on rerun'')
      else Inr ())"

definition classify_records :: "crec list \<Rightarrow> string list \<Rightarrow> string" where
  "classify_records rs required =
     (let failed = filter (\<lambda>r. cr_result r = ''failed'') rs in
      if list_ex (\<lambda>r. cr_kind r = ''harness'') failed then ''ERROR''
      else if list_ex (\<lambda>r. cr_subject r = ''evolved'' \<and> cr_kind r \<noteq> ''improvement'') failed
      then ''CONSTRAINT_VIOLATION''
      else if list_ex (\<lambda>r. cr_subject r = ''reference'') failed then ''INCONCLUSIVE''
      else if list_ex (\<lambda>r. cr_kind r = ''improvement'') failed then ''NO_IMPROVEMENT''
      else if list_all (\<lambda>i. result_of rs i \<in> {Some ''passed'', Some ''passed_on_rerun''}) required
      then ''PASS''
      else ''INCONCLUSIVE'')"

definition verdict :: "crec list \<Rightarrow> string list \<Rightarrow> string res" where
  "verdict rs required_ids =
     (if required_ids = [] \<or> \<not> distinct required_ids
      then Inl (HarnessError ''Required record IDs must be nonempty and unique'')
      else if \<not> distinct (map cr_id rs)
      then Inl (HarnessError ''Duplicate constraint record ID'')
      else if \<not> list_ex is_improvement_id required_ids
      then Inl (HarnessError ''Required IDs must include an improvement record'')
      else if list_ex (misnamed_improvement rs) required_ids
      then Inl (HarnessError ''An improvement ID must contain an improvement record'')
      else bindE (mapE check_row rs) (\<lambda>_. Inr (classify_records rs required_ids)))"

text \<open>\<open>EXIT_CODES\<close>.\<close>

definition exit_code :: "string \<Rightarrow> nat option" where
  "exit_code = map_of [(''PASS'', 0), (''NO_IMPROVEMENT'', 10), (''CONSTRAINT_VIOLATION'', 20),
     (''INCONCLUSIVE'', 30), (''ERROR'', 40)]"

text \<open>
  \<open>make_decision\<close>: the session's status (\<open>INCONCLUSIVE\<close> while a required stage is
  pending) overrides every verdict but \<open>ERROR\<close>.
\<close>

definition decision_status :: "crec list \<Rightarrow> string list \<Rightarrow> string option \<Rightarrow> string res" where
  "decision_status rs required_ids session_status =
     bindE (verdict rs required_ids) (\<lambda>status.
       Inr (case session_status of
              None \<Rightarrow> status
            | Some s \<Rightarrow> if status \<noteq> ''ERROR'' then s else status))"

section \<open>Well-formed inputs\<close>

definition row_ok :: "crec \<Rightarrow> bool" where
  "row_ok r \<longleftrightarrow> cr_kind r \<in> set KINDS \<and> cr_result r \<in> set RESULTS
     \<and> cr_subject r \<in> {''evolved'', ''reference''}
     \<and> (cr_result r = ''passed_on_rerun'' \<longrightarrow> cr_kind r = ''cost'')"

definition verdict_input_ok :: "crec list \<Rightarrow> string list \<Rightarrow> bool" where
  "verdict_input_ok rs required \<longleftrightarrow>
     required \<noteq> [] \<and> distinct required \<and> distinct (map cr_id rs)
     \<and> (\<exists>i\<in>set required. is_improvement_id i)
     \<and> (\<forall>i\<in>set required. \<forall>r\<in>set rs.
          is_improvement_id i \<longrightarrow> cr_id r = i \<longrightarrow> cr_kind r = ''improvement'')
     \<and> (\<forall>r\<in>set rs. row_ok r)"

lemma check_row_Inr: "check_row r = Inr u \<longleftrightarrow> row_ok r"
  by (auto simp: check_row_def row_ok_def)

lemma mapE_check_row: "(\<exists>us. mapE check_row rs = Inr us) \<longleftrightarrow> (\<forall>r\<in>set rs. row_ok r)"
  by (simp only: mapE_ok_iff check_row_Inr) simp

lemma misnamed_improvement_iff:
  "distinct (map cr_id rs) \<Longrightarrow> misnamed_improvement rs i \<longleftrightarrow>
     is_improvement_id i \<and> (\<exists>r\<in>set rs. cr_id r = i \<and> cr_kind r \<noteq> ''improvement'')"
proof (cases "by_id rs i")
  case None
  then have "i \<notin> cr_id ` set rs" by (simp add: by_id_None)
  with None show ?thesis by (auto simp: misnamed_improvement_def)
next
  case (Some r)
  assume d: "distinct (map cr_id rs)"
  from Some by_id_Some have "r \<in> set rs" "cr_id r = i" by blast+
  moreover have "r' = r" if "r' \<in> set rs" "cr_id r' = i" for r'
    using by_id_unique[OF d that(1)] that(2) Some by simp
  ultimately have "(\<exists>r'\<in>set rs. cr_id r' = i \<and> cr_kind r' \<noteq> ''improvement'')
      \<longleftrightarrow> cr_kind r \<noteq> ''improvement''"
    by metis
  then show ?thesis by (simp add: misnamed_improvement_def Some)
qed

lemma verdict_Inr_iff:
  "verdict rs required = Inr v \<longleftrightarrow>
     verdict_input_ok rs required \<and> v = classify_records rs required"
proof (cases "distinct (map cr_id rs)")
  case True
  show ?thesis
    unfolding verdict_def verdict_input_ok_def
    using mapE_check_row[of rs] True
    by (auto simp: res_simps list_ex_iff misnamed_improvement_iff)
next
  case False
  then show ?thesis by (simp add: verdict_def verdict_input_ok_def)
qed

section \<open>What each verdict says of the records\<close>

lemma row_ok_subject: "row_ok r \<Longrightarrow> cr_subject r \<noteq> ''evolved'' \<Longrightarrow> cr_subject r = ''reference''"
  by (auto simp: row_ok_def)

lemma result_of_passed_iff:
  "distinct (map cr_id rs) \<Longrightarrow>
     result_of rs i \<in> {Some ''passed'', Some ''passed_on_rerun''} \<longleftrightarrow>
     (\<exists>r\<in>set rs. cr_id r = i \<and> cr_result r \<in> {''passed'', ''passed_on_rerun''})"
  by (auto simp: result_of_def by_id_Some_iff)

definition failed_with :: "crec list \<Rightarrow> (crec \<Rightarrow> bool) \<Rightarrow> bool" where
  "failed_with rs P \<longleftrightarrow> (\<exists>r\<in>set rs. cr_result r = ''failed'' \<and> P r)"

definition all_passed :: "crec list \<Rightarrow> string list \<Rightarrow> bool" where
  "all_passed rs required \<longleftrightarrow> (\<forall>i\<in>set required. \<exists>r\<in>set rs.
     cr_id r = i \<and> cr_result r \<in> {''passed'', ''passed_on_rerun''})"

lemma list_ex_failed:
  "list_ex P (filter (\<lambda>r. cr_result r = ''failed'') rs) = failed_with rs P"
  by (auto simp: failed_with_def list_ex_iff)

lemma list_all_passed:
  "distinct (map cr_id rs) \<Longrightarrow>
     list_all (\<lambda>i. result_of rs i \<in> {Some ''passed'', Some ''passed_on_rerun''}) required
     = all_passed rs required"
  by (simp only: list_all_iff all_passed_def result_of_passed_iff)

text \<open>The verdict as a cascade of conditions on the set of records.\<close>

lemma classify_records_alt:
  assumes "distinct (map cr_id rs)"
  shows "classify_records rs required =
     (if failed_with rs (\<lambda>r. cr_kind r = ''harness'') then ''ERROR''
      else if failed_with rs (\<lambda>r. cr_subject r = ''evolved'' \<and> cr_kind r \<noteq> ''improvement'')
      then ''CONSTRAINT_VIOLATION''
      else if failed_with rs (\<lambda>r. cr_subject r = ''reference'') then ''INCONCLUSIVE''
      else if failed_with rs (\<lambda>r. cr_kind r = ''improvement'') then ''NO_IMPROVEMENT''
      else if all_passed rs required then ''PASS'' else ''INCONCLUSIVE'')"
  unfolding classify_records_def Let_def list_ex_failed list_all_passed[OF assms] ..

lemma failed_with_set_cong: "set rs = set rs' \<Longrightarrow> failed_with rs = failed_with rs'"
  by (simp add: failed_with_def fun_eq_iff)

lemma all_passed_cong:
  "set rs = set rs' \<Longrightarrow> set required = set required' \<Longrightarrow>
     all_passed rs required = all_passed rs' required'"
  by (simp add: all_passed_def)

lemma failed_without_harness_evolved:
  assumes "\<forall>r\<in>set rs. row_ok r" and "r \<in> set rs" and "cr_result r = ''failed''"
    and "\<not> failed_with rs (\<lambda>r. cr_subject r = ''evolved'' \<and> cr_kind r \<noteq> ''improvement'')"
    and "\<not> failed_with rs (\<lambda>r. cr_subject r = ''reference'')"
  shows "failed_with rs (\<lambda>r. cr_kind r = ''improvement'')"
  using assms row_ok_subject unfolding failed_with_def by blast

lemma classify_PASS_iff:
  assumes "verdict_input_ok rs required"
  shows "classify_records rs required = ''PASS'' \<longleftrightarrow>
     (\<forall>r\<in>set rs. cr_result r \<noteq> ''failed'') \<and> all_passed rs required"
proof -
  have d: "distinct (map cr_id rs)" and ok: "\<forall>r\<in>set rs. row_ok r"
    using assms by (auto simp: verdict_input_ok_def)
  show ?thesis
  proof (cases "\<forall>r\<in>set rs. cr_result r \<noteq> ''failed''")
    case True
    then have "\<not> failed_with rs P" for P by (simp add: failed_with_def)
    then show ?thesis using True by (simp add: classify_records_alt[OF d])
  next
    case False
    then obtain r where "r \<in> set rs" "cr_result r = ''failed''" by blast
    from failed_without_harness_evolved[OF ok this] False
    show ?thesis by (auto simp: classify_records_alt[OF d])
  qed
qed

lemma classify_set_cong:
  assumes "distinct (map cr_id rs)" "distinct (map cr_id rs')"
    and "set rs = set rs'" "set required = set required'"
  shows "classify_records rs required = classify_records rs' required'"
  unfolding classify_records_alt[OF assms(1)] classify_records_alt[OF assms(2)]
    failed_with_set_cong[OF assms(3)] all_passed_cong[OF assms(3,4)] ..

lemma verdict_input_ok_cong:
  assumes "distinct (map cr_id rs')" "distinct required'" "set rs = set rs'"
    and "set required = set required'" "verdict_input_ok rs required"
  shows "verdict_input_ok rs' required'"
  using assms unfolding verdict_input_ok_def by (metis set_empty2)

section \<open>Properties\<close>

text \<open>
  C1. The gate is fail-closed: \<open>verdict\<close> answers \<open>PASS\<close> exactly when its inputs are well
  formed (unique IDs, an improvement ID among the required ones, only valid records), no record
  whatever failed (required or not, of the evolved subject or of the reference), and every
  required ID has a record that passed. In particular a required record that is missing,
  unresolved or not evaluated never passes.
\<close>

theorem verdict_pass_iff:
  "verdict rs required = Inr ''PASS'' \<longleftrightarrow>
     verdict_input_ok rs required \<and> (\<forall>r\<in>set rs. cr_result r \<noteq> ''failed'')
     \<and> (\<forall>i\<in>set required. \<exists>r\<in>set rs.
          cr_id r = i \<and> cr_result r \<in> {''passed'', ''passed_on_rerun''})"
proof -
  have "verdict rs required = Inr ''PASS'' \<longleftrightarrow>
      verdict_input_ok rs required \<and> classify_records rs required = ''PASS''"
    unfolding verdict_Inr_iff by metis
  then show ?thesis
    using classify_PASS_iff[of rs required] unfolding all_passed_def by blast
qed

text \<open>
  The verdict does not depend on the order in which the records were collected or the
  required IDs were listed: permuting either list gives the same verdict, and an input is
  accepted in one order exactly when it is accepted in the other.
\<close>

theorem verdict_order_independent:
  assumes "mset rs' = mset rs" and "mset required' = mset required"
  shows "verdict rs' required' = Inr v \<longleftrightarrow> verdict rs required = Inr v"
proof -
  have sets: "set rs' = set rs" "set required' = set required"
    using assms by (metis set_mset_mset)+
  have d: "distinct (map cr_id rs') = distinct (map cr_id rs)"
    using assms(1) by (metis mset_eq_imp_distinct_iff mset_map)
  have d': "distinct required' = distinct required"
    using assms(2) by (rule mset_eq_imp_distinct_iff)
  have ok: "verdict_input_ok rs' required' = verdict_input_ok rs required"
  proof -
    have "(required' = []) = (required = [])" using sets(2) by (metis set_empty)
    then show ?thesis unfolding verdict_input_ok_def sets d d' by simp
  qed
  have "classify_records rs' required' = classify_records rs required"
    if "verdict_input_ok rs required"
    using that d sets by (intro classify_set_cong) (auto simp: verdict_input_ok_def)
  with ok show ?thesis by (auto simp: verdict_Inr_iff)
qed

lemma classify_records_exit_code:
  "\<exists>n. exit_code (classify_records rs required) = Some n
     \<and> (n = 0 \<longleftrightarrow> classify_records rs required = ''PASS'')"
  unfolding classify_records_def Let_def
  by (simp split: if_split add: exit_code_def)

lemma exit_code_INCONCLUSIVE: "exit_code ''INCONCLUSIVE'' = Some 30"
  by (simp add: exit_code_def)

text \<open>
  Every verdict has an exit code, and the decision's process exits with 0 exactly on
  \<open>PASS\<close>; a decision over a session with pending stages (session status
  \<open>INCONCLUSIVE\<close>) never exits with 0.
\<close>

theorem decision_exit_code:
  assumes "decision_status rs required session = Inr v"
    and "session \<in> {None, Some ''INCONCLUSIVE''}"
  shows "\<exists>n. exit_code v = Some n
    \<and> (n = 0 \<longleftrightarrow> session = None \<and> verdict rs required = Inr ''PASS'')"
proof -
  obtain s where s: "verdict rs required = Inr s"
    and v: "v = (case session of None \<Rightarrow> s | Some t \<Rightarrow> if s \<noteq> ''ERROR'' then t else s)"
    using assms(1) unfolding decision_status_def bindE_Inr_iff by blast
  have c: "s = classify_records rs required" using s by (simp add: verdict_Inr_iff)
  obtain n where n: "exit_code s = Some n" "n = 0 \<longleftrightarrow> s = ''PASS''"
    using classify_records_exit_code c by blast
  show ?thesis
  proof (cases "session = None \<or> s = ''ERROR''")
    case True
    with v have "v = s" by (auto split: option.splits)
    with n s True show ?thesis by auto
  next
    case False
    with v assms(2) have "v = ''INCONCLUSIVE''" by auto
    with False exit_code_INCONCLUSIVE show ?thesis by auto
  qed
qed

definition demo_records :: "crec list" where
  "demo_records = [record_of ''IA2/improvement'' ''improvement'' ''passed'' ''evolved'' [],
     record_of ''IA1/exact'' ''guard'' ''passed'' ''evolved'' []]"

definition demo_required :: "string list" where
  "demo_required = [''IA1/exact'', ''IA2/improvement'']"

theorem verdict_order_independent_witness:
  "verdict (rev demo_records) (rev demo_required) = Inr ''PASS''
     \<longleftrightarrow> verdict demo_records demo_required = Inr ''PASS''"
  using verdict_order_independent[of "rev demo_records" demo_records "rev demo_required"
      demo_required "''PASS''"] by simp

theorem decision_exit_code_witness:
  "\<exists>v n. decision_status demo_records demo_required (Some ''INCONCLUSIVE'') = Inr v
     \<and> exit_code v = Some n \<and> n \<noteq> 0"
proof -
  have ok: "verdict_input_ok demo_records demo_required"
    unfolding verdict_input_ok_def demo_records_def demo_required_def row_ok_def
    by (simp add: record_of_def KINDS_def RESULTS_def is_improvement_id_def ends_with_def)
  then obtain s where "verdict demo_records demo_required = Inr s"
    by (simp add: verdict_Inr_iff)
  then obtain v where v:
    "decision_status demo_records demo_required (Some ''INCONCLUSIVE'') = Inr v"
    by (simp add: decision_status_def)
  from decision_exit_code[OF v] show ?thesis using v by auto
qed

theorem verdict_pass_iff_witness:
  "verdict demo_records demo_required = Inr ''PASS''"
proof -
  have "verdict_input_ok demo_records demo_required"
    unfolding verdict_input_ok_def demo_records_def demo_required_def row_ok_def
    by (simp add: record_of_def KINDS_def RESULTS_def is_improvement_id_def ends_with_def)
  moreover have "\<forall>r\<in>set demo_records. cr_result r \<noteq> ''failed''"
    by (simp add: demo_records_def)
  moreover have "\<forall>i\<in>set demo_required. \<exists>r\<in>set demo_records.
      cr_id r = i \<and> cr_result r \<in> {''passed'', ''passed_on_rerun''}"
    by (simp add: demo_records_def demo_required_def)
  ultimately show ?thesis unfolding verdict_pass_iff by blast
qed

end
