(* ===== verification/Statistics.thy ===== *)
theory Statistics
  imports Records
begin

text \<open>
  The paired quality estimators of \<open>src/src/qtb/evaluator/statistics.py\<close>: the estimate of a
  block of log ratios, the weighted panel over paired seeds, the frozen hierarchical weights and
  the quantile. Floats are reals; \<open>math.isfinite\<close> is then always true. The report-only
  \<open>cluster_bootstrap\<close>, which draws from a random generator, is not modelled.
\<close>

section \<open>Estimates\<close>

record estimate =
  e_ln_score :: real
  e_score :: real
  e_SE :: real
  e_ln_plus_2SE :: real
  e_deltas :: "real list"

definition fmean :: "real list \<Rightarrow> real" where
  "fmean xs = sum_list xs / real (length xs)"

definition stdev :: "real list \<Rightarrow> real" where
  "stdev xs =
     sqrt (sum_list (map (\<lambda>x. (x - fmean xs)\<^sup>2) xs) / (real (length xs) - 1))"

definition estimate :: "real list \<Rightarrow> estimate res" where
  "estimate deltas =
     (if length deltas < 2
      then Inl (Incomplete ''At least two finite paired observations are required'')
      else
        (let mean = fmean deltas; se = stdev deltas / sqrt (real (length deltas)) in
         Inr \<lparr>e_ln_score = mean, e_score = exp mean, e_SE = se,
              e_ln_plus_2SE = mean + 2 * se, e_deltas = deltas\<rparr>))"

lemma estimate_total: "2 \<le> length ds \<Longrightarrow> \<exists>e. estimate ds = Inr e"
  by (simp add: estimate_def Let_def)

lemma estimate_Inr:
  "estimate ds = Inr e \<Longrightarrow> 2 \<le> length ds \<and> e_ln_score e = fmean ds
     \<and> e_score e = exp (fmean ds) \<and> e_SE e = stdev ds / sqrt (real (length ds))
     \<and> e_ln_plus_2SE e = fmean ds + 2 * e_SE e \<and> e_deltas e = ds"
  by (auto simp: estimate_def Let_def split: if_splits)

lemma stdev_nonneg: "1 \<le> length xs \<Longrightarrow> 0 \<le> stdev xs"
  by (auto simp: stdev_def intro!: divide_nonneg_nonneg sum_list_nonneg)

lemma estimate_SE_nonneg: "estimate ds = Inr e \<Longrightarrow> 0 \<le> e_SE e"
  using stdev_nonneg[of ds] by (auto dest!: estimate_Inr)

lemma fmean_replicate [simp]: "0 < n \<Longrightarrow> fmean (replicate n x) = x"
  by (simp add: fmean_def sum_list_replicate)

lemma stdev_replicate [simp]: "0 < n \<Longrightarrow> stdev (replicate n x) = 0"
  by (simp add: stdev_def sum_list_replicate)

section \<open>The paired panel\<close>

type_synonym obs_table = "string \<Rightarrow> string \<Rightarrow> nat \<Rightarrow> observation option"

record case_panel =
  cp_case :: string
  cp_estimate :: estimate
  cp_worst_seed :: nat

record panel_result =
  p_estimate :: estimate
  p_metric :: metric
  p_cases :: "case_panel list"
  p_seeds :: "nat list"

text \<open>\<open>observations[case_id, revision, seed][metric]\<close>; \<open>None\<close> is the \<open>KeyError\<close>.\<close>

definition obs_metric :: "obs_table \<Rightarrow> string \<Rightarrow> string \<Rightarrow> nat \<Rightarrow> metric \<Rightarrow> int option" where
  "obs_metric obs c rv s m =
     (case obs c rv s of None \<Rightarrow> None | Some row \<Rightarrow> ob_metrics row m)"

definition paired_difference :: "obs_table \<Rightarrow> metric \<Rightarrow> string \<Rightarrow> nat \<Rightarrow> real res" where
  "paired_difference obs m c seed =
     (case (obs_metric obs c ''baseline'' seed m, obs_metric obs c ''evolved'' seed m) of
        (Some ref, Some candidate) \<Rightarrow>
          if min ref candidate \<le> 0
          then Inl (Incomplete (''Non-positive or invalid '' @ metric_name m @ '': '' @ c
                                @ '', seed '' @ show_nat seed))
          else Inr (ln (real_of_int candidate) - ln (real_of_int ref))
      | _ \<Rightarrow> Inl (Incomplete (''Missing '' @ metric_name m @ '': '' @ c
                                @ '', seed '' @ show_nat seed)))"

text \<open>\<open>max(range(len(seeds)), key=differences.__getitem__)\<close>: the first index of the maximum.\<close>

fun argmax_from :: "real list \<Rightarrow> nat \<Rightarrow> nat \<Rightarrow> real \<Rightarrow> nat" where
  "argmax_from [] i best v = best"
| "argmax_from (x # xs) i best v =
     (if v < x then argmax_from xs (Suc i) i x else argmax_from xs (Suc i) best v)"

definition argmax :: "real list \<Rightarrow> nat" where
  "argmax xs = (case xs of [] \<Rightarrow> 0 | x # ys \<Rightarrow> argmax_from ys 1 0 x)"

definition case_differences :: "obs_table \<Rightarrow> metric \<Rightarrow> nat list \<Rightarrow> string \<Rightarrow> real list res" where
  "case_differences obs m seeds c = mapE (paired_difference obs m c) seeds"

definition case_estimate ::
    "obs_table \<Rightarrow> metric \<Rightarrow> nat list \<Rightarrow> string \<Rightarrow> (real list \<times> case_panel) res" where
  "case_estimate obs m seeds c =
     bindE (case_differences obs m seeds c) (\<lambda>ds.
     bindE (estimate ds) (\<lambda>e.
     Inr (ds, \<lparr>cp_case = c, cp_estimate = e, cp_worst_seed = seeds ! argmax ds\<rparr>)))"

text \<open>\<open>deltas[i] += weights[case_id] / tot * difference\<close> for every seed index.\<close>

definition add_weighted :: "real \<Rightarrow> real list \<Rightarrow> real list \<Rightarrow> real list" where
  "add_weighted f ds acc = map2 (\<lambda>a d. a + f * d) acc ds"

fun accumulate :: "real \<Rightarrow> (real \<times> real list) list \<Rightarrow> real list \<Rightarrow> real list" where
  "accumulate tot [] acc = acc"
| "accumulate tot ((w, ds) # rows) acc =
     accumulate tot rows (add_weighted (w / tot) ds acc)"

definition case_weights :: "tcase list \<Rightarrow> (string \<rightharpoonup> real) option \<Rightarrow> string \<rightharpoonup> real" where
  "case_weights cases weights =
     (case weights of Some w \<Rightarrow> w
      | None \<Rightarrow> dict_of (map (\<lambda>c. (case_id c, weight c)) cases))"

definition lookupE :: "('k \<rightharpoonup> 'v) \<Rightarrow> 'k \<Rightarrow> 'v res" where
  "lookupE m k = (case m k of None \<Rightarrow> Inl KeyError | Some v \<Rightarrow> Inr v)"

definition paired_panel ::
    "tcase list \<Rightarrow> obs_table \<Rightarrow> metric \<Rightarrow> nat list \<Rightarrow> (string \<rightharpoonup> real) option
     \<Rightarrow> panel_result res" where
  "paired_panel cases obs m seeds weights =
     (if cases = [] \<or> length seeds < 2 \<or> \<not> distinct seeds
      then Inl (Incomplete ''Empty panel or invalid seed block'')
      else
        bindE (mapE (\<lambda>c. lookupE (case_weights cases weights) (case_id c)) cases) (\<lambda>ws.
        let tot = sum_list ws in
        if tot \<le> 0 \<or> list_ex (\<lambda>w. w \<le> 0) ws
        then Inl (HarnessError ''Positive panel weights required'')
        else
          bindE (mapE (\<lambda>c. case_estimate obs m seeds (case_id c)) cases) (\<lambda>rows.
          bindE (estimate (accumulate tot (zip ws (map fst rows))
                            (replicate (length seeds) 0))) (\<lambda>e.
          Inr \<lparr>p_estimate = e, p_metric = m, p_cases = map snd rows, p_seeds = seeds\<rparr>))))"

lemma paired_difference_Inr:
  "paired_difference obs m c s = Inr d \<longleftrightarrow>
     (\<exists>ref candidate. obs_metric obs c ''baseline'' s m = Some ref
        \<and> obs_metric obs c ''evolved'' s m = Some candidate \<and> 0 < ref \<and> 0 < candidate
        \<and> d = ln (real_of_int candidate) - ln (real_of_int ref))"
  by (auto simp: paired_difference_def split: option.splits)

lemma case_differences_length:
  "case_differences obs m seeds c = Inr ds \<Longrightarrow> length ds = length seeds"
  by (simp add: case_differences_def mapE_length)

lemma case_estimate_Inr:
  "case_estimate obs m seeds c = Inr (ds, cp) \<longleftrightarrow>
     case_differences obs m seeds c = Inr ds
     \<and> (\<exists>e. estimate ds = Inr e
          \<and> cp = \<lparr>cp_case = c, cp_estimate = e, cp_worst_seed = seeds ! argmax ds\<rparr>)"
  by (auto simp: case_estimate_def res_simps)

lemma length_add_weighted [simp]:
  "length ds = length acc \<Longrightarrow> length (add_weighted f ds acc) = length acc"
  by (simp add: add_weighted_def)

lemma sum_list_add_weighted:
  "length ds = length acc \<Longrightarrow>
     sum_list (add_weighted f ds acc) = sum_list acc + f * sum_list ds"
  unfolding add_weighted_def
  by (induction acc ds rule: list_induct2') (auto simp: algebra_simps)

lemma length_accumulate:
  "\<forall>r\<in>set rows. length (snd r) = length acc \<Longrightarrow> length (accumulate tot rows acc) = length acc"
  by (induction tot rows acc rule: accumulate.induct) auto

lemma sum_list_scale: "sum_list (map (\<lambda>x. x * k) xs) = sum_list xs * k" for k :: real
  by (induction xs) (auto simp: algebra_simps)

lemma sum_list_accumulate:
  "\<forall>r\<in>set rows. length (snd r) = length acc \<Longrightarrow>
     sum_list (accumulate tot rows acc)
     = sum_list acc + sum_list (map (\<lambda>(w, ds). w / tot * sum_list ds) rows)"
  by (induction tot rows acc rule: accumulate.induct) (auto simp: sum_list_add_weighted)

text \<open>
  The intermediate values of a panel that succeeds: the weights, the per-case rows, and what each
  of them satisfies.
\<close>

lemma paired_panel_Inr:
  assumes "paired_panel cases obs m seeds weights = Inr p"
  obtains ws rows where
    "cases \<noteq> []" "2 \<le> length seeds" "distinct seeds"
    "list_all2 (\<lambda>c w. case_weights cases weights (case_id c) = Some w) cases ws"
    "0 < sum_list ws" "\<forall>w\<in>set ws. 0 < w"
    "list_all2 (\<lambda>c r. case_estimate obs m seeds (case_id c) = Inr r) cases rows"
    "estimate (accumulate (sum_list ws) (zip ws (map fst rows)) (replicate (length seeds) 0))
       = Inr (p_estimate p)"
    "p_metric p = m" "p_cases p = map snd rows" "p_seeds p = seeds"
proof -
  from assms obtain ws rows where
    *: "\<not> (cases = [] \<or> length seeds < 2 \<or> \<not> distinct seeds)"
    "list_all2 (\<lambda>c w. lookupE (case_weights cases weights) (case_id c) = Inr w) cases ws"
    "\<not> (sum_list ws \<le> 0 \<or> list_ex (\<lambda>w. w \<le> 0) ws)"
    "list_all2 (\<lambda>c r. case_estimate obs m seeds (case_id c) = Inr r) cases rows"
    "bindE (estimate (accumulate (sum_list ws) (zip ws (map fst rows))
        (replicate (length seeds) 0))) (\<lambda>e.
      Inr \<lparr>p_estimate = e, p_metric = m, p_cases = map snd rows, p_seeds = seeds\<rparr>) = Inr p"
    unfolding paired_panel_def by (auto simp: res_simps Let_def split: if_splits)
  have w: "list_all2 (\<lambda>c w. case_weights cases weights (case_id c) = Some w) cases ws"
    using *(2) by (auto simp: lookupE_def elim!: list_all2_mono split: option.splits)
  show ?thesis
    by (rule that[OF _ _ _ w _ _ *(4)]) (use * in \<open>auto simp: res_simps list_ex_iff not_le\<close>)
qed

lemma panel_rows_lengths:
  assumes "list_all2 (\<lambda>c r. case_estimate obs m seeds (case_id c) = Inr r) cases rows"
  shows "\<forall>r\<in>set (zip ws (map fst rows)). length (snd r) = length seeds"
proof -
  have "length (fst r) = length seeds" if "r \<in> set rows" for r
  proof -
    from list_all2_right[OF assms that] obtain c
      where "c \<in> set cases" "case_estimate obs m seeds (case_id c) = Inr r" by blast
    then show ?thesis
      by (cases r) (auto simp: case_estimate_Inr intro: case_differences_length)
  qed
  then show ?thesis by (auto dest!: set_zip_rightD)
qed

text \<open>
  A panel whose every paired ratio is \<open>r\<close> has log score \<open>ln r\<close> and no spread; the case
  \<open>r = 1\<close> is the A/A comparison of two identical builds.
\<close>

lemma case_differences_const:
  assumes "\<And>s. s \<in> set seeds \<Longrightarrow> paired_difference obs m c s = Inr d"
  shows "case_differences obs m seeds c = Inr (replicate (length seeds) d)"
  unfolding case_differences_def using assms mapE_total[of seeds _ "\<lambda>_. d"]
  by (simp add: map_replicate_const)

lemma add_weighted_replicate:
  "add_weighted f (replicate n d) (replicate n a) = replicate n (a + f * d)"
  by (simp add: add_weighted_def map2_map_map zip_replicate)

lemma accumulate_const:
  "\<forall>r\<in>set rows. snd r = replicate n d \<Longrightarrow>
     accumulate tot rows (replicate n a)
     = replicate n (a + sum_list (map (\<lambda>r. fst r / tot) rows) * d)"
proof (induction rows arbitrary: a)
  case (Cons r rows)
  then show ?case
    by (cases r) (auto simp: add_weighted_replicate algebra_simps)
qed simp

lemma sum_list_shares:
  fixes ws :: "real list"
  shows "sum_list (map (\<lambda>w. w / t) ws) = sum_list ws / t"
  by (induction ws) (auto simp: add_divide_distrib)

section \<open>Hierarchical weights\<close>

text \<open>
  \<open>hierarchical_weights\<close>: \<open>dims\<close> are the columns of \<open>WEIGHT_DIMENSIONS\<close>; the
  weight of a node is divided evenly among its children, down to the cases of a leaf.
\<close>

definition WEIGHT_DIMENSIONS :: "(tcase \<Rightarrow> string) list" where
  "WEIGHT_DIMENSIONS =
     [family, \<lambda>c. show_nat (optimization_level c), size_band, topology, native_basis,
      input_group, \<lambda>c. case variant c of None \<Rightarrow> ''numeric'' | Some v \<Rightarrow> v]"

fun divide_weight ::
    "(tcase \<Rightarrow> string) list \<Rightarrow> tcase list \<Rightarrow> real \<Rightarrow> (string \<times> real) list" where
  "divide_weight [] rows w = map (\<lambda>r. (case_id r, w / real (length rows))) rows"
| "divide_weight (d # ds) rows w =
     (let keys = first_distinct (map d rows) in
      concat (map (\<lambda>k. divide_weight ds (filter (\<lambda>r. d r = k) rows) (w / real (length keys)))
                  keys))"

definition hierarchical_weights ::
    "tcase list \<Rightarrow> (tcase \<Rightarrow> string) list \<Rightarrow> (string \<times> real) list res" where
  "hierarchical_weights cases dims =
     (if cases = [] then Inl (HarnessError ''Cannot weight an empty panel'')
      else
        (let result = divide_weight dims cases 1 in
         if \<not> distinct (map fst result)
         then Inl (HarnessError ''Duplicate case IDs'') else Inr result))"

lemma sum_list_concat: "sum_list (concat xss) = sum_list (map sum_list xss)"
  for xss :: "real list list"
  by (induction xss) auto

lemma sum_divide_weight:
  "rows \<noteq> [] \<Longrightarrow> sum_list (map snd (divide_weight ds rows w)) = w"
proof (induction ds rows w rule: divide_weight.induct)
  case (1 rows w)
  then show ?case by (simp add: comp_def sum_list_triv)
next
  case (2 d ds rows w)
  let ?keys = "first_distinct (map d rows)"
  have ne: "filter (\<lambda>r. d r = k) rows \<noteq> []" if "k \<in> set ?keys" for k
    using that by (auto simp: filter_empty_conv)
  let ?part = "\<lambda>k. sum_list (map snd (divide_weight ds (filter (\<lambda>r. d r = k) rows)
        (w / length ?keys)))"
  have part: "?part k = w / length ?keys" if "k \<in> set ?keys" for k
    using "2.IH"[OF refl that] ne[OF that] by simp
  have "sum_list (map snd (divide_weight (d # ds) rows w)) = sum_list (map ?part ?keys)"
    by (simp add: Let_def map_concat sum_list_concat comp_def)
  also have "map ?part ?keys = map (\<lambda>k. w / length ?keys) ?keys"
    by (rule map_cong[OF refl part])
  finally show ?case using "2.prems" by (simp add: sum_list_triv)
qed

lemma divide_weight_pos:
  "0 < w \<Longrightarrow> x \<in> set (divide_weight ds rows w) \<Longrightarrow> 0 < snd x"
proof (induction ds rows w rule: divide_weight.induct)
  case (1 rows w)
  then show ?case by (auto intro!: divide_pos_pos simp: length_greater_0_conv[symmetric]
      simp del: length_greater_0_conv)
next
  case (2 d ds rows w)
  let ?keys = "first_distinct (map d rows)"
  from "2.prems"(2) obtain k where k: "k \<in> set ?keys"
    "x \<in> set (divide_weight ds (filter (\<lambda>r. d r = k) rows) (w / length ?keys))"
    by (auto simp: Let_def)
  then have "0 < length ?keys" by (auto simp: length_pos_if_in_set)
  with "2.prems"(1) have "0 < w / length ?keys" by simp
  from "2.IH"[OF refl k(1) this k(2)] show ?case .
qed

lemma divide_weight_ids: "fst ` set (divide_weight ds rows w) = case_id ` set rows"
proof (induction ds rows w rule: divide_weight.induct)
  case (2 d ds rows w)
  let ?keys = "first_distinct (map d rows)"
  have "fst ` set (divide_weight (d # ds) rows w)
      = (\<Union>k\<in>set ?keys. case_id ` set (filter (\<lambda>r. d r = k) rows))"
    using "2.IH"[OF refl] by (simp add: Let_def image_UN)
  also have "\<dots> = case_id ` set rows" by auto
  finally show ?case .
qed force

section \<open>Quantiles\<close>

definition quantile :: "real list \<Rightarrow> real \<Rightarrow> real res" where
  "quantile values p =
     (if values = [] \<or> \<not> (0 \<le> p \<and> p \<le> 1) then Inl (HarnessError ''Invalid quantile'')
      else
        (let vs = sort values; position = (real (length vs) - 1) * p;
             lo = nat \<lfloor>position\<rfloor>; hi = min (lo + 1) (length vs - 1) in
         Inr (vs ! lo + (position - real lo) * (vs ! hi - vs ! lo))))"

lemma quantile_interpolation:
  fixes a b t lo hi :: real
  assumes "lo \<le> a" "a \<le> hi" "lo \<le> b" "b \<le> hi" "0 \<le> t" "t \<le> 1"
  shows "lo \<le> a + t * (b - a) \<and> a + t * (b - a) \<le> hi"
proof -
  have eq: "a + t * (b - a) = (1 - t) * a + t * b" by (simp add: algebra_simps)
  have "(1 - t) * lo + t * lo \<le> (1 - t) * a + t * b"
    using assms by (intro add_mono mult_left_mono) auto
  moreover have "(1 - t) * a + t * b \<le> (1 - t) * hi + t * hi"
    using assms by (intro add_mono mult_left_mono) auto
  ultimately show ?thesis by (simp add: eq algebra_simps)
qed

lemma quantile_index:
  assumes "values \<noteq> []" "0 \<le> p" "p \<le> 1"
  defines "position \<equiv> (real (length values) - 1) * p"
  shows "nat \<lfloor>position\<rfloor> < length values" "0 \<le> position - real (nat \<lfloor>position\<rfloor>)"
    "position - real (nat \<lfloor>position\<rfloor>) \<le> 1"
proof -
  have len: "1 \<le> real (length values)" using assms(1) by (simp add: Suc_leI)
  then have pos: "0 \<le> position" using assms by simp
  have le: "position \<le> real (length values) - 1"
    using assms(2,3) len mult_left_mono[of p 1 "real (length values) - 1"]
    by (simp add: position_def)
  have nat: "real (nat \<lfloor>position\<rfloor>) = of_int \<lfloor>position\<rfloor>" using pos by simp
  show "nat \<lfloor>position\<rfloor> < length values" using le pos nat by linarith
  show "0 \<le> position - real (nat \<lfloor>position\<rfloor>)"
    "position - real (nat \<lfloor>position\<rfloor>) \<le> 1"
    unfolding nat by linarith+
qed

section \<open>Properties\<close>

lemma identical_arms_estimate:
  assumes "paired_panel cases obs m seeds weights = Inr p"
    and "\<And>c s. c \<in> set cases \<Longrightarrow> s \<in> set seeds \<Longrightarrow>
      obs_metric obs (case_id c) ''evolved'' s m = obs_metric obs (case_id c) ''baseline'' s m"
  shows "e_ln_score (p_estimate p) = 0 \<and> e_score (p_estimate p) = 1
     \<and> e_SE (p_estimate p) = 0 \<and> e_ln_plus_2SE (p_estimate p) = 0"
proof -
  from assms(1) obtain ws rows where
    *: "2 \<le> length seeds"
    "list_all2 (\<lambda>c r. case_estimate obs m seeds (case_id c) = Inr r) cases rows"
    "estimate (accumulate (sum_list ws) (zip ws (map fst rows)) (replicate (length seeds) 0))
       = Inr (p_estimate p)"
    by (rule paired_panel_Inr)
  have row: "fst r = replicate (length seeds) 0" if "r \<in> set rows" for r
  proof -
    obtain ds cp where r: "r = (ds, cp)" by fastforce
    from list_all2_right[OF *(2) that] obtain c where
      c: "c \<in> set cases" "case_estimate obs m seeds (case_id c) = Inr (ds, cp)" by (auto simp: r)
    then have ds: "case_differences obs m seeds (case_id c) = Inr ds"
      by (simp add: case_estimate_Inr)
    have "d = 0" if "d \<in> set ds" for d
    proof -
      from ds have "list_all2 (\<lambda>s d. paired_difference obs m (case_id c) s = Inr d) seeds ds"
        unfolding case_differences_def mapE_Inr_iff .
      from list_all2_right[OF this that] obtain s where
        "s \<in> set seeds" "paired_difference obs m (case_id c) s = Inr d" by blast
      with assms(2)[OF c(1)] show "d = 0" by (auto simp: paired_difference_Inr)
    qed
    then have "ds = replicate (length ds) 0" by (simp add: replicate_eqI)
    with case_differences_length[OF ds] show ?thesis by (simp add: r)
  qed
  have "accumulate (sum_list ws) (zip ws (map fst rows)) (replicate (length seeds) 0)
      = replicate (length seeds) 0"
    by (subst accumulate_const[where d = 0]) (auto dest!: set_zip_rightD simp: row)
  moreover have "0 < length seeds" using *(1) by linarith
  ultimately show ?thesis using estimate_Inr[OF *(3)] by simp
qed

text \<open>
  The panel's log score is the weighted mean of the cases' own log scores, over the weights
  of the panel's cases, and the panel reports one row for each case in order.
\<close>

theorem panel_score_is_weighted_mean:
  assumes "paired_panel cases obs m seeds weights = Inr p"
  defines "w \<equiv> \<lambda>c. the (case_weights cases weights (case_id c))"
  shows "map cp_case (p_cases p) = map case_id cases
     \<and> e_ln_score (p_estimate p)
       = sum_list (map2 (\<lambda>c cp. w c * e_ln_score (cp_estimate cp)) cases (p_cases p))
         / sum_list (map w cases)"
proof -
  from assms(1) obtain ws rows where
    *: "2 \<le> length seeds"
    "list_all2 (\<lambda>c w. case_weights cases weights (case_id c) = Some w) cases ws"
    "list_all2 (\<lambda>c r. case_estimate obs m seeds (case_id c) = Inr r) cases rows"
    "estimate (accumulate (sum_list ws) (zip ws (map fst rows)) (replicate (length seeds) 0))
       = Inr (p_estimate p)" "p_cases p = map snd rows"
    by (rule paired_panel_Inr)
  have ws: "ws = map w cases" using list_all2_map_eq[OF *(2)] by (simp add: w_def)
  have names: "map cp_case (p_cases p) = map case_id cases"
    using *(3) unfolding *(5)
    by (induction rule: list_all2_induct) (auto simp: case_estimate_Inr split: prod.splits)
  have row: "sum_list (fst r) = real (length seeds) * e_ln_score (cp_estimate (snd r))"
    if "r \<in> set rows" for r
  proof -
    obtain ds cp where r: "r = (ds, cp)" by fastforce
    from list_all2_right[OF *(3) that] obtain c where
      "c \<in> set cases" "case_estimate obs m seeds (case_id c) = Inr (ds, cp)" by (auto simp: r)
    then obtain e where "case_differences obs m seeds (case_id c) = Inr ds"
      "estimate ds = Inr e" "cp_estimate cp = e" by (auto simp: case_estimate_Inr)
    with case_differences_length *(1) show ?thesis
      by (auto simp: r fmean_def dest!: estimate_Inr)
  qed
  have "e_ln_score (p_estimate p)
      = sum_list (map (\<lambda>(w, ds). w / sum_list ws * sum_list ds) (zip ws (map fst rows)))
        / real (length seeds)"
    using estimate_Inr[OF *(4)] panel_rows_lengths[OF *(3), of ws]
    by (simp add: fmean_def sum_list_accumulate length_accumulate sum_list_replicate)
  also have "map (\<lambda>(w, ds). w / sum_list ws * sum_list ds) (zip ws (map fst rows))
      = map (\<lambda>x. x * (real (length seeds) / sum_list ws))
          (map2 (\<lambda>c cp. w c * e_ln_score (cp_estimate cp)) cases (map snd rows))"
    unfolding ws zip_map1 zip_map2 map_map
    by (rule map_cong[OF refl]) (auto dest!: set_zip_rightD dest: row)
  also have "sum_list \<dots> / real (length seeds)
      = sum_list (map2 (\<lambda>c cp. w c * e_ln_score (cp_estimate cp)) cases (map snd rows))
        / sum_list (map w cases)"
    unfolding sum_list_scale using *(1) by (auto simp: ws)
  finally show ?thesis using names unfolding *(5) by blast
qed

text \<open>
  An A/A comparison (each paired observation equal in both arms) has log score 0, score 1 and
  standard error 0, whatever the weights: no panel of identical results can show a change.
\<close>

theorem panel_of_identical_arms:
  assumes "paired_panel cases obs m seeds weights = Inr p"
    and "\<And>c s. c \<in> set cases \<Longrightarrow> s \<in> set seeds \<Longrightarrow>
      obs_metric obs (case_id c) ''evolved'' s m = obs_metric obs (case_id c) ''baseline'' s m"
  shows "e_ln_score (p_estimate p) = 0 \<and> e_score (p_estimate p) = 1
     \<and> e_SE (p_estimate p) = 0 \<and> e_ln_plus_2SE (p_estimate p) = 0"
  by (rule identical_arms_estimate[OF assms])

text \<open>
  The frozen hierarchical weights of a nonempty panel with distinct case IDs exist, are
  positive, sum to one and name exactly the panel's cases, for any list of dimensions.
\<close>

theorem hierarchical_weights_normalised:
  assumes "hierarchical_weights cases dims = Inr ws"
  shows "sum_list (map snd ws) = 1 \<and> (\<forall>x\<in>set ws. 0 < snd x)
     \<and> fst ` set ws = case_id ` set cases \<and> distinct (map fst ws)"
proof -
  from assms have ne: "cases \<noteq> []" and ws: "ws = divide_weight dims cases 1"
    and d: "distinct (map fst ws)"
    by (simp_all add: hierarchical_weights_def Let_def split: if_splits)
  have "\<forall>x\<in>set ws. 0 < snd x"
  proof
    fix x assume "x \<in> set ws"
    with ws divide_weight_pos[of 1 x dims cases] show "0 < snd x" by simp
  qed
  with d show ?thesis
    using sum_divide_weight[OF ne] divide_weight_ids by (simp add: ws)
qed

text \<open>
  A quantile lies within any bounds of the values, and exists for every nonempty list and
  every probability in [0, 1].
\<close>

theorem quantile_within_bounds:
  assumes "values \<noteq> []" "0 \<le> p" "p \<le> 1" "\<forall>v\<in>set values. lo \<le> v \<and> v \<le> hi"
  shows "\<exists>q. quantile values p = Inr q \<and> lo \<le> q \<and> q \<le> hi"
proof -
  define vs where "vs = sort values"
  define pos where "pos = (real (length values) - 1) * p"
  define i where "i = nat \<lfloor>pos\<rfloor>"
  define j where "j = min (i + 1) (length values - 1)"
  have idx: "i < length values" "0 \<le> pos - real i" "pos - real i \<le> 1"
    using quantile_index[OF assms(1-3)] by (simp_all add: i_def pos_def)
  have j: "j < length values" using assms(1) by (cases "values") (auto simp: j_def min_def)
  have bound: "lo \<le> vs ! k \<and> vs ! k \<le> hi" if "k < length values" for k
    using assms(4) nth_mem[of k vs] that by (simp add: vs_def)
  have "quantile values p = Inr (vs ! i + (pos - real i) * (vs ! j - vs ! i))"
    using assms(1-3) by (simp add: quantile_def Let_def vs_def pos_def i_def j_def)
  with quantile_interpolation[of lo "vs ! i" hi "vs ! j" "pos - real i"] idx j bound
  show ?thesis by blast
qed

section \<open>Witnesses\<close>

definition demo_obs :: "string \<Rightarrow> string \<Rightarrow> nat \<Rightarrow> int \<Rightarrow> observation" where
  "demo_obs c rv s v = \<lparr>ob_id = c, ob_case_id = c, ob_revision = rv, ob_seed = s,
     ob_seed_block = ''B0'', ob_mode = ''quality'', ob_metrics = (\<lambda>_. Some v), ob_checks = [],
     ob_output_hash = None, ob_layout = ''l'', ob_cached_from = None\<rparr>"

definition demo_table :: "int \<Rightarrow> obs_table" where
  "demo_table v c rv s = Some (demo_obs c rv s (if rv = ''evolved'' then v else 4))"

lemmas demo_simps = demo_case_def demo_obs_def demo_table_def demo_artifact_def

lemma demo_panel:
  "0 < v \<Longrightarrow> \<exists>p. paired_panel [demo_case ''a'' ''scored'' 1, demo_case ''b'' ''scored'' 1]
     (demo_table v) D2 [0, 1] None = Inr p"
  by (simp add: paired_panel_def case_weights_def dict_of_def lookupE_def case_estimate_def
      case_differences_def paired_difference_def obs_metric_def demo_simps estimate_def Let_def
      add_weighted_def)

theorem panel_score_is_weighted_mean_witness:
  "\<exists>p. paired_panel [demo_case ''a'' ''scored'' 1, demo_case ''b'' ''scored'' 1]
       (demo_table 2) D2 [0, 1] None = Inr p
     \<and> map cp_case (p_cases p) = [''a'', ''b'']"
proof -
  obtain p where p: "paired_panel [demo_case ''a'' ''scored'' 1, demo_case ''b'' ''scored'' 1]
      (demo_table 2) D2 [0, 1] None = Inr p"
    using demo_panel[of 2] by auto
  from panel_score_is_weighted_mean[OF p] p show ?thesis by (simp add: demo_case_def)
qed

theorem panel_of_identical_arms_witness:
  "\<exists>p. paired_panel [demo_case ''a'' ''scored'' 1, demo_case ''b'' ''scored'' 1]
       (demo_table 4) D2 [0, 1] None = Inr p \<and> e_score (p_estimate p) = 1"
proof -
  obtain p where p: "paired_panel [demo_case ''a'' ''scored'' 1, demo_case ''b'' ''scored'' 1]
      (demo_table 4) D2 [0, 1] None = Inr p"
    using demo_panel[of 4] by auto
  have "e_score (p_estimate p) = 1"
    using panel_of_identical_arms[OF p] by (simp add: demo_table_def obs_metric_def demo_obs_def)
  with p show ?thesis by blast
qed

theorem hierarchical_weights_normalised_witness:
  "\<exists>ws. hierarchical_weights [demo_case ''a'' ''scored'' 1, demo_case ''b'' ''scored'' 1]
        WEIGHT_DIMENSIONS = Inr ws \<and> sum_list (map snd ws) = 1"
proof -
  obtain ws where ws: "hierarchical_weights [demo_case ''a'' ''scored'' 1,
      demo_case ''b'' ''scored'' 1] WEIGHT_DIMENSIONS = Inr ws"
    by (simp add: hierarchical_weights_def WEIGHT_DIMENSIONS_def first_distinct_def demo_simps
        Let_def)
  with hierarchical_weights_normalised[OF ws] show ?thesis by blast
qed

theorem quantile_within_bounds_witness:
  "\<exists>q. quantile [3, 1, 2] (19/20) = Inr q \<and> 1 \<le> q \<and> q \<le> 3"
  by (rule quantile_within_bounds) auto

end
