(* ===== verification/Evaluate.thy ===== *)
theory Evaluate
  imports Statistics Verdict
begin

text \<open>
  \<open>evaluate_quality\<close> of \<open>src/src/qtb/evaluator/__init__.py\<close>: the panels, the per-case caps,
  the exact guards and the confirm profile's breadth rule, over the observations of a session.
  The function's local variables \<open>records\<close>, \<open>required\<close> and \<open>summaries\<close> are the state
  \<open>ev\<close> that its blocks thread; each block is one definition. The report-only summary
  \<open>instance_bootstrap\<close> is left out. The lemmas show that no evidence is dropped, that every ID
  the evaluation itself requires has a record, and that nothing passes without the measurement
  protocol's prerequisites.
\<close>

section \<open>State, policy and observations\<close>

record ev =
  ev_records :: "crec list"
  ev_required :: "string list"
  ev_summaries :: "(string \<times> panel_result option) list"

record policy =
  pl_required_ids :: "string list"
  pl_prerequisites :: "string list"
  pl_practical_ratio :: real
  pl_improvement_multiplier :: real
  pl_guard_multiplier :: real
  pl_quality_cap :: real
  pl_iterations_groups :: "string list"

definition add_record :: "crec \<Rightarrow> ev \<Rightarrow> ev" where
  "add_record r s = s\<lparr>ev_records := ev_records s @ [r]\<rparr>"

definition require_id :: "string \<Rightarrow> ev \<Rightarrow> ev" where
  "require_id i s = s\<lparr>ev_required := ev_required s @ [i]\<rparr>"

definition add_summary :: "string \<Rightarrow> panel_result option \<Rightarrow> ev \<Rightarrow> ev" where
  "add_summary n p s = s\<lparr>ev_summaries := ev_summaries s @ [(n, p)]\<rparr>"

type_synonym obs_key = "string \<times> string \<times> nat"

fun collect_observations ::
    "observation list \<Rightarrow> (obs_key \<times> observation) list \<Rightarrow> (obs_key \<times> observation) list res" where
  "collect_observations [] acc = Inr acc"
| "collect_observations (row # rows) acc =
     (let key = (ob_case_id row, ob_revision row, ob_seed row) in
      if ob_mode row \<noteq> ''quality'' \<or> ob_seed_block row \<noteq> ''B0''
      then collect_observations rows acc
      else if key \<in> fst ` set acc then Inl (HarnessError ''Duplicate observation'')
      else collect_observations rows (acc @ [(key, row)]))"

definition table_of :: "(obs_key \<times> observation) list \<Rightarrow> obs_table" where
  "table_of kvs c rv s = map_of kvs (c, rv, s)"

text \<open>\<open>panel_valid\<close>: every prerequisite of the measurement protocol has passed.\<close>

definition panel_valid :: "policy \<Rightarrow> crec list \<Rightarrow> bool" where
  "panel_valid policy evidence =
     list_all (\<lambda>i. result_of evidence i = Some ''passed'') (pl_prerequisites policy)"

definition missing_protocol :: exn where
  "missing_protocol = Incomplete ''Round-trip or determinism audit evidence is missing''"

section \<open>Panels\<close>

definition panel_decision ::
    "bool \<Rightarrow> policy \<Rightarrow> obs_table \<Rightarrow> tcase list \<Rightarrow> metric \<Rightarrow> bool \<Rightarrow> (string \<rightharpoonup> real) option
     \<Rightarrow> (panel_result \<times> bool \<times> real) res" where
  "panel_decision valid policy obs part m improvement weights =
     (if \<not> valid then Inl missing_protocol
      else case part of
        [] \<Rightarrow> Inl IndexError
      | c0 # _ \<Rightarrow>
          if list_ex (\<lambda>c. seeds_per_block c \<noteq> seeds_per_block c0) part
          then Inl (Incomplete ''Mixed seed counts inside a panel'')
          else
            bindE (paired_panel part obs m [0..<seeds_per_block c0] weights) (\<lambda>p.
            if improvement \<and> pl_practical_ratio policy \<le> 0 then Inl ValueError
            else
              let limit = (if improvement then ln (pl_practical_ratio policy) else 0);
                  score = e_ln_score (p_estimate p); se = e_SE (p_estimate p);
                  ok = (if improvement
                        then score + pl_improvement_multiplier policy * se < limit
                        else score \<le> pl_guard_multiplier policy * se)
              in Inr (p, ok, limit)))"

definition panel_record ::
    "bool \<Rightarrow> policy \<Rightarrow> obs_table \<Rightarrow> string \<Rightarrow> tcase list \<Rightarrow> metric \<Rightarrow> bool
     \<Rightarrow> (string \<rightharpoonup> real) option \<Rightarrow> ev \<Rightarrow> (ev \<times> panel_result option) res" where
  "panel_record valid policy obs i part m improvement weights s =
     (let s = require_id i s; kind = (if improvement then ''improvement'' else ''guard'') in
      case panel_decision valid policy obs part m improvement weights of
        Inr (p, ok, limit) \<Rightarrow>
          Inr (add_summary i (Some p)
                 (add_record (record_of i kind (if ok then ''passed'' else ''failed'') ''evolved''
                    [(''value'', DReal (e_ln_score (p_estimate p))),
                     (''SE'', DReal (e_SE (p_estimate p))), (''threshold'', DReal limit)]) s),
               Some p)
      | Inl e \<Rightarrow>
          if is_incomplete e \<or> e = IndexError
          then Inr (add_record (record_of i kind ''unresolved'' ''evolved''
                      [(''detail'', DStr (exn_message e))]) s, None)
          else Inl e)"

definition panel_step ::
    "bool \<Rightarrow> policy \<Rightarrow> obs_table \<Rightarrow> string \<Rightarrow> tcase list \<Rightarrow> metric \<Rightarrow> (string \<rightharpoonup> real) option
     \<Rightarrow> ev \<Rightarrow> ev res" where
  "panel_step valid policy obs i part m weights s =
     bindE (panel_record valid policy obs i part m False weights s) (\<lambda>(s', _). Inr s')"

text \<open>The twins of the scored circuits in the cx and ecr bases, weighted equally.\<close>

definition equal_weights :: "tcase list \<Rightarrow> string \<rightharpoonup> real" where
  "equal_weights cases = dict_of (map (\<lambda>c. (case_id c, 1 / real (length cases))) cases)"

definition basis_panels ::
    "bool \<Rightarrow> policy \<Rightarrow> obs_table \<Rightarrow> string \<Rightarrow> tcase list \<Rightarrow> ev \<Rightarrow> ev res" where
  "basis_panels valid policy obs prefix cases =
     foldE (\<lambda>basis s.
       let part = filter (\<lambda>c. panel c = Some (''basis-'' @ basis)) cases in
       if part = [] then Inr s
       else foldE (\<lambda>m. panel_step valid policy obs
                     (prefix @ ''3/'' @ basis @ ''/'' @ metric_name m) part m
                     (Some (equal_weights part))) [D2, N2] s)
       [''cx'', ''ecr'']"

section \<open>Per-case caps\<close>

definition cap_id :: "string \<Rightarrow> tcase \<Rightarrow> metric \<Rightarrow> string" where
  "cap_id prefix c m = prefix @ ''4/cap/'' @ case_id c @ ''/'' @ metric_name m"

definition cap_step ::
    "bool \<Rightarrow> policy \<Rightarrow> obs_table \<Rightarrow> string \<Rightarrow> tcase \<Rightarrow> metric \<Rightarrow> ev \<Rightarrow> ev res" where
  "cap_step valid policy obs prefix c m s =
     (let i = cap_id prefix c m; s = require_id i s in
      case (if \<not> valid then Inl missing_protocol
            else paired_panel [c] obs m [0..<seeds_per_block c] (Some [case_id c \<mapsto> 1])) of
        Inr p \<Rightarrow>
          (let e = p_estimate p;
               ok = (e_score e \<le> pl_quality_cap policy
                     \<and> (role c = ''guard'' \<and> panel c = None \<longrightarrow>
                          e_ln_score e \<le> pl_guard_multiplier policy * e_SE e))
           in Inr (add_summary i (Some p)
                     (add_record (record_of i ''guard'' (if ok then ''passed'' else ''failed'')
                        ''evolved'' [(''value'', DReal (e_score e)), (''SE'', DReal (e_SE e))]) s)))
      | Inl e \<Rightarrow>
          if is_incomplete e
          then Inr (add_record (record_of i ''guard'' ''unresolved'' ''evolved''
                      [(''detail'', DStr (exn_message e))]) s)
          else Inl e)"

section \<open>Exact guards\<close>

definition exact_id :: "string \<Rightarrow> tcase \<Rightarrow> string" where
  "exact_id prefix c = prefix @ ''4/exact/'' @ case_id c"

definition reference_record :: "string \<Rightarrow> nat \<Rightarrow> metric \<Rightarrow> int \<Rightarrow> crec" where
  "reference_record i seed m a =
     record_of (i @ ''/reference/'' @ show_nat seed @ ''/'' @ metric_name m) ''guard'' ''failed''
       ''reference'' [(''value'', DReal (real_of_int a))]"

text \<open>
  The body of the seed and metric loops: \<open>None\<close> is the \<open>KeyError\<close> of a missing observation
  or expected value, which leaves the loops with the status and records reached so far.
\<close>

fun exact_loop ::
    "obs_table \<Rightarrow> string \<Rightarrow> tcase \<Rightarrow> (nat \<times> metric) list \<Rightarrow> string \<Rightarrow> crec list
     \<Rightarrow> string \<times> crec list \<times> bool" where
  "exact_loop obs i c [] status rs = (status, rs, True)"
| "exact_loop obs i c ((seed, m) # rest) status rs =
     (case (obs_metric obs (case_id c) ''baseline'' seed m,
            obs_metric obs (case_id c) ''evolved'' seed m) of
        (Some a, Some b) \<Rightarrow>
          if role c = ''canary'' then
            (case expected c m of
               None \<Rightarrow> (status, rs, False)
             | Some ex \<Rightarrow>
                 exact_loop obs i c rest (if b \<noteq> ex then ''unresolved'' else status)
                   (if a \<noteq> ex then rs @ [reference_record i seed m a] else rs))
          else
            exact_loop obs i c rest (if b > a then ''failed'' else status)
              (if role c = ''zero_baseline'' \<and> a \<noteq> 0
               then rs @ [reference_record i seed m a] else rs)
      | _ \<Rightarrow> (status, rs, False))"

definition exact_step ::
    "bool \<Rightarrow> obs_table \<Rightarrow> string \<Rightarrow> tcase \<Rightarrow> ev \<Rightarrow> ev" where
  "exact_step valid obs prefix c s =
     (if role c \<notin> {''canary'', ''deterministic'', ''zero_baseline''} then s
      else
        let i = exact_id prefix c; s = require_id i s in
        if \<not> valid
        then add_record (record_of i ''guard'' ''unresolved'' ''evolved''
               [(''detail'', DStr (exn_message missing_protocol))]) s
        else
          case exact_loop obs i c (List.product [0..<seeds_per_block c] [D2, N2]) ''passed'' [] of
            (status, rs, finished) \<Rightarrow>
              let status = (if finished \<or> status = ''failed'' then status else ''unresolved'');
                  detail = (if finished then ''''
                            else ''Missing exact-guard observation or frozen expected value'')
              in add_record (record_of i ''guard'' status ''evolved'' [(''detail'', DStr detail)])
                   (s\<lparr>ev_records := ev_records s @ rs\<rparr>))"

section \<open>The confirm profile's breadth rule\<close>

text \<open>\<open>report_summary\<close>: a panel that is reported but not graded.\<close>

definition report_summary ::
    "obs_table \<Rightarrow> string \<Rightarrow> tcase list \<Rightarrow> metric \<Rightarrow> ev \<Rightarrow> (ev \<times> panel_result option) res" where
  "report_summary obs name part m s =
     (case paired_panel part obs m [0..<100] None of
        Inr p \<Rightarrow> Inr (add_summary name (Some p) s, Some p)
      | Inl e \<Rightarrow>
          if is_harness_error e then Inr (add_summary name None s, None) else Inl e)"

definition DIMENSIONS :: "(string \<times> (tcase \<Rightarrow> string)) list" where
  "DIMENSIONS =
     [(''family'', family), (''optimization_level'', \<lambda>c. show_nat (optimization_level c)),
      (''size_band'', size_band), (''topology'', topology), (''native_basis'', native_basis)]"

record breadth_state =
  bs_ev :: ev
  bs_family :: "panel_result option list"
  bs_leave_out :: "panel_result option list"

definition breadth_metric ::
    "bool \<Rightarrow> policy \<Rightarrow> obs_table \<Rightarrow> string \<Rightarrow> string \<Rightarrow> tcase list \<Rightarrow> metric
     \<Rightarrow> breadth_state \<Rightarrow> breadth_state res" where
  "breadth_metric valid policy obs dm v part m b =
     (let i = ''CA4/'' @ dm @ ''/'' @ v @ ''/'' @ metric_name m in
      bindE (if dm \<in> {''family'', ''optimization_level''}
             then panel_record valid policy obs i part m False None (bs_ev b)
             else report_summary obs i part m (bs_ev b)) (\<lambda>(s, result).
      Inr (b\<lparr>bs_ev := s,
             bs_family := (if dm = ''family'' \<and> m = D2 then bs_family b @ [result]
                           else bs_family b)\<rparr>)))"

definition breadth_value ::
    "bool \<Rightarrow> policy \<Rightarrow> obs_table \<Rightarrow> tcase list \<Rightarrow> string \<Rightarrow> (tcase \<Rightarrow> string) \<Rightarrow> string
     \<Rightarrow> breadth_state \<Rightarrow> breadth_state res" where
  "breadth_value valid policy obs scored dm col v b =
     bindE (foldE (breadth_metric valid policy obs dm v (filter (\<lambda>c. col c = v) scored))
                  [D2, N2] b) (\<lambda>b.
     if dm = ''family''
     then bindE (report_summary obs (''leave_family_out/'' @ v)
                   (filter (\<lambda>c. col c \<noteq> v) scored) D2 (bs_ev b)) (\<lambda>(s, result).
          Inr (b\<lparr>bs_ev := s, bs_leave_out := bs_leave_out b @ [result]\<rparr>))
     else Inr b)"

definition breadth_panels ::
    "bool \<Rightarrow> policy \<Rightarrow> obs_table \<Rightarrow> tcase list \<Rightarrow> ev \<Rightarrow> breadth_state res" where
  "breadth_panels valid policy obs scored s =
     foldE (\<lambda>(dm, col).
              foldE (breadth_value valid policy obs scored dm col) (sorted_set (map col scored)))
       DIMENSIONS \<lparr>bs_ev = s, bs_family = [], bs_leave_out = []\<rparr>"

definition breadth_complete :: "breadth_state \<Rightarrow> bool" where
  "breadth_complete b \<longleftrightarrow> length (bs_family b) = 8 \<and> None \<notin> set (bs_family b)
     \<and> None \<notin> set (bs_leave_out b)"

definition breadth_ok :: "breadth_state \<Rightarrow> bool" where
  "breadth_ok b \<longleftrightarrow> breadth_complete b
     \<and> 4 \<le> length (filter (\<lambda>r. e_ln_plus_2SE (p_estimate (the r)) < 0) (bs_family b))
     \<and> (\<forall>r\<in>set (bs_leave_out b). e_score (p_estimate (the r)) < 1)"

definition breadth_record :: "breadth_state \<Rightarrow> crec" where
  "breadth_record b =
     record_of ''CA3/breadth'' ''improvement''
       (if breadth_ok b then ''passed'' else if breadth_complete b then ''failed''
        else ''unresolved'') ''evolved''
       [(''detail'', DStr (if breadth_complete b then ''''
           else ''Family or leave-one-family-out summary unavailable''))]"

definition confirm_breadth ::
    "bool \<Rightarrow> policy \<Rightarrow> obs_table \<Rightarrow> tcase list \<Rightarrow> ev \<Rightarrow> ev res" where
  "confirm_breadth valid policy obs scored s =
     bindE (breadth_panels valid policy obs scored s) (\<lambda>b.
     let s = require_id ''CA3/breadth'' (add_record (breadth_record b) (bs_ev b)) in
     bindE (report_summary obs ''leave_iterations_out''
              (filter (\<lambda>c. input_group c \<notin> set (pl_iterations_groups policy)) scored) D2 s)
       (\<lambda>(s, _). Inr s))"

section \<open>The evaluation\<close>

definition evaluate_quality ::
    "string \<Rightarrow> tcase list \<Rightarrow> policy \<Rightarrow> observation list \<Rightarrow> crec list
     \<Rightarrow> (crec list \<times> string list \<times> (string \<times> panel_result option) list) res" where
  "evaluate_quality profile cases policy rows evidence =
     bindE (collect_observations rows []) (\<lambda>kvs.
     let obs = table_of kvs;
         confirm = (profile = ''confirm-profile'');
         prefix = profile_prefix profile;
         positive = filter (\<lambda>c. role c \<in> {''scored'', ''guard''}) cases;
         scored = filter (\<lambda>c. role c = ''scored'') cases;
         valid = panel_valid policy evidence;
         s0 = \<lparr>ev_records = evidence, ev_required = pl_required_ids policy, ev_summaries = []\<rparr>
     in
     bindE (panel_record valid policy obs (prefix @ ''2/improvement'') scored D2 True None s0)
       (\<lambda>(s, objective).
     bindE (panel_step valid policy obs (prefix @ ''3/primary/N2'') scored N2 None s) (\<lambda>s.
     bindE (if confirm then Inr s
            else panel_step valid policy obs ''IA3/primary/D2'' scored D2 None s) (\<lambda>s.
     bindE (basis_panels valid policy obs prefix cases s) (\<lambda>s.
     bindE (foldE (\<lambda>c. foldE (cap_step valid policy obs prefix c) [D2, N2]) positive s) (\<lambda>s.
     let s = fold (exact_step valid obs prefix) cases s in
     bindE (if confirm \<and> objective \<noteq> None then confirm_breadth valid policy obs scored s
            else if confirm then Inr (require_id ''CA3/breadth'' s) else Inr s) (\<lambda>s.
     Inr (ev_records s, sorted_set (ev_required s), ev_summaries s))))))))"

section \<open>Grading extends the evidence\<close>

text \<open>
  What each block of the evaluation promises: it only appends records, it only adds required IDs,
  and every ID it adds has a record.
\<close>

definition ev_extends :: "ev \<Rightarrow> ev \<Rightarrow> bool" where
  "ev_extends s s' \<longleftrightarrow> (\<exists>rs. ev_records s' = ev_records s @ rs)
     \<and> (\<exists>new. ev_required s' = ev_required s @ new \<and> set new \<subseteq> cr_id ` set (ev_records s'))"

lemma ev_extends_refl [simp, intro]: "ev_extends s s"
  by (simp add: ev_extends_def)

lemma ev_extends_trans: "ev_extends s t \<Longrightarrow> ev_extends t u \<Longrightarrow> ev_extends s u"
  unfolding ev_extends_def by (auto intro: exI[of _ "_ @ _"]) blast

lemma ev_extends_graded:
  "ev_extends s (add_record (record_of i k r sub d) (require_id i s))"
  by (simp add: ev_extends_def add_record_def require_id_def)

lemma ev_extends_add_summary [simp]: "ev_extends s (add_summary n p t) = ev_extends s t"
  by (simp add: ev_extends_def add_summary_def)

lemma ev_extends_add_record: "ev_extends s (add_record r s)"
  by (simp add: ev_extends_def add_record_def)

lemmas ev_sel [simp] = add_record_def require_id_def add_summary_def

text \<open>
  A loop whose body keeps a preorder keeps it as a whole; the preorder says what a block of the
  evaluation may do to the state.
\<close>

locale graded_loop =
  fixes R :: "'s \<Rightarrow> 's \<Rightarrow> bool" and step :: "'a \<Rightarrow> 's \<Rightarrow> 's res"
  assumes R_refl: "R s s"
    and R_trans: "R s t \<Longrightarrow> R t u \<Longrightarrow> R s u"
    and step_R: "step x s = Inr s' \<Longrightarrow> R s s'"
begin

lemma loop_R: "foldE step xs s = Inr s' \<Longrightarrow> R s s'"
proof (induction xs arbitrary: s)
  case Nil
  then show ?case by (simp add: R_refl)
next
  case (Cons x xs)
  then obtain t where "step x s = Inr t" "foldE step xs t = Inr s'" by (auto simp: res_simps)
  with step_R Cons.IH R_trans show ?case by blast
qed

lemma loop_reaches:
  assumes "foldE step xs s = Inr s'" and "x \<in> set xs"
  obtains t t' where "R s t" "step x t = Inr t'" "R t' s'"
  using assms
proof (induction xs arbitrary: s thesis)
  case (Cons y xs)
  from Cons.prems(2) obtain t where t: "step y s = Inr t" "foldE step xs t = Inr s'"
    by (auto simp: res_simps)
  show ?case
  proof (cases "x = y")
    case True
    show ?thesis
      by (rule Cons.prems(1)[of s t]) (use t True loop_R[OF t(2)] R_refl in auto)
  next
    case False
    with Cons.prems(3) have "x \<in> set xs" by simp
    with Cons.IH[OF _ t(2)] obtain u u' where "R t u" "step x u = Inr u'" "R u' s'" by blast
    then show ?thesis using Cons.prems(1) R_trans[OF step_R[OF t(1)]] by blast
  qed
qed simp

end

lemma panel_record_extends:
  "panel_record valid policy obs i part m imp w s = Inr (s', p) \<Longrightarrow> ev_extends s s'"
  using ev_extends_graded
  by (fastforce simp: panel_record_def Let_def simp del: ev_sel split: sum.splits prod.splits if_splits)

lemma panel_step_extends:
  "panel_step valid policy obs i part m w s = Inr s' \<Longrightarrow> ev_extends s s'"
  by (auto simp: panel_step_def res_simps dest: panel_record_extends)

lemma cap_step_extends: "cap_step valid policy obs prefix c m s = Inr s' \<Longrightarrow> ev_extends s s'"
  using ev_extends_graded
  by (fastforce simp: cap_step_def Let_def simp del: ev_sel split: sum.splits if_splits)

interpretation cap_metrics: graded_loop ev_extends "cap_step valid policy obs prefix c"
  for valid policy obs prefix c
  by unfold_locales (auto intro: ev_extends_trans cap_step_extends)

interpretation caps: graded_loop ev_extends "\<lambda>c. foldE (cap_step valid policy obs prefix c) [D2, N2]"
  for valid policy obs prefix
  by unfold_locales (auto intro: ev_extends_trans cap_metrics.loop_R simp del: foldE.simps)

interpretation basis_metrics: graded_loop ev_extends
  "\<lambda>m. panel_step valid policy obs (prefix @ ''3/'' @ basis @ ''/'' @ metric_name m) part m w"
  for valid policy obs prefix basis part w
  by unfold_locales (auto intro: ev_extends_trans panel_step_extends)

interpretation bases: graded_loop ev_extends
  "\<lambda>basis s. let part = filter (\<lambda>c. panel c = Some (''basis-'' @ basis)) cases in
     if part = [] then Inr s
     else foldE (\<lambda>m. panel_step valid policy obs
            (prefix @ ''3/'' @ basis @ ''/'' @ metric_name m) part m
            (Some (equal_weights part))) [D2, N2] s"
  for valid policy obs prefix cases
  by unfold_locales
    (auto simp: Let_def simp del: foldE.simps split: if_splits
      intro: ev_extends_trans basis_metrics.loop_R)

lemma basis_panels_extends:
  "basis_panels valid policy obs prefix cases s = Inr s' \<Longrightarrow> ev_extends s s'"
  unfolding basis_panels_def by (rule bases.loop_R)

lemma exact_step_extends: "ev_extends s (exact_step valid obs prefix c s)"
  by (auto simp: exact_step_def Let_def ev_extends_def split: prod.splits)

lemma exact_steps_extend: "ev_extends s (fold (exact_step valid obs prefix) cs s)"
proof (induction cs arbitrary: s)
  case (Cons c cs)
  show ?case using ev_extends_trans[OF exact_step_extends Cons.IH] by simp
qed simp

lemma report_summary_extends:
  "report_summary obs n part m s = Inr (s', p) \<Longrightarrow> ev_extends s s'"
  by (auto simp: report_summary_def ev_extends_def split: sum.splits if_splits)

lemma breadth_metric_extends:
  "breadth_metric valid policy obs dm v part m b = Inr b' \<Longrightarrow> ev_extends (bs_ev b) (bs_ev b')"
  using panel_record_extends report_summary_extends
  by (fastforce simp: breadth_metric_def Let_def res_simps split: if_splits)

definition breadth_extends :: "breadth_state \<Rightarrow> breadth_state \<Rightarrow> bool" where
  "breadth_extends b b' = ev_extends (bs_ev b) (bs_ev b')"

lemma breadth_extends_refl [simp]: "breadth_extends b b"
  by (simp add: breadth_extends_def)

lemma breadth_extends_trans:
  "breadth_extends a b \<Longrightarrow> breadth_extends b c \<Longrightarrow> breadth_extends a c"
  unfolding breadth_extends_def by (rule ev_extends_trans)

interpretation breadth_metrics: graded_loop breadth_extends
  "breadth_metric valid policy obs dm v part" for valid policy obs dm v part
  by unfold_locales
    (auto intro: ev_extends_trans simp: breadth_extends_def breadth_metric_extends)

lemma breadth_value_extends:
  assumes "breadth_value valid policy obs scored dm col v b = Inr b'"
  shows "breadth_extends b b'"
proof -
  from assms obtain t where t: "foldE (breadth_metric valid policy obs dm v
      (filter (\<lambda>c. col c = v) scored)) [D2, N2] b = Inr t"
    and b': "b' = t \<or> (\<exists>s p. report_summary obs (''leave_family_out/'' @ v)
        (filter (\<lambda>c. col c \<noteq> v) scored) D2 (bs_ev t) = Inr (s, p)
        \<and> b' = t\<lparr>bs_ev := s, bs_leave_out := bs_leave_out t @ [p]\<rparr>)"
    unfolding breadth_value_def by (auto simp: bindE_Inr_iff split: if_splits)
  have "breadth_extends t b'"
    using b' report_summary_extends by (fastforce simp: breadth_extends_def)
  with breadth_metrics.loop_R[OF t] show ?thesis by (rule breadth_extends_trans)
qed

interpretation breadth_values: graded_loop breadth_extends
  "breadth_value valid policy obs scored dm col" for valid policy obs scored dm col
  by unfold_locales (auto intro: breadth_extends_trans breadth_value_extends)

interpretation breadth_dimensions: graded_loop breadth_extends
  "\<lambda>(dm, col). foldE (breadth_value valid policy obs scored dm col) (sorted_set (map col scored))"
  for valid policy obs scored
  by unfold_locales (auto intro: breadth_extends_trans dest: breadth_values.loop_R)

lemma confirm_breadth_extends:
  assumes "confirm_breadth valid policy obs scored s = Inr s'"
  shows "ev_extends s s'"
proof -
  from assms obtain b p where b: "breadth_panels valid policy obs scored s = Inr b"
    and s': "report_summary obs ''leave_iterations_out''
        (filter (\<lambda>c. input_group c \<notin> set (pl_iterations_groups policy)) scored) D2
        (require_id ''CA3/breadth'' (add_record (breadth_record b) (bs_ev b))) = Inr (s', p)"
    unfolding confirm_breadth_def by (auto simp: bindE_Inr_iff Let_def simp del: ev_sel)
  have "ev_extends s (bs_ev b)"
    using breadth_dimensions.loop_R[OF b[unfolded breadth_panels_def]]
    by (simp add: breadth_extends_def)
  moreover have "ev_extends (bs_ev b)
      (require_id ''CA3/breadth'' (add_record (breadth_record b) (bs_ev b)))"
    by (simp add: ev_extends_def breadth_record_def)
  ultimately show ?thesis
    using report_summary_extends[OF s'] by (blast intro: ev_extends_trans)
qed

section \<open>The whole evaluation\<close>

text \<open>The states between the blocks of an evaluation that returns.\<close>

lemma evaluate_quality_Inr:
  assumes "evaluate_quality profile cases policy rows evidence = Inr (recs, req, summ)"
  defines "prefix \<equiv> profile_prefix profile"
    and "scored \<equiv> filter (\<lambda>c. role c = ''scored'') cases"
    and "positive \<equiv> filter (\<lambda>c. role c \<in> {''scored'', ''guard''}) cases"
    and "valid \<equiv> panel_valid policy evidence"
  obtains kvs s1 s2 s3 s4 s5 s6 s7 objective where
    "collect_observations rows [] = Inr kvs"
    "panel_record valid policy (table_of kvs) (prefix @ ''2/improvement'') scored D2 True None
       \<lparr>ev_records = evidence, ev_required = pl_required_ids policy, ev_summaries = []\<rparr>
       = Inr (s1, objective)"
    "panel_step valid policy (table_of kvs) (prefix @ ''3/primary/N2'') scored N2 None s1 = Inr s2"
    "s3 = s2 \<or>
       panel_step valid policy (table_of kvs) ''IA3/primary/D2'' scored D2 None s2 = Inr s3"
    "basis_panels valid policy (table_of kvs) prefix cases s3 = Inr s4"
    "foldE (\<lambda>c. foldE (cap_step valid policy (table_of kvs) prefix c) [D2, N2]) positive s4
       = Inr s5"
    "s6 = fold (exact_step valid (table_of kvs) prefix) cases s5"
    "(objective \<noteq> None \<and> confirm_breadth valid policy (table_of kvs) scored s6 = Inr s7)
       \<or> s7 = require_id ''CA3/breadth'' s6 \<or> s7 = s6"
    "recs = ev_records s7" "req = sorted_set (ev_required s7)"
proof -
  from assms(1) obtain kvs where kvs: "collect_observations rows [] = Inr kvs"
    unfolding evaluate_quality_def by (auto simp only: bindE_Inr_iff)
  note E = assms(1)[unfolded evaluate_quality_def kvs bindE.simps Let_def,
      folded prefix_def scored_def positive_def valid_def]
  let ?obs = "table_of kvs"
  let ?s0 = "\<lparr>ev_records = evidence, ev_required = pl_required_ids policy, ev_summaries = []\<rparr>"
  obtain s1 objective where 1: "panel_record valid policy ?obs (prefix @ ''2/improvement'') scored
      D2 True None ?s0 = Inr (s1, objective)"
    using E by (cases "panel_record valid policy ?obs (prefix @ ''2/improvement'') scored
      D2 True None ?s0") auto
  note E1 = E[unfolded 1 bindE.simps prod.case]
  obtain s2 where 2: "panel_step valid policy ?obs (prefix @ ''3/primary/N2'') scored N2 None s1
      = Inr s2"
    using E1 by (cases "panel_step valid policy ?obs (prefix @ ''3/primary/N2'') scored N2 None s1")
      auto
  let ?m3 = "if profile = ''confirm-profile'' then Inr s2
     else panel_step valid policy ?obs ''IA3/primary/D2'' scored D2 None s2"
  note E2 = E1[unfolded 2 bindE.simps]
  obtain s3 where 3: "?m3 = Inr s3"
    using E2 by (cases ?m3) auto
  note E3 = E2[unfolded 3 bindE.simps]
  obtain s4 where 4: "basis_panels valid policy ?obs prefix cases s3 = Inr s4"
    using E3 by (cases "basis_panels valid policy ?obs prefix cases s3") auto
  note E4 = E3[unfolded 4 bindE.simps]
  let ?caps = "foldE (\<lambda>c. foldE (cap_step valid policy ?obs prefix c) [D2, N2]) positive s4"
  obtain s5 where 5: "?caps = Inr s5"
    using E4 by (cases ?caps) auto
  note E5 = E4[unfolded 5 bindE.simps]
  let ?s6 = "fold (exact_step valid ?obs prefix) cases s5"
  let ?m7 = "if profile = ''confirm-profile'' \<and> objective \<noteq> None
     then confirm_breadth valid policy ?obs scored ?s6
     else if profile = ''confirm-profile'' then Inr (require_id ''CA3/breadth'' ?s6)
     else Inr ?s6"
  obtain s7 where 7: "?m7 = Inr s7"
    using E5 by (cases ?m7) auto
  note E7 = E5[unfolded 7 bindE.simps]
  have 33: "s3 = s2 \<or> panel_step valid policy ?obs ''IA3/primary/D2'' scored D2 None s2 = Inr s3"
    using 3 by (cases "profile = ''confirm-profile''") auto
  have 77: "(objective \<noteq> None \<and> confirm_breadth valid policy ?obs scored ?s6 = Inr s7)
       \<or> s7 = require_id ''CA3/breadth'' ?s6 \<or> s7 = ?s6"
    using 7 by (simp del: ev_sel split: if_splits)
  show ?thesis
    by (rule that[OF kvs 1 2 33 4 5 refl 77]) (use E7 in auto)
qed

lemma ev_extends_required: "ev_extends s s' \<Longrightarrow> set (ev_required s) \<subseteq> set (ev_required s')"
  by (auto simp: ev_extends_def)

lemma ev_extends_covered:
  "ev_extends s s' \<Longrightarrow> i \<in> set (ev_required s') \<Longrightarrow>
     i \<in> set (ev_required s) \<or> i \<in> cr_id ` set (ev_records s')"
  by (auto simp: ev_extends_def)

lemma panel_record_requires:
  "panel_record valid policy obs i part m imp w s = Inr (s', p) \<Longrightarrow> i \<in> set (ev_required s')"
  by (auto simp: panel_record_def Let_def split: sum.splits prod.splits if_splits)

lemma cap_step_requires:
  "cap_step valid policy obs prefix c m s = Inr s' \<Longrightarrow> cap_id prefix c m \<in> set (ev_required s')"
  by (auto simp: cap_step_def Let_def split: sum.splits if_splits)

lemma caps_require:
  assumes "foldE (\<lambda>c. foldE (cap_step valid policy obs prefix c) [D2, N2]) cs s = Inr s'"
    and "c \<in> set cs"
  shows "cap_id prefix c m \<in> set (ev_required s')"
proof -
  obtain t t' where t: "foldE (cap_step valid policy obs prefix c) [D2, N2] t = Inr t'"
    "ev_extends t' s'"
    by (rule caps.loop_reaches[OF assms])
  have m: "m \<in> set [D2, N2]" by (cases m) auto
  obtain u u' where "cap_step valid policy obs prefix c m u = Inr u'" "ev_extends u' t'"
    by (rule cap_metrics.loop_reaches[OF t(1) m])
  with t(2) cap_step_requires show ?thesis
    by (meson ev_extends_required ev_extends_trans subsetD)
qed

definition exact_role :: "tcase \<Rightarrow> bool" where
  "exact_role c \<longleftrightarrow> role c \<in> {''canary'', ''deterministic'', ''zero_baseline''}"

lemma exact_step_requires:
  "exact_role c \<Longrightarrow> exact_id prefix c \<in> set (ev_required (exact_step valid obs prefix c s))"
  by (auto simp: exact_step_def exact_role_def Let_def split: prod.splits)

lemma exact_steps_require:
  "c \<in> set cs \<Longrightarrow> exact_role c \<Longrightarrow>
     exact_id prefix c \<in> set (ev_required (fold (exact_step valid obs prefix) cs s))"
proof (induction cs arbitrary: s)
  case (Cons d cs)
  show ?case
  proof (cases "c = d")
    case True
    from subsetD[OF ev_extends_required[OF exact_steps_extend]
        exact_step_requires[OF Cons.prems(2)]]
    show ?thesis by (simp add: True)
  next
    case False
    with Cons show ?thesis by simp
  qed
qed simp

lemma evaluation_extends:
  assumes "evaluate_quality profile cases policy rows evidence = Inr (recs, req, summ)"
  defines "prefix \<equiv> profile_prefix profile"
  shows "(\<exists>rs. recs = evidence @ rs)
    \<and> set (pl_required_ids policy) \<subseteq> set req \<and> prefix @ ''2/improvement'' \<in> set req
    \<and> (\<forall>c\<in>set cases. role c \<in> {''scored'', ''guard''} \<longrightarrow> (\<forall>m. cap_id prefix c m \<in> set req))
    \<and> (\<forall>c\<in>set cases. exact_role c \<longrightarrow> exact_id prefix c \<in> set req)
    \<and> (\<forall>i\<in>set req. i \<in> set (pl_required_ids policy) \<or> i = ''CA3/breadth''
          \<or> i \<in> cr_id ` set recs)"
proof -
  let ?s0 = "\<lparr>ev_records = evidence, ev_required = pl_required_ids policy, ev_summaries = []\<rparr>"
  from assms(1) obtain kvs s1 s2 s3 s4 s5 s6 s7 objective where
    e: "panel_record (panel_valid policy evidence) policy (table_of kvs)
         (prefix @ ''2/improvement'') (filter (\<lambda>c. role c = ''scored'') cases) D2 True None ?s0
         = Inr (s1, objective)"
      "panel_step (panel_valid policy evidence) policy (table_of kvs) (prefix @ ''3/primary/N2'')
         (filter (\<lambda>c. role c = ''scored'') cases) N2 None s1 = Inr s2"
      "s3 = s2 \<or> panel_step (panel_valid policy evidence) policy (table_of kvs)
         ''IA3/primary/D2'' (filter (\<lambda>c. role c = ''scored'') cases) D2 None s2 = Inr s3"
      "basis_panels (panel_valid policy evidence) policy (table_of kvs) prefix cases s3 = Inr s4"
      "foldE (\<lambda>c. foldE (cap_step (panel_valid policy evidence) policy (table_of kvs) prefix c)
         [D2, N2]) (filter (\<lambda>c. role c \<in> {''scored'', ''guard''}) cases) s4 = Inr s5"
      "s6 = fold (exact_step (panel_valid policy evidence) (table_of kvs) prefix) cases s5"
      "(objective \<noteq> None \<and> confirm_breadth (panel_valid policy evidence) policy (table_of kvs)
         (filter (\<lambda>c. role c = ''scored'') cases) s6 = Inr s7)
       \<or> s7 = require_id ''CA3/breadth'' s6 \<or> s7 = s6"
      "recs = ev_records s7" "req = sorted_set (ev_required s7)"
    unfolding prefix_def by (rule evaluate_quality_Inr)
  have 01: "ev_extends ?s0 s1" using e(1) by (rule panel_record_extends)
  have "ev_extends s1 s3"
    using panel_step_extends[OF e(2)] e(3) panel_step_extends ev_extends_trans by blast
  with basis_panels_extends[OF e(4)] have 14: "ev_extends s1 s4" by (rule ev_extends_trans[rotated])
  have 45: "ev_extends s4 s5" by (rule caps.loop_R[OF e(5)])
  have 56: "ev_extends s5 s6" unfolding e(6) by (rule exact_steps_extend)
  have 06: "ev_extends ?s0 s6" using 01 14 45 56 by (blast intro: ev_extends_trans)
  have 67: "set (ev_required s6) \<subseteq> set (ev_required s7)" "\<exists>rs. ev_records s7 = ev_records s6 @ rs"
    "\<And>i. i \<in> set (ev_required s7) \<Longrightarrow> i \<in> set (ev_required s6) \<or> i = ''CA3/breadth''
       \<or> i \<in> cr_id ` set (ev_records s7)"
    using e(7) confirm_breadth_extends ev_extends_required ev_extends_covered
    by (fastforce simp: ev_extends_def)+
  have "prefix @ ''2/improvement'' \<in> set (ev_required s6)"
    using panel_record_requires[OF e(1)] ev_extends_required[OF 14] ev_extends_required[OF 45]
      ev_extends_required[OF 56] by blast
  moreover have "cap_id prefix c m \<in> set (ev_required s6)"
    if "c \<in> set cases" "role c \<in> {''scored'', ''guard''}" for c m
    using caps_require[OF e(5), of c m] that ev_extends_required[OF 56] by auto
  moreover have "exact_id prefix c \<in> set (ev_required s6)" if "c \<in> set cases" "exact_role c" for c
    unfolding e(6) using exact_steps_require that by blast
  moreover have "\<exists>rs. ev_records s7 = evidence @ rs"
    using 06 67(2) by (auto simp: ev_extends_def)
  moreover have "i \<in> set (pl_required_ids policy) \<or> i = ''CA3/breadth''
      \<or> i \<in> cr_id ` set (ev_records s7)" if "i \<in> set (ev_required s7)" for i
    using 67(3)[OF that] ev_extends_covered[OF 06] 67(2) by fastforce
  moreover have "set (pl_required_ids policy) \<subseteq> set (ev_required s6)"
    using ev_extends_required[OF 06] by simp
  ultimately show ?thesis using 67(1) by (simp add: e(8,9)) blast
qed

text \<open>
  The evaluation keeps all evidence it is given as a prefix of its records, requires every ID
  of the policy, the improvement record, both caps of every scored or guard case and the exact
  guard of every canary, deterministic or zero-baseline case, and grades every ID it adds: a
  required ID without a record comes from the policy or is the confirm profile's breadth record.
\<close>

theorem evaluation_covers_required:
  assumes "evaluate_quality profile cases policy rows evidence = Inr (recs, req, summ)"
  defines "prefix \<equiv> profile_prefix profile"
  shows "(\<exists>rs. recs = evidence @ rs)
    \<and> set (pl_required_ids policy) \<subseteq> set req \<and> prefix @ ''2/improvement'' \<in> set req
    \<and> (\<forall>c\<in>set cases. role c \<in> {''scored'', ''guard''} \<longrightarrow> (\<forall>m. cap_id prefix c m \<in> set req))
    \<and> (\<forall>c\<in>set cases. exact_role c \<longrightarrow> exact_id prefix c \<in> set req)
    \<and> (\<forall>i\<in>set req. i \<in> set (pl_required_ids policy) \<or> i = ''CA3/breadth''
          \<or> i \<in> cr_id ` set recs)"
  unfolding prefix_def using assms(1) by (rule evaluation_extends)

section \<open>Nothing is graded without the measurement protocol\<close>

definition only_unresolved :: "ev \<Rightarrow> ev \<Rightarrow> bool" where
  "only_unresolved s s' \<longleftrightarrow> (\<exists>rs. ev_records s' = ev_records s @ rs
     \<and> (\<forall>r\<in>set rs. cr_result r = ''unresolved''))"

lemma only_unresolved_refl [simp]: "only_unresolved s s"
  by (simp add: only_unresolved_def)

lemma only_unresolved_trans:
  assumes "only_unresolved s t" "only_unresolved t u"
  shows "only_unresolved s u"
proof -
  from assms obtain rs rs' where
    "ev_records t = ev_records s @ rs" "\<forall>r\<in>set rs. cr_result r = ''unresolved''"
    "ev_records u = ev_records t @ rs'" "\<forall>r\<in>set rs'. cr_result r = ''unresolved''"
    by (auto simp: only_unresolved_def)
  then show ?thesis unfolding only_unresolved_def by (intro exI[of _ "rs @ rs'"]) auto
qed

lemma panel_record_invalid:
  "panel_record False policy obs i part m imp w s
     = Inr (add_record (record_of i (if imp then ''improvement'' else ''guard'') ''unresolved''
              ''evolved'' [(''detail'', DStr (exn_message missing_protocol))])
              (require_id i s), None)"
  by (simp add: panel_record_def panel_decision_def missing_protocol_def)

lemma panel_record_unresolved:
  "panel_record False policy obs i part m imp w s = Inr (s', p) \<Longrightarrow>
     only_unresolved s s' \<and> p = None"
  by (auto simp: panel_record_invalid only_unresolved_def)

lemma panel_step_unresolved:
  "panel_step False policy obs i part m w s = Inr s' \<Longrightarrow> only_unresolved s s'"
  by (auto simp: panel_step_def panel_record_invalid only_unresolved_def)

lemma cap_step_unresolved:
  "cap_step False policy obs prefix c m s = Inr s' \<Longrightarrow> only_unresolved s s'"
  by (auto simp: cap_step_def Let_def missing_protocol_def only_unresolved_def)

interpretation unresolved_cap_metrics: graded_loop only_unresolved
  "cap_step False policy obs prefix c" for policy obs prefix c
  by unfold_locales (auto intro: only_unresolved_trans cap_step_unresolved)

interpretation unresolved_caps: graded_loop only_unresolved
  "\<lambda>c. foldE (cap_step False policy obs prefix c) [D2, N2]" for policy obs prefix
  by unfold_locales
    (auto intro: only_unresolved_trans unresolved_cap_metrics.loop_R simp del: foldE.simps)

interpretation unresolved_basis_metrics: graded_loop only_unresolved
  "\<lambda>m. panel_step False policy obs (prefix @ ''3/'' @ basis @ ''/'' @ metric_name m) part m w"
  for policy obs prefix basis part w
  by unfold_locales (auto intro: only_unresolved_trans panel_step_unresolved)

interpretation unresolved_bases: graded_loop only_unresolved
  "\<lambda>basis s. let part = filter (\<lambda>c. panel c = Some (''basis-'' @ basis)) cases in
     if part = [] then Inr s
     else foldE (\<lambda>m. panel_step False policy obs
            (prefix @ ''3/'' @ basis @ ''/'' @ metric_name m) part m
            (Some (equal_weights part))) [D2, N2] s"
  for policy obs prefix cases
  by unfold_locales
    (auto simp: Let_def simp del: foldE.simps split: if_splits
      intro: only_unresolved_trans unresolved_basis_metrics.loop_R)

lemma exact_steps_unresolved: "only_unresolved s (fold (exact_step False obs prefix) cs s)"
proof (induction cs arbitrary: s)
  case (Cons c cs)
  have "only_unresolved s (exact_step False obs prefix c s)"
    by (simp add: exact_step_def Let_def only_unresolved_def)
  from only_unresolved_trans[OF this Cons.IH] show ?case by simp
qed simp

text \<open>
  Without the measurement protocol (a prerequisite such as the round trip or the determinism
  audit that has not passed) every record the evaluation adds is unresolved, so no panel, cap or
  exact guard can pass or fail on untrusted observations.
\<close>

theorem evaluation_needs_protocol:
  assumes "evaluate_quality profile cases policy rows evidence = Inr (recs, req, summ)"
    and "\<not> panel_valid policy evidence"
  shows "\<exists>rs. recs = evidence @ rs \<and> (\<forall>r\<in>set rs. cr_result r = ''unresolved'')"
proof -
  let ?s0 = "\<lparr>ev_records = evidence, ev_required = pl_required_ids policy, ev_summaries = []\<rparr>"
  let ?p = "profile_prefix profile" and ?v = "panel_valid policy evidence"
    and ?sc = "filter (\<lambda>c. role c = ''scored'') cases"
  have v: "?v = False" using assms(2) by simp
  from assms(1) obtain kvs s1 s2 s3 s4 s5 s6 s7 objective where
    e: "panel_record ?v policy (table_of kvs) (?p @ ''2/improvement'') ?sc D2 True None ?s0
         = Inr (s1, objective)"
      "panel_step ?v policy (table_of kvs) (?p @ ''3/primary/N2'') ?sc N2 None s1 = Inr s2"
      "s3 = s2 \<or> panel_step ?v policy (table_of kvs) ''IA3/primary/D2'' ?sc D2 None s2 = Inr s3"
      "basis_panels ?v policy (table_of kvs) ?p cases s3 = Inr s4"
      "foldE (\<lambda>c. foldE (cap_step ?v policy (table_of kvs) ?p c)
         [D2, N2]) (filter (\<lambda>c. role c \<in> {''scored'', ''guard''}) cases) s4 = Inr s5"
      "s6 = fold (exact_step ?v (table_of kvs) ?p) cases s5"
      "(objective \<noteq> None \<and> confirm_breadth ?v policy (table_of kvs) ?sc s6 = Inr s7)
       \<or> s7 = require_id ''CA3/breadth'' s6 \<or> s7 = s6"
      "recs = ev_records s7"
    by (rule evaluate_quality_Inr)
  note e = e[unfolded v]
  have 1: "only_unresolved ?s0 s1" "objective = None"
    using panel_record_unresolved[OF e(1)] by simp_all
  have 3: "only_unresolved s1 s3"
    using panel_step_unresolved[OF e(2)] e(3) panel_step_unresolved only_unresolved_trans by blast
  have 4: "only_unresolved s3 s4"
    using unresolved_bases.loop_R[OF e(4)[unfolded basis_panels_def]] .
  have 5: "only_unresolved s4 s5" by (rule unresolved_caps.loop_R[OF e(5)])
  have 6: "only_unresolved s5 s6" unfolding e(6) by (rule exact_steps_unresolved)
  have "only_unresolved ?s0 s6" using 1(1) 3 4 5 6 by (blast intro: only_unresolved_trans)
  moreover have "ev_records s7 = ev_records s6" using e(7) 1(2) by auto
  ultimately show ?thesis by (simp add: only_unresolved_def e(8))
qed

text \<open>
  An A/A session cannot improve: on observations equal in both arms, the improvement panel
  (whose ratio limit is at most 1) is never satisfied, and every guard panel that can be computed
  is satisfied.
\<close>

theorem identical_arms_grade:
  assumes "panel_decision valid policy obs part m improvement w = Inr (p, ok, limit)"
    and "\<And>c s. c \<in> set part \<Longrightarrow>
      obs_metric obs (case_id c) ''evolved'' s m = obs_metric obs (case_id c) ''baseline'' s m"
    and "pl_practical_ratio policy \<le> 1"
  shows "ok = (\<not> improvement)"
proof -
  from assms(1) obtain c0 cs where part: "part = c0 # cs"
    and p: "paired_panel part obs m [0..<seeds_per_block c0] w = Inr p"
    and ratio: "improvement \<longrightarrow> 0 < pl_practical_ratio policy"
    and ok: "ok = (let score = e_ln_score (p_estimate p); se = e_SE (p_estimate p) in
       if improvement
       then score + pl_improvement_multiplier policy * se < ln (pl_practical_ratio policy)
       else score \<le> pl_guard_multiplier policy * se)"
    by (cases part) (auto simp: panel_decision_def bindE_Inr_iff Let_def split: if_splits)
  from identical_arms_estimate[OF p] assms(2)
  have "e_ln_score (p_estimate p) = 0" "e_SE (p_estimate p) = 0" by blast+
  with ratio assms(3) show ?thesis by (auto simp: ok Let_def)
qed

section \<open>Witnesses\<close>

definition demo_policy :: "string list \<Rightarrow> policy" where
  "demo_policy pre = \<lparr>pl_required_ids = [''harness/roundtrip'', ''IA2/improvement''],
     pl_prerequisites = pre, pl_practical_ratio = 1, pl_improvement_multiplier = 2,
     pl_guard_multiplier = 3, pl_quality_cap = 21/20, pl_iterations_groups = []\<rparr>"

definition demo_evidence :: "crec list" where
  "demo_evidence = [record_of ''harness/roundtrip'' ''harness'' ''passed'' ''evolved'' []]"

lemma demo_evaluation:
  "\<exists>out. evaluate_quality ''iterations-profile''
     [demo_case ''a'' ''scored'' 1, demo_case ''k'' ''canary'' 1]
     (demo_policy pre) [] demo_evidence = Inr out"
  by (simp add: evaluate_quality_def panel_record_def panel_step_def panel_decision_def Let_def
      basis_panels_def cap_step_def paired_panel_def case_weights_def dict_of_def lookupE_def
      case_estimate_def case_differences_def paired_difference_def obs_metric_def table_of_def
      missing_protocol_def demo_case_def upt_rec numeral_2_eq_2 profile_prefix_def)

theorem evaluation_covers_required_witness:
  "\<exists>recs req summ. evaluate_quality ''iterations-profile''
       [demo_case ''a'' ''scored'' 1, demo_case ''k'' ''canary'' 1]
       (demo_policy [''harness/roundtrip'']) [] demo_evidence = Inr (recs, req, summ)
     \<and> ''IA2/improvement'' \<in> set req
     \<and> exact_id ''IA'' (demo_case ''k'' ''canary'' 1) \<in> set req"
proof -
  obtain recs req summ where e: "evaluate_quality ''iterations-profile''
      [demo_case ''a'' ''scored'' 1, demo_case ''k'' ''canary'' 1]
      (demo_policy [''harness/roundtrip'']) [] demo_evidence = Inr (recs, req, summ)"
    using demo_evaluation by (metis prod_cases3)
  have "exact_role (demo_case ''k'' ''canary'' 1)" by (simp add: exact_role_def demo_case_def)
  with e evaluation_covers_required[OF e] show ?thesis by (simp add: profile_prefix_def)
qed

theorem evaluation_needs_protocol_witness:
  "\<exists>recs req summ. evaluate_quality ''iterations-profile''
       [demo_case ''a'' ''scored'' 1, demo_case ''k'' ''canary'' 1]
       (demo_policy [''audit/determinism'']) [] demo_evidence = Inr (recs, req, summ)
     \<and> (\<exists>rs. recs = demo_evidence @ rs \<and> (\<forall>r\<in>set rs. cr_result r = ''unresolved''))"
proof -
  obtain recs req summ where e: "evaluate_quality ''iterations-profile''
      [demo_case ''a'' ''scored'' 1, demo_case ''k'' ''canary'' 1]
      (demo_policy [''audit/determinism'']) [] demo_evidence = Inr (recs, req, summ)"
    using demo_evaluation by (metis prod_cases3)
  have "\<not> panel_valid (demo_policy [''audit/determinism'']) demo_evidence"
    by (simp add: panel_valid_def demo_policy_def demo_evidence_def result_of_def by_id_def
        dict_of_def)
  from evaluation_needs_protocol[OF e this] e show ?thesis by blast
qed

theorem identical_arms_grade_witness:
  "\<exists>p limit. panel_decision True (demo_policy []) (demo_table 4) [demo_case ''a'' ''scored'' 1] D2
      True None = Inr (p, False, limit)"
proof -
  obtain p ok limit where d: "panel_decision True (demo_policy []) (demo_table 4)
      [demo_case ''a'' ''scored'' 1] D2 True None = Inr (p, ok, limit)"
    by (simp add: panel_decision_def paired_panel_def case_weights_def dict_of_def lookupE_def
        case_estimate_def case_differences_def paired_difference_def obs_metric_def demo_simps
        estimate_def Let_def add_weighted_def demo_policy_def upt_rec numeral_2_eq_2)
  have "ok = False"
    using identical_arms_grade[OF d]
    by (simp add: demo_table_def obs_metric_def demo_obs_def demo_policy_def)
  with d show ?thesis by blast
qed

end
