(* ===== verification/Text.thy ===== *)
theory Text
  imports Prelude
begin

text \<open>
  Python's character classes and string methods, on ASCII: \<open>isspace\<close>, \<open>strip\<close>, \<open>lower\<close>, decimal
  digits, and the searches that the program's regular expressions make.
\<close>

definition is_space :: "char \<Rightarrow> bool" where
  "is_space c = (let n = of_char c :: nat in (9 \<le> n \<and> n \<le> 13) \<or> (28 \<le> n \<and> n \<le> 32))"

definition strip :: "string \<Rightarrow> string" where
  "strip s = rev (dropWhile is_space (rev (dropWhile is_space s)))"

definition lower_char :: "char \<Rightarrow> char" where
  "lower_char c = (let n = of_char c :: nat in
     if 65 \<le> n \<and> n \<le> 90 then char_of (n + 32) else c)"

definition lower :: "string \<Rightarrow> string" where
  "lower s = map lower_char s"

definition is_digit :: "char \<Rightarrow> bool" where
  "is_digit c = (let n = of_char c :: nat in 48 \<le> n \<and> n \<le> 57)"

definition digit_value :: "char \<Rightarrow> nat" where
  "digit_value c = of_char c - 48"

text \<open>\<open>int(s)\<close> of a string of decimal digits.\<close>

definition nat_of_digits :: "string \<Rightarrow> nat" where
  "nat_of_digits s = foldl (\<lambda>n c. 10 * n + digit_value c) 0 s"

text \<open>The digits \<open>\d+\<close> takes at the front of a string, and what follows them.\<close>

definition digits :: "string \<Rightarrow> string \<times> string" where
  "digits s = (takeWhile is_digit s, dropWhile is_digit s)"

text \<open>\<open>re.search\<close>: the leftmost suffix at which a pattern matches; \<open>f\<close> matches at the front.\<close>

fun search_first :: "(string \<Rightarrow> 'a option) \<Rightarrow> string \<Rightarrow> 'a option" where
  "search_first f [] = f []"
| "search_first f (c # s) = (case f (c # s) of None \<Rightarrow> search_first f s | Some x \<Rightarrow> Some x)"

text \<open>The digits of \<open>before(\d+)after\<close>, with literal texts, at the front of a string.\<close>

definition number_at :: "string \<Rightarrow> string \<Rightarrow> string \<Rightarrow> string option" where
  "number_at before after s =
     (let (d, rest) = digits (drop (length before) s) in
      if starts_with s before \<and> d \<noteq> [] \<and> starts_with rest after then Some d else None)"

text \<open>\<open>\w\<close>, and the leftmost search for whole words: \<open>\b\<close> on both sides of a literal text.\<close>

definition is_word :: "char \<Rightarrow> bool" where
  "is_word c = (let n = of_char c :: nat in
     (48 \<le> n \<and> n \<le> 57) \<or> (65 \<le> n \<and> n \<le> 90) \<or> (97 \<le> n \<and> n \<le> 122) \<or> n = 95)"

fun has_words :: "bool \<Rightarrow> string \<Rightarrow> string \<Rightarrow> bool" where
  "has_words after_word words [] = False"
| "has_words after_word words (c # s) =
     ((\<not> after_word \<and> starts_with (c # s) words
       \<and> (case drop (length words) (c # s) of [] \<Rightarrow> True | d # _ \<Rightarrow> \<not> is_word d))
      \<or> has_words (is_word c) words s)"

lemma show_digit_value: "d < 10 \<Longrightarrow> digit_value (show_digit d) = d"
  by (auto simp: show_digit_def digit_value_def)

lemma show_digit_is_digit: "is_digit (show_digit d)"
  by (simp add: show_digit_def is_digit_def)

lemma show_nat_digits: "c \<in> set (show_nat n) \<Longrightarrow> is_digit c"
proof (induction n rule: show_nat.induct)
  case (1 n)
  from 1(2) show ?case
    using 1(1) by (subst (asm) show_nat.simps) (auto simp: show_digit_is_digit split: if_splits)
qed

lemma show_nat_not_Nil [simp]: "show_nat n \<noteq> []"
  by (subst show_nat.simps) simp

lemma nat_of_digits_append:
  "nat_of_digits (s @ [c]) = 10 * nat_of_digits s + digit_value c"
  by (simp add: nat_of_digits_def)

lemma nat_of_show_nat [simp]: "nat_of_digits (show_nat n) = n"
proof (induction n rule: show_nat.induct)
  case (1 n)
  show ?case
  proof (cases "n < 10")
    case True
    then show ?thesis
      by (subst show_nat.simps) (simp add: nat_of_digits_def show_digit_value)
  next
    case False
    then have "nat_of_digits (show_nat (n div 10) @ [show_digit (n mod 10)]) = n"
      using 1 by (simp add: nat_of_digits_append show_digit_value)
    with False show ?thesis by (subst show_nat.simps) simp
  qed
qed

lemma takeWhile_show_nat: "\<not> is_digit c \<Longrightarrow> takeWhile is_digit (show_nat n @ c # s) = show_nat n"
  by (subst takeWhile_append2) (auto simp: show_nat_digits)

lemma dropWhile_show_nat: "\<not> is_digit c \<Longrightarrow> dropWhile is_digit (show_nat n @ c # s) = c # s"
  by (subst dropWhile_append2) (auto simp: show_nat_digits)

end
