(* ===== verification/Scope.thy ===== *)
theory Scope
  imports Records Text
begin

text \<open>
  Change scopes and semantic coverage: \<open>src/src/qtb/evaluator/scope.py\<close>. The changed paths of
  a comparison are mapped to pipeline stages and components; a case is covered when one
  verified check against its own reference covers every changed stage. Paths are ASCII
  strings. The lemmas give the scope of a list of paths as a union over its paths, from which
  it follows that more changes never make coverage easier.
\<close>

section \<open>Path strings\<close>

definition lower_path :: "string \<Rightarrow> string" where
  "lower_path p = map (\<lambda>c. if c = char_of (92 :: nat) then CHR ''/'' else c) (map lower_char p)"

fun split_slash :: "string \<Rightarrow> string list" where
  "split_slash [] = [[]]"
| "split_slash (c # s) =
     (if c = CHR ''/'' then [] # split_slash s
      else case split_slash s of [] \<Rightarrow> [[c]] | w # ws \<Rightarrow> (c # w) # ws)"

lemma split_slash_not_Nil [simp]: "split_slash s \<noteq> []"
  by (cases s) (auto split: list.splits)

lemma join_split_slash: "join_str ''/'' (split_slash s) = s"
proof (induction s)
  case (Cons c s)
  then show ?case
    by (cases "split_slash s") (auto simp: neq_Nil_conv, (metis join_str.simps append_Cons
        append_Nil list.exhaust)+)
qed simp

section \<open>Changed stages\<close>

definition NON_SOURCE_DIRS :: "string list" where
  "NON_SOURCE_DIRS = [''test'', ''tests'', ''docs'', ''doc'', ''releasenotes'', ''.github'',
     ''.circleci'', ''.buildkite'', ''ci'']"

definition NON_SOURCE_NAMES :: "string list" where
  "NON_SOURCE_NAMES = [''cargo.lock'', ''uv.lock'', ''pdm.lock'', ''poetry.lock'',
     ''changelog'', ''readme'', ''license'', ''copying'', ''.gitlab-ci.yml'', ''.travis.yml'',
     ''azure-pipelines.yml'', ''tox.ini'', ''noxfile.py'']"

definition non_source_path :: "string \<Rightarrow> bool" where
  "non_source_path path =
     (let parts = split_slash path; name = last parts in
      if list_ex (\<lambda>part. part \<in> set NON_SOURCE_DIRS) (butlast parts) then True
      else if name \<in> set NON_SOURCE_NAMES then True
      else ends_with name ''.md'' \<or> ends_with name ''.rst'')"

text \<open>
  One iteration of the loop of \<open>changed_scope\<close>: the stages and components a path adds, and
  whether it is recorded as unmapped.
\<close>

definition source_scope :: "string \<Rightarrow> nat \<Rightarrow> string list \<times> string list \<times> bool" where
  "source_scope path level =
     (if \<not> (starts_with path ''qiskit/''
             \<or> (starts_with path ''crates/'' \<and> contains_str path ''/src/''))
      then (PIPELINE_STAGES, [], True)
      else if contains_str path ''sabre''
              \<and> (contains_str path ''passes/'' \<or> contains_str path ''routing/''
                 \<or> contains_str path ''layout/'')
      then ([''layout'', ''routing''], [], False)
      else if contains_str path ''vf2''
      then ([''layout'', ''routing''] @ (if level = 3 then [''optimization''] else []), [], False)
      else if list_ex (contains_str path) [''two_qubit_decompose'', ''unitary_synthesis'', ''weyl'']
      then ([''init'', ''translation'', ''optimization''], [''unitary_synthesis''], False)
      else if contains_str path ''consolidate_blocks'' then ([''init''], [], False)
      else if list_ex (contains_str path) [''commutative_cancellation'', ''remove_identity'']
      then ([''init'', ''optimization''], [], False)
      else if contains_str path ''optimization/'' then ([''init'', ''optimization''], [], False)
      else (PIPELINE_STAGES, [], True))"

definition path_scope :: "string \<Rightarrow> nat \<Rightarrow> string list \<times> string list \<times> bool" where
  "path_scope path level =
     (if non_source_path path then ([], [], False) else source_scope path level)"

fun scope_loop ::
    "string list \<Rightarrow> nat \<Rightarrow> string list \<times> string list \<times> string list
       \<Rightarrow> string list \<times> string list \<times> string list" where
  "scope_loop [] level acc = acc"
| "scope_loop (p # ps) level (stages, components, unknown) =
     (let path = lower_path p; (ss, cs, unmapped) = path_scope path level in
      scope_loop ps level
        (stages @ ss, components @ cs, if unmapped then unknown @ [path] else unknown))"

definition changed_scope :: "string list \<Rightarrow> nat \<Rightarrow> scope" where
  "changed_scope paths level =
     (let (stages, components, unknown) = scope_loop paths level ([], [], []) in
      \<lparr>sc_stages = sorted_set stages, sc_components = sorted_set components,
       sc_unmapped = unknown\<rparr>)"

section \<open>Coverage of a case\<close>

definition check_covers :: "tcase \<Rightarrow> scope \<Rightarrow> check \<Rightarrow> bool" where
  "check_covers c scope k =
     (if ck_status k \<noteq> ''verified'' then False
      else if ck_oracle k = Some ''C7'' \<and>
              (clifford_variant c = None \<or> ck_mode k \<notin> {Some ''full'', Some ''prefix''})
      then False
      else
        let expected_hash =
          (if ck_oracle k = Some ''C7'' then a_sha256 (the (clifford_variant c))
           else reference_sha c) in
        if ck_reference_hash k \<noteq> Some expected_hash then False
        else if ck_input_domain k \<notin> {Some (input_domain c), Some ''all_inputs''} then False
        else if \<not> list_all (\<lambda>s. s \<in> set (ck_covers k)) (sc_stages scope) then False
        else if list_ex (\<lambda>s. s \<in> set (ck_substituted k)) (sc_components scope) then False
        else True)"

definition covered :: "tcase \<Rightarrow> check list \<Rightarrow> scope \<Rightarrow> bool" where
  "covered c checks scope = list_ex (check_covers c scope) checks"

section \<open>The scope as a union over the paths\<close>

definition stages_of :: "nat \<Rightarrow> string \<Rightarrow> string list" where
  "stages_of level p = fst (path_scope (lower_path p) level)"

definition components_of :: "nat \<Rightarrow> string \<Rightarrow> string list" where
  "components_of level p = fst (snd (path_scope (lower_path p) level))"

definition unmapped :: "nat \<Rightarrow> string \<Rightarrow> bool" where
  "unmapped level p = snd (snd (path_scope (lower_path p) level))"

lemma scope_loop_concat:
  "scope_loop ps level (ss, cs, us) =
     (ss @ concat (map (stages_of level) ps), cs @ concat (map (components_of level) ps),
      us @ map lower_path (filter (unmapped level) ps))"
proof (induction ps arbitrary: ss cs us)
  case (Cons p ps)
  then show ?case
    by (cases "path_scope (lower_path p) level")
       (simp add: stages_of_def components_of_def unmapped_def)
qed simp

lemma changed_scope_sel:
  "set (sc_stages (changed_scope ps level)) = (\<Union>p\<in>set ps. set (stages_of level p))"
  "set (sc_components (changed_scope ps level)) = (\<Union>p\<in>set ps. set (components_of level p))"
  "sc_unmapped (changed_scope ps level) = map lower_path (filter (unmapped level) ps)"
  by (simp_all add: changed_scope_def scope_loop_concat)

lemma if_in: "x \<in> A \<Longrightarrow> y \<in> A \<Longrightarrow> (if b then x else y) \<in> A"
  by simp

text \<open>The possible contributions of a source path.\<close>

definition scope_values :: "nat \<Rightarrow> (string list \<times> string list \<times> bool) set" where
  "scope_values level =
     {(PIPELINE_STAGES, [], True), ([''layout'', ''routing''], [], False),
      ([''layout'', ''routing''] @ (if level = 3 then [''optimization''] else []), [], False),
      ([''init'', ''translation'', ''optimization''], [''unitary_synthesis''], False),
      ([''init''], [], False), ([''init'', ''optimization''], [], False)}"

lemma source_scope_range: "source_scope p level \<in> scope_values level"
  unfolding source_scope_def by (intro if_in) (simp_all add: scope_values_def)

lemma scope_values_facts:
  "\<forall>t\<in>scope_values level. set (fst t) \<subseteq> set PIPELINE_STAGES"
  "\<forall>t\<in>scope_values level. snd (snd t) \<longrightarrow> fst t = PIPELINE_STAGES"
  "\<forall>t\<in>scope_values level. fst t \<noteq> []"
  by (cases "level = 3"; simp add: scope_values_def PIPELINE_STAGES_def)+

lemmas source_scope_facts = scope_values_facts[THEN bspec, OF source_scope_range]

lemma path_scope_stages: "set (fst (path_scope p level)) \<subseteq> set PIPELINE_STAGES"
  using source_scope_facts(1) by (simp add: path_scope_def)

lemma path_scope_unmapped:
  "snd (snd (path_scope p level)) \<Longrightarrow> fst (path_scope p level) = PIPELINE_STAGES"
  using source_scope_facts(2) by (simp add: path_scope_def split: if_split_asm)

lemma path_scope_source: "fst (path_scope p level) = [] \<longleftrightarrow> non_source_path p"
  using source_scope_facts(3) by (simp add: path_scope_def)

text \<open>The level only matters to the \<open>vf2\<close> rule, where level 3 adds a stage.\<close>

definition scope_below ::
    "string list \<times> string list \<times> bool \<Rightarrow> string list \<times> string list \<times> bool \<Rightarrow> bool" where
  "scope_below a b \<longleftrightarrow> set (fst a) \<subseteq> set (fst b) \<and> fst (snd a) = fst (snd b)"

lemma scope_below_if:
  "scope_below x x' \<Longrightarrow> scope_below y y' \<Longrightarrow>
     scope_below (if b then x else y) (if b then x' else y')"
  by simp

lemma path_scope_level: "scope_below (path_scope p level) (path_scope p 3)"
  unfolding path_scope_def source_scope_def
  by (intro scope_below_if) (auto simp: scope_below_def)

lemma stages_of_level: "set (stages_of level p) \<subseteq> set (stages_of 3 p)"
  using path_scope_level by (simp add: stages_of_def scope_below_def)

lemma components_of_level: "components_of level p = components_of 3 p"
  using path_scope_level by (simp add: components_of_def scope_below_def)

lemma unmapped_reported:
  "p \<in> set ps \<Longrightarrow> unmapped level p \<Longrightarrow> sc_unmapped (changed_scope ps level) \<noteq> []"
  by (auto simp: changed_scope_sel filter_empty_conv)

lemma covered_iff:
  "covered c checks scope \<longleftrightarrow> (\<exists>k\<in>set checks. check_covers c scope k)"
  by (simp add: covered_def list_ex_iff)

definition expected_reference :: "tcase \<Rightarrow> check \<Rightarrow> string" where
  "expected_reference c k =
     (if ck_oracle k = Some ''C7'' then a_sha256 (the (clifford_variant c)) else reference_sha c)"

lemma check_covers_iff:
  "check_covers c scope k \<longleftrightarrow> ck_status k = ''verified''
     \<and> \<not> (ck_oracle k = Some ''C7'' \<and>
          (clifford_variant c = None \<or> ck_mode k \<notin> {Some ''full'', Some ''prefix''}))
     \<and> ck_reference_hash k = Some (expected_reference c k)
     \<and> ck_input_domain k \<in> {Some (input_domain c), Some ''all_inputs''}
     \<and> set (sc_stages scope) \<subseteq> set (ck_covers k)
     \<and> set (sc_components scope) \<inter> set (ck_substituted k) = {}"
  unfolding check_covers_def Let_def expected_reference_def [symmetric] list_all_iff list_ex_iff
    if_bool_eq_conj by blast

lemma check_covers_antitone:
  assumes "check_covers c big k" and "set (sc_stages small) \<subseteq> set (sc_stages big)"
    and "set (sc_components small) \<subseteq> set (sc_components big)"
  shows "check_covers c small k"
  using assms unfolding check_covers_iff by blast

section \<open>Properties\<close>

text \<open>
  The scope is conservative: every path that can run in the pipeline contributes at least
  one stage; a path that matches no rule makes all stages changed and is reported; only
  pipeline stages ever appear.
\<close>

theorem changed_scope_conservative:
  "set (sc_stages (changed_scope paths level)) \<subseteq> set PIPELINE_STAGES
   \<and> (sc_unmapped (changed_scope paths level) \<noteq> [] \<longrightarrow>
        set (sc_stages (changed_scope paths level)) = set PIPELINE_STAGES)
   \<and> (sc_stages (changed_scope paths level) = [] \<longleftrightarrow>
        list_all (\<lambda>p. non_source_path (lower_path p)) paths)"
proof (intro conjI impI)
  show sub: "set (sc_stages (changed_scope paths level)) \<subseteq> set PIPELINE_STAGES"
    using path_scope_stages unfolding changed_scope_sel stages_of_def by blast
  show "set (sc_stages (changed_scope paths level)) = set PIPELINE_STAGES"
    if un: "sc_unmapped (changed_scope paths level) \<noteq> []"
  proof -
    from un obtain p where "p \<in> set paths" "unmapped level p"
      by (auto simp: changed_scope_sel filter_empty_conv)
    then have "stages_of level p = PIPELINE_STAGES"
      using path_scope_unmapped by (simp add: stages_of_def unmapped_def)
    with \<open>p \<in> set paths\<close> have "set PIPELINE_STAGES \<subseteq> set (sc_stages (changed_scope paths level))"
      unfolding changed_scope_sel by (metis UN_upper)
    with sub show ?thesis by blast
  qed
  show "sc_stages (changed_scope paths level) = [] \<longleftrightarrow>
      list_all (\<lambda>p. non_source_path (lower_path p)) paths"
    by (simp only: set_empty [symmetric] changed_scope_sel stages_of_def list_all_iff
        SUP_bot_conv) (simp add: path_scope_source)
qed

text \<open>
  More changed paths, or a higher optimization level, never make a case easier to cover:
  checks that cover a case for the scope of the larger change at level 3 cover it for any
  smaller change at any level.
\<close>

theorem coverage_antitone:
  assumes "covered c checks (changed_scope larger 3)" and "set paths \<subseteq> set larger"
  shows "covered c checks (changed_scope paths level)"
proof -
  have "set (sc_stages (changed_scope paths level)) \<subseteq> set (sc_stages (changed_scope larger 3))"
    using assms(2) stages_of_level unfolding changed_scope_sel by blast
  moreover have "set (sc_components (changed_scope paths level))
      \<subseteq> set (sc_components (changed_scope larger 3))"
    unfolding changed_scope_sel components_of_level[of level] using assms(2) by blast
  ultimately show ?thesis
    using assms(1) check_covers_antitone unfolding covered_iff by blast
qed

section \<open>Witnesses\<close>

theorem changed_scope_conservative_witness:
  "set (sc_stages (changed_scope [''docs/x.md'', ''qiskit/qasm/a.py''] 2))
     = set PIPELINE_STAGES"
proof -
  have "unmapped 2 ''qiskit/qasm/a.py''" by code_simp
  then have "sc_unmapped (changed_scope [''docs/x.md'', ''qiskit/qasm/a.py''] 2) \<noteq> []"
    by (rule unmapped_reported[rotated]) (intro list.set_intros)
  then show ?thesis
    by (rule changed_scope_conservative[of "[''docs/x.md'', ''qiskit/qasm/a.py'']" 2, THEN conjunct2, THEN conjunct1, THEN mp])
qed

definition demo_scope_check :: "tcase \<Rightarrow> check" where
  "demo_scope_check c = \<lparr>ck_status = ''verified'', ck_oracle = Some ''C1'', ck_mode = None,
     ck_reference_hash = Some (reference_sha c), ck_input_domain = Some ''all_inputs'',
     ck_covers = [''layout'', ''routing'', ''optimization''], ck_substituted = [],
     ck_case_id = None, ck_revision = None, ck_union_width = None\<rparr>"

theorem coverage_antitone_witness:
  "covered (demo_case ''a'' ''scored'' 1) [demo_scope_check (demo_case ''a'' ''scored'' 1)]
     (changed_scope [''crates/a/src/vf2.rs''] 1)"
proof (rule coverage_antitone)
  let ?ps = "[''crates/a/src/vf2.rs'', ''crates/a/src/sabre/layout/x.rs'']"
  have "stages_of 3 ''crates/a/src/vf2.rs'' = [''layout'', ''routing'', ''optimization'']"
    and "components_of 3 ''crates/a/src/vf2.rs'' = []"
    and "stages_of 3 ''crates/a/src/sabre/layout/x.rs'' = [''layout'', ''routing'']"
    and "components_of 3 ''crates/a/src/sabre/layout/x.rs'' = []"
    by code_simp+
  then have "set (sc_stages (changed_scope ?ps 3)) = {''layout'', ''routing'', ''optimization''}"
    and "set (sc_components (changed_scope ?ps 3)) = {}"
    unfolding changed_scope_sel by (simp_all only: list.set UN_insert UN_empty) blast+
  then show "covered (demo_case ''a'' ''scored'' 1) [demo_scope_check (demo_case ''a'' ''scored'' 1)]
     (changed_scope ?ps 3)"
    unfolding covered_iff check_covers_iff by (simp add: demo_scope_check_def expected_reference_def)
qed simp

end
