(* ===== verification/Gate.thy ===== *)
theory Gate
  imports Scope Verdict
begin

text \<open>
  The evidence of a stage and the quality gate: \<open>src/src/qtb/coordinator/__init__.py\<close>
  (\<open>Comparison.evidence\<close>, \<open>reset_evidence\<close>, \<open>_open_stage\<close>, \<open>aggregate_checks\<close>,
  \<open>routing_replay_seeds\<close>, \<open>cost_stage_due\<close>, \<open>same_build\<close>, \<open>gate\<close>,
  \<open>stage_coverage\<close>, \<open>worker_count\<close>, \<open>quality_cases\<close>). The evidence of a stage is the
  list of its records in writing order. The lemmas show that record IDs stay unique, when the
  gate opens, and that a failed check of a compiled circuit always closes it.
\<close>

section \<open>The evidence log\<close>

definition evidence :: "crec list \<Rightarrow> crec \<Rightarrow> crec list" where
  "evidence rs row = filter (\<lambda>r. cr_id r \<noteq> cr_id row) rs @ [row]"

definition reset_evidence :: "crec list \<Rightarrow> crec list" where
  "reset_evidence rs = []"

text \<open>\<open>_open_stage\<close>: a retry drops the crash record of the attempt it resumes.\<close>

definition opened_evidence :: "string \<Rightarrow> crec list option \<Rightarrow> crec list" where
  "opened_evidence stage saved =
     filter (\<lambda>r. cr_id r \<noteq> ''harness/error/'' @ stage)
       (case saved of None \<Rightarrow> [] | Some rs \<Rightarrow> rs)"

text \<open>A log whose entries have keys, where writing an entry replaces the one of its key.\<close>

locale keyed_log =
  fixes put :: "'l \<Rightarrow> 'e \<Rightarrow> 'l"
    and entries :: "'l \<Rightarrow> 'e list"
    and key :: "'e \<Rightarrow> 'k"
  assumes put_set: "set (entries (put l e)) = insert e {x \<in> set (entries l). key x \<noteq> key e}"
    and put_distinct:
      "distinct (map key (entries l)) \<Longrightarrow> distinct (map key (entries (put l e)))"
begin

lemma puts_distinct:
  "distinct (map key (entries l)) \<Longrightarrow> distinct (map key (entries (foldl put l es)))"
  by (induction es arbitrary: l) (simp_all add: put_distinct)

lemma puts_last:
  assumes "\<forall>x\<in>set es. key x \<noteq> key e" and "e \<in> set (entries l)"
  shows "e \<in> set (entries (foldl put l es))"
  using assms by (induction es arbitrary: l) (auto simp: put_set)

lemma puts_member:
  assumes "e \<in> set es" and "\<And>x. x \<in> set es \<Longrightarrow> key x = key e \<Longrightarrow> x = e"
  shows "e \<in> set (entries (foldl put l es))"
  using assms
proof (induction es rule: rev_induct)
  case (snoc x es)
  show ?case
  proof (cases "x = e")
    case False
    with snoc.prems have "e \<in> set es" "key x \<noteq> key e" by auto
    moreover from this snoc have "e \<in> set (entries (foldl put l es))" by simp
    ultimately show ?thesis by (simp add: put_set)
  qed (simp add: put_set)
qed simp

lemma puts_unique:
  assumes "e \<in> set es" and "\<And>x. x \<in> set es \<Longrightarrow> key x = key e \<Longrightarrow> x = e"
    and "y \<in> set (entries (foldl put l es))" and "key y = key e"
  shows "y = e"
  using assms
proof (induction es rule: rev_induct)
  case (snoc x es)
  show ?case
  proof (cases "x = e")
    case True
    with snoc.prems(3,4) show ?thesis by (auto simp: put_set)
  next
    case False
    with snoc.prems have "e \<in> set es" "key x \<noteq> key e" by auto
    with snoc show ?thesis by (auto simp: put_set)
  qed
qed simp

lemma put_in: "e \<in> set (entries (put l e))"
  by (simp add: put_set)

lemma put_other: "x \<in> set (entries l) \<Longrightarrow> key x \<noteq> key e \<Longrightarrow> x \<in> set (entries (put l e))"
  by (simp add: put_set)

lemma put_unique: "x \<in> set (entries (put l e)) \<Longrightarrow> key x = key e \<Longrightarrow> x = e"
  by (auto simp: put_set)

lemma puts_origin:
  "x \<in> set (entries (foldl put l es)) \<Longrightarrow> x \<in> set es \<or> x \<in> set (entries l)"
  by (induction es arbitrary: l) (force simp: put_set)+

end

interpretation evidence_log: keyed_log evidence "\<lambda>rs. rs" cr_id
proof unfold_locales
  fix l e
  show "set (evidence l e) = insert e {x \<in> set l. cr_id x \<noteq> cr_id e}"
    by (auto simp: evidence_def)
  show "distinct (map cr_id l) \<Longrightarrow> distinct (map cr_id (evidence l e))"
    by (auto simp: evidence_def distinct_map_filter)
qed

lemma result_of_evidence: "result_of (evidence rs r) (cr_id r) = Some (cr_result r)"
  by (simp add: result_of_def by_id_def dict_of_def evidence_def)

section \<open>Which jobs are due\<close>

definition routing_replay_seeds :: "tcase \<Rightarrow> nat list \<Rightarrow> nat list" where
  "routing_replay_seeds c seeds =
     (if role c = ''scored''
         \<or> (role c = ''guard'' \<and> panel c \<in> {Some ''basis-cx'', Some ''basis-ecr''})
      then seeds
      else if role c = ''guard'' \<and> (panel c = None \<or> panel c = Some [])
      then filter (\<lambda>seed. seed < 10) seeds
      else [])"

definition quality_cases :: "tcase list \<Rightarrow> tcase list" where
  "quality_cases cases = filter (\<lambda>c. role c \<notin> {''timing'', ''memory''}) cases"

definition worker_count :: "nat option \<Rightarrow> nat option \<Rightarrow> nat" where
  "worker_count granted cpus =
     (case granted of
        Some (Suc n) \<Rightarrow> Suc n
      | _ \<Rightarrow> nat (max 1 (min 12
               ((case cpus of Some (Suc n) \<Rightarrow> int (Suc n) | _ \<Rightarrow> 2) - 1))))"

lemma worker_count_pos: "0 < worker_count granted cpus"
  by (auto simp: worker_count_def split: option.split nat.split)

definition same_build :: "builds \<Rightarrow> bool" where
  "same_build b \<longleftrightarrow> (case (b_baseline b, b_evolved b) of
     (Some x, Some y) \<Rightarrow> x = y | _ \<Rightarrow> False)"

definition cost_stage_due :: "builds \<Rightarrow> crec list \<Rightarrow> string option" where
  "cost_stage_due bs rs =
     (let improved = list_ex (\<lambda>r. cr_kind r = ''improvement'' \<and> cr_result r = ''passed'') rs in
      if improved \<and> \<not> list_ex (\<lambda>r. cr_result r = ''failed'') rs then Some ''improved''
      else
        let blocking =
          list_ex (\<lambda>r. cr_result r = ''failed'' \<and> cr_kind r \<noteq> ''improvement'') rs in
        if same_build bs \<and> \<not> blocking then Some ''aa'' else None)"

section \<open>The quality gate\<close>

definition passed_id :: "crec list \<Rightarrow> string \<Rightarrow> bool" where
  "passed_id rs i = (result_of rs i = Some ''passed'')"

definition improvement_ids :: "crec list \<Rightarrow> string list \<Rightarrow> string list" where
  "improvement_ids rs required_improvements =
     (if required_improvements \<noteq> [] then required_improvements
      else map cr_id (filter (\<lambda>r. cr_kind r = ''improvement'') rs))"

definition gate_blocking :: "crec list \<Rightarrow> string list \<Rightarrow> string list \<Rightarrow> string list" where
  "gate_blocking rs required_quality improvements =
     (let blocking =
        sort (map cr_id (filter (\<lambda>r. cr_kind r \<noteq> ''improvement'' \<and> cr_result r \<noteq> ''passed'') rs))
        @ sorted_set (map (\<lambda>i. i @ '' (missing)'')
            (filter (\<lambda>i. i \<notin> set improvements \<and> by_id rs i = None) required_quality)) in
      if by_id rs ''harness/roundtrip'' = None \<and> ''harness/roundtrip'' \<notin> set required_quality
      then ''harness/roundtrip (missing)'' # blocking
      else blocking)"

definition gate ::
    "builds \<Rightarrow> crec list \<Rightarrow> string list \<Rightarrow> string list \<Rightarrow> string \<times> string" where
  "gate bs rs required_quality required_improvements =
     (let improvements = improvement_ids rs required_improvements;
          blocking = gate_blocking rs required_quality improvements in
      if blocking \<noteq> [] then
        (''closed'', ''quality checks did not pass: '' @ join_str '', '' (take 5 blocking)
           @ (if length blocking > 5 then '' and '' @ show_nat (length blocking - 5) @ '' more''
              else []))
      else if same_build bs then
        (''aa'', ''identical builds (A/A): later stages run as a harness check'')
      else if improvements \<noteq> [] \<and> list_all (passed_id rs) improvements
           \<and> list_all (\<lambda>r. cr_result r = ''passed'')
               (filter (\<lambda>r. cr_kind r = ''improvement'') rs) then
        (''improved'', ''quality improved with every quality check passing'')
      else
        let unresolved =
          sorted_set (filter (\<lambda>i. result_of rs i \<noteq> Some ''failed'') improvements) in
        if unresolved \<noteq> [] then
          (''closed'', ''improvement unresolved: '' @ join_str '', '' unresolved)
        else (''closed'', ''no improvement''))"

section \<open>Aggregation of the compiled circuits' checks\<close>

text \<open>
  A check's oracle is read with \<open>check["oracle"]\<close>; a check without one raises \<open>KeyError\<close>.
\<close>

definition oracle_of :: "check \<Rightarrow> string res" where
  "oracle_of k = (case ck_oracle k of None \<Rightarrow> Inl KeyError | Some x \<Rightarrow> Inr x)"

definition b0_rows :: "observation list \<Rightarrow> observation list" where
  "b0_rows obs = filter (\<lambda>r. ob_seed_block r = ''B0'') obs"

definition subject_of :: "string \<Rightarrow> string" where
  "subject_of revision = (if revision = ''baseline'' then ''reference'' else ''evolved'')"

text \<open>
  The C1-lite aggregate: \<open>eligible\<close> is a dictionary from (case, seed) to the last check of
  each revision, kept as an association list in insertion order.
\<close>

type_synonym lite_table = "((string \<times> nat) \<times> (string \<rightharpoonup> check)) list"

fun table_put :: "'k \<Rightarrow> ('v option \<Rightarrow> 'v) \<Rightarrow> ('k \<times> 'v) list \<Rightarrow> ('k \<times> 'v) list" where
  "table_put k f [] = [(k, f None)]"
| "table_put k f ((k', v) # t) = (if k' = k then (k, f (Some v)) # t else (k', v) # table_put k f t)"

definition lite_check ::
    "observation \<Rightarrow> check \<Rightarrow> lite_table \<times> crec list \<Rightarrow> (lite_table \<times> crec list) res" where
  "lite_check row k acc =
     (let (eligible, recs) = acc in
      bindE (oracle_of k) (\<lambda>oracle.
        if oracle \<noteq> ''C1-lite'' then Inr (eligible, recs)
        else Inr
          (table_put (ob_case_id row, ob_seed row)
             (\<lambda>m. (case m of None \<Rightarrow> Map.empty | Some m \<Rightarrow> m)(ob_revision row \<mapsto> k)) eligible,
           if ck_status k = ''mismatch''
           then evidence recs (record_of (''C1-lite/'' @ ob_id row) ''correctness'' ''failed''
                  (subject_of (ob_revision row)) [])
           else recs)))"

definition lite_loop ::
    "observation list \<Rightarrow> crec list \<Rightarrow> (lite_table \<times> crec list) res" where
  "lite_loop quality recs =
     foldE (\<lambda>row. foldE (lite_check row) (ob_checks row)) quality ([], recs)"

definition lite_applicable :: "(string \<rightharpoonup> check) \<Rightarrow> bool" where
  "lite_applicable pair = (case pair ''baseline'' of None \<Rightarrow> False
     | Some k \<Rightarrow> (case ck_union_width k of None \<Rightarrow> False | Some w \<Rightarrow> w \<le> 25))"

definition lite_verified :: "(string \<rightharpoonup> check) \<Rightarrow> bool" where
  "lite_verified pair = list_all (\<lambda>rev. map_option ck_status (pair rev) = Some ''verified'')
     [''baseline'', ''evolved'']"

definition aggregate_lite :: "observation list \<Rightarrow> crec list \<Rightarrow> crec list res" where
  "aggregate_lite quality recs =
     bindE (lite_loop quality recs) (\<lambda>(eligible, recs).
       let applicable = filter lite_applicable (map snd eligible);
           okay = applicable \<noteq> [] \<and> list_all lite_verified applicable in
       Inr (evidence recs
         (record_of ''CA1/C1-lite'' ''correctness'' (if okay then ''passed'' else ''unresolved'')
            ''evolved'' [(''eligible_observations'', DNat (length applicable))])))"

text \<open>The flattened list of (row, oracle, check) of a comprehension over all checks.\<close>

definition all_checks :: "observation list \<Rightarrow> (observation \<times> string \<times> check) list res" where
  "all_checks rows =
     bindE (mapE (\<lambda>(row, k). bindE (oracle_of k) (\<lambda>x. Inr (row, x, k)))
              (concat (map (\<lambda>row. map (Pair row) (ob_checks row)) rows))) Inr"

definition failure_rows ::
    "string \<Rightarrow> string \<Rightarrow> (observation \<times> string \<times> check) list \<Rightarrow> string list" where
  "failure_rows oracle revision checks =
     map (\<lambda>(row, x, k). ob_id row)
       (filter (\<lambda>(row, x, k). ob_revision row = revision \<and> x = oracle \<and> ck_status k = ''mismatch'')
          checks)"

definition revision_failures ::
    "string \<Rightarrow> string \<Rightarrow> (observation \<times> string \<times> check) list \<Rightarrow> string \<Rightarrow> crec list \<Rightarrow> crec list"
where
  "revision_failures pre oracle checks revision recs =
     (let failures = failure_rows oracle revision checks in
      if failures \<noteq> []
      then evidence recs (record_of (pre @ ''1/'' @ oracle @ ''/'' @ revision) ''correctness''
             ''failed'' (subject_of revision) [(''observations'', DStrs failures)])
      else recs)"

definition expected_observations :: "tcase list \<Rightarrow> nat" where
  "expected_observations cases = sum_list (map seeds_per_block cases) * 2"

definition oracle_required :: "tcase list \<Rightarrow> string \<Rightarrow> nat" where
  "oracle_required cases oracle =
     (if oracle = ''C0'' then expected_observations cases
      else 2 * sum_list (map (\<lambda>c. length (routing_replay_seeds c [0..<seeds_per_block c])) cases))"

definition oracle_passed ::
    "tcase list \<Rightarrow> string \<Rightarrow> (observation \<times> string \<times> check) list \<Rightarrow> bool" where
  "oracle_passed cases oracle all =
     (let checks = filter (\<lambda>(row, x, k). x = oracle) all in
      length checks = oracle_required cases oracle
      \<and> list_all (\<lambda>(row, x, k). ck_status k = ''verified'') checks)"

definition aggregate_oracle ::
    "string \<Rightarrow> tcase list \<Rightarrow> observation list \<Rightarrow> string \<Rightarrow> crec list \<Rightarrow> crec list res" where
  "aggregate_oracle pre cases quality oracle recs =
     bindE (all_checks quality) (\<lambda>checks.
       let recs = revision_failures pre oracle checks ''baseline'' recs;
           recs = revision_failures pre oracle checks ''evolved'' recs in
       Inr (evidence recs (record_of (pre @ ''1/'' @ oracle) ''correctness''
         (if oracle_passed cases oracle checks then ''passed'' else ''unresolved'')
         ''evolved'' [])))"

definition aggregate_checks ::
    "string \<Rightarrow> tcase list \<Rightarrow> observation list \<Rightarrow> crec list \<Rightarrow> crec list res" where
  "aggregate_checks profile cases observations recs =
     (let quality = b0_rows observations; pre = profile_prefix profile in
      bindE (if profile = ''confirm-profile'' then aggregate_lite quality recs else Inr recs)
        (\<lambda>recs.
           let recs = evidence recs (record_of (pre @ ''6/completeness'') ''completeness''
             (if length quality = expected_observations cases then ''passed'' else ''unresolved'')
             ''evolved'' []) in
           foldE (aggregate_oracle pre cases quality) [''C0'', ''C6''] recs))"

definition coverage_checks :: "observation list \<Rightarrow> check list \<Rightarrow> tcase \<Rightarrow> check list" where
  "coverage_checks quality clifford c =
     concat (map ob_checks (filter (\<lambda>r. ob_case_id r = case_id c
        \<and> ob_revision r = ''evolved'') quality))
     @ filter (\<lambda>k. ck_case_id k = Some (case_id c) \<and> ck_revision k = Some ''evolved'') clifford"

text \<open>\<open>stage_coverage\<close>; \<open>scopes\<close> is \<open>run["scope"]\<close>, by optimization level.\<close>

definition stage_coverage ::
    "(nat \<Rightarrow> scope option) \<Rightarrow> tcase list \<Rightarrow> observation list \<Rightarrow> check list \<Rightarrow> string
       \<Rightarrow> crec res" where
  "stage_coverage scopes cases observations clifford pre =
     (let quality = b0_rows observations in
      bindE (mapE (\<lambda>c.
          case scopes (optimization_level c) of
            None \<Rightarrow> Inl KeyError
          | Some scope \<Rightarrow> Inr (if covered c (coverage_checks quality clifford c) scope then []
                             else [case_id c]))
        (filter (\<lambda>c. role c = ''scored'') cases)) (\<lambda>parts.
          let coverage = concat parts in
          Inr (record_of (pre @ ''1/stage-coverage'') ''correctness''
            (if coverage \<noteq> [] then ''unresolved'' else ''passed'') ''evolved''
            [(''cases'', DStrs coverage)])))"

section \<open>When the gate opens\<close>

lemma sort_Nil_iff: "sort xs = [] \<longleftrightarrow> xs = []"
  by (metis set_empty set_sort)

lemma sorted_set_Nil_iff: "sorted_set xs = [] \<longleftrightarrow> xs = []"
  by (metis set_empty set_sorted_set)

lemma gate_blocking_Nil_iff:
  "gate_blocking rs rq improvements = [] \<longleftrightarrow>
     (\<forall>r\<in>set rs. cr_kind r \<noteq> ''improvement'' \<longrightarrow> cr_result r = ''passed'')
     \<and> (\<forall>i\<in>set rq. i \<in> set improvements \<or> i \<in> cr_id ` set rs)
     \<and> (''harness/roundtrip'' \<in> cr_id ` set rs \<or> ''harness/roundtrip'' \<in> set rq)"
  unfolding gate_blocking_def Let_def
  by (simp add: sort_Nil_iff sorted_set_Nil_iff filter_empty_conv by_id_None split: if_split)
     blast

lemma passed_id_iff:
  "distinct (map cr_id rs) \<Longrightarrow>
     passed_id rs i \<longleftrightarrow> (\<exists>r\<in>set rs. cr_id r = i \<and> cr_result r = ''passed'')"
  by (auto simp: passed_id_def result_of_def by_id_Some_iff)

definition improvements_passed :: "crec list \<Rightarrow> string list \<Rightarrow> bool" where
  "improvements_passed rs improvements \<longleftrightarrow>
     improvements \<noteq> [] \<and> (\<forall>i\<in>set improvements. passed_id rs i)
     \<and> (\<forall>r\<in>set rs. cr_kind r = ''improvement'' \<longrightarrow> cr_result r = ''passed'')"

lemma improvements_passed_alt:
  "improvements_passed rs improvements \<longleftrightarrow>
     (improvements \<noteq> [] \<and> list_all (passed_id rs) improvements
      \<and> list_all (\<lambda>r. cr_result r = ''passed'')
          (filter (\<lambda>r. cr_kind r = ''improvement'') rs))"
  by (auto simp: improvements_passed_def list_all_iff)

lemma fst_gate:
  "fst (gate bs rs rq ri) =
     (if gate_blocking rs rq (improvement_ids rs ri) \<noteq> [] then ''closed''
      else if same_build bs then ''aa''
      else if improvements_passed rs (improvement_ids rs ri) then ''improved'' else ''closed'')"
  unfolding gate_def Let_def improvements_passed_alt
  by (simp only: if_distrib[of fst] fst_conv if_cancel not_not if_not_P if_P)

lemma gate_improved_records:
  assumes d: "distinct (map cr_id rs)" and g: "fst (gate bs rs rq ri) = ''improved''"
  shows "\<not> same_build bs" and "\<forall>r\<in>set rs. cr_result r = ''passed''"
    and "\<forall>i\<in>set rq \<union> set ri. i \<in> cr_id ` set rs"
proof -
  let ?imp = "improvement_ids rs ri"
  from g have b: "gate_blocking rs rq ?imp = []" and nb: "\<not> same_build bs"
    and i: "improvements_passed rs ?imp"
    by (auto simp: fst_gate split: if_splits)
  show "\<not> same_build bs" by (rule nb)
  show "\<forall>r\<in>set rs. cr_result r = ''passed''"
    using b i unfolding gate_blocking_Nil_iff improvements_passed_def by metis
  have "\<forall>i\<in>set ?imp. i \<in> cr_id ` set rs"
    using i unfolding improvements_passed_def passed_id_iff[OF d] by (metis imageI)
  moreover have "set ri \<subseteq> set ?imp" by (auto simp: improvement_ids_def)
  ultimately show "\<forall>i\<in>set rq \<union> set ri. i \<in> cr_id ` set rs"
    using b unfolding gate_blocking_Nil_iff by blast
qed

text \<open>Any failed check that is not an improvement closes the gate and denies \<open>PASS\<close>.\<close>

lemma failed_check_closes:
  assumes "r \<in> set rs" and "cr_kind r \<noteq> ''improvement''" and "cr_result r \<noteq> ''passed''"
  shows "fst (gate bs rs rq ri) = ''closed''"
proof -
  have "gate_blocking rs rq (improvement_ids rs ri) \<noteq> []"
    using assms by (auto simp: gate_blocking_Nil_iff)
  then show ?thesis by (simp add: fst_gate)
qed

lemma failed_record_not_PASS:
  assumes "r \<in> set rs" and "cr_result r = ''failed''"
  shows "verdict rs required \<noteq> Inr ''PASS''"
proof
  assume "verdict rs required = Inr ''PASS''"
  then have "verdict_input_ok rs required" "classify_records rs required = ''PASS''"
    unfolding verdict_Inr_iff by simp_all
  with assms show False using classify_PASS_iff by blast
qed

section \<open>The aggregate records\<close>

definition failure_record ::
    "string \<Rightarrow> string \<Rightarrow> (observation \<times> string \<times> check) list \<Rightarrow> string \<Rightarrow> crec" where
  "failure_record pre oracle checks revision =
     record_of (pre @ ''1/'' @ oracle @ ''/'' @ revision) ''correctness'' ''failed''
       (subject_of revision) [(''observations'', DStrs (failure_rows oracle revision checks))]"

definition oracle_rows ::
    "string \<Rightarrow> tcase list \<Rightarrow> (observation \<times> string \<times> check) list \<Rightarrow> string \<Rightarrow> crec list" where
  "oracle_rows pre cases checks oracle =
     (if failure_rows oracle ''baseline'' checks \<noteq> []
      then [failure_record pre oracle checks ''baseline''] else [])
     @ (if failure_rows oracle ''evolved'' checks \<noteq> []
        then [failure_record pre oracle checks ''evolved''] else [])
     @ [record_of (pre @ ''1/'' @ oracle) ''correctness''
         (if oracle_passed cases oracle checks then ''passed'' else ''unresolved'') ''evolved'' []]"

definition completeness_row :: "string \<Rightarrow> tcase list \<Rightarrow> observation list \<Rightarrow> crec" where
  "completeness_row pre cases quality = record_of (pre @ ''6/completeness'') ''completeness''
     (if length quality = expected_observations cases then ''passed'' else ''unresolved'')
     ''evolved'' []"

lemma aggregate_oracle_rows:
  "all_checks quality = Inr checks \<Longrightarrow>
     aggregate_oracle pre cases quality oracle recs
     = Inr (foldl evidence recs (oracle_rows pre cases checks oracle))"
  by (simp add: aggregate_oracle_def oracle_rows_def revision_failures_def failure_record_def
      Let_def)

text \<open>\<open>aggregate_checks\<close> as a sequence of writes to the evidence log.\<close>

lemma aggregate_checks_rows:
  assumes "aggregate_checks profile cases obs recs = Inr out"
  shows "\<exists>mid checks. all_checks (b0_rows obs) = Inr checks
    \<and> (if profile = ''confirm-profile'' then aggregate_lite (b0_rows obs) recs else Inr recs)
        = Inr mid
    \<and> out = foldl evidence mid (completeness_row (profile_prefix profile) cases (b0_rows obs)
        # oracle_rows (profile_prefix profile) cases checks ''C0''
        @ oracle_rows (profile_prefix profile) cases checks ''C6'')"
proof -
  let ?pre = "profile_prefix profile" and ?q = "b0_rows obs"
  obtain mid where mid: "(if profile = ''confirm-profile'' then aggregate_lite ?q recs else Inr recs)
        = Inr mid"
    and f: "foldE (aggregate_oracle ?pre cases ?q) [''C0'', ''C6'']
        (evidence mid (completeness_row ?pre cases ?q)) = Inr out"
    using assms unfolding aggregate_checks_def completeness_row_def Let_def bindE_Inr_iff by blast
  from f obtain x where
    "aggregate_oracle ?pre cases ?q ''C0'' (evidence mid (completeness_row ?pre cases ?q)) = Inr x"
    by (auto simp: bindE_Inr_iff)
  then obtain checks where c: "all_checks ?q = Inr checks"
    unfolding aggregate_oracle_def bindE_Inr_iff by blast
  have "out = foldl evidence mid (completeness_row ?pre cases ?q
      # oracle_rows ?pre cases checks ''C0'' @ oracle_rows ?pre cases checks ''C6'')"
    using f by (simp add: aggregate_oracle_rows[OF c])
  with mid c show ?thesis by blast
qed

lemma checks_of_pairs:
  "list_all2 (\<lambda>p y. (\<lambda>(row, k). bindE (oracle_of k) (\<lambda>x. Inr (row, x, k))) p = Inr y) ps cs
   \<Longrightarrow> cs = map (\<lambda>(row, k). (row, the (ck_oracle k), k)) ps
     \<and> (\<forall>p\<in>set ps. ck_oracle (snd p) \<noteq> None)"
  by (induction rule: list_all2_induct) (auto simp: oracle_of_def split: option.splits)

lemma all_checks_eq:
  assumes "all_checks rows = Inr cs"
  shows "cs = concat (map (\<lambda>row. map (\<lambda>k. (row, the (ck_oracle k), k)) (ob_checks row)) rows)"
    and "\<forall>row\<in>set rows. \<forall>k\<in>set (ob_checks row). ck_oracle k \<noteq> None"
proof -
  let ?ps = "concat (map (\<lambda>row. map (Pair row) (ob_checks row)) rows)"
  have "list_all2 (\<lambda>p y. (\<lambda>(row, k). bindE (oracle_of k) (\<lambda>x. Inr (row, x, k))) p = Inr y) ?ps cs"
    using assms by (simp add: all_checks_def bindE_Inr_iff mapE_Inr_iff)
  from checks_of_pairs[OF this]
  have cs: "cs = map (\<lambda>(row, k). (row, the (ck_oracle k), k)) ?ps"
    and some: "\<forall>p\<in>set ?ps. ck_oracle (snd p) \<noteq> None" by simp_all
  show "cs = concat (map (\<lambda>row. map (\<lambda>k. (row, the (ck_oracle k), k)) (ob_checks row)) rows)"
    unfolding cs map_concat by (simp add: comp_def)
  show "\<forall>row\<in>set rows. \<forall>k\<in>set (ob_checks row). ck_oracle k \<noteq> None"
    using some by auto
qed

lemma all_checks_iff:
  assumes "all_checks rows = Inr cs"
  shows "(row, x, k) \<in> set cs
    \<longleftrightarrow> row \<in> set rows \<and> k \<in> set (ob_checks row) \<and> ck_oracle k = Some x"
  using all_checks_eq[OF assms] by force

definition oracle_checks :: "string \<Rightarrow> observation \<Rightarrow> check list" where
  "oracle_checks oracle row = filter (\<lambda>k. ck_oracle k = Some oracle) (ob_checks row)"

lemma oracle_checks_count:
  assumes "all_checks rows = Inr cs"
  shows "length (filter (\<lambda>(row, x, k). x = oracle) cs)
    = sum_list (map (\<lambda>row. length (oracle_checks oracle row)) rows)"
proof -
  have "length (filter (\<lambda>(row, x, k). x = oracle)
          (map (\<lambda>k. (row, the (ck_oracle k), k)) ks)) =
        length (filter (\<lambda>k. ck_oracle k = Some oracle) ks)"
    if "\<forall>k\<in>set ks. ck_oracle k \<noteq> None" for row :: observation and ks
    using that by (induction ks) auto
  then have "map (\<lambda>row. length (filter (\<lambda>(row, x, k). x = oracle)
          (map (\<lambda>k. (row, the (ck_oracle k), k)) (ob_checks row)))) rows
      = map (\<lambda>row. length (oracle_checks oracle row)) rows"
    using all_checks_eq(2)[OF assms] unfolding oracle_checks_def by (intro map_cong refl) blast
  then show ?thesis
    unfolding all_checks_eq(1)[OF assms] filter_concat length_concat map_map comp_def
    by (rule arg_cong[of _ _ sum_list])
qed

definition all_rows ::
    "string \<Rightarrow> tcase list \<Rightarrow> observation list \<Rightarrow> (observation \<times> string \<times> check) list \<Rightarrow> crec list"
where
  "all_rows pre cases quality checks = completeness_row pre cases quality #
     concat (map (\<lambda>oracle. [failure_record pre oracle checks ''baseline'',
         failure_record pre oracle checks ''evolved'',
         last (oracle_rows pre cases checks oracle)]) [''C0'', ''C6''])"

lemma oracle_rows_last: "last (oracle_rows pre cases checks oracle) =
    record_of (pre @ ''1/'' @ oracle) ''correctness''
         (if oracle_passed cases oracle checks then ''passed'' else ''unresolved'') ''evolved'' []"
  by (simp add: oracle_rows_def)

lemma oracle_rows_subset: "set (oracle_rows pre cases checks oracle) \<subseteq>
    {failure_record pre oracle checks ''baseline'', failure_record pre oracle checks ''evolved'',
     last (oracle_rows pre cases checks oracle)}"
  unfolding oracle_rows_last by (auto simp: oracle_rows_def)

lemma all_rows_ids: "map cr_id (all_rows pre cases quality checks) = map (append pre)
    [''6/completeness'', ''1/C0/baseline'', ''1/C0/evolved'', ''1/C0'',
     ''1/C6/baseline'', ''1/C6/evolved'', ''1/C6'']"
  unfolding all_rows_def oracle_rows_last
  by (simp add: completeness_row_def failure_record_def)

lemma all_rows_distinct: "distinct (map cr_id (all_rows pre cases quality checks))"
  unfolding all_rows_ids by simp

lemma aggregate_rows_determined:
  assumes "x \<in> set L" and "r \<in> set L" and "cr_id x = cr_id r"
    and rows: "L = completeness_row pre cases quality
      # oracle_rows pre cases checks ''C0'' @ oracle_rows pre cases checks ''C6''"
  shows "x = r"
proof -
  have "set L \<subseteq> set (all_rows pre cases quality checks)"
    unfolding rows all_rows_def using oracle_rows_subset[of pre cases checks] by auto
  with assms(1-3) all_rows_distinct show ?thesis
    by (meson distinct_map inj_on_def subsetD)
qed

lemma aggregate_row_member:
  assumes rows: "L = completeness_row pre cases quality
      # oracle_rows pre cases checks ''C0'' @ oracle_rows pre cases checks ''C6''"
    and "r \<in> set L"
  shows "r \<in> set (foldl evidence mid L)"
  by (rule evidence_log.puts_member[OF assms(2)])
     (rule aggregate_rows_determined[OF _ assms(2) _ rows])

lemma aggregate_row_unique:
  assumes rows: "L = completeness_row pre cases quality
      # oracle_rows pre cases checks ''C0'' @ oracle_rows pre cases checks ''C6''"
    and "r \<in> set L" and "y \<in> set (foldl evidence mid L)" and "cr_id y = cr_id r"
  shows "y = r"
  by (rule evidence_log.puts_unique[OF assms(2) _ assms(3,4)])
     (rule aggregate_rows_determined[OF _ assms(2) _ rows])

lemma oracle_failure_member:
  assumes "all_checks rows = Inr checks" and "row \<in> set rows" and "k \<in> set (ob_checks row)"
    and "ck_oracle k = Some oracle" and "ck_status k = ''mismatch''"
    and "ob_revision row \<in> {''baseline'', ''evolved''}"
  shows "failure_record pre oracle checks (ob_revision row)
           \<in> set (oracle_rows pre cases checks oracle)"
proof -
  have "(row, oracle, k) \<in> set checks"
    using assms(1-4) by (simp add: all_checks_iff)
  then have "failure_rows oracle (ob_revision row) checks \<noteq> []"
    using assms(5) by (force simp: failure_rows_def filter_empty_conv)
  with assms(6) show ?thesis by (auto simp: oracle_rows_def)
qed

section \<open>Properties\<close>


text \<open>
  C3. A circuit whose C0 or C6 check mismatched is never accepted: whatever evidence is added
  later, the gate stays closed and the verdict is not \<open>PASS\<close>, whichever revision compiled it.
\<close>

theorem mismatch_closes_gate:
  assumes "aggregate_checks profile cases obs recs = Inr out"
    and "row \<in> set obs" and "ob_seed_block row = ''B0''"
    and "ob_revision row \<in> {''baseline'', ''evolved''}"
    and "k \<in> set (ob_checks row)" and "ck_status k = ''mismatch''"
    and "ck_oracle k \<in> {Some ''C0'', Some ''C6''}"
    and "set out \<subseteq> set rs"
  shows "fst (gate bs rs rq ri) = ''closed'' \<and> verdict rs required \<noteq> Inr ''PASS''"
proof -
  let ?pre = "profile_prefix profile" and ?q = "b0_rows obs"
  obtain mid checks where c: "all_checks ?q = Inr checks"
    and out: "out = foldl evidence mid (completeness_row ?pre cases ?q
        # oracle_rows ?pre cases checks ''C0'' @ oracle_rows ?pre cases checks ''C6'')"
    using aggregate_checks_rows[OF assms(1)] by blast
  obtain x where x: "ck_oracle k = Some x" "x = ''C0'' \<or> x = ''C6''" using assms(7) by blast
  let ?r = "failure_record ?pre x checks (ob_revision row)"
  have row: "row \<in> set ?q" using assms(2,3) by (simp add: b0_rows_def)
  have "?r \<in> set (oracle_rows ?pre cases checks x)"
    by (rule oracle_failure_member[OF c row assms(5) x(1) assms(6) assms(4)])
  with x(2) have "?r \<in> set (completeness_row ?pre cases ?q
        # oracle_rows ?pre cases checks ''C0'' @ oracle_rows ?pre cases checks ''C6'')"
    by auto
  from aggregate_row_member[OF refl this] out assms(8) have "?r \<in> set rs" by blast
  moreover have "cr_kind ?r = ''correctness''" "cr_result ?r = ''failed''"
    by (simp_all add: failure_record_def)
  ultimately show ?thesis
    by (intro conjI failed_check_closes failed_record_not_PASS) auto
qed

text \<open>
  Counting: rows with distinct keys in a set of \<open>n\<close> keys, of which \<open>n\<close> carry a check, carry a
  check at every key.
\<close>

lemma count_covers:
  assumes "finite K" and "inj_on f (set rows)" and "distinct rows" and "f ` set rows \<subseteq> K"
    and "length (filter P rows) = card K" and "k \<in> K"
  shows "\<exists>row\<in>set rows. P row \<and> f row = k"
proof -
  have "card (f ` set (filter P rows)) = length (filter P rows)"
    using assms(2,3) by (metis card_image distinct_card distinct_filter filter_is_subset inj_on_subset)
  with assms have "f ` set (filter P rows) = K"
    by (metis card_subset_eq filter_is_subset image_mono order_trans)
  with assms(6) show ?thesis by auto
qed

definition panel_keys :: "tcase list \<Rightarrow> (string \<times> string \<times> nat) set" where
  "panel_keys cases = (\<Union>c\<in>set cases. {case_id c} \<times> {''baseline'', ''evolved''}
      \<times> {0..<seeds_per_block c})"

lemma card_panel_keys:
  "distinct (map case_id cases) \<Longrightarrow> card (panel_keys cases) = expected_observations cases"
proof (induction cases)
  case (Cons c cs)
  let ?A = "{case_id c} \<times> {''baseline'', ''evolved''} \<times> {0..<seeds_per_block c}"
  have "card ?A = 2 * seeds_per_block c" by (simp add: card_cartesian_product)
  moreover have "?A \<inter> panel_keys cs = {}" using Cons.prems by (auto simp: panel_keys_def)
  moreover have "finite ?A" "finite (panel_keys cs)" by (auto simp: panel_keys_def)
  ultimately have "card (?A \<union> panel_keys cs) = 2 * seeds_per_block c + card (panel_keys cs)"
    by (simp add: card_Un_disjoint)
  with Cons show ?case by (simp add: panel_keys_def expected_observations_def)
qed (simp add: panel_keys_def expected_observations_def)

definition row_key :: "observation \<Rightarrow> string \<times> string \<times> nat" where
  "row_key r = (ob_case_id r, ob_revision r, ob_seed r)"


lemma sum_small_counts:
  "\<forall>x\<in>set xs. f x \<le> (1::nat) \<Longrightarrow> sum_list (map f xs) = length (filter (\<lambda>x. f x = 1) xs)"
  by (induction xs) (auto simp: le_Suc_eq)

text \<open>
  C4. A passed \<open>C0\<close> aggregate means complete verification: if rows have unique keys within
  the manifest's panel and at most one structural check each, every case, revision and seed of
  the panel has an observation whose structural check verified.
\<close>

theorem c0_passed_covers_panel:
  assumes "aggregate_checks profile cases obs recs = Inr out"
    and "r \<in> set out" and "cr_id r = profile_prefix profile @ ''1/C0''"
    and "cr_result r = ''passed''"
    and "distinct (map case_id cases)"
    and "distinct (map row_key (b0_rows obs))"
    and "row_key ` set (b0_rows obs) \<subseteq> panel_keys cases"
    and "\<forall>row\<in>set (b0_rows obs). length (oracle_checks ''C0'' row) \<le> 1"
    and "key \<in> panel_keys cases"
  shows "\<exists>row\<in>set (b0_rows obs). row_key row = key
    \<and> (\<exists>k\<in>set (ob_checks row). ck_oracle k = Some ''C0'' \<and> ck_status k = ''verified'')"
proof -
  let ?pre = "profile_prefix profile" and ?q = "b0_rows obs"
  obtain mid checks where c: "all_checks ?q = Inr checks"
    and out: "out = foldl evidence mid (completeness_row ?pre cases ?q
        # oracle_rows ?pre cases checks ''C0'' @ oracle_rows ?pre cases checks ''C6'')"
    using aggregate_checks_rows[OF assms(1)] by blast
  let ?a = "last (oracle_rows ?pre cases checks ''C0'')"
  have "?a \<in> set (oracle_rows ?pre cases checks ''C0'')" by (simp add: oracle_rows_def)
  then have "r = ?a"
    using assms(2,3) unfolding out
    by (intro aggregate_row_unique[OF refl, of ?a]) (auto simp: oracle_rows_last)
  with assms(4) have p: "oracle_passed cases ''C0'' checks"
    unfolding oracle_rows_last by (simp split: if_splits)
  have "length (filter (\<lambda>row. length (oracle_checks ''C0'' row) = 1) ?q)
      = sum_list (map (\<lambda>row. length (oracle_checks ''C0'' row)) ?q)"
    using sum_small_counts[OF assms(8)] by simp
  also have "\<dots> = expected_observations cases"
    using p oracle_checks_count[OF c, of "''C0''"]
    unfolding oracle_passed_def oracle_required_def Let_def by simp
  finally have count: "length (filter (\<lambda>row. length (oracle_checks ''C0'' row) = 1) ?q)
      = card (panel_keys cases)"
    using card_panel_keys[OF assms(5)] by simp
  have inj: "inj_on row_key (set ?q)" and dist: "distinct ?q"
    using assms(6) by (simp_all add: distinct_map)
  have fin: "finite (panel_keys cases)" by (auto simp: panel_keys_def)
  obtain row where row: "row \<in> set ?q" "length (oracle_checks ''C0'' row) = 1" "row_key row = key"
    using count_covers[OF fin inj dist assms(7) count assms(9)] by blast
  then obtain k where "k \<in> set (oracle_checks ''C0'' row)"
    by (metis length_0_conv list.set_intros(1) neq_Nil_conv zero_neq_one)
  then have k: "k \<in> set (ob_checks row)" "ck_oracle k = Some ''C0''"
    by (simp_all add: oracle_checks_def)
  with row(1) have "(row, ''C0'', k) \<in> set checks" by (simp add: all_checks_iff[OF c])
  with p have "ck_status k = ''verified''"
    unfolding oracle_passed_def Let_def list_all_iff by fastforce
  with k row show ?thesis by blast
qed

text \<open>
  The stage-coverage record passes exactly when every scored case has a verified check of
  its evolved output, against its own reference, that covers every changed stage of its level.
\<close>

theorem stage_coverage_passed_iff:
  assumes "stage_coverage scopes cases obs clifford pre = Inr r"
  shows "cr_result r = ''passed'' \<longleftrightarrow>
    (\<forall>c\<in>set cases. role c = ''scored'' \<longrightarrow>
       (\<exists>k\<in>set (coverage_checks (b0_rows obs) clifford c).
          check_covers c (the (scopes (optimization_level c))) k))"
proof -
  define checks where "checks = coverage_checks (b0_rows obs) clifford"
  define missing :: "tcase \<Rightarrow> string list res" where "missing c = (case scopes (optimization_level c) of None \<Rightarrow> Inl KeyError
      | Some scope \<Rightarrow> Inr (if covered c (checks c) scope then [] else [case_id c]))" for c
  let ?scored = "filter (\<lambda>c. role c = ''scored'') cases"
  obtain parts where parts: "mapE missing ?scored = Inr parts"
    and r: "cr_result r = (if concat parts \<noteq> [] then ''unresolved'' else ''passed'')"
    using assms unfolding stage_coverage_def Let_def bindE_Inr_iff missing_def checks_def by auto
  have m: "\<exists>scope. scopes (optimization_level c) = Some scope
      \<and> part = (if covered c (checks c) scope then [] else [case_id c])"
    if "missing c = Inr part" for c part
    using that by (auto simp: missing_def split: option.splits)
  have l: "list_all2 (\<lambda>c part. missing c = Inr part) ?scored parts"
    using parts by (simp add: mapE_Inr_iff)
  have "concat parts = [] \<longleftrightarrow>
      (\<forall>c\<in>set ?scored. covered c (checks c) (the (scopes (optimization_level c))))"
  proof
    assume e: "concat parts = []"
    show "\<forall>c\<in>set ?scored. covered c (checks c) (the (scopes (optimization_level c)))"
    proof
      fix c assume "c \<in> set ?scored"
      from list_all2_left[OF l this] obtain part where "part \<in> set parts" "missing c = Inr part"
        by blast
      with m e show "covered c (checks c) (the (scopes (optimization_level c)))"
        by (fastforce split: if_splits)
    qed
  next
    assume a: "\<forall>c\<in>set ?scored. covered c (checks c) (the (scopes (optimization_level c)))"
    have "part = []" if "part \<in> set parts" for part
      using list_all2_right[OF l that] m a by fastforce
    then show "concat parts = []" by simp
  qed
  moreover have "cr_result r = ''passed'' \<longleftrightarrow> concat parts = []" by (simp add: r)
  ultimately show ?thesis
    unfolding covered_iff checks_def by (simp add: Ball_def imp_conjL)
qed

section \<open>Witnesses\<close>

definition demo_gate_records :: "crec list" where
  "demo_gate_records =
     [record_of ''harness/roundtrip'' ''harness'' ''passed'' ''evolved'' [],
      record_of ''IA2/improvement'' ''improvement'' ''passed'' ''evolved'' []]"

definition demo_check :: "string \<Rightarrow> string \<Rightarrow> check" where
  "demo_check oracle status = \<lparr>ck_status = status, ck_oracle = Some oracle, ck_mode = None,
     ck_reference_hash = Some ''00'', ck_input_domain = Some ''all_inputs'',
     ck_covers = PIPELINE_STAGES, ck_substituted = [], ck_case_id = None, ck_revision = None,
     ck_union_width = None\<rparr>"

definition demo_row :: "string \<Rightarrow> string \<Rightarrow> nat \<Rightarrow> check list \<Rightarrow> observation" where
  "demo_row c rv s ks = \<lparr>ob_id = c @ rv, ob_case_id = c, ob_revision = rv, ob_seed = s,
     ob_seed_block = ''B0'', ob_mode = ''quality'', ob_metrics = (\<lambda>_. Some 1), ob_checks = ks,
     ob_output_hash = None, ob_layout = ''l'', ob_cached_from = None\<rparr>"


theorem mismatch_closes_gate_witness:
  "\<exists>out. aggregate_checks ''iterations-profile'' [demo_case ''a'' ''scored'' 1]
       [demo_row ''a'' ''evolved'' 0 [demo_check ''C0'' ''mismatch'']] [] = Inr out
     \<and> fst (gate \<lparr>b_baseline = None, b_evolved = None\<rparr> out [] []) = ''closed''"
proof -
  let ?row = "demo_row ''a'' ''evolved'' 0 [demo_check ''C0'' ''mismatch'']"
  obtain out where out: "aggregate_checks ''iterations-profile'' [demo_case ''a'' ''scored'' 1]
      [?row] [] = Inr out"
    by (simp add: aggregate_checks_def aggregate_oracle_def all_checks_def oracle_of_def Let_def
        b0_rows_def demo_row_def demo_check_def)
  have "fst (gate \<lparr>b_baseline = None, b_evolved = None\<rparr> out [] []) = ''closed''"
    by (rule mismatch_closes_gate[OF out, THEN conjunct1, of ?row "demo_check ''C0'' ''mismatch''"])
       (simp_all add: demo_row_def demo_check_def)
  with out show ?thesis by blast
qed

theorem c0_passed_covers_panel_witness:
  "\<exists>out. aggregate_checks ''iterations-profile'' [(demo_case ''a'' ''canary'' 1)\<lparr>seeds_per_block := 1\<rparr>]
       [demo_row ''a'' ''evolved'' 0 [demo_check ''C0'' ''verified''],
        demo_row ''a'' ''baseline'' 0 [demo_check ''C0'' ''verified'']] [] = Inr out
     \<and> (\<exists>row k. row_key row = (''a'', ''baseline'', 0) \<and> k \<in> set (ob_checks row)
          \<and> ck_status k = ''verified'')"
proof -
  let ?c = "(demo_case ''a'' ''canary'' 1)\<lparr>seeds_per_block := 1\<rparr>"
  let ?obs = "[demo_row ''a'' ''evolved'' 0 [demo_check ''C0'' ''verified''],
      demo_row ''a'' ''baseline'' 0 [demo_check ''C0'' ''verified'']]"
  have q: "b0_rows ?obs = ?obs" by (simp add: b0_rows_def demo_row_def)
  have ac: "all_checks ?obs = Inr (concat (map (\<lambda>row. map (\<lambda>k. (row, ''C0'', k)) (ob_checks row)) ?obs))"
    by (simp add: all_checks_def oracle_of_def demo_row_def demo_check_def)
  let ?L = "completeness_row (profile_prefix ''iterations-profile'') [?c] ?obs
     # oracle_rows (profile_prefix ''iterations-profile'') [?c]
         (concat (map (\<lambda>row. map (\<lambda>k. (row, ''C0'', k)) (ob_checks row)) ?obs)) ''C0''
     @ oracle_rows (profile_prefix ''iterations-profile'') [?c]
         (concat (map (\<lambda>row. map (\<lambda>k. (row, ''C0'', k)) (ob_checks row)) ?obs)) ''C6''"
  have out: "aggregate_checks ''iterations-profile'' [?c] ?obs [] = Inr (foldl evidence [] ?L)"
    unfolding aggregate_checks_def q Let_def completeness_row_def [symmetric]
    by (simp add: aggregate_oracle_rows[OF ac] del: append.simps)
  let ?a = "last (oracle_rows (profile_prefix ''iterations-profile'') [?c]
         (concat (map (\<lambda>row. map (\<lambda>k. (row, ''C0'', k)) (ob_checks row)) ?obs)) ''C0'')"
  have "?a \<in> set ?L" by (auto simp: oracle_rows_def)
  then have a: "?a \<in> set (foldl evidence [] ?L)" by (rule aggregate_row_member[OF refl])
  have pass: "cr_result ?a = ''passed''"
    by (simp add: oracle_rows_last oracle_passed_def oracle_required_def demo_row_def
        demo_check_def expected_observations_def)
  have "\<exists>row\<in>set (b0_rows ?obs). row_key row = (''a'', ''baseline'', 0)
    \<and> (\<exists>k\<in>set (ob_checks row). ck_oracle k = Some ''C0'' \<and> ck_status k = ''verified'')"
    by (rule c0_passed_covers_panel[OF out a _ pass], unfold q)
       (simp_all add: oracle_rows_last row_key_def panel_keys_def demo_row_def demo_check_def
          demo_case_def oracle_checks_def)
  with out show ?thesis by blast
qed

theorem stage_coverage_passed_iff_witness:
  "\<exists>r. stage_coverage (\<lambda>_. Some (changed_scope [] 2)) [demo_case ''a'' ''scored'' 1]
        [demo_row ''a'' ''evolved'' 0 [demo_check ''C6'' ''verified'']] [] ''IA'' = Inr r
     \<and> cr_result r = ''passed''"
proof -
  let ?c = "demo_case ''a'' ''scored'' 1"
  let ?obs = "[demo_row ''a'' ''evolved'' 0 [demo_check ''C6'' ''verified'']]"
  obtain r where r: "stage_coverage (\<lambda>_. Some (changed_scope [] 2)) [?c] ?obs [] ''IA'' = Inr r"
    by (simp add: stage_coverage_def Let_def demo_case_def)
  have k: "demo_check ''C6'' ''verified'' \<in> set (coverage_checks (b0_rows ?obs) [] ?c)"
    by (simp add: coverage_checks_def b0_rows_def demo_row_def demo_case_def)
  have "check_covers ?c (changed_scope [] 2) (demo_check ''C6'' ''verified'')"
    by (simp add: check_covers_iff demo_check_def expected_reference_def reference_sha_def
        demo_case_def demo_artifact_def changed_scope_sel)
  with stage_coverage_passed_iff[OF r] k have "cr_result r = ''passed''" by auto
  with r show ?thesis by blast
qed

end
