(* ===== verification/Metrics.thy ===== *)
theory Metrics
  imports Complex_Main Prelude "HOL-Library.AList"
begin

text \<open>
  Structural grading: \<open>src/src/qtb/metrics/__init__.py\<close> (\<open>d2_n2\<close>, \<open>layout_errors\<close>,
  \<open>StructuralChecker\<close>), \<open>numeric\<close> of \<open>canonical/__init__.py\<close> and \<open>structural_result\<close> of
  \<open>coordinator/__init__.py\<close>, on operations already decoded from JSON. A wire index is
  \<open>JI i\<close> when its JSON value is an integer and \<open>JX\<close> when it has another type; a numeric
  parameter is classified by what \<open>float\<close> and \<open>float.fromhex\<close> do with it. Dictionaries of
  levels are association lists. The lemmas show that D2 is the weight of the heaviest
  dependency chain and that the streaming checker computes the same metrics.
\<close>

section \<open>Decoded operations\<close>

datatype jwire = JI int | JX

text \<open>
  \<open>JFinite\<close>: a finite number or hexadecimal string; \<open>JNonFinite\<close>: an infinity or NaN;
  \<open>JOverflow\<close>: a string or integer beyond the range of a float; \<open>JBadString\<close>: a string
  \<open>float.fromhex\<close> rejects; \<open>JBadType\<close>: a value \<open>float\<close> rejects by its type.
\<close>

datatype jnum = JFinite real | JNonFinite | JOverflow | JBadString | JBadType

fun numeric :: "jnum \<Rightarrow> real res" where
  "numeric (JFinite r) = Inr r"
| "numeric JNonFinite = Inl (HarnessError ''Non-finite canonical number'')"
| "numeric JOverflow = Inl OverflowError"
| "numeric JBadString = Inl ValueError"
| "numeric JBadType = Inl TypeError"

datatype param = PDict "string option" | PNum jnum

datatype op =
    Malformed
  | Op string "jwire list" "jwire list" "param list" "payload option"
and payload = Payload "string option" "op list list"

datatype qwire = Q int | C int

definition DIRECTIVES :: "string list" where
  "DIRECTIVES = [''barrier'']"

definition CONTROL_FLOW :: "string list" where
  "CONTROL_FLOW = [''if_else'', ''for_loop'', ''while_loop'', ''switch_case'']"

section \<open>Depth and gate count\<close>

type_synonym levels = "(qwire \<times> nat) list"

definition level :: "levels \<Rightarrow> qwire \<Rightarrow> nat" where
  "level ls w = (case map_of ls w of None \<Rightarrow> 0 | Some n \<Rightarrow> n)"

definition max_default :: "nat list \<Rightarrow> nat" where
  "max_default ns = foldr max ns 0"

text \<open>One operation: \<open>new\<close> is the highest level of its wires plus its count.\<close>

definition raise_levels :: "qwire list \<Rightarrow> bool \<Rightarrow> levels \<Rightarrow> levels" where
  "raise_levels wires counted ls =
     (let new = max_default (map (level ls) wires) + (if counted then 1 else 0) in
      foldl (\<lambda>ls w. AList.update w new ls) ls wires)"

definition int_wires :: "int list \<Rightarrow> int list \<Rightarrow> qwire list" where
  "int_wires qs cs = map Q qs @ map C cs"

text \<open>
  \<open>d2_n2\<close> on operations given as name, qubits and clbits.
\<close>

definition d2_counted :: "string list \<Rightarrow> string \<Rightarrow> int list \<Rightarrow> bool" where
  "d2_counted native name qs \<longleftrightarrow> name \<in> set native \<and> length qs = 2
     \<and> name \<notin> {''barrier'', ''delay'', ''measure'', ''reset''}"

fun d2_loop ::
    "string list \<Rightarrow> (string \<times> int list \<times> int list) list \<Rightarrow> levels \<times> nat \<Rightarrow> (levels \<times> nat) res"
where
  "d2_loop native [] acc = Inr acc"
| "d2_loop native ((name, qs, cs) # ops) (ls, n) =
     (if name \<in> set CONTROL_FLOW
      then Inl (HarnessError ''D2 is undefined for dynamic circuits'')
      else let counted = d2_counted native name qs in
        d2_loop native ops
          (raise_levels (int_wires qs cs) counted ls, n + (if counted then 1 else 0)))"

definition d2_n2 :: "string list \<Rightarrow> (string \<times> int list \<times> int list) list \<Rightarrow> (nat \<times> nat) res" where
  "d2_n2 native ops =
     bindE (d2_loop native ops ([], 0)) (\<lambda>(ls, n). Inr (max_default (map snd ls), n))"

section \<open>Layouts\<close>

record layout =
  ly_input :: "int option"
  ly_output :: "int option"
  ly_initial :: "jwire list"
  ly_final :: "jwire list"
  ly_routing :: "jwire list"

fun ints_of :: "jwire list \<Rightarrow> int list option" where
  "ints_of [] = Some []"
| "ints_of (JI i # ws) = map_option (Cons i) (ints_of ws)"
| "ints_of (JX # ws) = None"

definition int_range :: "nat \<Rightarrow> int list" where
  "int_range n = map int [0..<n]"

text \<open>Not \<open>any(type(v) is not int ...) or sorted(values) != list(range(n_out))\<close>.\<close>

definition is_permutation :: "jwire list \<Rightarrow> nat \<Rightarrow> bool" where
  "is_permutation values n =
     (case ints_of values of None \<Rightarrow> False | Some is \<Rightarrow> sort is = int_range n)"

definition the_ints :: "jwire list \<Rightarrow> int list" where
  "the_ints ws = (case ints_of ws of None \<Rightarrow> [] | Some is \<Rightarrow> is)"

definition nth_int :: "int list \<Rightarrow> int \<Rightarrow> int" where
  "nth_int xs i = xs ! nat i"

definition permutation_errors ::
    "jwire list \<Rightarrow> jwire list \<Rightarrow> jwire list \<Rightarrow> nat \<Rightarrow> nat \<Rightarrow> jwire list option \<Rightarrow> string list"
where
  "permutation_errors initial final routing n_in n_out requested =
     (let errors = concat (map (\<lambda>(name, values).
          if is_permutation values n_out then [] else [name @ '' layout is not a permutation''])
          [(''initial'', initial), (''final'', final), (''routing'', routing)]) in
      if errors \<noteq> [] then errors
      else
        let ini = the_ints initial; fin = the_ints final; rou = the_ints routing in
        (if list_ex (\<lambda>i. nth_int fin i \<noteq> nth_int rou (nth_int ini i)) (int_range n_out)
         then [''Final layout disagrees with routing permutation''] else [])
        @ (if (case requested of None \<Rightarrow> False | Some r \<Rightarrow> take n_in initial \<noteq> r)
           then [''Explicit initial layout was not honored''] else []))"

definition layout_errors ::
    "layout option \<Rightarrow> nat \<Rightarrow> nat \<Rightarrow> jwire list option \<Rightarrow> string list" where
  "layout_errors lay n_in n_out requested =
     (case lay of
        None \<Rightarrow>
          if n_in \<noteq> n_out then [''Missing layout on a widened circuit'']
          else let r = map JI (int_range n_out) in permutation_errors r r r n_in n_out requested
      | Some l \<Rightarrow>
          if (ly_input l, ly_output l) \<noteq> (Some (int n_in), Some (int n_out))
          then [''Layout width mismatch'']
          else permutation_errors (ly_initial l) (ly_final l) (ly_routing l) n_in n_out requested)"

section \<open>The structural checker\<close>

record ispec =
  sp_arity :: "nat option"
  sp_qargs :: "int list list option"
  sp_parameters :: nat
  sp_bounds :: "jnum list option list"
  sp_fixed :: "nat \<rightharpoonup> jnum"

record qtarget =
  t_qubits :: nat
  t_instructions :: "(string \<times> ispec) list"
  t_native_2q :: "string list"

record header =
  h_qubits :: nat
  h_clbits :: nat

text \<open>\<open>LOOSE_IMPLICIT\<close>: arity, classical arity and number of parameters.\<close>

definition LOOSE_IMPLICIT :: "(string \<times> nat option \<times> nat option \<times> nat) list" where
  "LOOSE_IMPLICIT =
     [(''measure'', Some 1, Some 1, 0), (''reset'', Some 1, Some 0, 0),
      (''delay'', Some 1, Some 0, 1)]
     @ map (\<lambda>name. (name, None, None, 0)) CONTROL_FLOW"

record checker =
  ck_levels :: levels
  ck_n2 :: nat
  ck_errors :: "string list"
  ck_active :: "int list"
  ck_dynamic :: bool

record checker_config =
  cf_header :: header
  cf_native :: "string list"
  cf_support :: "string \<rightharpoonup> ispec"
  cf_loose :: "string list"

definition loose_spec :: "nat option \<Rightarrow> nat \<Rightarrow> ispec" where
  "loose_spec arity params = \<lparr>sp_arity = arity, sp_qargs = None, sp_parameters = params,
     sp_bounds = [], sp_fixed = Map.empty\<rparr>"

definition checker_config :: "header \<Rightarrow> qtarget \<Rightarrow> string \<Rightarrow> checker_config" where
  "checker_config h t form =
     (let support = dict_of (t_instructions t);
          implied = (if form = ''loose''
            then filter (\<lambda>(name, _). support name = None) LOOSE_IMPLICIT else []) in
      \<lparr>cf_header = h, cf_native = t_native_2q t,
       cf_support = (\<lambda>name. case support name of
           Some s \<Rightarrow> Some s
         | None \<Rightarrow> map_option (\<lambda>(arity, _, params). loose_spec arity params) (map_of implied name)),
       cf_loose = map fst implied\<rparr>)"

definition new_checker :: "header \<Rightarrow> qtarget \<Rightarrow> checker" where
  "new_checker h t = \<lparr>ck_levels = [], ck_n2 = 0,
     ck_errors = (if h_qubits h \<noteq> t_qubits t then [''Output width differs from target width'']
                  else []),
     ck_active = [], ck_dynamic = False\<rparr>"

definition add_error :: "string \<Rightarrow> checker \<Rightarrow> checker" where
  "add_error e st = st\<lparr>ck_errors := ck_errors st @ [e]\<rparr>"

definition valid_index :: "nat \<Rightarrow> jwire \<Rightarrow> bool" where
  "valid_index n w = (case w of JI i \<Rightarrow> 0 \<le> i \<and> i < int n | JX \<Rightarrow> False)"

text \<open>\<open>[qmap[q] for q in qs] if qmap else qs\<close>, for nonnegative \<open>q\<close>.\<close>

definition map_wires :: "int list \<Rightarrow> int list \<Rightarrow> int list res" where
  "map_wires qmap qs = (if qmap = [] then Inr qs
     else mapE (\<lambda>q. if nat q < length qmap then Inr (qmap ! nat q) else Inl IndexError) qs)"

fun caught_numeric :: "exn \<Rightarrow> bool" where
  "caught_numeric ValueError = True"
| "caught_numeric TypeError = True"
| "caught_numeric IndexError = True"
| "caught_numeric e = is_harness_error e"

text \<open>The body of the \<open>try\<close>: the errors appended so far, and how it ended.\<close>

definition bounds_check :: "string \<Rightarrow> ispec \<Rightarrow> nat \<Rightarrow> real \<Rightarrow> string list res" where
  "bounds_check name spec index value =
     (if sp_bounds spec = [] then Inr []
      else if length (sp_bounds spec) \<le> index then Inl IndexError
      else case sp_bounds spec ! index of
        None \<Rightarrow> Inr []
      | Some b \<Rightarrow> bindE (mapE numeric (take 3 b)) (\<lambda>vs. case vs of
            [lo, hi] \<Rightarrow> Inr (if lo \<le> value \<and> value \<le> hi then []
                           else [''Parameter outside bounds: '' @ name])
          | _ \<Rightarrow> Inl ValueError))"

definition fixed_check :: "string \<Rightarrow> ispec \<Rightarrow> nat \<Rightarrow> real \<Rightarrow> string list res" where
  "fixed_check name spec index value =
     (case sp_fixed spec index of
        None \<Rightarrow> Inr []
      | Some f \<Rightarrow> bindE (numeric f) (\<lambda>x.
          Inr (if value \<noteq> x then [''Fixed parameter mismatch: '' @ name] else [])))"

definition try_param :: "string \<Rightarrow> ispec \<Rightarrow> nat \<Rightarrow> jnum \<Rightarrow> string list \<times> unit res" where
  "try_param name spec index j =
     (case numeric j of
        Inl e \<Rightarrow> ([], Inl e)
      | Inr value \<Rightarrow> (case bounds_check name spec index value of
          Inl e \<Rightarrow> ([], Inl e)
        | Inr es \<Rightarrow> (case fixed_check name spec index value of
            Inl e \<Rightarrow> (es, Inl e)
          | Inr fs \<Rightarrow> (es @ fs, Inr ()))))"

definition param_errors :: "string \<Rightarrow> ispec \<Rightarrow> nat \<times> param \<Rightarrow> string list res" where
  "param_errors name spec ip =
     (case ip of
        (index, PDict kind) \<Rightarrow>
          Inr (if kind \<in> {Some ''expression/1'', Some ''symbolic/1''} then []
               else [''Invalid symbolic parameter: '' @ name])
      | (index, PNum j) \<Rightarrow> (case try_param name spec index j of
            (es, Inr _) \<Rightarrow> Inr es
          | (es, Inl e) \<Rightarrow>
              if caught_numeric e then Inr (es @ [''Invalid numeric parameter: '' @ name])
              else Inl e))"

definition show_ints :: "int list \<Rightarrow> string" where
  "show_ints is = ''['' @ join_str '', '' (map show_int is) @ '']''"

text \<open>The errors of an operation that is not a directive.\<close>

definition instruction_errors ::
    "checker_config \<Rightarrow> string \<Rightarrow> int list \<Rightarrow> int list \<Rightarrow> param list \<Rightarrow> string list res" where
  "instruction_errors cf name qs cs params =
     (case cf_support cf name of
        None \<Rightarrow> Inr [''Unsupported instruction '' @ name]
      | Some spec \<Rightarrow>
          bindE (mapE (param_errors name spec) (enumerate 0 params)) (\<lambda>ps.
            Inr ((if sp_arity spec \<noteq> None \<and> sp_arity spec \<noteq> Some (length qs)
                  then [''Wrong arity: '' @ name] else [])
               @ (if name \<in> set (cf_loose cf)
                    \<and> (case map_of LOOSE_IMPLICIT name of
                         Some (_, Some k, _) \<Rightarrow> length cs \<noteq> k | _ \<Rightarrow> False)
                  then [''Wrong classical arity: '' @ name] else [])
               @ (if (case sp_qargs spec of None \<Rightarrow> False | Some al \<Rightarrow> qs \<notin> set al)
                  then [''Illegal ordered qubits: '' @ name @ show_ints qs] else [])
               @ (if name \<notin> set CONTROL_FLOW \<and> length params \<noteq> sp_parameters spec
                  then [''Wrong parameter count: '' @ name] else [])
               @ concat ps)))"

definition count_wires :: "checker_config \<Rightarrow> string \<Rightarrow> int list \<Rightarrow> int list \<Rightarrow> checker \<Rightarrow> checker" where
  "count_wires cf name qs cs st =
     (let counted = (name \<in> set (cf_native cf) \<and> length qs = 2) in
      st\<lparr>ck_levels := raise_levels (int_wires qs cs) counted (ck_levels st),
         ck_n2 := ck_n2 st + (if counted then 1 else 0)\<rparr>)"

text \<open>The tests of \<open>consume\<close> that return early, with the error they append.\<close>

definition check_wires ::
    "checker_config \<Rightarrow> jwire list \<Rightarrow> jwire list \<Rightarrow> string option" where
  "check_wires cf qs cs =
     (if list_ex (\<lambda>q. \<not> valid_index (h_qubits (cf_header cf)) q) qs
      then Some ''Invalid qubit index''
      else if list_ex (\<lambda>c. \<not> valid_index (h_clbits (cf_header cf)) c) cs
      then Some ''Invalid classical index''
      else if \<not> distinct qs \<or> \<not> distinct cs then Some ''Repeated operation wire''
      else None)"

definition check_instruction ::
    "checker_config \<Rightarrow> string \<Rightarrow> int list \<Rightarrow> int list \<Rightarrow> param list \<Rightarrow> checker \<Rightarrow> checker res" where
  "check_instruction cf name qs cs params st =
     (let st = (if name \<noteq> ''barrier'' then st\<lparr>ck_active := ck_active st @ qs\<rparr> else st) in
      if name \<in> set DIRECTIVES then Inr st
      else bindE (instruction_errors cf name qs cs params) (\<lambda>es.
        Inr (st\<lparr>ck_errors := ck_errors st @ es\<rparr>)))"

fun consume :: "checker_config \<Rightarrow> int list \<Rightarrow> int list \<Rightarrow> op \<Rightarrow> checker \<Rightarrow> checker res"
  and consume_block :: "checker_config \<Rightarrow> int list \<Rightarrow> int list \<Rightarrow> op list \<Rightarrow> checker \<Rightarrow> checker res"
  and consume_blocks ::
    "checker_config \<Rightarrow> int list \<Rightarrow> int list \<Rightarrow> op list list \<Rightarrow> checker \<Rightarrow> checker res"
where
  "consume cf qmap cmap Malformed st = Inr (add_error ''Malformed operation'' st)"
| "consume cf qmap cmap (Op name qs0 cs0 params payload) st =
     (case check_wires cf qs0 cs0 of
        Some e \<Rightarrow> Inr (add_error e st)
      | None \<Rightarrow>
          bindE (map_wires qmap (the_ints qs0)) (\<lambda>qs.
          bindE (map_wires cmap (the_ints cs0)) (\<lambda>cs.
          bindE (check_instruction cf name qs cs params st) (\<lambda>st.
            if name \<in> set CONTROL_FLOW then
              (let st = st\<lparr>ck_dynamic := True\<rparr> in
               case payload of
                 None \<Rightarrow> Inr (add_error ''Missing control-flow payload'' st)
               | Some (Payload kind blocks) \<Rightarrow>
                   if kind \<noteq> Some ''control_flow/1''
                   then Inr (add_error ''Missing control-flow payload'' st)
                   else consume_blocks cf qs cs blocks st)
            else Inr (count_wires cf name qs cs st)))))"
| "consume_block cf qmap cmap [] st = Inr st"
| "consume_block cf qmap cmap (op # ops) st =
     bindE (consume cf qmap cmap op st) (consume_block cf qmap cmap ops)"
| "consume_blocks cf qmap cmap [] st = Inr st"
| "consume_blocks cf qmap cmap (b # bs) st =
     bindE (consume_block cf qmap cmap b st) (consume_blocks cf qmap cmap bs)"

record check_result =
  cr_verified :: bool
  cr_errors :: "string list"
  cr_metrics :: "(nat \<times> nat) option"

definition checker_result :: "checker \<Rightarrow> check_result" where
  "checker_result st = \<lparr>cr_verified = (ck_errors st = []), cr_errors = ck_errors st,
     cr_metrics = (if ck_dynamic st then None
                   else Some (max_default (map snd (ck_levels st)), ck_n2 st))\<rparr>"

definition run_checker :: "header \<Rightarrow> qtarget \<Rightarrow> string \<Rightarrow> op list \<Rightarrow> checker res" where
  "run_checker h t form ops =
     consume_block (checker_config h t form) [] [] ops (new_checker h t)"

text \<open>
  \<open>structural_result\<close> on the decoded lines of a circuit file; the output's hash is left out.
\<close>

definition structural_result ::
    "header \<Rightarrow> op list \<Rightarrow> qtarget \<Rightarrow> layout option \<Rightarrow> nat \<Rightarrow> jwire list option \<Rightarrow> string
       \<Rightarrow> (check_result \<times> nat option) res" where
  "structural_result h ops t lay input_width requested form =
     bindE (run_checker h t form ops) (\<lambda>st.
       let errors = layout_errors lay input_width (h_qubits h) requested;
           result = checker_result (st\<lparr>ck_errors := ck_errors st @ errors\<rparr>);
           initial = (case lay of None \<Rightarrow> int_range input_width | Some l \<Rightarrow> the_ints (ly_initial l));
           final = (case lay of None \<Rightarrow> int_range input_width | Some l \<Rightarrow> the_ints (ly_final l)) in
       Inr (result,
         if errors = []
         then Some (length (remdups (ck_active st @ take input_width initial
                @ take input_width final)))
         else None))"

section \<open>Levels\<close>

lemma map_of_foldl_update:
  "map_of (foldl (\<lambda>ls w. AList.update w n ls) ls ws) w
     = (if w \<in> set ws then Some n else map_of ls w)"
  by (induction ws arbitrary: ls) (auto simp: update_conv')

lemma distinct_foldl_update:
  "distinct (map fst ls) \<Longrightarrow> distinct (map fst (foldl (\<lambda>ls w. AList.update w n ls) ls ws))"
  by (induction ws arbitrary: ls) (auto simp: distinct_update)

lemma max_default_ge: "n \<in> set ns \<Longrightarrow> n \<le> max_default ns"
  by (induction ns) (auto simp: max_default_def)

lemma max_default_in: "max_default ns = 0 \<or> max_default ns \<in> set ns"
proof (induction ns)
  case (Cons n ns)
  then show ?case by (auto simp: max_default_def max_def)
qed (simp add: max_default_def)

lemma max_default_Nil [simp]: "max_default [] = 0"
  by (simp add: max_default_def)

lemma level_raise:
  "level (raise_levels ws c ls) w =
     (if w \<in> set ws then max_default (map (level ls) ws) + (if c then 1 else 0) else level ls w)"
  by (simp add: level_def raise_levels_def map_of_foldl_update Let_def)

lemma distinct_raise:
  "distinct (map fst ls) \<Longrightarrow> distinct (map fst (raise_levels ws c ls))"
  by (simp add: raise_levels_def distinct_foldl_update Let_def)

lemma level_Nil [simp]: "level [] w = 0"
  by (simp add: level_def)

lemma max_levels:
  assumes "distinct (map fst ls)"
  shows "level ls w \<le> max_default (map snd ls)"
    and "\<exists>w. max_default (map snd ls) = level ls w"
proof -
  show "level ls w \<le> max_default (map snd ls)"
    by (auto simp: level_def split: option.split dest!: map_of_SomeD intro!: max_default_ge) force
  show "\<exists>w. max_default (map snd ls) = level ls w"
  proof (cases "max_default (map snd ls) \<in> set (map snd ls)")
    case True
    then obtain w where "(w, max_default (map snd ls)) \<in> set ls" by auto
    with assms have "map_of ls w = Some (max_default (map snd ls))" by (simp add: map_of_eq_Some_iff)
    then show ?thesis by (intro exI[of _ w]) (simp add: level_def)
  next
    case False
    then have z: "max_default (map snd ls) = 0" using max_default_in by metis
    show ?thesis
    proof (cases ls)
      case (Cons p ls')
      with assms have "map_of ls (fst p) = Some (snd p)" by simp
      moreover have "snd p \<le> 0" using Cons z max_default_ge[of "snd p" "map snd ls"] by simp
      ultimately show ?thesis using z by (intro exI[of _ "fst p"]) (simp add: level_def)
    qed simp
  qed
qed

section \<open>Dependency chains\<close>

text \<open>
  A chain lists positions of operations from its last operation back to its first; neighbours
  share a wire. Its weight is the number of its counted operations.
\<close>

fun chain :: "qwire list list \<Rightarrow> nat list \<Rightarrow> bool" where
  "chain ws [] = True"
| "chain ws [i] = (i < length ws)"
| "chain ws (i # j # ix) =
     (i < length ws \<and> j < i \<and> set (ws ! i) \<inter> set (ws ! j) \<noteq> {} \<and> chain ws (j # ix))"

definition chain_weight :: "bool list \<Rightarrow> nat list \<Rightarrow> nat" where
  "chain_weight cs ix = length (filter ((!) cs) ix)"

fun chain_ends :: "qwire list list \<Rightarrow> nat list \<Rightarrow> qwire \<Rightarrow> bool" where
  "chain_ends ws [] w = True"
| "chain_ends ws (i # ix) w = (w \<in> set (ws ! i))"

lemma chain_bound: "chain ws ix \<Longrightarrow> i \<in> set ix \<Longrightarrow> i < length ws"
  by (induction ws ix rule: chain.induct) auto

lemma chain_below: "chain ws (i # ix) \<Longrightarrow> j \<in> set ix \<Longrightarrow> j < i"
proof (induction ws "i # ix" arbitrary: i ix rule: chain.induct)
  case (3 ws i k is')
  then show ?case by (cases "j = k") (force)+
qed auto

lemma chain_append: "chain ws ix \<Longrightarrow> chain (ws @ [x]) ix"
  by (induction ws ix rule: chain.induct) (auto simp: nth_append)

lemma chain_shorten:
  "chain (ws @ [x]) ix \<Longrightarrow> \<forall>i\<in>set ix. i < length ws \<Longrightarrow> chain ws ix"
  by (induction ws ix rule: chain.induct) (auto simp: nth_append)

lemma chain_weight_append:
  "\<forall>i\<in>set ix. i < length cs \<Longrightarrow> chain_weight (cs @ [c]) ix = chain_weight cs ix"
  unfolding chain_weight_def by (intro arg_cong[of _ _ length] filter_cong) (auto simp: nth_append)

lemma chain_weight_last:
  "n = length cs \<Longrightarrow>
     chain_weight (cs @ [c]) (n # ix) = chain_weight (cs @ [c]) ix + (if c then 1 else 0)"
  by (cases c) (simp_all add: chain_weight_def)

definition run_levels :: "(qwire list \<times> bool) list \<Rightarrow> levels" where
  "run_levels ops = foldl (\<lambda>ls (ws, c). raise_levels ws c ls) [] ops"

lemma run_levels_snoc: "run_levels (ops @ [(ws, c)]) = raise_levels ws c (run_levels ops)"
  by (simp add: run_levels_def)

lemma distinct_run_levels: "distinct (map fst (run_levels ops))"
proof (induction ops rule: rev_induct)
  case (snoc p ops)
  then show ?case by (cases p) (simp add: run_levels_snoc distinct_raise)
qed (simp add: run_levels_def)

text \<open>Every level is the weight of a chain that ends on the wire.\<close>

lemma level_attained:
  "\<exists>ix. chain (map fst ops) ix \<and> chain_ends (map fst ops) ix w
     \<and> chain_weight (map snd ops) ix = level (run_levels ops) w"
proof (induction ops arbitrary: w rule: rev_induct)
  case Nil
  show ?case by (rule exI[of _ "[]"]) (simp add: run_levels_def chain_weight_def)
next
  case (snoc p ops)
  obtain ws c where p: "p = (ws, c)" by (cases p)
  let ?n = "length ops" and ?W = "map fst ops" and ?S = "map snd ops"
  have keep: "chain_ends (?W @ [ws]) ix v = chain_ends ?W ix v" if "chain ?W ix" for ix v
    using that by (cases ix) (auto simp: nth_append dest: chain_bound[of _ _ "hd ix"])
  have wt: "chain_weight (?S @ [c]) ix = chain_weight ?S ix" if "chain ?W ix" for ix
    using chain_bound[OF that] by (intro chain_weight_append) simp
  show ?case
  proof (cases "w \<in> set ws")
    case False
    obtain ix where "chain ?W ix" "chain_ends ?W ix w" "chain_weight ?S ix = level (run_levels ops) w"
      using snoc by blast
    with False show ?thesis
      by (intro exI[of _ ix]) (simp add: p run_levels_snoc level_raise chain_append keep wt)
  next
    case True
    let ?m = "max_default (map (level (run_levels ops)) ws)"
    have "?m \<in> set (map (level (run_levels ops)) ws)"
    proof (cases "?m = 0")
      case z: True
      have "level (run_levels ops) w \<le> ?m" using True by (intro max_default_ge) simp
      with z True show ?thesis by force
    next
      case False
      then show ?thesis by (metis max_default_in)
    qed
    then obtain v where v: "v \<in> set ws" "level (run_levels ops) v = ?m" by auto
    obtain ix where ix: "chain ?W ix" "chain_ends ?W ix v" "chain_weight ?S ix = ?m"
      using snoc[of v] v by auto
    have "chain (?W @ [ws]) (?n # ix)"
    proof (cases ix)
      case (Cons j js)
      with ix v(1) chain_bound[OF ix(1), of j] show ?thesis
        using chain_append[OF ix(1), of ws] by (auto simp: nth_append)
    qed simp
    moreover have "chain_weight (?S @ [c]) (?n # ix) = ?m + (if c then 1 else 0)"
      using wt[OF ix(1)] ix(3) by (simp add: chain_weight_last)
    moreover have "chain_ends (?W @ [ws]) (?n # ix) w" using True by (simp add: nth_append)
    ultimately show ?thesis
      using True by (intro exI[of _ "?n # ix"]) (simp add: p run_levels_snoc level_raise)
  qed
qed

text \<open>No chain that ends on a wire is heavier than the wire's level.\<close>

lemma level_bound:
  "chain (map fst ops) (i # ix) \<Longrightarrow> w \<in> set (map fst ops ! i) \<Longrightarrow>
     chain_weight (map snd ops) (i # ix) \<le> level (run_levels ops) w"
proof (induction ops arbitrary: i ix w rule: rev_induct)
  case (snoc p ops)
  obtain ws c where p: "p = (ws, c)" by (cases p)
  let ?n = "length ops" and ?W = "map fst ops" and ?S = "map snd ops" and ?L = "run_levels ops"
  have ch: "chain (?W @ [ws]) (i # ix)" and wi: "w \<in> set ((?W @ [ws]) ! i)"
    using snoc.prems by (simp_all add: p)
  have below: "\<forall>j\<in>set ix. j < i" using chain_below[OF ch] by blast
  have le: "level ?L v \<le> max_default (map (level ?L) ws)" if "v \<in> set ws" for v
    using that by (intro max_default_ge) simp
  show ?case
  proof (cases "i < ?n")
    case True
    with below have short: "chain ?W (i # ix)" by (intro chain_shorten[OF ch]) auto
    then have wt: "chain_weight (?S @ [c]) (i # ix) = chain_weight ?S (i # ix)"
      using chain_bound[OF short] by (intro chain_weight_append) simp
    have "chain_weight ?S (i # ix) \<le> level ?L w"
      using snoc.IH[OF short] wi True by (simp add: nth_append)
    moreover have "level ?L w \<le> level (raise_levels ws c ?L) w" using le by (simp add: level_raise trans_le_add1)
    ultimately show ?thesis using wt by (simp add: p run_levels_snoc)
  next
    case False
    with chain_bound[OF ch, of i] have i: "i = ?n" by simp
    with wi have w: "w \<in> set ws" by (simp add: nth_append)
    have "chain_weight (?S @ [c]) ix \<le> max_default (map (level ?L) ws)"
    proof (cases ix)
      case (Cons j js)
      with ch i have tl: "chain (?W @ [ws]) (j # js)" "j < ?n"
        and "set ws \<inter> set ((?W @ [ws]) ! j) \<noteq> {}" by (auto simp: nth_append)
      then obtain v where v: "v \<in> set ws" "v \<in> set (?W ! j)" by (auto simp: nth_append)
      have all: "\<forall>k\<in>set (j # js). k < ?n" using below i Cons by auto
      then have short: "chain ?W (j # js)" using chain_shorten[OF tl(1)] by simp
      have "chain_weight (?S @ [c]) (j # js) = chain_weight ?S (j # js)"
        using all by (intro chain_weight_append) simp
      also have "\<dots> \<le> level ?L v" by (rule snoc.IH[OF short v(2)])
      also have "\<dots> \<le> max_default (map (level ?L) ws)" by (rule le[OF v(1)])
      finally show ?thesis by (simp add: Cons)
    qed (simp add: chain_weight_def)
    with w show ?thesis
      by (simp add: p run_levels_snoc level_raise i chain_weight_last)
  qed
qed (use chain_bound in fastforce)

definition d2_items ::
    "string list \<Rightarrow> (string \<times> int list \<times> int list) list \<Rightarrow> (qwire list \<times> bool) list" where
  "d2_items native ops = map (\<lambda>(name, qs, cs). (int_wires qs cs, d2_counted native name qs)) ops"

lemma d2_loop_eq:
  "d2_loop native ops (ls, n) = Inr (ls', n') \<longleftrightarrow>
     (\<forall>(name, _)\<in>set ops. name \<notin> set CONTROL_FLOW)
     \<and> ls' = foldl (\<lambda>ls (ws, c). raise_levels ws c ls) ls (d2_items native ops)
     \<and> n' = n + length (filter (\<lambda>(name, qs, cs). d2_counted native name qs) ops)"
proof (induction native ops "(ls, n)" arbitrary: ls n rule: d2_loop.induct)
  case (2 native name qs cs ops ls n)
  then show ?case by (auto simp: d2_items_def Let_def)
qed (auto simp: d2_items_def)

lemma d2_n2_eq:
  "d2_n2 native ops = Inr (d, n) \<longleftrightarrow>
     (\<forall>(name, _)\<in>set ops. name \<notin> set CONTROL_FLOW)
     \<and> d = max_default (map snd (run_levels (d2_items native ops)))
     \<and> n = length (filter (\<lambda>(name, qs, cs). d2_counted native name qs) ops)"
  by (auto simp: d2_n2_def bindE_Inr_iff d2_loop_eq run_levels_def)

text \<open>
  \<open>op_wires\<close>: the wires of each operation; \<open>op_counted\<close>: which operations count.
\<close>

definition op_wires :: "(string \<times> int list \<times> int list) list \<Rightarrow> qwire list list" where
  "op_wires ops = map (\<lambda>(name, qs, cs). int_wires qs cs) ops"

definition op_counted :: "string list \<Rightarrow> (string \<times> int list \<times> int list) list \<Rightarrow> bool list" where
  "op_counted native ops = map (\<lambda>(name, qs, cs). d2_counted native name qs) ops"

lemma d2_items_sel:
  "map fst (d2_items native ops) = op_wires ops"
  "map snd (d2_items native ops) = op_counted native ops"
  by (auto simp: d2_items_def op_wires_def op_counted_def)

lemma counted_has_wires:
  "i < length ops \<Longrightarrow> op_counted native ops ! i \<Longrightarrow> op_wires ops ! i \<noteq> []"
  by (cases "ops ! i") (auto simp: op_counted_def op_wires_def d2_counted_def int_wires_def)

lemma chain_of_levels:
  assumes "chain (op_wires ops) ix"
  shows "chain_weight (op_counted native ops) ix
    \<le> max_default (map snd (run_levels (d2_items native ops)))"
proof (cases ix)
  case (Cons i js)
  have ilen: "i < length ops" using chain_bound[OF assms, of i] by (simp add: Cons op_wires_def)
  show ?thesis
  proof (cases "op_wires ops ! i")
    case Nil
    with assms Cons have "js = []" by (cases js) auto
    with Nil ilen counted_has_wires[of i ops native] show ?thesis
      by (auto simp: Cons chain_weight_def)
  next
    case w: (Cons w ws)
    have "chain_weight (map snd (d2_items native ops)) (i # js)
        \<le> level (run_levels (d2_items native ops)) w"
      using assms Cons w by (intro level_bound) (simp_all add: d2_items_sel)
    also have "\<dots> \<le> max_default (map snd (run_levels (d2_items native ops)))"
      by (rule max_levels(1)[OF distinct_run_levels])
    finally show ?thesis by (simp add: Cons d2_items_sel)
  qed
qed (simp add: chain_weight_def)

section \<open>The checker's errors\<close>

text \<open>Errors are only ever appended, and a dynamic circuit stays dynamic.\<close>

definition grows :: "checker \<Rightarrow> checker \<Rightarrow> bool" where
  "grows st st' \<longleftrightarrow> (\<exists>es. ck_errors st' = ck_errors st @ es) \<and> (ck_dynamic st \<longrightarrow> ck_dynamic st')"

lemma grows_refl [intro]: "grows st st"
  by (simp add: grows_def)

lemma grows_trans: "grows a b \<Longrightarrow> grows b c \<Longrightarrow> grows a c"
  unfolding grows_def by (metis append.assoc)

lemma grows_add_error [intro]: "grows st (add_error e st)"
  by (simp add: grows_def add_error_def)

lemma grows_count_wires [intro]: "grows st (count_wires cf name qs cs st)"
  by (simp add: grows_def count_wires_def Let_def)

lemma grows_dynamic [intro]: "grows st (st\<lparr>ck_dynamic := True\<rparr>)"
  by (simp add: grows_def)

lemma grows_check_instruction:
  "check_instruction cf name qs cs params st = Inr st' \<Longrightarrow> grows st st'"
  by (auto simp: check_instruction_def grows_def bindE_Inr_iff Let_def split: if_splits)

lemma grows_consume:
  "consume cf qm cm op st = Inr st' \<Longrightarrow> grows st st'"
  "consume_block cf qm cm ops st = Inr st' \<Longrightarrow> grows st st'"
  "consume_blocks cf qm cm bs st = Inr st' \<Longrightarrow> grows st st'"
proof (induction cf qm cm op st and cf qm cm ops st and cf qm cm bs st
    arbitrary: st' and st' and st'
    rule: consume_consume_block_consume_blocks.induct)
  case (2 cf qmap cmap name qs0 cs0 params payload st)
  show ?case
  proof (cases "check_wires cf qs0 cs0")
    case (Some e)
    with 2(2) show ?thesis by auto
  next
    case None
    with 2(2) obtain qs cs st1 where m: "map_wires qmap (the_ints qs0) = Inr qs"
      "map_wires cmap (the_ints cs0) = Inr cs"
      and i: "check_instruction cf name qs cs params st = Inr st1"
      and r: "(if name \<in> set CONTROL_FLOW then
              (let st = st1\<lparr>ck_dynamic := True\<rparr> in
               case payload of
                 None \<Rightarrow> Inr (add_error ''Missing control-flow payload'' st)
               | Some (Payload kind blocks) \<Rightarrow>
                   if kind \<noteq> Some ''control_flow/1''
                   then Inr (add_error ''Missing control-flow payload'' st)
                   else consume_blocks cf qs cs blocks st)
            else Inr (count_wires cf name qs cs st1)) = Inr st'"
      by (auto simp: bindE_Inr_iff)
    have "grows st1 st'"
    proof (cases "name \<in> set CONTROL_FLOW")
      case False
      with r show ?thesis by auto
    next
      case True
      have d: "grows st1 (st1\<lparr>ck_dynamic := True\<rparr>)" by auto
      from r True consider e where "st' = add_error e (st1\<lparr>ck_dynamic := True\<rparr>)"
        | blocks where "payload = Some (Payload (Some ''control_flow/1'') blocks)"
          "consume_blocks cf qs cs blocks (st1\<lparr>ck_dynamic := True\<rparr>) = Inr st'"
        by (auto simp: Let_def split: option.splits payload.splits if_splits)
      then show ?thesis
      proof cases
        case 1
        with d show ?thesis using grows_trans by blast
      next
        case c: 2
        from 2(1)[OF None True refl c(1) refl _ c(2)] have "grows (st1\<lparr>ck_dynamic := True\<rparr>) st'"
          by simp
        with d show ?thesis using grows_trans by blast
      qed
    qed
    with grows_check_instruction[OF i] show ?thesis by (rule grows_trans)
  qed
next
  case (4 cf qmap cmap op ops st)
  then show ?case unfolding consume_block.simps bindE_Inr_iff by (meson grows_trans)
next
  case (6 cf qmap cmap b bs st)
  then show ?case unfolding consume_blocks.simps bindE_Inr_iff by (meson grows_trans)
qed (auto simp: add_error_def grows_def)


text \<open>
  The rules an operation must obey, stated without the checker: \<open>param_ok\<close> for a parameter,
  \<open>instr_ok\<close> for an instruction of the target, \<open>wires_ok\<close> for its wire indices.
\<close>

definition param_ok :: "ispec \<Rightarrow> nat \<Rightarrow> param \<Rightarrow> bool" where
  "param_ok spec i p \<longleftrightarrow> (case p of
       PDict kind \<Rightarrow> kind = Some ''expression/1'' \<or> kind = Some ''symbolic/1''
     | PNum j \<Rightarrow> \<exists>v. j = JFinite v
         \<and> (sp_bounds spec = [] \<or> i < length (sp_bounds spec) \<and>
              (sp_bounds spec ! i = None
               \<or> (\<exists>lo hi. sp_bounds spec ! i = Some [JFinite lo, JFinite hi] \<and> lo \<le> v \<and> v \<le> hi)))
         \<and> (\<forall>f. sp_fixed spec i = Some f \<longrightarrow> f = JFinite v))"

definition instr_ok ::
    "checker_config \<Rightarrow> string \<Rightarrow> int list \<Rightarrow> int list \<Rightarrow> param list \<Rightarrow> bool" where
  "instr_ok cf name qs cs params \<longleftrightarrow> (\<exists>spec. cf_support cf name = Some spec
     \<and> (sp_arity spec = None \<or> sp_arity spec = Some (length qs))
     \<and> (name \<in> set (cf_loose cf) \<longrightarrow>
          (\<forall>a k n. map_of LOOSE_IMPLICIT name = Some (a, Some k, n) \<longrightarrow> length cs = k))
     \<and> (\<forall>allowed. sp_qargs spec = Some allowed \<longrightarrow> qs \<in> set allowed)
     \<and> (name \<in> set CONTROL_FLOW \<or> length params = sp_parameters spec)
     \<and> (\<forall>i < length params. param_ok spec i (params ! i)))"

definition wires_ok :: "checker_config \<Rightarrow> jwire list \<Rightarrow> jwire list \<Rightarrow> bool" where
  "wires_ok cf qs cs \<longleftrightarrow> (\<forall>q\<in>set qs. valid_index (h_qubits (cf_header cf)) q)
     \<and> (\<forall>c\<in>set cs. valid_index (h_clbits (cf_header cf)) c) \<and> distinct qs \<and> distinct cs"

lemma check_wires_None: "check_wires cf qs cs = None \<longleftrightarrow> wires_ok cf qs cs"
  by (auto simp: check_wires_def wires_ok_def list_ex_iff)

lemma numeric_Inr: "numeric j = Inr v \<longleftrightarrow> j = JFinite v"
  by (cases j) auto

lemma numeric_pair:
  "mapE numeric (take 3 b) = Inr [lo, hi] \<longleftrightarrow> b = [JFinite lo, JFinite hi]"
proof
  assume m: "mapE numeric (take 3 b) = Inr [lo, hi]"
  then have "length (take 3 b) = 2" using mapE_length by fastforce
  then have "length b = 2" by (simp add: min_def split: if_splits)
  with m show "b = [JFinite lo, JFinite hi]" by (simp add: mapE_Inr_iff numeric_Inr list_all2_Cons2)
qed simp

lemma bounds_check_Nil:
  "bounds_check name spec i v = Inr [] \<longleftrightarrow>
     sp_bounds spec = [] \<or> i < length (sp_bounds spec) \<and>
       (sp_bounds spec ! i = None
        \<or> (\<exists>lo hi. sp_bounds spec ! i = Some [JFinite lo, JFinite hi] \<and> lo \<le> v \<and> v \<le> hi))"
proof -
  have h: "(case vs of [lo, hi] \<Rightarrow> Inr (if lo \<le> v \<and> v \<le> hi then []
          else [''Parameter outside bounds: '' @ name]) | _ \<Rightarrow> Inl ValueError) = Inr []
      \<longleftrightarrow> (\<exists>lo hi. vs = [lo, hi] \<and> lo \<le> v \<and> v \<le> hi)" for vs :: "real list"
    by (auto split: list.splits if_splits)
  have "bindE (mapE numeric (take 3 b)) (\<lambda>vs. case vs of [lo, hi] \<Rightarrow>
        Inr (if lo \<le> v \<and> v \<le> hi then [] else [''Parameter outside bounds: '' @ name])
      | _ \<Rightarrow> Inl ValueError) = Inr []
      \<longleftrightarrow> (\<exists>lo hi. b = [JFinite lo, JFinite hi] \<and> lo \<le> v \<and> v \<le> hi)" for b
    unfolding bindE_Inr_iff h numeric_pair [symmetric] by auto
  then show ?thesis
    by (cases "sp_bounds spec ! i") (auto simp: bounds_check_def)
qed

lemma fixed_check_Nil:
  "fixed_check name spec i v = Inr [] \<longleftrightarrow> (\<forall>f. sp_fixed spec i = Some f \<longrightarrow> f = JFinite v)"
  by (auto simp: fixed_check_def bindE_Inr_iff numeric_Inr split: option.splits)

lemma try_param_clean:
  "try_param name spec i j = ([], Inr ()) \<longleftrightarrow>
     (\<exists>v. numeric j = Inr v \<and> bounds_check name spec i v = Inr []
          \<and> fixed_check name spec i v = Inr [])"
  by (auto simp: try_param_def split: sum.splits)

lemma param_errors_Nil: "param_errors name spec (i, p) = Inr [] \<longleftrightarrow> param_ok spec i p"
proof (cases p)
  case (PNum j)
  have "param_errors name spec (i, p) = Inr [] \<longleftrightarrow> try_param name spec i j = ([], Inr ())"
    by (auto simp: param_errors_def PNum split: prod.splits sum.splits)
  then show ?thesis
    by (simp add: try_param_clean bounds_check_Nil fixed_check_Nil numeric_Inr param_ok_def PNum)
qed (auto simp: param_errors_def param_ok_def)

lemma mapE_all_Nil:
  "(\<exists>ys. mapE f xs = Inr ys \<and> concat ys = []) \<longleftrightarrow> (\<forall>x\<in>set xs. f x = Inr [])"
  by (induction xs) (auto simp: bindE_Inr_iff)

lemma enumerate_all:
  "(\<forall>ip\<in>set (enumerate 0 xs). P ip) \<longleftrightarrow> (\<forall>i < length xs. P (i, xs ! i))"
  by (auto simp: in_set_enumerate_eq)

lemma if_Nil: "(if b then [m] else []) = [] \<longleftrightarrow> \<not> b"
  by simp

lemma loose_arity_iff:
  "\<not> (case map_of LOOSE_IMPLICIT name of Some (_, Some k, _) \<Rightarrow> n \<noteq> k | _ \<Rightarrow> False)
     \<longleftrightarrow> (\<forall>a k p. map_of LOOSE_IMPLICIT name = Some (a, Some k, p) \<longrightarrow> n = k)"
proof (cases "map_of LOOSE_IMPLICIT name")
  case (Some t)
  then show ?thesis by (cases t rule: prod_cases3) (auto split: option.split)
qed simp

lemma qargs_iff:
  "\<not> (case x of None \<Rightarrow> False | Some al \<Rightarrow> qs \<notin> set al) \<longleftrightarrow> (\<forall>al. x = Some al \<longrightarrow> qs \<in> set al)"
  by (cases x) simp_all

lemma instruction_errors_Nil_iff:
  "instruction_errors cf name qs cs params = Inr [] \<longleftrightarrow> instr_ok cf name qs cs params"
proof (cases "cf_support cf name")
  case (Some spec)
  have "instruction_errors cf name qs cs params = Inr [] \<longleftrightarrow>
      (\<exists>ps. mapE (param_errors name spec) (enumerate 0 params) = Inr ps \<and> concat ps = [])
     \<and> \<not> (sp_arity spec \<noteq> None \<and> sp_arity spec \<noteq> Some (length qs))
     \<and> \<not> (name \<in> set (cf_loose cf) \<and> \<not> (\<forall>a k p. map_of LOOSE_IMPLICIT name = Some (a, Some k, p)
          \<longrightarrow> length cs = k))
     \<and> (\<forall>al. sp_qargs spec = Some al \<longrightarrow> qs \<in> set al)
     \<and> \<not> (name \<notin> set CONTROL_FLOW \<and> length params \<noteq> sp_parameters spec)"
    unfolding instruction_errors_def Some option.case bindE_Inr_iff sum.inject append_is_Nil_conv
      if_Nil qargs_iff loose_arity_iff [symmetric] not_not by blast
  then show ?thesis
    unfolding mapE_all_Nil enumerate_all param_errors_Nil instr_ok_def Some option.inject
    by (simp add: conj_ac) (metis (no_types))
qed (simp add: instruction_errors_def instr_ok_def)

text \<open>An operation that obeys the rules on the wires \<open>qs\<close> and \<open>cs\<close> its block maps to.\<close>

definition op_clean ::
    "checker_config \<Rightarrow> int list \<Rightarrow> int list \<Rightarrow> string \<Rightarrow> jwire list \<Rightarrow> jwire list \<Rightarrow> param list
       \<Rightarrow> int list \<Rightarrow> int list \<Rightarrow> bool" where
  "op_clean cf qm cm name qs0 cs0 params qs cs \<longleftrightarrow>
     wires_ok cf qs0 cs0 \<and> map_wires qm (the_ints qs0) = Inr qs
     \<and> map_wires cm (the_ints cs0) = Inr cs
     \<and> (name \<in> set DIRECTIVES \<or> instr_ok cf name qs cs params)"

inductive legal :: "checker_config \<Rightarrow> int list \<Rightarrow> int list \<Rightarrow> op \<Rightarrow> bool" where
  legal_static:
    "op_clean cf qm cm name qs0 cs0 params qs cs \<Longrightarrow> name \<notin> set CONTROL_FLOW
     \<Longrightarrow> legal cf qm cm (Op name qs0 cs0 params payload)"
| legal_control_flow:
    "op_clean cf qm cm name qs0 cs0 params qs cs \<Longrightarrow> name \<in> set CONTROL_FLOW
     \<Longrightarrow> \<forall>block\<in>set blocks. \<forall>child\<in>set block. legal cf qs cs child
     \<Longrightarrow> legal cf qm cm (Op name qs0 cs0 params (Some (Payload (Some ''control_flow/1'') blocks)))"

inductive_cases legal_MalformedE: "legal cf qm cm Malformed"
inductive_cases legal_OpE: "legal cf qm cm (Op name qs0 cs0 params payload)"

lemma check_instruction_clean:
  assumes "check_instruction cf name qs cs params st = Inr st'"
  shows "ck_errors st' = ck_errors st \<longleftrightarrow>
    name \<in> set DIRECTIVES \<or> instr_ok cf name qs cs params"
    and "ck_dynamic st' = ck_dynamic st" and "ck_levels st' = ck_levels st"
    and "ck_n2 st' = ck_n2 st"
  using assms unfolding instruction_errors_Nil_iff [symmetric]
  by (auto simp: check_instruction_def bindE_Inr_iff Let_def split: if_splits)

lemma grows_clean: "grows st st' \<Longrightarrow> ck_errors st' = [] \<Longrightarrow> ck_errors st = []"
  by (auto simp: grows_def)

lemma grows_errors_trans:
  "grows a b \<Longrightarrow> grows b c \<Longrightarrow>
     ck_errors c = ck_errors a \<longleftrightarrow> ck_errors b = ck_errors a \<and> ck_errors c = ck_errors b"
  unfolding grows_def by auto

text \<open>No error is appended exactly on legal operations.\<close>

lemma consume_legal:
  "consume cf qm cm op st = Inr st' \<Longrightarrow>
     ck_errors st' = ck_errors st \<longleftrightarrow> legal cf qm cm op"
  "consume_block cf qm cm ops st = Inr st' \<Longrightarrow>
     ck_errors st' = ck_errors st \<longleftrightarrow> (\<forall>op\<in>set ops. legal cf qm cm op)"
  "consume_blocks cf qm cm bs st = Inr st' \<Longrightarrow>
     ck_errors st' = ck_errors st \<longleftrightarrow> (\<forall>b\<in>set bs. \<forall>op\<in>set b. legal cf qm cm op)"
proof (induction cf qm cm op st and cf qm cm ops st and cf qm cm bs st
    arbitrary: st' and st' and st'
    rule: consume_consume_block_consume_blocks.induct)
  case (1 cf qmap cmap st)
  then show ?case by (auto simp: add_error_def elim: legal_MalformedE)
next
  case (2 cf qmap cmap name qs0 cs0 params payload st)
  show ?case
  proof (cases "check_wires cf qs0 cs0")
    case (Some e)
    with 2(2) have "ck_errors st' \<noteq> ck_errors st" by (auto simp: add_error_def)
    moreover have "\<not> legal cf qmap cmap (Op name qs0 cs0 params payload)"
      using Some by (auto elim!: legal_OpE simp: op_clean_def check_wires_None [symmetric])
    ultimately show ?thesis by blast
  next
    case None
    with 2(2) obtain qs cs st1 where m: "map_wires qmap (the_ints qs0) = Inr qs"
      "map_wires cmap (the_ints cs0) = Inr cs"
      and i: "check_instruction cf name qs cs params st = Inr st1"
      and r: "(if name \<in> set CONTROL_FLOW then
              (let st = st1\<lparr>ck_dynamic := True\<rparr> in
               case payload of
                 None \<Rightarrow> Inr (add_error ''Missing control-flow payload'' st)
               | Some (Payload kind blocks) \<Rightarrow>
                   if kind \<noteq> Some ''control_flow/1''
                   then Inr (add_error ''Missing control-flow payload'' st)
                   else consume_blocks cf qs cs blocks st)
            else Inr (count_wires cf name qs cs st1)) = Inr st'"
      by (auto simp: bindE_Inr_iff)
    have clean: "op_clean cf qmap cmap name qs0 cs0 params qs' cs'
        \<longleftrightarrow> qs' = qs \<and> cs' = cs \<and> ck_errors st1 = ck_errors st" for qs' cs'
      using None m check_instruction_clean(1)[OF i] by (auto simp: op_clean_def check_wires_None)
    have g: "grows st st1" by (rule grows_check_instruction[OF i])
    show ?thesis
    proof (cases "name \<in> set CONTROL_FLOW")
      case False
      with r have "ck_errors st' = ck_errors st1" by (auto simp: count_wires_def Let_def)
      with False clean show ?thesis by (auto elim!: legal_OpE intro: legal_static)
    next
      case True
      from r True consider e where "st' = add_error e (st1\<lparr>ck_dynamic := True\<rparr>)"
            "\<nexists>blocks. payload = Some (Payload (Some ''control_flow/1'') blocks)"
        | blocks where "payload = Some (Payload (Some ''control_flow/1'') blocks)"
          "consume_blocks cf qs cs blocks (st1\<lparr>ck_dynamic := True\<rparr>) = Inr st'"
        by (auto simp: Let_def split: option.splits payload.splits if_splits)
      then show ?thesis
      proof cases
        case 1
        then have "ck_errors st' \<noteq> ck_errors st" using g by (auto simp: add_error_def grows_def)
        moreover have "\<not> legal cf qmap cmap (Op name qs0 cs0 params payload)"
          using 1(2) True by (auto elim!: legal_OpE)
        ultimately show ?thesis by blast
      next
        case c: 2
        have g': "grows st1 st'"
          using grows_consume(3)[OF c(2)] grows_dynamic grows_trans by blast
        have "ck_errors st' = ck_errors st1
            \<longleftrightarrow> (\<forall>b\<in>set blocks. \<forall>op\<in>set b. legal cf qs cs op)"
          using 2(1)[OF None True refl c(1) refl _ c(2)] by simp
        with grows_errors_trans[OF g g'] clean True c(1) show ?thesis
          by (auto elim!: legal_OpE intro: legal_control_flow)
      qed
    qed
  qed
next
  case (4 cf qmap cmap op ops st)
  then obtain s where s: "consume cf qmap cmap op st = Inr s"
    "consume_block cf qmap cmap ops s = Inr st'" by (auto simp: bindE_Inr_iff)
  from grows_errors_trans[OF grows_consume(1)[OF s(1)] grows_consume(2)[OF s(2)]] 4(1)[OF s(1)]
    4(2)[OF s(2)]
  show ?case by auto
next
  case (6 cf qmap cmap b bs st)
  then obtain s where s: "consume_block cf qmap cmap b st = Inr s"
    "consume_blocks cf qmap cmap bs s = Inr st'" by (auto simp: bindE_Inr_iff)
  from grows_errors_trans[OF grows_consume(2)[OF s(1)] grows_consume(3)[OF s(2)]] 6(1)[OF s(1)]
    6(2)[OF s(2)]
  show ?case by auto
qed auto

section \<open>Layouts and metrics of a clean run\<close>

text \<open>The conditions \<open>layout_errors\<close> checks, as one predicate.\<close>

definition layout_ok ::
    "jwire list \<Rightarrow> jwire list \<Rightarrow> jwire list \<Rightarrow> nat \<Rightarrow> nat \<Rightarrow> jwire list option \<Rightarrow> bool" where
  "layout_ok initial final routing n_in n_out requested \<longleftrightarrow>
     is_permutation initial n_out \<and> is_permutation final n_out \<and> is_permutation routing n_out
     \<and> (\<forall>i\<in>set (int_range n_out). nth_int (the_ints final) i
          = nth_int (the_ints routing) (nth_int (the_ints initial) i))
     \<and> (\<forall>r. requested = Some r \<longrightarrow> take n_in initial = r)"

lemma permutation_errors_Nil:
  "permutation_errors initial final routing n_in n_out requested = []
     \<longleftrightarrow> layout_ok initial final routing n_in n_out requested"
proof -
  have req: "\<not> (case requested of None \<Rightarrow> False | Some r \<Rightarrow> take n_in initial \<noteq> r)
      \<longleftrightarrow> (\<forall>r. requested = Some r \<longrightarrow> take n_in initial = r)"
    by (cases requested) auto
  show ?thesis
    unfolding permutation_errors_def layout_ok_def req [symmetric] Let_def
    by (simp add: list_ex_iff)
qed

lemma is_permutation_bij:
  assumes "is_permutation ws n"
  shows "length ws = n" and "set (the_ints ws) = {0..<int n}" and "distinct (the_ints ws)"
    and "ws = map JI (the_ints ws)"
proof -
  obtain xs where xs: "ints_of ws = Some xs" and s: "sort xs = int_range n"
    using assms by (auto simp: is_permutation_def split: option.splits)
  have w: "ints_of vs = Some ys \<Longrightarrow> vs = map JI ys" for vs ys
    by (induction vs arbitrary: ys rule: ints_of.induct) auto
  have r: "set (int_range n) = {0..<int n}" "distinct (int_range n)" "length (int_range n) = n"
    by (auto simp: int_range_def image_int_atLeastLessThan distinct_map)
  have t: "the_ints ws = xs" by (simp add: the_ints_def xs)
  show "length ws = n" using w[OF xs] s r by (metis length_map length_sort)
  show "set (the_ints ws) = {0..<int n}" using s r t by (metis set_sort)
  show "distinct (the_ints ws)" using s r t by (metis distinct_sort)
  show "ws = map JI (the_ints ws)" using w[OF xs] t by simp
qed

definition decode :: "op \<Rightarrow> string \<times> int list \<times> int list" where
  "decode op = (case op of Malformed \<Rightarrow> ([], [], [])
     | Op name qs cs _ _ \<Rightarrow> (name, the_ints qs, the_ints cs))"

lemma legal_shape:
  "legal cf qm cm op \<Longrightarrow> \<exists>name qs0 cs0 params payload.
     op = Op name qs0 cs0 params payload \<and> check_wires cf qs0 cs0 = None"
  by (erule legal.cases) (simp_all add: op_clean_def check_wires_None)

lemma consume_block_levels:
  assumes "consume_block cf [] [] ops st = Inr st'" and "ck_errors st' = ck_errors st"
    and "\<not> ck_dynamic st'"
    and "set (cf_native cf) \<inter> {''barrier'', ''delay'', ''measure'', ''reset''} = {}"
  shows "(\<forall>(name, _)\<in>set (map decode ops). name \<notin> set CONTROL_FLOW)
    \<and> ck_levels st' = foldl (\<lambda>ls (ws, c). raise_levels ws c ls) (ck_levels st)
        (d2_items (cf_native cf) (map decode ops))
    \<and> ck_n2 st' = ck_n2 st
        + length (filter (\<lambda>(name, qs, cs). d2_counted (cf_native cf) name qs) (map decode ops))"
  using assms
proof (induction ops arbitrary: st)
  case (Cons op ops)
  then obtain s where s: "consume cf [] [] op st = Inr s" "consume_block cf [] [] ops s = Inr st'"
    by (auto simp: bindE_Inr_iff)
  note g = grows_consume(1)[OF s(1)] grows_consume(2)[OF s(2)]
  have e: "ck_errors s = ck_errors st" "ck_errors st' = ck_errors s"
    using grows_errors_trans[OF g, THEN iffD1, OF Cons.prems(2)] by blast+
  have nd: "\<not> ck_dynamic s" using g(2) Cons.prems(3) by (auto simp: grows_def)
  have "legal cf [] [] op" using consume_legal(1)[OF s(1)] e(1) by simp
  then obtain name qs0 cs0 params payload where op: "op = Op name qs0 cs0 params payload"
    and w: "check_wires cf qs0 cs0 = None"
    using legal_shape by blast
  obtain st1 where i: "check_instruction cf name (the_ints qs0) (the_ints cs0) params st = Inr st1"
    and r: "(if name \<in> set CONTROL_FLOW then
              (let st = st1\<lparr>ck_dynamic := True\<rparr> in
               case payload of
                 None \<Rightarrow> Inr (add_error ''Missing control-flow payload'' st)
               | Some (Payload kind blocks) \<Rightarrow>
                   if kind \<noteq> Some ''control_flow/1''
                   then Inr (add_error ''Missing control-flow payload'' st)
                   else consume_blocks cf (the_ints qs0) (the_ints cs0) blocks st)
            else Inr (count_wires cf name (the_ints qs0) (the_ints cs0) st1)) = Inr s"
    using s(1) w unfolding op by (auto simp: bindE_Inr_iff map_wires_def)
  have nc: "name \<notin> set CONTROL_FLOW"
  proof
    assume "name \<in> set CONTROL_FLOW"
    with r e(1) nd show False
      using grows_consume(3) by (auto simp: Let_def grows_def add_error_def
          split: option.splits payload.splits if_splits)
  qed
  with r have s': "s = count_wires cf name (the_ints qs0) (the_ints cs0) st1" by simp
  have counted: "name \<in> set (cf_native cf) \<and> length (the_ints qs0) = 2
      \<longleftrightarrow> d2_counted (cf_native cf) name (the_ints qs0)"
    using Cons.prems(4) by (auto simp: d2_counted_def)
  have "ck_levels s = raise_levels (int_wires (the_ints qs0) (the_ints cs0))
        (d2_counted (cf_native cf) name (the_ints qs0)) (ck_levels st)"
    and "ck_n2 s = ck_n2 st + (if d2_counted (cf_native cf) name (the_ints qs0) then 1 else 0)"
    using check_instruction_clean(3,4)[OF i] unfolding s' count_wires_def counted Let_def by simp_all
  with Cons.IH[OF s(2) e(2) Cons.prems(3,4)] nc show ?case
    by (auto simp: op decode_def d2_items_def)
qed (simp add: d2_items_def)

section \<open>Properties\<close>

text \<open>
  C40. D2 is the weight of the heaviest dependency chain of the circuit and N2 the number of its
  counted operations: some chain reaches D2, and no chain exceeds it.
\<close>

theorem d2_is_heaviest_chain:
  assumes "d2_n2 native ops = Inr (d, n)"
  shows "(\<exists>ix. chain (op_wires ops) ix \<and> chain_weight (op_counted native ops) ix = d)
    \<and> (\<forall>ix. chain (op_wires ops) ix \<longrightarrow> chain_weight (op_counted native ops) ix \<le> d)
    \<and> n = length (filter (\<lambda>b. b) (op_counted native ops))"
proof -
  let ?L = "run_levels (d2_items native ops)"
  have d: "d = max_default (map snd ?L)"
    and n: "n = length (filter (\<lambda>(name, qs, cs). d2_counted native name qs) ops)"
    using assms by (simp_all add: d2_n2_eq)
  obtain w where w: "d = level ?L w" using max_levels(2)[OF distinct_run_levels] d by blast
  obtain ix where "chain (map fst (d2_items native ops)) ix"
    "chain_weight (map snd (d2_items native ops)) ix = level ?L w"
    using level_attained by blast
  then have "\<exists>ix. chain (op_wires ops) ix \<and> chain_weight (op_counted native ops) ix = d"
    unfolding d2_items_sel w by blast
  moreover have "n = length (filter (\<lambda>b. b) (op_counted native ops))"
    unfolding n op_counted_def by (induction ops) auto
  ultimately show ?thesis using chain_of_levels unfolding d by blast
qed

text \<open>
  C31. The structural check verifies a circuit exactly when it has the target's width, every
  operation (those in the blocks of control flow included, on the wires their block maps to)
  is legal for the target, and the layout is consistent.
\<close>

theorem structural_verified_iff:
  assumes "structural_result h ops t lay n_in requested form = Inr (res, width)"
  shows "cr_verified res \<longleftrightarrow> h_qubits h = t_qubits t
    \<and> (\<forall>op\<in>set ops. legal (checker_config h t form) [] [] op)
    \<and> layout_errors lay n_in (h_qubits h) requested = []"
proof -
  obtain st where r: "run_checker h t form ops = Inr st"
    and res: "res = checker_result (st\<lparr>ck_errors := ck_errors st
        @ layout_errors lay n_in (h_qubits h) requested\<rparr>)"
    using assms unfolding structural_result_def bindE_Inr_iff Let_def by auto
  note c = r[unfolded run_checker_def]
  have "ck_errors st = [] \<longleftrightarrow> ck_errors (new_checker h t) = []
      \<and> (\<forall>op\<in>set ops. legal (checker_config h t form) [] [] op)"
    using consume_legal(2)[OF c] grows_consume(2)[OF c] by (auto simp: grows_def)
  moreover have "ck_errors (new_checker h t) = [] \<longleftrightarrow> h_qubits h = t_qubits t"
    by (simp add: new_checker_def)
  ultimately show ?thesis by (simp add: res checker_result_def)
qed

text \<open>
  The streaming checker agrees with the reference metrics: on a static circuit it verifies,
  its D2 and N2 are those of \<open>d2_n2\<close>, for every target whose native two-qubit names exclude
  barriers, delays, measurements and resets.
\<close>

theorem checker_metrics_agree:
  assumes "run_checker h t form ops = Inr st" and "ck_errors st = []" and "\<not> ck_dynamic st"
    and "set (t_native_2q t) \<inter> {''barrier'', ''delay'', ''measure'', ''reset''} = {}"
  shows "cr_metrics (checker_result st) = Some (max_default (map snd (ck_levels st)), ck_n2 st)
    \<and> d2_n2 (t_native_2q t) (map decode ops)
        = Inr (max_default (map snd (ck_levels st)), ck_n2 st)"
proof -
  note c = assms(1)[unfolded run_checker_def]
  have e: "ck_errors st = ck_errors (new_checker h t)"
    using grows_consume(2)[OF c] assms(2) by (auto simp: grows_def)
  have n: "cf_native (checker_config h t form) = t_native_2q t"
    by (simp add: checker_config_def Let_def)
  from consume_block_levels[OF c e assms(3), unfolded n, OF assms(4)] assms(3) show ?thesis
    by (simp add: d2_n2_eq run_levels_def new_checker_def checker_result_def)
qed

text \<open>
  A layout is accepted exactly when the widths agree, the three index lists are permutations
  of the output wires, routing composed with the initial layout gives the final one, and an
  explicitly requested initial layout was honored.
\<close>

theorem layout_errors_Nil_iff:
  "layout_errors (Some l) n_in n_out requested = [] \<longleftrightarrow>
     ly_input l = Some (int n_in) \<and> ly_output l = Some (int n_out)
     \<and> is_permutation (ly_initial l) n_out \<and> is_permutation (ly_final l) n_out
     \<and> is_permutation (ly_routing l) n_out
     \<and> (\<forall>i\<in>{0..<int n_out}. nth_int (the_ints (ly_final l)) i
          = nth_int (the_ints (ly_routing l)) (nth_int (the_ints (ly_initial l)) i))
     \<and> (requested = None \<or> requested = Some (take n_in (ly_initial l)))"
proof -
  have "set (int_range n_out) = {0..<int n_out}"
    by (auto simp: int_range_def image_int_atLeastLessThan)
  moreover have "(\<forall>r. requested = Some r \<longrightarrow> take n_in (ly_initial l) = r)
      \<longleftrightarrow> requested = None \<or> requested = Some (take n_in (ly_initial l))"
    by (cases requested) auto
  ultimately have ok: "layout_ok (ly_initial l) (ly_final l) (ly_routing l) n_in n_out requested
      \<longleftrightarrow> is_permutation (ly_initial l) n_out
     \<and> is_permutation (ly_final l) n_out \<and> is_permutation (ly_routing l) n_out
     \<and> (\<forall>i\<in>{0..<int n_out}. nth_int (the_ints (ly_final l)) i
          = nth_int (the_ints (ly_routing l)) (nth_int (the_ints (ly_initial l)) i))
     \<and> (requested = None \<or> requested = Some (take n_in (ly_initial l)))"
    unfolding layout_ok_def by simp
  show ?thesis
  proof (cases "ly_input l = Some (int n_in) \<and> ly_output l = Some (int n_out)")
    case True
    then show ?thesis unfolding layout_errors_def by (simp add: permutation_errors_Nil ok)
  qed (auto simp: layout_errors_def)
qed

section \<open>Witnesses\<close>

definition demo_header :: header where
  "demo_header = \<lparr>h_qubits = 3, h_clbits = 0\<rparr>"

definition demo_spec :: "nat \<Rightarrow> int list list option \<Rightarrow> nat \<Rightarrow> ispec" where
  "demo_spec arity qargs params = \<lparr>sp_arity = Some arity, sp_qargs = qargs, sp_parameters = params,
     sp_bounds = [], sp_fixed = Map.empty\<rparr>"

definition demo_target :: qtarget where
  "demo_target = \<lparr>t_qubits = 3, t_instructions = [(''cz'', demo_spec 2 (Some [[0, 1], [1, 2]]) 0),
     (''rz'', demo_spec 1 None 1)], t_native_2q = [''cz'']\<rparr>"

definition demo_ops :: "op list" where
  "demo_ops = [Op ''cz'' [JI 0, JI 1] [] [] None, Op ''rz'' [JI 1] [] [PNum (JFinite (1/2))] None,
     Op ''cz'' [JI 1, JI 2] [] [] None]"

lemmas demo_circuit = demo_header_def demo_target_def demo_ops_def demo_spec_def

lemma demo_run:
  "\<exists>st. run_checker demo_header demo_target ''target'' demo_ops = Inr st \<and> ck_errors st = []
     \<and> \<not> ck_dynamic st"
  unfolding run_checker_def demo_circuit
  by (simp add: checker_config_def new_checker_def Let_def dict_of_def check_wires_def
      valid_index_def map_wires_def the_ints_def check_instruction_def DIRECTIVES_def
      instruction_errors_def param_errors_def try_param_def bounds_check_def fixed_check_def
      CONTROL_FLOW_def count_wires_def)

theorem d2_is_heaviest_chain_witness:
  "\<exists>ix. chain (op_wires (map decode demo_ops)) ix
     \<and> chain_weight (op_counted [''cz''] (map decode demo_ops)) ix = 2"
proof -
  have "d2_n2 [''cz''] (map decode demo_ops) = Inr (2, 2)"
    by (simp add: d2_n2_def demo_ops_def decode_def the_ints_def CONTROL_FLOW_def Let_def
        d2_counted_def raise_levels_def int_wires_def level_def max_default_def)
  from d2_is_heaviest_chain[OF this] show ?thesis by blast
qed

theorem structural_verified_iff_witness:
  "\<exists>res w. structural_result demo_header demo_ops demo_target None 3 None ''target'' = Inr (res, w)
     \<and> (cr_verified res \<longrightarrow> legal (checker_config demo_header demo_target ''target'') [] [] (hd demo_ops))"
proof -
  obtain st where "run_checker demo_header demo_target ''target'' demo_ops = Inr st"
    using demo_run by blast
  then obtain res w where r:
    "structural_result demo_header demo_ops demo_target None 3 None ''target'' = Inr (res, w)"
    by (simp add: structural_result_def Let_def)
  have "hd demo_ops \<in> set demo_ops" by (simp add: demo_ops_def)
  with structural_verified_iff[OF r] r show ?thesis by blast
qed

theorem checker_metrics_agree_witness:
  "\<exists>st. run_checker demo_header demo_target ''target'' demo_ops = Inr st
     \<and> d2_n2 [''cz''] (map decode demo_ops) = Inr (max_default (map snd (ck_levels st)), ck_n2 st)"
proof -
  obtain st where st: "run_checker demo_header demo_target ''target'' demo_ops = Inr st"
    "ck_errors st = []" "\<not> ck_dynamic st" using demo_run by blast
  have n: "t_native_2q demo_target = [''cz'']" by (simp add: demo_target_def)
  have "set (t_native_2q demo_target) \<inter> {''barrier'', ''delay'', ''measure'', ''reset''} = {}"
    by (simp add: n)
  from checker_metrics_agree[OF st this] st(1) n show ?thesis by auto
qed

definition demo_layout :: layout where
  "demo_layout = \<lparr>ly_input = Some 2, ly_output = Some 3, ly_initial = [JI 1, JI 0, JI 2],
     ly_final = [JI 2, JI 0, JI 1], ly_routing = [JI 0, JI 2, JI 1]\<rparr>"

theorem layout_errors_Nil_iff_witness:
  "layout_errors (Some demo_layout) 2 3 (Some [JI 1, JI 0]) = []"
proof -
  have r: "{0..<int 3} = {0, 1, 2}" by auto
  show ?thesis
    unfolding layout_errors_Nil_iff r
    by (simp add: demo_layout_def is_permutation_def the_ints_def nth_int_def int_range_def
        upt_rec)
qed

end
