(* ===== verification/Replay.thy ===== *)
theory Replay
  imports Metrics "HOL-Library.Multiset"
begin

text \<open>
  Routing replay: \<open>src/src/qtb/metrics/replay.py\<close>. The circuit before layout (\<open>logical\<close>) is
  replayed against the circuit after routing: every routed operation either is the next
  logical operation on each of its virtual wires, or is a swap the router inserted. Operations
  are decoded lines; their parameters and payload are only compared, so their types are type
  variables, and JSON values are compared structurally. The lemmas show what a verified replay
  proves: the routed circuit without its inserted swaps, read on virtual wires, is the logical
  circuit up to reordering of operations on disjoint wires, and ends in the declared layout.
\<close>

section \<open>Operations and wires\<close>

datatype ('a, 'b) rop =
  Rop (rop_name: string) (rop_qubits: "jwire list") (rop_clbits: "jwire list")
    (rop_params: "'a list") (rop_payload: "'b option")

datatype rwire = RQ jwire | RC jwire

definition rop_wires :: "('a, 'b) rop \<Rightarrow> rwire list" where
  "rop_wires r = map RQ (rop_qubits r) @ map RC (rop_clbits r)"

record replay_result =
  rp_status :: string
  rp_detail :: string
  rp_swaps :: nat
  rp_covers :: "string list"

definition replay_stop :: "string \<Rightarrow> string \<Rightarrow> replay_result" where
  "replay_stop status detail = \<lparr>rp_status = status, rp_detail = detail, rp_swaps = 0, rp_covers = []\<rparr>"

section \<open>The logical side\<close>

type_synonym queues = "(rwire \<times> nat list) list"

definition queue :: "queues \<Rightarrow> rwire \<Rightarrow> nat list" where
  "queue qs w = (case map_of qs w of None \<Rightarrow> [] | Some q \<Rightarrow> q)"

definition enqueue :: "nat \<Rightarrow> queues \<Rightarrow> rwire \<Rightarrow> queues" where
  "enqueue i qs w = AList.update w (queue qs w @ [i]) qs"

fun logical_loop ::
    "('a, 'b) rop list \<Rightarrow> ('a, 'b) rop list \<times> queues \<Rightarrow> replay_result + (('a, 'b) rop list \<times> queues)"
where
  "logical_loop [] (ops, qs) = Inr (ops, qs)"
| "logical_loop (r # rs) (ops, qs) =
     (if rop_name r = ''barrier'' then logical_loop rs (ops, qs)
      else if rop_name r \<in> set CONTROL_FLOW \<or> (rop_qubits r = [] \<and> rop_clbits r = [])
      then Inl (replay_stop ''unverified'' ''Outside static replay model'')
      else logical_loop rs (ops @ [r], foldl (enqueue (length ops)) qs (rop_wires r)))"

text \<open>\<open>signatures\<close>: the names, parameters and payloads of the logical operations.\<close>

definition signature :: "('a, 'b) rop \<Rightarrow> string \<times> 'a list \<times> 'b option" where
  "signature r = (rop_name r, rop_params r, rop_payload r)"

section \<open>The routed side\<close>

record rstate =
  rs_p2v :: "nat list"
  rs_queues :: queues
  rs_swaps :: nat

definition placement :: "int list \<Rightarrow> nat \<Rightarrow> nat list" where
  "placement initial n =
     foldl (\<lambda>p2v (v, p). p2v[nat p := v]) (replicate n 0) (enumerate 0 initial)"

definition popleft :: "queues \<Rightarrow> rwire \<Rightarrow> queues res" where
  "popleft qs w = (case queue qs w of [] \<Rightarrow> Inl IndexError | x # q \<Rightarrow> Inr (AList.update w q qs))"

definition pop_wires :: "rwire list \<Rightarrow> queues \<Rightarrow> queues res" where
  "pop_wires ws qs = foldE (\<lambda>w qs. popleft qs w) ws qs"

definition queue_head :: "queues \<Rightarrow> rwire \<Rightarrow> nat option" where
  "queue_head qs w = (case queue qs w of [] \<Rightarrow> None | i # _ \<Rightarrow> Some i)"

text \<open>The routed operation on virtual wires.\<close>

definition virtual :: "nat list \<Rightarrow> ('a, 'b) rop \<Rightarrow> ('a, 'b) rop" where
  "virtual p2v r = Rop (rop_name r) (map (\<lambda>p. JI (int (p2v ! nat p))) (the_ints (rop_qubits r)))
     (rop_clbits r) (rop_params r) (rop_payload r)"

definition is_free_swap :: "('a, 'b) rop \<Rightarrow> bool" where
  "is_free_swap r \<longleftrightarrow> rop_name r = ''swap'' \<and> length (rop_qubits r) = 2 \<and> rop_clbits r = []
     \<and> rop_params r = [] \<and> rop_payload r = None"

definition swap_places :: "nat list \<Rightarrow> nat \<Rightarrow> nat \<Rightarrow> nat list" where
  "swap_places p2v a b = p2v[a := p2v ! b, b := p2v ! a]"

definition matches ::
    "('a, 'b) rop list \<Rightarrow> queues \<Rightarrow> ('a, 'b) rop \<Rightarrow> nat option" where
  "matches ops qs v =
     (let heads = map (queue_head qs) (rop_wires v) in
      case hd heads of
        None \<Rightarrow> None
      | Some i \<Rightarrow> if list_all (\<lambda>h. h = hd heads) heads \<and> ops ! i = v then Some i else None)"

fun routed_loop ::
    "('a, 'b) rop list \<Rightarrow> nat \<Rightarrow> ('a, 'b) rop list \<Rightarrow> rstate \<Rightarrow> (replay_result + rstate) res" where
  "routed_loop ops n [] st = Inr (Inr st)"
| "routed_loop ops n (r # rs) st =
     (if rop_name r = ''barrier'' then routed_loop ops n rs st
      else if list_ex (\<lambda>p. \<not> valid_index n p) (rop_qubits r)
      then Inr (Inl (replay_stop ''mismatch'' ''Invalid routed wire''))
      else
        let v = virtual (rs_p2v st) r in
        if rop_name r \<in> set CONTROL_FLOW \<or> rop_wires v = []
        then Inr (Inl (replay_stop ''unverified'' ''Outside static replay model''))
        else case matches ops (rs_queues st) v of
          Some i \<Rightarrow>
            bindE (pop_wires (rop_wires v) (rs_queues st)) (\<lambda>qs.
              routed_loop ops n rs (st\<lparr>rs_queues := qs\<rparr>))
        | None \<Rightarrow>
            if is_free_swap r then
              (let ps = map nat (the_ints (rop_qubits r)) in
               routed_loop ops n rs
                 (st\<lparr>rs_p2v := swap_places (rs_p2v st) (ps ! 0) (ps ! 1),
                     rs_swaps := rs_swaps st + 1\<rparr>))
            else Inr (Inl (replay_stop
              (if signature r \<in> signature ` set ops then ''mismatch'' else ''unverified'')
              ''Operation cannot be replayed'')))"

definition elided_full :: "int list option \<Rightarrow> nat \<Rightarrow> nat \<Rightarrow> int list" where
  "elided_full elided n_in n_out =
     (case elided of Some (x # xs) \<Rightarrow> x # xs | _ \<Rightarrow> int_range n_in) @ map int [n_in..<n_out]"

definition replay ::
    "('a, 'b) rop list \<Rightarrow> ('a, 'b) rop list \<Rightarrow> layout option \<Rightarrow> nat \<Rightarrow> nat \<Rightarrow> int list option
       \<Rightarrow> replay_result res" where
  "replay logical routed lay n_in n_out elided =
     (if layout_errors lay n_in n_out None \<noteq> []
      then Inr (replay_stop ''mismatch'' (join_str '', '' (layout_errors lay n_in n_out None)))
      else
        let initial = (case lay of None \<Rightarrow> int_range n_out | Some l \<Rightarrow> the_ints (ly_initial l));
            final = (case lay of None \<Rightarrow> int_range n_out | Some l \<Rightarrow> the_ints (ly_final l));
            elided = elided_full elided n_in n_out in
        if sort elided \<noteq> int_range n_out
        then Inr (replay_stop ''mismatch'' ''Invalid elided permutation'')
        else case logical_loop logical ([], []) of
          Inl r \<Rightarrow> Inr r
        | Inr (ops, qs) \<Rightarrow>
            bindE (routed_loop ops n_out routed
                \<lparr>rs_p2v = placement initial n_out, rs_queues = qs, rs_swaps = 0\<rparr>)
              (\<lambda>out. case out of
                 Inl r \<Rightarrow> Inr r
               | Inr st \<Rightarrow>
                   let ok = list_all (\<lambda>(w, q). q = []) (rs_queues st)
                     \<and> list_all (\<lambda>v. int (rs_p2v st ! nat (nth_int final v)) = nth_int elided v)
                         (int_range n_out) in
                   Inr \<lparr>rp_status = (if ok then ''verified'' else ''mismatch''), rp_detail = [],
                        rp_swaps = rs_swaps st, rp_covers = [''layout'', ''routing'']\<rparr>))"

section \<open>What the replay means\<close>

text \<open>
  \<open>routes p2v routed trace p2v'\<close>: from the placement \<open>p2v\<close> the routed circuit performs the
  virtual operations \<open>trace\<close>, apart from barriers and inserted swaps, and ends in \<open>p2v'\<close>.
\<close>

inductive routes ::
    "nat list \<Rightarrow> ('a, 'b) rop list \<Rightarrow> ('a, 'b) rop list \<Rightarrow> nat list \<Rightarrow> bool" where
  routes_Nil: "routes p2v [] [] p2v"
| routes_barrier: "rop_name r = ''barrier'' \<Longrightarrow> routes p2v rs tr p2v' \<Longrightarrow> routes p2v (r # rs) tr p2v'"
| routes_swap: "r = Rop ''swap'' [JI a, JI b] [] [] None \<Longrightarrow>
     routes (swap_places p2v (nat a) (nat b)) rs tr p2v' \<Longrightarrow> routes p2v (r # rs) tr p2v'"
| routes_op: "rop_name r \<noteq> ''barrier'' \<Longrightarrow> \<forall>p\<in>set (rop_qubits r). valid_index (length p2v) p \<Longrightarrow>
     routes p2v rs tr p2v' \<Longrightarrow> routes p2v (r # rs) (virtual p2v r # tr) p2v'"

definition shares_wire :: "('a, 'b) rop \<Rightarrow> ('a, 'b) rop \<Rightarrow> bool" where
  "shares_wire a b \<longleftrightarrow> set (rop_wires a) \<inter> set (rop_wires b) \<noteq> {}"

text \<open>
  Two circuits are equivalent up to commuting operations on disjoint wires: one is a
  permutation of the other that keeps the order of any two operations sharing a wire.
\<close>

definition reordering :: "('a, 'b) rop list \<Rightarrow> ('a, 'b) rop list \<Rightarrow> bool" where
  "reordering ops tr \<longleftrightarrow> (\<exists>ms. tr = map ((!) ops) ms \<and> distinct ms \<and> set ms = {..<length ops}
     \<and> sorted_wrt (\<lambda>i j. shares_wire (ops ! i) (ops ! j) \<longrightarrow> i < j) ms)"

section \<open>The queues\<close>

text \<open>The queue of a wire when the operations \<open>todo\<close> are still to be matched.\<close>

definition qlist :: "('a, 'b) rop list \<Rightarrow> rwire \<Rightarrow> nat list \<Rightarrow> nat list" where
  "qlist ops w todo = concat (map (\<lambda>i. replicate (count_list (rop_wires (ops ! i)) w) i) todo)"

definition queues_ok :: "('a, 'b) rop list \<Rightarrow> queues \<Rightarrow> nat list \<Rightarrow> bool" where
  "queues_ok ops qs todo \<longleftrightarrow> sorted_wrt (<) todo \<and> set todo \<subseteq> {..<length ops}
     \<and> (\<forall>w. queue qs w = qlist ops w todo)"

lemma qlist_append: "qlist ops w (xs @ ys) = qlist ops w xs @ qlist ops w ys"
  by (simp add: qlist_def)

lemma qlist_Nil_iff: "qlist ops w todo = [] \<longleftrightarrow> (\<forall>i\<in>set todo. w \<notin> set (rop_wires (ops ! i)))"
  by (simp add: qlist_def count_list_0_iff)

lemma queue_update: "queue (AList.update w q qs) w' = (if w' = w then q else queue qs w')"
  by (simp add: queue_def update_conv')

lemma enqueue_all:
  "queue (foldl (enqueue i) qs ws) w = queue qs w @ replicate (count_list ws w) i"
proof (induction ws arbitrary: qs)
  case (Cons v ws)
  then show ?case
    by (auto simp: enqueue_def queue_update replicate_append_same [symmetric])
qed simp

lemma pop_wires_rest:
  "\<forall>w. queue qs w = replicate (count_list ws w) i @ rest w \<Longrightarrow>
     \<exists>qs'. pop_wires ws qs = Inr qs' \<and> (\<forall>w. queue qs' w = rest w)"
proof (induction ws arbitrary: qs)
  case (Cons v ws)
  have v: "queue qs v = i # replicate (count_list ws v) i @ rest v" using Cons.prems by simp
  let ?qs = "AList.update v (replicate (count_list ws v) i @ rest v) qs"
  have "\<forall>w. queue ?qs w = replicate (count_list ws w) i @ rest w"
    using Cons.prems by (auto simp: queue_update)
  from Cons.IH[OF this] v show ?case by (simp add: pop_wires_def popleft_def)
qed (simp add: pop_wires_def)

lemma qlist_head:
  "qlist ops w todo = i # q \<Longrightarrow> \<exists>pre suf. todo = pre @ i # suf
     \<and> (\<forall>j\<in>set pre. w \<notin> set (rop_wires (ops ! j))) \<and> w \<in> set (rop_wires (ops ! i))"
proof (induction todo)
  case (Cons j todo)
  show ?case
  proof (cases "w \<in> set (rop_wires (ops ! j))")
    case True
    then have "count_list (rop_wires (ops ! j)) w \<noteq> 0" by (simp add: count_list_0_iff)
    then obtain k where "count_list (rop_wires (ops ! j)) w = Suc k" using not0_implies_Suc by blast
    with Cons.prems have "j = i" by (simp add: qlist_def)
    with True show ?thesis by (intro exI[of _ "[]"] exI[of _ todo]) simp
  next
    case False
    then have "qlist ops w (j # todo) = qlist ops w todo" by (simp add: qlist_def count_list_0_iff)
    with Cons.prems Cons.IH obtain pre suf where "todo = pre @ i # suf"
      "\<forall>j\<in>set pre. w \<notin> set (rop_wires (ops ! j))" "w \<in> set (rop_wires (ops ! i))" by auto
    with False show ?thesis by (intro exI[of _ "j # pre"] exI[of _ suf]) simp
  qed
qed (simp add: qlist_def)

lemma qlist_remove_other:
  "w \<notin> set (rop_wires (ops ! i)) \<Longrightarrow> qlist ops w (remove1 i todo) = qlist ops w todo"
  by (induction todo) (auto simp: qlist_def count_list_0_iff)

lemma sorted_wrt_remove1: "sorted_wrt P xs \<Longrightarrow> sorted_wrt P (remove1 x xs)"
  by (induction xs) (use notin_set_remove1 in fastforce)+

text \<open>
  A match takes the least unmatched operation of each of its wires, and popping the wires
  leaves the queues of the remaining operations.
\<close>

lemma matches_step:
  assumes q: "queues_ok ops qs todo" and m: "matches ops qs v = Some i" and ne: "rop_wires v \<noteq> []"
  shows "ops ! i = v" and "i \<in> set todo"
    and "\<forall>j\<in>set todo. shares_wire (ops ! i) (ops ! j) \<longrightarrow> i \<le> j"
    and "\<exists>qs'. pop_wires (rop_wires v) qs = Inr qs' \<and> queues_ok ops qs' (remove1 i todo)"
proof -
  obtain w0 ws0 where ws: "rop_wires v = w0 # ws0" using ne by (cases "rop_wires v") auto
  have h: "queue_head qs w = Some i" if "w \<in> set (rop_wires v)" for w
    using m that unfolding matches_def Let_def
    by (auto simp: ws list_all_iff split: option.splits if_splits)
  show v: "ops ! i = v"
    using m unfolding matches_def Let_def by (auto split: option.splits if_splits)
  have sorted: "sorted_wrt (<) todo" and len: "set todo \<subseteq> {..<length ops}"
    and queues: "\<And>w. queue qs w = qlist ops w todo"
    using q by (auto simp: queues_ok_def)
  have dist: "distinct todo" using sorted by (simp add: strict_sorted_iff)
  have split: "\<exists>pre suf. todo = pre @ i # suf \<and> (\<forall>j\<in>set pre. w \<notin> set (rop_wires (ops ! j)))"
    if "w \<in> set (rop_wires v)" for w
    using h[OF that] queues[of w] qlist_head by (fastforce simp: queue_head_def split: list.splits)
  show i: "i \<in> set todo" using split[of w0] ws by auto
  show "\<forall>j\<in>set todo. shares_wire (ops ! i) (ops ! j) \<longrightarrow> i \<le> j"
  proof (intro ballI impI)
    fix j assume j: "j \<in> set todo" "shares_wire (ops ! i) (ops ! j)"
    then obtain w where w: "w \<in> set (rop_wires v)" "w \<in> set (rop_wires (ops ! j))"
      by (auto simp: shares_wire_def v)
    obtain pre suf where t: "todo = pre @ i # suf" "\<forall>j\<in>set pre. w \<notin> set (rop_wires (ops ! j))"
      using split[OF w(1)] by blast
    with w(2) j(1) have "j = i \<or> j \<in> set suf" by auto
    with sorted t(1) show "i \<le> j" by (auto simp: sorted_wrt_append)
  qed
  have "\<forall>w. queue qs w = replicate (count_list (rop_wires v) w) i @ qlist ops w (remove1 i todo)"
  proof
    fix w
    show "queue qs w = replicate (count_list (rop_wires v) w) i @ qlist ops w (remove1 i todo)"
    proof (cases "w \<in> set (rop_wires v)")
      case True
      from split[OF this] obtain pre suf where t: "todo = pre @ i # suf"
        "\<forall>j\<in>set pre. w \<notin> set (rop_wires (ops ! j))" by blast
      have pre: "qlist ops w pre = []" using t(2) by (simp add: qlist_Nil_iff)
      have "remove1 i todo = pre @ suf" using t(1) dist by (simp add: remove1_append)
      with pre show ?thesis unfolding queues t(1) by (simp add: qlist_append) (simp add: qlist_def v)
    next
      case False
      then show ?thesis by (simp add: queues qlist_remove_other v count_list_0_iff)
    qed
  qed
  from pop_wires_rest[OF this] obtain qs' where "pop_wires (rop_wires v) qs = Inr qs'"
    "\<forall>w. queue qs' w = qlist ops w (remove1 i todo)" by blast
  then show "\<exists>qs'. pop_wires (rop_wires v) qs = Inr qs' \<and> queues_ok ops qs' (remove1 i todo)"
    using sorted len by (auto simp: queues_ok_def sorted_wrt_remove1 dest: notin_set_remove1
        set_remove1_subset[THEN subsetD])
qed

section \<open>The loops\<close>

lemma logical_loop_ok:
  "logical_loop rs (ops, qs) = Inr (ops', qs') \<Longrightarrow> queues_ok ops qs [0..<length ops] \<Longrightarrow>
     \<forall>r\<in>set ops. rop_wires r \<noteq> [] \<Longrightarrow>
     ops' = ops @ filter (\<lambda>r. rop_name r \<noteq> ''barrier'') rs
     \<and> queues_ok ops' qs' [0..<length ops'] \<and> (\<forall>r\<in>set ops'. rop_wires r \<noteq> [])"
proof (induction rs "(ops, qs)" arbitrary: ops qs rule: logical_loop.induct)
  case (2 r rs ops qs)
  show ?case
  proof (cases "rop_name r = ''barrier''")
    case True
    then have l: "logical_loop rs (ops, qs) = Inr (ops', qs')"
      and f: "filter (\<lambda>r. rop_name r \<noteq> ''barrier'') (r # rs)
        = filter (\<lambda>r. rop_name r \<noteq> ''barrier'') rs" using 2(3) by simp_all
    show ?thesis unfolding f by (rule 2(1)[OF True l 2(4,5)])
  next
    case False
    let ?qs = "foldl (enqueue (length ops)) qs (rop_wires r)"
    have ne: "rop_wires r \<noteq> []" and l: "logical_loop rs (ops @ [r], ?qs) = Inr (ops', qs')"
      and ncf: "\<not> (rop_name r \<in> set CONTROL_FLOW \<or> (rop_qubits r = [] \<and> rop_clbits r = []))"
      using 2(3) False by (auto simp: rop_wires_def split: if_splits)
    have "qlist (ops @ [r]) w [0..<length ops] = qlist ops w [0..<length ops]" for w
      unfolding qlist_def by (intro arg_cong[of _ _ concat] map_cong) (auto simp: nth_append)
    then have "queue ?qs w = qlist (ops @ [r]) w [0..<length (ops @ [r])]" for w
      using 2(4) by (simp add: queues_ok_def enqueue_all qlist_append) (simp add: qlist_def)
    then have q: "queues_ok (ops @ [r]) ?qs [0..<length (ops @ [r])]"
      using sorted_wrt_upt[of 0 "length (ops @ [r])"] unfolding queues_ok_def by auto
    have w: "\<forall>x\<in>set (ops @ [r]). rop_wires x \<noteq> []" using 2(5) ne by auto
    have eq: "ops @ filter (\<lambda>r. rop_name r \<noteq> ''barrier'') (r # rs)
        = (ops @ [r]) @ filter (\<lambda>r. rop_name r \<noteq> ''barrier'') rs" using False by simp
    show ?thesis unfolding eq by (rule 2(2)[OF False ncf l q w])
  qed
qed auto

lemma is_free_swap_shape:
  assumes "is_free_swap r" and "\<forall>p\<in>set (rop_qubits r). valid_index n p"
  shows "\<exists>a b. r = Rop ''swap'' [JI a, JI b] [] [] None"
proof -
  obtain x y where xy: "rop_qubits r = [x, y]"
    using assms(1) by (auto simp: is_free_swap_def numeral_2_eq_2 length_Suc_conv)
  with assms(2) obtain a b where "x = JI a" "y = JI b"
    by (auto simp: valid_index_def split: jwire.splits)
  with xy assms(1) show ?thesis by (cases r) (auto simp: is_free_swap_def)
qed

text \<open>The routed loop extends a reordering of the operations still to be matched.\<close>

lemma routed_loop_ok:
  assumes "routed_loop ops n rs st = Inr (Inr st')" and "queues_ok ops (rs_queues st) todo"
    and "length (rs_p2v st) = n"
  shows "\<exists>ms left. routes (rs_p2v st) rs (map ((!) ops) ms) (rs_p2v st')
    \<and> queues_ok ops (rs_queues st') left \<and> distinct ms
    \<and> set ms \<union> set left = set todo \<and> set ms \<inter> set left = {}
    \<and> sorted_wrt (\<lambda>i j. shares_wire (ops ! i) (ops ! j) \<longrightarrow> i < j) ms
    \<and> length (rs_p2v st') = n"
  using assms
proof (induction ops n rs st arbitrary: todo rule: routed_loop.induct)
  case (1 ops n st)
  then show ?case by (intro exI[of _ "[]"] exI[of _ todo]) (auto intro: routes_Nil)
next
  case (2 ops n r rs st)
  let ?v = "virtual (rs_p2v st) r"
  consider (barrier) "rop_name r = ''barrier''"
    | (found) i qs where "rop_name r \<noteq> ''barrier''" "\<forall>p\<in>set (rop_qubits r). valid_index n p"
        "\<not> (rop_name r \<in> set CONTROL_FLOW \<or> rop_wires ?v = [])"
        "matches ops (rs_queues st) ?v = Some i"
        "pop_wires (rop_wires ?v) (rs_queues st) = Inr qs"
        "routed_loop ops n rs (st\<lparr>rs_queues := qs\<rparr>) = Inr (Inr st')"
    | (swap) "rop_name r \<noteq> ''barrier''" "\<forall>p\<in>set (rop_qubits r). valid_index n p"
        "\<not> (rop_name r \<in> set CONTROL_FLOW \<or> rop_wires ?v = [])"
        "matches ops (rs_queues st) ?v = None" "is_free_swap r"
        "routed_loop ops n rs (st\<lparr>rs_p2v := swap_places (rs_p2v st)
           (map nat (the_ints (rop_qubits r)) ! 0) (map nat (the_ints (rop_qubits r)) ! 1),
           rs_swaps := rs_swaps st + 1\<rparr>) = Inr (Inr st')"
    using 2(4) by (auto simp: Let_def list_ex_iff bindE_Inr_iff split: if_splits option.splits)
  then show ?case
  proof cases
    case barrier
    with 2(4) have "routed_loop ops n rs st = Inr (Inr st')" by simp
    from 2(1)[OF barrier this 2(5,6)] show ?thesis
      using routes_barrier[where r = r and rs = rs, OF barrier] by blast
  next
    case found
    have nex: "\<not> list_ex (\<lambda>p. \<not> valid_index n p) (rop_qubits r)"
      using found(2) by (simp add: list_ex_iff)
    note step = matches_step[OF 2(5) found(4)]
    have ne: "rop_wires ?v \<noteq> []" using found(3) by simp
    have i: "ops ! i = ?v" "i \<in> set todo" using step(1,2)[OF ne] .
    have q: "queues_ok ops (rs_queues (st\<lparr>rs_queues := qs\<rparr>)) (remove1 i todo)"
      using step(4)[OF ne] found(5) by auto
    from 2(3)[OF found(1) nex refl found(3) found(4) found(6) q] 2(6) obtain ms left where
      r: "routes (rs_p2v st) rs (map ((!) ops) ms) (rs_p2v st')"
      and l: "queues_ok ops (rs_queues st') left" "distinct ms"
        "set ms \<union> set left = set (remove1 i todo)" "set ms \<inter> set left = {}"
        "sorted_wrt (\<lambda>i j. shares_wire (ops ! i) (ops ! j) \<longrightarrow> i < j) ms"
        "length (rs_p2v st') = n" by auto
    have "distinct todo" using 2(5) by (auto simp: queues_ok_def strict_sorted_iff)
    then have rem: "set (remove1 i todo) = set todo - {i}" by simp
    have "routes (rs_p2v st) (r # rs) (map ((!) ops) (i # ms)) (rs_p2v st')"
      using routes_op[OF found(1) _ r] found(2) 2(6) i(1) by simp
    moreover have "distinct (i # ms)" using l(2,3) rem by auto
    moreover have "set (i # ms) \<union> set left = set todo" "set (i # ms) \<inter> set left = {}"
      using l(3,4) rem i(2) by auto
    moreover have "sorted_wrt (\<lambda>i j. shares_wire (ops ! i) (ops ! j) \<longrightarrow> i < j) (i # ms)"
    proof -
      have "i < j" if "j \<in> set ms" "shares_wire (ops ! i) (ops ! j)" for j
      proof -
        from that(1) l(3) rem have "j \<in> set todo" "j \<noteq> i" by auto
        with step(3)[OF ne] that(2) show ?thesis by (simp add: le_neq_implies_less)
      qed
      with l(5) show ?thesis by simp
    qed
    ultimately show ?thesis using l(1,6) by blast
  next
    case swap
    have nex: "\<not> list_ex (\<lambda>p. \<not> valid_index n p) (rop_qubits r)"
      using swap(2) by (simp add: list_ex_iff)
    obtain a b where r: "r = Rop ''swap'' [JI a, JI b] [] [] None"
      using is_free_swap_shape[OF swap(5,2)] by blast
    let ?p2v = "swap_places (rs_p2v st) (nat a) (nat b)"
    have st: "routed_loop ops n rs (st\<lparr>rs_p2v := ?p2v, rs_swaps := rs_swaps st + 1\<rparr>)
        = Inr (Inr st')"
      using swap(6) by (simp add: r the_ints_def)
    have "\<exists>ms left. routes ?p2v rs (map ((!) ops) ms) (rs_p2v st')
      \<and> queues_ok ops (rs_queues st') left \<and> distinct ms
      \<and> set ms \<union> set left = set todo \<and> set ms \<inter> set left = {}
      \<and> sorted_wrt (\<lambda>i j. shares_wire (ops ! i) (ops ! j) \<longrightarrow> i < j) ms
      \<and> length (rs_p2v st') = n"
      using 2(2)[OF swap(1) nex refl swap(3,4,5) refl, of todo] st 2(5,6)
      by (simp add: r the_ints_def swap_places_def)
    then show ?thesis using routes_swap[OF r] by blast
  qed
qed

lemma logical_stop: "logical_loop rs acc = Inl r \<Longrightarrow> rp_status r \<noteq> ''verified''"
  by (induction rs acc rule: logical_loop.induct) (auto simp: replay_stop_def split: if_splits)

lemma routed_stop: "routed_loop ops n rs st = Inr (Inl r) \<Longrightarrow> rp_status r \<noteq> ''verified''"
  by (induction ops n rs st rule: routed_loop.induct)
     (auto simp: replay_stop_def Let_def bindE_Inr_iff split: if_splits option.splits)

lemma left_empty:
  assumes "queues_ok ops qs left" and "\<forall>(w, q)\<in>set qs. q = []" and "\<forall>r\<in>set ops. rop_wires r \<noteq> []"
  shows "left = []"
proof (rule ccontr)
  assume "left \<noteq> []"
  then obtain i where i: "i \<in> set left" by (cases left) auto
  then have "ops ! i \<in> set ops" using assms(1) by (auto simp: queues_ok_def)
  with assms(3) obtain w where w: "w \<in> set (rop_wires (ops ! i))" by (meson last_in_set)
  have "queue qs w = []"
    using assms(2) by (auto simp: queue_def split: option.splits dest: map_of_SomeD)
  with assms(1) have "qlist ops w left = []" by (simp add: queues_ok_def)
  with i w show False by (auto simp: qlist_Nil_iff)
qed

section \<open>Properties\<close>

text \<open>
  C30. A verified replay proves the routing correct: read on virtual wires and without barriers
  and inserted swaps, the routed circuit performs exactly the logical operations, in an order
  that keeps any two operations sharing a wire in their logical order, and it leaves every
  virtual wire where the final layout and the elided permutation say.
\<close>

theorem replay_verified_sound:
  assumes "replay logical routed (Some l) n_in n_out elided = Inr res"
    and "rp_status res = ''verified''"
  shows "\<exists>tr p2v. routes (placement (the_ints (ly_initial l)) n_out) routed tr p2v
    \<and> reordering (filter (\<lambda>r. rop_name r \<noteq> ''barrier'') logical) tr
    \<and> (\<forall>v\<in>{0..<int n_out}. int (p2v ! nat (nth_int (the_ints (ly_final l)) v))
         = nth_int (elided_full elided n_in n_out) v)"
proof -
  let ?e = "elided_full elided n_in n_out"
  let ?p0 = "placement (the_ints (ly_initial l)) n_out"
  have nolay: "layout_errors (Some l) n_in n_out None = []"
    using assms by (auto simp: replay_def replay_stop_def split: if_splits)
  have perm: "sort ?e = int_range n_out"
    using assms nolay by (auto simp: replay_def replay_stop_def Let_def split: if_splits)
  obtain ops qs where lo: "logical_loop logical ([], []) = Inr (ops, qs)"
  proof (cases "logical_loop logical ([], [])")
    case (Inl r)
    with assms nolay perm have "rp_status r = ''verified''" by (simp add: replay_def Let_def)
    with Inl logical_stop show ?thesis by blast
  qed (use that in auto)
  let ?s0 = "\<lparr>rs_p2v = ?p0, rs_queues = qs, rs_swaps = 0\<rparr>"
  obtain out where out: "routed_loop ops n_out routed ?s0 = Inr out"
    using assms(1) nolay perm lo by (auto simp: replay_def Let_def bindE_Inr_iff)
  obtain st where ro: "routed_loop ops n_out routed ?s0 = Inr (Inr st)"
  proof (cases out)
    case (Inl r)
    with assms nolay perm lo out have "rp_status r = ''verified''" by (simp add: replay_def Let_def)
    with Inl out routed_stop show ?thesis by blast
  qed (use that out in auto)
  have empty: "list_all (\<lambda>(w, q). q = []) (rs_queues st)"
    and final: "list_all (\<lambda>v. int (rs_p2v st ! nat (nth_int (the_ints (ly_final l)) v))
        = nth_int ?e v) (int_range n_out)"
    using assms nolay perm lo ro by (auto simp: replay_def Let_def split: if_splits)
  have q0: "queues_ok [] [] [0..<length []]" by (simp add: queues_ok_def queue_def qlist_def)
  have "\<forall>r\<in>set []. rop_wires r \<noteq> []" by simp
  note lok = logical_loop_ok[OF lo q0 this, unfolded append_Nil]
  have ops: "ops = filter (\<lambda>r. rop_name r \<noteq> ''barrier'') logical" by (rule lok[THEN conjunct1])
  have q: "queues_ok ops qs [0..<length ops]" and ne: "\<forall>r\<in>set ops. rop_wires r \<noteq> []"
    using lok by blast+
  have "length (foldl (\<lambda>p2v (v, p). p2v[nat p := v]) xs ys) = length xs" for xs :: "nat list" and ys
    by (induction ys arbitrary: xs) auto
  then have len: "length ?p0 = n_out" by (simp add: placement_def)
  obtain ms left where r: "routes ?p0 routed (map ((!) ops) ms) (rs_p2v st)"
    and lq: "queues_ok ops (rs_queues st) left" and d: "distinct ms"
    and u: "set ms \<union> set left = set [0..<length ops]"
    and s: "sorted_wrt (\<lambda>i j. shares_wire (ops ! i) (ops ! j) \<longrightarrow> i < j) ms"
    using routed_loop_ok[OF ro, of "[0..<length ops]"] q len by auto
  have "\<forall>(w, q)\<in>set (rs_queues st). q = []" using empty unfolding list_all_iff .
  then have "left = []" by (rule left_empty[OF lq _ ne])
  with u have "set ms = {..<length ops}" by (auto simp: atLeast0LessThan)
  with d s have "reordering ops (map ((!) ops) ms)" unfolding reordering_def by blast
  moreover have "set (int_range n_out) = {0..<int n_out}"
    by (auto simp: int_range_def image_int_atLeastLessThan)
  with final have "\<forall>v\<in>{0..<int n_out}. int (rs_p2v st ! nat (nth_int (the_ints (ly_final l)) v))
      = nth_int ?e v" by (simp add: list_all_iff)
  ultimately show ?thesis using r unfolding ops by blast
qed

section \<open>Witness\<close>

definition demo_logical :: "(nat, nat) rop list" where
  "demo_logical = [Rop ''cx'' [JI 0, JI 1] [] [] None, Rop ''barrier'' [JI 0] [] [] None,
     Rop ''cx'' [JI 0, JI 2] [] [] None]"

definition demo_routed :: "(nat, nat) rop list" where
  "demo_routed = [Rop ''cx'' [JI 0, JI 1] [] [] None, Rop ''swap'' [JI 0, JI 1] [] [] None,
     Rop ''cx'' [JI 1, JI 2] [] [] None]"

definition demo_replay_layout :: layout where
  "demo_replay_layout = \<lparr>ly_input = Some 3, ly_output = Some 3, ly_initial = [JI 0, JI 1, JI 2],
     ly_final = [JI 1, JI 0, JI 2], ly_routing = [JI 1, JI 0, JI 2]\<rparr>"

theorem replay_verified_sound_witness:
  "\<exists>res tr p2v. replay demo_logical demo_routed (Some demo_replay_layout) 3 3 None = Inr res
     \<and> routes (placement [0, 1, 2] 3) demo_routed tr p2v
     \<and> reordering (filter (\<lambda>r. rop_name r \<noteq> ''barrier'') demo_logical) tr"
proof -
  have i: "the_ints (ly_initial demo_replay_layout) = [0, 1, 2]"
    by (simp add: demo_replay_layout_def the_ints_def)
  obtain res where res: "replay demo_logical demo_routed (Some demo_replay_layout) 3 3 None = Inr res"
    and v: "rp_status res = ''verified''"
    by (simp add: replay_def demo_logical_def demo_routed_def demo_replay_layout_def
        layout_errors_def permutation_errors_def is_permutation_def the_ints_def nth_int_def
        int_range_def elided_full_def upt_rec CONTROL_FLOW_def enqueue_def queue_def rop_wires_def placement_def
        virtual_def matches_def queue_head_def pop_wires_def popleft_def valid_index_def
        is_free_swap_def swap_places_def Let_def)
  from replay_verified_sound[OF res v] res i show ?thesis by auto
qed

end
