(* ===== verification/Session.thy ===== *)
theory Session
  imports Evaluate Gate
begin

text \<open>
  One invocation of a stage on a session directory: \<open>src/src/qtb/coordinator/stages.py\<close> (state
  files, preconditions, skipping, execution and outcomes), the harness check of
  \<open>Comparison.open\<close> (\<open>coordinator/__init__.py\<close>) and \<open>effective\<close> (\<open>amend.py\<close>). A session is
  the record of its files; what an invocation meets on its host (the running harness, the
  store, the monitor, locks held by others and the stage's body) is its environment. An
  invocation returns the session it leaves and its exit status or exception.
\<close>

section \<open>Stages and their states\<close>

datatype stage = Compile | Quality | Correctness | UnitTests | Cost

fun stage_name :: "stage \<Rightarrow> string" where
  "stage_name Compile = ''compile''"
| "stage_name Quality = ''quality''"
| "stage_name Correctness = ''correctness''"
| "stage_name UnitTests = ''unit-tests''"
| "stage_name Cost = ''cost''"

definition STAGE_ORDER :: "stage list" where
  "STAGE_ORDER = [Compile, Quality, Correctness, UnitTests, Cost]"

definition stage_of_name :: "string \<Rightarrow> stage option" where
  "stage_of_name n = map_of (map (\<lambda>s. (stage_name s, s)) STAGE_ORDER) n"

fun PREREQUISITES :: "stage \<Rightarrow> stage list" where
  "PREREQUISITES Compile = []"
| "PREREQUISITES Quality = [Compile]"
| "PREREQUISITES Correctness = [Quality]"
| "PREREQUISITES UnitTests = [Quality]"
| "PREREQUISITES Cost = [Correctness]"

definition GATED :: "stage list" where
  "GATED = [Correctness, UnitTests, Cost]"

definition FINAL :: "string list" where
  "FINAL = [''complete'', ''skipped'']"

definition UNFINISHED :: "string list" where
  "UNFINISHED = [''running'', ''noisy'']"

definition STATE_FORMAT :: string where
  "STATE_FORMAT = ''qtb-stage/2''"

definition STATE_FORMATS :: "string list" where
  "STATE_FORMATS = [''qtb-stage/1'', STATE_FORMAT]"

definition EXIT_OK :: nat where "EXIT_OK = 0"
definition EXIT_ERROR :: nat where "EXIT_ERROR = 40"
definition EXIT_PRECONDITION :: nat where "EXIT_PRECONDITION = 41"
definition EXIT_NOISY :: nat where "EXIT_NOISY = 42"
definition EXIT_USAGE :: nat where "EXIT_USAGE = 64"

record stage_state =
  ss_format :: "string option"
  ss_status :: string
  ss_attempts :: nat
  ss_gate :: "string option"
  ss_gate_reason :: "string option"
  ss_reason :: "string option"
  ss_cost_due :: "string option"
  ss_invocation :: "string option"

section \<open>The run and its amendments\<close>

record identities =
  hs_coordinator :: "string option"
  hs_implementation :: "string option"

text \<open>A session requirement such as \<open>cost_evidence\<close>: a contract and its entry point.\<close>

record requirement =
  rq_contract :: "string option"
  rq_entry_point :: string

record amendment =
  am_index :: nat
  am_stage :: stage
  am_reason :: string
  am_hashes :: identities
  am_session :: "(string \<times> requirement) list"
  am_cost_status :: "string option"

record run =
  rn_format :: string
  rn_profile :: string
  rn_hashes :: identities
  rn_manifest :: string
  rn_policy :: string
  rn_builds :: builds
  rn_store :: "string option"
  rn_store_key :: "string option"
  rn_sources :: "string \<times> string"
  rn_requirements :: "string \<rightharpoonup> requirement"
  rn_amendments :: "amendment list"

text \<open>
  \<open>effective\<close>: the requirements of every amendment are applied for every reader, its hashes only
  to the stage it names.
\<close>

definition apply_amendment :: "stage option \<Rightarrow> run \<Rightarrow> amendment \<Rightarrow> run" where
  "apply_amendment st view a =
     (let view = view\<lparr>rn_requirements := rn_requirements view ++ map_of (rev (am_session a))\<rparr> in
      if st \<noteq> None \<and> st = Some (am_stage a) then view\<lparr>rn_hashes := am_hashes a\<rparr> else view)"

definition effective :: "run \<Rightarrow> stage option \<Rightarrow> run" where
  "effective r st = foldl (apply_amendment st) r (rn_amendments r)"

section \<open>The session directory\<close>

text \<open>
  A path below the session directory is the list of its components. A planned deletion is a
  path, whether it is a directory, and its size; \<open>clean.json\<close> holds the plan and its status.
\<close>

type_synonym deletion = "string list \<times> bool \<times> nat"

record clean_state =
  cl_status :: string
  cl_planned :: "deletion list"
  cl_freed :: nat

text \<open>\<open>sn_decision\<close>: the stage state hashes recorded in \<open>decision.json\<close>, once decided.\<close>

record session =
  sn_run :: "run option"
  sn_state :: "stage \<Rightarrow> stage_state option"
  sn_evidence :: "stage \<Rightarrow> crec list option"
  sn_invocations :: "stage \<Rightarrow> (string \<times> nat) list"
  sn_clean :: "clean_state option"
  sn_obs :: "observation list"
  sn_decision :: "(stage \<Rightarrow> string option) option"
  sn_files :: "string list list"

definition clean_status :: "session \<Rightarrow> string option" where
  "clean_status s = map_option cl_status (sn_clean s)"

definition read_state :: "session \<Rightarrow> stage \<Rightarrow> stage_state option res" where
  "read_state s st =
     (case sn_state s st of
        None \<Rightarrow> Inr None
      | Some v \<Rightarrow>
          if (case ss_format v of None \<Rightarrow> ''qtb-stage/1'' | Some f \<Rightarrow> f) \<notin> set STATE_FORMATS
          then Inl (HarnessError ''Unknown stage state format'')
          else Inr (Some v))"

definition status_of :: "stage_state option \<Rightarrow> string" where
  "status_of v = (case v of None \<Rightarrow> ''not started'' | Some s \<Rightarrow> ss_status s)"

definition evidence_rows :: "session \<Rightarrow> stage \<Rightarrow> crec list" where
  "evidence_rows s st = (case sn_evidence s st of None \<Rightarrow> [] | Some rs \<Rightarrow> rs)"

definition committed_evidence :: "session \<Rightarrow> stage \<Rightarrow> crec list res" where
  "committed_evidence s st =
     bindE (read_state s st) (\<lambda>v.
       if status_of v \<notin> {''complete'', ''failed''} then Inr []
       else if status_of v = ''failed''
       then Inr (filter (\<lambda>r. cr_id r = ''harness/error/'' @ stage_name st) (evidence_rows s st))
       else Inr (evidence_rows s st))"

definition committed :: "session \<Rightarrow> stage list \<Rightarrow> crec list res" where
  "committed s sts = bindE (mapE (committed_evidence s) sts) (\<lambda>parts. Inr (concat parts))"

definition refuse_cleaned :: "session \<Rightarrow> unit res" where
  "refuse_cleaned s =
     (if clean_status s = Some ''cleaning''
      then Inl (Precondition ''Session cleanup was interrupted; run clean again to finish it'')
      else if clean_status s \<noteq> None \<and> clean_status s \<noteq> Some []
      then Inl (Precondition ''Session cleaned: start a new session to measure again'')
      else Inr ())"

section \<open>The environment of an invocation\<close>

text \<open>
  What the body of a stage leaves: its records, the observations it appended, the run it saved
  (only \<open>compile\<close> does), and how it ended.
\<close>

record body_fields =
  bf_gate :: "string option"
  bf_gate_reason :: "string option"
  bf_cost_due :: "string option"

text \<open>A body finishes, raises, or its process is killed.\<close>

datatype body_end = Finished body_fields | Raised exn | Killed

record body_out =
  bo_records :: "crec list"
  bo_obs :: "observation list"
  bo_run :: "run option"
  bo_result :: body_end

record monitor =
  mo_contract :: "string option"
  mo_prepare :: "unit res"

record env =
  en_identities :: identities
  en_manifest :: string
  en_policy_hash :: string
  en_cases :: "tcase list"
  en_policy :: policy
  en_store_exists :: bool
  en_ready_build :: "string \<Rightarrow> bool res"
  en_host_mismatch :: "string \<Rightarrow> string option"
  en_monitor :: "monitor option"
  en_cleaning_lock :: bool
  en_stage_lock :: bool
  en_invocation :: "string option"
  en_body :: "stage \<Rightarrow> session \<Rightarrow> crec list \<Rightarrow> body_out"

text \<open>\<open>_check_harness\<close>.\<close>

definition check_harness :: "env \<Rightarrow> run \<Rightarrow> unit res" where
  "check_harness en r =
     (if hs_coordinator (rn_hashes r) \<noteq> hs_coordinator (en_identities en)
      then Inl (Precondition ''Harness code changed since compile'')
      else if hs_implementation (rn_hashes r) \<noteq> None
              \<and> hs_implementation (rn_hashes r) \<noteq> hs_implementation (en_identities en)
      then Inl (Precondition ''Worker or verifier code changed since compile'')
      else if rn_manifest r \<noteq> en_manifest en
      then Inl (Precondition ''The profile's manifest changed since compile'')
      else if rn_policy r \<noteq> en_policy_hash en
      then Inl (Precondition ''The profile's policy changed since compile'')
      else Inr ())"

section \<open>Preconditions\<close>

definition cost_due :: "session \<Rightarrow> run \<Rightarrow> tcase list \<Rightarrow> policy \<Rightarrow> string option res" where
  "cost_due s r cases policy =
     bindE (committed s [Compile, Quality, Correctness]) (\<lambda>evidence.
     bindE (evaluate_quality (rn_profile r) cases policy (sn_obs s) evidence)
       (\<lambda>(records, required, summaries). Inr (cost_stage_due (rn_builds r) records)))"

definition skip_reason :: "env \<Rightarrow> session \<Rightarrow> run \<Rightarrow> stage \<Rightarrow> string option res" where
  "skip_reason en s r st =
     bindE (read_state s Quality) (\<lambda>q. case q of
        None \<Rightarrow> Inr None
      | Some quality \<Rightarrow>
          if ss_status quality \<noteq> ''complete'' then Inr None
          else if ss_gate quality = Some ''closed''
          then Inr (Some (''gate closed: '' @
                 (case ss_gate_reason quality of None \<Rightarrow> ''None'' | Some m \<Rightarrow> m)))
          else if st \<noteq> Cost then Inr None
          else bindE (read_state s Correctness) (\<lambda>c. case c of
              None \<Rightarrow> Inr None
            | Some correctness \<Rightarrow>
                if ss_status correctness \<noteq> ''complete'' then Inr None
                else bindE (cost_due s r (en_cases en) (en_policy en)) (\<lambda>due.
                  Inr (if due = None then Some ''correctness found a failure'' else None))))"

definition check_cost_measurement :: "env \<Rightarrow> run \<Rightarrow> unit res" where
  "check_cost_measurement en r =
     (case rn_requirements r ''cost_evidence'' of
        None \<Rightarrow> Inr ()
      | Some q \<Rightarrow>
          guardE ((case en_monitor en of None \<Rightarrow> None | Some m \<Rightarrow> mo_contract m) = rq_contract q)
            (Precondition ''This session admits only cost evidence of its contract''))"

definition check_prerequisites :: "session \<Rightarrow> stage \<Rightarrow> unit res" where
  "check_prerequisites s st =
     foldE (\<lambda>needed _. bindE (read_state s needed) (\<lambda>v.
        guardE (status_of v \<in> set FINAL)
          (Precondition (stage_name st @ '' needs '' @ stage_name needed
             @ '' to be complete (it is '' @ status_of v @ '')''))))
       (PREREQUISITES st) ()"

definition check_store :: "env \<Rightarrow> run \<Rightarrow> stage \<Rightarrow> unit res" where
  "check_store en r st =
     (if st = Compile then Inr ()
      else if rn_store r = None
      then Inl (Precondition ''The session has no store; it was not created by compile'')
      else if \<not> en_store_exists en
      then Inl (Precondition ''The session's store is missing'')
      else case rn_store_key r of
        None \<Rightarrow> Inl (Precondition ''Baseline build is missing from the store'')
      | Some k \<Rightarrow> bindE (en_ready_build en k) (\<lambda>ready.
          guardE ready (Precondition ''Baseline build is missing from the store'')))"

definition check_hosts :: "env \<Rightarrow> run \<Rightarrow> stage \<Rightarrow> unit res" where
  "check_hosts en r st =
     (if st = Compile then Inr ()
      else foldE (\<lambda>revision _. guardE (en_host_mismatch en revision = None)
          (Precondition (''This host cannot run the '' @ revision @ '' build'')))
        ((if b_baseline (rn_builds r) \<noteq> None then [''baseline''] else [])
         @ (if b_evolved (rn_builds r) \<noteq> None then [''evolved''] else [])) ())"

text \<open>\<open>_preconditions\<close>: \<open>Inr (Some reason)\<close> when the stage ends here, skipped.\<close>

definition preconditions :: "env \<Rightarrow> session \<Rightarrow> run \<Rightarrow> stage \<Rightarrow> string option res" where
  "preconditions en s r st =
     bindE (check_prerequisites s st) (\<lambda>_.
     bindE (check_store en r st) (\<lambda>_.
     bindE (if st \<in> set GATED then skip_reason en s r st else Inr None) (\<lambda>reason.
       case reason of
         Some (c # m) \<Rightarrow> Inr (Some (c # m))
       | _ \<Rightarrow>
         bindE (check_hosts en r st) (\<lambda>_.
         bindE (if st = Cost then check_cost_measurement en r else Inr ()) (\<lambda>_.
           Inr None)))))"

section \<open>Running a stage\<close>

definition write_state :: "stage \<Rightarrow> stage_state \<Rightarrow> session \<Rightarrow> session" where
  "write_state st v s =
     s\<lparr>sn_state := (sn_state s)(st := Some (v\<lparr>ss_format := Some STATE_FORMAT\<rparr>))\<rparr>"

definition write_evidence :: "stage \<Rightarrow> crec list \<Rightarrow> session \<Rightarrow> session" where
  "write_evidence st rs s = s\<lparr>sn_evidence := (sn_evidence s)(st := Some rs)\<rparr>"

definition record_invocation :: "stage \<Rightarrow> stage_state \<Rightarrow> nat \<Rightarrow> session \<Rightarrow> session" where
  "record_invocation st v code s =
     s\<lparr>sn_invocations := (sn_invocations s)(st := sn_invocations s st @ [(ss_status v, code)])\<rparr>"

definition attempts_of :: "stage_state option \<Rightarrow> nat" where
  "attempts_of v = (case v of None \<Rightarrow> 0 | Some s \<Rightarrow> ss_attempts s)"

definition new_state :: "string \<Rightarrow> nat \<Rightarrow> stage_state" where
  "new_state status attempts = \<lparr>ss_format = None, ss_status = status, ss_attempts = attempts,
     ss_gate = None, ss_gate_reason = None, ss_reason = None, ss_cost_due = None, ss_invocation = None\<rparr>"

text \<open>\<open>execution.current().invocation\<close>, of which the model keeps the job key.\<close>

definition invoked :: "env \<Rightarrow> stage_state \<Rightarrow> stage_state" where
  "invoked en v = v\<lparr>ss_invocation := en_invocation en\<rparr>"

definition skip :: "env \<Rightarrow> stage \<Rightarrow> stage_state option \<Rightarrow> string \<Rightarrow> session \<Rightarrow> session \<times> nat res" where
  "skip en st previous reason s =
     (let v = (invoked en (new_state ''skipped'' (attempts_of previous)))\<lparr>ss_reason := Some reason\<rparr> in
      (record_invocation st v EXIT_OK (write_state st v s), Inr EXIT_OK))"

text \<open>The status, exit code and final state of a body's result; a crash adds its record.\<close>

definition is_contaminated :: "exn \<Rightarrow> bool" where
  "is_contaminated e = (case e of Contaminated _ \<Rightarrow> True | _ \<Rightarrow> False)"

definition finish ::
    "stage \<Rightarrow> stage_state \<Rightarrow> crec list \<Rightarrow> body_fields res \<Rightarrow> crec list \<times> stage_state \<times> nat" where
  "finish st v recs result =
     (case result of
        Inr f \<Rightarrow> (recs, v\<lparr>ss_status := ''complete'', ss_gate := bf_gate f,
                    ss_gate_reason := bf_gate_reason f, ss_cost_due := bf_cost_due f\<rparr>, EXIT_OK)
      | Inl e \<Rightarrow>
          if is_contaminated e
          then (recs, v\<lparr>ss_status := ''noisy'', ss_reason := Some (exn_message e)\<rparr>, EXIT_NOISY)
          else (evidence recs (record_of (''harness/error/'' @ stage_name st) ''harness'' ''failed''
                  ''evolved'' [(''detail'', DStr (exn_message e))]),
                v\<lparr>ss_status := ''failed'', ss_reason := Some (exn_message e)\<rparr>, EXIT_ERROR))"

text \<open>\<open>monitor.prepare\<close>: a refused allocation (\<open>Precondition\<close>) leaves the session as it was.\<close>

definition prepare :: "env \<Rightarrow> stage \<Rightarrow> unit res" where
  "prepare en st = (if st = Cost then (case en_monitor en of None \<Rightarrow> Inr () | Some m \<Rightarrow> mo_prepare m)
                    else Inr ())"

fun is_precondition :: "exn \<Rightarrow> bool" where
  "is_precondition (Precondition m) = True"
| "is_precondition e = False"

text \<open>The session once \<open>running\<close> is written, before the body starts.\<close>

definition started :: "env \<Rightarrow> session \<Rightarrow> stage \<Rightarrow> stage_state option \<Rightarrow> crec list \<Rightarrow> session" where
  "started en s st previous recs =
     write_evidence st recs (write_state st (invoked en (new_state ''running'' (attempts_of previous + 1))) s)"

definition run_body :: "env \<Rightarrow> session \<Rightarrow> stage \<Rightarrow> crec list \<Rightarrow> body_out" where
  "run_body en s st recs =
     (case prepare en st of
        Inl e \<Rightarrow> \<lparr>bo_records = recs, bo_obs = [], bo_run = None, bo_result = Raised e\<rparr>
      | Inr _ \<Rightarrow> en_body en st s recs)"

definition after_body :: "stage \<Rightarrow> session \<Rightarrow> body_out \<Rightarrow> session" where
  "after_body st s out = s\<lparr>sn_obs := sn_obs s @ bo_obs out,
     sn_run := (if st = Compile \<and> bo_run out \<noteq> None then bo_run out else sn_run s)\<rparr>"

text \<open>The last writes of an invocation: evidence, final state and its line of the history.\<close>

definition close_stage ::
    "env \<Rightarrow> stage \<Rightarrow> nat \<Rightarrow> crec list \<Rightarrow> session \<Rightarrow> body_fields res \<Rightarrow> session \<times> nat res" where
  "close_stage en st attempts recs s result =
     (let (recs, v, code) = finish st (invoked en (new_state ''running'' attempts)) recs result in
      (record_invocation st v code (write_state st v (write_evidence st recs s)), Inr code))"

definition run_to_end :: "env \<Rightarrow> session \<Rightarrow> stage \<Rightarrow> stage_state option \<Rightarrow> session \<times> nat res" where
  "run_to_end en s st previous =
     (let recs = opened_evidence (stage_name st) (sn_evidence s st);
          s1 = started en s st previous recs;
          out = run_body en s1 st recs;
          s2 = after_body st s1 out;
          attempts = attempts_of previous + 1 in
      case bo_result out of
        Killed \<Rightarrow> (write_evidence st (bo_records out) s2, Inl (OtherException ''killed''))
      | Finished f \<Rightarrow> close_stage en st attempts (bo_records out) s2 (Inr f)
      | Raised e \<Rightarrow> close_stage en st attempts (bo_records out) s2 (Inl e))"

definition execute ::
    "env \<Rightarrow> session \<Rightarrow> run \<Rightarrow> stage \<Rightarrow> stage_state option \<Rightarrow> session \<times> nat res" where
  "execute en s r st previous =
     (case preconditions en s r st of
        Inl e \<Rightarrow> (s, Inl e)
      | Inr (Some reason) \<Rightarrow> skip en st previous reason s
      | Inr None \<Rightarrow>
          (case prepare en st of
             Inl e \<Rightarrow> if is_precondition e then (s, Inl e) else run_to_end en s st previous
           | Inr _ \<Rightarrow> run_to_end en s st previous))"

definition run_stage :: "env \<Rightarrow> session \<Rightarrow> string \<Rightarrow> session \<times> nat res" where
  "run_stage en s name =
     (case stage_of_name name of
        None \<Rightarrow> (s, Inl (Usage (''Unknown stage '' @ name)))
      | Some Compile \<Rightarrow> (s, Inl (Usage (''Unknown stage '' @ name)))
      | Some st \<Rightarrow>
          (case sn_run s of
             None \<Rightarrow> (s, Inl (Precondition ''not a session; run compile first''))
           | Some r0 \<Rightarrow>
              if en_cleaning_lock en then (s, Inl (Precondition ''the session is being cleaned''))
              else if en_stage_lock en then (s, Inl (Precondition (name @ '' is already running'')))
              else case refuse_cleaned s of
                Inl e \<Rightarrow> (s, Inl e)
              | Inr _ \<Rightarrow>
              (case read_state s st of
                 Inl e \<Rightarrow> (s, Inl e)
               | Inr previous \<Rightarrow>
                  if status_of previous \<in> set FINAL then (s, Inr EXIT_OK)
                  else
                    let r = effective r0 (Some st) in
                    case check_harness en r of
                      Inl e \<Rightarrow> (s, Inl e)
                    | Inr _ \<Rightarrow> execute en s r st previous)))"

end
