(* ===== verification/Lifecycle.thy ===== *)
theory Lifecycle
  imports Session Text
begin

text \<open>
  The life of a session directory: creating or resuming it (\<open>run_compile\<close> and
  \<open>Comparison.create\<close>), re-pinning its cost stage (\<open>coordinator/amend.py\<close>) and cleaning it
  (\<open>coordinator/clean.py\<close>), with the step relation of everything that can happen to a session,
  a killed stage or clean included. The invariants: final stages are frozen, stages start in
  order, gated stages complete only behind an open gate, and a cleaned session is never
  measured again.
\<close>

section \<open>Creating a session\<close>

text \<open>
  \<open>resolve_store\<close>: \<open>flag\<close> is \<open>--store\<close>, \<open>variable\<close> is \<open>QTB_STORE\<close>; \<open>is_dir\<close> tells whether the
  resolved path is a directory.
\<close>

definition resolve_store ::
    "string option \<Rightarrow> string option \<Rightarrow> (string \<Rightarrow> bool) \<Rightarrow> string res" where
  "resolve_store flag variable is_dir =
     (case (if flag \<noteq> None \<and> flag \<noteq> Some [] then flag else variable) of
        None \<Rightarrow> Inl (Usage ''compile needs --store DIR or QTB_STORE (there is no default)'')
      | Some [] \<Rightarrow> Inl (Usage ''compile needs --store DIR or QTB_STORE (there is no default)'')
      | Some dir \<Rightarrow>
          bindE (guardE (is_dir dir) (Usage (''Store does not exist: '' @ dir))) (\<lambda>_. Inr dir))"

text \<open>
  What is at the results root before a session: nothing, a file, or a directory with names.
\<close>

datatype root_dir = Missing | NotDir | Dir "string list"

definition SESSION_SEED :: "string list" where
  "SESSION_SEED = [''lifecycle.lock'', ''stages'']"

definition check_session_directory :: "root_dir \<Rightarrow> bool \<Rightarrow> bool \<Rightarrow> unit res" where
  "check_session_directory dir has_run creating =
     (case dir of
        Missing \<Rightarrow> Inr ()
      | NotDir \<Rightarrow> Inl (Usage ''exists and is not a directory'')
      | Dir names \<Rightarrow>
          if has_run then Inr ()
          else
            let extra = sort (filter (\<lambda>n. n \<notin> set SESSION_SEED) names) in
            if extra \<noteq> [] \<or> \<not> creating
            then Inl (Usage (''exists and is not a session''
              @ (if extra \<noteq> [] then '' (it contains '' @ join_str '', '' (take 3 extra) @ '')'' else [])))
            else Inr ())"

text \<open>The command line and context of one \<open>compile\<close>.\<close>

record compile_args =
  ca_sources :: "string \<times> string"
  ca_profile :: string
  ca_store :: string
  ca_session :: "(string \<times> requirement) list"

definition other_inputs :: "compile_args \<Rightarrow> run \<Rightarrow> string list" where
  "other_inputs a r =
     (if rn_sources r \<noteq> ca_sources a then [''sources''] else [])
     @ (if rn_store r \<noteq> Some (ca_store a) then [''store''] else [])
     @ (if rn_profile r \<noteq> ca_profile a then [''profile''] else [])
     @ map fst (filter (\<lambda>(k, q). rn_requirements r k \<noteq> Some q) (ca_session a))"

definition new_run :: "env \<Rightarrow> compile_args \<Rightarrow> run" where
  "new_run en a = \<lparr>rn_format = ''qtb-run/3'', rn_profile = ca_profile a,
     rn_hashes = \<lparr>hs_coordinator = hs_coordinator (en_identities en), hs_implementation = None\<rparr>,
     rn_manifest = en_manifest en, rn_policy = en_policy_hash en,
     rn_builds = \<lparr>b_baseline = None, b_evolved = None\<rparr>, rn_store = Some (ca_store a),
     rn_store_key = None, rn_sources = ca_sources a,
     rn_requirements = map_of (rev (ca_session a)), rn_amendments = []\<rparr>"

text \<open>\<open>Comparison.create\<close>: the run it works on, and the session with \<open>run.json\<close> present.\<close>

definition create :: "env \<Rightarrow> compile_args \<Rightarrow> session \<Rightarrow> (run \<times> session) res" where
  "create en a s =
     (case sn_run s of
        Some r \<Rightarrow>
          if other_inputs a r \<noteq> []
          then Inl (Usage (''is a session for other inputs ('' @ join_str '', '' (other_inputs a r)
             @ '' differ); start a new session with another --results-root''))
          else bindE (check_harness en r) (\<lambda>_. Inr (r, s))
      | None \<Rightarrow> Inr (new_run en a, s\<lparr>sn_run := Some (new_run en a)\<rparr>))"

definition run_compile ::
    "env \<Rightarrow> compile_args \<Rightarrow> root_dir \<Rightarrow> string list \<Rightarrow> session \<Rightarrow> session \<times> nat res" where
  "run_compile en a dir names s =
     (case check_session_directory dir (sn_run s \<noteq> None) False of
        Inl e \<Rightarrow> (s, Inl e)
      | Inr _ \<Rightarrow>
          if en_cleaning_lock en then (s, Inl (Precondition ''the session is being cleaned''))
          else if en_stage_lock en then (s, Inl (Precondition ''compile is already running''))
          else
            (case bindE (check_session_directory (Dir names) (sn_run s \<noteq> None) True) (\<lambda>_.
                  bindE (refuse_cleaned s) (\<lambda>_.
                  bindE (read_state s Compile) (\<lambda>previous.
                  bindE (case sn_run s of
                           None \<Rightarrow> Inr ()
                         | Some r0 \<Rightarrow>
                             let r = effective r0 None in
                             guardE (other_inputs a r = []) (Usage (''is a session for other inputs (''
                               @ join_str '', '' (other_inputs a r) @ '' differ)'')))
                    (\<lambda>_. Inr previous)))) of
               Inl e \<Rightarrow> (s, Inl e)
             | Inr previous \<Rightarrow>
                 if status_of previous \<in> set FINAL then (s, Inr EXIT_OK)
                 else (case create en a s of
                     Inl e \<Rightarrow> (s, Inl e)
                   | Inr (r, s1) \<Rightarrow> execute en s1 r Compile previous)))"

section \<open>Amending the cost stage\<close>

definition AMENDABLE :: stage where
  "AMENDABLE = Cost"

definition BEFORE_COST :: "stage list" where
  "BEFORE_COST = [Compile, Quality, Correctness]"

definition AMENDED_FORMAT :: string where
  "AMENDED_FORMAT = ''qtb-run/4''"

definition amend :: "env \<Rightarrow> (string \<times> requirement) list \<Rightarrow> string \<Rightarrow> session \<Rightarrow> run \<Rightarrow> (session \<times> amendment) res"
where
  "amend en requirements reason s run =
     bindE (refuse_cleaned s) (\<lambda>_.
     bindE (foldE (\<lambda>st _. bindE (read_state s st) (\<lambda>v.
              guardE (status_of v \<in> set FINAL)
                (Precondition (''Only cost can be re-pinned: '' @ stage_name st @ '' is ''
                   @ status_of v @ '', not final'')))) BEFORE_COST ()) (\<lambda>_.
     bindE (read_state s UnitTests) (\<lambda>tests.
     bindE (guardE (tests = None \<or> status_of tests \<in> set FINAL)
              (Precondition (''Only cost can be re-pinned: unit-tests is '' @ status_of tests))) (\<lambda>_.
     bindE (read_state s AMENDABLE) (\<lambda>cost.
     bindE (guardE (cost = None \<or> status_of cost \<notin> set FINAL)
              (Precondition (''cost is already '' @ status_of cost))) (\<lambda>_.
     bindE (guardE (en_manifest en = rn_manifest run)
              (Precondition ''The profile's manifest changed since compile'')) (\<lambda>_.
     bindE (guardE (en_policy_hash en = rn_policy run)
              (Precondition ''The profile's policy changed since compile'')) (\<lambda>_.
       let current = effective run (Some AMENDABLE);
           same = (rn_hashes current = en_identities en
             \<and> list_all (\<lambda>(k, q). rn_requirements current k = Some q) requirements) in
       if same
       then Inl (Precondition ''cost already runs under this harness; nothing to amend'')
       else
         let a = \<lparr>am_index = length (rn_amendments run) + 1, am_stage = AMENDABLE,
                am_reason = reason, am_hashes = en_identities en, am_session = requirements,
                am_cost_status = map_option ss_status cost\<rparr> in
         Inr (s\<lparr>sn_run := Some (run\<lparr>rn_amendments := rn_amendments run @ [a],
                                  rn_format := AMENDED_FORMAT\<rparr>)\<rparr>, a)))))))))"

definition amend_cost ::
    "env \<Rightarrow> (string \<times> requirement) list \<Rightarrow> string \<Rightarrow> session \<Rightarrow> (session \<times> amendment) res" where
  "amend_cost en requirements reason s =
     (if strip reason = [] then Inl (Usage ''An amendment needs a reason'')
      else case sn_run s of
        None \<Rightarrow> Inl (Precondition ''not a session'')
      | Some r \<Rightarrow>
          if en_cleaning_lock en \<or> en_stage_lock en
          then Inl (Precondition ''A stage or decide is running on this session; amend later'')
          else amend en requirements (strip reason) s r)"

section \<open>Cleaning\<close>

text \<open>Deleting a directory removes everything below it; a missing target is no error.\<close>

definition delete_target :: "string list list \<Rightarrow> deletion \<Rightarrow> string list list" where
  "delete_target files d =
     (case d of (path, is_dir, _) \<Rightarrow>
        filter (\<lambda>f. \<not> (if is_dir then take (length path) f = path else f = path)) files)"

definition state_hash :: "(stage_state \<Rightarrow> string) \<Rightarrow> session \<Rightarrow> stage \<Rightarrow> string option" where
  "state_hash h s st = map_option h (sn_state s st)"

definition clean_plan ::
    "(stage_state \<Rightarrow> string) \<Rightarrow> (session \<Rightarrow> deletion list) \<Rightarrow> session \<Rightarrow> clean_state res" where
  "clean_plan h planned s =
     bindE (mapE (\<lambda>st. bindE (read_state s st) (\<lambda>v. Inr (st, v))) STAGE_ORDER) (\<lambda>states.
       let running = filter (\<lambda>(st, v). status_of v \<in> set UNFINISHED) states in
       if running \<noteq> []
       then Inl (Precondition (join_str '', '' (map (stage_name \<circ> fst) running)
              @ '' did not finish; run it again to a final state, then decide, then clean''))
       else case sn_decision s of
         None \<Rightarrow> Inl (Precondition ''Run decide before clean'')
       | Some recorded \<Rightarrow>
           let changed = filter (\<lambda>st. recorded st \<noteq> state_hash h s st) STAGE_ORDER in
           if changed \<noteq> []
           then Inl (Precondition (''Stages changed since the last decide (''
                  @ join_str '', '' (map stage_name changed) @ ''); run decide again''))
           else Inr \<lparr>cl_status = ''cleaning'', cl_planned = planned s, cl_freed = 0\<rparr>)"

definition clean_finish :: "session \<Rightarrow> clean_state \<Rightarrow> session" where
  "clean_finish s c = s\<lparr>sn_files := foldl delete_target (sn_files s) (cl_planned c),
     sn_clean := Some (c\<lparr>cl_status := ''complete'',
       cl_freed := sum_list (map (\<lambda>(_, _, bytes). bytes) (cl_planned c))\<rparr>)\<rparr>"

definition clean_session ::
    "(stage_state \<Rightarrow> string) \<Rightarrow> (session \<Rightarrow> deletion list) \<Rightarrow> session \<Rightarrow> session \<times> nat res" where
  "clean_session h planned s =
     (case sn_clean s of
        Some c \<Rightarrow>
          if cl_status c = ''complete'' then (s, Inr 0)
          else (clean_finish s c, Inr 0)
      | None \<Rightarrow>
          (case clean_plan h planned s of
             Inl e \<Rightarrow> (s, Inl e)
           | Inr c \<Rightarrow> (clean_finish (s\<lparr>sn_clean := Some c\<rparr>) c, Inr 0)))"

definition clean ::
    "env \<Rightarrow> (stage_state \<Rightarrow> string) \<Rightarrow> (session \<Rightarrow> deletion list) \<Rightarrow> session \<Rightarrow> session \<times> nat res"
where
  "clean en h planned s =
     (if sn_run s = None then (s, Inl (Precondition ''not a session''))
      else if en_cleaning_lock en \<or> en_stage_lock en
      then (s, Inl (Precondition ''A stage or decide is running on this session; clean later''))
      else clean_session h planned s)"

text \<open>
  \<open>cleanup_blocker\<close>: \<open>rows\<close> are the decision's stage rows (name, required, status).
\<close>

definition cleanup_blocker ::
    "session \<Rightarrow> (string \<times> bool \<times> string) list \<Rightarrow> string option res" where
  "cleanup_blocker s rows =
     (if clean_status s = Some ''complete'' then Inr (Some ''the session is already clean'')
      else bindE (mapE (\<lambda>st. bindE (read_state s st) (\<lambda>v. Inr (st, v))) STAGE_ORDER) (\<lambda>states.
        let unfinished =
          map (\<lambda>(st, v). stage_name st @ '' ('' @ status_of v @ '')'')
            (filter (\<lambda>(st, v). status_of v \<in> set UNFINISHED) states)
          @ map (\<lambda>(st, _, status). st @ '' ('' @ status @ '')'')
              (filter (\<lambda>(st, required, status). required
                 \<and> status \<notin> set FINAL \<union> {''failed''} \<union> set UNFINISHED) rows) in
        Inr (if unfinished \<noteq> [] then Some (''unfinished stages: '' @ join_str '', '' unfinished)
             else None)))"

text \<open>
  \<open>after_decide\<close> never raises: an exception becomes the status \<open>failed\<close>.
\<close>

definition clean_here ::
    "env \<Rightarrow> (stage_state \<Rightarrow> string) \<Rightarrow> (session \<Rightarrow> deletion list) \<Rightarrow> session
       \<Rightarrow> session \<times> (string \<times> string option) res" where
  "clean_here en h planned s =
     (case clean en h planned s of
        (s', Inr _) \<Rightarrow> (s', Inr (''complete'', None))
      | (s', Inl e) \<Rightarrow>
          if is_precondition e then (s', Inr (''skipped'', Some (exn_message e))) else (s', Inl e))"

definition after_decide ::
    "(session \<Rightarrow> session \<times> (string \<times> string option) res) \<Rightarrow> (string \<times> bool \<times> string) list
       \<Rightarrow> session \<Rightarrow> session \<times> string \<times> string option" where
  "after_decide cleanup rows s =
     (case cleanup_blocker s rows of
        Inl e \<Rightarrow> (s, ''failed'', Some (exn_message e))
      | Inr (Some blocker) \<Rightarrow> (s, ''skipped'', Some blocker)
      | Inr None \<Rightarrow>
          (case cleanup s of
             (s', Inr (status, reason)) \<Rightarrow> (s', status, reason)
           | (s', Inl e) \<Rightarrow> (s', ''failed'', Some (exn_message e))))"

section \<open>Everything that can happen to a session\<close>

definition empty_session :: session where
  "empty_session = \<lparr>sn_run = None, sn_state = (\<lambda>_. None), sn_evidence = (\<lambda>_. None),
     sn_invocations = (\<lambda>_. []), sn_clean = None, sn_obs = [], sn_decision = None, sn_files = []\<rparr>"

text \<open>
  Invocations of the stages in any environment (kills included), amendments, cleaning, a clean
  killed while it deletes, and \<open>decide\<close>, which writes only \<open>decision.json\<close>.
\<close>

inductive session_step :: "session \<Rightarrow> session \<Rightarrow> bool" where
  step_stage: "run_stage en s name = (s', res) \<Longrightarrow> session_step s s'"
| step_compile: "run_compile en a dir names s = (s', res) \<Longrightarrow> session_step s s'"
| step_amend: "amend_cost en requirements reason s = Inr (s', am) \<Longrightarrow> session_step s s'"
| step_clean: "clean en h planned s = (s', res) \<Longrightarrow> session_step s s'"
| step_clean_killed: "sn_run s \<noteq> None \<Longrightarrow> (case sn_clean s of None \<Rightarrow> clean_plan h planned s | Some c \<Rightarrow> Inr c) = Inr c
     \<Longrightarrow> cl_status c = ''cleaning''
     \<Longrightarrow> session_step s (s\<lparr>sn_clean := Some c,
           sn_files := foldl delete_target (sn_files s) (take k (cl_planned c))\<rparr>)"
| step_decide: "session_step s (s\<lparr>sn_decision := Some hashes\<rparr>)"

abbreviation reachable :: "session \<Rightarrow> bool" where
  "reachable \<equiv> session_step\<^sup>*\<^sup>* empty_session"

section \<open>What one invocation changes\<close>

text \<open>
  The outcome of \<open>execute\<close>: nothing but an exception, a skip, or a run of the stage that ends
  in one of the four other statuses.
\<close>

definition stage_outcome :: "string \<Rightarrow> nat res \<Rightarrow> bool" where
  "stage_outcome status res \<longleftrightarrow>
     (status = ''complete'' \<and> res = Inr EXIT_OK) \<or> (status = ''noisy'' \<and> res = Inr EXIT_NOISY)
     \<or> (status = ''failed'' \<and> res = Inr EXIT_ERROR)
     \<or> (status = ''running'' \<and> res = Inl (OtherException ''killed''))"

definition only_stage :: "session \<Rightarrow> stage \<Rightarrow> stage_state \<Rightarrow> session \<Rightarrow> bool" where
  "only_stage s st v s' \<longleftrightarrow> sn_state s' = (sn_state s)(st := Some v)
     \<and> ss_format v = Some STATE_FORMAT
     \<and> (\<forall>t. t \<noteq> st \<longrightarrow> sn_evidence s' t = sn_evidence s t) \<and> sn_clean s' = sn_clean s
     \<and> sn_decision s' = sn_decision s"

lemma read_state_val: "read_state s st = Inr v \<Longrightarrow> v = sn_state s st"
  by (auto simp: read_state_def split: option.splits if_splits)

lemma run_to_end_effect:
  assumes "run_to_end en s st previous = (s', res)"
  shows "\<exists>v. only_stage s st v s' \<and> stage_outcome (ss_status v) res"
proof -
  define recs where "recs = opened_evidence (stage_name st) (sn_evidence s st)"
  define out where "out = run_body en (started en s st previous recs) st recs"
  define s2 where "s2 = after_body st (started en s st previous recs) out"
  define n where "n = attempts_of previous + 1"
  have frame: "sn_state s2 = (sn_state s)(st := Some ((invoked en (new_state ''running'' n))\<lparr>ss_format := Some STATE_FORMAT\<rparr>))"
    "\<forall>t. t \<noteq> st \<longrightarrow> sn_evidence s2 t = sn_evidence s t" "sn_clean s2 = sn_clean s"
    "sn_decision s2 = sn_decision s"
    by (auto simp: s2_def after_body_def started_def write_evidence_def write_state_def n_def)
  have eq: "(case bo_result out of
        Killed \<Rightarrow> (write_evidence st (bo_records out) s2, Inl (OtherException ''killed''))
      | Finished f \<Rightarrow> close_stage en st n (bo_records out) s2 (Inr f)
      | Raised e \<Rightarrow> close_stage en st n (bo_records out) s2 (Inl e)) = (s', res)"
    using assms unfolding run_to_end_def recs_def [symmetric] Let_def out_def [symmetric]
      s2_def [symmetric] n_def [symmetric] .
  have closed: "\<exists>v. only_stage s st v s' \<and> stage_outcome (ss_status v) res"
    if "close_stage en st n (bo_records out) s2 result = (s', res)" for result
  proof -
    obtain rs v code where f: "finish st (invoked en (new_state ''running'' n)) (bo_records out) result = (rs, v, code)"
      by (cases "finish st (invoked en (new_state ''running'' n)) (bo_records out) result") auto
    have s': "s' = record_invocation st v code (write_state st v (write_evidence st rs s2))"
      and res: "res = Inr code" using that by (simp_all add: close_stage_def f)
    have "only_stage s st (v\<lparr>ss_format := Some STATE_FORMAT\<rparr>) s'"
      unfolding s' only_stage_def using frame
      by (auto simp: record_invocation_def write_state_def write_evidence_def)
    moreover have "stage_outcome (ss_status v) res"
      using f unfolding res by (auto simp: finish_def stage_outcome_def split: sum.splits if_splits)
    ultimately show ?thesis by (intro exI[of _ "v\<lparr>ss_format := Some STATE_FORMAT\<rparr>"]) simp
  qed
  show ?thesis
  proof (cases "bo_result out")
    case Killed
    then have "s' = write_evidence st (bo_records out) s2" "res = Inl (OtherException ''killed'')"
      using eq by simp_all
    with frame show ?thesis
      by (intro exI[of _ "(invoked en (new_state ''running'' n))\<lparr>ss_format := Some STATE_FORMAT\<rparr>"])
         (auto simp: only_stage_def write_evidence_def stage_outcome_def new_state_def invoked_def)
  qed (use eq closed in auto)
qed

lemma execute_effect:
  assumes "execute en s r st previous = (s', res)"
  shows "(s' = s \<and> (\<exists>e. res = Inl e))
    \<or> (\<exists>v reason. only_stage s st v s' \<and> ss_status v = ''skipped'' \<and> res = Inr EXIT_OK
         \<and> sn_evidence s' st = sn_evidence s st \<and> sn_obs s' = sn_obs s
         \<and> preconditions en s r st = Inr (Some reason))
    \<or> (\<exists>v. only_stage s st v s' \<and> stage_outcome (ss_status v) res
         \<and> preconditions en s r st = Inr None)"
proof (cases "preconditions en s r st")
  case (Inl e)
  with assms have "s' = s" "res = Inl e" by (simp_all add: execute_def)
  then show ?thesis by simp
next
  case (Inr reason)
  show ?thesis
  proof (cases reason)
    case (Some m)
    with Inr assms show ?thesis
      by (auto simp: execute_def skip_def only_stage_def write_state_def record_invocation_def
          new_state_def invoked_def Let_def)
  next
    case None
    with Inr assms consider e where "s' = s" "res = Inl e"
      | "run_to_end en s st previous = (s', res)"
      by (auto simp: execute_def split: sum.splits if_splits)
    then show ?thesis
    proof cases
      case 2
      from run_to_end_effect[OF this] Inr None show ?thesis by auto
    qed simp
  qed
qed

lemma run_stage_effect:
  assumes "run_stage en s name = (s', res)"
  shows "s' = s \<or> (\<exists>st r previous. stage_of_name name = Some st \<and> st \<noteq> Compile
    \<and> refuse_cleaned s = Inr () \<and> read_state s st = Inr previous
    \<and> status_of previous \<notin> set FINAL \<and> execute en s r st previous = (s', res))"
proof (cases "stage_of_name name")
  case (Some st)
  show ?thesis
  proof (cases "st = Compile \<or> sn_run s = None \<or> en_cleaning_lock en \<or> en_stage_lock en")
    case True
    with Some assms show ?thesis by (auto simp: run_stage_def split: stage.splits option.splits if_splits)
  next
    case False
    then obtain r0 where r0: "sn_run s = Some r0" by auto
    have eq: "run_stage en s name = (case refuse_cleaned s of Inl e \<Rightarrow> (s, Inl e)
              | Inr _ \<Rightarrow> (case read_state s st of Inl e \<Rightarrow> (s, Inl e)
               | Inr previous \<Rightarrow>
                  if status_of previous \<in> set FINAL then (s, Inr EXIT_OK)
                  else let r = effective r0 (Some st) in
                    case check_harness en r of Inl e \<Rightarrow> (s, Inl e)
                    | Inr _ \<Rightarrow> execute en s r st previous))"
      using Some False r0 by (cases st; hypsubst_thin; simp add: run_stage_def)
    show ?thesis
      using assms False Some unfolding eq
      by (auto simp: Let_def split: sum.splits if_splits)
  qed
qed (use assms in \<open>simp add: run_stage_def\<close>)

lemma run_compile_effect:
  assumes "run_compile en a dir names s = (s', res)"
  shows "s' = s \<or> (\<exists>s1 r previous. refuse_cleaned s = Inr () \<and> read_state s Compile = Inr previous
    \<and> status_of previous \<notin> set FINAL \<and> execute en s1 r Compile previous = (s', res)
    \<and> (s1 = s \<or> s1 = s\<lparr>sn_run := Some r\<rparr>))"
proof (cases "\<exists>e. check_session_directory dir (sn_run s \<noteq> None) False = Inl e")
  case True
  with assms show ?thesis by (auto simp: run_compile_def)
next
  case False
  then have ok: "check_session_directory dir (sn_run s \<noteq> None) False = Inr ()"
    by (cases "check_session_directory dir (sn_run s \<noteq> None) False") auto
  show ?thesis
  proof (cases "en_cleaning_lock en \<or> en_stage_lock en")
    case True
    with assms ok show ?thesis by (auto simp: run_compile_def split: if_splits)
  next
    case False
    let ?pre = "bindE (check_session_directory (Dir names) (sn_run s \<noteq> None) True) (\<lambda>_.
                  bindE (refuse_cleaned s) (\<lambda>_.
                  bindE (read_state s Compile) (\<lambda>previous.
                  bindE (case sn_run s of
                           None \<Rightarrow> Inr ()
                         | Some r0 \<Rightarrow>
                             let r = effective r0 None in
                             guardE (other_inputs a r = []) (Usage (''is a session for other inputs (''
                               @ join_str '', '' (other_inputs a r) @ '' differ)'')))
                    (\<lambda>_. Inr previous))))"
    show ?thesis
    proof (cases ?pre)
      case (Inl e)
      with assms ok False show ?thesis by (simp add: run_compile_def)
    next
      case (Inr previous)
      then have p: "refuse_cleaned s = Inr ()" "read_state s Compile = Inr previous"
        unfolding bindE_Inr_iff by auto
      have eq: "(if status_of previous \<in> set FINAL then (s, Inr EXIT_OK)
                 else (case create en a s of
                     Inl e \<Rightarrow> (s, Inl e)
                   | Inr (r, s1) \<Rightarrow> execute en s1 r Compile previous)) = (s', res)"
        using assms ok False Inr by (simp add: run_compile_def)
      show ?thesis
      proof (cases "status_of previous \<in> set FINAL \<or> (\<exists>e. create en a s = Inl e)")
        case True
        with eq show ?thesis by (auto split: if_splits)
      next
        case False
        then obtain r s1 where c: "create en a s = Inr (r, s1)" by (cases "create en a s") auto
        then have "s1 = s \<or> s1 = s\<lparr>sn_run := Some r\<rparr>"
          by (auto simp: create_def bindE_Inr_iff split: option.splits if_splits)
        with False p c eq show ?thesis by auto
      qed
    qed
  qed
qed

lemma amend_effect:
  assumes "amend_cost en requirements reason s = Inr (s', am)"
  shows "\<exists>r. sn_run s = Some r \<and> refuse_cleaned s = Inr ()
    \<and> s' = s\<lparr>sn_run := Some (r\<lparr>rn_amendments := rn_amendments r @ [am],
          rn_format := AMENDED_FORMAT\<rparr>)\<rparr>
    \<and> am_stage am = Cost \<and> (\<forall>v. sn_state s Cost = Some v \<longrightarrow> ss_status v \<notin> set FINAL)"
proof -
  obtain r where r: "sn_run s = Some r" "amend en requirements (strip reason) s r = Inr (s', am)"
    using assms by (auto simp: amend_cost_def split: option.splits if_splits)
  obtain cost where c: "refuse_cleaned s = Inr ()" "read_state s AMENDABLE = Inr cost"
    "cost = None \<or> status_of cost \<notin> set FINAL"
    and out: "s' = s\<lparr>sn_run := Some (r\<lparr>rn_amendments := rn_amendments r @ [am],
          rn_format := AMENDED_FORMAT\<rparr>)\<rparr>" "am_stage am = AMENDABLE"
    using r(2) unfolding amend_def
    by (auto simp: bindE_Inr_iff guardE_Inr_iff Let_def split: if_splits)
  have "ss_status v \<notin> set FINAL" if "sn_state s Cost = Some v" for v
    using read_state_val[OF c(2)] c(3) that by (auto simp: AMENDABLE_def status_of_def)
  with r(1) c(1) out show ?thesis by (auto simp: AMENDABLE_def)
qed

lemma clean_effect:
  assumes "clean en h planned s = (s', res)"
  shows "s' = s \<or> (\<exists>c. (case sn_clean s of None \<Rightarrow> clean_plan h planned s | Some c \<Rightarrow> Inr c) = Inr c
    \<and> s' = clean_finish (s\<lparr>sn_clean := Some c\<rparr>) c)"
proof (cases "sn_clean s")
  case None
  with assms show ?thesis
    by (cases "clean_plan h planned s")
       (auto simp: clean_def clean_session_def clean_finish_def split: if_splits)
next
  case (Some c)
  have "clean_finish s c = clean_finish (s\<lparr>sn_clean := Some c\<rparr>) c" by (simp add: clean_finish_def)
  with Some assms show ?thesis
    by (auto simp: clean_def clean_session_def split: if_splits)
qed

text \<open>
  The effect of one step on the stages: no stage changes, or one stage that was not final and
  whose session was not cleaned runs, in any environment.
\<close>

definition stage_ran :: "session \<Rightarrow> session \<Rightarrow> stage \<Rightarrow> stage_state \<Rightarrow> bool" where
  "stage_ran s s' st v \<longleftrightarrow> only_stage s st v s' \<and> status_of (sn_state s st) \<notin> set FINAL
     \<and> refuse_cleaned s = Inr ()
     \<and> (\<exists>en s1 r. sn_state s1 = sn_state s \<and>
          ((ss_status v = ''skipped'' \<and> sn_evidence s' st = sn_evidence s st
             \<and> (\<exists>reason. preconditions en s1 r st = Inr (Some reason)))
           \<or> (ss_status v \<in> {''complete'', ''noisy'', ''failed'', ''running''}
             \<and> preconditions en s1 r st = Inr None)))"

lemma execute_ran:
  assumes "execute en s1 r st previous = (s', res)" and "previous = sn_state s st"
    and "status_of previous \<notin> set FINAL" and "refuse_cleaned s = Inr ()"
    and "s1 = s \<or> s1 = s\<lparr>sn_run := Some r\<rparr>"
  shows "s' = s1 \<or> (\<exists>v. stage_ran s s' st v)"
proof -
  have same: "only_stage s1 st v s' = only_stage s st v s'" for v
    using assms(5) by (auto simp: only_stage_def)
  have "sn_state s1 = sn_state s" "sn_evidence s1 = sn_evidence s" using assms(5) by auto
  from execute_effect[OF assms(1)] consider "s' = s1"
    | v reason where "only_stage s st v s'" "ss_status v = ''skipped''"
        "sn_evidence s' st = sn_evidence s1 st" "preconditions en s1 r st = Inr (Some reason)"
    | v where "only_stage s st v s'" "stage_outcome (ss_status v) res"
        "preconditions en s1 r st = Inr None"
    unfolding same by blast
  then show ?thesis
  proof cases
    case 2
    have "stage_ran s s' st v"
      unfolding stage_ran_def using 2 assms(2-4) \<open>sn_state s1 = sn_state s\<close>
        \<open>sn_evidence s1 = sn_evidence s\<close> by auto
    then show ?thesis by blast
  next
    case 3
    then have "ss_status v \<in> {''complete'', ''noisy'', ''failed'', ''running''}"
      by (auto simp: stage_outcome_def)
    then have "stage_ran s s' st v"
      unfolding stage_ran_def using 3 assms(2-4) \<open>sn_state s1 = sn_state s\<close> by auto
    then show ?thesis by blast
  qed simp
qed

definition untouched :: "session \<Rightarrow> session \<Rightarrow> bool" where
  "untouched s s' \<longleftrightarrow> sn_state s' = sn_state s \<and> sn_evidence s' = sn_evidence s
     \<and> sn_obs s' = sn_obs s"

lemma step_effect:
  assumes "session_step s s'"
  shows "untouched s s' \<or> (\<exists>st v. stage_ran s s' st v)"
  using assms
proof (cases rule: session_step.cases)
  case (step_stage en name res)
  from run_stage_effect[OF this] show ?thesis
  proof
    assume "\<exists>st r previous. stage_of_name name = Some st \<and> st \<noteq> Compile
      \<and> refuse_cleaned s = Inr () \<and> read_state s st = Inr previous
      \<and> status_of previous \<notin> set FINAL \<and> execute en s r st previous = (s', res)"
    then obtain st r previous where "refuse_cleaned s = Inr ()" "read_state s st = Inr previous"
      "status_of previous \<notin> set FINAL" "execute en s r st previous = (s', res)" by blast
    from execute_ran[OF this(4) read_state_val[OF this(2)] this(3,1)] show ?thesis
      by (auto simp: untouched_def)
  qed (simp add: untouched_def)
next
  case (step_compile en a dir names res)
  from run_compile_effect[OF this] show ?thesis
  proof
    assume "\<exists>s1 r previous. refuse_cleaned s = Inr () \<and> read_state s Compile = Inr previous
      \<and> status_of previous \<notin> set FINAL \<and> execute en s1 r Compile previous = (s', res)
      \<and> (s1 = s \<or> s1 = s\<lparr>sn_run := Some r\<rparr>)"
    then obtain s1 r previous where c: "refuse_cleaned s = Inr ()"
      "read_state s Compile = Inr previous" "status_of previous \<notin> set FINAL"
      "execute en s1 r Compile previous = (s', res)" "s1 = s \<or> s1 = s\<lparr>sn_run := Some r\<rparr>" by blast
    from execute_ran[OF c(4) read_state_val[OF c(2)] c(3,1,5)] c(5) show ?thesis
      by (auto simp: untouched_def)
  qed (simp add: untouched_def)
next
  case (step_amend en requirements reason am)
  from amend_effect[OF this] show ?thesis by (auto simp: untouched_def)
next
  case (step_clean en h planned res)
  from clean_effect[OF this] show ?thesis by (auto simp: untouched_def clean_finish_def)
qed (auto simp: untouched_def)

section \<open>Commit markers are written once\<close>

definition final_entry :: "session \<Rightarrow> stage \<Rightarrow> (stage_state \<times> crec list option) option" where
  "final_entry s st = (case sn_state s st of
     None \<Rightarrow> None
   | Some v \<Rightarrow> if ss_status v \<in> set FINAL then Some (v, sn_evidence s st) else None)"

lemma stage_ran_keeps:
  "stage_ran s s' st v \<Longrightarrow> final_entry s k = Some e \<Longrightarrow> final_entry s' k = Some e"
  by (cases "k = st")
     (auto simp: stage_ran_def only_stage_def final_entry_def status_of_def split: option.splits if_splits)

lemma untouched_final: "untouched s s' \<Longrightarrow> final_entry s' = final_entry s"
  unfolding untouched_def final_entry_def by (intro ext) (simp split: option.split)

interpretation final_stages: write_once session_step final_entry
proof unfold_locales
  fix s s' k e
  assume "session_step s s'" "final_entry s k = Some e"
  from step_effect[OF this(1)] show "final_entry s' k = Some e"
  proof
    assume "untouched s s'"
    with \<open>final_entry s k = Some e\<close> show ?thesis by (simp add: untouched_final)
  qed (use stage_ran_keeps \<open>final_entry s k = Some e\<close> in blast)
qed

section \<open>Stages run in order\<close>

lemma prerequisites_final:
  assumes "check_prerequisites s st = Inr u" and "p \<in> set (PREREQUISITES st)"
  shows "status_of (sn_state s p) \<in> set FINAL"
proof -
  let ?f = "\<lambda>needed (_::unit). bindE (read_state s needed) (\<lambda>v.
        guardE (status_of v \<in> set FINAL)
          (Precondition (stage_name st @ '' needs '' @ stage_name needed
             @ '' to be complete (it is '' @ status_of v @ '')'')))"
  have step: "foldE ?f ps () = Inr u \<Longrightarrow> p \<in> set ps \<Longrightarrow> status_of (sn_state s p) \<in> set FINAL" for ps
    by (induction ps) (auto simp: bindE_Inr_iff guardE_Inr_iff dest: read_state_val)
  show ?thesis using assms unfolding check_prerequisites_def by (rule step)
qed

lemma preconditions_Inr:
  assumes "preconditions en s r st = Inr x"
  shows "\<forall>p\<in>set (PREREQUISITES st). status_of (sn_state s p) \<in> set FINAL"
    and "x = Some reason \<Longrightarrow> st \<in> set GATED \<and> skip_reason en s r st = Inr (Some reason)"
    and "x = None \<Longrightarrow> st \<in> set GATED \<Longrightarrow>
      skip_reason en s r st = Inr None \<or> skip_reason en s r st = Inr (Some [])"
proof -
  obtain u w why where p: "check_prerequisites s st = Inr u" "check_store en r st = Inr w"
    "(if st \<in> set GATED then skip_reason en s r st else Inr None) = Inr why"
    and x: "(case why of Some (c # m) \<Rightarrow> Inr (Some (c # m))
       | _ \<Rightarrow> bindE (check_hosts en r st) (\<lambda>_.
         bindE (if st = Cost then check_cost_measurement en r else Inr ()) (\<lambda>_. Inr None))) = Inr x"
    using assms unfolding preconditions_def bindE_Inr_iff by blast
  show "\<forall>p\<in>set (PREREQUISITES st). status_of (sn_state s p) \<in> set FINAL"
    using prerequisites_final[OF p(1)] by blast
  show "st \<in> set GATED \<and> skip_reason en s r st = Inr (Some reason)" if "x = Some reason"
    using x p(3) that by (auto simp: bindE_Inr_iff split: option.splits list.splits if_splits)
  show "skip_reason en s r st = Inr None \<or> skip_reason en s r st = Inr (Some [])"
    if "x = None" "st \<in> set GATED"
    using x p(3) that by (auto split: option.splits list.splits)
qed

definition gate_closed :: "session \<Rightarrow> bool" where
  "gate_closed s \<longleftrightarrow> (\<exists>q. sn_state s Quality = Some q \<and> ss_status q = ''complete''
     \<and> ss_gate q = Some ''closed'')"

definition gate_open :: "session \<Rightarrow> bool" where
  "gate_open s \<longleftrightarrow> (\<exists>q. sn_state s Quality = Some q \<and> ss_status q = ''complete''
     \<and> ss_gate q \<noteq> Some ''closed'')"

lemma skip_reason_gate:
  assumes "skip_reason en s r st = Inr x" and "sn_state s Quality = Some q"
    and "ss_status q = ''complete''"
  shows "x = None \<Longrightarrow> gate_open s" and "x = Some m \<Longrightarrow> st \<noteq> Cost \<Longrightarrow> gate_closed s"
    and "x \<noteq> Some []"
proof -
  have r: "read_state s Quality = Inr (Some q)"
    using assms(1,2) by (auto simp: skip_reason_def bindE_Inr_iff dest: read_state_val)
  then show "x = None \<Longrightarrow> gate_open s"
    using assms by (auto simp: skip_reason_def gate_open_def)
  show "x = Some m \<Longrightarrow> st \<noteq> Cost \<Longrightarrow> gate_closed s"
    using assms r by (auto simp: skip_reason_def gate_closed_def split: if_splits)
  show "x \<noteq> Some []"
    using assms r by (auto simp: skip_reason_def bindE_Inr_iff split: if_splits option.splits)
qed

text \<open>
  The invariant: a started stage has final prerequisites, only gated stages are skipped (other
  than the cost stage, only by a closed gate), and a gated stage that was not skipped has run
  behind an open gate.
\<close>

definition well_ordered :: "session \<Rightarrow> bool" where
  "well_ordered s \<longleftrightarrow>
     (\<forall>st v. sn_state s st = Some v \<longrightarrow>
        (\<forall>p\<in>set (PREREQUISITES st). status_of (sn_state s p) \<in> set FINAL)
      \<and> (ss_status v = ''skipped'' \<longrightarrow> st \<in> set GATED \<and> (st \<noteq> Cost \<longrightarrow> gate_closed s))
      \<and> (ss_status v \<noteq> ''skipped'' \<longrightarrow> st \<in> set GATED \<longrightarrow> gate_open s))"

lemma final_status: "status_of x \<in> set FINAL \<Longrightarrow>
    \<exists>v. x = Some v \<and> (ss_status v = ''complete'' \<or> ss_status v = ''skipped'')"
  by (cases x) (auto simp: status_of_def FINAL_def)

lemma well_ordered_quality:
  assumes "well_ordered s" and "\<forall>p\<in>set (PREREQUISITES st). status_of (sn_state s p) \<in> set FINAL"
    and "st \<in> set GATED"
  shows "\<exists>q. sn_state s Quality = Some q \<and> ss_status q = ''complete''"
proof -
  have "status_of (sn_state s Quality) \<in> set FINAL"
  proof (cases "st = Cost")
    case True
    with assms(2) have "status_of (sn_state s Correctness) \<in> set FINAL" by simp
    then obtain v where "sn_state s Correctness = Some v" using final_status by blast
    with assms(1) have "\<forall>p\<in>set (PREREQUISITES Correctness). status_of (sn_state s p) \<in> set FINAL"
      unfolding well_ordered_def by blast
    then show ?thesis by simp
  next
    case False
    with assms(2,3) show ?thesis by (cases st) (auto simp: GATED_def)
  qed
  then obtain q where q: "sn_state s Quality = Some q"
    "ss_status q = ''complete'' \<or> ss_status q = ''skipped''" using final_status by blast
  have "Quality \<notin> set GATED" by (simp add: GATED_def)
  with assms(1) q have "ss_status q \<noteq> ''skipped''" unfolding well_ordered_def by blast
  with q show ?thesis by blast
qed

lemma stage_ran_well_ordered:
  assumes ran: "stage_ran s s' st v" and wo: "well_ordered s"
  shows "well_ordered s'"
proof -
  obtain en s1 r where s1: "sn_state s1 = sn_state s"
    and how: "(ss_status v = ''skipped'' \<and> (\<exists>reason. preconditions en s1 r st = Inr (Some reason)))
       \<or> (ss_status v \<noteq> ''skipped'' \<and> preconditions en s1 r st = Inr None)"
    using ran unfolding stage_ran_def by auto
  have new: "sn_state s' = (sn_state s)(st := Some v)" and nf: "status_of (sn_state s st) \<notin> set FINAL"
    using ran by (simp_all add: stage_ran_def only_stage_def)
  obtain x where x: "preconditions en s1 r st = Inr x" using how by blast
  have pre: "\<forall>p\<in>set (PREREQUISITES st). status_of (sn_state s p) \<in> set FINAL"
    using preconditions_Inr(1)[OF x] by (simp add: s1)
  have kept: "status_of (sn_state s' p) \<in> set FINAL" if "status_of (sn_state s p) \<in> set FINAL" for p
    using that nf by (auto simp: new)
  have gates: "gate_closed s \<Longrightarrow> gate_closed s'" "gate_open s \<Longrightarrow> gate_open s'"
    using nf by (auto simp: gate_closed_def gate_open_def new status_of_def FINAL_def)
  have g1: "gate_closed s1 = gate_closed s" "gate_open s1 = gate_open s"
    by (simp_all add: gate_closed_def gate_open_def s1)
  have this_stage: "(ss_status v = ''skipped'' \<longrightarrow> st \<in> set GATED \<and> (st \<noteq> Cost \<longrightarrow> gate_closed s))
      \<and> (ss_status v \<noteq> ''skipped'' \<longrightarrow> st \<in> set GATED \<longrightarrow> gate_open s)"
  proof (cases "st \<in> set GATED")
    case True
    obtain q where q: "sn_state s1 Quality = Some q" "ss_status q = ''complete''"
      using well_ordered_quality[OF wo pre True] s1 by auto
    from how show ?thesis
    proof
      assume "ss_status v = ''skipped'' \<and> (\<exists>reason. preconditions en s1 r st = Inr (Some reason))"
      then obtain reason where "ss_status v = ''skipped''" "skip_reason en s1 r st = Inr (Some reason)"
        using preconditions_Inr(2) by blast
      with skip_reason_gate(2)[OF _ q] True g1 show ?thesis by blast
    next
      assume n: "ss_status v \<noteq> ''skipped'' \<and> preconditions en s1 r st = Inr None"
      then have "skip_reason en s1 r st = Inr None \<or> skip_reason en s1 r st = Inr (Some [])"
        using preconditions_Inr(3) True by blast
      with skip_reason_gate(1,3)[OF _ q] n g1 show ?thesis by blast
    qed
  next
    case False
    with how preconditions_Inr(2) show ?thesis by blast
  qed
  show ?thesis
    unfolding well_ordered_def
  proof (intro allI impI)
    fix t w assume t: "sn_state s' t = Some w"
    show "(\<forall>p\<in>set (PREREQUISITES t). status_of (sn_state s' p) \<in> set FINAL)
      \<and> (ss_status w = ''skipped'' \<longrightarrow> t \<in> set GATED \<and> (t \<noteq> Cost \<longrightarrow> gate_closed s'))
      \<and> (ss_status w \<noteq> ''skipped'' \<longrightarrow> t \<in> set GATED \<longrightarrow> gate_open s')"
    proof (cases "t = st")
      case True
      with t new have "w = v" by simp
      with True pre this_stage kept gates show ?thesis by blast
    next
      case False
      with t new have "sn_state s t = Some w" by simp
      with wo kept gates show ?thesis unfolding well_ordered_def by blast
    qed
  qed
qed

lemma untouched_well_ordered: "untouched s s' \<Longrightarrow> well_ordered s' = well_ordered s"
  by (simp add: untouched_def well_ordered_def gate_closed_def gate_open_def)

lemma reachable_well_ordered: "reachable s \<Longrightarrow> well_ordered s"
proof (induction rule: rtranclp_induct)
  case base
  show ?case by (simp add: well_ordered_def empty_session_def)
next
  case (step s s')
  from step_effect[OF step(2)] step(3) show ?case
    using untouched_well_ordered stage_ran_well_ordered by blast
qed

section \<open>Cleaned sessions\<close>

definition cleaned :: "session \<Rightarrow> bool" where
  "cleaned s \<longleftrightarrow> clean_status s = Some ''cleaning'' \<or> clean_status s = Some ''complete''"

lemma cleaned_refused: "cleaned s \<Longrightarrow> refuse_cleaned s \<noteq> Inr ()"
  by (auto simp: cleaned_def refuse_cleaned_def)

lemma clean_plan_ok:
  assumes "clean_plan h planned s = Inr c"
  shows "cl_status c = ''cleaning''" and "status_of (sn_state s st) \<notin> set UNFINISHED"
    and "cl_planned c = planned s"
proof -
  obtain states where m: "mapE (\<lambda>st. bindE (read_state s st) (\<lambda>v. Inr (st, v))) STAGE_ORDER = Inr states"
    and r: "filter (\<lambda>(st, v). status_of v \<in> set UNFINISHED) states = []"
    and c: "c = \<lparr>cl_status = ''cleaning'', cl_planned = planned s, cl_freed = 0\<rparr>"
    using assms unfolding clean_plan_def bindE_Inr_iff Let_def
    by (auto split: if_splits option.splits)
  show "cl_status c = ''cleaning''" "cl_planned c = planned s" using c by simp_all
  have mem: "st \<in> set STAGE_ORDER" by (cases st) (simp_all add: STAGE_ORDER_def)
  have l: "list_all2 (\<lambda>st y. bindE (read_state s st) (\<lambda>v. Inr (st, v)) = Inr y) STAGE_ORDER states"
    using m by (simp add: mapE_Inr_iff)
  from list_all2_left[OF l mem] obtain y where "y \<in> set states"
    "bindE (read_state s st) (\<lambda>v. Inr (st, v)) = Inr y" by blast
  then have "(st, sn_state s st) \<in> set states" by (auto simp: bindE_Inr_iff dest!: read_state_val)
  with r show "status_of (sn_state s st) \<notin> set UNFINISHED" by (auto simp: filter_empty_conv)
qed

lemma step_cleaned:
  assumes "session_step s s'" and "cleaned s"
  shows "untouched s s' \<and> cleaned s'"
proof -
  from step_effect[OF assms(1)] cleaned_refused[OF assms(2)] have u: "untouched s s'"
    by (auto simp: stage_ran_def)
  have "cleaned s'"
    using assms(1)
  proof (cases rule: session_step.cases)
    case (step_stage en name res)
    from run_stage_effect[OF this] cleaned_refused[OF assms(2)] have "s' = s" by auto
    with assms(2) show ?thesis by simp
  next
    case (step_compile en a dir names res)
    from run_compile_effect[OF this] cleaned_refused[OF assms(2)] have "s' = s" by auto
    with assms(2) show ?thesis by simp
  next
    case (step_amend en requirements reason am)
    from amend_effect[OF this] cleaned_refused[OF assms(2)] show ?thesis by auto
  next
    case (step_clean en h planned res)
    from clean_effect[OF this] assms(2) show ?thesis
      by (auto simp: cleaned_def clean_status_def clean_finish_def)
  qed (use assms(2) in \<open>auto simp: cleaned_def clean_status_def\<close>)
  with u show ?thesis by simp
qed

lemma execute_clean:
  assumes "execute en s r st previous = (s', res)"
  shows "sn_clean s' = sn_clean s"
  using execute_effect[OF assms] by (auto simp: only_stage_def)

definition clean_ok :: "session \<Rightarrow> bool" where
  "clean_ok s \<longleftrightarrow> sn_clean s = None
     \<or> (cleaned s \<and> (\<forall>st. status_of (sn_state s st) \<notin> set UNFINISHED))"

lemma clean_case:
  assumes "(case sn_clean s of None \<Rightarrow> clean_plan h planned s | Some c \<Rightarrow> Inr c) = Inr c"
    and "clean_ok s"
  shows "\<forall>st. status_of (sn_state s st) \<notin> set UNFINISHED"
  using assms clean_plan_ok(2) by (cases "sn_clean s") (auto simp: clean_ok_def)

lemma step_clean_ok:
  assumes "session_step s s'" and "clean_ok s"
  shows "clean_ok s'"
proof (cases "sn_clean s")
  case (Some c)
  with assms(2) have "cleaned s" by (simp add: clean_ok_def)
  from step_cleaned[OF assms(1) this] assms(2) Some show ?thesis
    by (auto simp: clean_ok_def untouched_def)
next
  case None
  show ?thesis
    using assms(1)
  proof (cases rule: session_step.cases)
    case (step_clean en h planned res)
    from clean_effect[OF this] show ?thesis
    proof
      assume "\<exists>c. (case sn_clean s of None \<Rightarrow> clean_plan h planned s | Some c \<Rightarrow> Inr c) = Inr c
        \<and> s' = clean_finish (s\<lparr>sn_clean := Some c\<rparr>) c"
      then obtain c where "(case sn_clean s of None \<Rightarrow> clean_plan h planned s | Some c \<Rightarrow> Inr c) = Inr c"
        "s' = clean_finish (s\<lparr>sn_clean := Some c\<rparr>) c" by blast
      with clean_case[OF this(1) assms(2)] show ?thesis
        by (simp add: clean_ok_def cleaned_def clean_status_def clean_finish_def)
    qed (use assms(2) in simp)
  next
    case (step_clean_killed h planned c k)
    with clean_case[OF step_clean_killed(3) assms(2)] show ?thesis
      by (simp add: clean_ok_def cleaned_def clean_status_def)
  next
    case (step_stage en name res)
    from run_stage_effect[OF this] execute_clean None assms(2) show ?thesis
      unfolding clean_ok_def by metis
  next
    case (step_compile en a dir names res)
    from run_compile_effect[OF this] show ?thesis
    proof
      assume "\<exists>s1 r previous. refuse_cleaned s = Inr () \<and> read_state s Compile = Inr previous
        \<and> status_of previous \<notin> set FINAL \<and> execute en s1 r Compile previous = (s', res)
        \<and> (s1 = s \<or> s1 = s\<lparr>sn_run := Some r\<rparr>)"
      then obtain s1 r previous where x: "execute en s1 r Compile previous = (s', res)"
        and "s1 = s \<or> s1 = s\<lparr>sn_run := Some r\<rparr>" by blast
      with None have "sn_clean s1 = None" by auto
      with execute_clean[OF x] show ?thesis by (simp add: clean_ok_def)
    qed (use assms(2) in simp)
  next
    case (step_amend en requirements reason am)
    from amend_effect[OF this] None show ?thesis by (auto simp: clean_ok_def)
  next
    case (step_decide hashes)
    with assms(2) show ?thesis by (simp add: clean_ok_def cleaned_def clean_status_def)
  qed
qed

lemma reachable_clean_ok: "reachable s \<Longrightarrow> clean_ok s"
proof (induction rule: rtranclp_induct)
  case base
  show ?case by (simp add: clean_ok_def empty_session_def)
qed (rule step_clean_ok)

section \<open>Properties\<close>

text \<open>
  C11. A final stage is never run again: whatever happens to the session afterwards (any stage in
  any environment, kills, amendments, cleaning), the state and evidence of a stage that is
  \<open>complete\<close> or \<open>skipped\<close> stay as they were committed.
\<close>

theorem final_stage_frozen:
  assumes "session_step\<^sup>*\<^sup>* s s'" and "sn_state s st = Some v" and "ss_status v \<in> set FINAL"
  shows "sn_state s' st = Some v \<and> sn_evidence s' st = sn_evidence s st"
proof -
  have "final_entry s st = Some (v, sn_evidence s st)" using assms(2,3) by (simp add: final_entry_def)
  from final_stages.entry_stable[OF assms(1) this] show ?thesis
    by (auto simp: final_entry_def split: option.splits if_splits)
qed

text \<open>
  C10. Stages run in order and behind the gate: in every reachable session a started stage has
  final prerequisites, and a correctness, unit-test or cost stage that was not skipped had a
  complete quality stage whose gate is not \<open>closed\<close>; a measured cost stage moreover had a
  complete correctness stage.
\<close>

theorem stages_in_order:
  assumes "reachable s" and "sn_state s st = Some v"
  shows "(\<forall>p\<in>set (PREREQUISITES st). status_of (sn_state s p) \<in> set FINAL)
    \<and> (st \<in> set GATED \<and> ss_status v \<noteq> ''skipped'' \<longrightarrow>
        (\<exists>q. sn_state s Quality = Some q \<and> ss_status q = ''complete''
           \<and> ss_gate q \<noteq> Some ''closed''))
    \<and> (st = Cost \<and> ss_status v \<noteq> ''skipped'' \<longrightarrow> status_of (sn_state s Correctness) = ''complete'')"
proof -
  have wo: "well_ordered s" by (rule reachable_well_ordered[OF assms(1)])
  then have pre: "\<forall>p\<in>set (PREREQUISITES st). status_of (sn_state s p) \<in> set FINAL"
    using assms(2) unfolding well_ordered_def by blast
  have gate: "gate_open s" if "st \<in> set GATED" "ss_status v \<noteq> ''skipped''"
    using wo assms(2) that unfolding well_ordered_def by blast
  have cost: "status_of (sn_state s Correctness) = ''complete''"
    if c: "st = Cost" "ss_status v \<noteq> ''skipped''"
  proof -
    have open_gate: "gate_open s" using gate c by (simp add: GATED_def)
    from pre c(1) obtain k where k: "sn_state s Correctness = Some k"
      "ss_status k = ''complete'' \<or> ss_status k = ''skipped''" using final_status by force
    have "ss_status k \<noteq> ''skipped''"
    proof
      assume "ss_status k = ''skipped''"
      with wo k(1) have "gate_closed s" unfolding well_ordered_def by blast
      with open_gate show False by (auto simp: gate_open_def gate_closed_def)
    qed
    with k show ?thesis by (simp add: status_of_def)
  qed
  from pre gate cost show ?thesis unfolding gate_open_def by blast
qed

text \<open>
  An invocation's exit status reports how the stage ended: 0 exactly for \<open>complete\<close> or
  \<open>skipped\<close>, 40 for \<open>failed\<close> and 42 for \<open>noisy\<close>; an invocation that is refused leaves the
  session unchanged, and one that is killed leaves the stage \<open>running\<close>.
\<close>

theorem run_stage_exit:
  assumes "run_stage en s name = (s', res)"
  shows "case res of
      Inr code \<Rightarrow> \<exists>st. stage_of_name name = Some st
        \<and> (code = 0 \<and> status_of (sn_state s' st) \<in> set FINAL
           \<or> code = 40 \<and> status_of (sn_state s' st) = ''failed''
           \<or> code = 42 \<and> status_of (sn_state s' st) = ''noisy'')
    | Inl e \<Rightarrow> s' = s \<or> (\<exists>st. stage_of_name name = Some st
        \<and> status_of (sn_state s' st) = ''running'' \<and> e = OtherException ''killed'')"
proof -
  have exits: "EXIT_OK = 0" "EXIT_ERROR = 40" "EXIT_NOISY = 42"
    by (simp_all add: EXIT_OK_def EXIT_ERROR_def EXIT_NOISY_def)
  show ?thesis
  proof (cases "\<exists>st r previous. stage_of_name name = Some st \<and> execute en s r st previous = (s', res)")
    case True
    then obtain st r previous where st: "stage_of_name name = Some st"
      and x: "execute en s r st previous = (s', res)" by blast
    from execute_effect[OF x] show ?thesis
    proof (elim disjE exE conjE)
      fix v reason
      assume "only_stage s st v s'" "ss_status v = ''skipped''" "res = Inr EXIT_OK"
      then show ?thesis by (auto simp: only_stage_def status_of_def FINAL_def exits st)
    next
      fix v
      assume "only_stage s st v s'" "stage_outcome (ss_status v) res"
      then show ?thesis
        by (auto simp: only_stage_def stage_outcome_def status_of_def FINAL_def exits st)
    qed simp
  next
    case False
    have plain: "s' = s \<and> ((\<exists>e. res = Inl e)
        \<or> (\<exists>st. stage_of_name name = Some st \<and> status_of (sn_state s st) \<in> set FINAL
             \<and> res = Inr EXIT_OK))"
    proof (cases "stage_of_name name")
      case (Some st)
      show ?thesis
      proof (cases "st = Compile \<or> sn_run s = None \<or> en_cleaning_lock en \<or> en_stage_lock en")
        case True
        with Some assms show ?thesis
          by (auto simp: run_stage_def split: stage.splits option.splits if_splits)
      next
        case nt: False
        then obtain r0 where r0: "sn_run s = Some r0" by auto
        have "run_stage en s name = (case refuse_cleaned s of Inl e \<Rightarrow> (s, Inl e)
              | Inr _ \<Rightarrow> (case read_state s st of Inl e \<Rightarrow> (s, Inl e)
               | Inr previous \<Rightarrow>
                  if status_of previous \<in> set FINAL then (s, Inr EXIT_OK)
                  else let r = effective r0 (Some st) in
                    case check_harness en r of Inl e \<Rightarrow> (s, Inl e)
                    | Inr _ \<Rightarrow> execute en s r st previous))"
          using Some nt r0 by (cases st; hypsubst_thin; simp add: run_stage_def)
        with assms False Some show ?thesis
          by (auto simp: Let_def dest!: read_state_val split: sum.splits if_splits)
      qed
    next
      case None
      with assms have "s' = s" "res = Inl (Usage (''Unknown stage '' @ name))"
        by (simp_all add: run_stage_def)
      then show ?thesis by blast
    qed
    then show ?thesis by (auto simp: exits split: sum.splits)
  qed
qed

section \<open>Witnesses\<close>

definition demo_env :: env where
  "demo_env = \<lparr>en_identities = \<lparr>hs_coordinator = Some ''c1'', hs_implementation = Some ''i1''\<rparr>,
     en_manifest = ''m1'', en_policy_hash = ''p1'', en_cases = [], en_policy = demo_policy [],
     en_store_exists = True, en_ready_build = (\<lambda>_. Inr True), en_host_mismatch = (\<lambda>_. None),
     en_monitor = None, en_cleaning_lock = False, en_stage_lock = False, en_invocation = None,
     en_body = (\<lambda>st s recs. \<lparr>bo_records = recs, bo_obs = [],
        bo_run = map_option (\<lambda>r. r\<lparr>rn_store_key := Some ''k1''\<rparr>) (sn_run s),
        bo_result = (if st = Correctness then Raised (Contaminated ''load'') else Finished
          \<lparr>bf_gate = (if st = Quality then Some ''open'' else None), bf_gate_reason = None,
           bf_cost_due = None\<rparr>)\<rparr>)\<rparr>"

definition demo_args :: compile_args where
  "demo_args = \<lparr>ca_sources = (''/a'', ''/b''), ca_profile = ''demo'', ca_store = ''/store'',
     ca_session = []\<rparr>"

definition demo_compiled :: session where
  "demo_compiled = fst (run_compile demo_env demo_args Missing [] empty_session)"

definition demo_measured :: session where
  "demo_measured = fst (run_stage demo_env demo_compiled ''quality'')"

definition demo_noisy :: session where
  "demo_noisy = fst (run_stage demo_env demo_measured ''correctness'')"

lemma demo_steps:
  "session_step empty_session demo_compiled" "session_step demo_compiled demo_measured"
  "session_step demo_measured demo_noisy"
  unfolding demo_compiled_def demo_measured_def demo_noisy_def
  by (rule step_compile step_stage, rule prod.collapse[symmetric])+

lemmas demo_run_simps = run_compile_def run_stage_def check_session_directory_def create_def
  new_run_def execute_def preconditions_def check_prerequisites_def check_store_def check_hosts_def
  run_to_end_def close_stage_def after_body_def run_body_def prepare_def started_def finish_def
  record_invocation_def write_state_def write_evidence_def new_state_def invoked_def attempts_of_def
  opened_evidence_def refuse_cleaned_def clean_status_def read_state_def status_of_def effective_def
  check_harness_def skip_reason_def is_contaminated_def demo_env_def demo_args_def empty_session_def
  SESSION_SEED_def STATE_FORMAT_def STATE_FORMATS_def FINAL_def GATED_def stage_of_name_def
  STAGE_ORDER_def EXIT_OK_def EXIT_NOISY_def EXIT_ERROR_def

lemma demo_states:
  "map_option ss_status (sn_state demo_compiled Compile) = Some ''complete''"
  "map_option ss_status (sn_state demo_noisy Correctness) = Some ''noisy''"
  "snd (run_stage demo_env demo_measured ''correctness'') = Inr 42"
  by (simp_all add: demo_noisy_def demo_measured_def demo_compiled_def demo_run_simps)

lemma final_stage_frozen_witness:
  "\<exists>v. sn_state demo_compiled Compile = Some v \<and> sn_state demo_noisy Compile = Some v"
proof -
  obtain v where v: "sn_state demo_compiled Compile = Some v" "ss_status v \<in> set FINAL"
    using demo_states(1) by (auto simp: FINAL_def)
  have "session_step\<^sup>*\<^sup>* demo_compiled demo_noisy"
    using demo_steps(2,3) by (meson r_into_rtranclp rtranclp_trans)
  from final_stage_frozen[OF this v] v(1) show ?thesis by blast
qed

lemma demo_reachable: "reachable demo_noisy"
  using demo_steps by (meson r_into_rtranclp rtranclp_trans)

lemma stages_in_order_witness:
  "\<exists>q. sn_state demo_noisy Quality = Some q \<and> ss_status q = ''complete'' \<and> ss_gate q \<noteq> Some ''closed''"
proof -
  obtain v where v: "sn_state demo_noisy Correctness = Some v" "ss_status v = ''noisy''"
    using demo_states(2) by auto
  from stages_in_order[OF demo_reachable v(1)] v(2) show ?thesis
    by (simp add: GATED_def)
qed

lemma run_stage_exit_witness: "status_of (sn_state demo_noisy Correctness) = ''noisy''"
proof -
  have "run_stage demo_env demo_measured ''correctness'' = (demo_noisy, Inr 42)"
    using demo_states(3) by (simp add: demo_noisy_def prod_eq_iff)
  from run_stage_exit[OF this] show ?thesis by (auto simp: stage_of_name_def STAGE_ORDER_def)
qed

end
