(* ===== verification/Resume.thy ===== *)
theory Resume
  imports Lifecycle
begin

text \<open>
  Resuming what was interrupted: a killed or contaminated stage runs again
  (\<open>coordinator/stages.py\<close>), a killed clean finishes the deletions it had planned
  (\<open>coordinator/clean.py\<close>), a cleaned session stays as it is, and an amendment re-pins the cost
  stage only (\<open>coordinator/amend.py\<close>).
\<close>

section \<open>Preconditions after an interrupted run\<close>

lemma check_prerequisites_cong:
  assumes "\<And>p. p \<in> set (PREREQUISITES st) \<Longrightarrow> sn_state s' p = sn_state s p"
  shows "check_prerequisites s' st = check_prerequisites s st"
proof -
  have "read_state s' p = read_state s p" if "p \<in> set (PREREQUISITES st)" for p
    using assms[OF that] by (simp add: read_state_def)
  then show ?thesis unfolding check_prerequisites_def by (intro foldE_cong) simp
qed

lemma stage_not_its_prerequisite: "st \<notin> set (PREREQUISITES st)"
  by (cases st) simp_all

text \<open>Only the cost stage's preconditions read the evidence; the others read other stages' states.\<close>

lemma preconditions_cong:
  assumes "\<And>p. p \<noteq> st \<Longrightarrow> sn_state s' p = sn_state s p" and "st \<noteq> Cost"
  shows "preconditions (en\<lparr>en_body := body\<rparr>) s' r st = preconditions en s r st"
proof -
  have pre: "check_prerequisites s' st = check_prerequisites s st"
    by (rule check_prerequisites_cong) (metis assms(1) stage_not_its_prerequisite)
  have skip: "skip_reason (en\<lparr>en_body := body\<rparr>) s' r st = skip_reason en s r st" if "st \<in> set GATED"
  proof -
    have "st \<noteq> Quality" using that by (auto simp: GATED_def)
    then have "read_state s' Quality = read_state s Quality" by (simp add: read_state_def assms(1))
    with assms(2) show ?thesis by (simp add: skip_reason_def cong: option.case_cong)
  qed
  have "check_store (en\<lparr>en_body := body\<rparr>) r st = check_store en r st"
    "check_hosts (en\<lparr>en_body := body\<rparr>) r st = check_hosts en r st"
    by (simp_all add: check_store_def check_hosts_def cong: option.case_cong)
  with pre skip assms(2) show ?thesis by (simp add: preconditions_def)
qed

lemma run_stage_ran:
  assumes "run_stage en s name = (s1, res)" and "stage_of_name name = Some st"
    and "sn_state s1 st \<noteq> sn_state s st"
  obtains r0 where "sn_run s = Some r0" "st \<noteq> Compile" "\<not> en_cleaning_lock en" "\<not> en_stage_lock en"
    "refuse_cleaned s = Inr ()" "read_state s st = Inr (sn_state s st)"
    "status_of (sn_state s st) \<notin> set FINAL" "check_harness en (effective r0 (Some st)) = Inr ()"
    "execute en s (effective r0 (Some st)) st (sn_state s st) = (s1, res)"
proof -
  have nt: "st \<noteq> Compile \<and> sn_run s \<noteq> None \<and> \<not> en_cleaning_lock en \<and> \<not> en_stage_lock en"
    using assms by (auto simp: run_stage_def split: stage.splits option.splits if_splits)
  then obtain r0 where r0: "sn_run s = Some r0" by auto
  have eq: "run_stage en s name = (case refuse_cleaned s of Inl e \<Rightarrow> (s, Inl e)
              | Inr _ \<Rightarrow> (case read_state s st of Inl e \<Rightarrow> (s, Inl e)
               | Inr previous \<Rightarrow>
                  if status_of previous \<in> set FINAL then (s, Inr EXIT_OK)
                  else let r = effective r0 (Some st) in
                    case check_harness en r of Inl e \<Rightarrow> (s, Inl e)
                    | Inr _ \<Rightarrow> execute en s r st previous))"
    using assms(2) nt r0 by (cases st; hypsubst_thin; simp add: run_stage_def)
  show thesis
  proof (cases "refuse_cleaned s")
    case (Inl e)
    with assms(1,3) show thesis by (simp add: eq)
  next
    case c: (Inr u)
    show thesis
    proof (cases "read_state s st")
      case (Inl e)
      with c assms(1,3) show thesis by (simp add: eq)
    next
      case (Inr previous)
      then have p: "previous = sn_state s st" by (rule read_state_val)
      with Inr c assms(1,3) have nf: "status_of (sn_state s st) \<notin> set FINAL"
        and "(case check_harness en (effective r0 (Some st)) of Inl e \<Rightarrow> (s, Inl e)
               | Inr _ \<Rightarrow> execute en s (effective r0 (Some st)) st previous) = (s1, res)"
        by (auto simp: eq Let_def split: if_splits)
      with assms(3) p have "check_harness en (effective r0 (Some st)) = Inr ()"
        "execute en s (effective r0 (Some st)) st (sn_state s st) = (s1, res)"
        by (auto split: sum.splits)
      with nt r0 c nf Inr p that show thesis by simp
    qed
  qed
qed

lemma read_running:
  "only_stage s st v s1 \<Longrightarrow> read_state s1 st = Inr (Some v)"
  by (simp add: only_stage_def read_state_def STATE_FORMATS_def STATE_FORMAT_def)

lemma run_stage_intro:
  assumes "stage_of_name name = Some st" and "st \<noteq> Compile" and "sn_run s = Some r0"
    and "\<not> en_cleaning_lock en" and "\<not> en_stage_lock en" and "refuse_cleaned s = Inr ()"
    and "read_state s st = Inr previous" and "status_of previous \<notin> set FINAL"
    and "check_harness en (effective r0 (Some st)) = Inr ()"
  shows "run_stage en s name = execute en s (effective r0 (Some st)) st previous"
  using assms by (cases st; hypsubst_thin; simp add: run_stage_def)


lemma execute_run:
  assumes "execute en s r st previous = (s1, res)" and "st \<noteq> Compile"
  shows "sn_run s1 = sn_run s"
  using assms
  by (auto simp: execute_def skip_def run_to_end_def close_stage_def Let_def after_body_def started_def
      record_invocation_def write_state_def write_evidence_def
      split: sum.splits option.splits if_splits body_end.splits prod.splits)

lemma check_harness_body: "check_harness (en\<lparr>en_body := body\<rparr>) r = check_harness en r"
  by (simp add: check_harness_def)

lemma attempts_of_run:
  assumes "run_to_end en s st previous = (s1, res)"
  shows "attempts_of (sn_state s1 st) = attempts_of previous + 1"
proof -
  obtain v where v: "only_stage s st v s1" "stage_outcome (ss_status v) res"
    using run_to_end_effect[OF assms] by blast
  define out where "out = run_body en (started en s st previous (opened_evidence (stage_name st) (sn_evidence s st)))
    st (opened_evidence (stage_name st) (sn_evidence s st))"
  have fin: "ss_attempts (fst (snd (finish st (invoked en (new_state ''running'' n)) recs result))) = n"
    for recs result n by (simp add: finish_def new_state_def invoked_def split: sum.split)
  show ?thesis
    using assms fin unfolding run_to_end_def Let_def
    by (auto simp: close_stage_def record_invocation_def write_state_def write_evidence_def
        attempts_of_def after_body_def started_def new_state_def invoked_def finish_def
        split: body_end.splits prod.splits sum.splits if_splits)
qed

section \<open>Properties\<close>

text \<open>
  C32. An interrupted stage can be resumed: when an invocation of a stage other than \<open>cost\<close> was
  killed or contaminated, the next invocation on the same host runs it again and, when its body
  finishes, ends \<open>complete\<close> with exit status 0, one more attempt counted.
\<close>

theorem interrupted_stage_resumes:
  assumes "run_stage en s name = (s1, res)" and "stage_of_name name = Some st" and "st \<noteq> Cost"
    and "sn_state s1 st \<noteq> sn_state s st" and "status_of (sn_state s1 st) \<in> set UNFINISHED"
    and body: "\<And>s recs. bo_result (body st s recs) = Finished (fin s recs)"
  shows "\<exists>s2. run_stage (en\<lparr>en_body := body\<rparr>) s1 name = (s2, Inr 0)
    \<and> status_of (sn_state s2 st) = ''complete''
    \<and> attempts_of (sn_state s2 st) = attempts_of (sn_state s1 st) + 1"
proof -
  let ?en = "en\<lparr>en_body := body\<rparr>"
  obtain r0 where r0: "sn_run s = Some r0" and nc: "st \<noteq> Compile" and locks: "\<not> en_cleaning_lock en" "\<not> en_stage_lock en"
    and rc: "refuse_cleaned s = Inr ()" and h: "check_harness en (effective r0 (Some st)) = Inr ()"
    and x: "execute en s (effective r0 (Some st)) st (sn_state s st) = (s1, res)"
    using run_stage_ran[OF assms(1,2,4)] by metis
  have nf: "status_of (sn_state s1 st) \<notin> set FINAL"
    using assms(5) by (auto simp: UNFINISHED_def FINAL_def)
  from execute_effect[OF x] assms(4) nf obtain v where
    v: "only_stage s st v s1" and pre: "preconditions en s (effective r0 (Some st)) st = Inr None"
    by (auto simp: only_stage_def status_of_def FINAL_def)
  have run1: "sn_run s1 = sn_run s" "sn_clean s1 = sn_clean s"
    using execute_run[OF x nc] v by (simp_all add: only_stage_def)
  have rc': "refuse_cleaned s1 = Inr ()"
  proof -
    have "clean_status s1 = clean_status s" using run1(2) by (simp add: clean_status_def)
    then have "refuse_cleaned s1 = refuse_cleaned s" by (simp only: refuse_cleaned_def)
    with rc show ?thesis by simp
  qed
  have h': "check_harness ?en (effective r0 (Some st)) = Inr ()"
    using h by (simp add: check_harness_body)
  have rd: "read_state s1 st = Inr (sn_state s1 st)"
    using read_running[OF v] v by (simp add: only_stage_def)
  have pre': "preconditions ?en s1 (effective r0 (Some st)) st = Inr None"
    using preconditions_cong[of st s1 s] v assms(3) pre by (simp add: only_stage_def)
  have "run_stage ?en s1 name = execute ?en s1 (effective r0 (Some st)) st (sn_state s1 st)"
    using assms(2) nc r0 locks rc' h' rd nf run1(1)
    by (intro run_stage_intro) simp_all
  also have "\<dots> = run_to_end ?en s1 st (sn_state s1 st)"
    using pre' assms(3) by (simp add: execute_def prepare_def)
  finally have run: "run_stage ?en s1 name = run_to_end ?en s1 st (sn_state s1 st)" .
  obtain s2 res2 where e: "run_to_end ?en s1 st (sn_state s1 st) = (s2, res2)" by fastforce
  have "bo_result (run_body ?en s' st recs) = Finished (fin s' recs)" for s' recs
    using assms(3) body by (simp add: run_body_def prepare_def)
  then have "res2 = Inr 0 \<and> status_of (sn_state s2 st) = ''complete''"
    using e by (auto simp: run_to_end_def Let_def close_stage_def finish_def EXIT_OK_def
        record_invocation_def write_state_def status_of_def)
  with run e attempts_of_run[OF e] show ?thesis by auto
qed


text \<open>
  A cleaned session is never measured again: once cleaning has begun, whatever happens to the
  session, its stages, evidence and observations stay as they are, and no stage was left
  unfinished when cleaning began.
\<close>

theorem cleaned_session_frozen:
  assumes "reachable s" and "cleaned s" and "session_step\<^sup>*\<^sup>* s s'"
  shows "cleaned s' \<and> untouched s s' \<and> status_of (sn_state s' st) \<notin> set UNFINISHED"
proof -
  have "cleaned s' \<and> untouched s s'"
    using assms(3)
  proof (induction rule: rtranclp_induct)
    case base
    show ?case using assms(2) by (simp add: untouched_def)
  next
    case (step s1 s2)
    from step_cleaned[OF step(2)] step(3) show ?case by (simp add: untouched_def)
  qed
  moreover have "status_of (sn_state s' st) \<notin> set UNFINISHED"
    using reachable_clean_ok[of s'] assms(1,3) calculation
    by (auto simp: clean_ok_def cleaned_def clean_status_def dest: rtranclp_trans)
  ultimately show ?thesis by blast
qed

text \<open>Deleting is idempotent, and deletions commute.\<close>

lemma delete_twice: "delete_target (delete_target files d) d = delete_target files d"
  by (cases d) (simp add: delete_target_def)

lemma delete_commute:
  "delete_target (delete_target files d) e = delete_target (delete_target files e) d"
  by (cases d; cases e) (simp add: delete_target_def conj_commute)

lemma delete_all_commute:
  "foldl delete_target (delete_target files d) ds = delete_target (foldl delete_target files ds) d"
  by (induction ds arbitrary: files) (simp_all add: delete_commute[of _ d])

lemma delete_prefix:
  "foldl delete_target (foldl delete_target files (take k ds)) ds = foldl delete_target files ds"
proof (induction ds arbitrary: files k)
  case (Cons d ds)
  show ?case
  proof (cases k)
    case (Suc n)
    have "foldl delete_target (foldl delete_target files (take k (d # ds))) (d # ds)
        = foldl delete_target (delete_target (foldl delete_target (delete_target files d) (take n ds)) d) ds"
      by (simp add: Suc)
    also have "\<dots> = foldl delete_target (foldl delete_target (delete_target files d) (take n ds)) ds"
      by (simp add: delete_all_commute delete_twice flip: delete_all_commute)
    finally show ?thesis using Cons.IH[of "delete_target files d" n] by simp
  qed simp
qed simp

text \<open>
  Killing a clean is harmless: when it was killed after any number of its planned deletions,
  the next \<open>clean\<close>, whatever it would plan itself, ends in the session an uninterrupted clean
  leaves.
\<close>

theorem clean_resumes:
  assumes "clean_plan h planned s = Inr c" and "sn_clean s = None"
    and "clean_session h planned s = (done, res)"
    and "killed = s\<lparr>sn_clean := Some c,
      sn_files := foldl delete_target (sn_files s) (take k (cl_planned c))\<rparr>"
  shows "clean_session h' planned' killed = (done, Inr 0)"
proof -
  have "cl_status c = ''cleaning''" using clean_plan_ok(1)[OF assms(1)] .
  with assms show ?thesis
    by (auto simp: clean_session_def clean_finish_def delete_prefix)
qed

section \<open>Amendments\<close>

lemma effective_append:
  "effective (r\<lparr>rn_amendments := rn_amendments r @ [a], rn_format := f\<rparr>) st
    = (apply_amendment st (foldl (apply_amendment st)
        (r\<lparr>rn_amendments := rn_amendments r @ [a], rn_format := f\<rparr>) (rn_amendments r)) a)"
  by (simp add: effective_def)

lemma foldl_amendments_fields:
  "rn_manifest (foldl (apply_amendment st) r as) = rn_manifest r"
  "rn_policy (foldl (apply_amendment st) r as) = rn_policy r"
  by (induction as arbitrary: r) (simp_all add: apply_amendment_def Let_def)

lemma foldl_amendments_hashes:
  "rn_hashes (foldl (apply_amendment st) r as)
    = foldl (\<lambda>h a. if st = Some (am_stage a) then am_hashes a else h) (rn_hashes r) as"
  by (induction as arbitrary: r) (auto simp: apply_amendment_def Let_def)

text \<open>
  An amendment re-pins the cost stage only: it changes no stage and no evidence, every other
  stage keeps the hashes it ran under, and the amended cost stage passes the harness check of
  the harness that made the amendment.
\<close>

theorem amendment_repins_cost_only:
  assumes "amend_cost en requirements reason s = Inr (s', a)" and "sn_run s = Some r"
    and "sn_run s' = Some r'"
  shows "sn_state s' = sn_state s \<and> sn_evidence s' = sn_evidence s
    \<and> (\<forall>st. st \<noteq> Cost \<longrightarrow> rn_hashes (effective r' (Some st)) = rn_hashes (effective r (Some st)))
    \<and> check_harness en (effective r' (Some Cost)) = Inr ()"
proof -
  from amend_effect[OF assms(1)] assms(2,3) have s': "s' = s\<lparr>sn_run := Some r'\<rparr>"
    and r': "r' = r\<lparr>rn_amendments := rn_amendments r @ [a], rn_format := AMENDED_FORMAT\<rparr>"
    and st: "am_stage a = Cost" by auto
  have "amend en requirements (strip reason) s r = Inr (s', a)"
    using assms(1,2) by (auto simp: amend_cost_def split: if_splits)
  then have m: "en_manifest en = rn_manifest r" "en_policy_hash en = rn_policy r"
    and ah: "am_hashes a = en_identities en"
    by (auto simp: amend_def bindE_Inr_iff guardE_Inr_iff Let_def split: if_splits)
  have "rn_hashes (effective r' (Some k)) = rn_hashes (effective r (Some k))" if "k \<noteq> Cost" for k
    unfolding r' effective_append using that st
    by (simp add: apply_amendment_def Let_def effective_def foldl_amendments_hashes)
  moreover have "check_harness en (effective r' (Some Cost)) = Inr ()"
    using m ah st unfolding r' effective_append
    by (simp add: check_harness_def apply_amendment_def Let_def foldl_amendments_fields)
  ultimately show ?thesis using s' by simp
qed

section \<open>Witnesses\<close>

text \<open>
  The demo session whose correctness stage was contaminated is measured again, then amended; a
  decided and cleaned variant of it is killed after one deletion.
\<close>

definition demo_quiet :: "stage \<Rightarrow> session \<Rightarrow> crec list \<Rightarrow> body_out" where
  "demo_quiet = (\<lambda>st s recs. \<lparr>bo_records = recs, bo_obs = [], bo_run = None, bo_result = Finished
     \<lparr>bf_gate = None, bf_gate_reason = None, bf_cost_due = None\<rparr>\<rparr>)"

lemma interrupted_stage_resumes_witness:
  "\<exists>s2. run_stage (demo_env\<lparr>en_body := demo_quiet\<rparr>) demo_noisy ''correctness'' = (s2, Inr 0)
    \<and> status_of (sn_state s2 Correctness) = ''complete''"
proof -
  have run: "run_stage demo_env demo_measured ''correctness'' = (demo_noisy, Inr 42)"
    using demo_states(3) by (simp add: demo_noisy_def prod_eq_iff)
  have noisy: "status_of (sn_state demo_noisy Correctness) = ''noisy''"
    using demo_states(2) by (auto simp: status_of_def)
  have before: "sn_state demo_measured Correctness = None"
    by (simp add: demo_measured_def demo_compiled_def demo_run_simps)
  have sn: "stage_of_name ''correctness'' = Some Correctness"
    by (simp add: stage_of_name_def STAGE_ORDER_def)
  have ne: "sn_state demo_noisy Correctness \<noteq> sn_state demo_measured Correctness"
    using before noisy by (cases "sn_state demo_noisy Correctness") (simp_all add: status_of_def)
  have un: "status_of (sn_state demo_noisy Correctness) \<in> set UNFINISHED"
    using noisy by (simp add: UNFINISHED_def)
  have b: "bo_result (demo_quiet Correctness s recs)
    = Finished \<lparr>bf_gate = None, bf_gate_reason = None, bf_cost_due = None\<rparr>" for s recs
    by (simp add: demo_quiet_def)
  from interrupted_stage_resumes[where body = demo_quiet
      and fin = "\<lambda>_ _. \<lparr>bf_gate = None, bf_gate_reason = None, bf_cost_due = None\<rparr>", OF run sn _ ne un b] show ?thesis by auto
qed

definition demo_decided :: session where
  "demo_decided = empty_session\<lparr>sn_run := Some (new_run demo_env demo_args),
     sn_decision := Some (\<lambda>_. None), sn_files := [[''envs'', ''a''], [''logs''], [''run.json'']]\<rparr>"

definition demo_planned :: "session \<Rightarrow> deletion list" where
  "demo_planned = (\<lambda>_. [([''envs''], True, 10), ([''logs''], False, 2)])"

lemma demo_plan: "clean_plan h demo_planned demo_decided
    = Inr \<lparr>cl_status = ''cleaning'', cl_planned = [([''envs''], True, 10), ([''logs''], False, 2)], cl_freed = 0\<rparr>"
  by (simp add: clean_plan_def demo_decided_def demo_planned_def empty_session_def STAGE_ORDER_def
      read_state_def status_of_def UNFINISHED_def state_hash_def)

lemma clean_resumes_witness:
  "\<exists>done. clean_session (\<lambda>_. []) (\<lambda>_. []) (demo_decided\<lparr>
      sn_clean := Some \<lparr>cl_status = ''cleaning'', cl_planned = demo_planned demo_decided, cl_freed = 0\<rparr>,
      sn_files := [[''logs''], [''run.json'']]\<rparr>) = (done, Inr 0) \<and> sn_files done = [[''run.json'']]"
proof -
  obtain d res where d: "clean_session (\<lambda>_. []) demo_planned demo_decided = (d, res)" by fastforce
  have "sn_clean demo_decided = None" by (simp add: demo_decided_def empty_session_def)
  from clean_resumes[OF demo_plan this d refl, of "\<lambda>_. []" "\<lambda>_. []" 1] d
  show ?thesis
    by (auto simp: clean_session_def demo_plan demo_decided_def empty_session_def demo_planned_def
        delete_target_def clean_finish_def)
qed

definition demo_cleaned :: session where
  "demo_cleaned = fst (clean demo_env ss_status demo_planned
     (demo_measured\<lparr>sn_decision := Some (state_hash ss_status demo_measured)\<rparr>))"

lemma demo_cleaned_reachable: "reachable demo_cleaned"
proof -
  have "session_step demo_measured (demo_measured\<lparr>sn_decision := Some (state_hash ss_status demo_measured)\<rparr>)"
    by (rule step_decide)
  moreover have "session_step (demo_measured\<lparr>sn_decision := Some (state_hash ss_status demo_measured)\<rparr>) demo_cleaned"
    unfolding demo_cleaned_def by (rule step_clean, rule prod.collapse[symmetric])
  ultimately show ?thesis using demo_steps(1,2) by (meson r_into_rtranclp rtranclp_trans)
qed

lemma demo_cleaned_status: "cleaned demo_cleaned"
  by (simp add: demo_cleaned_def demo_measured_def demo_compiled_def demo_run_simps clean_def
      clean_session_def clean_plan_def cleaned_def clean_finish_def UNFINISHED_def state_hash_def)

lemma cleaned_session_frozen_witness: "status_of (sn_state demo_cleaned Quality) \<notin> set UNFINISHED"
  using cleaned_session_frozen[OF demo_cleaned_reachable demo_cleaned_status rtranclp.rtrancl_refl]
  by blast

text \<open>The harness changed after the unit tests; \<open>amend\<close> re-pins cost for the new one.\<close>

definition demo_amend_session :: session where
  "demo_amend_session = empty_session\<lparr>sn_run := Some (new_run demo_env demo_args),
     sn_state := (\<lambda>st. if st = Cost then None
       else Some ((new_state ''complete'' 1)\<lparr>ss_format := Some STATE_FORMAT\<rparr>))\<rparr>"

definition demo_new_env :: env where
  "demo_new_env = demo_env\<lparr>en_identities := \<lparr>hs_coordinator = Some ''c2'', hs_implementation = Some ''i1''\<rparr>\<rparr>"

lemma amendment_repins_cost_only_witness:
  "\<exists>s' a r'. amend_cost demo_new_env [] ''fix'' demo_amend_session = Inr (s', a) \<and> sn_run s' = Some r'
    \<and> check_harness demo_new_env (effective r' (Some Cost)) = Inr ()"
proof -
  obtain s' a where a: "amend_cost demo_new_env [] ''fix'' demo_amend_session = Inr (s', a)"
    by (simp add: amend_cost_def amend_def demo_amend_session_def demo_new_env_def demo_run_simps
        AMENDABLE_def BEFORE_COST_def strip_def is_space_def Let_def)
  obtain r r' where r: "sn_run demo_amend_session = Some r" "sn_run s' = Some r'"
    using amend_effect[OF a] by auto
  from amendment_repins_cost_only[OF a r] a r show ?thesis by blast
qed

end
