(* ===== verification/Retry.thy ===== *)
theory Retry
  imports Prelude
begin

text \<open>
  The orchestration ledger and the budget of cost retries (\<open>src/lsf/retry.py\<close>): the entries of
  submitted jobs in the order they were reserved, the accounting of the current epoch and the
  archived accounting of the epochs before a resume. \<open>decision\<close> says whether one more cost job may
  be submitted, \<open>excluded_hosts\<close> which hosts it avoids.
\<close>

section \<open>Job entries\<close>

text \<open>
  A job's entry as the manager fills it in. Times are the seconds of an ISO time stamp; only
  their order is used. Every entry of stage \<open>cost\<close> has an attempt number.
\<close>

datatype job_status = Reserved | Submitted | Ambiguous | Rejected | Unreconciled | Terminal

record job_outcome =
  oc_kind :: string
  oc_exit :: "int option"
  oc_message :: "string option"
  oc_reason :: "string option"
  oc_host :: "string option"
  oc_phase :: "string option"

record job_entry =
  je_key :: string
  je_stage :: string
  je_name :: string
  je_status :: job_status
  je_job_id :: "string option"
  je_attempt :: "nat option"
  je_reserved_at :: nat
  je_submissions :: "string list"
  je_outcome :: "job_outcome option"
  je_consumes :: "bool option"
  je_epoch :: nat
  je_host :: "string option"
  je_lookups :: nat
  je_failures :: nat
  je_cancel :: "string option"

definition ACTIVE :: "job_status set" where
  "ACTIVE = {Reserved, Submitted, Ambiguous}"

definition CONSUMING :: "job_status set" where
  "CONSUMING = {Reserved, Submitted, Ambiguous, Unreconciled, Terminal}"

definition MAX_COST_RETRIES :: nat where "MAX_COST_RETRIES = 20"
definition MAX_COST_ATTEMPTS :: nat where "MAX_COST_ATTEMPTS = MAX_COST_RETRIES + 1"
definition MAX_REJECTIONS :: nat where "MAX_REJECTIONS = 3"
definition HOST_NOISY_LIMIT :: nat where "HOST_NOISY_LIMIT = 2"
definition MAX_EXCLUDED_HOSTS :: nat where "MAX_EXCLUDED_HOSTS = 8"

section \<open>The ledger\<close>

text \<open>\<open>exhausted\<close>: the reason and the budget used; \<open>decide\<close>: an error or a status and exit code.\<close>

datatype decided = DecideError string | Decided string nat

record epoch_acct =
  ep_exhausted :: "(string \<times> nat) option"
  ep_stopped :: "string option"
  ep_decide :: "decided option"
  ep_cleanup :: "(string \<times> string option) option"
  ep_result :: "nat option"

definition fresh_epoch :: epoch_acct where
  "fresh_epoch = \<lparr>ep_exhausted = None, ep_stopped = None, ep_decide = None, ep_cleanup = None,
     ep_result = None\<rparr>"

record ledger =
  lg_jobs :: "job_entry list"
  lg_acct :: epoch_acct
  lg_resumes :: "epoch_acct list"
  lg_managers :: nat

definition create_ledger :: ledger where
  "create_ledger = \<lparr>lg_jobs = [], lg_acct = fresh_epoch, lg_resumes = [], lg_managers = 0\<rparr>"

definition epoch :: "ledger \<Rightarrow> nat" where
  "epoch l = length (lg_resumes l)"

definition begin_epoch :: "ledger \<Rightarrow> ledger" where
  "begin_epoch l = l\<lparr>lg_resumes := lg_resumes l @ [lg_acct l], lg_acct := fresh_epoch\<rparr>"

definition jobs_of :: "ledger \<Rightarrow> string \<Rightarrow> job_entry list" where
  "jobs_of l st = filter (\<lambda>e. je_stage e = st) (lg_jobs l)"

definition current :: "ledger \<Rightarrow> string \<Rightarrow> job_entry list" where
  "current l st = filter (\<lambda>e. je_epoch e = epoch l) (jobs_of l st)"

definition job :: "ledger \<Rightarrow> string \<Rightarrow> job_entry option" where
  "job l key = find (\<lambda>e. je_key e = key) (lg_jobs l)"

definition new_entry :: "string \<Rightarrow> string \<Rightarrow> nat option \<Rightarrow> string \<Rightarrow> nat \<Rightarrow> nat \<Rightarrow> job_entry" where
  "new_entry key st attempt name at_time ep = \<lparr>je_key = key, je_stage = st, je_name = name,
     je_status = Reserved, je_job_id = None, je_attempt = attempt, je_reserved_at = at_time,
     je_submissions = [], je_outcome = None, je_consumes = None, je_epoch = ep, je_host = None,
     je_lookups = 0, je_failures = 0, je_cancel = None\<rparr>"

definition reserve :: "string \<Rightarrow> string \<Rightarrow> nat option \<Rightarrow> string \<Rightarrow> nat \<Rightarrow> ledger \<Rightarrow> ledger res" where
  "reserve key st attempt name at_time l =
     (if job l key \<noteq> None then Inl ValueError
      else Inr (l\<lparr>lg_jobs := lg_jobs l @ [new_entry key st attempt name at_time (epoch l)]\<rparr>))"

definition update :: "string \<Rightarrow> (job_entry \<Rightarrow> job_entry) \<Rightarrow> ledger \<Rightarrow> ledger" where
  "update key f l = l\<lparr>lg_jobs := map (\<lambda>e. if je_key e = key then f e else e) (lg_jobs l)\<rparr>"

text \<open>\<open>max\<close> with a key returns the first of the largest; keys are (attempt, reservation time).\<close>

definition job_age :: "job_entry \<Rightarrow> nat \<times> nat" where
  "job_age e = ((case je_attempt e of None \<Rightarrow> 0 | Some n \<Rightarrow> n), je_reserved_at e)"

fun later :: "nat \<times> nat \<Rightarrow> nat \<times> nat \<Rightarrow> bool" where
  "later (a, b) (c, d) \<longleftrightarrow> a < c \<or> (a = c \<and> b < d)"

fun newest :: "job_entry \<Rightarrow> job_entry list \<Rightarrow> job_entry" where
  "newest best [] = best"
| "newest best (e # es) = newest (if later (job_age best) (job_age e) then e else best) es"

definition latest :: "ledger \<Rightarrow> string \<Rightarrow> job_entry option" where
  "latest l st = (case filter (\<lambda>e. je_status e \<noteq> Rejected) (current l st) of
     [] \<Rightarrow> None | e # es \<Rightarrow> Some (newest e es))"

definition active :: "ledger \<Rightarrow> job_entry list" where
  "active l = filter (\<lambda>e. je_status e \<in> ACTIVE) (lg_jobs l)"

section \<open>Cost attempts\<close>

definition attempt_of :: "job_entry \<Rightarrow> nat" where
  "attempt_of e = (case je_attempt e of None \<Rightarrow> 0 | Some n \<Rightarrow> n)"

definition cost_attempts :: "ledger \<Rightarrow> job_entry list" where
  "cost_attempts l = sort_key attempt_of (filter (\<lambda>e. je_status e \<noteq> Rejected) (current l ''cost''))"

definition next_attempt :: "ledger \<Rightarrow> nat" where
  "next_attempt l = foldr max (map attempt_of (jobs_of l ''cost'')) 0 + 1"

definition budget_used :: "ledger \<Rightarrow> nat" where
  "budget_used l = length (filter (\<lambda>e. je_status e \<in> CONSUMING \<and> je_consumes e \<noteq> Some False)
     (cost_attempts l))"

record retry_decision =
  dc_used :: nat
  dc_remaining :: nat
  dc_limit :: nat
  dc_next :: nat
  dc_exhausted :: bool
  dc_allowed :: bool
  dc_reason :: string

definition attempt_text :: "job_entry \<Rightarrow> string" where
  "attempt_text e = ''attempt '' @ show_nat (attempt_of e)"

fun status_text :: "job_status \<Rightarrow> string" where
  "status_text Reserved = ''reserved''"
| "status_text Submitted = ''submitted''"
| "status_text Ambiguous = ''ambiguous''"
| "status_text Rejected = ''rejected''"
| "status_text Unreconciled = ''unreconciled''"
| "status_text Terminal = ''terminal''"

definition was_noisy :: "job_entry \<Rightarrow> bool" where
  "was_noisy e = (case je_outcome e of None \<Rightarrow> False | Some oc \<Rightarrow> oc_kind oc = ''noisy'')"

definition ended_text :: "job_entry \<Rightarrow> string" where
  "ended_text e = (case je_outcome e of None \<Rightarrow> status_text (je_status e) | Some oc \<Rightarrow> oc_kind oc)"

definition exhausted_text :: "nat \<Rightarrow> string" where
  "exhausted_text used = ''the retry budget is exhausted ('' @ show_nat used @ '' of ''
     @ show_nat MAX_COST_ATTEMPTS @ '' cost jobs)''"

definition decision :: "ledger \<Rightarrow> retry_decision" where
  "decision l =
     (let attempts = cost_attempts l;
          used = budget_used l;
          result = \<lparr>dc_used = used, dc_remaining = MAX_COST_ATTEMPTS - used,
            dc_limit = MAX_COST_ATTEMPTS, dc_next = next_attempt l, dc_exhausted = False,
            dc_allowed = False, dc_reason = []\<rparr>;
          last_one = (if attempts = [] then None else Some (last attempts)) in
      case last_one of
        Some e \<Rightarrow>
          if je_status e \<in> ACTIVE
          then result\<lparr>dc_reason := attempt_text e @ '' is unsettled''\<rparr>
          else if \<not> was_noisy e
          then result\<lparr>dc_reason := attempt_text e @ '' ended '' @ ended_text e
                 @ ''; only positive contamination evidence allows a noise retry''\<rparr>
          else if used \<ge> MAX_COST_ATTEMPTS
          then result\<lparr>dc_exhausted := True, dc_reason := exhausted_text used\<rparr>
          else result\<lparr>dc_allowed := True, dc_reason := attempt_text e @ '' was noisy''\<rparr>
      | None \<Rightarrow>
          if used \<ge> MAX_COST_ATTEMPTS
          then result\<lparr>dc_exhausted := True, dc_reason := exhausted_text used\<rparr>
          else result\<lparr>dc_allowed := True, dc_reason := ''initial cost job''\<rparr>)"

text \<open>Python's \<open>a or b\<close> on optional strings: the empty string is false.\<close>

definition or_str :: "string option \<Rightarrow> string option \<Rightarrow> string option" where
  "or_str a b = (if a \<noteq> None \<and> a \<noteq> Some [] then a else b)"

text \<open>The host of a noisy attempt and its strikes: an idle probe counts at once.\<close>

definition noisy_host :: "job_entry \<Rightarrow> string option" where
  "noisy_host e =
     (let host = or_str (je_host e) (case je_outcome e of None \<Rightarrow> None | Some oc \<Rightarrow> oc_host oc) in
      if \<not> was_noisy e \<or> host = Some [] then None else host)"

definition strike :: "job_entry \<Rightarrow> nat" where
  "strike e = (case je_outcome e of
     None \<Rightarrow> 1
   | Some oc \<Rightarrow> if oc_phase oc = Some ''idle probe'' then HOST_NOISY_LIMIT else 1)"

definition exclude_step ::
    "(string \<Rightarrow> nat) \<times> string list \<Rightarrow> job_entry \<Rightarrow> (string \<Rightarrow> nat) \<times> string list" where
  "exclude_step acc e =
     (case noisy_host e of
        None \<Rightarrow> acc
      | Some host \<Rightarrow>
          let strikes = (fst acc)(host := fst acc host + strike e) in
          if strikes host \<ge> HOST_NOISY_LIMIT
          then (strikes, remove1 host (snd acc) @ [host])
          else (strikes, snd acc))"

definition last_n :: "nat \<Rightarrow> 'a list \<Rightarrow> 'a list" where
  "last_n n xs = drop (length xs - n) xs"

definition excluded_hosts :: "ledger \<Rightarrow> string list" where
  "excluded_hosts l = last_n MAX_EXCLUDED_HOSTS
     (snd (foldl exclude_step (\<lambda>_. 0, []) (cost_attempts l)))"

definition record_exhaustion :: "string \<Rightarrow> ledger \<Rightarrow> ledger" where
  "record_exhaustion reason l =
     (if ep_exhausted (lg_acct l) \<noteq> None then l
      else l\<lparr>lg_acct := (lg_acct l)\<lparr>ep_exhausted := Some (reason, budget_used l)\<rparr>\<rparr>)"

definition record_stop :: "string option \<Rightarrow> ledger \<Rightarrow> ledger" where
  "record_stop reason l = l\<lparr>lg_acct := (lg_acct l)\<lparr>ep_stopped := reason\<rparr>\<rparr>"

section \<open>The ledger's invariant\<close>

text \<open>
  Keys are unique, no entry belongs to a later epoch, and every cost entry has an attempt number
  of its own.
\<close>

definition ledger_ok :: "ledger \<Rightarrow> bool" where
  "ledger_ok l \<longleftrightarrow> distinct (map je_key (lg_jobs l)) \<and> (\<forall>e\<in>set (lg_jobs l). je_epoch e \<le> epoch l)
     \<and> (\<forall>e\<in>set (jobs_of l ''cost''). je_attempt e \<noteq> None)
     \<and> distinct (map je_attempt (jobs_of l ''cost''))"

lemma job_None_iff: "job l key = None \<longleftrightarrow> key \<notin> je_key ` set (lg_jobs l)"
  by (auto simp: job_def find_None_iff)

lemma job_Some: "job l key = Some e \<Longrightarrow> e \<in> set (lg_jobs l) \<and> je_key e = key"
  by (auto simp: job_def find_Some_iff)

lemma job_unique:
  assumes "distinct (map je_key (lg_jobs l))" and "e \<in> set (lg_jobs l)"
  shows "job l (je_key e) = Some e"
proof -
  obtain e' where "job l (je_key e) = Some e'" using assms(2) by (metis job_None_iff image_eqI not_None_eq)
  with job_Some[OF this] assms show ?thesis by (metis inj_on_def distinct_map)
qed

lemma attempt_le_next:
  assumes "e \<in> set (jobs_of l ''cost'')"
  shows "attempt_of e < next_attempt l"
proof -
  have "x \<in> set ns \<Longrightarrow> x \<le> foldr max ns 0" for x :: nat and ns by (induction ns) auto
  with assms show ?thesis by (simp add: next_attempt_def less_Suc_eq_le)
qed

definition attempt_given :: "ledger \<Rightarrow> string \<Rightarrow> nat option \<Rightarrow> bool" where
  "attempt_given l st attempt \<longleftrightarrow> (st = ''cost'' \<longrightarrow> attempt = Some (next_attempt l))"

lemma reserve_ok:
  assumes "ledger_ok l" and "reserve key st attempt name t l = Inr l'" and "attempt_given l st attempt"
  shows "ledger_ok l'"
proof -
  define e where "e = new_entry key st attempt name t (epoch l)"
  have e: "je_key e = key" "je_stage e = st" "je_epoch e = epoch l" "je_attempt e = attempt"
    by (simp_all add: e_def new_entry_def)
  have l': "l' = l\<lparr>lg_jobs := lg_jobs l @ [e]\<rparr>" and new: "job l key = None"
    using assms(2) by (auto simp: reserve_def e_def split: if_splits)
  have "Some (next_attempt l) \<notin> je_attempt ` set (jobs_of l ''cost'')"
    using attempt_le_next by (fastforce simp: attempt_of_def split: option.splits)
  with e assms new show ?thesis unfolding l'
    by (auto simp: ledger_ok_def epoch_def jobs_of_def job_None_iff attempt_given_def)
qed

text \<open>An update keeps what identifies an entry.\<close>

definition keeps_identity :: "(job_entry \<Rightarrow> job_entry) \<Rightarrow> bool" where
  "keeps_identity f \<longleftrightarrow> (\<forall>e. je_key (f e) = je_key e \<and> je_stage (f e) = je_stage e
     \<and> je_epoch (f e) = je_epoch e \<and> je_attempt (f e) = je_attempt e \<and> je_name (f e) = je_name e)"

lemma update_fields [simp]:
  "lg_acct (update k f l) = lg_acct l" "lg_resumes (update k f l) = lg_resumes l"
  "epoch (update k f l) = epoch l" "lg_managers (update k f l) = lg_managers l"
  by (simp_all add: update_def epoch_def)

lemma update_map:
  assumes "keeps_identity f"
  shows "map je_key (lg_jobs (update k f l)) = map je_key (lg_jobs l)"
    and "map je_attempt (jobs_of (update k f l) st) = map je_attempt (jobs_of l st)"
  using assms by (auto simp: update_def jobs_of_def filter_map o_def keeps_identity_def cong: filter_cong
    intro!: map_cong filter_cong)

lemma update_ok:
  assumes "ledger_ok l" and "keeps_identity f"
  shows "ledger_ok (update k f l)"
proof -
  have "je_attempt ` set (jobs_of (update k f l) ''cost'') = je_attempt ` set (jobs_of l ''cost'')"
    using update_map(2)[OF assms(2), of k l "''cost''"] by (metis list.set_map)
  moreover have "None \<notin> je_attempt ` set (jobs_of l ''cost'')"
    using assms(1) by (auto simp: ledger_ok_def)
  ultimately have "None \<notin> je_attempt ` set (jobs_of (update k f l) ''cost'')" by simp
  then have "\<forall>e\<in>set (jobs_of (update k f l) ''cost''). je_attempt e \<noteq> None"
    by (metis imageI)
  moreover have "je_epoch e \<le> epoch l" if "e \<in> set (lg_jobs (update k f l))" for e
    using that assms by (auto simp: update_def ledger_ok_def keeps_identity_def)
  ultimately show ?thesis using assms(1) update_map[OF assms(2)] by (simp add: ledger_ok_def)
qed

lemma begin_epoch_ok: "ledger_ok l \<Longrightarrow> ledger_ok (begin_epoch l)"
  by (auto simp: ledger_ok_def begin_epoch_def epoch_def jobs_of_def)

lemma job_update:
  assumes "keeps_identity f"
  shows "job (update k f l) k' = (if k' = k then map_option f (job l k') else job l k')"
proof -
  have "find (\<lambda>e. je_key e = k') (map (\<lambda>e. if je_key e = k then f e else e) es)
      = (if k' = k then map_option f (find (\<lambda>e. je_key e = k') es) else find (\<lambda>e. je_key e = k') es)" for es
    using assms by (induction es) (auto simp: keeps_identity_def)
  then show ?thesis by (simp add: job_def update_def)
qed

section \<open>Excluded hosts\<close>

definition host_strikes :: "job_entry list \<Rightarrow> string \<Rightarrow> nat" where
  "host_strikes es h = sum_list (map strike (filter (\<lambda>e. noisy_host e = Some h) es))"

lemma strike_pos: "0 < strike e"
  by (simp add: strike_def HOST_NOISY_LIMIT_def split: option.split)

lemma exclude_loop:
  assumes "foldl exclude_step (\<lambda>_. 0, []) es = (strikes, hosts)"
  shows "strikes = host_strikes es" and "distinct hosts"
    and "set hosts = {h. HOST_NOISY_LIMIT \<le> host_strikes es h}"
  using assms
proof (induction es arbitrary: strikes hosts rule: rev_induct)
  case Nil
  {
    case 1
    then show ?case by (simp add: host_strikes_def)
  next
    case 2
    then show ?case by simp
  next
    case 3
    then show ?case by (simp add: host_strikes_def HOST_NOISY_LIMIT_def)
  }
next
  case (snoc e es)
  obtain s0 h0 where r: "foldl exclude_step (\<lambda>_. 0, []) es = (s0, h0)" by fastforce
  note ih = snoc.IH[OF r]
  have hs: "host_strikes (es @ [e]) h = host_strikes es h + (if noisy_host e = Some h then strike e else 0)" for h
    by (simp add: host_strikes_def)
  have main: "strikes = host_strikes (es @ [e]) \<and> distinct hosts
      \<and> set hosts = {h. HOST_NOISY_LIMIT \<le> host_strikes (es @ [e]) h}"
    if st: "exclude_step (s0, h0) e = (strikes, hosts)" for strikes hosts
  proof (cases "noisy_host e")
    case None
    with st ih show ?thesis by (auto simp: exclude_step_def hs)
  next
    case (Some h)
    have strikes: "strikes = host_strikes (es @ [e])"
      using st Some ih(1) by (auto simp: exclude_step_def Let_def hs fun_eq_iff split: if_splits)
    have "host_strikes (es @ [e]) h = s0 h + strike e" using hs[of h] Some ih(1) by simp
    with st Some ih hs strikes show ?thesis
      by (auto simp: exclude_step_def Let_def split: if_splits)
  qed
  {
    case 1
    then show ?case using main r by simp
  next
    case 2
    then show ?case using main r by simp
  next
    case 3
    then show ?case using main r by simp
  }
qed

section \<open>Properties\<close>

text \<open>
  One more cost job is allowed exactly when the budget of 21 cost jobs of this epoch is not
  used up and there is no attempt yet, or the last attempt is settled and ended \<open>noisy\<close>; a
  killed, failed or lost attempt never leads to another one.
\<close>

theorem retry_allowed_iff:
  "dc_allowed (decision l) \<longleftrightarrow> budget_used l < 21
     \<and> (cost_attempts l = []
        \<or> (je_status (last (cost_attempts l)) \<notin> ACTIVE \<and> was_noisy (last (cost_attempts l))))"
  by (auto simp: decision_def Let_def MAX_COST_ATTEMPTS_def MAX_COST_RETRIES_def)

text \<open>
  A cost job avoids at most eight distinct hosts, each of which had two noisy measurements or
  one noisy idle probe in this epoch; when at most eight hosts qualify, it avoids them all.
\<close>

theorem excluded_hosts_bounded:
  "distinct (excluded_hosts l) \<and> length (excluded_hosts l) \<le> 8
   \<and> set (excluded_hosts l) \<subseteq> {h. 2 \<le> host_strikes (cost_attempts l) h}
   \<and> (card {h. 2 \<le> host_strikes (cost_attempts l) h} \<le> 8 \<longrightarrow>
        set (excluded_hosts l) = {h. 2 \<le> host_strikes (cost_attempts l) h})"
proof -
  obtain strikes hosts where r: "foldl exclude_step (\<lambda>_. 0, []) (cost_attempts l) = (strikes, hosts)"
    by fastforce
  note h = exclude_loop[OF r]
  have "excluded_hosts l = last_n 8 hosts" by (simp add: excluded_hosts_def r MAX_EXCLUDED_HOSTS_def)
  moreover have "card (set hosts) = length hosts" using h(2) by (rule distinct_card)
  ultimately show ?thesis
    using h(2,3) set_drop_subset[of "length hosts - 8" hosts]
    by (auto simp: last_n_def HOST_NOISY_LIMIT_def)
qed

lemma current_begin_epoch: "ledger_ok l \<Longrightarrow> current (begin_epoch l) st = []"
  by (fastforce simp: current_def begin_epoch_def epoch_def jobs_of_def ledger_ok_def filter_empty_conv)

text \<open>
  A resume starts a fresh epoch: no budget is used, no host is avoided, the next cost job is
  allowed and no stage has a job of this epoch, while every job entry is kept and the attempt
  numbers go on counting.
\<close>

theorem resume_starts_fresh:
  assumes "ledger_ok l"
  shows "budget_used (begin_epoch l) = 0 \<and> excluded_hosts (begin_epoch l) = []
    \<and> dc_allowed (decision (begin_epoch l)) \<and> latest (begin_epoch l) st = None
    \<and> lg_jobs (begin_epoch l) = lg_jobs l \<and> next_attempt (begin_epoch l) = next_attempt l
    \<and> ledger_ok (begin_epoch l)"
proof -
  have none: "cost_attempts (begin_epoch l) = []"
    using current_begin_epoch[OF assms] by (simp add: cost_attempts_def)
  then have "budget_used (begin_epoch l) = 0" by (simp add: budget_used_def)
  moreover have "excluded_hosts (begin_epoch l) = []" by (simp add: excluded_hosts_def none last_n_def)
  moreover have "dc_allowed (decision (begin_epoch l))"
    using calculation none
    by (simp add: decision_def Let_def MAX_COST_ATTEMPTS_def MAX_COST_RETRIES_def)
  ultimately show ?thesis
    using begin_epoch_ok[OF assms] current_begin_epoch[OF assms]
    by (simp add: latest_def begin_epoch_def next_attempt_def jobs_of_def)
qed

section \<open>Witnesses\<close>

definition demo_job :: "string \<Rightarrow> nat \<Rightarrow> string \<Rightarrow> string \<Rightarrow> job_entry" where
  "demo_job key n kind host = (new_entry key ''cost'' (Some n) key n 0)\<lparr>je_status := Terminal,
     je_outcome := Some \<lparr>oc_kind = kind, oc_exit = Some 42, oc_message = None, oc_reason = None,
       oc_host = None, oc_phase = None\<rparr>, je_consumes := Some True, je_host := Some host\<rparr>"

definition demo_ledger :: ledger where
  "demo_ledger = create_ledger\<lparr>lg_jobs := [demo_job ''a1'' 1 ''noisy'' ''h1'',
     demo_job ''a2'' 2 ''noisy'' ''h2'', demo_job ''a3'' 3 ''noisy'' ''h1'']\<rparr>"

lemma demo_ledger_attempts: "cost_attempts demo_ledger
    = [demo_job ''a1'' 1 ''noisy'' ''h1'', demo_job ''a2'' 2 ''noisy'' ''h2'', demo_job ''a3'' 3 ''noisy'' ''h1'']"
  by (simp add: cost_attempts_def demo_ledger_def create_ledger_def current_def jobs_of_def epoch_def
      demo_job_def new_entry_def attempt_of_def)

theorem retry_allowed_iff_witness: "dc_allowed (decision demo_ledger)"
  unfolding retry_allowed_iff budget_used_def demo_ledger_attempts
  by (simp add: demo_job_def new_entry_def CONSUMING_def ACTIVE_def was_noisy_def)

lemma demo_strikes: "host_strikes (cost_attempts demo_ledger) h = (if h = ''h1'' then 2 else if h = ''h2'' then 1 else 0)"
  unfolding demo_ledger_attempts
  by (simp add: host_strikes_def noisy_host_def demo_job_def new_entry_def was_noisy_def or_str_def strike_def)

theorem excluded_hosts_bounded_witness: "set (excluded_hosts demo_ledger) = {''h1''}"
proof -
  have s: "{h. 2 \<le> host_strikes (cost_attempts demo_ledger) h} = {''h1''}" by (auto simp: demo_strikes)
  from excluded_hosts_bounded[of demo_ledger] show ?thesis unfolding s by simp
qed

theorem resume_starts_fresh_witness:
  "budget_used (begin_epoch demo_ledger) = 0 \<and> next_attempt (begin_epoch demo_ledger) = 4"
proof -
  have "ledger_ok demo_ledger"
    by (simp add: ledger_ok_def demo_ledger_def create_ledger_def demo_job_def new_entry_def epoch_def jobs_of_def)
  moreover have "next_attempt demo_ledger = 4"
    by (simp add: next_attempt_def demo_ledger_def create_ledger_def jobs_of_def demo_job_def new_entry_def
        attempt_of_def)
  ultimately show ?thesis using resume_starts_fresh by simp
qed

end
