(* ===== verification/Scheduler.thy ===== *)
theory Scheduler
  imports Text
begin

text \<open>
  The LSF commands of \<open>src/lsf/scheduler.py\<close>: the run limit, the resource request and the argument
  vector of a job, the reading of the answers of \<open>bsub\<close>, \<open>bjobs\<close> and \<open>bhist\<close>. The commands
  themselves are third-party programs: \<open>runner\<close> maps an argument vector to what the process did,
  and \<open>json\<close> to the rows \<open>json.loads\<close> finds. Numbers printed with \<open>:g\<close> are given as text.
\<close>

section \<open>Run limits\<close>

definition NON_COST_SLOTS :: nat where "NON_COST_SLOTS = 16"
definition COST_SLOTS :: nat where "COST_SLOTS = 9"
definition TERMINAL_STATES :: "string list" where "TERMINAL_STATES = [''DONE'', ''EXIT'']"
definition FIELDS :: string where
  "FIELDS = ''jobid stat exit_code exec_host pend_reason job_name user''"

definition slots :: "string \<Rightarrow> nat" where
  "slots kind = (if kind = ''cost'' then COST_SLOTS else NON_COST_SLOTS)"

text \<open>
  \<open>WALL\<close> is \<open>^(\d+)(?::([0-5]?\d))?$\<close>; Python's \<open>$\<close> also matches before a final newline.
\<close>

definition cut_newline :: "string \<Rightarrow> string" where
  "cut_newline s = (if s \<noteq> [] \<and> last s = CHR 10 then butlast s else s)"

definition minutes_of :: "string \<Rightarrow> nat option" where
  "minutes_of m =
     (if list_all is_digit m \<and> (length m = 1 \<or> (length m = 2 \<and> digit_value (hd m) \<le> 5))
      then Some (nat_of_digits m) else None)"

definition wall_seconds :: "string \<Rightarrow> nat res" where
  "wall_seconds wall =
     (let (d, rest) = digits (cut_newline wall) in
      if d = [] then Inl ValueError
      else if rest = [] then Inr (nat_of_digits d * 60)
      else if hd rest \<noteq> CHR '':'' then Inl ValueError
      else (case minutes_of (tl rest) of
              None \<Rightarrow> Inl ValueError
            | Some m \<Rightarrow> Inr (nat_of_digits d * 3600 + m * 60)))"

section \<open>Job specifications\<close>

record selector =
  sl_max_r1m :: "string option"
  sl_model :: "string option"
  sl_ncpus :: "string option"

definition no_selector :: selector where
  "no_selector = \<lparr>sl_max_r1m = None, sl_model = None, sl_ncpus = None\<rparr>"

text \<open>\<open>HOST_NAME\<close> is \<open>^[A-Za-z0-9][A-Za-z0-9._-]*$\<close>.\<close>

definition is_alnum :: "char \<Rightarrow> bool" where
  "is_alnum c = (let n = of_char c :: nat in
     (48 \<le> n \<and> n \<le> 57) \<or> (65 \<le> n \<and> n \<le> 90) \<or> (97 \<le> n \<and> n \<le> 122))"

definition is_host_name :: "string \<Rightarrow> bool" where
  "is_host_name host =
     (case cut_newline host of
        [] \<Rightarrow> False
      | c # s \<Rightarrow> is_alnum c
          \<and> list_all (\<lambda>d. is_alnum d \<or> d \<in> {CHR ''.'', CHR ''_'', CHR ''-''}) s)"

definition select_terms :: "selector \<Rightarrow> string list \<Rightarrow> string list" where
  "select_terms sel hosts =
     (case sl_max_r1m sel of None \<Rightarrow> [] | Some r \<Rightarrow> [''r1m < '' @ r])
     @ (case sl_model sel of None \<Rightarrow> [] | Some [] \<Rightarrow> [] | Some m \<Rightarrow> [''model == '' @ m])
     @ (case sl_ncpus sel of None \<Rightarrow> [] | Some n \<Rightarrow> [''ncpus == '' @ n])
     @ map (\<lambda>h. ''hname != '' @ h) hosts"

definition resource_request :: "string \<Rightarrow> string \<Rightarrow> selector \<Rightarrow> string list \<Rightarrow> string res" where
  "resource_request kind mem sel hosts =
     bindE (guardE (kind \<noteq> ''cost'' \<or> list_all is_host_name hosts) ValueError) (\<lambda>_.
       let terms = (if kind = ''cost'' then select_terms sel hosts else []) in
       Inr (join_str '' ''
         ((if terms \<noteq> [] then [''select['' @ join_str '' && '' terms @ '']''] else [])
          @ [''span[hosts=1]'']
          @ (if kind = ''cost'' then [''affinity[core(1,exclusive=(core,alljobs))]''] else [])
          @ [''rusage[mem='' @ mem @ '']''])))"

record jobspec =
  js_kind :: string
  js_name :: string
  js_command :: "string list"
  js_queue :: "string option"
  js_mem :: string
  js_wall :: string
  js_output :: string
  js_selector :: selector
  js_rerunnable :: bool
  js_exclude :: "string list"

definition argv :: "jobspec \<Rightarrow> string list res" where
  "argv s = bindE (resource_request (js_kind s) (js_mem s) (js_selector s) (js_exclude s)) (\<lambda>request.
     Inr ([''bsub'', ''-J'', js_name s, ''-n'', show_nat (slots (js_kind s))]
       @ (case js_queue s of None \<Rightarrow> [] | Some [] \<Rightarrow> [] | Some q \<Rightarrow> [''-q'', q])
       @ [''-W'', js_wall s, ''-R'', request, ''-o'', js_output s]
       @ (if js_rerunnable s then [''-r''] else [])
       @ (if js_kind s = ''cost'' then [''env'', ''THREADS=9''] else [])
       @ js_command s))"

section \<open>Answers\<close>

record jstatus =
  st_job_id :: string
  st_state :: string
  st_exit :: "int option"
  st_host :: "string option"
  st_pending :: "string option"
  st_name :: "string option"
  st_user :: "string option"

definition status_only :: "string \<Rightarrow> string \<Rightarrow> int option \<Rightarrow> jstatus" where
  "status_only i state exit = \<lparr>st_job_id = i, st_state = state, st_exit = exit, st_host = None,
     st_pending = None, st_name = None, st_user = None\<rparr>"

definition terminal :: "jstatus \<Rightarrow> bool" where
  "terminal s \<longleftrightarrow> st_state s \<in> set TERMINAL_STATES"

text \<open>
  \<open>_exit_code\<close>: \<open>lstrip("-")\<close> drops every leading minus, and \<open>int\<close> accepts one.
\<close>

definition exit_code_of :: "string option \<Rightarrow> int option res" where
  "exit_code_of t =
     (let s = strip (case t of None \<Rightarrow> [] | Some x \<Rightarrow> x);
          body = dropWhile (\<lambda>c. c = CHR ''-'') s in
      if body = [] \<or> \<not> list_all is_digit body then Inr None
      else if length s = length body then Inr (Some (int (nat_of_digits body)))
      else if length s = Suc (length body) then Inr (Some (- int (nat_of_digits body)))
      else Inl ValueError)"

definition before_char :: "char \<Rightarrow> string \<Rightarrow> string" where
  "before_char c s = takeWhile (\<lambda>d. d \<noteq> c) s"

definition after_char :: "char \<Rightarrow> string \<Rightarrow> string" where
  "after_char c s = (if c \<in> set s then tl (dropWhile (\<lambda>d. d \<noteq> c) s) else s)"

definition host_of :: "string option \<Rightarrow> string option" where
  "host_of t =
     (let s = before_char (CHR '':'') (strip (case t of None \<Rightarrow> [] | Some x \<Rightarrow> x));
          h = after_char (CHR ''*'') s in
      if h = [] then None else Some h)"

text \<open>A row of \<open>bjobs -json\<close>; absent and empty \<open>ERROR\<close> and \<open>STAT\<close> are alike.\<close>

record bjobs_row =
  br_error :: string
  br_jobid :: "string option"
  br_stat :: string
  br_exit :: "string option"
  br_host :: "string option"
  br_pending :: "string option"
  br_name :: "string option"
  br_user :: "string option"

definition query_failed :: "string \<Rightarrow> exn" where
  "query_failed m = OtherException (''QueryFailed: '' @ m)"

definition is_query_failed :: "exn \<Rightarrow> bool" where
  "is_query_failed e = (case e of OtherException m \<Rightarrow> starts_with m ''QueryFailed: '' | _ \<Rightarrow> False)"

definition row_status :: "bjobs_row \<Rightarrow> jstatus res" where
  "row_status r =
     (if br_error r \<noteq> [] then
        (if contains_str (lower (br_error r)) ''not found''
         then Inr (status_only (case br_jobid r of None \<Rightarrow> [] | Some i \<Rightarrow> i) ''NOTFOUND'' None)
         else Inl (query_failed (br_error r)))
      else bindE (exit_code_of (br_exit r)) (\<lambda>code.
        Inr \<lparr>st_job_id = (case br_jobid r of None \<Rightarrow> ''None'' | Some i \<Rightarrow> i),
             st_state = (if br_stat r = [] then ''UNKWN'' else br_stat r), st_exit = code,
             st_host = host_of (br_host r),
             st_pending = (let p = strip (case br_pending r of None \<Rightarrow> [] | Some x \<Rightarrow> x) in
               if p = [] then None else Some p),
             st_name = br_name r, st_user = br_user r\<rparr>))"

definition parse_bjobs :: "(string \<Rightarrow> bjobs_row list res) \<Rightarrow> string \<Rightarrow> jstatus list res" where
  "parse_bjobs json stdout = bindE (if stdout = [] then Inr [] else json stdout) (mapE row_status)"

text \<open>\<open>re.sub(r"\n\s{10,}", "", s)\<close>: a line break and at least ten spaces after it are removed.\<close>

function unfold_lines :: "string \<Rightarrow> string" where
  "unfold_lines [] = []"
| "unfold_lines (c # s) =
     (if c = CHR 10 \<and> 10 \<le> length (takeWhile is_space s)
      then unfold_lines (dropWhile is_space s) else c # unfold_lines s)"
  by pat_completeness auto
termination
  by (relation "measure length") (auto simp: le_imp_less_Suc length_dropWhile_le)

definition exit_number :: "string \<Rightarrow> string option" where
  "exit_number s = search_first (number_at ''Exited with exit code '' []) s"

definition signal_number :: "string \<Rightarrow> string option" where
  "signal_number s = search_first (\<lambda>t. case number_at ''Exited by LSF signal '' [] t of
     Some n \<Rightarrow> Some n | None \<Rightarrow> number_at ''Exited by signal '' [] t) s"

definition parse_bhist :: "string \<Rightarrow> string \<Rightarrow> jstatus option" where
  "parse_bhist job_id stdout =
     (let s = unfold_lines stdout in
      if contains_str s ''Done successfully'' then Some (status_only job_id ''DONE'' (Some 0))
      else case exit_number s of
        Some n \<Rightarrow> Some (status_only job_id ''EXIT'' (Some (int (nat_of_digits n))))
      | None \<Rightarrow>
          (case signal_number s of
             Some n \<Rightarrow> Some (status_only job_id ''EXIT'' (Some (128 + int (nat_of_digits n))))
           | None \<Rightarrow>
               if contains_str s ''Completed <exit>'' \<or> contains_str s ''Exited;''
               then Some (status_only job_id ''EXIT'' None) else None))"

section \<open>Commands\<close>

text \<open>
  What a command did: it gave no answer in time, could not be run, or exited with its output. A
  runner maps an argument vector and the state of the world to that, and the next state.
\<close>

datatype proc = TimedOut | NotRun string | Exited int string string

type_synonym 'w runner = "string list \<Rightarrow> 'w \<Rightarrow> proc \<times> 'w"

record submit_result =
  sr_outcome :: string
  sr_job_id :: "string option"

definition refused :: "string \<Rightarrow> bool" where
  "refused s \<longleftrightarrow> has_words False ''job not submitted'' (lower s)
     \<or> has_words False ''job was not submitted'' (lower s)"

definition classify_submit :: "proc \<Rightarrow> submit_result" where
  "classify_submit p =
     (case p of
        Exited code stdout stderr \<Rightarrow>
          (case search_first (number_at ''Job <'' ''> is submitted'') stdout of
             Some n \<Rightarrow> \<lparr>sr_outcome = ''accepted'', sr_job_id = Some n\<rparr>
           | None \<Rightarrow> \<lparr>sr_outcome = (if code \<noteq> 0 \<and> refused (stdout @ stderr) then ''rejected''
                        else ''ambiguous''), sr_job_id = None\<rparr>)
      | _ \<Rightarrow> \<lparr>sr_outcome = ''ambiguous'', sr_job_id = None\<rparr>)"

definition submit :: "'w runner \<Rightarrow> jobspec \<Rightarrow> 'w \<Rightarrow> submit_result res \<times> 'w" where
  "submit rn spec w =
     (case argv spec of
        Inl e \<Rightarrow> (Inl e, w)
      | Inr a \<Rightarrow> let (p, w) = rn a w in (Inr (classify_submit p), w))"

definition bjobs_answer :: "(string \<Rightarrow> bjobs_row list res) \<Rightarrow> proc \<Rightarrow> jstatus list res" where
  "bjobs_answer json p =
     (case p of
        TimedOut \<Rightarrow> Inl (query_failed ''bjobs timed out'')
      | NotRun m \<Rightarrow> Inl (query_failed m)
      | Exited code stdout stderr \<Rightarrow>
          if strip stdout = [] then
            (if contains_str (lower stderr) ''not found'' \<or> contains_str (lower stderr) ''no job found''
             then Inr []
             else Inl (query_failed (if strip stderr \<noteq> [] then strip stderr
                    else ''bjobs exited '' @ show_int code @ '' with no output'')))
          else (case parse_bjobs json stdout of
              Inl ValueError \<Rightarrow> Inl (query_failed ''unreadable bjobs output'')
            | r \<Rightarrow> r))"

definition bjobs :: "'w runner \<Rightarrow> (string \<Rightarrow> bjobs_row list res) \<Rightarrow> string list \<Rightarrow> 'w
    \<Rightarrow> jstatus list res \<times> 'w" where
  "bjobs rn json target w =
     (let (p, w) = rn ([''bjobs'', ''-a'', ''-json'', ''-o'', FIELDS] @ target) w in
      (bjobs_answer json p, w))"

definition query :: "'w runner \<Rightarrow> (string \<Rightarrow> bjobs_row list res) \<Rightarrow> string \<Rightarrow> 'w
    \<Rightarrow> jstatus res \<times> 'w" where
  "query rn json job_id w =
     (let (r, w) = bjobs rn json [job_id] w in
      (bindE r (\<lambda>sts. Inr (case sts of [] \<Rightarrow> status_only job_id ''NOTFOUND'' None | s # _ \<Rightarrow> s)), w))"

definition find_jobs :: "'w runner \<Rightarrow> (string \<Rightarrow> bjobs_row list res) \<Rightarrow> string \<Rightarrow> 'w
    \<Rightarrow> jstatus list res \<times> 'w" where
  "find_jobs rn json name w =
     (let (r, w) = bjobs rn json [''-J'', name] w in
      (bindE r (\<lambda>sts. Inr (filter (\<lambda>s. st_state s \<noteq> ''NOTFOUND'') sts)), w))"

definition history :: "'w runner \<Rightarrow> string \<Rightarrow> 'w \<Rightarrow> jstatus option \<times> 'w" where
  "history rn job_id w =
     (let (p, w) = rn [''bhist'', ''-l'', ''-n'', ''0'', job_id] w in
      (case p of Exited code stdout stderr \<Rightarrow> parse_bhist job_id stdout | _ \<Rightarrow> None, w))"

definition cancel :: "'w runner \<Rightarrow> string \<Rightarrow> 'w \<Rightarrow> bool \<times> 'w" where
  "cancel rn job_id w =
     (let (p, w) = rn [''bkill'', job_id] w in
      (case p of
         Exited code stdout stderr \<Rightarrow> code = 0 \<or> contains_str (stdout @ stderr) ''already finished''
       | _ \<Rightarrow> False, w))"

section \<open>Properties\<close>

text \<open>
  A run limit printed as hours and two-digit minutes is read back as its number of seconds.
\<close>

theorem wall_seconds_roundtrip:
  assumes "m < 60"
  shows "wall_seconds (show_nat h @ CHR '':'' # show_digit (m div 10) # [show_digit (m mod 10)])
    = Inr (h * 3600 + m * 60)"
proof -
  have cut: "cut_newline (s @ [show_digit d]) = s @ [show_digit d]" for s d
    using show_digit_is_digit[of d] by (auto simp: cut_newline_def is_digit_def)
  have c: "cut_newline (show_nat h @ CHR '':'' # show_digit (m div 10) # [show_digit (m mod 10)])
      = show_nat h @ CHR '':'' # show_digit (m div 10) # [show_digit (m mod 10)]"
    using cut[of "show_nat h @ CHR '':'' # [show_digit (m div 10)]" "m mod 10"] by simp
  have colon: "\<not> is_digit (CHR '':'')" by (simp add: is_digit_def)
  have "minutes_of [show_digit (m div 10), show_digit (m mod 10)] = Some m"
    using assms by (simp add: minutes_of_def show_digit_is_digit show_digit_value nat_of_digits_def)
  then show ?thesis
    unfolding wall_seconds_def c
    by (simp add: digits_def takeWhile_show_nat[OF colon] dropWhile_show_nat[OF colon])
qed

text \<open>
  A submission counts as rejected only when \<open>bsub\<close> exited with an error and said in words
  that the job was not submitted, and it names a job only when it is accepted; no answer, or any
  other answer, is ambiguous.
\<close>

theorem rejected_only_when_refused:
  "(sr_outcome (classify_submit p) = ''rejected'' \<longrightarrow>
      (\<exists>code out err. p = Exited code out err \<and> code \<noteq> 0 \<and> refused (out @ err)))
   \<and> (sr_outcome (classify_submit p) = ''accepted'' \<longleftrightarrow> sr_job_id (classify_submit p) \<noteq> None)
   \<and> sr_outcome (classify_submit p) \<in> {''accepted'', ''rejected'', ''ambiguous''}"
  by (cases p) (auto simp: classify_submit_def split: option.splits)

text \<open>
  A failed \<open>bjobs\<close> is never taken for a job that has gone: \<open>query\<close> reports \<open>NOTFOUND\<close> only when
  the command answered, with a row that is not found or no row at all.
\<close>

theorem not_found_needs_answer:
  assumes "query rn json job_id w = (Inr s, w')" and "st_state s = ''NOTFOUND''"
  shows "\<exists>code out err w0. rn ([''bjobs'', ''-a'', ''-json'', ''-o'', FIELDS, job_id]) w = (Exited code out err, w0)
    \<and> (strip out \<noteq> [] \<or> contains_str (lower err) ''not found'' \<or> contains_str (lower err) ''no job found'')"
proof (cases "rn [''bjobs'', ''-a'', ''-json'', ''-o'', FIELDS, job_id] w")
  case (Pair p w0)
  then have "\<exists>sts. bjobs_answer json p = Inr sts"
    using assms(1) by (auto simp: query_def bjobs_def bindE_Inr_iff)
  then have "\<exists>code out err. p = Exited code out err
      \<and> (strip out \<noteq> [] \<or> contains_str (lower err) ''not found'' \<or> contains_str (lower err) ''no job found'')"
    by (cases p) (auto simp: bjobs_answer_def split: if_splits)
  with Pair show ?thesis by auto
qed

section \<open>Witnesses\<close>

theorem wall_seconds_roundtrip_witness: "wall_seconds ''12:05'' = Inr 43500"
proof -
  have "show_nat 12 = ''12''" by (simp add: show_nat.simps show_digit_def)
  then show ?thesis using wall_seconds_roundtrip[of 5 12] by (simp add: show_digit_def)
qed

definition demo_refusal :: proc where
  "demo_refusal = Exited 255 [] ''Bad queue. Job not submitted.''"

theorem rejected_only_when_refused_witness:
  "sr_outcome (classify_submit demo_refusal) = ''rejected''
    \<and> (\<exists>code out err. demo_refusal = Exited code out err \<and> refused (out @ err))"
proof -
  have "sr_outcome (classify_submit demo_refusal) = ''rejected''" by code_simp
  with rejected_only_when_refused[of demo_refusal] show ?thesis by blast
qed

definition demo_gone :: "unit runner" where
  "demo_gone = (\<lambda>a w. (Exited 255 [] ''Job <7> is not found'', ()))"

theorem not_found_needs_answer_witness:
  "\<exists>s code out err. query demo_gone (\<lambda>_. Inr []) ''7'' () = (Inr s, ()) \<and> st_state s = ''NOTFOUND''
     \<and> demo_gone [''bjobs'', ''-a'', ''-json'', ''-o'', FIELDS, ''7''] () = (Exited code out err, ())"
proof -
  obtain s where s: "query demo_gone (\<lambda>_. Inr []) ''7'' () = (Inr s, ())" "st_state s = ''NOTFOUND''"
    by (simp add: query_def bjobs_def demo_gone_def bjobs_answer_def strip_def lower_def lower_char_def
        status_only_def)
  from not_found_needs_answer[OF s] s show ?thesis by (auto simp: demo_gone_def)
qed

end
