(* ===== verification/Manager.thy ===== *)
theory Manager
  imports Retry Scheduler Session
begin

text \<open>
  The manager job of \<open>src/lsf/manager.py\<close>: it reserves and submits one job per stage, polls the
  scheduler, settles what ended, retries contaminated cost jobs within the ledger's budget, and
  cancels what it owns. A manager's state is its ledger, what it has seen of each job, its stop
  reason and the world; the world (clock, scheduler commands, files the jobs write) is
  read and changed through the functions of \<open>world\<close>. Times are clock ticks. A query that fails with
  \<open>QueryFailed\<close> is waited out; any other exception of a scheduler call is a value of the result (\<open>res\<close>, \<open>Failed\<close>)
  and leaves every function that does not catch it, the manager included.
\<close>

section \<open>The world and the manager's state\<close>

text \<open>
  A job's outcome file and the committed state of a stage, as far as \<open>settle\<close> and \<open>classify\<close> read
  them; \<open>sv_job_key\<close> is the job key of the state's invocation.
\<close>

record job_record =
  jr_exit :: int
  jr_message :: "string option"
  jr_host :: "string option"
  jr_reason :: "string option"
  jr_phase :: "string option"

record committed_view =
  sv_status :: string
  sv_job_key :: "string option"

record 'w world =
  wd_runner :: "'w runner"
  wd_json :: "string \<Rightarrow> bjobs_row list res"
  wd_clock :: "'w \<Rightarrow> nat"
  wd_now :: "'w \<Rightarrow> nat"
  wd_sleep :: "nat \<Rightarrow> 'w \<Rightarrow> 'w"
  wd_nonce :: "'w \<Rightarrow> string \<times> 'w"
  wd_session :: "'w \<Rightarrow> bool"
  wd_state :: "'w \<Rightarrow> string \<Rightarrow> committed_view option"
  wd_record :: "'w \<Rightarrow> string \<Rightarrow> job_record option"
  wd_cleaned :: "'w \<Rightarrow> string option"
  wd_other_inputs :: "'w \<Rightarrow> string list"
  wd_decide :: "'w \<Rightarrow> (string \<times> nat) res \<times> 'w"
  wd_blocker :: "'w \<Rightarrow> string option res"

text \<open>The launch and the constants of the manager.\<close>

record launch =
  la_run_id :: string
  la_user :: string
  la_unit_tests :: bool
  la_command :: "string \<Rightarrow> string \<Rightarrow> nat option \<Rightarrow> string list"
  la_queue :: "string \<Rightarrow> string option"
  la_mem :: "string \<Rightarrow> string"
  la_wall :: "string \<Rightarrow> string"
  la_output :: "string \<Rightarrow> string"
  la_selector :: selector
  la_deadline :: nat
  la_poll :: nat
  la_retry_pause :: nat
  la_confirm_pause :: nat
  la_lost_after :: nat
  la_ticks :: nat

text \<open>\<open>_seen\<close>: the last state, and since when a job is missing or looked up by name.\<close>

record seen =
  se_state :: "string option"
  se_missing :: "nat option"
  se_lookup :: "nat option"

definition no_seen :: seen where
  "no_seen = \<lparr>se_state = None, se_missing = None, se_lookup = None\<rparr>"

record 'w mgr =
  mg_ledger :: ledger
  mg_seen :: "string \<rightharpoonup> seen"
  mg_stop :: "string option"
  mg_w :: 'w

text \<open>What interrupts an operation: the deadline, or an error.\<close>

datatype stop = DeadlineReached string | Failed exn

definition NAME_LOOKUPS :: nat where "NAME_LOOKUPS = 3"
definition CANCEL_CONFIRM_S :: nat where "CANCEL_CONFIRM_S = 60"
definition SIGNAL_CONFIRM_S :: nat where "SIGNAL_CONFIRM_S = 8"

definition put_job :: "string \<Rightarrow> (job_entry \<Rightarrow> job_entry) \<Rightarrow> 'w mgr \<Rightarrow> 'w mgr" where
  "put_job key f m = m\<lparr>mg_ledger := update key f (mg_ledger m)\<rparr>"

definition put_seen :: "string \<Rightarrow> (seen \<Rightarrow> seen) \<Rightarrow> 'w mgr \<Rightarrow> 'w mgr" where
  "put_seen key f m = m\<lparr>mg_seen := (mg_seen m)(key \<mapsto> f (case mg_seen m key of None \<Rightarrow> no_seen | Some s \<Rightarrow> s))\<rparr>"

section \<open>Outcomes\<close>

text \<open>\<open>state\<close>: the stage's committed state, when the session exists.\<close>

definition stage_view :: "'w world \<Rightarrow> 'w mgr \<Rightarrow> string \<Rightarrow> committed_view option" where
  "stage_view wd m st = (if wd_session wd (mg_w m) then wd_state wd (mg_w m) st else None)"

definition is_final :: "'w world \<Rightarrow> 'w mgr \<Rightarrow> string \<Rightarrow> bool" where
  "is_final wd m st = (case stage_view wd m st of None \<Rightarrow> False | Some v \<Rightarrow> sv_status v \<in> set FINAL)"

definition classify ::
    "job_entry \<Rightarrow> jstatus option \<Rightarrow> job_record option \<Rightarrow> bool \<Rightarrow> committed_view option \<Rightarrow> string" where
  "classify e status rec lost view =
     (if lost \<or> je_status e = Unreconciled then ''lost''
      else case rec of
        None \<Rightarrow>
          if status \<noteq> None \<and> map_option st_state status = Some ''EXIT'' then ''killed'' else ''unknown''
      | Some r \<Rightarrow>
          let code = jr_exit r;
              mine = (case view of None \<Rightarrow> False | Some v \<Rightarrow> sv_job_key v = Some (je_key e));
              committed = (case view of None \<Rightarrow> None | Some v \<Rightarrow> Some (sv_status v)) in
          if je_stage e = ''manager'' then (if code = 0 then ''complete'' else ''failed'')
          else if je_stage e = ''clean''
          then (if code = 0 then ''complete'' else if code = 41 then ''precondition'' else ''failed'')
          else if code = 0 then
            (case committed of
               Some s \<Rightarrow> if s \<in> set FINAL then (if mine then s else ''already-final'') else ''inconsistent''
             | None \<Rightarrow> ''inconsistent'')
          else if code = 42 then
            (if committed = Some ''noisy'' \<and> mine then ''noisy'' else ''inconsistent'')
          else if code \<ge> 128 then ''terminated''
          else if code = 40 then ''failed'' else if code = 41 then ''precondition''
          else if code = 64 then ''usage'' else ''failed'')"

definition settle_kind ::
    "job_entry \<Rightarrow> jstatus option \<Rightarrow> job_record option \<Rightarrow> bool \<Rightarrow> committed_view option \<Rightarrow> string option \<Rightarrow> string"
where
  "settle_kind e status rec lost view cancelled =
     (let kind = classify e status rec lost view in
      if cancelled \<noteq> None \<and> cancelled \<noteq> Some []
         \<and> kind \<in> {''killed'', ''terminated'', ''lost'', ''unknown''}
      then ''cancelled'' else kind)"

definition settled_entry ::
    "jstatus option \<Rightarrow> job_record option \<Rightarrow> string \<Rightarrow> string option \<Rightarrow> job_entry \<Rightarrow> job_entry" where
  "settled_entry status rec kind cancelled e = e\<lparr>
     je_status := (if je_status e = Unreconciled then Unreconciled else Terminal),
     je_host := (case status of None \<Rightarrow> None | Some s \<Rightarrow> st_host s),
     je_outcome := Some \<lparr>oc_kind = kind, oc_exit = map_option jr_exit rec,
       oc_message = (case rec of None \<Rightarrow> None | Some r \<Rightarrow> jr_message r),
       oc_reason = or_str (case rec of None \<Rightarrow> None | Some r \<Rightarrow> jr_reason r) cancelled,
       oc_host = or_str (case rec of None \<Rightarrow> None | Some r \<Rightarrow> jr_host r)
         (case status of None \<Rightarrow> None | Some s \<Rightarrow> st_host s),
       oc_phase = (case rec of None \<Rightarrow> None | Some r \<Rightarrow> jr_phase r)\<rparr>,
     je_consumes := Some (kind \<notin> {''skipped'', ''already-final''})\<rparr>"

definition settle ::
    "'w world \<Rightarrow> string \<Rightarrow> jstatus option \<Rightarrow> bool \<Rightarrow> string option \<Rightarrow> 'w mgr \<Rightarrow> 'w mgr" where
  "settle wd key status lost cancelled m =
     (case job (mg_ledger m) key of
        None \<Rightarrow> m
      | Some e \<Rightarrow>
          let rec = wd_record wd (mg_w m) key;
              kind = settle_kind e status rec lost (stage_view wd m (je_stage e)) cancelled in
          put_job key (settled_entry status rec kind cancelled) m)"

section \<open>Scheduler calls\<close>

definition ask :: "('w \<Rightarrow> 'a \<times> 'w) \<Rightarrow> 'w mgr \<Rightarrow> 'a \<times> 'w mgr" where
  "ask f m = (let (a, w) = f (mg_w m) in (a, m\<lparr>mg_w := w\<rparr>))"

definition job_query :: "'w world \<Rightarrow> job_entry \<Rightarrow> 'w mgr \<Rightarrow> jstatus res \<times> 'w mgr" where
  "job_query wd e = ask (query (wd_runner wd) (wd_json wd) (case je_job_id e of None \<Rightarrow> ''None'' | Some i \<Rightarrow> i))"

definition job_history :: "'w world \<Rightarrow> job_entry \<Rightarrow> 'w mgr \<Rightarrow> jstatus option \<times> 'w mgr" where
  "job_history wd e = ask (history (wd_runner wd) (case je_job_id e of None \<Rightarrow> ''None'' | Some i \<Rightarrow> i))"

definition cancel_all :: "'w world \<Rightarrow> jstatus list \<Rightarrow> 'w mgr \<Rightarrow> 'w mgr" where
  "cancel_all wd extra m = foldl (\<lambda>m s. snd (ask (cancel (wd_runner wd) (st_job_id s)) m)) m extra"

text \<open>What \<open>except QueryFailed\<close> lets through.\<close>

definition uncaught :: "exn \<Rightarrow> 'a \<Rightarrow> 'a res" where
  "uncaught e a = (if is_query_failed e then Inr a else Inl e)"

text \<open>
  \<open>reconcile_by_name\<close>: the jobs of this user with the entry's name are found; the first is
  adopted and any other is cancelled. A name not found is given up only after a long silence.
\<close>

definition not_found :: "'w world \<Rightarrow> launch \<Rightarrow> job_entry \<Rightarrow> 'w mgr \<Rightarrow> 'w mgr" where
  "not_found wd la e m =
     (let lookups = je_lookups e + 1;
          clock = wd_clock wd (mg_w m);
          since = (case mg_seen m (je_key e) of None \<Rightarrow> None | Some s \<Rightarrow> se_lookup s);
          waited = clock - (case since of None \<Rightarrow> clock | Some t \<Rightarrow> t);
          m = put_seen (je_key e) (\<lambda>s. s\<lparr>se_lookup := Some (case since of None \<Rightarrow> clock | Some t \<Rightarrow> t)\<rparr>) m;
          give_up = (lookups \<ge> NAME_LOOKUPS \<and> waited \<ge> la_lost_after la);
          status = (if give_up \<or> je_status e = Unreconciled then Unreconciled else je_status e) in
      put_job (je_key e) (\<lambda>x. x\<lparr>je_lookups := lookups, je_status := status\<rparr>) m)"

definition reconcile_by_name :: "'w world \<Rightarrow> launch \<Rightarrow> job_entry \<Rightarrow> 'w mgr \<Rightarrow> 'w mgr \<times> unit res" where
  "reconcile_by_name wd la e m =
     (let (found, m) = ask (find_jobs (wd_runner wd) (wd_json wd) (je_name e)) m in
      case found of
        Inl err \<Rightarrow> (m, uncaught err ())
      | Inr all_found \<Rightarrow>
          (case filter (\<lambda>s. st_user s = Some (la_user la) \<and> st_name s = Some (je_name e)) all_found of
             s # extra \<Rightarrow>
               let m = put_job (je_key e) (\<lambda>x. x\<lparr>je_status := Submitted, je_job_id := Some (st_job_id s)\<rparr>) m;
                   m = m\<lparr>mg_seen := (mg_seen m)(je_key e \<mapsto> no_seen)\<rparr> in
               (cancel_all wd extra m, Inr ())
           | [] \<Rightarrow> (not_found wd la e m, Inr ())))"

definition owned :: "bool \<Rightarrow> ledger \<Rightarrow> job_entry list" where
  "owned with_manager l =
     filter (\<lambda>e. (je_status e \<in> ACTIVE \<or> je_status e = Unreconciled)
       \<and> (with_manager \<or> je_stage e \<noteq> ''manager'')) (lg_jobs l)"

section \<open>Polling\<close>

text \<open>\<open>observe\<close> from \<open>query\<close> on; \<open>True\<close> once the job is settled.\<close>

definition missing :: "'w world \<Rightarrow> launch \<Rightarrow> string \<Rightarrow> 'w mgr \<Rightarrow> 'w mgr \<times> bool" where
  "missing wd la key m =
     (let clock = wd_clock wd (mg_w m);
          since = (case mg_seen m key of None \<Rightarrow> None | Some s \<Rightarrow> se_missing s);
          start = (case since of None \<Rightarrow> clock | Some t \<Rightarrow> t);
          m = put_seen key (\<lambda>s. s\<lparr>se_missing := Some start\<rparr>) m in
      if clock - start \<ge> la_lost_after la
      then (settle wd key None True None (put_job key (\<lambda>x. x\<lparr>je_status := Unreconciled\<rparr>) m), True)
      else (m, False))"

definition poll_job :: "'w world \<Rightarrow> launch \<Rightarrow> job_entry \<Rightarrow> 'w mgr \<Rightarrow> 'w mgr \<times> bool res" where
  "poll_job wd la e m =
     (let key = je_key e; (answer, m) = job_query wd e m in
      case answer of
        Inl err \<Rightarrow>
          if is_query_failed err
          then (put_job key (\<lambda>x. x\<lparr>je_failures := je_failures e + 1\<rparr>) m, Inr False) else (m, Inl err)
      | Inr status \<Rightarrow>
          let m = put_seen key (\<lambda>s. s\<lparr>se_state := Some (st_state status)\<rparr>) m in
          if st_state status = ''NOTFOUND''
          then (let (past, m) = job_history wd e m in
                case past of
                  Some s \<Rightarrow> (settle wd key (Some s) False None m, Inr True)
                | None \<Rightarrow> let (m, b) = missing wd la key m in (m, Inr b))
          else let m = put_seen key (\<lambda>s. s\<lparr>se_missing := None\<rparr>) m in
            if terminal status then (settle wd key (Some status) False None m, Inr True) else (m, Inr False))"

text \<open>What interrupts a wait when an operation of the manager raises.\<close>

definition failing :: "'m \<times> 'a res \<Rightarrow> 'm \<times> (stop + 'a)" where
  "failing p = (case p of (m, Inl e) \<Rightarrow> (m, Inl (Failed e)) | (m, Inr a) \<Rightarrow> (m, Inr a))"

definition observe :: "'w world \<Rightarrow> launch \<Rightarrow> string \<Rightarrow> 'w mgr \<Rightarrow> 'w mgr \<times> (stop + bool)" where
  "observe wd la key m =
     (case job (mg_ledger m) key of
        None \<Rightarrow> (m, Inl (Failed KeyError))
      | Some e \<Rightarrow>
          (case (if je_status e \<in> {Reserved, Ambiguous} then reconcile_by_name wd la e m else (m, Inr ())) of
             (m, Inl x) \<Rightarrow> (m, Inl (Failed x))
           | (m, Inr _) \<Rightarrow>
          (case job (mg_ledger m) key of
             None \<Rightarrow> (m, Inl (Failed KeyError))
           | Some e' \<Rightarrow>
               if je_status e \<in> {Reserved, Ambiguous} \<and> je_status e' = Unreconciled
               then (settle wd key None False None m, Inr True)
               else if je_status e \<in> {Reserved, Ambiguous} \<and> je_status e' \<noteq> Submitted
               then (m, Inr False)
               else if je_status e' \<notin> ACTIVE then (m, Inr True)
               else failing (poll_job wd la e' m))))"

text \<open>One pass over the pending keys; what stays pending.\<close>

fun observe_all ::
    "'w world \<Rightarrow> launch \<Rightarrow> string list \<Rightarrow> 'w mgr \<Rightarrow> 'w mgr \<times> (stop + string list)" where
  "observe_all wd la [] m = (m, Inr [])"
| "observe_all wd la (k # ks) m =
     (case observe wd la k m of
        (m, Inl e) \<Rightarrow> (m, Inl e)
      | (m, Inr b) \<Rightarrow>
          (case observe_all wd la ks m of
             (m, Inl e) \<Rightarrow> (m, Inl e)
           | (m, Inr rest) \<Rightarrow> (m, Inr (if b then rest else k # rest))))"

definition pause :: "'w world \<Rightarrow> nat \<Rightarrow> 'w mgr \<Rightarrow> 'w mgr" where
  "pause wd t m = m\<lparr>mg_w := wd_sleep wd t (mg_w m)\<rparr>"

definition deadline_stop :: "string list \<Rightarrow> stop" where
  "deadline_stop pending = DeadlineReached
     (''the manager's deadline passed while waiting for '' @ join_str '', '' pending)"

partial_function (option) wait_jobs ::
    "'w world \<Rightarrow> launch \<Rightarrow> string list \<Rightarrow> 'w mgr \<Rightarrow> ('w mgr \<times> (stop + unit)) option" where
  "wait_jobs wd la pending m =
     (if pending = [] then Some (m, Inr ())
      else (case observe_all wd la pending m of
        (m, Inl e) \<Rightarrow> Some (m, Inl e)
      | (m, Inr rest) \<Rightarrow>
          if rest = [] then Some (m, Inr ())
          else if wd_clock wd (mg_w m) \<ge> la_deadline la
          then Some (m, Inl (deadline_stop rest))
          else wait_jobs wd la rest (pause wd (la_poll la) m)))"

section \<open>Submitting\<close>

definition pad2 :: "nat \<Rightarrow> string" where
  "pad2 n = (if n < 10 then CHR ''0'' # show_nat n else show_nat n)"

definition job_key :: "string \<Rightarrow> nat option \<Rightarrow> string \<Rightarrow> string" where
  "job_key st attempt nonce =
     (case attempt of
        Some (Suc n) \<Rightarrow> st @ ''-a'' @ pad2 (Suc n) @ ''-'' @ nonce
      | _ \<Rightarrow> st @ ''-'' @ nonce)"

definition job_name :: "launch \<Rightarrow> string \<Rightarrow> string" where
  "job_name la key = ''qtb-'' @ la_run_id la @ ''-'' @ key"

definition job_spec :: "launch \<Rightarrow> string \<Rightarrow> string \<Rightarrow> nat option \<Rightarrow> string list \<Rightarrow> jobspec" where
  "job_spec la st key attempt hosts = \<lparr>js_kind = st, js_name = job_name la key,
     js_command = la_command la st key attempt, js_queue = la_queue la st, js_mem = la_mem la st,
     js_wall = la_wall la st, js_output = la_output la key,
     js_selector = (if st = ''cost'' then la_selector la else no_selector),
     js_rerunnable = False, js_exclude = hosts\<rparr>"

text \<open>At most \<open>MAX_REJECTIONS\<close> submissions; \<open>None\<close> when all were rejected.\<close>

fun try_submit ::
    "nat \<Rightarrow> 'w world \<Rightarrow> launch \<Rightarrow> jobspec \<Rightarrow> string \<Rightarrow> 'w mgr \<Rightarrow> 'w mgr \<times> (stop + string option)" where
  "try_submit 0 wd la spec key m =
     ((put_job key (\<lambda>x. x\<lparr>je_status := Rejected\<rparr>) m)\<lparr>mg_stop :=
        Some (''LSF rejected the '' @ js_kind spec @ '' job '' @ show_nat MAX_REJECTIONS @ '' times'')\<rparr>,
      Inr None)"
| "try_submit (Suc n) wd la spec key m =
     (case ask (submit (wd_runner wd) spec) m of
        (Inl e, m) \<Rightarrow> (m, Inl (Failed e))
      | (Inr r, m) \<Rightarrow>
          let m = put_job key (\<lambda>x. x\<lparr>je_submissions := je_submissions x @ [sr_outcome r]\<rparr>) m in
          if sr_outcome r = ''accepted''
          then ((put_job key (\<lambda>x. x\<lparr>je_status := Submitted, je_job_id := sr_job_id r\<rparr>) m)
                  \<lparr>mg_seen := (mg_seen m)(key \<mapsto> no_seen)\<rparr>, Inr (Some key))
          else if sr_outcome r = ''ambiguous''
          then (put_job key (\<lambda>x. x\<lparr>je_status := Ambiguous, je_lookups := 0\<rparr>) m, Inr (Some key))
          else try_submit n wd la spec key (pause wd (la_retry_pause la) m))"

text \<open>The stop reason without the number of hours that remain, a rounded decimal.\<close>

definition no_fit :: "launch \<Rightarrow> string \<Rightarrow> string" where
  "no_fit la st = st @ '' needs up to '' @ la_wall la st
     @ '' but less remains before the manager's deadline''"

definition submit_job ::
    "'w world \<Rightarrow> launch \<Rightarrow> string \<Rightarrow> nat option \<Rightarrow> 'w mgr \<Rightarrow> 'w mgr \<times> (stop + string option)" where
  "submit_job wd la st attempt m =
     (let (nonce, m) = ask (wd_nonce wd) m;
          key = job_key st attempt nonce;
          hosts = (if st = ''cost'' then excluded_hosts (mg_ledger m) else []);
          spec = job_spec la st key attempt hosts in
      case wall_seconds (js_wall spec) of
        Inl e \<Rightarrow> (m, Inl (Failed e))
      | Inr needed \<Rightarrow>
          if la_deadline la < wd_clock wd (mg_w m) + needed * la_ticks la
          then (m\<lparr>mg_stop := Some (no_fit la st)\<rparr>, Inr None)
          else (case argv spec of
            Inl e \<Rightarrow> (m, Inl (Failed e))
          | Inr a \<Rightarrow>
              (case reserve key st attempt (js_name spec) (wd_now wd (mg_w m)) (mg_ledger m) of
                 Inl e \<Rightarrow> (m, Inl (Failed e))
               | Inr l \<Rightarrow> try_submit MAX_REJECTIONS wd la spec key (m\<lparr>mg_ledger := l\<rparr>))))"

text \<open>The keys to wait for: adopted jobs, and new ones for stages that may still run.\<close>

fun submit_stages ::
    "'w world \<Rightarrow> launch \<Rightarrow> string list \<Rightarrow> 'w mgr \<Rightarrow> 'w mgr \<times> (stop + string list)" where
  "submit_stages wd la [] m = (m, Inr [])"
| "submit_stages wd la (st # sts) m =
     (let (m, got) =
        (case latest (mg_ledger m) st of
           Some e \<Rightarrow>
             if je_status e \<in> ACTIVE then (m, Inr (Some (je_key e))) else (m, Inr None)
         | None \<Rightarrow>
             if is_final wd m st then (m, Inr None) else submit_job wd la st None m) in
      case got of
        Inl e \<Rightarrow> (m, Inl e)
      | Inr k \<Rightarrow>
          (case submit_stages wd la sts m of
             (m, Inl e) \<Rightarrow> (m, Inl e)
           | (m, Inr ks) \<Rightarrow> (m, Inr ((case k of None \<Rightarrow> [] | Some k \<Rightarrow> [k]) @ ks))))"

definition unconfirmed :: string where
  "unconfirmed = ''child termination is unconfirmed; run lsf.control reap''"

text \<open>Sequencing of operations that may not return, or are interrupted.\<close>

definition bindM ::
    "('m \<times> (stop + 'a)) option \<Rightarrow> ('a \<Rightarrow> 'm \<Rightarrow> ('m \<times> (stop + 'b)) option) \<Rightarrow> ('m \<times> (stop + 'b)) option"
where
  "bindM x f = (case x of None \<Rightarrow> None
     | Some (m, Inl e) \<Rightarrow> Some (m, Inl e) | Some (m, Inr a) \<Rightarrow> f a m)"

definition stage_jobs ::
    "'w world \<Rightarrow> launch \<Rightarrow> string list \<Rightarrow> 'w mgr \<Rightarrow> ('w mgr \<times> (stop + unit)) option" where
  "stage_jobs wd la sts m =
     bindM (Some (submit_stages wd la sts m)) (\<lambda>keys m.
     bindM (wait_jobs wd la keys m) (\<lambda>_ m.
       if list_ex (\<lambda>e. je_status e = Unreconciled) (owned False (mg_ledger m))
       then Some (m, Inl (Failed (HarnessError unconfirmed))) else Some (m, Inr ())))"

section \<open>The cost loop\<close>

text \<open>One turn: the key of a cost job to wait for, or \<open>None\<close> when the loop returns.\<close>

definition set_ledger :: "(ledger \<Rightarrow> ledger) \<Rightarrow> 'w mgr \<Rightarrow> 'w mgr" where
  "set_ledger f m = m\<lparr>mg_ledger := f (mg_ledger m)\<rparr>"

definition cost_next :: "'w world \<Rightarrow> launch \<Rightarrow> 'w mgr \<Rightarrow> 'w mgr \<times> (stop + string option)" where
  "cost_next wd la m =
     (let d = decision (mg_ledger m) in
      if is_final wd m ''cost'' then (m, Inr None)
      else if \<not> dc_allowed d
      then (set_ledger (if dc_exhausted d then record_exhaustion (dc_reason d)
                        else record_stop (Some (dc_reason d))) m, Inr None)
      else (case submit_job wd la ''cost'' (Some (dc_next d)) m of
          (m, Inr None) \<Rightarrow> (set_ledger (record_stop (mg_stop m)) m, Inr None)
        | r \<Rightarrow> r))"

definition cost_turn :: "'w world \<Rightarrow> launch \<Rightarrow> 'w mgr \<Rightarrow> 'w mgr \<times> (stop + string option)" where
  "cost_turn wd la m =
     (case latest (mg_ledger m) ''cost'' of
        Some e \<Rightarrow> if je_status e \<in> ACTIVE then (m, Inr (Some (je_key e))) else cost_next wd la m
      | None \<Rightarrow> cost_next wd la m)"

partial_function (option) cost_loop ::
    "'w world \<Rightarrow> launch \<Rightarrow> 'w mgr \<Rightarrow> ('w mgr \<times> (stop + unit)) option" where
  "cost_loop wd la m =
     (case cost_turn wd la m of
        (m, Inl e) \<Rightarrow> Some (m, Inl e)
      | (m, Inr None) \<Rightarrow> Some (m, Inr ())
      | (m, Inr (Some key)) \<Rightarrow>
          (case wait_jobs wd la [key] m of
             None \<Rightarrow> None
           | Some (m, Inl e) \<Rightarrow> Some (m, Inl e)
           | Some (m, Inr _) \<Rightarrow> cost_loop wd la m))"

section \<open>Cancelling and reconciling\<close>

text \<open>The status of a job, with its history when \<open>bjobs\<close> no longer lists it.\<close>

definition final_status :: "'w world \<Rightarrow> job_entry \<Rightarrow> 'w mgr \<Rightarrow> jstatus res \<times> 'w mgr" where
  "final_status wd e m =
     (let (answer, m) = job_query wd e m in
      case answer of
        Inl err \<Rightarrow> (Inl err, m)
      | Inr status \<Rightarrow>
          if st_state status = ''NOTFOUND''
          then (let (past, m) = job_history wd e m in
                (Inr (case past of None \<Rightarrow> status | Some s \<Rightarrow> s), m))
          else (Inr status, m))"

text \<open>Only a job whose name and user are checked is killed; \<open>True\<close> when it was.\<close>

definition cancel_submitted :: "'w world \<Rightarrow> launch \<Rightarrow> string \<Rightarrow> job_entry \<Rightarrow> 'w mgr \<Rightarrow> 'w mgr \<times> bool res" where
  "cancel_submitted wd la reason e m =
     (let (answer, m) = final_status wd e m in
      case answer of
        Inl err \<Rightarrow> (m, uncaught err False)
      | Inr status \<Rightarrow>
          if terminal status then (settle wd (je_key e) (Some status) False (Some reason) m, Inr False)
          else if st_name status \<noteq> Some (je_name e) \<or> st_user status \<noteq> Some (la_user la) then (m, Inr False)
          else let (ok, m) = ask (cancel (wd_runner wd) (case je_job_id e of None \<Rightarrow> ''None'' | Some i \<Rightarrow> i)) m in
            (put_job (je_key e) (\<lambda>x. x\<lparr>je_cancel := Some reason\<rparr>) m, Inr True))"

definition cancel_one :: "'w world \<Rightarrow> launch \<Rightarrow> string \<Rightarrow> string \<Rightarrow> 'w mgr \<Rightarrow> 'w mgr \<times> bool res" where
  "cancel_one wd la reason key m =
     (case job (mg_ledger m) key of
        None \<Rightarrow> (m, Inr False)
      | Some e \<Rightarrow>
          if je_status e \<in> {Reserved, Ambiguous, Unreconciled}
          then (case reconcile_by_name wd la e m of
              (m, Inl x) \<Rightarrow> (m, Inl x)
            | (m, Inr _) \<Rightarrow>
                (case job (mg_ledger m) key of
                  None \<Rightarrow> (m, Inr False)
                | Some e \<Rightarrow> if je_status e \<noteq> Submitted then (m, Inr False)
                    else cancel_submitted wd la reason e m))
          else cancel_submitted wd la reason e m)"

fun cancel_targets ::
    "'w world \<Rightarrow> launch \<Rightarrow> string \<Rightarrow> string list \<Rightarrow> 'w mgr \<Rightarrow> 'w mgr \<times> string list res" where
  "cancel_targets wd la reason [] m = (m, Inr [])"
| "cancel_targets wd la reason (k # ks) m =
     (case cancel_one wd la reason k m of
        (m, Inl x) \<Rightarrow> (m, Inl x)
      | (m, Inr b) \<Rightarrow>
          (case cancel_targets wd la reason ks m of
             (m, Inl x) \<Rightarrow> (m, Inl x)
           | (m, Inr rest) \<Rightarrow> (m, Inr (if b then k # rest else rest))))"

text \<open>One job of the confirmation loop, \<open>True\<close> when it ended, and one pass; the keys that have not ended.\<close>

definition confirm_one :: "'w world \<Rightarrow> string \<Rightarrow> string \<Rightarrow> 'w mgr \<Rightarrow> 'w mgr \<times> bool res" where
  "confirm_one wd reason k m =
     (case job (mg_ledger m) k of
        None \<Rightarrow> (m, Inr False)
      | Some e \<Rightarrow>
          let (answer, m) = final_status wd e m in
          case answer of
            Inl err \<Rightarrow> (m, uncaught err False)
          | Inr status \<Rightarrow>
              if terminal status then (settle wd k (Some status) False (Some reason) m, Inr True)
              else (m, Inr False))"

fun confirm_pass ::
    "'w world \<Rightarrow> string \<Rightarrow> string list \<Rightarrow> 'w mgr \<Rightarrow> 'w mgr \<times> string list res" where
  "confirm_pass wd reason [] m = (m, Inr [])"
| "confirm_pass wd reason (k # ks) m =
     (case confirm_one wd reason k m of
        (m, Inl x) \<Rightarrow> (m, Inl x)
      | (m, Inr ended) \<Rightarrow>
          (case confirm_pass wd reason ks m of
             (m, Inl x) \<Rightarrow> (m, Inl x)
           | (m, Inr rest) \<Rightarrow> (m, Inr (if ended then rest else k # rest))))"

partial_function (option) confirm_loop ::
    "'w world \<Rightarrow> launch \<Rightarrow> string \<Rightarrow> nat \<Rightarrow> string list \<Rightarrow> 'w mgr \<Rightarrow> ('w mgr \<times> unit res) option" where
  "confirm_loop wd la reason limit pending m =
     (if pending = [] \<or> wd_clock wd (mg_w m) \<ge> limit then Some (m, Inr ())
      else (case confirm_pass wd reason pending m of
        (m, Inl x) \<Rightarrow> Some (m, Inl x)
      | (m, Inr rest) \<Rightarrow>
          if rest = [] then Some (m, Inr ())
          else confirm_loop wd la reason limit rest (pause wd (la_confirm_pause la) m)))"

definition cancel_owned ::
    "'w world \<Rightarrow> launch \<Rightarrow> string \<Rightarrow> nat \<Rightarrow> bool \<Rightarrow> 'w mgr \<Rightarrow> ('w mgr \<times> string list res) option" where
  "cancel_owned wd la reason confirm_s with_manager m =
     (case cancel_targets wd la reason (map je_key (owned with_manager (mg_ledger m))) m of
        (m, Inl x) \<Rightarrow> Some (m, Inl x)
      | (m, Inr targets) \<Rightarrow>
          (case confirm_loop wd la reason (wd_clock wd (mg_w m) + confirm_s * la_ticks la) targets m of
             None \<Rightarrow> None
           | Some (m, Inl x) \<Rightarrow> Some (m, Inl x)
           | Some (m, Inr _) \<Rightarrow> Some (m, Inr targets)))"

definition reconcile_one :: "'w world \<Rightarrow> launch \<Rightarrow> string \<Rightarrow> 'w mgr \<Rightarrow> 'w mgr \<times> unit res" where
  "reconcile_one wd la key m =
     (case job (mg_ledger m) key of
        None \<Rightarrow> (m, Inr ())
      | Some e \<Rightarrow>
          if je_status e \<in> {Reserved, Ambiguous, Unreconciled} then reconcile_by_name wd la e m
          else (case job_query wd e m of
              (Inl err, m) \<Rightarrow> (m, uncaught err ())
            | (Inr status, m) \<Rightarrow>
                let m = m\<lparr>mg_seen := (mg_seen m)(key \<mapsto> no_seen\<lparr>se_state := Some (st_state status)\<rparr>)\<rparr>;
                    (status, m) = (if st_state status = ''NOTFOUND''
                      then (let (past, m) = job_history wd e m in
                            (case past of None \<Rightarrow> status | Some s \<Rightarrow> s, m))
                      else (status, m)) in
                (if terminal status then settle wd key (Some status) False None m else m, Inr ())))"

fun reconcile_all :: "'w world \<Rightarrow> launch \<Rightarrow> string list \<Rightarrow> 'w mgr \<Rightarrow> 'w mgr \<times> unit res" where
  "reconcile_all wd la [] m = (m, Inr ())"
| "reconcile_all wd la (k # ks) m =
     (case reconcile_one wd la k m of
        (m, Inl x) \<Rightarrow> (m, Inl x)
      | (m, Inr _) \<Rightarrow> reconcile_all wd la ks m)"

definition reconcile :: "'w world \<Rightarrow> launch \<Rightarrow> 'w mgr \<Rightarrow> 'w mgr \<times> unit res" where
  "reconcile wd la m = reconcile_all wd la (map je_key (owned False (mg_ledger m))) m"

section \<open>Deciding\<close>

definition ended_kind :: "'w mgr \<Rightarrow> string \<Rightarrow> string option" where
  "ended_kind m key = (case job (mg_ledger m) key of
     None \<Rightarrow> None | Some e \<Rightarrow> map_option oc_kind (je_outcome e))"

definition ended_message :: "'w mgr \<Rightarrow> string \<Rightarrow> string option" where
  "ended_message m key = (case job (mg_ledger m) key of
     None \<Rightarrow> None | Some e \<Rightarrow> (case je_outcome e of None \<Rightarrow> None | Some oc \<Rightarrow> oc_message oc))"

definition cleanup_result :: "'w world \<Rightarrow> string \<Rightarrow> 'w mgr \<Rightarrow> string \<times> string option" where
  "cleanup_result wd key m =
     (if ended_kind m key = Some ''complete'' \<or> wd_cleaned wd (mg_w m) = Some ''complete''
      then (''complete'', None)
      else if ended_kind m key = Some ''precondition'' then (''skipped'', ended_message m key)
      else (''failed'', Some (''clean job ended ''
        @ (case ended_kind m key of None \<Rightarrow> ''None'' | Some k \<Rightarrow> k) @ '': ''
        @ (case ended_message m key of None \<Rightarrow> ''None'' | Some t \<Rightarrow> t))))"

definition cleanup_job ::
    "'w world \<Rightarrow> launch \<Rightarrow> 'w mgr \<Rightarrow> ('w mgr \<times> (stop + string \<times> string option)) option" where
  "cleanup_job wd la m =
     (let (m, got) = (case latest (mg_ledger m) ''clean'' of
          Some e \<Rightarrow> (m, Inr (Some (je_key e, je_status e \<in> ACTIVE)))
        | None \<Rightarrow>
            (case submit_job wd la ''clean'' None m of
               (m, Inl e) \<Rightarrow> (m, Inl e)
             | (m, Inr k) \<Rightarrow> (m, Inr (map_option (\<lambda>k. (k, True)) k)))) in
      case got of
        Inl e \<Rightarrow> Some (m, Inl e)
      | Inr None \<Rightarrow> Some (m, Inr (''skipped'', mg_stop m))
      | Inr (Some (key, waiting)) \<Rightarrow>
          if \<not> waiting then Some (m, Inr (cleanup_result wd key m))
          else (case wait_jobs wd la [key] m of
              None \<Rightarrow> None
            | Some (m, Inl (DeadlineReached why)) \<Rightarrow>
                (case cancel_owned wd la ''deadline'' CANCEL_CONFIRM_S False m of
                   None \<Rightarrow> None
                 | Some (m, Inl x) \<Rightarrow> Some (m, Inl (Failed x))
                 | Some (m, Inr _) \<Rightarrow> Some (m, Inr (''failed'', Some why)))
            | Some (m, Inl e) \<Rightarrow> Some (m, Inl e)
            | Some (m, Inr _) \<Rightarrow> Some (m, Inr (cleanup_result wd key m))))"

text \<open>\<open>after_decide\<close> with \<open>cleanup_job\<close>: it never raises.\<close>

definition cleanup_after ::
    "'w world \<Rightarrow> launch \<Rightarrow> 'w mgr \<Rightarrow> ('w mgr \<times> string \<times> string option) option" where
  "cleanup_after wd la m =
     (case wd_blocker wd (mg_w m) of
        Inl e \<Rightarrow> Some (m, ''failed'', Some (exn_message e))
      | Inr (Some blocker) \<Rightarrow> Some (m, ''skipped'', Some blocker)
      | Inr None \<Rightarrow>
          (case cleanup_job wd la m of
             None \<Rightarrow> None
           | Some (m, Inr r) \<Rightarrow> Some (m, r)
           | Some (m, Inl (Failed e)) \<Rightarrow> Some (m, ''failed'', Some (exn_message e))
           | Some (m, Inl (DeadlineReached why)) \<Rightarrow> Some (m, ''failed'', Some why)))"

definition set_acct :: "(epoch_acct \<Rightarrow> epoch_acct) \<Rightarrow> 'w mgr \<Rightarrow> 'w mgr" where
  "set_acct f m = set_ledger (\<lambda>l. l\<lparr>lg_acct := f (lg_acct l)\<rparr>) m"

definition decide_session :: "'w world \<Rightarrow> launch \<Rightarrow> 'w mgr \<Rightarrow> ('w mgr \<times> nat) option" where
  "decide_session wd la m =
     (case ask (wd_decide wd) m of
        (Inl e, m) \<Rightarrow> Some (set_acct (\<lambda>a. a\<lparr>ep_decide := Some (DecideError (exn_message e))\<rparr>) m, EXIT_ERROR)
      | (Inr (status, code), m) \<Rightarrow>
          (case cleanup_after wd la (set_acct (\<lambda>a. a\<lparr>ep_decide := Some (Decided status code)\<rparr>) m) of
             None \<Rightarrow> None
           | Some (m, r) \<Rightarrow> Some (set_acct (\<lambda>a. a\<lparr>ep_cleanup := Some r\<rparr>) m, code)))"

section \<open>The pipeline\<close>

definition when_final ::
    "'w world \<Rightarrow> string \<Rightarrow> ('w mgr \<Rightarrow> ('w mgr \<times> (stop + unit)) option) \<Rightarrow> 'w mgr
       \<Rightarrow> ('w mgr \<times> (stop + unit)) option" where
  "when_final wd st f m = (if is_final wd m st then f m else Some (m, Inr ()))"

text \<open>The stages; \<open>Inr False\<close> when compile did not create the session.\<close>

definition run_stages :: "'w world \<Rightarrow> launch \<Rightarrow> 'w mgr \<Rightarrow> ('w mgr \<times> (stop + bool)) option" where
  "run_stages wd la m =
     bindM (stage_jobs wd la [''compile''] m) (\<lambda>_ m.
       if \<not> wd_session wd (mg_w m)
       then Some (m\<lparr>mg_stop := Some ''compile did not create the session''\<rparr>, Inr False)
       else
         bindM (when_final wd ''compile'' (stage_jobs wd la [''quality'']) m) (\<lambda>_ m.
         bindM (when_final wd ''quality'' (stage_jobs wd la
             (''correctness'' # (if la_unit_tests la then [''unit-tests''] else []))) m) (\<lambda>_ m.
         bindM (when_final wd ''correctness'' (cost_loop wd la) m) (\<lambda>_ m.
           Some (m, Inr True)))))"

definition finish_pipeline :: "'w world \<Rightarrow> launch \<Rightarrow> 'w mgr \<Rightarrow> ('w mgr \<times> (stop + nat)) option" where
  "finish_pipeline wd la m =
     (if owned False (mg_ledger m) \<noteq> []
      then Some (m\<lparr>mg_stop := Some unconfirmed\<rparr>, Inr EXIT_ERROR)
      else (case decide_session wd la m of None \<Rightarrow> None | Some (m, code) \<Rightarrow> Some (m, Inr code)))"

definition pipeline :: "'w world \<Rightarrow> launch \<Rightarrow> 'w mgr \<Rightarrow> ('w mgr \<times> (stop + nat)) option" where
  "pipeline wd la m =
     (case run_stages wd la m of
        None \<Rightarrow> None
      | Some (m, Inl (Failed e)) \<Rightarrow> Some (m, Inl (Failed e))
      | Some (m, Inl (DeadlineReached why)) \<Rightarrow>
          (case cancel_owned wd la ''deadline'' CANCEL_CONFIRM_S False (m\<lparr>mg_stop := Some why\<rparr>) of
             None \<Rightarrow> None
           | Some (m, Inl x) \<Rightarrow> Some (m, Inl (Failed x))
           | Some (m, Inr _) \<Rightarrow>
               if \<not> wd_session wd (mg_w m) then Some (m, Inr EXIT_ERROR) else finish_pipeline wd la m)
      | Some (m, Inr False) \<Rightarrow> Some (m, Inr EXIT_ERROR)
      | Some (m, Inr True) \<Rightarrow> finish_pipeline wd la m)"

definition check_session :: "'w world \<Rightarrow> 'w mgr \<Rightarrow> unit res" where
  "check_session wd m =
     (if \<not> wd_session wd (mg_w m) then Inr ()
      else guardE (wd_other_inputs wd (mg_w m) = []) (HarnessError ''holds another comparison''))"

text \<open>
  \<open>_run\<close> under the lock; any exception cancels what the manager owns. The result is the exit code, or an
  exception that left the cancellation itself; then the ledger's exit code is \<open>EXIT_ERROR\<close>.
\<close>

definition record_result :: "'w mgr \<Rightarrow> nat res \<Rightarrow> 'w mgr \<times> nat res" where
  "record_result m r = (set_acct (\<lambda>a. a\<lparr>ep_result := Some (case r of Inl _ \<Rightarrow> EXIT_ERROR | Inr code \<Rightarrow> code)\<rparr>) m, r)"

definition give_up :: "'w world \<Rightarrow> launch \<Rightarrow> string \<Rightarrow> nat \<Rightarrow> nat \<Rightarrow> 'w mgr \<Rightarrow> ('w mgr \<times> nat res) option" where
  "give_up wd la reason confirm_s code m =
     (case cancel_owned wd la reason confirm_s False m of
        None \<Rightarrow> None
      | Some (m, Inl x) \<Rightarrow> Some (record_result m (Inl x))
      | Some (m, Inr _) \<Rightarrow> Some (record_result m (Inr code)))"

definition run_manager :: "'w world \<Rightarrow> launch \<Rightarrow> 'w mgr \<Rightarrow> ('w mgr \<times> nat res) option" where
  "run_manager wd la m =
     (let give_up = give_up wd la ''manager error'' CANCEL_CONFIRM_S EXIT_ERROR in
      case reconcile wd la (set_ledger (\<lambda>l. l\<lparr>lg_managers := lg_managers l + 1\<rparr>) m) of
        (m, Inl x) \<Rightarrow> give_up m
      | (m, Inr _) \<Rightarrow>
          (case check_session wd m of
             Inl e \<Rightarrow> give_up m
           | Inr _ \<Rightarrow>
               (case pipeline wd la m of
                  None \<Rightarrow> None
                | Some (m, Inr code) \<Rightarrow> Some (record_result m (Inr code))
                | Some (m, Inl e) \<Rightarrow> give_up m)))"

text \<open>A termination signal while the pipeline had reached \<open>m\<close>.\<close>

definition signalled :: "'w world \<Rightarrow> launch \<Rightarrow> nat \<Rightarrow> string \<Rightarrow> 'w mgr \<Rightarrow> ('w mgr \<times> nat res) option" where
  "signalled wd la signum name m =
     give_up wd la (''manager received '' @ name) SIGNAL_CONFIRM_S (128 + signum) m"

definition reap :: "'w world \<Rightarrow> launch \<Rightarrow> 'w mgr \<Rightarrow> ('w mgr \<times> string list res) option" where
  "reap wd la m =
     (case reconcile wd la m of
        (m, Inl x) \<Rightarrow> Some (m, Inl x)
      | (m, Inr _) \<Rightarrow> cancel_owned wd la ''manual reap'' CANCEL_CONFIRM_S True m)"

text \<open>The loops evaluate by unfolding.\<close>

declare wait_jobs.simps [code] confirm_loop.simps [code] cost_loop.simps [code]

end
