(* ===== verification/ManagerInv.thy ===== *)
theory ManagerInv
  imports Manager
begin

text \<open>
  What the manager's operations do to the ledger (\<open>src/lsf/manager.py\<close>, \<open>src/lsf/retry.py\<close>). Updates
  never touch a settled or rejected entry and never change what identifies an entry; only
  \<open>submit\<close> adds one. From this follow the invariants of a launch: one job per stage and epoch,
  and a cost budget that is never exceeded.
\<close>

section \<open>Systems that only move forward\<close>

text \<open>
  A preorder that every step of a system respects: composing steps, folding them over a list and
  running interrupted sequences of them respect it too.
\<close>

locale forward =
  fixes le :: "'m \<Rightarrow> 'm \<Rightarrow> bool"
  assumes le_refl: "le m m"
    and le_trans: "le a b \<Longrightarrow> le b c \<Longrightarrow> le a c"
begin

lemma foldl_forward: "(\<And>m x. x \<in> set xs \<Longrightarrow> le m (f m x)) \<Longrightarrow> le m (foldl f m xs)"
proof (induction xs arbitrary: m)
  case (Cons x xs)
  have "le (f m x) (foldl f (f m x) xs)" using Cons by simp
  with Cons.prems[of x m] le_trans show ?case by simp
qed (simp add: le_refl)

lemma bindM_forward:
  assumes "bindM x f = Some (m', r)" and "\<And>m1 r1. x = Some (m1, r1) \<Longrightarrow> le m m1"
    and "\<And>a m1 m2 r2. x = Some (m1, Inr a) \<Longrightarrow> f a m1 = Some (m2, r2) \<Longrightarrow> le m1 m2"
  shows "le m m'"
proof (cases x)
  case (Some p)
  obtain m1 r1 where p: "p = (m1, r1)" by (cases p)
  show ?thesis
  proof (cases r1)
    case (Inl e)
    with assms(1,2) Some p show ?thesis by (simp add: bindM_def)
  next
    case (Inr a)
    with assms(1) Some p have "f a m1 = Some (m', r)" by (simp add: bindM_def)
    with assms(2,3) Some p Inr le_trans show ?thesis by blast
  qed
qed (use assms(1) in \<open>simp add: bindM_def\<close>)

end

section \<open>Updates of the ledger\<close>

definition frozen :: "job_entry \<Rightarrow> bool" where
  "frozen e \<longleftrightarrow> je_status e \<in> {Terminal, Rejected}"

text \<open>
  A settled entry's outcome says whether it consumes budget, and only a terminal entry does not.
\<close>

definition entry_ok :: "job_entry \<Rightarrow> bool" where
  "entry_ok e \<longleftrightarrow>
     je_consumes e = map_option (\<lambda>oc. oc_kind oc \<notin> {''skipped'', ''already-final''}) (je_outcome e)
     \<and> (je_consumes e = Some False \<longrightarrow> je_status e = Terminal)"

definition same_job :: "job_entry \<Rightarrow> job_entry \<Rightarrow> bool" where
  "same_job e e' \<longleftrightarrow> je_key e' = je_key e \<and> je_stage e' = je_stage e \<and> je_epoch e' = je_epoch e
     \<and> je_attempt e' = je_attempt e \<and> je_name e' = je_name e \<and> je_reserved_at e' = je_reserved_at e"

definition entry_le :: "job_entry \<Rightarrow> job_entry \<Rightarrow> bool" where
  "entry_le e e' \<longleftrightarrow> same_job e e' \<and> (frozen e \<longrightarrow> e' = e) \<and> (entry_ok e \<longrightarrow> entry_ok e')
     \<and> (je_status e' = Rejected \<longrightarrow> je_status e = Rejected)"

lemma entry_le_refl [simp]: "entry_le e e"
  by (simp add: entry_le_def same_job_def)

lemma entry_le_trans: "entry_le a b \<Longrightarrow> entry_le b c \<Longrightarrow> entry_le a c"
  by (auto simp: entry_le_def same_job_def)

definition ledger_le :: "ledger \<Rightarrow> ledger \<Rightarrow> bool" where
  "ledger_le l l' \<longleftrightarrow> list_all2 entry_le (lg_jobs l) (lg_jobs l') \<and> lg_resumes l' = lg_resumes l"

definition mgr_le :: "'w mgr \<Rightarrow> 'w mgr \<Rightarrow> bool" where
  "mgr_le m m' \<longleftrightarrow> ledger_le (mg_ledger m) (mg_ledger m')"

lemma ledger_le_refl [simp]: "ledger_le l l"
  by (simp add: ledger_le_def list_all2_refl)

lemma ledger_le_trans: "ledger_le a b \<Longrightarrow> ledger_le b c \<Longrightarrow> ledger_le a c"
  unfolding ledger_le_def using list_all2_trans[of entry_le entry_le entry_le] entry_le_trans
  by (metis (mono_tags, lifting))

interpretation updates: forward mgr_le
  by unfold_locales (auto simp: mgr_le_def intro: ledger_le_trans)

lemma mgr_le_ledger [simp]:
  "mg_ledger m' = mg_ledger m \<Longrightarrow> mgr_le m m'"
  by (simp add: mgr_le_def)

definition keys_ok :: "'w mgr \<Rightarrow> bool" where
  "keys_ok m \<longleftrightarrow> distinct (map je_key (lg_jobs (mg_ledger m)))"

lemma mgr_le_keys: "mgr_le m m' \<Longrightarrow> map je_key (lg_jobs (mg_ledger m')) = map je_key (lg_jobs (mg_ledger m))"
  unfolding mgr_le_def ledger_le_def
  by (auto simp: list_all2_conv_all_nth entry_le_def same_job_def intro: nth_equalityI)

lemma mgr_le_keys_ok: "mgr_le m m' \<Longrightarrow> keys_ok m \<Longrightarrow> keys_ok m'"
  by (simp add: keys_ok_def mgr_le_keys)

text \<open>A job that may still be updated.\<close>

definition live :: "'w mgr \<Rightarrow> string \<Rightarrow> bool" where
  "live m key \<longleftrightarrow> (\<exists>e. job (mg_ledger m) key = Some e \<and> \<not> frozen e)"

text \<open>Nothing but the entry of one key changes.\<close>

definition only_job :: "string \<Rightarrow> 'w mgr \<Rightarrow> 'w mgr \<Rightarrow> bool" where
  "only_job key m m' \<longleftrightarrow> mgr_le m m'
     \<and> (\<forall>k. k \<noteq> key \<longrightarrow> job (mg_ledger m') k = job (mg_ledger m) k)"

lemma only_job_refl [simp]: "mg_ledger m' = mg_ledger m \<Longrightarrow> only_job key m m'"
  by (simp add: only_job_def)

lemma only_job_trans: "only_job k a b \<Longrightarrow> only_job k b c \<Longrightarrow> only_job k a c"
  unfolding only_job_def using updates.le_trans by metis

lemma only_job_le: "only_job k m m' \<Longrightarrow> mgr_le m m'"
  by (simp add: only_job_def)

lemma only_job_live: "only_job k m m' \<Longrightarrow> k' \<noteq> k \<Longrightarrow> live m' k' = live m k'"
  by (simp add: only_job_def live_def)

lemma put_job_only:
  assumes "keys_ok m" and "job (mg_ledger m) key = Some e" and "\<not> frozen e"
    and "same_job e (f e)" and "entry_ok e \<Longrightarrow> entry_ok (f e)" and "je_status (f e) \<noteq> Rejected"
  shows "only_job key m (put_job key f m)"
    and "job (mg_ledger (put_job key f m)) key = Some (f e)"
proof -
  let ?g = "\<lambda>x. if je_key x = key then f x else x"
  have uniq: "x = e" if "x \<in> set (lg_jobs (mg_ledger m))" "je_key x = key" for x
    using job_unique[of "mg_ledger m" x] that assms(1,2) by (simp add: keys_ok_def)
  have le: "entry_le x (?g x)" if "x \<in> set (lg_jobs (mg_ledger m))" for x
    using uniq[OF that] assms(3-6) by (auto simp: entry_le_def same_job_def)
  have "list_all2 entry_le (lg_jobs (mg_ledger m)) (map ?g (lg_jobs (mg_ledger m)))"
    using le by (simp add: list_all2_conv_all_nth)
  then have "mgr_le m (put_job key f m)"
    by (simp add: mgr_le_def ledger_le_def put_job_def update_def)
  moreover have fnd: "find (\<lambda>x. je_key x = k) (map ?g es) = (if k = key then map_option f (find (\<lambda>x. je_key x = k) es)
      else find (\<lambda>x. je_key x = k) es)" if "\<forall>x\<in>set es. je_key x = key \<longrightarrow> x = e" for k es
    using that assms(4) by (induction es) (auto simp: same_job_def)
  have "job (mg_ledger (put_job key f m)) k = (if k = key then map_option f (job (mg_ledger m) k)
      else job (mg_ledger m) k)" for k
    unfolding put_job_def update_def job_def using fnd uniq by simp
  ultimately show "only_job key m (put_job key f m)"
    and "job (mg_ledger (put_job key f m)) key = Some (f e)"
    using assms(2) by (simp_all add: only_job_def)
qed

section \<open>Operations on one job\<close>

lemma ask_ledger: "ask f m = (a, m') \<Longrightarrow> mg_ledger m' = mg_ledger m"
  by (auto simp: ask_def split: prod.splits)

lemma put_seen_ledger [simp]: "mg_ledger (put_seen k f m) = mg_ledger m"
  by (simp add: put_seen_def)

lemma pause_ledger [simp]: "mg_ledger (pause wd t m) = mg_ledger m"
  by (simp add: pause_def)

lemma cancel_all_ledger [simp]: "mg_ledger (cancel_all wd extra m) = mg_ledger m"
proof (induction extra arbitrary: m)
  case (Cons s extra)
  have "mg_ledger (snd (ask (cancel (wd_runner wd) (st_job_id s)) m)) = mg_ledger m"
    by (simp add: ask_def split: prod.split)
  with Cons show ?case by (simp add: cancel_all_def)
qed (simp add: cancel_all_def)

lemma keys_ok_cong: "mg_ledger m' = mg_ledger m \<Longrightarrow> keys_ok m' = keys_ok m"
  by (simp add: keys_ok_def)

lemma only_job_cong:
  "mg_ledger m1 = mg_ledger m \<Longrightarrow> mg_ledger m2 = mg_ledger m' \<Longrightarrow> only_job k m1 m2 = only_job k m m'"
  by (simp add: only_job_def mgr_le_def)

lemma settled_entry_ok:
  assumes "kind = settle_kind e status rec lost view cancelled"
  shows "same_job e (settled_entry status rec kind cancelled e)"
    and "entry_ok (settled_entry status rec kind cancelled e)"
    and "je_status (settled_entry status rec kind cancelled e) \<in> {Terminal, Unreconciled}"
  using assms
  by (auto simp: same_job_def settled_entry_def entry_ok_def settle_kind_def classify_def Let_def)

lemma settle_only:
  assumes "keys_ok m" and "job (mg_ledger m) key = Some e" and "\<not> frozen e"
  shows "only_job key m (settle wd key status lost cancelled m)"
    and "\<exists>e'. job (mg_ledger (settle wd key status lost cancelled m)) key = Some e' \<and> same_job e e'
      \<and> entry_ok e' \<and> je_status e' \<in> {Terminal, Unreconciled} \<and> je_outcome e' \<noteq> None"
proof -
  let ?rec = "wd_record wd (mg_w m) key"
  let ?kind = "settle_kind e status ?rec lost (stage_view wd m (je_stage e)) cancelled"
  let ?f = "settled_entry status ?rec ?kind cancelled"
  have eq: "settle wd key status lost cancelled m = put_job key ?f m"
    using assms(2) by (simp add: settle_def Let_def)
  note ok = settled_entry_ok[of ?kind e status ?rec lost "stage_view wd m (je_stage e)" cancelled, OF refl]
  have "je_status (?f e) \<noteq> Rejected" using ok(3) by auto
  note put = put_job_only[where f = ?f, OF assms ok(1,2) this]
  from put ok show "only_job key m (settle wd key status lost cancelled m)"
    "\<exists>e'. job (mg_ledger (settle wd key status lost cancelled m)) key = Some e' \<and> same_job e e'
      \<and> entry_ok e' \<and> je_status e' \<in> {Terminal, Unreconciled} \<and> je_outcome e' \<noteq> None"
    unfolding eq by (auto simp: settled_entry_def)
qed

text \<open>A job that is looked up, polled or counted stays live; it keeps what identifies it.\<close>

definition touched :: "'w mgr \<Rightarrow> 'w mgr \<Rightarrow> job_entry \<Rightarrow> bool" where
  "touched m m' e \<longleftrightarrow> only_job (je_key e) m m'
     \<and> (\<exists>e'. job (mg_ledger m') (je_key e) = Some e' \<and> same_job e e' \<and> \<not> frozen e'
          \<and> je_outcome e' = je_outcome e
          \<and> je_status e' \<in> {Submitted, Unreconciled, je_status e})"

lemma touched_same: "mg_ledger m' = mg_ledger m \<Longrightarrow> job (mg_ledger m) (je_key e) = Some e
    \<Longrightarrow> \<not> frozen e \<Longrightarrow> touched m m' e"
  by (simp add: touched_def same_job_def)

lemma put_job_touched:
  assumes "keys_ok m" and "job (mg_ledger m) (je_key e) = Some e" and "\<not> frozen e"
    and "same_job e (f e)" and "je_outcome (f e) = je_outcome e" and "je_consumes (f e) = je_consumes e"
    and "je_status (f e) \<in> {Submitted, Unreconciled, je_status e}"
  shows "touched m (put_job (je_key e) f m) e"
proof -
  have "entry_ok e \<Longrightarrow> entry_ok (f e)"
    using assms(3,5-7) by (auto simp: entry_ok_def frozen_def)
  from assms(3,7) have nf: "\<not> frozen (f e)" by (auto simp: frozen_def)
  then have "je_status (f e) \<noteq> Rejected" by (auto simp: frozen_def)
  note put = put_job_only[where f = f, OF assms(1-4) \<open>entry_ok e \<Longrightarrow> entry_ok (f e)\<close> this]
  with nf put assms show ?thesis by (auto simp: touched_def)
qed

lemma touched_cong:
  "mg_ledger m1 = mg_ledger m \<Longrightarrow> mg_ledger m2 = mg_ledger m' \<Longrightarrow> touched m1 m2 e = touched m m' e"
  by (simp add: touched_def only_job_def mgr_le_def)

lemma not_found_touched:
  assumes "keys_ok m" and "job (mg_ledger m) (je_key e) = Some e" and "\<not> frozen e"
  shows "touched m (not_found wd la e m) e"
proof -
  define f :: "seen \<Rightarrow> seen" where "f = (\<lambda>s. s\<lparr>se_lookup := Some (case (case mg_seen m (je_key e) of None \<Rightarrow> None | Some s \<Rightarrow> se_lookup s)
    of None \<Rightarrow> wd_clock wd (mg_w m) | Some t \<Rightarrow> t)\<rparr>)"
  have "\<exists>g. not_found wd la e m = put_job (je_key e) g (put_seen (je_key e) f m)
      \<and> same_job e (g e) \<and> je_outcome (g e) = je_outcome e \<and> je_consumes (g e) = je_consumes e
      \<and> je_status (g e) \<in> {Submitted, Unreconciled, je_status e}"
    unfolding not_found_def Let_def f_def by (rule exI, intro conjI, rule refl) (auto simp: same_job_def)
  then obtain g where g: "not_found wd la e m = put_job (je_key e) g (put_seen (je_key e) f m)"
    "same_job e (g e)" "je_outcome (g e) = je_outcome e" "je_consumes (g e) = je_consumes e"
    "je_status (g e) \<in> {Submitted, Unreconciled, je_status e}" by blast
  have k: "keys_ok (put_seen (je_key e) f m)" using assms(1) by (simp add: keys_ok_def)
  have "touched (put_seen (je_key e) f m) (not_found wd la e m) e"
    unfolding g(1) by (rule put_job_touched[where f = g, OF k _ assms(3) g(2-5)]) (simp add: assms(2))
  then show ?thesis using touched_cong[of "put_seen (je_key e) f m" m] by simp
qed

lemma reconcile_by_name_touched:
  assumes "keys_ok m" and "job (mg_ledger m) (je_key e) = Some e" and "\<not> frozen e"
  shows "touched m (fst (reconcile_by_name wd la e m)) e"
proof -
  obtain found m1 where a: "ask (find_jobs (wd_runner wd) (wd_json wd) (je_name e)) m = (found, m1)"
    by fastforce
  note led = ask_ledger[OF a]
  have k1: "keys_ok m1" and j1: "job (mg_ledger m1) (je_key e) = Some e"
    using assms(1,2) led by (simp_all add: keys_ok_def)
  show ?thesis
  proof (cases found)
    case (Inl err)
    with a led assms show ?thesis by (simp add: reconcile_by_name_def touched_same)
  next
    case (Inr all_found)
    let ?mine = "filter (\<lambda>s. st_user s = Some (la_user la) \<and> st_name s = Some (je_name e)) all_found"
    show ?thesis
    proof (cases ?mine)
      case Nil
      with a Inr have "fst (reconcile_by_name wd la e m) = not_found wd la e m1"
        by (simp add: reconcile_by_name_def)
      with not_found_touched[OF k1 j1 assms(3)] touched_cong[OF led refl] show ?thesis by simp
    next
      case (Cons s extra)
      let ?f = "\<lambda>x. x\<lparr>je_status := Submitted, je_job_id := Some (st_job_id s)\<rparr>"
      have "touched m1 (put_job (je_key e) ?f m1) e"
        by (rule put_job_touched[OF k1 j1 assms(3)]) (simp_all add: same_job_def)
      moreover have "mg_ledger (fst (reconcile_by_name wd la e m)) = mg_ledger (put_job (je_key e) ?f m1)"
        using a Inr Cons by (simp add: reconcile_by_name_def Let_def)
      ultimately show ?thesis using touched_cong[OF led] by blast
    qed
  qed
qed


lemma touched_live: "touched m m' e \<Longrightarrow> live m' (je_key e)"
  by (auto simp: touched_def live_def)

lemma touched_only: "touched m m' e \<Longrightarrow> only_job (je_key e) m m'"
  by (simp add: touched_def)

lemma only_job_keys: "only_job k m m' \<Longrightarrow> keys_ok m \<Longrightarrow> keys_ok m'"
  using only_job_le mgr_le_keys_ok by blast

lemma job_key_eq: "job l key = Some e \<Longrightarrow> je_key e = key"
  using job_Some by blast

section \<open>Polling\<close>

text \<open>A poll settles the job when it answers \<open>True\<close>, and leaves it live otherwise.\<close>

definition polled :: "string \<Rightarrow> 'w mgr \<Rightarrow> 'w mgr \<Rightarrow> bool \<Rightarrow> bool" where
  "polled key m m' b \<longleftrightarrow> only_job key m m'
     \<and> (\<exists>e e'. job (mg_ledger m) key = Some e \<and> job (mg_ledger m') key = Some e' \<and> same_job e e'
          \<and> (if b then je_status e' \<notin> ACTIVE \<and> (frozen e \<or> je_outcome e' \<noteq> None \<or> e' = e) else \<not> frozen e'))"

lemma settle_polled:
  assumes "keys_ok m" and "job (mg_ledger m) key = Some e" and "\<not> frozen e"
  shows "polled key m (settle wd key status lost cancelled m) True"
  using settle_only[OF assms, of wd status lost cancelled] assms(2)
  by (fastforce simp: polled_def ACTIVE_def)

lemma polled_cong:
  "mg_ledger m1 = mg_ledger m \<Longrightarrow> mg_ledger m2 = mg_ledger m' \<Longrightarrow> polled k m1 m2 b = polled k m m' b"
  by (simp add: polled_def only_job_def mgr_le_def)

lemma same_job_trans: "same_job a b \<Longrightarrow> same_job b c \<Longrightarrow> same_job a c"
  by (simp add: same_job_def)

lemma touched_polled:
  assumes "touched m m1 e" and "job (mg_ledger m) (je_key e) = Some e" and "\<not> frozen e"
    and "\<And>e1. job (mg_ledger m1) (je_key e) = Some e1 \<Longrightarrow> \<not> frozen e1 \<Longrightarrow> polled (je_key e) m1 m2 b"
    and "b \<Longrightarrow> \<exists>e2. job (mg_ledger m2) (je_key e) = Some e2 \<and> je_outcome e2 \<noteq> None"
  shows "polled (je_key e) m m2 b"
proof -
  obtain e1 where e1: "job (mg_ledger m1) (je_key e) = Some e1" "same_job e e1" "\<not> frozen e1"
    and o: "only_job (je_key e) m m1" using assms(1) by (auto simp: touched_def)
  from assms(4)[OF e1(1,3)] obtain e2 where p: "only_job (je_key e) m1 m2"
    "job (mg_ledger m2) (je_key e) = Some e2" "same_job e1 e2"
    "if b then je_status e2 \<notin> ACTIVE else \<not> frozen e2"
    using e1(1) by (auto simp: polled_def split: if_splits)
  have "only_job (je_key e) m m2" by (rule only_job_trans[OF o p(1)])
  moreover have "same_job e e2" by (rule same_job_trans[OF e1(2) p(3)])
  ultimately show ?thesis using assms(2,5) p(2,4) unfolding polled_def by (auto split: if_splits)
qed

lemma settle_outcome:
  assumes "keys_ok m" and "job (mg_ledger m) key = Some e" and "\<not> frozen e"
  shows "\<exists>e'. job (mg_ledger (settle wd key status lost cancelled m)) key = Some e' \<and> je_outcome e' \<noteq> None"
  using settle_only(2)[OF assms] by blast

lemma missing_polled:
  assumes "keys_ok m" and "job (mg_ledger m) key = Some e" and "\<not> frozen e"
  shows "polled key m (fst (missing wd la key m)) (snd (missing wd la key m))"
proof -
  have key: "je_key e = key" using assms(2) by (rule job_key_eq)
  define m1 where "m1 = put_seen key (\<lambda>s. s\<lparr>se_missing := Some (case (case mg_seen m key of None \<Rightarrow> None | Some s \<Rightarrow> se_missing s)
    of None \<Rightarrow> wd_clock wd (mg_w m) | Some t \<Rightarrow> t)\<rparr>) m"
  have led: "mg_ledger m1 = mg_ledger m" by (simp add: m1_def)
  have k1: "keys_ok m1" using assms(1) keys_ok_cong[OF led] by simp
  define m2 where "m2 = put_job key (\<lambda>x. x\<lparr>je_status := Unreconciled\<rparr>) m1"
  have t: "touched m1 m2 e"
    unfolding m2_def key[symmetric]
    by (rule put_job_touched[OF k1]) (use assms led key in \<open>simp_all add: same_job_def\<close>)
  have k2: "keys_ok m2" using only_job_keys[OF touched_only[OF t] k1] .
  have j1: "job (mg_ledger m1) (je_key e) = Some e" using assms(2) led key by simp
  have s: "polled key m (settle wd key None True None m2) True"
  proof -
    have "polled (je_key e) m1 (settle wd key None True None m2) True"
    proof (rule touched_polled[OF t j1 assms(3)])
      fix e1 assume "job (mg_ledger m2) (je_key e) = Some e1" "\<not> frozen e1"
      then show "polled (je_key e) m2 (settle wd key None True None m2) True"
        using settle_polled[OF k2] key by simp
    next
      obtain e1 where "job (mg_ledger m2) key = Some e1" "\<not> frozen e1"
        using t key by (auto simp: touched_def)
      from settle_outcome[OF k2 this, of wd None True None]
      show "\<exists>e2. job (mg_ledger (settle wd key None True None m2)) (je_key e) = Some e2
          \<and> je_outcome e2 \<noteq> None" unfolding key .
    qed
    with polled_cong[OF led[symmetric] refl] key show ?thesis by simp
  qed
  have n: "polled key m m1 False"
    using assms(2,3) led by (auto simp: polled_def same_job_def)
  have "missing wd la key m = (settle wd key None True None m2, True) \<or> missing wd la key m = (m1, False)"
    by (simp add: missing_def Let_def m1_def m2_def)
  with s n show ?thesis by auto
qed

lemma job_query_ledger: "job_query wd e m = (a, m') \<Longrightarrow> mg_ledger m' = mg_ledger m"
  by (simp add: job_query_def ask_ledger)

lemma job_history_ledger: "job_history wd e m = (a, m') \<Longrightarrow> mg_ledger m' = mg_ledger m"
  by (simp add: job_history_def ask_ledger)

lemma poll_job_polled:
  assumes "keys_ok m" and "job (mg_ledger m) (je_key e) = Some e" and "\<not> frozen e"
  shows "case snd (poll_job wd la e m) of Inl x \<Rightarrow> mg_ledger (fst (poll_job wd la e m)) = mg_ledger m
    | Inr b \<Rightarrow> polled (je_key e) m (fst (poll_job wd la e m)) b"
proof -
  obtain answer m1 where q: "job_query wd e m = (answer, m1)" by fastforce
  note l1 = job_query_ledger[OF q]
  have here: "keys_ok m'" "job (mg_ledger m') (je_key e) = Some e" if "mg_ledger m' = mg_ledger m" for m' :: "'a mgr"
    using that assms(1,2) by (simp_all add: keys_ok_def)
  have start: "polled (je_key e) m' m'' b \<Longrightarrow> polled (je_key e) m m'' b" if "mg_ledger m' = mg_ledger m" for m' m'' :: "'a mgr" and b
    using polled_cong[OF that refl] by simp
  have none: "polled (je_key e) m m' False" if "mg_ledger m' = mg_ledger m" for m' :: "'a mgr"
    using that assms(2,3) by (auto simp: polled_def same_job_def)
  show ?thesis
  proof (cases answer)
    case (Inl err)
    have "touched m1 (put_job (je_key e) (\<lambda>x. x\<lparr>je_failures := je_failures e + 1\<rparr>) m1) e"
      by (rule put_job_touched[OF here[OF l1] assms(3)]) (simp_all add: same_job_def)
    then have "polled (je_key e) m1 (put_job (je_key e) (\<lambda>x. x\<lparr>je_failures := je_failures e + 1\<rparr>) m1) False"
      using here(2)[OF l1] by (auto simp: polled_def touched_def)
    from start[OF l1 this] Inl q l1 show ?thesis by (simp add: poll_job_def)
  next
    case (Inr status)
    define m2 where "m2 = put_seen (je_key e) (\<lambda>s. s\<lparr>se_state := Some (st_state status)\<rparr>) m1"
    have l2: "mg_ledger m2 = mg_ledger m" by (simp add: m2_def l1)
    show ?thesis
    proof (cases "st_state status = ''NOTFOUND''")
      case True
      obtain past m3 where h: "job_history wd e m2 = (past, m3)" by fastforce
      have l3: "mg_ledger m3 = mg_ledger m" using job_history_ledger[OF h] l2 by simp
      have eq: "poll_job wd la e m = (case past of Some s \<Rightarrow> (settle wd (je_key e) (Some s) False None m3, Inr True)
            | None \<Rightarrow> (fst (missing wd la (je_key e) m3), Inr (snd (missing wd la (je_key e) m3))))"
        using q Inr True h by (simp add: poll_job_def m2_def Let_def split: option.split prod.split)
      show ?thesis
        using start[OF l3 settle_polled[OF here[OF l3] assms(3)]]
          start[OF l3 missing_polled[OF here[OF l3] assms(3)]]
        by (cases past) (simp_all add: eq)
    next
      case False
      define m3 where "m3 = put_seen (je_key e) (\<lambda>s. s\<lparr>se_missing := None\<rparr>) m2"
      have l3: "mg_ledger m3 = mg_ledger m" by (simp add: m3_def l2)
      have eq: "poll_job wd la e m = (if terminal status then (settle wd (je_key e) (Some status) False None m3, Inr True)
            else (m3, Inr False))"
        using q Inr False by (simp add: poll_job_def m2_def m3_def Let_def)
      show ?thesis
        using start[OF l3 settle_polled[OF here[OF l3] assms(3)]] none[OF l3] by (simp add: eq)
    qed
  qed
qed

lemma failing_simps [simp]:
  "failing (m, Inl x) = (m, Inl (Failed x))" "failing (m, Inr a) = (m, Inr a)"
  by (simp_all add: failing_def)

lemma failing_cases: "failing p = (m', r) \<longleftrightarrow> fst p = m' \<and> r = (case snd p of Inl x \<Rightarrow> Inl (Failed x) | Inr a \<Rightarrow> Inr a)"
  by (cases p; cases "snd p") (auto simp: failing_def)

lemma observe_polled:
  assumes "keys_ok m" and "observe wd la k m = (m', r)"
  shows "case r of Inl e \<Rightarrow> only_job k m m' | Inr b \<Rightarrow> polled k m m' b"
proof (cases "job (mg_ledger m) k")
  case None
  with assms(2) show ?thesis by (auto simp: observe_def)
next
  case (Some e)
  have key: "je_key e = k" using Some by (rule job_key_eq)
  show ?thesis
  proof (cases "je_status e \<in> {Reserved, Ambiguous}")
    case pending: True
    then have nf: "\<not> frozen e" by (auto simp: frozen_def)
    obtain m1 r1 where rn: "reconcile_by_name wd la e m = (m1, r1)" by fastforce
    have t: "touched m m1 e"
      using reconcile_by_name_touched[OF assms(1) _ nf, of wd la] Some key rn by simp
    have k1: "keys_ok m1" by (rule only_job_keys[OF touched_only[OF t] assms(1)])
    have o1: "only_job k m m1" using touched_only[OF t] key by simp
    show ?thesis
    proof (cases r1)
      case (Inl x)
      then have "observe wd la k m = (m1, Inl (Failed x))" using Some pending rn by (simp add: observe_def)
      with assms(2) o1 show ?thesis by auto
    next
      case (Inr u)
      obtain e1 where e1: "job (mg_ledger m1) k = Some e1" "same_job e e1" "\<not> frozen e1"
        using t key by (auto simp: touched_def)
      have key1: "je_key e1 = k" using e1(1) by (rule job_key_eq)
      have eq: "observe wd la k m = (if je_status e1 = Unreconciled then (settle wd k None False None m1, Inr True)
          else if je_status e1 \<noteq> Submitted then (m1, Inr False) else failing (poll_job wd la e1 m1))"
        using Some pending e1(1) rn Inr by (auto simp: observe_def ACTIVE_def)
      have join: "polled k m m2 b" if "polled k m1 m2 b"
        "b \<Longrightarrow> \<exists>e2. job (mg_ledger m2) k = Some e2 \<and> je_outcome e2 \<noteq> None" for m2 b
        using touched_polled[OF t _ nf, of m2 b] that Some key by simp
      have none: "polled k m m1 False"
        using e1 Some t key by (auto simp: polled_def touched_def)
      obtain m2 r2 where pj: "poll_job wd la e1 m1 = (m2, r2)" by fastforce
      have poll: "case r2 of Inl x \<Rightarrow> mg_ledger m2 = mg_ledger m1 | Inr b \<Rightarrow> polled k m1 m2 b"
        using poll_job_polled[OF k1 _ e1(3), of wd la] e1(1) key1 pj by (cases r2) simp_all
      show ?thesis
      proof (cases "je_status e1 = Submitted")
        case True
        then have o: "m' = m2" "r = (case r2 of Inl x \<Rightarrow> Inl (Failed x) | Inr b \<Rightarrow> Inr b)"
          using assms(2) unfolding eq pj by (cases r2; simp)+
        show ?thesis
        proof (cases r2)
          case (Inl x)
          with poll o o1 only_job_trans[OF o1, of m2] show ?thesis by simp
        next
          case (Inr b)
          then have p: "polled k m1 m2 b" using poll by simp
          have "b \<Longrightarrow> \<exists>e2. job (mg_ledger m2) k = Some e2 \<and> je_outcome e2 \<noteq> None"
            using p True e1(1,3) by (auto simp: polled_def ACTIVE_def)
          with join[OF p] o Inr show ?thesis by simp
        qed
      next
        case False
        then show ?thesis
          using assms(2) join[OF settle_polled[OF k1 e1(1,3)] settle_outcome[OF k1 e1(1,3)]] none
          unfolding eq by (auto split: if_splits)
      qed
    qed
  next
    case False
    have eq: "observe wd la k m = (if je_status e \<notin> ACTIVE then (m, Inr True) else failing (poll_job wd la e m))"
      using Some False by (auto simp: observe_def)
    show ?thesis
    proof (cases "je_status e \<in> ACTIVE")
      case True
      then have "\<not> frozen e" by (auto simp: frozen_def ACTIVE_def)
      note p = poll_job_polled[OF assms(1) _ this, of wd la, unfolded key, OF Some]
      from assms(2) True have o: "fst (poll_job wd la e m) = m'"
        "r = (case snd (poll_job wd la e m) of Inl x \<Rightarrow> Inl (Failed x) | Inr b \<Rightarrow> Inr b)"
        unfolding eq by (simp_all add: failing_cases)
      show ?thesis using p unfolding o by (cases "snd (poll_job wd la e m)") simp_all
    next
      case no: False
      then show ?thesis using assms(2) Some by (auto simp: eq polled_def same_job_def)
    qed
  qed
qed

text \<open>Nothing outside a list of keys changes; the keys that are done are not active.\<close>

definition only_jobs :: "string list \<Rightarrow> 'w mgr \<Rightarrow> 'w mgr \<Rightarrow> bool" where
  "only_jobs ks m m' \<longleftrightarrow> mgr_le m m'
     \<and> (\<forall>k. k \<notin> set ks \<longrightarrow> job (mg_ledger m') k = job (mg_ledger m) k)"

definition inactive :: "'w mgr \<Rightarrow> string \<Rightarrow> bool" where
  "inactive m k \<longleftrightarrow> (\<exists>e. job (mg_ledger m) k = Some e \<and> je_status e \<notin> ACTIVE)"

lemma only_jobs_trans:
  "only_jobs ks a b \<Longrightarrow> only_jobs ks' b c \<Longrightarrow> set ks' \<subseteq> set ks \<Longrightarrow> only_jobs ks a c"
  unfolding only_jobs_def using updates.le_trans by (metis subsetD)

lemma only_jobs_refl [simp]: "mg_ledger m' = mg_ledger m \<Longrightarrow> only_jobs ks m m'"
  by (simp add: only_jobs_def)

lemma only_job_jobs: "only_job k m m' \<Longrightarrow> k \<in> set ks \<Longrightarrow> only_jobs ks m m'"
  by (auto simp: only_job_def only_jobs_def)

lemma observe_all_jobs:
  assumes "keys_ok m" and "distinct ks" and "observe_all wd la ks m = (m', r)"
  shows "only_jobs ks m m' \<and> (case r of Inl e \<Rightarrow> True
    | Inr rest \<Rightarrow> set rest \<subseteq> set ks \<and> distinct rest \<and> (\<forall>k\<in>set ks - set rest. inactive m' k))"
  using assms
proof (induction ks arbitrary: m m' r)
  case (Cons k ks)
  obtain m1 r1 where o: "observe wd la k m = (m1, r1)" by fastforce
  show ?case
  proof (cases r1)
    case (Inl e)
    with o Cons.prems have "r = Inl e" "m' = m1" by simp_all
    with Inl observe_polled[OF Cons.prems(1) o] only_job_jobs[of k m m1 "k # ks"] show ?thesis by simp
  next
    case (Inr b)
    then have p: "polled k m m1 b" using observe_polled[OF Cons.prems(1) o] by simp
    then have o1: "only_job k m m1" by (simp add: polled_def)
    note k1 = only_job_keys[OF o1 Cons.prems(1)]
    obtain m2 r2 where rec: "observe_all wd la ks m1 = (m2, r2)" by fastforce
    have ih: "only_jobs ks m1 m2 \<and> (case r2 of Inl e \<Rightarrow> True
        | Inr rest \<Rightarrow> set rest \<subseteq> set ks \<and> distinct rest \<and> (\<forall>k\<in>set ks - set rest. inactive m2 k))"
      using Cons.IH[OF k1 _ rec] Cons.prems(2) by simp
    have le: "only_jobs (k # ks) m m2"
      by (rule only_jobs_trans[OF only_job_jobs[OF o1, of "k # ks"]]) (use ih in auto)
    have kd: "job (mg_ledger m2) k = job (mg_ledger m1) k"
      using ih Cons.prems(2) by (simp add: only_jobs_def)
    have done1: "b \<Longrightarrow> inactive m2 k"
      using p kd by (auto simp: polled_def inactive_def)
    show ?thesis
      using Cons.prems(2,3) o Inr rec ih le done1 by (cases b) (auto split: sum.splits)
  qed
qed simp

lemma wait_jobs_effect:
  assumes "wait_jobs wd la ks m = Some (m', r)" and "keys_ok m" and "distinct ks"
  shows "only_jobs ks m m' \<and> (r = Inr () \<longrightarrow> (\<forall>k\<in>set ks. inactive m' k))"
proof -
  let ?P = "\<lambda>ks m p. keys_ok m \<longrightarrow> distinct ks \<longrightarrow>
    only_jobs ks m (fst p) \<and> (snd p = Inr () \<longrightarrow> (\<forall>k\<in>set ks. inactive (fst p) k))"
  have "?P ks m (m', r)"
  proof (rule wait_jobs.raw_induct[where P = "\<lambda>wd la ks m p. ?P ks m p", OF _ assms(1)], intro impI)
    fix wait wd la ks m p
    assume rec: "\<And>wd la ks m p. wait wd la ks m = Some p \<Longrightarrow> ?P ks m p"
      and eq: "(if ks = [] then Some (m, Inr ())
        else case observe_all wd la ks m of (m, Inl e) \<Rightarrow> Some (m, Inl e)
          | (m, Inr rest) \<Rightarrow> if rest = [] then Some (m, Inr ())
              else if la_deadline la \<le> wd_clock wd (mg_w m) then Some (m, Inl (deadline_stop rest))
              else wait wd la rest (pause wd (la_poll la) m)) = Some p"
      and k: "keys_ok m" and d: "distinct ks"
    show "only_jobs ks m (fst p) \<and> (snd p = Inr () \<longrightarrow> (\<forall>k\<in>set ks. inactive (fst p) k))"
    proof (cases "ks = []")
      case False
      obtain m1 r1 where o: "observe_all wd la ks m = (m1, r1)" by fastforce
      note oa = observe_all_jobs[OF k d o]
      show ?thesis
      proof (cases "\<exists>rest. r1 = Inr rest \<and> rest \<noteq> [] \<and> \<not> la_deadline la \<le> wd_clock wd (mg_w m1)")
        case True
        then obtain rest where r: "r1 = Inr rest" and w: "wait wd la rest (pause wd (la_poll la) m1) = Some p"
          using eq False o by auto
        have k1: "keys_ok (pause wd (la_poll la) m1)"
          using oa k mgr_le_keys_ok by (auto simp: only_jobs_def keys_ok_def pause_def)
        have ih: "only_jobs rest (pause wd (la_poll la) m1) (fst p)
            \<and> (snd p = Inr () \<longrightarrow> (\<forall>k\<in>set rest. inactive (fst p) k))"
          using rec[OF w] k1 oa r by simp
        then have ih1: "only_jobs rest m1 (fst p)" by (simp add: only_jobs_def mgr_le_def)
        have "inactive (fst p) j" if "j \<in> set ks - set rest" for j
          using that oa r ih1 by (auto simp: inactive_def only_jobs_def)
        with ih ih1 oa r only_jobs_trans[of ks m m1 rest "fst p"] show ?thesis by auto
      next
        case no: False
        with eq False o oa show ?thesis by (auto split: sum.splits if_splits)
      qed
    qed (use eq in auto)
  qed
  with assms(2,3) show ?thesis by simp
qed


section \<open>The invariants of a launch\<close>

definition one_job :: "ledger \<Rightarrow> bool" where
  "one_job l \<longleftrightarrow> (\<forall>st. st \<noteq> ''cost'' \<longrightarrow>
     length (filter (\<lambda>e. je_status e \<noteq> Rejected) (current l st)) \<le> 1)"

definition ledger_inv :: "ledger \<Rightarrow> bool" where
  "ledger_inv l \<longleftrightarrow> ledger_ok l \<and> (\<forall>e\<in>set (lg_jobs l). entry_ok e) \<and> one_job l
     \<and> budget_used l \<le> MAX_COST_ATTEMPTS"

lemma ledger_inv_keys: "ledger_inv (mg_ledger m) \<Longrightarrow> keys_ok m"
  by (simp add: ledger_inv_def ledger_ok_def keys_ok_def)

definition counted :: "ledger \<Rightarrow> job_entry \<Rightarrow> bool" where
  "counted l e \<longleftrightarrow> je_stage e = ''cost'' \<and> je_epoch e = epoch l \<and> je_status e \<noteq> Rejected
     \<and> je_consumes e \<noteq> Some False"

lemma budget_used_count: "budget_used l = length (filter (counted l) (lg_jobs l))"
proof -
  have consuming: "s \<in> CONSUMING \<longleftrightarrow> s \<noteq> Rejected" for s by (cases s) (simp_all add: CONSUMING_def)
  have "length (filter P (sort_key f xs)) = length (filter P xs)" for P :: "job_entry \<Rightarrow> bool" and f :: "job_entry \<Rightarrow> nat" and xs
    by (metis mset_filter mset_sort size_mset)
  then show ?thesis
    unfolding budget_used_def cost_attempts_def current_def jobs_of_def consuming
    by (simp add: counted_def conj_ac cong: filter_cong)
qed

lemma filter_le:
  "list_all2 R xs ys \<Longrightarrow> (\<And>x y. x \<in> set xs \<Longrightarrow> R x y \<Longrightarrow> Q y \<Longrightarrow> P x)
    \<Longrightarrow> length (filter Q ys) \<le> length (filter P xs)"
  by (induction rule: list_all2_induct) (auto intro: le_SucI)

lemma current_filter: "filter P (current l st)
    = filter (\<lambda>e. P e \<and> je_epoch e = epoch l \<and> je_stage e = st) (lg_jobs l)"
  by (simp add: current_def jobs_of_def conj_ac)

lemma ledger_le_inv:
  assumes "ledger_le l l'" and "ledger_inv l"
  shows "ledger_inv l'"
proof -
  have a: "list_all2 entry_le (lg_jobs l) (lg_jobs l')" and ep: "epoch l' = epoch l"
    using assms(1) by (simp_all add: ledger_le_def epoch_def)
  have mapeq: "map f (lg_jobs l') = map f (lg_jobs l)" if "\<And>x y. entry_le x y \<Longrightarrow> f y = f x" for f :: "job_entry \<Rightarrow> 'b"
    using a that by (simp add: list_all2_conv_all_nth list_eq_iff_nth_eq)
  have keys: "map je_key (lg_jobs l') = map je_key (lg_jobs l)"
    by (rule mapeq) (simp add: entry_le_def same_job_def)
  have eps: "\<forall>e\<in>set (lg_jobs l'). je_epoch e \<le> epoch l'"
  proof
    fix y assume "y \<in> set (lg_jobs l')"
    then obtain x where "x \<in> set (lg_jobs l)" "entry_le x y" using list_all2_right[OF a] by blast
    with assms(2) ep show "je_epoch y \<le> epoch l'"
      by (auto simp: ledger_inv_def ledger_ok_def entry_le_def same_job_def)
  qed
  have cost: "map je_attempt (jobs_of l' ''cost'') = map je_attempt (jobs_of l ''cost'')"
    using a unfolding jobs_of_def
    by (induction rule: list_all2_induct) (auto simp: entry_le_def same_job_def)
  have "\<forall>e\<in>set (jobs_of l' ''cost''). je_attempt e \<noteq> None"
  proof -
    have "None \<notin> set (map je_attempt (jobs_of l ''cost''))"
      using assms(2) by (auto simp: ledger_inv_def ledger_ok_def)
    then show ?thesis unfolding cost[symmetric] by force
  qed
  moreover have "distinct (map je_attempt (jobs_of l' ''cost''))" unfolding cost
    using assms(2) by (simp add: ledger_inv_def ledger_ok_def)
  ultimately have ok: "ledger_ok l'"
    using keys eps assms(2) by (simp add: ledger_ok_def ledger_inv_def)
  have eok: "\<forall>e\<in>set (lg_jobs l'). entry_ok e"
    using list_all2_right[OF a] assms(2) by (fastforce simp: ledger_inv_def entry_le_def)
  have one: "one_job l'"
    unfolding one_job_def
  proof (intro allI impI)
    fix st assume "st \<noteq> ''cost''"
    then have "length (filter (\<lambda>e. je_status e \<noteq> Rejected) (current l st)) \<le> 1"
      using assms(2) by (simp add: ledger_inv_def one_job_def)
    moreover have "length (filter (\<lambda>e. je_status e \<noteq> Rejected) (current l' st))
        \<le> length (filter (\<lambda>e. je_status e \<noteq> Rejected) (current l st))"
      unfolding current_filter ep
      by (rule filter_le[OF a]) (auto simp: entry_le_def same_job_def frozen_def)
    ultimately show "length (filter (\<lambda>e. je_status e \<noteq> Rejected) (current l' st)) \<le> 1" by simp
  qed
  have "budget_used l' \<le> budget_used l"
    unfolding budget_used_count
  proof (rule filter_le[OF a])
    fix x y assume x: "x \<in> set (lg_jobs l)" and le: "entry_le x y" and c: "counted l' y"
    have okx: "entry_ok x" using x assms(2) by (simp add: ledger_inv_def)
    show "counted l x"
    proof (cases "frozen x")
      case True
      with le c ep show ?thesis by (simp add: entry_le_def counted_def)
    next
      case False
      then have "je_consumes x \<noteq> Some False" "je_status x \<noteq> Rejected"
        using okx by (auto simp: entry_ok_def frozen_def)
      with le c ep show ?thesis by (simp add: entry_le_def counted_def same_job_def)
    qed
  qed
  with assms(2) ok eok one show ?thesis by (simp add: ledger_inv_def)
qed

text \<open>
  What a launch does to its ledger: it keeps the invariant, updates entries and appends new ones.
\<close>

definition grows_to :: "ledger \<Rightarrow> ledger \<Rightarrow> bool" where
  "grows_to l l' \<longleftrightarrow> (\<exists>js new. lg_jobs l' = js @ new \<and> list_all2 entry_le (lg_jobs l) js)
     \<and> lg_resumes l' = lg_resumes l"

definition launch_le :: "'w mgr \<Rightarrow> 'w mgr \<Rightarrow> bool" where
  "launch_le m m' \<longleftrightarrow> (ledger_inv (mg_ledger m) \<longrightarrow>
     ledger_inv (mg_ledger m') \<and> grows_to (mg_ledger m) (mg_ledger m'))"

lemma grows_to_refl [simp]: "grows_to l l"
  unfolding grows_to_def by (intro conjI exI[of _ "lg_jobs l"] exI[of _ "[]"]) (simp_all add: list_all2_refl)

lemma grows_to_trans:
  assumes "grows_to a b" and "grows_to b c"
  shows "grows_to a c"
proof -
  obtain js n1 where b: "lg_jobs b = js @ n1" "list_all2 entry_le (lg_jobs a) js"
    using assms(1) by (auto simp: grows_to_def)
  obtain ks n2 where c: "lg_jobs c = ks @ n2" "list_all2 entry_le (js @ n1) ks"
    using assms(2) b by (auto simp: grows_to_def)
  obtain k1 k2 where k: "ks = k1 @ k2" "list_all2 entry_le js k1" using c(2) by (auto simp: list_all2_append1)
  have "list_all2 entry_le (lg_jobs a) k1"
    using list_all2_trans[of entry_le entry_le entry_le, OF entry_le_trans b(2) k(2)] .
  moreover have "lg_jobs c = k1 @ (k2 @ n2)" using c(1) k(1) by simp
  ultimately show ?thesis using assms unfolding grows_to_def by metis
qed

interpretation launching: forward launch_le
  by unfold_locales (auto simp: launch_le_def intro: grows_to_trans)

lemma launch_leI:
  "(ledger_inv (mg_ledger m) \<Longrightarrow> mgr_le m m') \<Longrightarrow> launch_le m m'"
  unfolding launch_le_def mgr_le_def using ledger_le_inv
  by (auto simp: grows_to_def ledger_le_def)

lemma launch_le_same [simp]: "mg_ledger m' = mg_ledger m \<Longrightarrow> launch_le m m'"
  by (simp add: launch_le_def)

text \<open>The accounting of the epoch and the count of managers are not part of the invariant.\<close>

definition same_jobs :: "ledger \<Rightarrow> ledger \<Rightarrow> bool" where
  "same_jobs l l' \<longleftrightarrow> lg_jobs l' = lg_jobs l \<and> lg_resumes l' = lg_resumes l"

lemma same_jobs_le: "same_jobs (mg_ledger m) (mg_ledger m') \<Longrightarrow> launch_le m m'"
  by (intro launch_leI) (simp add: same_jobs_def mgr_le_def ledger_le_def list_all2_refl)

section \<open>Submitting\<close>

text \<open>The ledger with one new entry at its end.\<close>

definition fresh_entry :: "job_entry list \<Rightarrow> job_entry \<Rightarrow> 'w mgr \<Rightarrow> bool" where
  "fresh_entry js e m \<longleftrightarrow> lg_jobs (mg_ledger m) = js @ [e] \<and> je_key e \<notin> je_key ` set js
     \<and> je_outcome e = None \<and> je_consumes e = None"

lemma put_job_fresh:
  assumes "fresh_entry js e m" and "same_job e (f e)" and "je_outcome (f e) = None" and "je_consumes (f e) = None"
  shows "fresh_entry js (f e) (put_job (je_key e) f m)"
proof -
  have "map (\<lambda>x. if je_key x = je_key e then f x else x) js = js"
  proof (rule map_idI)
    fix x assume "x \<in> set js"
    then have "je_key x \<noteq> je_key e" using assms(1) by (metis fresh_entry_def imageI)
    then show "(if je_key x = je_key e then f x else x) = x" by simp
  qed
  with assms show ?thesis by (simp add: fresh_entry_def put_job_def update_def same_job_def)
qed

lemma fresh_entry_ledger: "mg_ledger m' = mg_ledger m \<Longrightarrow> fresh_entry js e m' = fresh_entry js e m"
  by (simp add: fresh_entry_def)

lemma put_job_rest [simp]:
  "lg_resumes (mg_ledger (put_job k f m)) = lg_resumes (mg_ledger m)"
  "lg_acct (mg_ledger (put_job k f m)) = lg_acct (mg_ledger m)"
  by (simp_all add: put_job_def)

lemma same_job_refl [simp]: "same_job e e"
  by (simp add: same_job_def)

lemma try_submit_effect:
  assumes "try_submit n wd la spec key m = (m', r)" and "fresh_entry js e m" and "je_key e = key"
    and "argv spec = Inr a"
  shows "lg_resumes (mg_ledger m') = lg_resumes (mg_ledger m) \<and> (\<exists>e'. fresh_entry js e' m' \<and> same_job e e'
    \<and> (r = Inr None \<and> je_status e' = Rejected
       \<or> r = Inr (Some key) \<and> je_status e' \<in> {Submitted, Ambiguous}))"
  using assms
proof (induction n arbitrary: m e)
  case 0
  from put_job_fresh[OF "0.prems"(2), of "\<lambda>x. x\<lparr>je_status := Rejected\<rparr>"] "0.prems"
  have "fresh_entry js (e\<lparr>je_status := Rejected\<rparr>) (put_job key (\<lambda>x. x\<lparr>je_status := Rejected\<rparr>) m)"
    by (simp add: same_job_def fresh_entry_def)
  with "0.prems"(1) show ?case
    by (intro conjI exI[of _ "e\<lparr>je_status := Rejected\<rparr>"]) (auto simp: fresh_entry_def same_job_def)
next
  case (Suc n)
  obtain p m1 where q: "ask (submit (wd_runner wd) spec) m = (p, m1)" by fastforce
  note led = ask_ledger[OF q]
  obtain sr where p: "p = Inr sr"
    using q Suc.prems(4) by (auto simp: ask_def submit_def split: prod.splits)
  let ?f = "\<lambda>x. x\<lparr>je_submissions := je_submissions x @ [sr_outcome sr]\<rparr>"
  define m2 where "m2 = put_job key ?f m1"
  have f1: "fresh_entry js e m1" using Suc.prems(2) fresh_entry_ledger[OF led] by simp
  have none: "je_outcome e = None" "je_consumes e = None" using f1 by (simp_all add: fresh_entry_def)
  have f2: "fresh_entry js (?f e) m2"
    using put_job_fresh[OF f1, of ?f] none Suc.prems(3) by (simp add: m2_def same_job_def)
  have res2: "lg_resumes (mg_ledger m2) = lg_resumes (mg_ledger m)" by (simp add: m2_def led)
  have key2: "je_key (?f e) = key" using Suc.prems(3) by simp
  have eq: "try_submit (Suc n) wd la spec key m =
     (if sr_outcome sr = ''accepted''
      then ((put_job key (\<lambda>x. x\<lparr>je_status := Submitted, je_job_id := sr_job_id sr\<rparr>) m2)
              \<lparr>mg_seen := (mg_seen m2)(key \<mapsto> no_seen)\<rparr>, Inr (Some key))
      else if sr_outcome sr = ''ambiguous''
      then (put_job key (\<lambda>x. x\<lparr>je_status := Ambiguous, je_lookups := 0\<rparr>) m2, Inr (Some key))
      else try_submit n wd la spec key (pause wd (la_retry_pause la) m2))"
    using q p by (simp add: m2_def Let_def)
  show ?case
  proof (cases "sr_outcome sr = ''accepted'' \<or> sr_outcome sr = ''ambiguous''")
    case True
    define g :: "job_entry \<Rightarrow> job_entry" where "g = (if sr_outcome sr = ''accepted''
      then (\<lambda>x. x\<lparr>je_status := Submitted, je_job_id := sr_job_id sr\<rparr>)
      else (\<lambda>x. x\<lparr>je_status := Ambiguous, je_lookups := 0\<rparr>))"
    have g: "mg_ledger m' = mg_ledger (put_job key g m2)" "r = Inr (Some key)"
      using Suc.prems(1) True unfolding eq g_def by (auto split: if_splits)
    have sj: "same_job (?f e) (g (?f e))" "je_outcome (g (?f e)) = None" "je_consumes (g (?f e)) = None"
      "je_status (g (?f e)) \<in> {Submitted, Ambiguous}"
      using none by (auto simp: same_job_def g_def)
    have "fresh_entry js (g (?f e)) (put_job key g m2)"
      using put_job_fresh[where f = g, OF f2 sj(1-3)] key2 by simp
    then have "fresh_entry js (g (?f e)) m'" using fresh_entry_ledger[OF g(1)] by simp
    moreover have "same_job e (g (?f e))" using sj(1) by (simp add: same_job_def)
    moreover have "lg_resumes (mg_ledger m') = lg_resumes (mg_ledger m)" using g(1) res2 by simp
    ultimately show ?thesis using g(2) sj(4) by blast
  next
    case False
    then have rec: "try_submit n wd la spec key (pause wd (la_retry_pause la) m2) = (m', r)"
      using Suc.prems(1) unfolding eq by simp
    have "fresh_entry js (?f e) (pause wd (la_retry_pause la) m2)"
      using f2 fresh_entry_ledger[of "pause wd (la_retry_pause la) m2" m2] by simp
    from Suc.IH[OF rec this key2 Suc.prems(4)] res2 show ?thesis by (auto simp: same_job_def)
  qed
qed

text \<open>
  What \<open>submit\<close> does: nothing to the jobs, or one new entry of the current epoch; the key it
  returns is that of an accepted or unanswered job.
\<close>

definition new_job :: "ledger \<Rightarrow> string \<Rightarrow> nat option \<Rightarrow> job_entry \<Rightarrow> bool" where
  "new_job l st attempt e \<longleftrightarrow> je_key e \<notin> je_key ` set (lg_jobs l) \<and> je_stage e = st
     \<and> je_attempt e = attempt \<and> je_epoch e = epoch l \<and> je_outcome e = None \<and> je_consumes e = None"

lemma submit_job_effect:
  assumes "submit_job wd la st attempt m = (m', r)"
  shows "(same_jobs (mg_ledger m) (mg_ledger m') \<and> (\<forall>k. r \<noteq> Inr (Some k)))
    \<or> (\<exists>e. new_job (mg_ledger m) st attempt e \<and> lg_jobs (mg_ledger m') = lg_jobs (mg_ledger m) @ [e]
         \<and> lg_resumes (mg_ledger m') = lg_resumes (mg_ledger m)
         \<and> (r = Inr None \<and> je_status e = Rejected
            \<or> r = Inr (Some (je_key e)) \<and> je_status e \<in> {Submitted, Ambiguous}))"
proof -
  obtain nonce m1 where q: "ask (wd_nonce wd) m = (nonce, m1)" by fastforce
  note led = ask_ledger[OF q]
  define key where "key = job_key st attempt nonce"
  define spec where "spec = job_spec la st key attempt
    (if st = ''cost'' then excluded_hosts (mg_ledger m1) else [])"
  show ?thesis
  proof (cases "\<exists>needed a l. wall_seconds (js_wall spec) = Inr needed \<and> argv spec = Inr a
      \<and> \<not> la_deadline la < wd_clock wd (mg_w m1) + needed * la_ticks la
      \<and> reserve key st attempt (js_name spec) (wd_now wd (mg_w m1)) (mg_ledger m1) = Inr l")
    case True
    then obtain needed a l where t: "wall_seconds (js_wall spec) = Inr needed" "argv spec = Inr a"
      "\<not> la_deadline la < wd_clock wd (mg_w m1) + needed * la_ticks la"
      and l: "reserve key st attempt (js_name spec) (wd_now wd (mg_w m1)) (mg_ledger m1) = Inr l" by blast
    have run: "try_submit MAX_REJECTIONS wd la spec key (m1\<lparr>mg_ledger := l\<rparr>) = (m', r)"
      using assms t l q by (simp add: submit_job_def key_def spec_def Let_def)
    define e where "e = new_entry key st attempt (js_name spec) (wd_now wd (mg_w m1)) (epoch (mg_ledger m1))"
    have jobs: "lg_jobs l = lg_jobs (mg_ledger m1) @ [e]" "lg_resumes l = lg_resumes (mg_ledger m1)"
      and "job (mg_ledger m1) key = None"
      using l by (auto simp: reserve_def e_def split: if_splits)
    then have new: "key \<notin> je_key ` set (lg_jobs (mg_ledger m1))" by (simp add: job_None_iff)
    have f: "fresh_entry (lg_jobs (mg_ledger m1)) e (m1\<lparr>mg_ledger := l\<rparr>)"
      using jobs new by (simp add: fresh_entry_def e_def new_entry_def)
    have ke: "je_key e = key" by (simp add: e_def new_entry_def)
    from try_submit_effect[OF run f ke t(2)] obtain e' where e':
      "fresh_entry (lg_jobs (mg_ledger m1)) e' m'" "same_job e e'"
      "lg_resumes (mg_ledger m') = lg_resumes l"
      "r = Inr None \<and> je_status e' = Rejected \<or> r = Inr (Some key) \<and> je_status e' \<in> {Submitted, Ambiguous}"
      by auto
    have "new_job (mg_ledger m) st attempt e'"
      using e'(1,2) led by (auto simp: new_job_def fresh_entry_def same_job_def e_def new_entry_def)
    moreover have "lg_jobs (mg_ledger m') = lg_jobs (mg_ledger m) @ [e']" using e'(1) led by (simp add: fresh_entry_def)
    moreover have "je_key e' = key" using e'(2) ke by (simp add: same_job_def)
    ultimately show ?thesis using e'(3,4) jobs(2) led by metis
  next
    case False
    then have "mg_ledger m' = mg_ledger m1 \<and> (\<forall>k. r \<noteq> Inr (Some k))"
      using assms q unfolding submit_job_def Let_def
      by (auto simp: key_def spec_def split: sum.splits if_splits prod.splits)
    then show ?thesis using led by (simp add: same_jobs_def)
  qed
qed


section \<open>Launches keep the invariant\<close>

definition may_submit :: "ledger \<Rightarrow> string \<Rightarrow> nat option \<Rightarrow> bool" where
  "may_submit l st attempt \<longleftrightarrow>
     (if st = ''cost'' then attempt = Some (next_attempt l) \<and> budget_used l < MAX_COST_ATTEMPTS
      else latest l st = None)"

lemma latest_None: "latest l st = None \<longleftrightarrow> filter (\<lambda>e. je_status e \<noteq> Rejected) (current l st) = []"
  by (simp add: latest_def split: list.split)

lemma new_job_inv:
  assumes "ledger_inv l" and "new_job l st attempt e" and "may_submit l st attempt"
    and "lg_jobs l' = lg_jobs l @ [e]" and "lg_resumes l' = lg_resumes l"
  shows "ledger_inv l'"
proof -
  note n = assms(2)[unfolded new_job_def]
  have ep: "epoch l' = epoch l" using assms(5) by (simp add: epoch_def)
  have oki: "ledger_ok l" using assms(1) by (simp add: ledger_inv_def)
  have fresh: "Some (next_attempt l) \<notin> je_attempt ` set (jobs_of l ''cost'')"
    using attempt_le_next by (fastforce simp: attempt_of_def split: option.splits)
  have ok: "ledger_ok l'"
    using oki n ep assms(3,4) fresh
    by (auto simp: ledger_ok_def jobs_of_def may_submit_def)
  have eok: "\<forall>e\<in>set (lg_jobs l'). entry_ok e"
    using assms(1,4) n by (auto simp: ledger_inv_def entry_ok_def)
  have cur: "filter (\<lambda>e. je_status e \<noteq> Rejected) (current l' k)
      = filter (\<lambda>e. je_status e \<noteq> Rejected) (current l k)
        @ (if k = st \<and> je_status e \<noteq> Rejected then [e] else [])" for k
    using assms(4) n ep by (simp add: current_filter)
  have one: "one_job l'"
    unfolding one_job_def cur using assms(1,3)
    by (auto simp: ledger_inv_def one_job_def may_submit_def latest_None split: if_splits)
  have cnt: "counted l' = counted l" by (simp add: counted_def ep fun_eq_iff)
  have "budget_used l' = budget_used l + (if counted l e then 1 else 0)"
    using assms(4) by (simp add: budget_used_count cnt)
  moreover have "counted l e \<Longrightarrow> st = ''cost''" using n by (simp add: counted_def)
  ultimately have "budget_used l' \<le> MAX_COST_ATTEMPTS"
    using assms(1,3) by (auto simp: ledger_inv_def may_submit_def split: if_splits)
  with ok eok one show ?thesis by (simp add: ledger_inv_def)
qed

lemma submit_job_launch:
  assumes "submit_job wd la st attempt m = (m', r)" and "may_submit (mg_ledger m) st attempt"
  shows "launch_le m m'"
  using submit_job_effect[OF assms(1)]
proof (elim disjE exE conjE)
  assume "same_jobs (mg_ledger m) (mg_ledger m')"
  then show ?thesis by (rule same_jobs_le)
next
  fix e
  assume e: "new_job (mg_ledger m) st attempt e" "lg_jobs (mg_ledger m') = lg_jobs (mg_ledger m) @ [e]"
    "lg_resumes (mg_ledger m') = lg_resumes (mg_ledger m)"
  have "grows_to (mg_ledger m) (mg_ledger m')"
    unfolding grows_to_def using e(2,3)
    by (intro conjI exI[of _ "lg_jobs (mg_ledger m)"] exI[of _ "[e]"]) (simp_all add: list_all2_refl)
  with new_job_inv[OF _ e(1) assms(2) e(2,3)] show ?thesis by (simp add: launch_le_def)
next
  fix e
  assume e: "new_job (mg_ledger m) st attempt e" "lg_jobs (mg_ledger m') = lg_jobs (mg_ledger m) @ [e]"
    "lg_resumes (mg_ledger m') = lg_resumes (mg_ledger m)"
  have "grows_to (mg_ledger m) (mg_ledger m')"
    unfolding grows_to_def using e(2,3)
    by (intro conjI exI[of _ "lg_jobs (mg_ledger m)"] exI[of _ "[e]"]) (simp_all add: list_all2_refl)
  with new_job_inv[OF _ e(1) assms(2) e(2,3)] show ?thesis by (simp add: launch_le_def)
qed

lemma submit_job_cost_launch:
  assumes "submit_job wd la ''cost'' (Some (dc_next (decision (mg_ledger m)))) m = (m', r)"
    and "dc_allowed (decision (mg_ledger m))"
  shows "launch_le m m'"
proof (rule submit_job_launch[OF assms(1)])
  have "dc_next (decision l) = next_attempt l" for l
    by (simp add: decision_def Let_def split: if_splits)
  moreover have "budget_used (mg_ledger m) < MAX_COST_ATTEMPTS"
    using assms(2) by (auto simp: decision_def Let_def split: if_splits)
  ultimately show "may_submit (mg_ledger m) ''cost'' (Some (dc_next (decision (mg_ledger m))))"
    by (simp add: may_submit_def)
qed

lemma wait_jobs_launch:
  assumes "wait_jobs wd la ks m = Some (m', r)" and "distinct ks"
  shows "launch_le m m'"
  by (rule launch_leI) (use wait_jobs_effect[OF assms(1) ledger_inv_keys assms(2)] in \<open>simp add: only_jobs_def\<close>)

text \<open>The keys of the stages' jobs: adopted or new, one per stage, hence distinct.\<close>

lemma newest_mem: "newest b es \<in> insert b (set es)"
  by (induction b es rule: newest.induct) (auto split: if_splits)

lemma latest_mem:
  assumes "latest l st = Some e"
  shows "e \<in> set (filter (\<lambda>e. je_status e \<noteq> Rejected) (current l st))"
proof (cases "filter (\<lambda>e. je_status e \<noteq> Rejected) (current l st)")
  case (Cons x xs)
  with assms have "e = newest x xs" by (simp add: latest_def)
  with newest_mem[of x xs] show ?thesis unfolding Cons by simp
qed (use assms in \<open>simp add: latest_def\<close>)

lemma latest_job: "latest l st = Some e \<Longrightarrow> e \<in> set (lg_jobs l) \<and> je_stage e = st"
  using latest_mem by (fastforce simp: current_def jobs_of_def)

definition stage_key :: "ledger \<Rightarrow> string \<Rightarrow> string \<Rightarrow> bool" where
  "stage_key l st k \<longleftrightarrow> (\<exists>e\<in>set (lg_jobs l). je_key e = k \<and> je_stage e = st)"

lemma stage_key_grows:
  assumes "grows_to l l'" and "stage_key l st k"
  shows "stage_key l' st k"
proof -
  obtain js new where g: "lg_jobs l' = js @ new" "list_all2 entry_le (lg_jobs l) js"
    using assms(1) by (auto simp: grows_to_def)
  obtain e where e: "e \<in> set (lg_jobs l)" "je_key e = k" "je_stage e = st"
    using assms(2) by (auto simp: stage_key_def)
  obtain e' where "e' \<in> set js" "entry_le e e'" using list_all2_left[OF g(2) e(1)] by blast
  with g(1) e show ?thesis by (auto simp: stage_key_def entry_le_def same_job_def)
qed

lemma stage_key_unique:
  assumes "ledger_inv l" and "stage_key l st k" and "stage_key l st' k"
  shows "st' = st"
proof -
  obtain e e' where e: "e \<in> set (lg_jobs l)" "e' \<in> set (lg_jobs l)" "je_key e = k" "je_key e' = k"
    "je_stage e = st" "je_stage e' = st'" using assms(2,3) by (auto simp: stage_key_def)
  have "distinct (map je_key (lg_jobs l))" using assms(1) by (simp add: ledger_inv_def ledger_ok_def)
  from job_unique[OF this e(1)] job_unique[OF this e(2)] e show ?thesis by simp
qed

lemma submit_stages_launch:
  assumes "submit_stages wd la sts m = (m', r)" and "''cost'' \<notin> set sts" and "distinct sts"
    and "ledger_inv (mg_ledger m)"
  shows "launch_le m m' \<and> (\<forall>ks. r = Inr ks \<longrightarrow> distinct ks
    \<and> (\<forall>k\<in>set ks. \<exists>st\<in>set sts. stage_key (mg_ledger m') st k))"
  using assms
proof (induction sts arbitrary: m m' r)
  case (Cons st sts)
  define turn where "turn = (case latest (mg_ledger m) st of
           Some e \<Rightarrow> if je_status e \<in> ACTIVE then (m, Inr (Some (je_key e))) else (m, Inr None)
         | None \<Rightarrow> if is_final wd m st then (m, Inr None) else submit_job wd la st None m)"
  obtain m1 got where t: "turn = (m1, got)" by fastforce
  have le1: "launch_le m m1 \<and> (\<forall>k. got = Inr (Some k) \<longrightarrow> stage_key (mg_ledger m1) st k)"
  proof (cases "latest (mg_ledger m) st")
    case (Some e)
    with t latest_job[OF Some] show ?thesis by (auto simp: turn_def stage_key_def split: if_splits)
  next
    case None
    show ?thesis
    proof (cases "is_final wd m st")
      case False
      with None t have s: "submit_job wd la st None m = (m1, got)" by (simp add: turn_def)
      have "launch_le m m1" by (rule submit_job_launch[OF s]) (use None Cons.prems(2) in \<open>auto simp: may_submit_def\<close>)
      moreover have "\<forall>k. got = Inr (Some k) \<longrightarrow> stage_key (mg_ledger m1) st k"
        using submit_job_effect[OF s] by (auto simp: stage_key_def new_job_def)
      ultimately show ?thesis by simp
    qed (use None t in \<open>auto simp: turn_def\<close>)
  qed
  have inv1: "ledger_inv (mg_ledger m1)" using le1 Cons.prems(4) by (simp add: launch_le_def)
  have eq: "submit_stages wd la (st # sts) m = (case got of
        Inl e \<Rightarrow> (m1, Inl e)
      | Inr k \<Rightarrow>
          (case submit_stages wd la sts m1 of
             (m, Inl e) \<Rightarrow> (m, Inl e)
           | (m, Inr ks) \<Rightarrow> (m, Inr ((case k of None \<Rightarrow> [] | Some k \<Rightarrow> [k]) @ ks))))"
    using t by (simp add: turn_def Let_def)
  note run = Cons.prems(1)[unfolded eq]
  show ?case
  proof (cases got)
    case (Inl e)
    with run le1 show ?thesis by auto
  next
    case (Inr k)
    obtain m2 r2 where rec: "submit_stages wd la sts m1 = (m2, r2)" by fastforce
    have ih: "launch_le m1 m2 \<and> (\<forall>ks. r2 = Inr ks \<longrightarrow> distinct ks
        \<and> (\<forall>k\<in>set ks. \<exists>st\<in>set sts. stage_key (mg_ledger m2) st k))"
      using Cons.IH[OF rec] Cons.prems(2,3) inv1 by simp
    have le: "launch_le m m2" using launching.le_trans le1 ih by blast
    have inv2: "ledger_inv (mg_ledger m2)" using le Cons.prems(4) by (simp add: launch_le_def)
    have g12: "grows_to (mg_ledger m1) (mg_ledger m2)" using ih inv1 by (simp add: launch_le_def)
    have mm: "m' = m2" using run rec Inr by (auto split: sum.splits)
    show ?thesis
    proof (cases r2)
      case (Inl e)
      with run rec \<open>got = Inr k\<close> le show ?thesis by auto
    next
      case (Inr ks)
      then have r: "r = Inr ((case k of None \<Rightarrow> [] | Some k \<Rightarrow> [k]) @ ks)"
        using run rec \<open>got = Inr k\<close> by simp
      have new: "stage_key (mg_ledger m2) st j \<and> j \<notin> set ks" if "k = Some j" for j
      proof -
        have sk: "stage_key (mg_ledger m2) st j"
          using stage_key_grows[OF g12] le1 that \<open>got = Inr k\<close> by simp
        moreover have "j \<notin> set ks"
          using ih Inr stage_key_unique[OF inv2 sk] Cons.prems(3) by auto
        ultimately show ?thesis by simp
      qed
      show ?thesis unfolding mm r using le ih Inr new by (cases k) auto
    qed
  qed
qed simp


lemma stage_jobs_launch:
  assumes "stage_jobs wd la sts m = Some (m', r)" and "''cost'' \<notin> set sts" and "distinct sts"
  shows "launch_le m m'"
proof (cases "ledger_inv (mg_ledger m)")
  case inv: True
  obtain m1 r1 where s: "submit_stages wd la sts m = (m1, r1)" by fastforce
  note sl = submit_stages_launch[OF s assms(2,3) inv]
  show ?thesis
    using assms(1) unfolding stage_jobs_def s
  proof (rule launching.bindM_forward)
    fix ks m1' m2 r2
    assume k: "Some (m1, r1) = Some (m1', Inr ks)"
      and b: "bindM (wait_jobs wd la ks m1') (\<lambda>_ m.
         if list_ex (\<lambda>e. je_status e = Unreconciled) (owned False (mg_ledger m))
         then Some (m, Inl (Failed (HarnessError unconfirmed))) else Some (m, Inr ())) = Some (m2, r2)"
    have d: "distinct ks" using sl k by simp
    show "launch_le m1' m2"
      using b by (rule launching.bindM_forward)
        (use wait_jobs_launch[OF _ d] in \<open>auto split: if_splits\<close>)
  qed (use sl in auto)
qed (simp add: launch_le_def)

lemma cost_turn_launch:
  assumes "cost_turn wd la m = (m', r)"
  shows "launch_le m m'"
proof -
  have acct: "launch_le m1 (set_ledger (record_exhaustion why) m1)"
    "launch_le m1 (set_ledger (record_stop why') m1)" for m1 :: "'a mgr" and why why'
    by (rule same_jobs_le, simp add: same_jobs_def set_ledger_def record_exhaustion_def record_stop_def)+
  have nxt: "launch_le m m'" if "cost_next wd la m = (m', r)" for m' r
  proof (cases "is_final wd m ''cost'' \<or> \<not> dc_allowed (decision (mg_ledger m))")
    case True
    with that acct show ?thesis by (auto simp: cost_next_def Let_def split: if_splits)
  next
    case False
    obtain m1 r1 where s: "submit_job wd la ''cost'' (Some (dc_next (decision (mg_ledger m)))) m = (m1, r1)"
      by fastforce
    have "launch_le m m1" by (rule submit_job_cost_launch[OF s]) (use False in simp)
    moreover have "m' = m1 \<or> m' = set_ledger (record_stop (mg_stop m1)) m1"
      using that False s by (auto simp: cost_next_def Let_def split: sum.splits option.splits)
    ultimately show ?thesis using acct(2) launching.le_trans by blast
  qed
  with assms show ?thesis by (auto simp: cost_turn_def split: option.splits if_splits)
qed

lemma cost_loop_launch:
  assumes "cost_loop wd la m = Some (m', r)"
  shows "launch_le m m'"
proof -
  have "launch_le m (fst (m', r))"
  proof (rule cost_loop.raw_induct[where P = "\<lambda>wd la m p. launch_le m (fst p)", OF _ assms])
    fix loop wd la m p
    assume rec: "\<And>wd la m p. loop wd la m = Some p \<Longrightarrow> launch_le m (fst p)"
      and eq: "(case cost_turn wd la m of (m, Inl e) \<Rightarrow> Some (m, Inl e)
        | (m, Inr None) \<Rightarrow> Some (m, Inr ())
        | (m, Inr (Some key)) \<Rightarrow>
          (case wait_jobs wd la [key] m of None \<Rightarrow> None
           | Some (m, Inl e) \<Rightarrow> Some (m, Inl e)
           | Some (m, Inr _) \<Rightarrow> loop wd la m)) = Some p"
    obtain m1 r1 where t: "cost_turn wd la m = (m1, r1)" by fastforce
    note le1 = cost_turn_launch[OF t]
    show "launch_le m (fst p)"
    proof (cases "\<exists>key. r1 = Inr (Some key)")
      case True
      then obtain key m2 r2 where k: "r1 = Inr (Some key)" and w: "wait_jobs wd la [key] m1 = Some (m2, r2)"
        using eq t by (auto split: option.splits)
      have le2: "launch_le m m2" using wait_jobs_launch[OF w] le1 launching.le_trans by auto
      show ?thesis
      proof (cases r2)
        case (Inl e)
        with eq t k w le2 show ?thesis by auto
      next
        case (Inr u)
        with eq t k w have "loop wd la m2 = Some p" by simp
        from rec[OF this] le2 show ?thesis using launching.le_trans by blast
      qed
    next
      case False
      with eq t le1 show ?thesis by (auto split: sum.splits option.splits)
    qed
  qed
  then show ?thesis by simp
qed

section \<open>Cancelling keeps the invariant\<close>

definition all_live :: "string list \<Rightarrow> 'w mgr \<Rightarrow> bool" where
  "all_live ks m \<longleftrightarrow> (\<forall>k\<in>set ks. live m k)"

lemma final_status_ledger: "final_status wd e m = (a, m') \<Longrightarrow> mg_ledger m' = mg_ledger m"
  by (auto simp: final_status_def Let_def dest!: job_query_ledger job_history_ledger
      split: prod.splits sum.splits if_splits)

lemma cancel_submitted_effect:
  assumes "cancel_submitted wd la reason e m = (m', b)" and "keys_ok m"
    and "job (mg_ledger m) (je_key e) = Some e" and "\<not> frozen e"
  shows "only_job (je_key e) m m' \<and> (b = Inr True \<longrightarrow> live m' (je_key e))"
proof -
  obtain answer m1 where f: "final_status wd e m = (answer, m1)" by fastforce
  note l1 = final_status_ledger[OF f]
  have k1: "keys_ok m1" and j1: "job (mg_ledger m1) (je_key e) = Some e"
    using assms(2,3) l1 by (simp_all add: keys_ok_def)
  have start: "only_job (je_key e) m1 m2 \<Longrightarrow> only_job (je_key e) m m2" for m2
    using only_job_cong[OF l1 refl] by simp
  show ?thesis
  proof (cases answer)
    case (Inl err)
    with assms(1) f l1 show ?thesis by (auto simp: cancel_submitted_def uncaught_def split: if_splits)
  next
    case (Inr status)
    consider "terminal status" "m' = settle wd (je_key e) (Some status) False (Some reason) m1" "b = Inr False"
      | "m' = m1" "b = Inr False"
      | ok m2 where "ask (cancel (wd_runner wd) (case je_job_id e of None \<Rightarrow> ''None'' | Some i \<Rightarrow> i)) m1 = (ok, m2)"
        "m' = put_job (je_key e) (\<lambda>x. x\<lparr>je_cancel := Some reason\<rparr>) m2"
      using assms(1) f Inr by (auto simp: cancel_submitted_def split: if_splits prod.splits)
    then show ?thesis
    proof cases
      case 1
      with start settle_only(1)[OF k1 j1 assms(4)] show ?thesis by simp
    next
      case 2
      with l1 show ?thesis by simp
    next
      case 3
      note l2 = ask_ledger[OF 3(1)]
      have "touched m2 (put_job (je_key e) (\<lambda>x. x\<lparr>je_cancel := Some reason\<rparr>) m2) e"
        by (rule put_job_touched) (use k1 j1 l2 assms(4) in \<open>simp_all add: keys_ok_def same_job_def\<close>)
      then have "touched m m' e" using touched_cong[of m2 m] l1 l2 3(2) by simp
      then show ?thesis using touched_only touched_live by blast
    qed
  qed
qed

lemma cancel_one_effect:
  assumes "cancel_one wd la reason key m = (m', b)" and "keys_ok m" and "live m key"
  shows "only_job key m m' \<and> (b = Inr True \<longrightarrow> live m' key)"
proof -
  obtain e where e: "job (mg_ledger m) key = Some e" "\<not> frozen e" using assms(3) by (auto simp: live_def)
  have key: "je_key e = key" using e(1) by (rule job_key_eq)
  show ?thesis
  proof (cases "je_status e \<in> {Reserved, Ambiguous, Unreconciled}")
    case True
    obtain m1 r1 where rn: "reconcile_by_name wd la e m = (m1, r1)" by fastforce
    have t: "touched m m1 e"
      using reconcile_by_name_touched[OF assms(2) _ e(2), of wd la] e key rn by simp
    obtain e1 where e1: "job (mg_ledger m1) key = Some e1" "\<not> frozen e1"
      using t key by (auto simp: touched_def)
    have k1: "keys_ok m1" by (rule only_job_keys[OF touched_only[OF t] assms(2)])
    have o1: "only_job key m m1" using touched_only[OF t] key by simp
    have key1: "je_key e1 = key" using e1(1) by (rule job_key_eq)
    have eq: "cancel_one wd la reason key m = (case r1 of Inl x \<Rightarrow> (m1, Inl x)
        | Inr _ \<Rightarrow> if je_status e1 \<noteq> Submitted then (m1, Inr False) else cancel_submitted wd la reason e1 m1)"
      using e(1) True e1(1) rn by (simp add: cancel_one_def split: sum.split)
    show ?thesis
    proof (cases "je_status e1 = Submitted \<and> (\<exists>u. r1 = Inr u)")
      case True
      then have "cancel_submitted wd la reason e1 m1 = (m', b)" using assms(1) eq by simp
      from cancel_submitted_effect[OF this k1 _ e1(2)] e1(1) key1
      show ?thesis using only_job_trans[OF o1] by simp
    qed (use assms(1) eq o1 in \<open>auto split: sum.splits if_splits\<close>)
  next
    case False
    then have "cancel_submitted wd la reason e m = (m', b)"
      using assms(1) e(1) by (simp add: cancel_one_def)
    from cancel_submitted_effect[OF this assms(2) _ e(2)] e(1) key show ?thesis by simp
  qed
qed

lemma after_one_job:
  assumes "only_job k m m1" and "keys_ok m" and "all_live (k # ks) m" and "distinct (k # ks)"
  shows "keys_ok m1 \<and> all_live ks m1"
proof
  show "keys_ok m1" by (rule only_job_keys[OF assms(1,2)])
  show "all_live ks m1"
    unfolding all_live_def
  proof
    fix j assume "j \<in> set ks"
    then have "j \<noteq> k" "live m j" using assms(3,4) by (auto simp: all_live_def)
    then show "live m1 j" using only_job_live[OF assms(1)] by simp
  qed
qed

text \<open>A pass over some keys keeps the first when it asks to, and what is kept of the rest.\<close>

lemma one_then_rest:
  assumes "only_job k m m1" and "distinct (k # ks)"
    and ih: "only_jobs ks m1 m2 \<and> (\<forall>t. rest = Inr t \<longrightarrow> distinct t \<and> set t \<subseteq> set ks \<and> all_live t m2)"
    and res: "(m' = m1 \<and> (\<exists>x. r = Inl x)) \<or> (m' = m2 \<and> (\<exists>x. r = Inl x))
      \<or> (\<exists>t. m' = m2 \<and> rest = Inr t \<and> r = Inr (if keep then k # t else t))"
    and "r = Inr x \<Longrightarrow> keep \<Longrightarrow> live m1 k"
  shows "only_jobs (k # ks) m m' \<and> (r = Inr x \<longrightarrow> distinct x \<and> set x \<subseteq> set (k # ks) \<and> all_live x m')"
proof -
  have o1: "only_jobs (k # ks) m m1" by (rule only_job_jobs[OF assms(1)]) simp
  have o2: "only_jobs (k # ks) m m2" by (rule only_jobs_trans[OF o1]) (use ih in auto)
  have "live m2 k" if "r = Inr x" "keep" using assms(2,5) that ih by (simp add: only_jobs_def live_def)
  with res ih o1 o2 assms(2) show ?thesis
    by (elim disjE exE conjE; cases keep) (auto simp: all_live_def)
qed

lemma cancel_targets_effect:
  assumes "cancel_targets wd la reason ks m = (m', r)" and "keys_ok m" and "distinct ks" and "all_live ks m"
  shows "only_jobs ks m m' \<and> (\<forall>targets. r = Inr targets \<longrightarrow>
    distinct targets \<and> set targets \<subseteq> set ks \<and> all_live targets m')"
  using assms
proof (induction ks arbitrary: m m' r)
  case Nil
  then show ?case by (auto simp: all_live_def)
next
  case (Cons k ks)
  obtain m1 b where c: "cancel_one wd la reason k m = (m1, b)" by fastforce
  obtain m2 rest where r: "cancel_targets wd la reason ks m1 = (m2, rest)" by fastforce
  have one: "only_job k m m1" "b = Inr True \<Longrightarrow> live m1 k"
    using cancel_one_effect[OF c Cons.prems(2)] Cons.prems(4) by (simp_all add: all_live_def)
  from after_one_job[OF one(1) Cons.prems(2,4,3)] have k1: "keys_ok m1" and lv: "all_live ks m1" by simp_all
  have dks: "distinct ks" using Cons.prems(3) by simp
  show ?case
  proof (intro conjI allI impI)
    have both: "only_jobs (k # ks) m m' \<and> (r = Inr x \<longrightarrow> distinct x \<and> set x \<subseteq> set (k # ks) \<and> all_live x m')" for x
    proof (rule one_then_rest[OF one(1) Cons.prems(3) Cons.IH[OF r k1 dks lv]])
      show "(m' = m1 \<and> (\<exists>x. r = Inl x)) \<or> (m' = m2 \<and> (\<exists>x. r = Inl x))
          \<or> (\<exists>t. m' = m2 \<and> rest = Inr t \<and> r = Inr (if b = Inr True then k # t else t))"
        using Cons.prems(1) c r by (cases b; cases rest) auto
    qed (rule one(2))
    then show "only_jobs (k # ks) m m'" by blast
    fix x assume "r = Inr x"
    with both show "distinct x" "set x \<subseteq> set (k # ks)" "all_live x m'" by blast+
  qed
qed

lemma confirm_one_effect:
  assumes "confirm_one wd reason k m = (m', b)" and "keys_ok m" and "live m k"
  shows "only_job k m m' \<and> (b = Inr False \<longrightarrow> live m' k)"
proof -
  obtain e where e: "job (mg_ledger m) k = Some e" "\<not> frozen e" using assms(3) by (auto simp: live_def)
  obtain answer m0 where f: "final_status wd e m = (answer, m0)" by fastforce
  note l0 = final_status_ledger[OF f]
  have k0: "keys_ok m0" using assms(2) l0 by (simp add: keys_ok_def)
  have j0: "job (mg_ledger m0) k = Some e" using e(1) l0 by simp
  have "only_job k m (settle wd k st False (Some reason) m0)" for st
    using settle_only(1)[OF k0 j0 e(2)] only_job_cong[OF l0 refl] by simp
  with assms(1) f e l0 j0 show ?thesis
    by (auto simp: confirm_one_def live_def uncaught_def split: sum.splits if_splits)
qed

lemma confirm_pass_effect:
  assumes "confirm_pass wd reason ks m = (m', r)" and "keys_ok m" and "distinct ks" and "all_live ks m"
  shows "only_jobs ks m m' \<and> (\<forall>rest. r = Inr rest \<longrightarrow>
    distinct rest \<and> set rest \<subseteq> set ks \<and> all_live rest m')"
  using assms
proof (induction ks arbitrary: m m' r)
  case Nil
  then show ?case by (auto simp: all_live_def)
next
  case (Cons k ks)
  obtain m1 b where c: "confirm_one wd reason k m = (m1, b)" by fastforce
  obtain m2 rest where r: "confirm_pass wd reason ks m1 = (m2, rest)" by fastforce
  have one: "only_job k m m1" "b = Inr False \<Longrightarrow> live m1 k"
    using confirm_one_effect[OF c Cons.prems(2)] Cons.prems(4) by (simp_all add: all_live_def)
  from after_one_job[OF one(1) Cons.prems(2,4,3)] have k1: "keys_ok m1" and lv: "all_live ks m1" by simp_all
  have dks: "distinct ks" using Cons.prems(3) by simp
  show ?case
  proof (intro conjI allI impI)
    have both: "only_jobs (k # ks) m m' \<and> (r = Inr x \<longrightarrow> distinct x \<and> set x \<subseteq> set (k # ks) \<and> all_live x m')" for x
    proof (rule one_then_rest[OF one(1) Cons.prems(3) Cons.IH[OF r k1 dks lv]])
      show "(m' = m1 \<and> (\<exists>x. r = Inl x)) \<or> (m' = m2 \<and> (\<exists>x. r = Inl x))
          \<or> (\<exists>t. m' = m2 \<and> rest = Inr t \<and> r = Inr (if b = Inr False then k # t else t))"
        using Cons.prems(1) c r by (cases b; cases rest) auto
    qed (rule one(2))
    then show "only_jobs (k # ks) m m'" by blast
    fix x assume "r = Inr x"
    with both show "distinct x" "set x \<subseteq> set (k # ks)" "all_live x m'" by blast+
  qed
qed

lemma only_jobs_keys: "only_jobs ks m m' \<Longrightarrow> keys_ok m \<Longrightarrow> keys_ok m'"
  using mgr_le_keys_ok by (auto simp: only_jobs_def)

lemma confirm_loop_effect:
  assumes "confirm_loop wd la reason limit ks m = Some p" and "keys_ok m" and "distinct ks" and "all_live ks m"
  shows "mgr_le m (fst p)"
proof -
  let ?P = "\<lambda>ks m p. keys_ok m \<longrightarrow> distinct ks \<longrightarrow> all_live ks m \<longrightarrow> mgr_le m (fst p)"
  have "?P ks m p"
  proof (rule confirm_loop.raw_induct[where P = "\<lambda>wd la reason limit ks m p. ?P ks m p", OF _ assms(1)],
      intro impI)
    fix loop wd la reason limit ks m p
    assume rec: "\<And>wd la reason limit ks m p. loop wd la reason limit ks m = Some p \<Longrightarrow> ?P ks m p"
      and eq: "(if ks = [] \<or> limit \<le> wd_clock wd (mg_w m) then Some (m, Inr ())
        else case confirm_pass wd reason ks m of (m, Inl x) \<Rightarrow> Some (m, Inl x)
        | (m, Inr rest) \<Rightarrow> if rest = [] then Some (m, Inr ())
            else loop wd la reason limit rest (pause wd (la_confirm_pause la) m)) = Some p"
      and k: "keys_ok m" "distinct ks" "all_live ks m"
    show "mgr_le m (fst p)"
    proof (cases "ks = [] \<or> limit \<le> wd_clock wd (mg_w m)")
      case True
      with eq show ?thesis by auto
    next
      case False
      obtain m1 r where c: "confirm_pass wd reason ks m = (m1, r)" by fastforce
      note ce = confirm_pass_effect[OF c k]
      show ?thesis
      proof (cases "\<exists>rest. r = Inr rest \<and> rest \<noteq> []")
        case False
        with eq \<open>\<not> (ks = [] \<or> limit \<le> wd_clock wd (mg_w m))\<close> c ce show ?thesis
          by (auto simp: only_jobs_def split: sum.splits)
      next
        case True
        then obtain rest where no: "r = Inr rest" "rest \<noteq> []" by blast
        define m2 where "m2 = pause wd (la_confirm_pause la) m1"
        have w: "loop wd la reason limit rest m2 = Some p" using eq False c no by (simp add: m2_def)
        have l2: "mg_ledger m2 = mg_ledger m1" by (simp add: m2_def)
        have "keys_ok m2" "all_live rest m2"
          using only_jobs_keys[of ks m m1] ce k(1) l2 no by (auto simp: keys_ok_def all_live_def live_def)
        with rec[OF w] ce no have "mgr_le m2 (fst p)" by simp
        then have "mgr_le m1 (fst p)" by (simp add: mgr_le_def l2)
        with ce show ?thesis using updates.le_trans by (auto simp: only_jobs_def)
      qed
    qed
  qed
  with assms show ?thesis by simp
qed

lemma owned_live:
  assumes "keys_ok m"
  shows "distinct (map je_key (owned b (mg_ledger m))) \<and> all_live (map je_key (owned b (mg_ledger m))) m"
proof -
  have "distinct (map je_key (filter P es))" if "distinct (map je_key es)" for P :: "job_entry \<Rightarrow> bool" and es
    using that by (rule distinct_map_filter)
  moreover have "live m (je_key e)" if "e \<in> set (owned b (mg_ledger m))" for e
    using job_unique[of "mg_ledger m" e] that assms
    by (auto simp: owned_def keys_ok_def live_def frozen_def ACTIVE_def)
  ultimately show ?thesis
    using assms by (auto simp: owned_def keys_ok_def all_live_def)
qed

lemma cancel_owned_le:
  assumes "cancel_owned wd la reason s b m = Some (m', ks)" and "keys_ok m"
  shows "mgr_le m m'"
proof -
  obtain m1 r where c: "cancel_targets wd la reason (map je_key (owned b (mg_ledger m))) m = (m1, r)"
    by fastforce
  note ow = owned_live[OF assms(2), of b]
  note ce = cancel_targets_effect[OF c assms(2) conjunct1[OF ow] conjunct2[OF ow]]
  have le1: "mgr_le m m1" using ce by (simp add: only_jobs_def)
  show ?thesis
  proof (cases r)
    case (Inl x)
    with assms(1) c le1 show ?thesis by (simp add: cancel_owned_def)
  next
    case (Inr targets)
    obtain r2 where "confirm_loop wd la reason (wd_clock wd (mg_w m1) + s * la_ticks la) targets m1 = Some (m', r2)"
      using assms(1) c Inr by (auto simp: cancel_owned_def split: option.splits sum.splits)
    from confirm_loop_effect[OF this] ce Inr only_jobs_keys[of _ m m1] assms(2)
    have "mgr_le m1 m'" by auto
    with le1 updates.le_trans show ?thesis by blast
  qed
qed

lemma cancel_owned_launch:
  "cancel_owned wd la reason s b m = Some (m', ks) \<Longrightarrow> launch_le m m'"
  using cancel_owned_le ledger_inv_keys by (blast intro: launch_leI)

lemma reconcile_one_only:
  assumes "keys_ok m" and "live m key"
  shows "only_job key m (fst (reconcile_one wd la key m))"
proof -
  obtain e where e: "job (mg_ledger m) key = Some e" "\<not> frozen e" using assms(2) by (auto simp: live_def)
  have key: "je_key e = key" using e(1) by (rule job_key_eq)
  show ?thesis
  proof (cases "je_status e \<in> {Reserved, Ambiguous, Unreconciled}")
    case True
    then have "reconcile_one wd la key m = reconcile_by_name wd la e m"
      using e(1) by (simp add: reconcile_one_def)
    with touched_only[OF reconcile_by_name_touched[OF assms(1) _ e(2)]] e(1) key show ?thesis by simp
  next
    case False
    obtain answer m1 where q: "job_query wd e m = (answer, m1)" by fastforce
    note l1 = job_query_ledger[OF q]
    show ?thesis
    proof (cases answer)
      case (Inl err)
      with e(1) False q l1 show ?thesis by (simp add: reconcile_one_def)
    next
      case (Inr status)
      define m3 where "m3 = m1\<lparr>mg_seen := (mg_seen m1)(key \<mapsto> no_seen\<lparr>se_state := Some (st_state status)\<rparr>)\<rparr>"
      obtain st m2 where s: "(if st_state status = ''NOTFOUND''
          then (let (past, m) = job_history wd e m3 in (case past of None \<Rightarrow> status | Some s \<Rightarrow> s, m))
          else (status, m3)) = (st, m2)" by fastforce
      have "mg_ledger m2 = mg_ledger m3"
        using s by (auto simp: Let_def dest!: job_history_ledger split: prod.splits if_splits)
      then have "mg_ledger m2 = mg_ledger m" by (simp add: m3_def l1)
      moreover have "fst (reconcile_one wd la key m)
          = (if terminal st then settle wd key (Some st) False None m2 else m2)"
        using e(1) False q Inr s unfolding m3_def by (simp add: reconcile_one_def Let_def)
      ultimately have m2: "mg_ledger m2 = mg_ledger m"
        "fst (reconcile_one wd la key m) = settle wd key (Some st) False None m2 \<or> fst (reconcile_one wd la key m) = m2"
        by simp_all
      have "keys_ok m2" "job (mg_ledger m2) key = Some e" using m2(1) assms(1) e(1) by (simp_all add: keys_ok_def)
      from settle_only(1)[OF this e(2)] m2 only_job_cong[OF m2(1) refl]
      show ?thesis by auto
    qed
  qed
qed

lemma reconcile_all_le:
  assumes "keys_ok m" and "distinct ks" and "all_live ks m"
  shows "mgr_le m (fst (reconcile_all wd la ks m))"
  using assms
proof (induction ks arbitrary: m)
  case (Cons k ks)
  obtain m1 r where one: "reconcile_one wd la k m = (m1, r)" by fastforce
  have o1: "only_job k m m1"
    using reconcile_one_only[OF Cons.prems(1), of k wd la] Cons.prems(3) one by (simp add: all_live_def)
  from after_one_job[OF o1 Cons.prems(1,3,2)] Cons.prems(2) Cons.IH[of m1]
  have "mgr_le m1 (fst (reconcile_all wd la ks m1))" by simp
  with only_job_le[OF o1] one show ?case using updates.le_trans by (cases r) auto
qed simp

lemma reconcile_launch: "launch_le m (fst (reconcile wd la m))"
proof (rule launch_leI)
  assume "ledger_inv (mg_ledger m)"
  then have k: "keys_ok m" by (rule ledger_inv_keys)
  from owned_live[OF k, of False] reconcile_all_le[OF k] show "mgr_le m (fst (reconcile wd la m))"
    unfolding reconcile_def by blast
qed

section \<open>The whole manager\<close>

lemma set_acct_launch: "launch_le m (set_acct f m)"
  by (rule same_jobs_le) (simp add: same_jobs_def set_acct_def set_ledger_def)

lemma ask_launch: "ask f m = (a, m') \<Longrightarrow> launch_le m m'"
  by (simp add: ask_ledger)

lemma cleanup_job_launch:
  assumes "cleanup_job wd la m = Some (m', r)"
  shows "launch_le m m'"
proof -
  define start where "start = (case latest (mg_ledger m) ''clean'' of
          Some e \<Rightarrow> (m, Inr (Some (je_key e, je_status e \<in> ACTIVE)))
        | None \<Rightarrow>
            (case submit_job wd la ''clean'' None m of
               (m, Inl e) \<Rightarrow> (m, Inl e)
             | (m, Inr k) \<Rightarrow> (m, Inr (map_option (\<lambda>k. (k, True)) k))))"
  obtain m1 got where s: "start = (m1, got)" by fastforce
  have le1: "launch_le m m1"
  proof (cases "latest (mg_ledger m) ''clean''")
    case None
    obtain m2 r2 where sub: "submit_job wd la ''clean'' None m = (m2, r2)" by fastforce
    have "launch_le m m2" by (rule submit_job_launch[OF sub]) (simp add: may_submit_def None)
    moreover have "m1 = m2" using s sub None by (auto simp: start_def split: sum.splits)
    ultimately show ?thesis by simp
  qed (use s in \<open>auto simp: start_def\<close>)
  have eq: "cleanup_job wd la m = (case got of
        Inl e \<Rightarrow> Some (m1, Inl e)
      | Inr None \<Rightarrow> Some (m1, Inr (''skipped'', mg_stop m1))
      | Inr (Some (key, waiting)) \<Rightarrow>
          if \<not> waiting then Some (m1, Inr (cleanup_result wd key m1))
          else (case wait_jobs wd la [key] m1 of
              None \<Rightarrow> None
            | Some (m, Inl (DeadlineReached why)) \<Rightarrow>
                (case cancel_owned wd la ''deadline'' CANCEL_CONFIRM_S False m of
                   None \<Rightarrow> None
                 | Some (m, Inl x) \<Rightarrow> Some (m, Inl (Failed x))
                 | Some (m, Inr _) \<Rightarrow> Some (m, Inr (''failed'', Some why)))
            | Some (m, Inl e) \<Rightarrow> Some (m, Inl e)
            | Some (m, Inr _) \<Rightarrow> Some (m, Inr (cleanup_result wd key m))))"
    unfolding cleanup_job_def start_def[symmetric] s Let_def by simp
  have "m' = m1 \<or> (\<exists>key m2 r2. wait_jobs wd la [key] m1 = Some (m2, r2)
      \<and> (m' = m2 \<or> (\<exists>ks. cancel_owned wd la ''deadline'' CANCEL_CONFIRM_S False m2 = Some (m', ks))))"
    using assms unfolding eq
    by (auto split: sum.splits option.splits if_splits stop.splits prod.splits)
  then show ?thesis
  proof (elim disjE exE conjE)
    fix key m2 r2
    assume w: "wait_jobs wd la [key] m1 = Some (m2, r2)" and m': "m' = m2"
    have "launch_le m1 m2" by (rule wait_jobs_launch[OF w]) simp
    with le1 launching.le_trans show ?thesis unfolding m' by blast
  next
    fix key m2 r2 ks
    assume w: "wait_jobs wd la [key] m1 = Some (m2, r2)"
      and c: "cancel_owned wd la ''deadline'' CANCEL_CONFIRM_S False m2 = Some (m', ks)"
    have "launch_le m1 m2" by (rule wait_jobs_launch[OF w]) simp
    with le1 launching.le_trans have "launch_le m m2" by blast
    with cancel_owned_launch[OF c] show ?thesis using launching.le_trans by blast
  qed (use le1 in simp)
qed

lemma decide_session_launch:
  assumes "decide_session wd la m = Some (m', code)"
  shows "launch_le m m'"
proof -
  obtain got m1 where a: "ask (wd_decide wd) m = (got, m1)" by fastforce
  note le1 = ask_launch[OF a]
  show ?thesis
  proof (cases got)
    case (Inl e)
    with assms a have "\<exists>f. m' = set_acct f m1" by (auto simp: decide_session_def)
    with set_acct_launch le1 launching.le_trans show ?thesis by blast
  next
    case (Inr sc)
    obtain status code' where sc: "sc = (status, code')" by fastforce
    define m2 where "m2 = set_acct (\<lambda>a. a\<lparr>ep_decide := Some (Decided status code')\<rparr>) m1"
    obtain m3 r f where c: "cleanup_after wd la m2 = Some (m3, r)" and m': "m' = set_acct f m3"
      using assms a Inr sc by (auto simp: decide_session_def m2_def split: option.splits)
    have le2: "launch_le m m2" using set_acct_launch le1 launching.le_trans unfolding m2_def by blast
    have "launch_le m2 m3"
    proof (cases "wd_blocker wd (mg_w m2) = Inr None")
      case True
      with c obtain r' where "cleanup_job wd la m2 = Some (m3, r')"
        by (auto simp: cleanup_after_def split: option.splits sum.splits stop.splits)
      then show ?thesis by (rule cleanup_job_launch)
    next
      case False
      with c have "m3 = m2" by (auto simp: cleanup_after_def split: sum.splits option.splits)
      then show ?thesis by simp
    qed
    with le2 set_acct_launch launching.le_trans show ?thesis unfolding m' by blast
  qed
qed

lemma when_final_launch:
  assumes "when_final wd st f m = Some (m', r)" and "\<And>m' r. f m = Some (m', r) \<Longrightarrow> launch_le m m'"
  shows "launch_le m m'"
  using assms by (auto simp: when_final_def split: if_splits)

lemma run_stages_launch:
  assumes "run_stages wd la m = Some (m', r)"
  shows "launch_le m m'"
  using assms unfolding run_stages_def
proof (rule launching.bindM_forward)
  fix u m1 m2 r2
  assume s: "stage_jobs wd la [''compile''] m = Some (m1, Inr u)"
  let ?rest = "\<lambda>m. bindM (when_final wd ''compile'' (stage_jobs wd la [''quality'']) m) (\<lambda>_ m.
         bindM (when_final wd ''quality'' (stage_jobs wd la
             (''correctness'' # (if la_unit_tests la then [''unit-tests''] else []))) m) (\<lambda>_ m.
         bindM (when_final wd ''correctness'' (cost_loop wd la) m) (\<lambda>_ m.
           Some (m, Inr True))))"
  assume b: "(if \<not> wd_session wd (mg_w m1)
       then Some (m1\<lparr>mg_stop := Some ''compile did not create the session''\<rparr>, Inr False)
       else ?rest m1) = Some (m2, r2)"
  have rest: "launch_le m1 m2" if "?rest m1 = Some (m2, r2)"
    using that
    by (auto elim!: launching.bindM_forward when_final_launch
        intro: stage_jobs_launch cost_loop_launch split: if_splits)
  show "launch_le m1 m2"
  proof (cases "wd_session wd (mg_w m1)")
    case True
    with b rest show ?thesis by simp
  next
    case False
    with b have "mg_ledger m2 = mg_ledger m1" by auto
    then show ?thesis by simp
  qed
next
  fix m1 r1
  assume s: "stage_jobs wd la [''compile''] m = Some (m1, r1)"
  show "launch_le m m1" by (rule stage_jobs_launch[OF s]) simp_all
qed

lemma pipeline_launch:
  assumes "pipeline wd la m = Some (m', r)"
  shows "launch_le m m'"
proof -
  have fin: "launch_le m1 m2" if "finish_pipeline wd la m1 = Some (m2, r2)" for m1 m2 r2
    using that decide_session_launch by (auto simp: finish_pipeline_def split: if_splits option.splits)
  obtain m1 r1 where s: "run_stages wd la m = Some (m1, r1)"
    using assms by (auto simp: pipeline_def split: option.splits)
  note le1 = run_stages_launch[OF s]
  consider "m' = m1" | "finish_pipeline wd la m1 = Some (m', r)"
    | why m2 ks where "cancel_owned wd la ''deadline'' CANCEL_CONFIRM_S False (m1\<lparr>mg_stop := Some why\<rparr>) = Some (m2, ks)"
      "m' = m2 \<or> finish_pipeline wd la m2 = Some (m', r)"
    using assms s by (auto simp: pipeline_def split: sum.splits stop.splits option.splits if_splits bool.splits)
  then show ?thesis
  proof cases
    case 2
    with fin le1 launching.le_trans show ?thesis by blast
  next
    case 3
    have "launch_le m1 (m1\<lparr>mg_stop := Some why\<rparr>)" by simp
    with cancel_owned_launch[OF 3(1)] le1 have "launch_le m m2" using launching.le_trans by blast
    with 3(2) fin launching.le_trans show ?thesis by blast
  qed (use le1 in simp)
qed

lemma record_result_launch: "launch_le m (fst (record_result m r))"
  using set_acct_launch by (simp add: record_result_def)

lemma give_up_launch:
  assumes "give_up wd la reason s code m = Some (m', r)"
  shows "launch_le m m'"
proof -
  obtain m1 ks r1 where "cancel_owned wd la reason s False m = Some (m1, ks)" "record_result m1 r1 = (m', r)"
    using assms unfolding give_up_def by (auto split: option.splits sum.splits)
  with cancel_owned_launch record_result_launch[of m1 r1] launching.le_trans show ?thesis by (metis fst_conv)
qed

lemma run_manager_launch:
  assumes "run_manager wd la m = Some (m', code)"
  shows "launch_le m m'"
proof -
  define m0 where "m0 = set_ledger (\<lambda>l. l\<lparr>lg_managers := lg_managers l + 1\<rparr>) m"
  obtain m1 r1 where r: "reconcile wd la m0 = (m1, r1)" by fastforce
  have "launch_le m m0" by (rule same_jobs_le) (simp add: same_jobs_def m0_def set_ledger_def)
  with reconcile_launch[of m0 wd la] r have le1: "launch_le m m1" using launching.le_trans by (metis fst_conv)
  let ?give_up = "give_up wd la ''manager error'' CANCEL_CONFIRM_S EXIT_ERROR"
  have "?give_up m1 = Some (m', code) \<or> (\<exists>m2 c. pipeline wd la m1 = Some (m2, c)
      \<and> (?give_up m2 = Some (m', code) \<or> (\<exists>r2. record_result m2 r2 = (m', code))))"
    using assms r unfolding run_manager_def Let_def m0_def[symmetric]
    by (auto split: sum.splits option.splits prod.splits)
  then have "launch_le m1 m'"
  proof (elim disjE exE conjE)
    fix m2 c r2
    assume p: "pipeline wd la m1 = Some (m2, c)" and f: "record_result m2 r2 = (m', code)"
    from record_result_launch[of m2 r2] have "launch_le m2 m'" unfolding f by simp
    with pipeline_launch[OF p] launching.le_trans show ?thesis by blast
  next
    fix m2 c
    assume p: "pipeline wd la m1 = Some (m2, c)" and g: "?give_up m2 = Some (m', code)"
    from pipeline_launch[OF p] give_up_launch[OF g] launching.le_trans show ?thesis by blast
  qed (rule give_up_launch)
  with le1 launching.le_trans show ?thesis by blast
qed

section \<open>Properties\<close>

text \<open>
  A cost job ends \<open>noisy\<close>, the only outcome that leads to another cost job, only on positive
  evidence: its own outcome record says exit code 42 and the committed cost state is \<open>noisy\<close> and was
  written by this very job. A job that is lost, killed, or whose session state another job wrote, is never noisy.
\<close>

theorem noisy_needs_evidence:
  assumes "classify e status rec lost view = ''noisy''"
  shows "\<not> lost \<and> je_status e \<noteq> Unreconciled
    \<and> (\<exists>r v. rec = Some r \<and> jr_exit r = 42 \<and> view = Some v \<and> sv_status v = ''noisy''
         \<and> sv_job_key v = Some (je_key e))"
  using assms
  by (cases rec; cases view) (auto simp: classify_def Let_def FINAL_def split: if_splits)

text \<open>
  C12. Whatever the scheduler answers and the jobs write, a manager that returns has kept its ledger's
  invariant: at most 21 cost jobs of the epoch use the budget, and every other stage has at most one
  job that was not rejected.
\<close>

theorem cost_budget_never_exceeded:
  assumes "ledger_inv (mg_ledger m)" and "run_manager wd la m = Some (m', code)"
  shows "budget_used (mg_ledger m') \<le> 21
    \<and> (st \<noteq> ''cost'' \<longrightarrow> length (filter (\<lambda>e. je_status e \<noteq> Rejected) (current (mg_ledger m') st)) \<le> 1)
    \<and> ledger_inv (mg_ledger m')"
  using run_manager_launch[OF assms(2)] assms(1)
  by (simp add: launch_le_def ledger_inv_def one_job_def MAX_COST_ATTEMPTS_def MAX_COST_RETRIES_def)

lemma grows_frozen:
  assumes "grows_to l l'" and "ledger_inv l'" and "job l key = Some e" and "frozen e"
  shows "job l' key = Some e"
proof -
  obtain js new where js: "lg_jobs l' = js @ new" "list_all2 entry_le (lg_jobs l) js"
    using assms(1) by (auto simp: grows_to_def)
  have e: "e \<in> set (lg_jobs l)" "je_key e = key" using job_Some[OF assms(3)] by simp_all
  obtain y where "y \<in> set js" "entry_le e y" using list_all2_left[OF js(2) e(1)] by blast
  then have "e \<in> set (lg_jobs l')" using assms(4) js(1) by (simp add: entry_le_def)
  with job_unique[of l' e] assms(2) e(2) show ?thesis by (simp add: ledger_inv_def ledger_ok_def)
qed

text \<open>
  C20. A job that has ended keeps its entry: a later manager that loads the ledger never changes the
  recorded outcome, host or budget of a terminal or rejected job.
\<close>

theorem settled_job_frozen:
  assumes "ledger_inv (mg_ledger m)" and "run_manager wd la m = Some (m', code)"
    and "job (mg_ledger m) key = Some e" and "je_status e \<in> {Terminal, Rejected}"
  shows "job (mg_ledger m') key = Some e"
proof (rule grows_frozen)
  have "launch_le m m'" by (rule run_manager_launch[OF assms(2)])
  with assms(1) show "grows_to (mg_ledger m) (mg_ledger m')" "ledger_inv (mg_ledger m')"
    by (simp_all add: launch_le_def)
  show "frozen e" unfolding frozen_def by (rule assms(4))
qed (rule assms(3))

section \<open>Witnesses\<close>

text \<open>
  A session whose stages are final but for a noisy cost stage; its cost job ran into contamination
  and no second one fits before the deadline.
\<close>

definition demo_row :: bjobs_row where
  "demo_row = \<lparr>br_error = [], br_jobid = Some ''7'', br_stat = ''EXIT'', br_exit = Some ''42'',
     br_host = Some ''h1'', br_pending = None, br_name = Some ''qtb-r-c1'', br_user = Some ''u''\<rparr>"

definition demo_world :: "nat world" where
  "demo_world = \<lparr>wd_runner = (\<lambda>a w. (Exited 0 ''{}'' [], Suc w)), wd_json = (\<lambda>_. Inr [demo_row]),
     wd_clock = (\<lambda>w. w), wd_now = (\<lambda>w. w), wd_sleep = (\<lambda>t w. t + w), wd_nonce = (\<lambda>w. (''n'' @ show_nat w, Suc w)),
     wd_session = (\<lambda>_. True),
     wd_state = (\<lambda>w st. Some (if st = ''cost'' then \<lparr>sv_status = ''noisy'', sv_job_key = Some ''c1''\<rparr>
        else \<lparr>sv_status = ''complete'', sv_job_key = Some st\<rparr>)),
     wd_record = (\<lambda>w k. if k = ''c1'' then Some \<lparr>jr_exit = 42, jr_message = None, jr_host = Some ''h1'',
        jr_reason = None, jr_phase = Some ''idle probe''\<rparr> else None),
     wd_cleaned = (\<lambda>_. None), wd_other_inputs = (\<lambda>_. []),
     wd_decide = (\<lambda>w. (Inr (''indeterminate'', 32), w)), wd_blocker = (\<lambda>_. Inr (Some ''kept''))\<rparr>"

definition demo_launch :: launch where
  "demo_launch = \<lparr>la_run_id = ''r'', la_user = ''u'', la_unit_tests = False,
     la_command = (\<lambda>st key n. [st, key]), la_queue = (\<lambda>_. None), la_mem = (\<lambda>_. ''4G''), la_wall = (\<lambda>_. ''1:00''),
     la_output = (\<lambda>k. k), la_selector = no_selector, la_deadline = 10, la_poll = 30, la_retry_pause = 5,
     la_confirm_pause = 2, la_lost_after = 100, la_ticks = 1\<rparr>"

definition demo_running :: job_entry where
  "demo_running = (new_entry ''c1'' ''cost'' (Some 1) ''qtb-r-c1'' 0 0)
     \<lparr>je_status := Submitted, je_job_id := Some ''7''\<rparr>"

definition demo_compiled_job :: job_entry where
  "demo_compiled_job = (new_entry ''k0'' ''compile'' None ''qtb-r-k0'' 0 0)\<lparr>je_status := Terminal,
     je_outcome := Some \<lparr>oc_kind = ''complete'', oc_exit = Some 0, oc_message = None, oc_reason = None,
       oc_host = None, oc_phase = None\<rparr>, je_consumes := Some True\<rparr>"

definition demo_mgr :: "nat mgr" where
  "demo_mgr = \<lparr>mg_ledger = create_ledger\<lparr>lg_jobs := [demo_compiled_job, demo_running]\<rparr>, mg_seen = Map.empty,
     mg_stop = None, mg_w = 0\<rparr>"

theorem noisy_needs_evidence_witness:
  "classify demo_running None (wd_record demo_world 0 ''c1'') False (wd_state demo_world 0 ''cost'') = ''noisy''
    \<and> je_status demo_running \<noteq> Unreconciled"
proof -
  have "classify demo_running None (wd_record demo_world 0 ''c1'') False (wd_state demo_world 0 ''cost'') = ''noisy''"
    by code_simp
  with noisy_needs_evidence[OF this] show ?thesis by blast
qed

lemma demo_mgr_inv: "ledger_inv (mg_ledger demo_mgr)"
proof -
  have "length (filter P (current (mg_ledger demo_mgr) st)) \<le> 1" for P st
  proof -
    have d: "je_stage demo_compiled_job \<noteq> je_stage demo_running" by code_simp
    have js: "lg_jobs (mg_ledger demo_mgr) = [demo_compiled_job, demo_running]" by (simp add: demo_mgr_def)
    show ?thesis unfolding current_def jobs_of_def js using d by auto
  qed
  moreover have "ledger_ok (mg_ledger demo_mgr)" by code_simp
  moreover have "budget_used (mg_ledger demo_mgr) \<le> MAX_COST_ATTEMPTS" by code_simp
  moreover have "\<forall>e\<in>set (lg_jobs (mg_ledger demo_mgr)). entry_ok e" by code_simp
  ultimately show ?thesis by (simp add: ledger_inv_def one_job_def)
qed

lemma demo_manager_run: "map_option snd (run_manager demo_world demo_launch demo_mgr) = Some (Inr 32)"
  by code_simp

theorem cost_budget_never_exceeded_witness:
  "\<exists>m'. run_manager demo_world demo_launch demo_mgr = Some (m', Inr 32) \<and> budget_used (mg_ledger m') \<le> 21"
  using demo_manager_run cost_budget_never_exceeded[OF demo_mgr_inv] by auto

theorem settled_job_frozen_witness:
  "\<exists>m'. run_manager demo_world demo_launch demo_mgr = Some (m', Inr 32)
     \<and> job (mg_ledger m') ''k0'' = Some demo_compiled_job"
proof -
  obtain m' where r: "run_manager demo_world demo_launch demo_mgr = Some (m', Inr 32)" using demo_manager_run by auto
  have j: "job (mg_ledger demo_mgr) ''k0'' = Some demo_compiled_job" by code_simp
  have "je_status demo_compiled_job \<in> {Terminal, Rejected}" by code_simp
  from settled_job_frozen[OF demo_mgr_inv r j this] r show ?thesis by blast
qed

end
