(* ===== verification/ManagerLive.thy ===== *)
theory ManagerLive
  imports ManagerInv
begin

text \<open>
  A manager ends (\<open>src/lsf/manager.py\<close>): waiting ends at the deadline, cancelling is confirmed for
  a bounded time, and the cost loop stops within the budget. The world may answer anything; all it
  has to do is to let time pass: a command never turns the monotonic clock back and \<open>time.sleep\<close>
  lasts at least as long as it was asked to. A manager ends with an exit code unless an answer of
  \<open>bjobs\<close> that is JSON of another form raises in the cancellation of its jobs.
\<close>

section \<open>Time passes\<close>

definition clock_forward :: "'w world \<Rightarrow> bool" where
  "clock_forward wd \<longleftrightarrow> (\<forall>a w. wd_clock wd w \<le> wd_clock wd (snd (wd_runner wd a w)))
     \<and> (\<forall>t w. wd_clock wd w + t \<le> wd_clock wd (wd_sleep wd t w))"

definition not_earlier :: "'w world \<Rightarrow> 'w mgr \<Rightarrow> 'w mgr \<Rightarrow> bool" where
  "not_earlier wd m m' \<longleftrightarrow> wd_clock wd (mg_w m) \<le> wd_clock wd (mg_w m')"

interpretation time: forward "not_earlier wd" for wd :: "'w world"
  by unfold_locales (simp_all add: not_earlier_def)

lemma same_time [simp]: "mg_w m' = mg_w m \<Longrightarrow> not_earlier wd m m'"
  by (simp add: not_earlier_def)

lemma ledger_ops_w [simp]:
  "mg_w (put_job k f m) = mg_w m" "mg_w (put_seen k g m) = mg_w m" "mg_w (settle wd key status lost c m) = mg_w m"
  by (simp_all add: put_job_def put_seen_def settle_def Let_def split: option.split)

lemma bjobs_time:
  assumes "clock_forward wd"
  shows "wd_clock wd w \<le> wd_clock wd (snd (bjobs (wd_runner wd) json ts w))"
  using assms by (auto simp: bjobs_def clock_forward_def split: prod.split dest: spec[of _ w]) (metis snd_conv)

lemma ask_time:
  assumes "ask f m = (a, m')" and "\<And>w. wd_clock wd w \<le> wd_clock wd (snd (f w))"
  shows "not_earlier wd m m'"
  using assms(1) assms(2)[of "mg_w m"] by (auto simp: ask_def not_earlier_def split: prod.splits)

lemma command_time:
  assumes "clock_forward wd"
  shows "wd_clock wd w \<le> wd_clock wd (snd (query (wd_runner wd) json i w))"
    and "wd_clock wd w \<le> wd_clock wd (snd (find_jobs (wd_runner wd) json i w))"
    and "wd_clock wd w \<le> wd_clock wd (snd (history (wd_runner wd) i w))"
    and "wd_clock wd w \<le> wd_clock wd (snd (cancel (wd_runner wd) i w))"
proof -
  have r: "wd_clock wd w \<le> wd_clock wd (snd (wd_runner wd a w))" for a
    using assms by (simp add: clock_forward_def)
  show "wd_clock wd w \<le> wd_clock wd (snd (query (wd_runner wd) json i w))"
    using bjobs_time[OF assms, of w json "[i]"] by (cases "bjobs (wd_runner wd) json [i] w") (auto simp: query_def)
  show "wd_clock wd w \<le> wd_clock wd (snd (find_jobs (wd_runner wd) json i w))"
    using bjobs_time[OF assms, of w json "[''-J'', i]"] by (cases "bjobs (wd_runner wd) json [''-J'', i] w") (auto simp: find_jobs_def)
  show "wd_clock wd w \<le> wd_clock wd (snd (history (wd_runner wd) i w))"
    using r[of "[''bhist'', ''-l'', ''-n'', ''0'', i]"] by (cases "wd_runner wd [''bhist'', ''-l'', ''-n'', ''0'', i] w") (auto simp: history_def)
  show "wd_clock wd w \<le> wd_clock wd (snd (cancel (wd_runner wd) i w))"
    using r[of "[''bkill'', i]"] by (cases "wd_runner wd [''bkill'', i] w") (auto simp: cancel_def)
qed

lemma query_time:
  assumes "clock_forward wd" and "job_query wd e m = (a, m')"
  shows "not_earlier wd m m'"
  by (rule ask_time[OF assms(2)[unfolded job_query_def] command_time(1)[OF assms(1)]])

lemma history_time:
  assumes "clock_forward wd" and "job_history wd e m = (a, m')"
  shows "not_earlier wd m m'"
  by (rule ask_time[OF assms(2)[unfolded job_history_def] command_time(3)[OF assms(1)]])

lemma not_found_w [simp]: "mg_w (not_found wd la e m) = mg_w m"
  by (simp add: not_found_def Let_def)

lemma cancel_all_time:
  assumes "clock_forward wd"
  shows "not_earlier wd m (cancel_all wd extra m)"
  unfolding cancel_all_def
proof (rule time.foldl_forward)
  fix m s
  obtain a m' where "ask (cancel (wd_runner wd) (st_job_id s)) m = (a, m')" by fastforce
  with ask_time[OF this] command_time(4)[OF assms]
  show "not_earlier wd m (snd (ask (cancel (wd_runner wd) (st_job_id s)) m))" by simp
qed

lemma reconcile_by_name_time:
  assumes "clock_forward wd"
  shows "not_earlier wd m (fst (reconcile_by_name wd la e m))"
proof -
  obtain found m1 where a: "ask (find_jobs (wd_runner wd) (wd_json wd) (je_name e)) m = (found, m1)"
    by fastforce
  have t1: "not_earlier wd m m1" by (rule ask_time[OF a]) (rule command_time[OF assms])
  have "not_earlier wd m1 (fst (reconcile_by_name wd la e m))"
  proof (cases found)
    case (Inr all_found)
    show ?thesis
    proof (cases "filter (\<lambda>s. st_user s = Some (la_user la) \<and> st_name s = Some (je_name e)) all_found")
      case (Cons s extra)
      define m2 where "m2 = (put_job (je_key e) (\<lambda>x. x\<lparr>je_status := Submitted, je_job_id := Some (st_job_id s)\<rparr>) m1)
        \<lparr>mg_seen := (mg_seen (put_job (je_key e) (\<lambda>x. x\<lparr>je_status := Submitted, je_job_id := Some (st_job_id s)\<rparr>) m1))
           (je_key e \<mapsto> no_seen)\<rparr>"
      have "fst (reconcile_by_name wd la e m) = cancel_all wd extra m2"
        using a Inr Cons by (simp add: reconcile_by_name_def Let_def m2_def)
      moreover have "not_earlier wd m1 m2" by (simp add: m2_def)
      ultimately show ?thesis using cancel_all_time[OF assms, of m2 extra] time.le_trans by metis
    qed (use a Inr in \<open>simp add: reconcile_by_name_def\<close>)
  qed (use a in \<open>simp add: reconcile_by_name_def\<close>)
  with t1 time.le_trans show ?thesis by blast
qed

lemma missing_time: "not_earlier wd m (fst (missing wd la key m))"
  by (simp add: missing_def Let_def)

lemma poll_job_time:
  assumes "clock_forward wd"
  shows "not_earlier wd m (fst (poll_job wd la e m))"
proof -
  obtain answer m1 where q: "job_query wd e m = (answer, m1)" by fastforce
  note t1 = query_time[OF assms q]
  show ?thesis
  proof (cases answer)
    case (Inl err)
    have "mg_w (fst (poll_job wd la e m)) = mg_w m1" using q Inl by (simp add: poll_job_def)
    with t1 show ?thesis by (simp add: not_earlier_def)
  next
    case (Inr status)
    define m2 where "m2 = put_seen (je_key e) (\<lambda>s. s\<lparr>se_state := Some (st_state status)\<rparr>) m1"
    have t2: "not_earlier wd m m2" using t1 by (simp add: not_earlier_def m2_def)
    show ?thesis
    proof (cases "st_state status = ''NOTFOUND''")
      case True
      obtain past m3 where h: "job_history wd e m2 = (past, m3)" by fastforce
      have "fst (poll_job wd la e m) = settle wd (je_key e) past False None m3
          \<or> fst (poll_job wd la e m) = fst (missing wd la (je_key e) m3)"
        using q Inr True h by (cases past) (simp_all add: poll_job_def m2_def Let_def split: prod.split)
      then have "not_earlier wd m3 (fst (poll_job wd la e m))"
        using missing_time by (auto simp: not_earlier_def)
      with t2 history_time[OF assms h] time.le_trans show ?thesis by blast
    next
      case False
      have "mg_w (fst (poll_job wd la e m)) = mg_w m2"
        using q Inr False by (simp add: poll_job_def m2_def Let_def)
      with t2 show ?thesis by (simp add: not_earlier_def)
    qed
  qed
qed

lemma observe_time:
  assumes "clock_forward wd" and "observe wd la key m = (m', r)"
  shows "not_earlier wd m m'"
proof (cases "job (mg_ledger m) key")
  case None
  with assms(2) show ?thesis by (simp add: observe_def)
next
  case (Some e)
  obtain m1 r1 where rn: "(if je_status e \<in> {Reserved, Ambiguous} then reconcile_by_name wd la e m else (m, Inr ())) = (m1, r1)"
    by fastforce
  have t1: "not_earlier wd m m1"
    using reconcile_by_name_time[OF assms(1), of m la e] rn by (auto split: if_splits)
  have "mg_w m' = mg_w m1 \<or> (\<exists>e'. m' = fst (poll_job wd la e' m1))"
    using assms(2) unfolding observe_def Some option.case rn prod.case
    by (auto split: option.splits if_splits sum.splits simp: failing_cases)
  then show ?thesis using t1 poll_job_time[OF assms(1)] time.le_trans by (metis same_time)
qed

lemma observe_all_time:
  assumes "clock_forward wd" and "observe_all wd la ks m = (m', r)"
  shows "not_earlier wd m m'"
  using assms(2)
proof (induction ks arbitrary: m m' r)
  case (Cons k ks)
  obtain m1 r1 where o: "observe wd la k m = (m1, r1)" by fastforce
  obtain m2 r2 where rec: "observe_all wd la ks m1 = (m2, r2)" by fastforce
  have t: "not_earlier wd m m1" "not_earlier wd m m2"
    using observe_time[OF assms(1) o] Cons.IH[OF rec] time.le_trans by blast+
  show ?case using Cons.prems o rec t Cons.IH[OF rec] by (auto split: sum.splits if_splits)
qed simp

lemma final_status_time:
  assumes "clock_forward wd" and "final_status wd e m = (a, m')"
  shows "not_earlier wd m m'"
proof -
  obtain answer m1 where q: "job_query wd e m = (answer, m1)" by fastforce
  obtain past m2 where h: "job_history wd e m1 = (past, m2)" by fastforce
  have "m' = m1 \<or> m' = m2" using assms(2) q h by (auto simp: final_status_def split: sum.splits if_splits)
  with query_time[OF assms(1) q] history_time[OF assms(1) h] time.le_trans show ?thesis by blast
qed

lemma confirm_one_time:
  assumes "clock_forward wd" and "confirm_one wd reason k m = (m', r)"
  shows "not_earlier wd m m'"
proof (cases "job (mg_ledger m) k")
  case (Some e)
  obtain a m2 where f: "final_status wd e m = (a, m2)" by fastforce
  have "mg_w m' = mg_w m2" using assms(2) Some f by (auto simp: confirm_one_def split: sum.splits if_splits)
  with final_status_time[OF assms(1) f] show ?thesis by (simp add: not_earlier_def)
qed (use assms(2) in \<open>simp add: confirm_one_def\<close>)

lemma confirm_pass_time:
  assumes "clock_forward wd" and "confirm_pass wd reason ks m = (m', r)"
  shows "not_earlier wd m m'"
  using assms(2)
proof (induction ks arbitrary: m m' r)
  case (Cons k ks)
  obtain m1 b where c: "confirm_one wd reason k m = (m1, b)" by fastforce
  obtain m2 rest where rec: "confirm_pass wd reason ks m1 = (m2, rest)" by fastforce
  have "m' = m1 \<or> m' = m2" using Cons.prems c rec by (auto split: sum.splits)
  with Cons.IH[OF rec] confirm_one_time[OF assms(1) c] time.le_trans show ?case by blast
qed simp

section \<open>Waiting and cancelling end\<close>

lemma pause_clock: "clock_forward wd \<Longrightarrow> wd_clock wd (mg_w m) + t \<le> wd_clock wd (mg_w (pause wd t m))"
  by (simp add: clock_forward_def pause_def)

lemma wait_jobs_returns:
  assumes "clock_forward wd" and "1 \<le> la_poll la"
  shows "\<exists>r. wait_jobs wd la ks m = Some r"
proof (induction "la_deadline la - wd_clock wd (mg_w m)" arbitrary: ks m rule: less_induct)
  case less
  obtain m1 r1 where o: "observe_all wd la ks m = (m1, r1)" by fastforce
  have t: "not_earlier wd m m1" using observe_all_time[OF assms(1) o] by simp
  have eq: "wait_jobs wd la ks m = (if ks = [] then Some (m, Inr ())
      else case r1 of Inl e \<Rightarrow> Some (m1, Inl e)
        | Inr rest \<Rightarrow> if rest = [] then Some (m1, Inr ())
            else if la_deadline la \<le> wd_clock wd (mg_w m1) then Some (m1, Inl (deadline_stop rest))
            else wait_jobs wd la rest (pause wd (la_poll la) m1))"
    by (subst wait_jobs.simps) (simp add: o)
  show ?case
  proof (cases "la_deadline la \<le> wd_clock wd (mg_w m1)")
    case False
    have "la_deadline la - wd_clock wd (mg_w (pause wd (la_poll la) m1))
        < la_deadline la - wd_clock wd (mg_w m)"
      using pause_clock[OF assms(1), of m1 "la_poll la"] t assms(2) False by (simp add: not_earlier_def)
    from less[OF this] show ?thesis unfolding eq by (cases r1) simp_all
  qed (unfold eq, cases r1, simp_all)
qed

lemma confirm_loop_returns:
  assumes "clock_forward wd" and "1 \<le> la_confirm_pause la"
  shows "\<exists>r. confirm_loop wd la reason limit ks m = Some r"
proof (induction "limit - wd_clock wd (mg_w m)" arbitrary: ks m rule: less_induct)
  case less
  obtain m1 r1 where c: "confirm_pass wd reason ks m = (m1, r1)" by fastforce
  have eq: "confirm_loop wd la reason limit ks m = (if ks = [] \<or> wd_clock wd (mg_w m) \<ge> limit then Some (m, Inr ())
      else case r1 of Inl x \<Rightarrow> Some (m1, Inl x)
        | Inr rest \<Rightarrow> if rest = [] then Some (m1, Inr ())
            else confirm_loop wd la reason limit rest (pause wd (la_confirm_pause la) m1))"
    by (subst confirm_loop.simps) (simp add: c)
  show ?case
  proof (cases "wd_clock wd (mg_w m) < limit")
    case True
    have "limit - wd_clock wd (mg_w (pause wd (la_confirm_pause la) m1)) < limit - wd_clock wd (mg_w m)"
      using pause_clock[OF assms(1), of m1 "la_confirm_pause la"] confirm_pass_time[OF assms(1) c] assms(2) True
      by (simp add: not_earlier_def)
    from less[OF this] show ?thesis unfolding eq by (cases r1) simp_all
  qed (unfold eq, simp)
qed

lemma cancel_owned_returns:
  assumes "clock_forward wd" and "1 \<le> la_confirm_pause la"
  shows "\<exists>r. cancel_owned wd la reason s b m = Some r"
proof -
  obtain m1 r1 where c: "cancel_targets wd la reason (map je_key (owned b (mg_ledger m))) m = (m1, r1)" by fastforce
  show ?thesis
  proof (cases r1)
    case (Inr targets)
    obtain p where "confirm_loop wd la reason (wd_clock wd (mg_w m1) + s * la_ticks la) targets m1 = Some p"
      using confirm_loop_returns[OF assms] by blast
    then show ?thesis using c Inr by (cases p; cases "snd p") (auto simp: cancel_owned_def)
  qed (use c in \<open>simp add: cancel_owned_def\<close>)
qed

section \<open>What can leave a manager\<close>

text \<open>
  An exception other than \<open>QueryFailed\<close> comes from the reading of an answer of \<open>bjobs\<close> that is JSON of another form
  than the records it documents; text that is no JSON is a \<open>QueryFailed\<close>.
\<close>

definition escapes :: "'w world \<Rightarrow> exn \<Rightarrow> bool" where
  "escapes wd x \<longleftrightarrow> \<not> is_query_failed x \<and> (\<exists>out. wd_json wd out = Inl x)"

lemma query_failed_caught [simp]: "is_query_failed (query_failed m)"
  by (simp add: is_query_failed_def query_failed_def)

lemma row_status_Inl: "row_status r = Inl e \<Longrightarrow> is_query_failed e \<or> e = ValueError"
  by (auto simp: row_status_def exit_code_of_def Let_def split: if_splits option.splits)

lemma mapE_row_status_Inl: "mapE row_status rs = Inl e \<Longrightarrow> is_query_failed e \<or> e = ValueError"
proof (induction rs)
  case (Cons r rs)
  then show ?case using row_status_Inl[of r] by (cases "row_status r"; cases "mapE row_status rs") auto
qed simp

lemma bjobs_answer_Inl:
  assumes "bjobs_answer json p = Inl e"
  shows "is_query_failed e \<or> (\<exists>out. json out = Inl e)"
proof (cases p)
  case (Exited code out err)
  show ?thesis
  proof (cases "strip out = []")
    case False
    then have b: "(case parse_bjobs json out of Inl ValueError \<Rightarrow> Inl (query_failed ''unreadable bjobs output'') | r \<Rightarrow> r) = Inl e"
      using assms by (simp add: Exited bjobs_answer_def)
    show ?thesis
    proof (cases "parse_bjobs json out")
      case (Inl x)
      show ?thesis
      proof (cases "x = ValueError")
        case True
        with b Inl show ?thesis by auto
      next
        case no: False
        with b Inl have "e = x" by (cases x) simp_all
        with Inl no mapE_row_status_Inl[of _ x] show ?thesis
          by (cases "json out") (auto simp: parse_bjobs_def split: if_splits)
      qed
    qed (use b in simp)
  qed (use assms Exited in \<open>auto simp: bjobs_answer_def split: if_splits\<close>)
qed (use assms in \<open>auto simp: bjobs_answer_def\<close>)

lemma bjobs_Inl: "bjobs rn json ts w = (Inl e, w') \<Longrightarrow> is_query_failed e \<or> (\<exists>out. json out = Inl e)"
  using bjobs_answer_Inl by (auto simp: bjobs_def split: prod.splits)

lemma bindE_ok_Inl: "bindE r (\<lambda>a. Inr (f a)) = Inl e \<longleftrightarrow> r = Inl e"
  by (cases r) simp_all

lemma query_Inl:
  assumes "job_query wd e m = (Inl x, m')"
  shows "is_query_failed x \<or> escapes wd x"
proof -
  obtain i w where "query (wd_runner wd) (wd_json wd) i (mg_w m) = (Inl x, w)"
    using assms by (auto simp: job_query_def ask_def split: prod.splits)
  then have "bjobs (wd_runner wd) (wd_json wd) [i] (mg_w m) = (Inl x, w)"
    by (auto simp: query_def bindE_ok_Inl split: prod.splits)
  from bjobs_Inl[OF this] show ?thesis by (auto simp: escapes_def)
qed

lemma uncaught_Inl: "uncaught e a = Inl x \<longleftrightarrow> x = e \<and> \<not> is_query_failed e"
  by (auto simp: uncaught_def)

lemma reconcile_by_name_Inl:
  assumes "reconcile_by_name wd la e m = (m', Inl x)"
  shows "escapes wd x"
proof -
  obtain found m1 where a: "ask (find_jobs (wd_runner wd) (wd_json wd) (je_name e)) m = (found, m1)" by fastforce
  have f: "found = Inl x" "\<not> is_query_failed x"
    using assms a by (auto simp: reconcile_by_name_def uncaught_Inl Let_def split: sum.splits list.splits)
  obtain w where "find_jobs (wd_runner wd) (wd_json wd) (je_name e) (mg_w m) = (Inl x, w)"
    using a f(1) by (auto simp: ask_def split: prod.splits)
  then have "bjobs (wd_runner wd) (wd_json wd) [''-J'', je_name e] (mg_w m) = (Inl x, w)"
    by (auto simp: find_jobs_def bindE_ok_Inl split: prod.splits)
  from bjobs_Inl[OF this] f(2) show ?thesis by (auto simp: escapes_def)
qed

lemma final_status_Inl:
  assumes "final_status wd e m = (Inl x, m')"
  shows "is_query_failed x \<or> escapes wd x"
proof -
  obtain answer m1 where q: "job_query wd e m = (answer, m1)" by fastforce
  with assms have "answer = Inl x" by (auto simp: final_status_def Let_def split: sum.splits if_splits prod.splits)
  with query_Inl q show ?thesis by blast
qed

lemma cancel_submitted_Inl:
  assumes "cancel_submitted wd la reason e m = (m', Inl x)"
  shows "escapes wd x"
proof -
  obtain answer m1 where f: "final_status wd e m = (answer, m1)" by fastforce
  with assms have "answer = Inl x" "\<not> is_query_failed x"
    by (auto simp: cancel_submitted_def uncaught_Inl split: sum.splits if_splits prod.splits)
  with final_status_Inl f show ?thesis by blast
qed

lemma cancel_one_Inl:
  assumes "cancel_one wd la reason k m = (m', Inl x)"
  shows "escapes wd x"
  using assms
  by (auto simp: cancel_one_def split: option.splits if_splits prod.splits sum.splits
      dest: cancel_submitted_Inl reconcile_by_name_Inl)

lemma cancel_targets_Inl:
  "cancel_targets wd la reason ks m = (m', Inl x) \<Longrightarrow> escapes wd x"
  by (induction ks arbitrary: m m') (auto split: prod.splits sum.splits dest: cancel_one_Inl)

lemma confirm_one_Inl:
  assumes "confirm_one wd reason k m = (m', Inl x)"
  shows "escapes wd x"
proof -
  obtain e where e: "job (mg_ledger m) k = Some e" using assms by (auto simp: confirm_one_def split: option.splits)
  obtain answer m1 where f: "final_status wd e m = (answer, m1)" by fastforce
  with assms e have "answer = Inl x" "\<not> is_query_failed x"
    by (auto simp: confirm_one_def uncaught_Inl split: sum.splits if_splits)
  with final_status_Inl f show ?thesis by blast
qed

lemma confirm_pass_Inl:
  "confirm_pass wd reason ks m = (m', Inl x) \<Longrightarrow> escapes wd x"
  by (induction ks arbitrary: m m') (auto split: prod.splits sum.splits dest: confirm_one_Inl)

lemma confirm_loop_Inl:
  assumes "confirm_loop wd la reason limit ks m = Some (m', Inl x)"
  shows "escapes wd x"
proof -
  have "\<forall>x. snd p = Inl x \<longrightarrow> escapes wd x" if "confirm_loop wd la reason limit ks m = Some p" for p
  proof (rule confirm_loop.raw_induct[where P = "\<lambda>wd la reason limit ks m p. \<forall>x. snd p = Inl x \<longrightarrow> escapes wd x", OF _ that])
    fix loop wd la reason limit ks m p
    assume rec: "\<And>wd la reason limit ks m p. loop wd la reason limit ks m = Some p \<Longrightarrow> \<forall>x. snd p = Inl x \<longrightarrow> escapes wd x"
      and eq: "(if ks = [] \<or> limit \<le> wd_clock wd (mg_w m) then Some (m, Inr ())
        else case confirm_pass wd reason ks m of (m, Inl x) \<Rightarrow> Some (m, Inl x)
        | (m, Inr rest) \<Rightarrow> if rest = [] then Some (m, Inr ())
            else loop wd la reason limit rest (pause wd (la_confirm_pause la) m)) = Some p"
    obtain m1 r where c: "confirm_pass wd reason ks m = (m1, r)" by fastforce
    show "\<forall>x. snd p = Inl x \<longrightarrow> escapes wd x"
    proof (cases r)
      case (Inl y)
      with eq c confirm_pass_Inl[of wd reason ks m m1 y] show ?thesis by (auto split: if_splits)
    next
      case (Inr rest)
      with eq c rec[of wd la reason limit rest] show ?thesis by (auto split: if_splits)
    qed
  qed
  with assms show ?thesis by fastforce
qed

lemma cancel_owned_Inl:
  assumes "cancel_owned wd la reason s b m = Some (m', Inl x)"
  shows "escapes wd x"
  using assms
  by (auto simp: cancel_owned_def split: prod.splits sum.splits option.splits
      dest: cancel_targets_Inl confirm_loop_Inl)

section \<open>The cost loop ends\<close>

lemma list_all2_same:
  "list_all2 R xs ys \<Longrightarrow> (\<And>x y. R x y \<Longrightarrow> x \<in> set xs \<Longrightarrow> y \<in> set ys \<Longrightarrow> y = x) \<Longrightarrow> ys = xs"
  by (induction rule: list_all2_induct) auto

text \<open>Waiting for one job changes only its entry.\<close>

lemma wait_one_entry:
  assumes "only_jobs [je_key e] m m'" and "keys_ok m" and "lg_jobs (mg_ledger m) = xs @ e # ys"
  shows "\<exists>e'. lg_jobs (mg_ledger m') = xs @ e' # ys \<and> entry_le e e'"
proof -
  have le: "mgr_le m m'" using assms(1) by (simp add: only_jobs_def)
  have k': "distinct (map je_key (lg_jobs (mg_ledger m')))"
    using mgr_le_keys_ok[OF le assms(2)] by (simp add: keys_ok_def)
  have "list_all2 entry_le (xs @ e # ys) (lg_jobs (mg_ledger m'))"
    using le assms(3) by (simp add: mgr_le_def ledger_le_def)
  then obtain xs' e' ys' where js: "lg_jobs (mg_ledger m') = xs' @ e' # ys'"
    and l: "list_all2 entry_le xs xs'" "entry_le e e'" "list_all2 entry_le ys ys'"
    by (auto simp: list_all2_append1 list_all2_Cons1)
  have same: "y = x" if xy: "entry_le x y" and x: "x \<in> set xs \<union> set ys" and y: "y \<in> set xs' \<union> set ys'" for x y
  proof -
    have ky: "je_key y = je_key x" using xy by (simp add: entry_le_def same_job_def)
    have "je_key e \<notin> je_key ` (set xs \<union> set ys)" using assms(2,3) by (auto simp: keys_ok_def)
    with x have "je_key x \<noteq> je_key e" by (metis imageI)
    then have "job (mg_ledger m') (je_key x) = job (mg_ledger m) (je_key x)"
      using assms(1) by (simp add: only_jobs_def)
    moreover have "job (mg_ledger m) (je_key x) = Some x"
      by (rule job_unique) (use assms(2,3) x in \<open>auto simp: keys_ok_def\<close>)
    moreover have "job (mg_ledger m') (je_key y) = Some y"
      by (rule job_unique) (use k' js y in auto)
    ultimately show ?thesis using ky by simp
  qed
  have "xs' = xs" by (rule list_all2_same[OF l(1)]) (rule same, simp_all)
  moreover have "ys' = ys" by (rule list_all2_same[OF l(3)]) (rule same, simp_all)
  ultimately show ?thesis using js l(2) by auto
qed

text \<open>An attempt numbered above all others is the last one.\<close>

lemma sort_key_snoc:
  fixes f :: "'a \<Rightarrow> 'k::linorder"
  assumes "\<And>x. x \<in> set xs \<Longrightarrow> f x < f e"
  shows "sort_key f (xs @ [e]) = sort_key f xs @ [e]"
proof (rule properties_for_sort_key)
  show "mset (sort_key f xs @ [e]) = mset (xs @ [e])" by simp
  show "sorted (map f (sort_key f xs @ [e]))" using assms by (fastforce simp: sorted_append)
next
  fix k assume "k \<in> set (sort_key f xs @ [e])"
  have "filter (\<lambda>x. f k = f x) (sort_key f xs) = filter (\<lambda>x. f k = f x) xs"
    using filter_sort[of "\<lambda>x. f k = f x" f xs] sort_key_stable[of f "f k" xs]
    by (simp add: eq_commute)
  then show "filter (\<lambda>x. f k = f x) (sort_key f xs @ [e]) = filter (\<lambda>x. f k = f x) (xs @ [e])" by simp
qed

lemma cost_attempts_snoc:
  assumes "lg_jobs l' = lg_jobs l @ [e]" and "lg_resumes l' = lg_resumes l" and "je_stage e = ''cost''"
    and "je_attempt e = Some (next_attempt l)" and "je_epoch e = epoch l" and "je_status e \<noteq> Rejected"
  shows "cost_attempts l' = cost_attempts l @ [e]"
proof -
  have ep: "epoch l' = epoch l" using assms(2) by (simp add: epoch_def)
  have "filter (\<lambda>e. je_status e \<noteq> Rejected) (current l' ''cost'')
      = filter (\<lambda>e. je_status e \<noteq> Rejected) (current l ''cost'') @ [e]"
    using assms ep by (simp add: current_def jobs_of_def)
  then show ?thesis unfolding cost_attempts_def
    using sort_key_snoc[of "filter (\<lambda>e. je_status e \<noteq> Rejected) (current l ''cost'')" attempt_of e]
      attempt_le_next assms(4) by (auto simp: current_def attempt_of_def[of e])
qed

definition active_cost :: "ledger \<Rightarrow> nat" where
  "active_cost l = length (filter (\<lambda>e. je_status e \<in> ACTIVE) (lg_jobs l))"

definition retries_left :: "ledger \<Rightarrow> nat" where
  "retries_left l = (if dc_allowed (decision l) then 22 - budget_used l else 0)"

lemma retry_used_up:
  assumes "dc_allowed (decision l)" and "lg_jobs l' = lg_jobs l @ [e]" and "lg_resumes l' = lg_resumes l"
    and "je_stage e = ''cost''" and "je_attempt e = Some (next_attempt l)" and "je_epoch e = epoch l"
    and "je_status e \<noteq> Rejected" and "entry_ok e"
  shows "retries_left l' < retries_left l"
proof -
  have used: "budget_used l < 21" using assms(1) by (simp add: decision_def Let_def MAX_COST_ATTEMPTS_def
      MAX_COST_RETRIES_def split: if_splits)
  have ca: "cost_attempts l' = cost_attempts l @ [e]" by (rule cost_attempts_snoc[OF assms(2-7)])
  show ?thesis
  proof (cases "dc_allowed (decision l')")
    case True
    then have "was_noisy e" using ca by (simp add: decision_def Let_def split: if_splits)
    then have "je_consumes e = Some True" using assms(8) by (auto simp: entry_ok_def was_noisy_def split: option.splits)
    then have "budget_used l' = budget_used l + 1"
      using assms(7) by (cases "je_status e") (simp_all add: budget_used_def ca CONSUMING_def)
    with True assms(1) used show ?thesis by (simp add: retries_left_def)
  qed (use assms(1) used in \<open>simp add: retries_left_def\<close>)
qed

lemma cost_turn_cases:
  assumes "cost_turn wd la m = (m1, Inr (Some key))"
  obtains e where "e \<in> set (lg_jobs (mg_ledger m))" "je_key e = key" "je_status e \<in> ACTIVE" "m1 = m"
  | "dc_allowed (decision (mg_ledger m))"
      "submit_job wd la ''cost'' (Some (dc_next (decision (mg_ledger m)))) m = (m1, Inr (Some key))"
proof -
  have "(\<exists>e. latest (mg_ledger m) ''cost'' = Some e \<and> je_status e \<in> ACTIVE \<and> je_key e = key \<and> m1 = m)
      \<or> cost_next wd la m = (m1, Inr (Some key))"
    using assms by (auto simp: cost_turn_def split: option.splits if_splits)
  then show thesis
  proof (elim disjE exE conjE)
    fix e assume "latest (mg_ledger m) ''cost'' = Some e" "je_status e \<in> ACTIVE" "je_key e = key" "m1 = m"
    with latest_job that(1) show thesis by blast
  next
    assume c: "cost_next wd la m = (m1, Inr (Some key))"
    then have a: "dc_allowed (decision (mg_ledger m))" by (auto simp: cost_next_def Let_def split: if_splits)
    have "\<not> is_final wd m ''cost''" using c by (auto simp: cost_next_def Let_def split: if_splits)
    with c a have "submit_job wd la ''cost'' (Some (dc_next (decision (mg_ledger m)))) m = (m1, Inr (Some key))"
      by (auto simp: cost_next_def Let_def split: prod.splits sum.splits option.splits)
    with a show thesis by (rule that(2))
  qed
qed

lemma inactive_entry: "inactive m (je_key e) \<Longrightarrow> e \<in> set (lg_jobs (mg_ledger m)) \<Longrightarrow> keys_ok m
    \<Longrightarrow> je_status e \<notin> ACTIVE"
  using job_unique[of "mg_ledger m" e] by (auto simp: inactive_def keys_ok_def)

lemma cost_turn_progress:
  assumes "ledger_inv (mg_ledger m)" and "cost_turn wd la m = (m1, Inr (Some key))"
    and "wait_jobs wd la [key] m1 = Some (m2, Inr ())"
  shows "active_cost (mg_ledger m2) < active_cost (mg_ledger m)
    \<or> active_cost (mg_ledger m2) = active_cost (mg_ledger m)
      \<and> retries_left (mg_ledger m2) < retries_left (mg_ledger m)"
proof -
  have "ledger_inv (mg_ledger m1)" using cost_turn_launch[OF assms(2)] assms(1) by (simp add: launch_le_def)
  then have k1: "keys_ok m1" by (rule ledger_inv_keys)
  have "distinct [key]" by simp
  note w = wait_jobs_effect[OF assms(3) k1 this]
  have o: "only_jobs [key] m1 m2" and fin: "inactive m2 key" using w by simp_all
  have k2: "keys_ok m2" using only_jobs_keys[OF o k1] .
  show ?thesis
    using assms(2)
  proof (cases rule: cost_turn_cases)
    case (1 e)
    obtain xs ys where s: "lg_jobs (mg_ledger m1) = xs @ e # ys" using 1 by (meson split_list)
    obtain e' where js: "lg_jobs (mg_ledger m2) = xs @ e' # ys" "entry_le e e'"
      using wait_one_entry[of e, OF _ k1 s] o 1(2) by blast
    have "je_key e' = key" using js(2) 1(2) by (simp add: entry_le_def same_job_def)
    then have "je_status e' \<notin> ACTIVE" using inactive_entry[of m2 e'] fin js(1) k2 by simp
    then show ?thesis using s js(1) 1(3,4) by (simp add: active_cost_def)
  next
    case 2
    have nx: "dc_next (decision l) = next_attempt l" for l
      by (simp add: decision_def Let_def split: if_splits)
    obtain e where e: "new_job (mg_ledger m) ''cost'' (Some (next_attempt (mg_ledger m))) e"
      "lg_jobs (mg_ledger m1) = lg_jobs (mg_ledger m) @ [e]" "lg_resumes (mg_ledger m1) = lg_resumes (mg_ledger m)"
      "je_key e = key" "je_status e \<in> {Submitted, Ambiguous}"
      using submit_job_effect[OF 2(2)] unfolding nx by auto
    have s: "lg_jobs (mg_ledger m1) = lg_jobs (mg_ledger m) @ e # []" using e(2) by simp
    obtain e' where js: "lg_jobs (mg_ledger m2) = lg_jobs (mg_ledger m) @ [e']" "entry_le e e'"
      using wait_one_entry[of e, OF _ k1 s] o e(4) by blast
    note new = e(1)[unfolded new_job_def] and le = js(2)[unfolded entry_le_def same_job_def]
    have "entry_ok e" using new by (simp add: entry_ok_def)
    then have ok: "entry_ok e'" using le by simp
    have nr: "je_status e' \<noteq> Rejected" using le e(5) by auto
    have n: "je_stage e' = ''cost''" "je_attempt e' = Some (next_attempt (mg_ledger m))"
      "je_epoch e' = epoch (mg_ledger m)" "je_key e' = key"
      using le new e(4) by simp_all
    have "lg_resumes (mg_ledger m2) = lg_resumes (mg_ledger m)"
      using o e(3) by (simp add: only_jobs_def mgr_le_def ledger_le_def)
    note less = retry_used_up[OF 2(1) js(1) this n(1-3) nr ok]
    have "je_status e' \<notin> ACTIVE" using inactive_entry[of m2 e'] fin js(1) k2 n(4) by simp
    then have act: "active_cost (mg_ledger m2) = active_cost (mg_ledger m)" using js(1) e(5)
      by (auto simp: active_cost_def)
    with less show ?thesis by simp
  qed
qed

lemma cost_loop_returns:
  assumes "clock_forward wd" and "1 \<le> la_poll la" and "ledger_inv (mg_ledger m)"
  shows "\<exists>r. cost_loop wd la m = Some r"
  using assms(3)
proof (induction "(active_cost (mg_ledger m), retries_left (mg_ledger m))" arbitrary: m
    rule: wf_induct_rule[OF wf_lex_prod[OF wf_less wf_less]])
  case (1 m)
  obtain m1 r1 where t: "cost_turn wd la m = (m1, r1)" by fastforce
  show ?case
  proof (cases "\<exists>key. r1 = Inr (Some key)")
    case True
    then obtain key where k: "r1 = Inr (Some key)" by blast
    obtain m2 r2 where w: "wait_jobs wd la [key] m1 = Some (m2, r2)"
      using wait_jobs_returns[OF assms(1,2)] by (metis surj_pair)
    have le: "launch_le m m2"
      using cost_turn_launch[OF t] wait_jobs_launch[OF w] launching.le_trans by auto
    have eq: "cost_loop wd la m = (case r2 of Inl e \<Rightarrow> Some (m2, Inl e) | Inr _ \<Rightarrow> cost_loop wd la m2)"
      by (subst cost_loop.simps) (simp add: t k w)
    show ?thesis
    proof (cases r2)
      case (Inr u)
      have "((active_cost (mg_ledger m2), retries_left (mg_ledger m2)),
          (active_cost (mg_ledger m), retries_left (mg_ledger m))) \<in> {(x, y). x < y} <*lex*> {(x, y). x < y}"
        using cost_turn_progress[OF "1.prems"] t k w Inr by simp
      moreover have "ledger_inv (mg_ledger m2)" using le "1.prems" by (simp add: launch_le_def)
      ultimately have "\<exists>r. cost_loop wd la m2 = Some r" using "1.hyps" by blast
      then show ?thesis unfolding eq Inr by simp
    qed (simp add: eq)
  next
    case False
    then show ?thesis by (subst cost_loop.simps) (auto simp: t split: sum.split option.split)
  qed
qed

section \<open>The manager returns\<close>

text \<open>The run's settings: the pauses between two polls and two confirmations are not zero.\<close>

definition time_passes :: "'w world \<Rightarrow> launch \<Rightarrow> bool" where
  "time_passes wd la \<longleftrightarrow> clock_forward wd \<and> 1 \<le> la_poll la \<and> 1 \<le> la_confirm_pause la"

lemma bindM_returns:
  assumes "\<exists>r. x = Some r" and "\<And>a m. x = Some (m, Inr a) \<Longrightarrow> \<exists>r. f a m = Some r"
  shows "\<exists>r. bindM x f = Some r"
  using assms by (auto simp: bindM_def split: option.split sum.split prod.split)

lemma cancel_ends:
  assumes "time_passes wd la"
  shows "\<exists>m' ks. cancel_owned wd la reason s b m = Some (m', ks)"
  using cancel_owned_returns[of wd la reason s b m] assms unfolding time_passes_def by (metis surj_pair)

lemma wait_ends:
  assumes "time_passes wd la"
  shows "\<exists>m' r. wait_jobs wd la ks m = Some (m', r)"
  using wait_jobs_returns[of wd la ks m] assms unfolding time_passes_def by (metis surj_pair)

lemma stage_jobs_returns:
  assumes "time_passes wd la"
  shows "\<exists>r. stage_jobs wd la sts m = Some r"
  unfolding stage_jobs_def
  by (rule bindM_returns, blast, rule bindM_returns) (use wait_ends[OF assms] in auto)

lemma run_stages_returns:
  assumes "time_passes wd la" and "ledger_inv (mg_ledger m)"
  shows "\<exists>r. run_stages wd la m = Some r"
  unfolding run_stages_def
proof (rule bindM_returns[OF stage_jobs_returns[OF assms(1)]])
  fix u m1
  assume s: "stage_jobs wd la [''compile''] m = Some (m1, Inr u)"
  have i1: "ledger_inv (mg_ledger m1)"
    using stage_jobs_launch[OF s] assms(2) by (simp add: launch_le_def)
  have wf: "\<exists>r. when_final wd st (stage_jobs wd la sts) m = Some r" for st sts m
    using stage_jobs_returns[OF assms(1)] by (simp add: when_final_def)
  have le: "launch_le m m'" if "when_final wd st (stage_jobs wd la sts) m = Some (m', r)"
    "''cost'' \<notin> set sts" "distinct sts" for st sts m m' r
    by (rule when_final_launch[OF that(1)]) (rule stage_jobs_launch[OF _ that(2,3)])
  have cost: "\<exists>r. when_final wd ''correctness'' (cost_loop wd la) m3 = Some r" if "ledger_inv (mg_ledger m3)" for m3
    using cost_loop_returns[OF _ _ that] assms(1) by (simp add: when_final_def time_passes_def)
  let ?cs = "''correctness'' # (if la_unit_tests la then [''unit-tests''] else [])"
  have "\<exists>r. bindM (when_final wd ''compile'' (stage_jobs wd la [''quality'']) m1) (\<lambda>_ m.
         bindM (when_final wd ''quality'' (stage_jobs wd la ?cs) m) (\<lambda>_ m.
         bindM (when_final wd ''correctness'' (cost_loop wd la) m) (\<lambda>_ m. Some (m, Inr True)))) = Some r"
  proof (rule bindM_returns[OF wf], rule bindM_returns[OF wf], rule bindM_returns)
    fix a m2 b m3
    assume q: "when_final wd ''compile'' (stage_jobs wd la [''quality'']) m1 = Some (m2, Inr a)"
      and c: "when_final wd ''quality'' (stage_jobs wd la ?cs) m2 = Some (m3, Inr b)"
    have "launch_le m1 m2" by (rule le[OF q]) simp_all
    moreover have "launch_le m2 m3" by (rule le[OF c]) simp_all
    ultimately have "ledger_inv (mg_ledger m3)" using i1 by (simp add: launch_le_def)
    then show "\<exists>r. when_final wd ''correctness'' (cost_loop wd la) m3 = Some r" by (rule cost)
  qed simp
  then show "\<exists>r. (if \<not> wd_session wd (mg_w m1)
       then Some (m1\<lparr>mg_stop := Some ''compile did not create the session''\<rparr>, Inr False)
       else bindM (when_final wd ''compile'' (stage_jobs wd la [''quality'']) m1) (\<lambda>_ m.
         bindM (when_final wd ''quality'' (stage_jobs wd la ?cs) m) (\<lambda>_ m.
         bindM (when_final wd ''correctness'' (cost_loop wd la) m) (\<lambda>_ m. Some (m, Inr True))))) = Some r"
    by simp
qed

lemma cleanup_job_returns:
  assumes "time_passes wd la"
  shows "\<exists>r. cleanup_job wd la m = Some r"
proof -
  have after: "\<exists>r. (case wait_jobs wd la [key] m of
              None \<Rightarrow> None
            | Some (m, Inl (DeadlineReached why)) \<Rightarrow>
                (case cancel_owned wd la ''deadline'' CANCEL_CONFIRM_S False m of
                   None \<Rightarrow> None
                 | Some (m, Inl x) \<Rightarrow> Some (m, Inl (Failed x))
                 | Some (m, Inr _) \<Rightarrow> Some (m, Inr (''failed'', Some why)))
            | Some (m, Inl e) \<Rightarrow> Some (m, Inl e)
            | Some (m, Inr _) \<Rightarrow> Some (m, Inr (cleanup_result wd key m))) = Some r" for key m
  proof -
    obtain m1 r1 where "wait_jobs wd la [key] m = Some (m1, r1)" using wait_ends[OF assms] by blast
    moreover obtain m2 ks where "cancel_owned wd la ''deadline'' CANCEL_CONFIRM_S False m1 = Some (m2, ks)"
      using cancel_ends[OF assms] by blast
    ultimately show ?thesis by (cases r1; cases ks) (auto split: stop.split)
  qed
  show ?thesis unfolding cleanup_job_def Let_def
    using after by (auto split: prod.split sum.split option.split)
qed

lemma decide_session_returns:
  assumes "time_passes wd la"
  shows "\<exists>r. decide_session wd la m = Some r"
proof -
  have "\<exists>r. cleanup_after wd la m = Some r" for m
  proof -
    obtain m1 r1 where "cleanup_job wd la m = Some (m1, r1)"
      using cleanup_job_returns[OF assms] by (metis surj_pair)
    then show ?thesis by (auto simp: cleanup_after_def split: sum.split option.split stop.split)
  qed
  then show ?thesis unfolding decide_session_def
    by (auto split: prod.split sum.split option.split) (metis option.distinct(1))
qed

lemma pipeline_returns:
  assumes "time_passes wd la" and "ledger_inv (mg_ledger m)"
  shows "\<exists>r. pipeline wd la m = Some r"
proof -
  obtain m1 r1 where s: "run_stages wd la m = Some (m1, r1)"
    using run_stages_returns[OF assms] by (metis surj_pair)
  have fin: "\<exists>r. finish_pipeline wd la m = Some r" for m
  proof -
    obtain m2 c where "decide_session wd la m = Some (m2, c)"
      using decide_session_returns[OF assms(1)] by (metis surj_pair)
    then show ?thesis by (simp add: finish_pipeline_def)
  qed
  show ?thesis unfolding pipeline_def s using fin cancel_ends[OF assms(1)]
    by (auto split: sum.split stop.split option.split bool.split) (metis option.distinct(1))
qed

text \<open>Giving up cancels the jobs, and the ledger holds an exit code whatever comes of it.\<close>

definition recorded :: "'w world \<Rightarrow> 'w mgr \<times> nat res \<Rightarrow> bool" where
  "recorded wd p \<longleftrightarrow> ep_result (lg_acct (mg_ledger (fst p))) = Some (case snd p of Inl _ \<Rightarrow> EXIT_ERROR | Inr code \<Rightarrow> code)
     \<and> (\<forall>x. snd p = Inl x \<longrightarrow> escapes wd x)"

lemma record_result_recorded:
  "(\<And>x. r = Inl x \<Longrightarrow> escapes wd x) \<Longrightarrow> recorded wd (record_result m r)"
  by (simp add: recorded_def record_result_def set_acct_def set_ledger_def)

lemma give_up_ends:
  assumes "time_passes wd la"
  shows "\<exists>p. give_up wd la reason s code m = Some p \<and> recorded wd p"
proof -
  obtain m1 r1 where c: "cancel_owned wd la reason s False m = Some (m1, r1)" using cancel_ends[OF assms] by blast
  then show ?thesis
    using record_result_recorded[of "case r1 of Inl x \<Rightarrow> Inl x | Inr _ \<Rightarrow> Inr code" wd m1] cancel_owned_Inl[of wd la reason s False m m1]
    by (cases r1) (auto simp: give_up_def)
qed


text \<open>
  The exception that leaves: \<open>bjobs\<close> prints \<open>null\<close>, whose \<open>get\<close> is an \<open>AttributeError\<close>, while the manager has a
  submitted job. \<open>_bjobs\<close> turns only a \<open>ValueError\<close> into \<open>QueryFailed\<close>, so the query of the cancellation raises again.
\<close>

definition odd_world :: "nat world" where
  "odd_world = demo_world\<lparr>wd_json := (\<lambda>_. Inl (OtherException ''AttributeError''))\<rparr>"

lemma odd_query: "final_status odd_world demo_running m = (Inl (OtherException ''AttributeError''), m\<lparr>mg_w := Suc (mg_w m)\<rparr>)"
  "job_query odd_world demo_running m = (Inl (OtherException ''AttributeError''), m\<lparr>mg_w := Suc (mg_w m)\<rparr>)"
proof -
  have "bjobs_answer (wd_json odd_world) (Exited 0 ''{}'' []) = Inl (OtherException ''AttributeError'')"
    by (simp add: bjobs_answer_def parse_bjobs_def odd_world_def strip_def is_space_def)
  moreover have "wd_runner odd_world a w = (Exited 0 ''{}'' [], Suc w)" for a w by (simp add: odd_world_def demo_world_def)
  ultimately show q: "job_query odd_world demo_running m = (Inl (OtherException ''AttributeError''), m\<lparr>mg_w := Suc (mg_w m)\<rparr>)"
    by (simp add: job_query_def ask_def query_def bjobs_def)
  show "final_status odd_world demo_running m = (Inl (OtherException ''AttributeError''), m\<lparr>mg_w := Suc (mg_w m)\<rparr>)"
    by (simp add: final_status_def q)
qed

lemma odd_answer_escapes:
  "map_option snd (run_manager odd_world demo_launch demo_mgr) = Some (Inl (OtherException ''AttributeError''))"
proof -
  define m where "m = set_ledger (\<lambda>l. l\<lparr>lg_managers := lg_managers l + 1\<rparr>) demo_mgr"
  have l: "lg_jobs (mg_ledger m) = [demo_compiled_job, demo_running]"
    by (simp add: m_def set_ledger_def demo_mgr_def create_ledger_def)
  have e: "je_key demo_running = ''c1''" "je_status demo_running = Submitted" "je_status demo_compiled_job = Terminal"
    "je_key demo_compiled_job = ''k0''" "je_stage demo_running = ''cost''"
    by (simp_all add: demo_running_def demo_compiled_job_def new_entry_def)
  have ow: "map je_key (owned False (mg_ledger m')) = [''c1'']" "job (mg_ledger m') ''c1'' = Some demo_running"
    if "mg_ledger m' = mg_ledger m" for m' :: "nat mgr"
    using that l e by (simp_all add: owned_def job_def ACTIVE_def)
  have nq: "\<not> is_query_failed (OtherException ''AttributeError'')" by (simp add: is_query_failed_def)
  obtain m1 where r: "reconcile odd_world demo_launch m = (m1, Inl (OtherException ''AttributeError''))"
    and m1: "mg_ledger m1 = mg_ledger m"
    using ow[OF refl] e nq by (auto simp: reconcile_def reconcile_one_def odd_query uncaught_def)
  have "\<exists>m2. cancel_owned odd_world demo_launch reason s False m1 = Some (m2, Inl (OtherException ''AttributeError''))" for reason s
    using ow[OF m1] e nq by (auto simp: cancel_owned_def cancel_one_def cancel_submitted_def odd_query uncaught_def)
  then obtain m2 where "cancel_owned odd_world demo_launch ''manager error'' CANCEL_CONFIRM_S False m1
      = Some (m2, Inl (OtherException ''AttributeError''))" by blast
  then show ?thesis
    unfolding run_manager_def Let_def m_def[symmetric] r prod.case sum.case give_up_def
    by (simp add: record_result_def)
qed

section \<open>Witnesses\<close>


end
