(* ===== verification/CostGuard.thy ===== *)
theory CostGuard
  imports Statistics
begin

text \<open>
  The cost guard of \<open>src/src/qtb/evaluator/cost.py\<close>: sample counts per regime, the policy's fixed
  thresholds, the estimate of a case from its raw samples, the admission of a bundle and its
  judgement. Floats are reals, so \<open>math.isfinite\<close> always holds; \<open>thresholds_id\<close>, a digest of the
  thresholds, is read as the thresholds themselves. The evidence extension a session may require is
  a parameter: the function it runs on a bundle.
\<close>

section \<open>Policy\<close>

record cost_protocol =
  cp_multiplier :: "int option"
  cp_timing :: "int option"
  cp_screen :: "int option"
  cp_companion :: "int option"
  cp_memory :: "int option"
  cp_warmups :: nat
  cp_minimum_calls :: nat
  cp_minimum_ns :: nat

record cost_thresholds =
  ct_panel_ratio :: real
  ct_screen_fraction :: real
  ct_case_ratio :: real
  ct_floor_bytes :: real
  ct_floor_ns :: real

record cost_policy =
  cq_thresholds :: "cost_thresholds option"
  cq_protocol :: "cost_protocol option"

definition MEASURED_ARMS :: "string list" where
  "MEASURED_ARMS = [''baseline'', ''evolved'']"

definition COUNTS :: "string \<Rightarrow> (int \<times> int \<times> int) option" where
  "COUNTS estimator =
     (if estimator = ''timing'' then Some (0, 10, 20)
      else if estimator = ''companion'' then Some (0, 3, 6)
      else if estimator = ''memory'' then Some (0, 5, 10) else None)"

definition or_default :: "'a \<Rightarrow> 'a option \<Rightarrow> 'a" where
  "or_default d x = (case x of None \<Rightarrow> d | Some v \<Rightarrow> v)"

text \<open>The counts of the regimes, in the order of the dictionary; no protocol is an empty one.\<close>

definition regime_counts :: "string \<Rightarrow> cost_protocol option \<Rightarrow> (string \<times> int) list res" where
  "regime_counts estimator protocol =
     (case COUNTS estimator of
        None \<Rightarrow> Inl (HarnessError (''Unknown cost estimator: '' @ estimator))
      | Some (screen0, normal0, rerun0) \<Rightarrow>
          let get = (\<lambda>f d. case protocol of None \<Rightarrow> d | Some p \<Rightarrow> or_default d (f p));
              multiplier = get cp_multiplier 2;
              screen = (if estimator = ''timing'' then get cp_screen screen0 else screen0);
              normal = get (if estimator = ''timing'' then cp_timing
                else if estimator = ''companion'' then cp_companion else cp_memory) normal0;
              rerun = normal * multiplier in
          if \<not> (0 \<le> screen \<and> screen < normal \<and> normal < rerun)
          then Inl (HarnessError (''Invalid '' @ estimator @ '' regime counts''))
          else Inr ((if screen \<noteq> 0 then [(''screen'', screen)] else [])
            @ [(''normal'', normal), (''rerun'', rerun)]))"

record threshold =
  th_count :: int
  th_noise_panel :: real
  th_case_ratio :: real
  th_floor :: real

text \<open>\<open>math.log\<close> raises \<open>ValueError\<close> outside its domain.\<close>

definition log_real :: "real \<Rightarrow> real res" where
  "log_real x = (if x \<le> 0 then Inl ValueError else Inr (ln x))"

definition thresholds :: "cost_policy \<Rightarrow> string \<Rightarrow> string \<Rightarrow> threshold res" where
  "thresholds policy estimator regime =
     (case cq_thresholds policy of
        None \<Rightarrow> Inl KeyError
      | Some fixed \<Rightarrow>
          bindE (regime_counts estimator (cq_protocol policy)) (\<lambda>counts.
          case map_of counts regime of
            None \<Rightarrow> Inl (Incomplete (''Cost regime '' @ regime @ '' is not part of the protocol''))
          | Some n \<Rightarrow>
              bindE (log_real (ct_panel_ratio fixed)) (\<lambda>noise.
              Inr \<lparr>th_count = n,
                th_noise_panel = (if regime = ''screen'' then noise * ct_screen_fraction fixed else noise),
                th_case_ratio = ct_case_ratio fixed,
                th_floor = (if estimator = ''memory'' then ct_floor_bytes fixed else ct_floor_ns fixed)\<rparr>)))"

section \<open>Estimates\<close>

text \<open>
  The samples of a case: one value per process, the calls of every round, or those per seed.
\<close>

datatype samples = Flat "real list" | Rounds "real list list" | BySeed "(string \<times> real list list) list"

text \<open>\<open>statistics.median\<close> of a list that is not empty.\<close>

definition median :: "real list \<Rightarrow> real" where
  "median xs =
     (let s = sort xs; n = length s in
      if odd n then s ! (n div 2) else (s ! (n div 2 - 1) + s ! (n div 2)) / 2)"

definition positive_median :: "real list \<Rightarrow> real res" where
  "positive_median values =
     (if list_ex (\<lambda>x. x \<le> 0) values then Inl (Incomplete ''Non-positive or non-finite cost sample'')
      else Inr (median values))"

definition timing_estimate :: "real list list \<Rightarrow> real res" where
  "timing_estimate rounds =
     (if rounds = [] then Inl (Incomplete ''Missing cost samples'')
      else if list_ex (\<lambda>r. r = []) rounds then Inl (Incomplete ''Empty timing round'')
      else positive_median (map median rounds))"

definition SEEDS :: "string list" where
  "SEEDS = map show_nat [0..<20]"

definition no_samples :: "samples \<Rightarrow> bool" where
  "no_samples s = (case s of Flat xs \<Rightarrow> xs = [] | Rounds rs \<Rightarrow> rs = [] | BySeed d \<Rightarrow> d = [])"

definition cost_estimate :: "samples \<Rightarrow> string \<Rightarrow> real res" where
  "cost_estimate s estimator =
     (if no_samples s then Inl (Incomplete ''Missing cost samples'')
      else if estimator = ''memory''
      then (case s of Flat xs \<Rightarrow> positive_median xs | _ \<Rightarrow> Inl TypeError)
      else if estimator = ''timing''
      then (case s of Rounds rs \<Rightarrow> timing_estimate rs | _ \<Rightarrow> Inl TypeError)
      else if estimator = ''companion''
      then (case s of
          BySeed d \<Rightarrow>
            if set (map fst d) \<noteq> set SEEDS
            then Inl (Incomplete ''Companion requires every seed 0-19'')
            else bindE (mapE (\<lambda>(seed, rounds). timing_estimate rounds) d) (\<lambda>xs. Inr (fmean xs))
        | _ \<Rightarrow> Inl TypeError)
      else Inl (HarnessError (''Unknown cost estimator: '' @ estimator)))"

section \<open>Bundles\<close>

record cost_arm =
  am_id :: string
  am_session :: string
  am_build :: string
  am_samples :: "(string \<times> samples) list"

record 'e cost_bundle =
  bu_complete :: bool
  bu_arms :: "(string \<times> cost_arm) list"
  bu_run_id :: string
  bu_session :: string
  bu_thresholds :: "cost_thresholds option"
  bu_estimator :: "string option"
  bu_regime :: "string option"
  bu_case_hashes :: "(string \<times> tcase) list"
  bu_mode :: string
  bu_seed :: nat
  bu_jobs :: "(string \<times> string) list"
  bu_monitor :: "'e option"

text \<open>A required evidence extension: bundle, estimator, count and cases.\<close>

type_synonym 'e requirement = "'e cost_bundle \<Rightarrow> string \<Rightarrow> int \<Rightarrow> string list \<Rightarrow> unit res"

definition array_lengths :: "string \<Rightarrow> samples \<Rightarrow> nat list res" where
  "array_lengths estimator s =
     (if estimator = ''companion''
      then (case s of BySeed d \<Rightarrow> Inr (map (length \<circ> snd) d) | _ \<Rightarrow> Inl (OtherException ''AttributeError''))
      else Inr [case s of Flat xs \<Rightarrow> length xs | Rounds rs \<Rightarrow> length rs | BySeed d \<Rightarrow> length d])"

definition check_arm :: "string \<Rightarrow> int \<Rightarrow> (string \<times> real) list \<Rightarrow> cost_arm \<Rightarrow> unit res" where
  "check_arm estimator wanted weights arm =
     (if set (map fst (am_samples arm)) \<noteq> set (map fst weights)
      then Inl (Incomplete ''Incomplete cost arm'')
      else bindE (mapE (\<lambda>(case_id, s). bindE (array_lengths estimator s) (\<lambda>ns.
             guardE (list_all (\<lambda>n. int n = wanted) ns) (Incomplete ''Wrong cost sample count'')))
           (am_samples arm)) (\<lambda>_. Inr ()))"

definition validate_bundle ::
    "'e cost_bundle \<Rightarrow> cost_policy \<Rightarrow> string \<Rightarrow> (string \<times> real) list \<Rightarrow> string option
       \<Rightarrow> 'e requirement option \<Rightarrow> unit res" where
  "validate_bundle b policy estimator weights run_id requirement =
     bindE (guardE (bu_complete b \<and> set (map fst (bu_arms b)) = set MEASURED_ARMS)
       (Incomplete ''Cost panel must contain baseline and evolved arms'')) (\<lambda>_.
     bindE (guardE (run_id = None \<or> Some (bu_run_id b) = run_id)
       (Incomplete ''Cost observations cannot cross comparisons'')) (\<lambda>_.
     bindE (guardE (length (remdups (map (am_id \<circ> snd) (bu_arms b))) = length MEASURED_ARMS)
       (HarnessError ''Distinct cost arm IDs required, even for identical builds'')) (\<lambda>_.
     bindE (guardE (list_all (\<lambda>(n, a). am_session a = bu_session b) (bu_arms b))
       (HarnessError ''Mixed cost sessions'')) (\<lambda>_.
     bindE (guardE (cq_thresholds policy \<noteq> None) KeyError) (\<lambda>_.
     bindE (guardE (bu_thresholds b = cq_thresholds policy)
       (Incomplete ''Cost bundle was measured against different thresholds'')) (\<lambda>_.
     bindE (guardE (bu_estimator b = Some estimator)
       (Incomplete ''Cost bundle estimator does not match the panel'')) (\<lambda>_.
     case bu_regime b of
       None \<Rightarrow> Inl KeyError
     | Some regime \<Rightarrow>
         bindE (thresholds policy estimator regime) (\<lambda>t.
         bindE (mapE (\<lambda>(n, a). check_arm estimator (th_count t) weights a) (bu_arms b)) (\<lambda>_.
         case requirement of
           None \<Rightarrow> Inr ()
         | Some check \<Rightarrow> check b estimator (th_count t) (sort (map fst weights)))))))))))"

section \<open>Judging a bundle\<close>

record candidate =
  cd_ln_panel :: real
  cd_ratios :: "(string \<times> real) list"
  cd_caps :: "string list"
  cd_breached :: bool

definition ratio_of :: "(string \<rightharpoonup> real) \<Rightarrow> (string \<rightharpoonup> real) \<Rightarrow> string \<Rightarrow> real res" where
  "ratio_of est base c =
     bindE (lookupE est c) (\<lambda>e. bindE (lookupE base c) (\<lambda>b.
       if b = 0 then Inl ZeroDivisionError else Inr (e / b)))"

definition delta_of :: "(string \<rightharpoonup> real) \<Rightarrow> (string \<rightharpoonup> real) \<Rightarrow> string \<Rightarrow> real" where
  "delta_of est base c = or_default 0 (est c) - or_default 0 (base c)"

definition judge ::
    "(string \<rightharpoonup> real) \<Rightarrow> (string \<rightharpoonup> real) \<Rightarrow> (string \<times> real) list \<Rightarrow> threshold \<Rightarrow> candidate res" where
  "judge est base weights t =
     bindE (mapE (\<lambda>(c, w). bindE (ratio_of est base c) (\<lambda>r. Inr (c, r))) weights) (\<lambda>ratios.
     bindE (mapE (\<lambda>((c, w), (c', r)). bindE (log_real r) (\<lambda>l. Inr (w * l))) (zip weights ratios)) (\<lambda>terms.
       let ln_panel = sum_list terms;
           caps = map fst (filter (\<lambda>(c, r). r > th_case_ratio t \<and> delta_of est base c > th_floor t) ratios) in
       Inr \<lparr>cd_ln_panel = ln_panel, cd_ratios = ratios, cd_caps = caps,
            cd_breached = (caps \<noteq> [] \<or> ln_panel > th_noise_panel t)\<rparr>))"

record guard_result =
  gr_result :: string
  gr_regime :: string
  gr_count :: int
  gr_threshold :: threshold
  gr_candidate :: candidate
  gr_needs_full :: bool
  gr_needs_rerun :: bool

definition arm_estimates :: "string \<Rightarrow> cost_arm \<Rightarrow> (string \<rightharpoonup> real) res" where
  "arm_estimates estimator arm =
     bindE (mapE (\<lambda>(c, s). bindE (cost_estimate s estimator) (\<lambda>x. Inr (c, x))) (am_samples arm))
       (\<lambda>rows. Inr (dict_of rows))"

definition guard_of :: "string \<Rightarrow> threshold \<Rightarrow> candidate \<Rightarrow> guard_result" where
  "guard_of regime t cand =
     (let result = (if regime = ''rerun''
        then (if cd_breached cand then ''failed'' else ''passed_on_rerun'')
        else (if cd_breached cand then ''unresolved'' else ''passed'')) in
      \<lparr>gr_result = result, gr_regime = regime, gr_count = th_count t, gr_threshold = t,
       gr_candidate = cand, gr_needs_full = (regime = ''screen'' \<and> result \<noteq> ''passed''),
       gr_needs_rerun = (cd_breached cand \<and> regime = ''normal'')\<rparr>)"

definition cost_guard ::
    "'e cost_bundle \<Rightarrow> cost_policy \<Rightarrow> string \<Rightarrow> (string \<times> real) list \<Rightarrow> string option
       \<Rightarrow> 'e requirement option \<Rightarrow> guard_result res" where
  "cost_guard b policy estimator weights run_id requirement =
     bindE (validate_bundle b policy estimator weights run_id requirement) (\<lambda>_.
     case bu_regime b of
       None \<Rightarrow> Inl KeyError
     | Some regime \<Rightarrow>
         bindE (thresholds policy estimator regime) (\<lambda>t.
         bindE (mapE (\<lambda>(n, a). bindE (arm_estimates estimator a) (\<lambda>e. Inr (n, e))) (bu_arms b)) (\<lambda>ests.
         bindE (lookupE (dict_of ests) ''evolved'') (\<lambda>evolved.
         bindE (lookupE (dict_of ests) ''baseline'') (\<lambda>base.
         bindE (judge evolved base weights t) (\<lambda>cand.
           Inr (guard_of regime t cand)))))))"

section \<open>Estimates are positive\<close>

lemma sort_nth_mem: "i < length xs \<Longrightarrow> sort xs ! i \<in> set xs"
  by (metis length_sort nth_mem set_sort)

lemma median_pos:
  assumes "xs \<noteq> []" and "\<forall>x\<in>set xs. 0 < x"
  shows "0 < median xs"
proof -
  have "length xs div 2 < length xs" "length xs div 2 - 1 < length xs" using assms(1) by (cases xs; simp; linarith)+
  then have "0 < sort xs ! (length xs div 2)" "0 < sort xs ! (length xs div 2 - 1)"
    using sort_nth_mem assms(2) by blast+
  then show ?thesis by (simp add: median_def Let_def)
qed

lemma positive_median_pos: "positive_median xs = Inr x \<Longrightarrow> xs \<noteq> [] \<Longrightarrow> 0 < x"
  using median_pos[of xs] by (auto simp: positive_median_def list_ex_iff not_le split: if_splits)

lemma timing_estimate_pos: "timing_estimate rs = Inr x \<Longrightarrow> 0 < x"
  using positive_median_pos[of "map median rs"] by (auto simp: timing_estimate_def split: if_splits)

lemma fmean_pos: "xs \<noteq> [] \<Longrightarrow> \<forall>x\<in>set xs. 0 < x \<Longrightarrow> 0 < fmean xs"
  unfolding fmean_def
  by (intro divide_pos_pos) (induction xs rule: list_nonempty_induct; simp add: add_pos_pos)+

lemma cost_estimate_pos:
  assumes "cost_estimate s estimator = Inr x"
  shows "0 < x"
proof (cases s)
  case (Flat xs)
  with assms have "positive_median xs = Inr x" "xs \<noteq> []"
    by (auto simp: cost_estimate_def no_samples_def split: if_splits)
  then show ?thesis by (rule positive_median_pos)
next
  case (Rounds rs)
  with assms show ?thesis using timing_estimate_pos
    by (auto simp: cost_estimate_def split: if_splits)
next
  case (BySeed d)
  with assms obtain xs where xs: "mapE (\<lambda>(seed, rounds). timing_estimate rounds) d = Inr xs" "x = fmean xs" "d \<noteq> []"
    by (auto simp: cost_estimate_def no_samples_def res_simps split: if_splits)
  then have "\<forall>y\<in>set xs. 0 < y" "xs \<noteq> []"
    using timing_estimate_pos mapE_length[OF xs(1)] by (auto simp: mapE_Inr_iff dest!: list_all2_right)
  then show ?thesis using fmean_pos xs(2) by simp
qed

lemma mapE_keys:
  assumes "mapE (\<lambda>(c, s). bindE (f s) (\<lambda>x. Inr (c, x))) kvs = Inr rows"
  shows "map fst rows = map fst kvs" and "\<forall>(c, x)\<in>set rows. \<exists>s. (c, s) \<in> set kvs \<and> f s = Inr x"
proof -
  have l: "list_all2 (\<lambda>(c, s) (c', x). c' = c \<and> f s = Inr x) kvs rows"
    using assms unfolding mapE_Inr_iff by (rule list_all2_mono) (auto simp: bindE_Inr_iff)
  then show "map fst rows = map fst kvs" by (induction rule: list_all2_induct) auto
  show "\<forall>(c, x)\<in>set rows. \<exists>s. (c, s) \<in> set kvs \<and> f s = Inr x"
    using list_all2_right[OF l] by fastforce
qed

text \<open>A dictionary whose values are computed one by one holds, under a key, the value of that key's entry.\<close>

lemma list_all2_map_of:
  "list_all2 (\<lambda>(c, s) (c', x). c' = c \<and> R s x) kvs rows \<Longrightarrow> map_of rows k = Some x
     \<Longrightarrow> \<exists>s. map_of kvs k = Some s \<and> R s x"
  by (induction kvs rows arbitrary: x rule: list_all2_induct) (auto split: if_splits)

lemma mapE_dict:
  assumes "mapE (\<lambda>(c, s). bindE (f s) (\<lambda>x. Inr (c, x))) kvs = Inr rows" and "dict_of rows k = Some x"
  shows "\<exists>s. dict_of kvs k = Some s \<and> f s = Inr x"
proof -
  have "list_all2 (\<lambda>(c, s) (c', x). c' = c \<and> f s = Inr x) kvs rows"
    using assms(1) unfolding mapE_Inr_iff by (rule list_all2_mono) (auto simp: bindE_Inr_iff)
  then have "list_all2 (\<lambda>(c, s) (c', x). c' = c \<and> f s = Inr x) (rev kvs) (rev rows)" by simp
  from list_all2_map_of[OF this assms(2)[unfolded dict_of_def]] show ?thesis by (simp add: dict_of_def)
qed

text \<open>An arm's estimates are those of the samples the arm holds of each case.\<close>

lemma arm_estimates_sample:
  assumes "arm_estimates estimator arm = Inr est" and "est c = Some x"
  shows "\<exists>s. dict_of (am_samples arm) c = Some s \<and> cost_estimate s estimator = Inr x"
proof -
  obtain rows where rows: "mapE (\<lambda>(c, s). bindE (cost_estimate s estimator) (\<lambda>x. Inr (c, x))) (am_samples arm) = Inr rows"
    and est: "est = dict_of rows"
    using assms(1) by (auto simp: arm_estimates_def bindE_Inr_iff)
  from mapE_dict[OF rows assms(2)[unfolded est]] show ?thesis .
qed

lemma arm_estimates_pos:
  assumes "arm_estimates estimator arm = Inr est"
  shows "dom est = set (map fst (am_samples arm))" and "est c = Some x \<Longrightarrow> 0 < x"
proof -
  obtain rows where rows: "mapE (\<lambda>(c, s). bindE (cost_estimate s estimator) (\<lambda>x. Inr (c, x))) (am_samples arm) = Inr rows"
    and est: "est = dict_of rows"
    using assms by (auto simp: arm_estimates_def bindE_Inr_iff)
  note k = mapE_keys[OF rows]
  from k(1) est show "dom est = set (map fst (am_samples arm))" by (metis dom_dict_of list.set_map)
  assume "est c = Some x"
  with est k(2) cost_estimate_pos show "0 < x" by (fastforce dest: dict_of_mem)
qed

section \<open>The judgement\<close>

definition ln_panel_of :: "(string \<rightharpoonup> real) \<Rightarrow> (string \<rightharpoonup> real) \<Rightarrow> (string \<times> real) list \<Rightarrow> real" where
  "ln_panel_of est base weights = (\<Sum>(c, w)\<leftarrow>weights. w * ln (the (est c) / the (base c)))"

definition case_breach :: "(string \<rightharpoonup> real) \<Rightarrow> (string \<rightharpoonup> real) \<Rightarrow> threshold \<Rightarrow> string \<Rightarrow> bool" where
  "case_breach est base t c \<longleftrightarrow> the (est c) / the (base c) > th_case_ratio t
     \<and> the (est c) - the (base c) > th_floor t"

definition estimated :: "(string \<rightharpoonup> real) \<Rightarrow> string \<Rightarrow> bool" where
  "estimated est c \<longleftrightarrow> (\<exists>x. est c = Some x \<and> 0 < x)"

lemma judge_eq:
  assumes "\<forall>(c, w)\<in>set weights. estimated est c \<and> estimated base c"
  shows "\<exists>cand. judge est base weights t = Inr cand \<and> cd_ln_panel cand = ln_panel_of est base weights
    \<and> cd_caps cand = filter (case_breach est base t) (map fst weights)
    \<and> (cd_breached cand \<longleftrightarrow> (\<exists>c\<in>set (map fst weights). case_breach est base t c)
         \<or> ln_panel_of est base weights > th_noise_panel t)"
proof -
  let ?r = "\<lambda>c. the (est c) / the (base c)"
  have r: "mapE (\<lambda>(c, w). bindE (ratio_of est base c) (\<lambda>r. Inr (c, r))) weights
      = Inr (map (\<lambda>(c, w). (c, ?r c)) weights)"
    by (rule mapE_total) (use assms in \<open>auto simp: estimated_def ratio_of_def lookupE_def\<close>)
  have z: "zip weights (map (\<lambda>(c, w). (c, ?r c)) weights) = map (\<lambda>(c, w). ((c, w), (c, ?r c))) weights"
    by (induction weights) auto
  have l: "mapE (\<lambda>((c, w), (c', r)). bindE (log_real r) (\<lambda>l. Inr (w * l)))
        (map (\<lambda>(c, w). ((c, w), (c, ?r c))) weights)
      = Inr (map (\<lambda>((c, w), (c', r)). w * ln r) (map (\<lambda>(c, w). ((c, w), (c, ?r c))) weights))"
    using assms by (induction weights) (auto simp: estimated_def log_real_def divide_le_0_iff)
  have caps: "map fst (filter (\<lambda>(c, r). r > th_case_ratio t \<and> delta_of est base c > th_floor t)
        (map (\<lambda>(c, w). (c, ?r c)) weights)) = filter (case_breach est base t) (map fst weights)"
    using assms
    by (induction weights) (auto simp: case_breach_def delta_of_def or_default_def estimated_def)
  have s: "sum_list (map (\<lambda>((c, w), (c', r)). w * ln r) (map (\<lambda>(c, w). ((c, w), (c, ?r c))) weights))
      = ln_panel_of est base weights"
    unfolding ln_panel_of_def by (induction weights) auto
  show ?thesis
    unfolding judge_def r bindE.simps z l Let_def caps s
    by (auto simp: filter_empty_conv)
qed

text \<open>The estimates of both arms of an admitted bundle.\<close>

definition arm_of :: "'e cost_bundle \<Rightarrow> string \<Rightarrow> cost_arm option" where
  "arm_of b name = dict_of (bu_arms b) name"

lemma validate_arms:
  assumes "validate_bundle b policy estimator weights run_id requirement = Inr ()"
  shows "set (map fst (bu_arms b)) = set MEASURED_ARMS"
    and "\<exists>regime t. bu_regime b = Some regime \<and> thresholds policy estimator regime = Inr t
      \<and> (\<forall>(n, a)\<in>set (bu_arms b). check_arm estimator (th_count t) weights a = Inr ())"
proof -
  show "set (map fst (bu_arms b)) = set MEASURED_ARMS"
    using assms by (auto simp: validate_bundle_def bindE_Inr_iff guardE_Inr_iff)
  obtain regime t where r: "bu_regime b = Some regime" "thresholds policy estimator regime = Inr t"
    and "\<exists>us. mapE (\<lambda>(n, a). check_arm estimator (th_count t) weights a) (bu_arms b) = Inr us"
    using assms by (auto simp: validate_bundle_def bindE_Inr_iff split: option.splits)
  then have "\<forall>(n, a)\<in>set (bu_arms b). check_arm estimator (th_count t) weights a = Inr ()"
    unfolding mapE_ok_iff by fastforce
  with r show "\<exists>regime t. bu_regime b = Some regime \<and> thresholds policy estimator regime = Inr t
      \<and> (\<forall>(n, a)\<in>set (bu_arms b). check_arm estimator (th_count t) weights a = Inr ())" by blast
qed

lemma check_arm_cases:
  "check_arm estimator n weights a = Inr () \<Longrightarrow> set (map fst (am_samples a)) = set (map fst weights)"
  by (simp add: check_arm_def split: if_splits)

section \<open>Properties\<close>

lemma regime_counts_sorted:
  assumes "regime_counts estimator protocol = Inr cs"
  shows "\<exists>s n r. cs = (if s \<noteq> 0 then [(''screen'', s)] else []) @ [(''normal'', n), (''rerun'', r)]
    \<and> 0 \<le> s \<and> s < n \<and> n < r"
proof -
  obtain s0 n0 r0 where c: "COUNTS estimator = Some (s0, n0, r0)"
    using assms by (auto simp: regime_counts_def split: option.splits)
  define get :: "(cost_protocol \<Rightarrow> int option) \<Rightarrow> int \<Rightarrow> int"
    where "get = (\<lambda>f d. case protocol of None \<Rightarrow> d | Some p \<Rightarrow> or_default d (f p))"
  define s where "s = (if estimator = ''timing'' then get cp_screen s0 else s0)"
  define n where "n = get (if estimator = ''timing'' then cp_timing
    else if estimator = ''companion'' then cp_companion else cp_memory) n0"
  define r where "r = n * get cp_multiplier 2"
  have "regime_counts estimator protocol = (if \<not> (0 \<le> s \<and> s < n \<and> n < r)
      then Inl (HarnessError (''Invalid '' @ estimator @ '' regime counts''))
      else Inr ((if s \<noteq> 0 then [(''screen'', s)] else []) @ [(''normal'', n), (''rerun'', r)]))"
    unfolding regime_counts_def Let_def c get_def s_def n_def r_def by (simp only: option.case prod.case)
  with assms show ?thesis by (intro exI[of _ s] exI[of _ n] exI[of _ r]) (simp split: if_splits)
qed

lemma guard_estimates:
  assumes "cost_guard b policy estimator weights run_id requirement = Inr g"
  shows "\<exists>regime t evolved base cand. bu_regime b = Some regime
    \<and> thresholds policy estimator regime = Inr t
    \<and> validate_bundle b policy estimator weights run_id requirement = Inr ()
    \<and> judge evolved base weights t = Inr cand \<and> g = guard_of regime t cand
    \<and> (\<forall>c\<in>set (map fst weights). estimated evolved c \<and> estimated base c)
    \<and> (\<exists>a. dict_of (bu_arms b) ''evolved'' = Some a \<and> arm_estimates estimator a = Inr evolved)
    \<and> (\<exists>a. dict_of (bu_arms b) ''baseline'' = Some a \<and> arm_estimates estimator a = Inr base)"
proof -
  obtain regime t ests evolved base cand where g:
    "validate_bundle b policy estimator weights run_id requirement = Inr ()"
    "bu_regime b = Some regime" "thresholds policy estimator regime = Inr t"
    "mapE (\<lambda>(n, a). bindE (arm_estimates estimator a) (\<lambda>e. Inr (n, e))) (bu_arms b) = Inr ests"
    "dict_of ests ''evolved'' = Some evolved" "dict_of ests ''baseline'' = Some base"
    "judge evolved base weights t = Inr cand" "g = guard_of regime t cand"
    using assms
    by (auto simp: cost_guard_def bindE_Inr_iff lookupE_def split: option.splits)
  note arms = mapE_dict[OF g(4) g(5)] mapE_dict[OF g(4) g(6)]
  obtain t' where c: "thresholds policy estimator regime = Inr t'"
    "\<forall>(n, a)\<in>set (bu_arms b). check_arm estimator (th_count t') weights a = Inr ()"
    using validate_arms(2)[OF g(1)] g(2) by auto
  have "estimated est c" if "(n, est) \<in> set ests" "c \<in> set (map fst weights)" for n est c
  proof -
    obtain a where a: "(n, a) \<in> set (bu_arms b)" "arm_estimates estimator a = Inr est"
      using mapE_keys(2)[OF g(4)] \<open>(n, est) \<in> set ests\<close> by auto
    have "check_arm estimator (th_count t') weights a = Inr ()" using c(2) a(1) by auto
    with check_arm_cases that(2) have "c \<in> dom est" unfolding arm_estimates_pos(1)[OF a(2)] by blast
    then show ?thesis using arm_estimates_pos(2)[OF a(2)] by (auto simp: estimated_def)
  qed
  with dict_of_mem[OF g(5)] dict_of_mem[OF g(6)]
  have "\<forall>c\<in>set (map fst weights). estimated evolved c \<and> estimated base c" by blast
  then show ?thesis using g(1-3,7,8) arms
    by (intro exI[of _ regime] exI[of _ t] exI[of _ evolved] exI[of _ base] exI[of _ cand] conjI)
qed

text \<open>
  C22. A cost guard that decides rests on an admitted bundle: for every case of the panel there are
  positive estimates \<open>evolved c\<close> of the samples the bundle's evolved arm holds of the case and \<open>base c\<close> of
  those its baseline arm holds. It finds a breach exactly when for some case the evolved estimate exceeds the
  baseline's both in ratio and by the absolute floor, or the weighted log ratio of the panel exceeds the
  regime's band. Only a rerun can fail a panel; a breach of a shorter measurement stays unresolved.
\<close>

theorem cost_guard_decides:
  assumes "cost_guard b policy estimator weights run_id requirement = Inr g"
  shows "\<exists>t evolved base ae ab. thresholds policy estimator (gr_regime g) = Inr t
    \<and> validate_bundle b policy estimator weights run_id requirement = Inr ()
    \<and> dict_of (bu_arms b) ''evolved'' = Some ae \<and> dict_of (bu_arms b) ''baseline'' = Some ab
    \<and> (\<forall>c\<in>set (map fst weights).
         (\<exists>s x. dict_of (am_samples ae) c = Some s \<and> cost_estimate s estimator = Inr x \<and> evolved c = Some x \<and> 0 < x)
       \<and> (\<exists>s x. dict_of (am_samples ab) c = Some s \<and> cost_estimate s estimator = Inr x \<and> base c = Some x \<and> 0 < x))
    \<and> (cd_breached (gr_candidate g) \<longleftrightarrow>
         (\<exists>c\<in>set (map fst weights). th_case_ratio t < the (evolved c) / the (base c)
             \<and> th_floor t < the (evolved c) - the (base c))
         \<or> th_noise_panel t < (\<Sum>(c, w)\<leftarrow>weights. w * ln (the (evolved c) / the (base c))))
    \<and> (gr_result g = ''failed'' \<longleftrightarrow> gr_regime g = ''rerun'' \<and> cd_breached (gr_candidate g))
    \<and> (gr_result g \<in> {''passed'', ''passed_on_rerun''} \<longleftrightarrow> \<not> cd_breached (gr_candidate g))"
proof -
  obtain regime t evolved base cand where e: "thresholds policy estimator regime = Inr t"
    "validate_bundle b policy estimator weights run_id requirement = Inr ()"
    "judge evolved base weights t = Inr cand" "g = guard_of regime t cand"
    "\<forall>c\<in>set (map fst weights). estimated evolved c \<and> estimated base c"
    and arms: "\<exists>a. dict_of (bu_arms b) ''evolved'' = Some a \<and> arm_estimates estimator a = Inr evolved"
      "\<exists>a. dict_of (bu_arms b) ''baseline'' = Some a \<and> arm_estimates estimator a = Inr base"
    using guard_estimates[OF assms] by blast
  obtain ae where ae: "dict_of (bu_arms b) ''evolved'' = Some ae" "arm_estimates estimator ae = Inr evolved"
    using arms(1) by blast
  obtain ab where ab: "dict_of (bu_arms b) ''baseline'' = Some ab" "arm_estimates estimator ab = Inr base"
    using arms(2) by blast
  have samples: "\<exists>s x. dict_of (am_samples a) c = Some s \<and> cost_estimate s estimator = Inr x \<and> est c = Some x \<and> 0 < x"
    if a: "arm_estimates estimator a = Inr est" and c: "estimated est c" for a est c
  proof -
    obtain x where x: "est c = Some x" "0 < x" using c by (auto simp: estimated_def)
    with arm_estimates_sample[OF a x(1)] show ?thesis by blast
  qed
  have "\<forall>(c, w)\<in>set weights. estimated evolved c \<and> estimated base c" using e(5) by force
  from judge_eq[OF this, of t] e(3) have "cd_breached cand \<longleftrightarrow> (\<exists>c\<in>set (map fst weights). case_breach evolved base t c)
         \<or> ln_panel_of evolved base weights > th_noise_panel t" by auto
  note breach = this[unfolded case_breach_def ln_panel_of_def]
  have g: "gr_regime g = regime" "gr_candidate g = cand"
    "gr_result g = ''failed'' \<longleftrightarrow> regime = ''rerun'' \<and> cd_breached cand"
    "gr_result g \<in> {''passed'', ''passed_on_rerun''} \<longleftrightarrow> \<not> cd_breached cand"
    using e(4) by (auto simp: guard_of_def Let_def)
  have all: "\<forall>c\<in>set (map fst weights).
         (\<exists>s x. dict_of (am_samples ae) c = Some s \<and> cost_estimate s estimator = Inr x \<and> evolved c = Some x \<and> 0 < x)
       \<and> (\<exists>s x. dict_of (am_samples ab) c = Some s \<and> cost_estimate s estimator = Inr x \<and> base c = Some x \<and> 0 < x)"
    by (intro ballI conjI samples[OF ae(2)] samples[OF ab(2)]) (use e(5) in blast)+
  show ?thesis
    unfolding g(1,2)
    by (rule exI[of _ t], rule exI[of _ evolved], rule exI[of _ base], rule exI[of _ ae], rule exI[of _ ab],
        intro conjI e(1,2) ae(1) ab(1) all breach g(3,4))
qed

text \<open>
  The screen is never more lenient than the full measurement: with a screen fraction in the
  unit interval and a panel ratio of at least one, estimates that pass the screen's threshold pass
  the normal and the rerun thresholds as well.
\<close>

theorem screen_is_stricter:
  assumes "thresholds policy estimator ''screen'' = Inr s" and "thresholds policy estimator regime = Inr t"
    and "cq_thresholds policy = Some fixed" and "1 \<le> ct_panel_ratio fixed"
    and "0 \<le> ct_screen_fraction fixed" and "ct_screen_fraction fixed \<le> 1"
    and "\<forall>(c, w)\<in>set weights. estimated evolved c \<and> estimated base c"
    and "judge evolved base weights s = Inr a" and "judge evolved base weights t = Inr b"
    and "\<not> cd_breached a"
  shows "\<not> cd_breached b \<and> th_count s \<le> th_count t"
proof -
  have "0 \<le> ln (ct_panel_ratio fixed)" using assms(4) by simp
  then have "ln (ct_panel_ratio fixed) * ct_screen_fraction fixed \<le> ln (ct_panel_ratio fixed)"
    using assms(5,6) by (simp add: mult_left_le)
  then have th: "th_noise_panel s \<le> th_noise_panel t" "th_case_ratio s = th_case_ratio t" "th_floor s = th_floor t"
    using assms(1-3) by (auto simp: thresholds_def bindE_Inr_iff log_real_def split: option.splits if_splits)
  then have "case_breach evolved base t c = case_breach evolved base s c" for c by (simp add: case_breach_def)
  then have "\<not> cd_breached b"
    using judge_eq[OF assms(7), of s] judge_eq[OF assms(7), of t] assms(8-10) th(1) by auto
  moreover have "th_count s \<le> th_count t"
  proof -
    obtain cs where cs: "regime_counts estimator (cq_protocol policy) = Inr cs"
      "map_of cs ''screen'' = Some (th_count s)" "map_of cs regime = Some (th_count t)"
      using assms(1-3) by (auto simp: thresholds_def bindE_Inr_iff split: option.splits)
    with regime_counts_sorted[OF cs(1)] show ?thesis by (auto split: if_splits)
  qed
  ultimately show ?thesis by simp
qed


definition screen_policy :: cost_policy where
  "screen_policy = \<lparr>cq_thresholds = Some \<lparr>ct_panel_ratio = 2, ct_screen_fraction = 1 / 2, ct_case_ratio = 3,
       ct_floor_bytes = 10, ct_floor_ns = 10\<rparr>,
     cq_protocol = Some \<lparr>cp_multiplier = None, cp_timing = None, cp_screen = Some 3, cp_companion = None,
       cp_memory = None, cp_warmups = 1, cp_minimum_calls = 1, cp_minimum_ns = 1\<rparr>\<rparr>"

lemma screen_policy_thresholds:
  "thresholds screen_policy ''timing'' ''screen''
    = Inr \<lparr>th_count = 3, th_noise_panel = ln 2 * (1 / 2), th_case_ratio = 3, th_floor = 10\<rparr>"
  "thresholds screen_policy ''timing'' ''normal''
    = Inr \<lparr>th_count = 10, th_noise_panel = ln 2, th_case_ratio = 3, th_floor = 10\<rparr>"
  by (simp_all add: thresholds_def screen_policy_def regime_counts_def COUNTS_def or_default_def log_real_def)

lemma same_estimates_judge:
  "judge [''a'' \<mapsto> 100] [''a'' \<mapsto> 100] [(''a'', 1)] t
    = Inr \<lparr>cd_ln_panel = 0, cd_ratios = [(''a'', 1)], cd_caps = (if 1 > th_case_ratio t \<and> 0 > th_floor t then [''a''] else []),
        cd_breached = ((1 > th_case_ratio t \<and> 0 > th_floor t) \<or> 0 > th_noise_panel t)\<rparr>"
  by (auto simp: judge_def ratio_of_def lookupE_def log_real_def delta_of_def)

theorem screen_is_stricter_witness:
  "\<exists>s t a b. thresholds screen_policy ''timing'' ''screen'' = Inr s \<and> thresholds screen_policy ''timing'' ''normal'' = Inr t
    \<and> judge [''a'' \<mapsto> 100] [''a'' \<mapsto> 100] [(''a'', 1)] s = Inr a
    \<and> judge [''a'' \<mapsto> 100] [''a'' \<mapsto> 100] [(''a'', 1)] t = Inr b \<and> \<not> cd_breached b \<and> th_count s \<le> th_count t"
proof -
  obtain fixed where f: "cq_thresholds screen_policy = Some fixed" "ct_panel_ratio fixed = 2" "ct_screen_fraction fixed = 1 / 2"
    by (simp add: screen_policy_def)
  have e: "\<forall>(c, w)\<in>set [(''a'', 1)]. estimated [''a'' \<mapsto> 100] c \<and> estimated [''a'' \<mapsto> 100] c"
    by (simp add: estimated_def)
  note st = screen_policy_thresholds
  note j = same_estimates_judge
  from screen_is_stricter[OF st f(1) _ _ _ e j j] f(2,3) show ?thesis unfolding st j by simp
qed

end
