(* ===== verification/Costs.thy ===== *)
theory Costs
  imports CostGuard Gate
begin

text \<open>
  The cost stage of \<open>src/src/qtb/coordinator/costs.py\<close>: which panels a change requires, the
  measurement of one regime in a fresh session with interleaved arms, the sequence of regimes,
  and \<open>decide\<close>'s replay from the saved bundles. Worker processes, the random generator, the clock,
  the load average and an installed monitor are the functions of \<open>lab\<close>. Digests of case
  definitions are read as the definitions. The machine identity, the time stamp and the file
  \<open>contaminated.json\<close> of a contaminated session are left out.
\<close>

section \<open>Panels\<close>

record cost_run =
  rn_id :: string
  rn_profile :: string
  rn_scope :: "(string \<times> scope) list option"
  rn_changed :: "string list option"
  rn_builds :: "string \<rightharpoonup> string"

type_synonym panels = "(string \<times> tcase list \<times> string) list"

definition scopes :: "cost_run \<Rightarrow> scope list res" where
  "scopes run = (case rn_scope run of None \<Rightarrow> Inl KeyError | Some s \<Rightarrow> Inr (map snd s))"

definition unknown_scope :: "scope list \<Rightarrow> bool" where
  "unknown_scope ss =
     list_ex (\<lambda>v. set (sc_stages v) = set PIPELINE_STAGES \<or> sc_unmapped v \<noteq> []) ss"

definition touches :: "scope list \<Rightarrow> string list \<Rightarrow> bool" where
  "touches ss stages = list_ex (\<lambda>v. list_ex (\<lambda>s. s \<in> set stages) (sc_stages v)) ss"

text \<open>\<open>next\<close> of an exhausted generator raises \<open>StopIteration\<close>.\<close>

definition companion_of :: "tcase list \<Rightarrow> string \<Rightarrow> tcase res" where
  "companion_of cases grp =
     (case find (\<lambda>c. input_group c = grp \<and> role c = ''scored'' \<and> optimization_level c = 2) cases of
        None \<Rightarrow> Inl (OtherException ''StopIteration'') | Some c \<Rightarrow> Inr c)"

definition companion_cases :: "string \<Rightarrow> tcase list \<Rightarrow> tcase list res" where
  "companion_cases profile cases =
     (if profile = ''confirm-profile''
      then mapE (companion_of cases) (sorted_set (map input_group
             (filter (\<lambda>c. panel c = Some ''memory'' \<and> input_group c \<noteq> ''multiplier_h18_n20'') cases)))
      else Inr (filter (\<lambda>c. panel c = Some ''timing'' \<and> modes c = [''timing_reuse'']) cases))"

definition cost_panels :: "cost_run \<Rightarrow> tcase list \<Rightarrow> panels res" where
  "cost_panels run cases =
     (let found = filter (\<lambda>(name, cs, e). cs \<noteq> [])
        (map (\<lambda>name. (name, filter (\<lambda>c. panel c = Some name) cases,
             if name = ''memory'' then ''memory'' else ''timing''))
          [''timing'', ''timing-basis'', ''preset'', ''confirm-timing'', ''memory'']) in
      bindE (scopes run) (\<lambda>ss.
      let unknown = unknown_scope ss;
          kept = (if \<not> unknown \<and> \<not> touches ss [''translation'', ''optimization'']
            then filter (\<lambda>(name, p). name \<noteq> ''timing-basis'') found else found) in
      if unknown \<or> touches ss [''layout'', ''routing'']
      then bindE (companion_cases (rn_profile run) cases) (\<lambda>cs.
             Inr (kept @ [(''companion'', cs, ''companion'')]))
      else Inr kept))"

definition preset_path :: "string \<Rightarrow> bool" where
  "preset_path path = (let p = lower_path path in
     contains_str p ''preset_passmanager'' \<or> contains_str p ''/target'')"

definition required_cost_panels :: "cost_run \<Rightarrow> tcase list \<Rightarrow> panels res" where
  "required_cost_panels run cases =
     bindE (cost_panels run cases) (\<lambda>ps.
     bindE (scopes run) (\<lambda>ss.
       if \<not> unknown_scope ss \<and> \<not> list_ex preset_path (or_default [] (rn_changed run))
       then Inr (filter (\<lambda>(name, p). name \<noteq> ''preset'') ps) else Inr ps))"

definition panel_weights :: "tcase list \<Rightarrow> string \<Rightarrow> (string \<times> real) list" where
  "panel_weights cases estimator =
     (if estimator \<noteq> ''memory'' then map (\<lambda>c. (case_id c, 1 / real (length cases))) cases
      else map (\<lambda>c. (case_id c, 1 / real (length (remdups (map family cases)))
             / real (length (filter (\<lambda>d. family d = family c) cases)))) cases)"

section \<open>The laboratory\<close>

record wrow =
  wr_seed :: nat
  wr_status :: string
  wr_error :: string
  wr_samples :: "real list option"
  wr_rss :: "real option"

text \<open>A worker job: one case, or a batch of cases with their mode and seed.\<close>

record cost_job =
  cj_mode :: string
  cj_case :: "tcase option"
  cj_batch :: "(tcase \<times> string \<times> nat) list"
  cj_seeds :: "nat list"
  cj_timeout :: nat
  cj_protocol :: "(nat \<times> nat \<times> nat) option"

record plan =
  pl_run_id :: string
  pl_cases :: "string list"
  pl_estimator :: string
  pl_count :: int
  pl_arms :: "string list"

record ('w, 'e) cost_monitor =
  mo_mode :: string
  mo_begin :: "string \<Rightarrow> 'w \<Rightarrow> unit res \<times> 'w"
  mo_end :: "string \<Rightarrow> 'w \<Rightarrow> 'e res \<times> 'w"

record ('w, 'r, 'e) lab =
  lb_run :: "string \<Rightarrow> cost_job \<Rightarrow> string \<Rightarrow> 'w \<Rightarrow> wrow list res \<times> 'w"
  lb_digest :: "plan \<Rightarrow> nat"
  lb_short :: "string \<Rightarrow> string"
  lb_rng :: "nat \<Rightarrow> 'r"
  lb_shuffle :: "'r \<Rightarrow> string list \<Rightarrow> string list \<times> 'r"
  lb_uuid :: "'w \<Rightarrow> string \<times> 'w"
  lb_load :: "'w \<Rightarrow> real"
  lb_cpus :: "nat option"
  lb_clock :: "'w \<Rightarrow> nat"
  lb_sleep :: "nat \<Rightarrow> 'w \<Rightarrow> 'w"
  lb_monitor :: "('w, 'e) cost_monitor option"

definition interleaving_seed ::
    "('w, 'r, 'e) lab \<Rightarrow> string \<Rightarrow> tcase list \<Rightarrow> string \<Rightarrow> int \<Rightarrow> string list \<Rightarrow> nat" where
  "interleaving_seed lb run_id cases estimator n arms =
     lb_digest lb \<lparr>pl_run_id = run_id, pl_cases = map case_id cases, pl_estimator = estimator,
       pl_count = n, pl_arms = arms\<rparr>"

definition too_busy :: "('w, 'r, 'e) lab \<Rightarrow> 'w \<Rightarrow> bool" where
  "too_busy lb w = (lb_load lb w > max 1
     (real (case lb_cpus lb of None \<Rightarrow> 1 | Some n \<Rightarrow> if n = 0 then 1 else n) * (1 / 2)))"

definition busy_error :: exn where
  "busy_error = Incomplete ''Machine is too busy for cost measurement''"

text \<open>
  The poll loop of \<open>_wait_until_quiet\<close> with a bound on the number of naps: a nap lasts at least ten
  seconds, so thirty of them reach the deadline and the bound is never what ends the loop
  (\<open>quiet_naps_enough\<close>).
\<close>

fun wait_quiet :: "nat \<Rightarrow> ('w, 'r, 'e) lab \<Rightarrow> nat \<Rightarrow> 'w \<Rightarrow> unit res \<times> 'w" where
  "wait_quiet naps lb deadline w =
     (if \<not> too_busy lb w then (Inr (), w)
      else if lb_clock lb w \<ge> deadline then (Inl busy_error, w)
      else (case naps of
          0 \<Rightarrow> (Inl busy_error, w)
        | Suc n \<Rightarrow> wait_quiet n lb deadline (lb_sleep lb 10 w)))"

declare wait_quiet.simps [simp del]

definition QUIET_S :: nat where "QUIET_S = 300"

definition wait_until_quiet :: "('w, 'r, 'e) lab \<Rightarrow> 'w \<Rightarrow> unit res \<times> 'w" where
  "wait_until_quiet lb w = wait_quiet 30 lb (lb_clock lb w + QUIET_S) w"

section \<open>Measuring one regime\<close>

record ('w, 'r) meas =
  me_rng :: 'r
  me_samples :: "string \<Rightarrow> string \<Rightarrow> samples"
  me_jobs :: "(string \<times> string) list"
  me_w :: 'w

definition protocol_fields :: "cost_protocol \<Rightarrow> nat \<times> nat \<times> nat" where
  "protocol_fields p = (cp_warmups p, cp_minimum_calls p, cp_minimum_ns p)"

text \<open>\<open>case["modes"][0]\<close> and \<open>max\<close> of an empty list raise.\<close>

definition timing_batch_job :: "tcase list \<Rightarrow> cost_protocol \<Rightarrow> cost_job res" where
  "timing_batch_job cases p =
     bindE (mapE (\<lambda>c. case modes c of [] \<Rightarrow> Inl IndexError | m # _ \<Rightarrow> Inr (c, m, fixed_seed c)) cases) (\<lambda>batch.
     bindE (guardE (cases \<noteq> []) ValueError) (\<lambda>_.
     Inr \<lparr>cj_mode = ''timing_batch'', cj_case = None, cj_batch = batch, cj_seeds = [0..<length cases],
       cj_timeout = max 120 (foldr max (map (\<lambda>c. timeout_s c * 5) cases) 0),
       cj_protocol = Some (protocol_fields p)\<rparr>))"

definition case_job :: "string \<Rightarrow> tcase \<Rightarrow> nat list \<Rightarrow> cost_protocol \<Rightarrow> cost_job" where
  "case_job estimator c seeds p =
     (let mode = (if estimator = ''memory'' then ''memory'' else ''timing_reuse'') in
      \<lparr>cj_mode = mode, cj_case = Some c, cj_batch = [], cj_seeds = seeds,
       cj_timeout = max 120 (timeout_s c * 5),
       cj_protocol = (if mode \<noteq> ''memory'' then Some (protocol_fields p) else None)\<rparr>)"

text \<open>\<open>collect\<close>: the rows of one worker by seed, every expected seed \<open>ok\<close>.\<close>

definition rows_by_seed :: "string \<Rightarrow> nat list \<Rightarrow> wrow list \<Rightarrow> (nat \<rightharpoonup> wrow) res" where
  "rows_by_seed job_id wanted rows =
     (let by_seed = dict_of (map (\<lambda>r. (wr_seed r, r)) rows) in
      bindE (guardE (length rows = length wanted \<and> set (map wr_seed rows) = set wanted)
        (Incomplete (''Incomplete cost worker batch: '' @ job_id))) (\<lambda>_.
      bindE (mapE (\<lambda>s. bindE (lookupE by_seed s) (\<lambda>r. guardE (wr_status r = ''ok'')
          (Incomplete (''Cost worker failed: '' @ wr_error r)))) wanted) (\<lambda>_.
      Inr by_seed)))"

definition collect ::
    "('w, 'r, 'e) lab \<Rightarrow> string \<Rightarrow> cost_job \<Rightarrow> string \<Rightarrow> nat list \<Rightarrow> ('w, 'r) meas
       \<Rightarrow> (nat \<rightharpoonup> wrow) res \<times> ('w, 'r) meas" where
  "collect lb arm job job_id wanted m =
     (if lb_monitor lb = None \<and> too_busy lb (me_w m)
      then (Inl (Incomplete ''Machine became busy during cost measurement''), m)
      else (let (got, w) = lb_run lb arm job job_id (me_w m); m = m\<lparr>me_w := w\<rparr> in
        case got of
          Inl e \<Rightarrow> (Inl e, m)
        | Inr rows \<Rightarrow>
            (rows_by_seed job_id wanted rows, m\<lparr>me_jobs := me_jobs m @ [(job_id, arm)]\<rparr>)))"

datatype measured = Peak real | Calls "real list"

definition value_of :: "string \<Rightarrow> wrow \<Rightarrow> measured res" where
  "value_of estimator r =
     (if estimator = ''memory''
      then (case wr_rss r of None \<Rightarrow> Inl KeyError | Some x \<Rightarrow> Inr (Peak x))
      else (case wr_samples r of None \<Rightarrow> Inl KeyError | Some x \<Rightarrow> Inr (Calls x)))"

text \<open>\<open>entry.setdefault(str(seed), []).append(value)\<close>.\<close>

definition append_seed :: "string \<Rightarrow> 'a \<Rightarrow> (string \<times> 'a list) list \<Rightarrow> (string \<times> 'a list) list" where
  "append_seed k v d =
     (if k \<in> set (map fst d) then map (\<lambda>(k', vs). (k', if k' = k then vs @ [v] else vs)) d
      else d @ [(k, [v])])"

fun put_sample :: "nat \<Rightarrow> measured \<Rightarrow> samples \<Rightarrow> samples" where
  "put_sample seed (Peak x) (Flat xs) = Flat (xs @ [x])"
| "put_sample seed (Calls c) (Rounds rs) = Rounds (rs @ [c])"
| "put_sample seed (Calls c) (BySeed d) = BySeed (append_seed (show_nat seed) c d)"
| "put_sample seed v s = s"

definition add_sample :: "string \<Rightarrow> string \<Rightarrow> nat \<Rightarrow> measured \<Rightarrow> ('w, 'r) meas \<Rightarrow> ('w, 'r) meas" where
  "add_sample arm c seed v m =
     m\<lparr>me_samples := (me_samples m)(arm := (me_samples m arm)(c := put_sample seed v (me_samples m arm c)))\<rparr>"

definition take_row ::
    "string \<Rightarrow> string \<Rightarrow> string \<Rightarrow> nat \<Rightarrow> (nat \<rightharpoonup> wrow) \<Rightarrow> ('w, 'r) meas \<Rightarrow> unit res \<times> ('w, 'r) meas" where
  "take_row estimator arm c seed rows m =
     (case bindE (lookupE rows seed) (value_of estimator) of
        Inl e \<Rightarrow> (Inl e, m)
      | Inr v \<Rightarrow> (Inr (), add_sample arm c seed v m))"

definition shuffled ::
    "('w, 'r, 'e) lab \<Rightarrow> string list \<Rightarrow> ('w, 'r) meas \<Rightarrow> string list \<times> ('w, 'r) meas" where
  "shuffled lb arms m = (let (order, r) = lb_shuffle lb (me_rng m) arms in (order, m\<lparr>me_rng := r\<rparr>))"

definition timing_round ::
    "('w, 'r, 'e) lab \<Rightarrow> tcase list \<Rightarrow> string list \<Rightarrow> cost_protocol \<Rightarrow> nat \<Rightarrow> ('w, 'r) meas
       \<Rightarrow> unit res \<times> ('w, 'r) meas" where
  "timing_round lb cases arms p rnd m =
     (let (order, m) = shuffled lb arms m in
      case timing_batch_job cases p of
        Inl e \<Rightarrow> (Inl e, m)
      | Inr job \<Rightarrow>
          foldS (\<lambda>arm m.
            bindS (collect lb arm job (show_nat rnd @ ''-batch-'' @ arm) (cj_seeds job) m) (\<lambda>rows.
            foldS (\<lambda>(i, c). take_row ''timing'' arm (case_id c) i rows) (enumerate 0 cases))) order m)"

definition case_seeds :: "string \<Rightarrow> tcase \<Rightarrow> nat list" where
  "case_seeds estimator c = (if estimator = ''companion'' then [0..<20] else [fixed_seed c])"

definition case_round ::
    "('w, 'r, 'e) lab \<Rightarrow> string \<Rightarrow> string list \<Rightarrow> cost_protocol \<Rightarrow> nat \<Rightarrow> tcase \<Rightarrow> ('w, 'r) meas
       \<Rightarrow> unit res \<times> ('w, 'r) meas" where
  "case_round lb estimator arms p rnd c m =
     (let seeds = case_seeds estimator c; (order, m) = shuffled lb arms m in
      foldS (\<lambda>arm m.
        bindS (collect lb arm (case_job estimator c seeds p)
                 (show_nat rnd @ ''-'' @ lb_short lb (case_id c) @ ''-'' @ arm) seeds m) (\<lambda>rows.
        foldS (\<lambda>seed. take_row estimator arm (case_id c) seed rows) seeds)) order m)"

definition measure_rounds ::
    "('w, 'r, 'e) lab \<Rightarrow> tcase list \<Rightarrow> string \<Rightarrow> int \<Rightarrow> string list \<Rightarrow> cost_protocol \<Rightarrow> ('w, 'r) meas
       \<Rightarrow> unit res \<times> ('w, 'r) meas" where
  "measure_rounds lb cases estimator n arms p =
     foldS (\<lambda>rnd m. if estimator = ''timing'' then timing_round lb cases arms p rnd m
       else foldS (case_round lb estimator arms p rnd) cases m) [0..<nat n]"

definition first_samples :: "string \<Rightarrow> samples" where
  "first_samples estimator =
     (if estimator = ''companion'' then BySeed [] else if estimator = ''memory'' then Flat [] else Rounds [])"

definition bundle_arm ::
    "string \<Rightarrow> (string \<Rightarrow> string \<Rightarrow> samples) \<Rightarrow> tcase list \<Rightarrow> (string \<rightharpoonup> string) \<Rightarrow> string \<times> string
       \<Rightarrow> (string \<times> cost_arm) res" where
  "bundle_arm session smp cases builds a =
     bindE (lookupE builds (fst a)) (\<lambda>build.
       Inr (fst a, \<lparr>am_id = snd a, am_session = session, am_build = build,
         am_samples = map (\<lambda>c. (case_id c, smp (fst a) (case_id c))) cases\<rparr>))"

definition monitor_mode :: "('w, 'r, 'e) lab \<Rightarrow> string" where
  "monitor_mode lb = (case lb_monitor lb of None \<Rightarrow> ''machine'' | Some mo \<Rightarrow> mo_mode mo)"

definition begin_session :: "('w, 'r, 'e) lab \<Rightarrow> string \<Rightarrow> 'w \<Rightarrow> unit res \<times> 'w" where
  "begin_session lb session w =
     (case lb_monitor lb of None \<Rightarrow> wait_until_quiet lb w | Some mo \<Rightarrow> mo_begin mo session w)"

definition end_session :: "('w, 'r, 'e) lab \<Rightarrow> string \<Rightarrow> 'w \<Rightarrow> 'e option res \<times> 'w" where
  "end_session lb session w =
     (case lb_monitor lb of None \<Rightarrow> (Inr None, w)
      | Some mo \<Rightarrow> (case mo_end mo session w of (Inl e, w) \<Rightarrow> (Inl e, w) | (Inr ev, w) \<Rightarrow> (Inr (Some ev), w)))"

text \<open>
  One regime in a fresh session. A bundle is returned only when every round of every arm was
  measured; its regime and thresholds are added by \<open>measure_panel\<close>.
\<close>

definition collect_panel ::
    "('w, 'r, 'e) lab \<Rightarrow> cost_run \<Rightarrow> tcase list \<Rightarrow> string \<Rightarrow> int \<Rightarrow> string list \<Rightarrow> cost_protocol \<Rightarrow> 'w
       \<Rightarrow> 'e cost_bundle res \<times> 'w" where
  "collect_panel lb run cases estimator n arms p w =
     (let (session, w) = lb_uuid lb w;
          seed = interleaving_seed lb (rn_id run) cases estimator n arms;
          (id1, w) = lb_uuid lb w; (id2, w) = lb_uuid lb w in
      bindS (begin_session lb session w) (\<lambda>_ w.
      case measure_rounds lb cases estimator n arms p
             \<lparr>me_rng = lb_rng lb seed, me_samples = (\<lambda>_ _. first_samples estimator), me_jobs = [], me_w = w\<rparr> of
        (Inl e, m) \<Rightarrow> (Inl e, me_w m)
      | (Inr _, m) \<Rightarrow>
          (case mapE (bundle_arm session (me_samples m) cases (rn_builds run)) (zip arms [id1, id2]) of
             Inl e \<Rightarrow> (Inl e, me_w m)
           | Inr rows \<Rightarrow>
               bindS (end_session lb session (me_w m)) (\<lambda>ev w.
               (Inr \<lparr>bu_complete = True, bu_arms = rows, bu_run_id = rn_id run, bu_session = session,
                  bu_thresholds = None, bu_estimator = Some estimator, bu_regime = None,
                  bu_case_hashes = map (\<lambda>c. (case_id c, c)) cases, bu_mode = monitor_mode lb,
                  bu_seed = seed, bu_jobs = me_jobs m, bu_monitor = ev\<rparr>, w)))))"

section \<open>Measuring a panel\<close>

text \<open>The saved bundles of a panel's directory, by regime.\<close>

type_synonym 'e saved = "string \<rightharpoonup> 'e cost_bundle"

definition reusable ::
    "'e saved \<Rightarrow> string \<Rightarrow> cost_policy \<Rightarrow> string \<Rightarrow> (string \<times> real) list \<Rightarrow> string \<Rightarrow> 'e requirement option
       \<Rightarrow> 'e cost_bundle option res" where
  "reusable saved regime policy estimator weights run_id requirement =
     (case saved regime of
        None \<Rightarrow> Inr None
      | Some b \<Rightarrow>
          (case validate_bundle b policy estimator weights (Some run_id) requirement of
             Inr _ \<Rightarrow> Inr (Some b)
           | Inl e \<Rightarrow> if is_incomplete e then Inr None else Inl e))"

definition regime_bundle ::
    "('w, 'r, 'e) lab \<Rightarrow> cost_run \<Rightarrow> tcase list \<Rightarrow> string \<Rightarrow> cost_policy \<Rightarrow> cost_protocol
       \<Rightarrow> 'e requirement option \<Rightarrow> string \<Rightarrow> int \<Rightarrow> 'e saved \<Rightarrow> 'w \<Rightarrow> 'e cost_bundle res \<times> 'w" where
  "regime_bundle lb run cases estimator policy p requirement regime n saved w =
     (case reusable saved regime policy estimator (panel_weights cases estimator) (rn_id run) requirement of
        Inl e \<Rightarrow> (Inl e, w)
      | Inr (Some b) \<Rightarrow> (Inr b, w)
      | Inr None \<Rightarrow>
          bindS (collect_panel lb run cases estimator n MEASURED_ARMS p w) (\<lambda>b w.
            (case cq_thresholds policy of
               None \<Rightarrow> (Inl KeyError, w)
             | Some t \<Rightarrow> (Inr (b\<lparr>bu_regime := Some regime, bu_thresholds := Some t\<rparr>), w))))"

definition goes_on :: "string \<Rightarrow> guard_result \<Rightarrow> bool" where
  "goes_on regime g \<longleftrightarrow> regime = ''screen'' \<and> gr_needs_full g \<or> regime = ''normal'' \<and> gr_needs_rerun g"

fun measure_from ::
    "('w, 'r, 'e) lab \<Rightarrow> cost_run \<Rightarrow> tcase list \<Rightarrow> string \<Rightarrow> cost_policy \<Rightarrow> cost_protocol
       \<Rightarrow> 'e requirement option \<Rightarrow> bool \<Rightarrow> guard_result option \<Rightarrow> (string \<times> int) list
       \<Rightarrow> 'e saved \<times> 'w \<Rightarrow> guard_result res \<times> 'e saved \<times> 'w" where
  "measure_from lb run cases estimator policy p requirement guarded prev [] s =
     (case prev of None \<Rightarrow> Inl IndexError | Some g \<Rightarrow> Inr g, s)"
| "measure_from lb run cases estimator policy p requirement guarded prev ((regime, n) # rest) (saved, w) =
     (if regime = ''rerun'' \<and> \<not> guarded
      then (case prev of None \<Rightarrow> Inl IndexError | Some g \<Rightarrow> Inr g, (saved, w))
      else (case regime_bundle lb run cases estimator policy p requirement regime n saved w of
          (Inl e, w) \<Rightarrow> (Inl e, (saved, w))
        | (Inr b, w) \<Rightarrow>
            let saved = saved(regime \<mapsto> b) in
            (case cost_guard b policy estimator (panel_weights cases estimator) (Some (rn_id run)) requirement of
               Inl e \<Rightarrow> (Inl e, (saved, w))
             | Inr g \<Rightarrow>
                 if goes_on regime g
                 then measure_from lb run cases estimator policy p requirement guarded (Some g) rest (saved, w)
                 else (Inr g, (saved, w)))))"

definition measure_panel ::
    "('w, 'r, 'e) lab \<Rightarrow> cost_run \<Rightarrow> tcase list \<Rightarrow> string \<Rightarrow> cost_policy \<Rightarrow> 'e requirement option \<Rightarrow> bool
       \<Rightarrow> 'e saved \<times> 'w \<Rightarrow> guard_result res \<times> 'e saved \<times> 'w" where
  "measure_panel lb run cases estimator policy requirement guarded s =
     (case cq_protocol policy of
        None \<Rightarrow> (Inl KeyError, s)
      | Some p \<Rightarrow>
          (case regime_counts estimator (Some p) of
             Inl e \<Rightarrow> (Inl e, s)
           | Inr counts \<Rightarrow> measure_from lb run cases estimator policy p requirement guarded None counts s))"

section \<open>All panels\<close>

text \<open>The details of a cost record: \<open>threshold\<close> and \<open>candidate\<close> are flattened.\<close>

definition guard_details :: "guard_result \<Rightarrow> (string \<times> dval) list" where
  "guard_details g = [(''regime'', DStr (gr_regime g)), (''count'', DNat (nat (gr_count g))),
     (''noise_panel'', DReal (th_noise_panel (gr_threshold g))),
     (''ln_panel'', DReal (cd_ln_panel (gr_candidate g))), (''cap_breaches'', DStrs (cd_caps (gr_candidate g))),
     (''breached'', DBool (cd_breached (gr_candidate g))),
     (''needs_full'', DBool (gr_needs_full g)), (''needs_rerun'', DBool (gr_needs_rerun g))]"

definition cost_record :: "string \<Rightarrow> string \<Rightarrow> bool \<Rightarrow> guard_result \<Rightarrow> crec" where
  "cost_record pre name guarded g =
     record_of (pre @ ''5/'' @ name) ''cost'' (if guarded then gr_result g else ''not_evaluated'') ''evolved''
       (guard_details g @ (if guarded then [] else [(''observed_result'', DStr (gr_result g))]))"

record ('w, 'e) cost_state =
  cs_evidence :: "crec list"
  cs_saved :: "string \<Rightarrow> 'e saved"
  cs_w :: 'w

definition measure_one ::
    "('w, 'r, 'e) lab \<Rightarrow> cost_run \<Rightarrow> cost_policy \<Rightarrow> 'e requirement option \<Rightarrow> panels
       \<Rightarrow> string \<times> tcase list \<times> string \<Rightarrow> ('w, 'e) cost_state \<Rightarrow> unit res \<times> ('w, 'e) cost_state" where
  "measure_one lb run policy requirement guarded_panels np st =
     (case np of (name, cases, estimator) \<Rightarrow>
      let pre = profile_prefix (rn_profile run); guarded = (name \<in> set (map fst guarded_panels));
          (got, saved, w) = measure_panel lb run cases estimator policy requirement guarded
            (cs_saved st name, cs_w st);
          st = st\<lparr>cs_saved := (cs_saved st)(name := saved), cs_w := w\<rparr> in
      case got of
        Inl e \<Rightarrow>
          if is_incomplete e \<and> \<not> guarded
          then (Inr (), st\<lparr>cs_evidence := evidence (cs_evidence st)
                 (record_of (pre @ ''5/'' @ name) ''cost'' ''not_evaluated'' ''evolved''
                   [(''observed_result'', DStr ''unresolved''), (''detail'', DStr (exn_message e))])\<rparr>)
          else (Inl e, st)
      | Inr g \<Rightarrow> (Inr (), st\<lparr>cs_evidence := evidence (cs_evidence st) (cost_record pre name guarded g)\<rparr>))"

definition measure_costs ::
    "('w, 'r, 'e) lab \<Rightarrow> cost_run \<Rightarrow> tcase list \<Rightarrow> cost_policy \<Rightarrow> 'e requirement option
       \<Rightarrow> ('w, 'e) cost_state \<Rightarrow> unit res \<times> ('w, 'e) cost_state" where
  "measure_costs lb run cases policy requirement st =
     (case required_cost_panels run cases of
        Inl e \<Rightarrow> (Inl e, st)
      | Inr guarded_panels \<Rightarrow>
          (case cost_panels run cases of
             Inl e \<Rightarrow> (Inl e, st)
           | Inr ps \<Rightarrow> foldS (measure_one lb run policy requirement guarded_panels) ps st))"

section \<open>Replaying the saved bundles\<close>

definition replay_check ::
    "cost_run \<Rightarrow> tcase list \<Rightarrow> string \<Rightarrow> cost_policy \<Rightarrow> 'e requirement option \<Rightarrow> 'e saved \<Rightarrow> string
       \<Rightarrow> 'e cost_bundle option \<Rightarrow> ('e cost_bundle \<times> guard_result) res" where
  "replay_check run cases estimator policy requirement saved regime previous =
     (case saved regime of
        None \<Rightarrow> Inl (Incomplete (''Missing '' @ regime @ '' cost bundle''))
      | Some b \<Rightarrow>
          bindE (guardE (bu_regime b \<noteq> None) KeyError) (\<lambda>_.
          bindE (guardE (bu_regime b = Some regime) (Incomplete (''Expected the '' @ regime @ '' bundle''))) (\<lambda>_.
          bindE (guardE (case previous of None \<Rightarrow> True | Some q \<Rightarrow> bu_session b \<noteq> bu_session q)
            (Incomplete (''The '' @ regime @ '' bundle must be a fresh session''))) (\<lambda>_.
          bindE (guardE (dict_of (bu_case_hashes b) = dict_of (map (\<lambda>c. (case_id c, c)) cases))
            (Incomplete ''Cost bundle case definitions changed'')) (\<lambda>_.
          bindE (mapE (\<lambda>a. bindE (lookupE (dict_of (bu_arms b)) a) (\<lambda>arm.
              bindE (lookupE (rn_builds run) a) (\<lambda>build. guardE (am_build arm = build)
                (Incomplete ''Cost bundle build identities changed'')))) MEASURED_ARMS) (\<lambda>_.
          bindE (cost_guard b policy estimator (panel_weights cases estimator) (Some (rn_id run)) requirement) (\<lambda>g.
            Inr (b, g))))))))"

definition replay_panel ::
    "cost_run \<Rightarrow> tcase list \<Rightarrow> string \<Rightarrow> cost_policy \<Rightarrow> 'e requirement option \<Rightarrow> bool \<Rightarrow> (string \<times> int) list
       \<Rightarrow> 'e saved \<Rightarrow> guard_result res" where
  "replay_panel run cases estimator policy requirement guarded counts saved =
     (let check = replay_check run cases estimator policy requirement saved in
      bindE (if map_of counts ''screen'' \<noteq> None
        then bindE (check ''screen'' None) (\<lambda>(b, g).
               if gr_needs_full g then check ''normal'' (Some b) else Inr (b, g))
        else check ''normal'' None) (\<lambda>(previous, g).
      if guarded \<and> gr_needs_rerun g
      then bindE (guardE (saved ''rerun'' \<noteq> None)
               (Incomplete ''Cost breach requires a fresh doubled-count rerun'')) (\<lambda>_.
             bindE (check ''rerun'' (Some previous)) (\<lambda>(b, g). Inr g))
      else Inr g))"

definition unreadable :: "exn \<Rightarrow> bool" where
  "unreadable e \<longleftrightarrow> is_incomplete e \<or> e = FileNotFoundError"

definition REGIMES :: "string list" where
  "REGIMES = [''screen'', ''normal'', ''rerun'']"

definition replay_one ::
    "cost_run \<Rightarrow> cost_policy \<Rightarrow> 'e requirement option \<Rightarrow> panels \<Rightarrow> (string \<Rightarrow> 'e saved)
       \<Rightarrow> string \<times> tcase list \<times> string \<Rightarrow> crec list \<Rightarrow> crec list res" where
  "replay_one run policy requirement guarded_panels saved np recs =
     (case np of (name, cases, estimator) \<Rightarrow>
      let i = profile_prefix (rn_profile run) @ ''5/'' @ name;
          guarded = (name \<in> set (map fst guarded_panels)) in
      if \<not> list_ex (\<lambda>r. saved name r \<noteq> None) REGIMES \<and> \<not> list_ex (\<lambda>r. cr_id r = i) recs
      then Inr recs
      else bindE (guardE (cq_thresholds policy \<noteq> None)
             (HarnessError ''Archived policy has no cost_thresholds'')) (\<lambda>_.
           bindE (case cq_protocol policy of None \<Rightarrow> Inl KeyError | Some p \<Rightarrow> regime_counts estimator (Some p)) (\<lambda>counts.
           case replay_panel run cases estimator policy requirement guarded counts (saved name) of
             Inr g \<Rightarrow> Inr (evidence recs (cost_record (profile_prefix (rn_profile run)) name guarded g))
           | Inl e \<Rightarrow>
               if unreadable e
               then Inr (evidence recs (record_of i ''cost'' (if guarded then ''unresolved'' else ''not_evaluated'')
                      ''evolved'' [(''detail'', DStr (exn_message e))]))
               else Inl e)))"

definition replay_costs ::
    "cost_run \<Rightarrow> tcase list \<Rightarrow> cost_policy \<Rightarrow> 'e requirement option \<Rightarrow> (string \<Rightarrow> 'e saved)
       \<Rightarrow> crec list \<Rightarrow> crec list res" where
  "replay_costs run cases policy requirement saved recs =
     (if rn_scope run = None then Inr recs
      else bindE (required_cost_panels run cases) (\<lambda>guarded_panels.
           bindE (cost_panels run cases) (\<lambda>ps.
             foldE (replay_one run policy requirement guarded_panels saved) ps recs)))"

section \<open>Weights\<close>

lemma panel_weights_keys [simp]: "map fst (panel_weights cases estimator) = map case_id cases"
  by (simp add: panel_weights_def o_def)

lemma sum_list_by_count:
  fixes g :: "'a \<Rightarrow> real"
  assumes "finite S" and "set xs \<subseteq> S"
  shows "sum_list (map g xs) = (\<Sum>k\<in>S. real (count_list xs k) * g k)"
  using assms(2)
proof (induction xs)
  case (Cons x xs)
  have "(\<Sum>k\<in>S. real (count_list (x # xs) k) * g k)
      = (\<Sum>k\<in>S. (if k = x then g x else 0) + real (count_list xs k) * g k)"
    by (rule sum.cong) (auto simp: algebra_simps)
  also have "\<dots> = g x + (\<Sum>k\<in>S. real (count_list xs k) * g k)"
    using Cons.prems assms(1) by (simp add: sum.distrib)
  finally show ?case using Cons by simp
qed simp

lemma panel_weights_sum:
  assumes "cases \<noteq> []"
  shows "sum_list (map snd (panel_weights cases estimator)) = 1"
proof (cases "estimator = ''memory''")
  case True
  let ?fs = "map family cases" and ?n = "\<lambda>k. length (filter (\<lambda>d. family d = k) cases)"
  let ?F = "real (length (remdups ?fs))"
  have cnt: "count_list ?fs k = ?n k" for k by (induction cases) auto
  have pos: "0 < ?n k" if "k \<in> set ?fs" for k
    using that by (auto simp: filter_empty_conv)
  have F: "?F = real (card (set ?fs))" by (simp add: length_remdups_card_conv)
  have "0 < card (set ?fs)" using assms by (simp add: card_gt_0_iff)
  have "sum_list (map snd (panel_weights cases estimator)) = sum_list (map (\<lambda>k. 1 / ?F / real (?n k)) ?fs)"
    by (simp add: panel_weights_def True o_def)
  also have "\<dots> = (\<Sum>k\<in>set ?fs. real (count_list ?fs k) * (1 / ?F / real (?n k)))"
    by (rule sum_list_by_count) simp_all
  also have "\<dots> = (\<Sum>k\<in>set ?fs. 1 / ?F)"
    using pos by (intro sum.cong) (simp_all add: cnt)
  also have "\<dots> = 1" using \<open>0 < card (set ?fs)\<close> assms unfolding F by simp
  finally show ?thesis .
next
  case False
  with assms show ?thesis by (simp add: panel_weights_def o_def sum_list_triv)
qed

section \<open>Quiet machines\<close>

definition lab_clock_forward :: "('w, 'r, 'e) lab \<Rightarrow> bool" where
  "lab_clock_forward lb \<longleftrightarrow> (\<forall>t w. lb_clock lb w + t \<le> lb_clock lb (lb_sleep lb t w))"

text \<open>With at least as many naps as fit before the deadline, more of them change nothing.\<close>

lemma quiet_naps_enough:
  assumes "lab_clock_forward lb" and "deadline \<le> lb_clock lb w + 10 * naps"
  shows "wait_quiet (naps + k) lb deadline w = wait_quiet naps lb deadline w"
  using assms(2)
proof (induction naps arbitrary: w)
  case 0
  then show ?case by (simp add: wait_quiet.simps)
next
  case (Suc naps)
  have "lb_clock lb w + 10 \<le> lb_clock lb (lb_sleep lb 10 w)"
    using assms(1) by (simp add: lab_clock_forward_def)
  with Suc.prems have "deadline \<le> lb_clock lb (lb_sleep lb 10 w) + 10 * naps" by simp
  from Suc.IH[OF this] show ?case
    by (subst (1 2) wait_quiet.simps) simp
qed

section \<open>Every round adds one sample\<close>

text \<open>A case's samples after \<open>n\<close> rounds.\<close>

fun filled :: "string \<Rightarrow> nat \<Rightarrow> samples \<Rightarrow> bool" where
  "filled estimator n (Flat xs) \<longleftrightarrow> estimator = ''memory'' \<and> length xs = n"
| "filled estimator n (Rounds rs) \<longleftrightarrow> estimator = ''timing'' \<and> length rs = n"
| "filled estimator n (BySeed d) \<longleftrightarrow> estimator = ''companion'' \<and> distinct (map fst d)
     \<and> set (map fst d) = (if n = 0 then {} else set SEEDS) \<and> (\<forall>(k, vs)\<in>set d. length vs = n)"

definition one_more :: "string \<Rightarrow> samples \<Rightarrow> samples \<Rightarrow> bool" where
  "one_more estimator s s' \<longleftrightarrow> (\<forall>n. filled estimator n s \<longrightarrow> filled estimator (Suc n) s')"

text \<open>A part of the measurement adds one sample to some arms' cases and changes no other.\<close>

definition fills :: "string \<Rightarrow> (string \<times> string) set \<Rightarrow> ('w, 'r) meas \<Rightarrow> ('w, 'r) meas \<Rightarrow> bool" where
  "fills estimator T m m' \<longleftrightarrow> (\<forall>a c. if (a, c) \<in> T
     then one_more estimator (me_samples m a c) (me_samples m' a c)
     else me_samples m' a c = me_samples m a c)"

lemma fills_none: "me_samples m' = me_samples m \<Longrightarrow> fills estimator {} m m'"
  by (simp add: fills_def)

lemma fills_then:
  assumes "fills estimator A m m1" and "fills estimator B m1 m2" and "A \<inter> B = {}"
  shows "fills estimator (A \<union> B) m m2"
  using assms unfolding fills_def by (auto split: if_splits) (metis disjoint_iff)+

lemma fills_loop:
  assumes "foldS f xs m = (Inr u, m')" and "distinct xs"
    and "\<And>x m v m'. x \<in> set xs \<Longrightarrow> f x m = (Inr v, m') \<Longrightarrow> fills estimator (T x) m m'"
    and "\<And>x y. x \<in> set xs \<Longrightarrow> y \<in> set xs \<Longrightarrow> x \<noteq> y \<Longrightarrow> T x \<inter> T y = {}"
  shows "fills estimator (\<Union>x\<in>set xs. T x) m m'"
  using assms
proof (induction xs arbitrary: m)
  case Nil
  then show ?case by (simp add: fills_none)
next
  case (Cons x xs)
  from Cons.prems(1) obtain v t where t: "f x m = (Inr v, t)" "foldS f xs t = (Inr u, m')"
    by (auto simp: bindS_Inr)
  have "fills estimator (T x) m t" by (rule Cons.prems(3)[OF _ t(1)]) simp
  moreover have "fills estimator (\<Union>y\<in>set xs. T y) t m'"
    by (rule Cons.IH[OF t(2)]) (use Cons.prems in auto)
  moreover have "T x \<inter> (\<Union>y\<in>set xs. T y) = {}" using Cons.prems(2,4) by (fastforce simp: disjoint_iff)
  ultimately show ?case using fills_then by fastforce
qed

lemma take_row_fills:
  assumes "take_row estimator arm c seed rows m = (Inr u, m')"
  shows "\<exists>v. value_of estimator (the (rows seed)) = Inr v
    \<and> me_samples m' = (me_samples m)(arm := (me_samples m arm)(c := put_sample seed v (me_samples m arm c)))"
  using assms by (auto simp: take_row_def add_sample_def bindE_Inr_iff lookupE_def split: sum.splits option.splits)

lemma put_one_sample:
  assumes "value_of estimator row = Inr v" and "estimator \<noteq> ''companion''"
  shows "one_more estimator s (put_sample seed v s)"
  unfolding one_more_def
proof (intro allI impI)
  fix n assume f: "filled estimator n s"
  show "filled estimator (Suc n) (put_sample seed v s)"
    using assms f by (cases s; cases v) (auto simp: value_of_def split: if_splits option.splits)
qed

lemma take_row_one:
  assumes "take_row estimator arm c seed rows m = (Inr u, m')" and "estimator \<noteq> ''companion''"
  shows "fills estimator {(arm, c)} m m'"
  using take_row_fills[OF assms(1)] put_one_sample[OF _ assms(2)] by (auto simp: fills_def)

text \<open>The twenty seeds of a companion round.\<close>

lemma show_nat_inj: "show_nat a = show_nat b \<Longrightarrow> a = b"
  by (metis nat_of_show_nat)

definition partly_filled :: "nat \<Rightarrow> nat list \<Rightarrow> (string \<times> real list list) list \<Rightarrow> bool" where
  "partly_filled n js d \<longleftrightarrow> distinct (map fst d)
     \<and> set (map fst d) = (if n = 0 then show_nat ` set js else set SEEDS)
     \<and> (\<forall>(k, vs)\<in>set d. length vs = (if k \<in> show_nat ` set js then Suc n else n))"

lemma append_seed_keys:
  "set (map fst (append_seed k v d)) = insert k (set (map fst d))"
  "distinct (map fst d) \<Longrightarrow> distinct (map fst (append_seed k v d))"
proof -
  have m: "map fst (map (\<lambda>(k', vs). (k', if k' = k then vs @ [v] else vs)) d) = map fst d"
    by (simp add: o_def case_prod_beta)
  show "set (map fst (append_seed k v d)) = insert k (set (map fst d))"
  proof (cases "k \<in> set (map fst d)")
    case True
    then show ?thesis unfolding append_seed_def if_P[OF True] m by (simp add: insert_absorb)
  qed (simp add: append_seed_def)
  show "distinct (map fst d) \<Longrightarrow> distinct (map fst (append_seed k v d))"
    unfolding append_seed_def using m by (simp del: map_map)
qed

lemma append_seed_partly:
  assumes "partly_filled n js d" and "j \<notin> set js" and "j < 20"
  shows "partly_filled n (js @ [j]) (append_seed (show_nat j) v d)"
proof -
  let ?k = "show_nat j"
  have new: "?k \<notin> show_nat ` set js" using assms(2) show_nat_inj by blast
  have seed: "?k \<in> set SEEDS" using assms(3) by (simp add: SEEDS_def)
  have "set (map fst (append_seed ?k v d)) = (if n = 0 then show_nat ` set (js @ [j]) else set SEEDS)"
    unfolding append_seed_keys(1) using assms(1) seed by (auto simp: partly_filled_def)
  moreover have "length vs = (if k \<in> show_nat ` set (js @ [j]) then Suc n else n)"
    if mem: "(k, vs) \<in> set (append_seed ?k v d)" for k vs
  proof (cases "?k \<in> set (map fst d)")
    case True
    then obtain ws where ws: "(k, ws) \<in> set d" "vs = (if k = ?k then ws @ [v] else ws)"
      using mem by (auto simp: append_seed_def)
    have "length ws = (if k \<in> show_nat ` set js then Suc n else n)"
      using assms(1) ws(1) unfolding partly_filled_def by blast
    then show ?thesis using ws(2) new by auto
  next
    case False
    have "n = 0"
    proof (rule ccontr)
      assume "n \<noteq> 0"
      then have "set (map fst d) = set SEEDS" using assms(1) by (simp add: partly_filled_def)
      with False seed show False by simp
    qed
    moreover have "(k, vs) \<in> set d \<or> k = ?k \<and> vs = [v]" using mem False by (auto simp: append_seed_def)
    moreover have "length vs = Suc 0 \<longleftrightarrow> k \<in> show_nat ` set js" "k \<in> show_nat ` set js" if "(k, vs) \<in> set d"
    proof -
      have "k \<in> set (map fst d)" using that by force
      then show "k \<in> show_nat ` set js" using assms(1) \<open>n = 0\<close> by (simp add: partly_filled_def)
      with assms(1) \<open>n = 0\<close> that show "length vs = Suc 0 \<longleftrightarrow> k \<in> show_nat ` set js"
        unfolding partly_filled_def by fastforce
    qed
    ultimately show ?thesis by auto
  qed
  ultimately show ?thesis
    using assms(1) append_seed_keys(2)[of d ?k v] unfolding partly_filled_def by blast
qed

lemma companion_seeds:
  assumes "foldS (\<lambda>seed. take_row ''companion'' arm c seed rows) js m = (Inr u, m')"
    and "distinct (done1 @ js)" and "\<forall>j\<in>set js. j < 20"
    and "me_samples m arm c = BySeed d" and "partly_filled n done1 d"
  shows "\<exists>d'. me_samples m' arm c = BySeed d' \<and> partly_filled n (done1 @ js) d'"
  using assms
proof (induction js arbitrary: m done1 d)
  case (Cons j js)
  from Cons.prems(1) obtain x t where t: "take_row ''companion'' arm c j rows m = (Inr x, t)"
    "foldS (\<lambda>seed. take_row ''companion'' arm c seed rows) js t = (Inr u, m')"
    by (auto simp: bindS_Inr)
  from take_row_fills[OF t(1)] obtain v where v: "value_of ''companion'' (the (rows j)) = Inr v"
    "me_samples t arm c = put_sample j v (BySeed d)" using Cons.prems(4) by auto
  then obtain calls where "v = Calls calls" by (auto simp: value_of_def split: option.splits)
  then have t4: "me_samples t arm c = BySeed (append_seed (show_nat j) calls d)" using v(2) by simp
  have "partly_filled n (done1 @ [j]) (append_seed (show_nat j) calls d)"
    by (rule append_seed_partly[OF Cons.prems(5)]) (use Cons.prems(2,3) in auto)
  from Cons.IH[OF t(2) _ _ t4 this] Cons.prems(2,3) show ?case by simp
qed auto

lemma take_rows_others:
  assumes "foldS (\<lambda>seed. take_row estimator arm c seed rows) js m = (Inr u, m')"
  shows "\<forall>a d. (a, d) \<noteq> (arm, c) \<longrightarrow> me_samples m' a d = me_samples m a d"
proof (rule foldS_invariant[OF assms, where P = "\<lambda>t. \<forall>a d. (a, d) \<noteq> (arm, c) \<longrightarrow> me_samples t a d = me_samples m a d"])
  fix x s s' v
  assume "\<forall>a d. (a, d) \<noteq> (arm, c) \<longrightarrow> me_samples s a d = me_samples m a d"
    and "take_row estimator arm c x rows s = (Inr v, s')"
  moreover obtain w where "me_samples s' = (me_samples s)(arm := (me_samples s arm)(c := put_sample x w (me_samples s arm c)))"
    using take_row_fills calculation(2) by blast
  ultimately show "\<forall>a d. (a, d) \<noteq> (arm, c) \<longrightarrow> me_samples s' a d = me_samples m a d"
    by (simp add: fun_upd_def)
qed simp

lemma case_rows_fill:
  assumes "foldS (\<lambda>seed. take_row estimator arm cid seed rows) (case_seeds estimator c) m = (Inr u, m')"
  shows "fills estimator {(arm, cid)} m m'"
proof (cases "estimator = ''companion''")
  case False
  then have "case_seeds estimator c = [fixed_seed c]" by (simp add: case_seeds_def)
  with assms obtain v where "take_row estimator arm cid (fixed_seed c) rows m = (Inr v, m')"
    by (auto simp: bindS_Inr)
  then show ?thesis using False by (rule take_row_one)
next
  case True
  have f: "foldS (\<lambda>seed. take_row ''companion'' arm cid seed rows) [0..<20] m = (Inr u, m')"
    using assms True by (simp add: case_seeds_def)
  have "one_more ''companion'' (me_samples m arm cid) (me_samples m' arm cid)"
    unfolding one_more_def
  proof (intro allI impI)
    fix n assume fl: "filled ''companion'' n (me_samples m arm cid)"
    then obtain d where d: "me_samples m arm cid = BySeed d" by (cases "me_samples m arm cid") auto
    have "partly_filled n [] d" using fl d by (auto simp: partly_filled_def)
    from companion_seeds[OF f _ _ d this] obtain d' where
      d': "me_samples m' arm cid = BySeed d'" "partly_filled n [0..<20] d'" by auto
    have seeds: "show_nat ` set [0..<20] = set SEEDS" by (simp add: SEEDS_def)
    have keys: "set (map fst d') = set SEEDS" using d'(2) seeds unfolding partly_filled_def by metis
    have "length vs = Suc n" if "(k, vs) \<in> set d'" for k vs
    proof -
      have "k \<in> set SEEDS" using that keys by force
      then show ?thesis using d'(2) that seeds unfolding partly_filled_def by fastforce
    qed
    with d' keys show "filled ''companion'' (Suc n) (me_samples m' arm cid)"
      by (auto simp: partly_filled_def)
  qed
  then show ?thesis using take_rows_others[OF f] True by (auto simp: fills_def)
qed

section \<open>Complete bundles\<close>

text \<open>\<open>random.shuffle\<close> permutes, and two identifiers of \<open>uuid4\<close> differ.\<close>

definition fair_lab :: "('w, 'r, 'e) lab \<Rightarrow> bool" where
  "fair_lab lb \<longleftrightarrow> (\<forall>r xs. mset (fst (lb_shuffle lb r xs)) = mset xs)
     \<and> (\<forall>w. fst (lb_uuid lb w) \<noteq> fst (lb_uuid lb (snd (lb_uuid lb w))))"

lemma shuffled_facts:
  assumes "shuffled lb arms m = (order, m')" and "fair_lab lb" and "distinct arms"
  shows "set order = set arms" and "distinct order" and "me_samples m' = me_samples m"
proof -
  have "mset order = mset arms" and s: "me_samples m' = me_samples m"
    using assms(1,2) unfolding shuffled_def fair_lab_def
    by (auto split: prod.splits) (metis fst_conv)
  then show "set order = set arms" "distinct order" "me_samples m' = me_samples m"
    using assms(3) by (auto dest: mset_eq_setD mset_eq_imp_distinct_iff)
qed

lemma collect_samples: "collect lb arm job i ws m = (Inr rows, m') \<Longrightarrow> me_samples m' = me_samples m"
  by (auto simp: collect_def Let_def split: if_splits sum.splits prod.splits)

lemma fills_start: "me_samples t = me_samples m \<Longrightarrow> fills estimator T t m' = fills estimator T m m'"
  by (simp only: fills_def)

lemma fills_in: "fills estimator T m m' \<Longrightarrow> (a, c) \<in> T \<Longrightarrow> one_more estimator (me_samples m a c) (me_samples m' a c)"
  unfolding fills_def by metis

lemma collect_then:
  assumes "bindS (collect lb arm job i ws m) f = (Inr u, m')"
    and "\<And>rows t. f rows t = (Inr u, m') \<Longrightarrow> fills estimator T t m'"
  shows "fills estimator T m m'"
proof -
  from assms(1) obtain rows t where c: "collect lb arm job i ws m = (Inr rows, t)" "f rows t = (Inr u, m')"
    by (auto simp: bindS_Inr)
  from assms(2)[OF c(2)] fills_start[OF collect_samples[OF c(1)]] show ?thesis by simp
qed

lemma timing_round_fills:
  assumes "timing_round lb cases arms p rnd m = (Inr u, m')" and "fair_lab lb" and "distinct arms"
    and "distinct (map case_id cases)"
  shows "fills ''timing'' (set arms \<times> set (map case_id cases)) m m'"
proof -
  obtain order m1 where s: "shuffled lb arms m = (order, m1)" by fastforce
  note sf = shuffled_facts[OF s assms(2,3)]
  obtain job where f: "foldS (\<lambda>arm m.
      bindS (collect lb arm job (show_nat rnd @ ''-batch-'' @ arm) (cj_seeds job) m) (\<lambda>rows.
      foldS (\<lambda>(i, c). take_row ''timing'' arm (case_id c) i rows) (enumerate 0 cases))) order m1 = (Inr u, m')"
    using assms(1) s by (auto simp: timing_round_def split: sum.splits)
  have "fills ''timing'' (\<Union>a\<in>set order. {a} \<times> set (map case_id cases)) m1 m'"
  proof (rule fills_loop[OF f sf(2)])
    fix arm t v t'
    assume b: "bindS (collect lb arm job (show_nat rnd @ ''-batch-'' @ arm) (cj_seeds job) t) (\<lambda>rows.
      foldS (\<lambda>(i, c). take_row ''timing'' arm (case_id c) i rows) (enumerate 0 cases)) = (Inr v, t')"
    show "fills ''timing'' ({arm} \<times> set (map case_id cases)) t t'"
    proof (rule collect_then[OF b])
      fix rows t1
      assume r: "foldS (\<lambda>(i, c). take_row ''timing'' arm (case_id c) i rows) (enumerate 0 cases) t1 = (Inr v, t')"
      have "fills ''timing'' (\<Union>x\<in>set (enumerate 0 cases). {(arm, case_id (snd x))}) t1 t'"
      proof (rule fills_loop[OF r])
        fix x y assume xy: "x \<in> set (enumerate 0 cases)" "y \<in> set (enumerate 0 cases)" "x \<noteq> y"
        then have e: "fst x < length cases" "fst y < length cases" "cases ! fst x = snd x" "cases ! fst y = snd y"
          by (simp_all add: in_set_enumerate_eq)
        with xy(3) have "fst x \<noteq> fst y" by (metis prod_eqI)
        with e nth_eq_iff_index_eq[OF assms(4), of "fst x" "fst y"]
        have "case_id (snd x) \<noteq> case_id (snd y)" by simp
        then show "{(arm, case_id (snd x))} \<inter> {(arm, case_id (snd y))} = {}" by simp
      qed (auto simp: take_row_one)
      moreover have "(\<Union>x\<in>set (enumerate 0 cases). {(arm, case_id (snd x))})
          = {arm} \<times> (\<lambda>x. case_id (snd x)) ` set (enumerate 0 cases)" by auto
      moreover have "(\<lambda>x. case_id (snd x)) ` set (enumerate 0 cases) = set (map case_id (map snd (enumerate 0 cases)))"
        by (simp only: list.set_map image_image)
      ultimately show "fills ''timing'' ({arm} \<times> set (map case_id cases)) t1 t'"
        unfolding map_snd_enumerate by (simp only:)
    qed
  qed auto
  moreover have "(\<Union>a\<in>set order. {a} \<times> set (map case_id cases)) = set arms \<times> set (map case_id cases)"
    using sf(1) by auto
  ultimately show ?thesis using fills_start[OF sf(3)] by simp
qed

lemma case_round_fills:
  assumes "case_round lb estimator arms p rnd c m = (Inr u, m')" and "fair_lab lb" and "distinct arms"
  shows "fills estimator (set arms \<times> {case_id c}) m m'"
proof -
  obtain order m1 where s: "shuffled lb arms m = (order, m1)" by fastforce
  note sf = shuffled_facts[OF s assms(2,3)]
  let ?seeds = "case_seeds estimator c"
  have f: "foldS (\<lambda>arm m. bindS (collect lb arm (case_job estimator c ?seeds p)
        (show_nat rnd @ ''-'' @ lb_short lb (case_id c) @ ''-'' @ arm) ?seeds m) (\<lambda>rows.
        foldS (\<lambda>seed. take_row estimator arm (case_id c) seed rows) ?seeds)) order m1 = (Inr u, m')"
    using assms(1) s by (simp add: case_round_def Let_def)
  have "fills estimator (\<Union>a\<in>set order. {(a, case_id c)}) m1 m'"
    by (rule fills_loop[OF f sf(2)], erule collect_then) (auto intro: case_rows_fill)
  moreover have "(\<Union>a\<in>set order. {(a, case_id c)}) = set arms \<times> {case_id c}" using sf(1) by auto
  ultimately show ?thesis using fills_start[OF sf(3)] by simp
qed

lemma round_fills:
  assumes "(if estimator = ''timing'' then timing_round lb cases arms p rnd m
      else foldS (case_round lb estimator arms p rnd) cases m) = (Inr u, m')"
    and "fair_lab lb" and "distinct arms" and "distinct (map case_id cases)"
  shows "fills estimator (set arms \<times> set (map case_id cases)) m m'"
proof (cases "estimator = ''timing''")
  case True
  with assms timing_round_fills show ?thesis by auto
next
  case False
  then have f: "foldS (case_round lb estimator arms p rnd) cases m = (Inr u, m')" using assms(1) by simp
  have "fills estimator (\<Union>c\<in>set cases. set arms \<times> {case_id c}) m m'"
  proof (rule fills_loop[OF f])
    show "distinct cases" using assms(4) by (simp add: distinct_map)
    fix c d assume "c \<in> set cases" "d \<in> set cases" "c \<noteq> d"
    then have "case_id c \<noteq> case_id d" using assms(4) by (auto simp: distinct_map inj_on_def)
    then show "set arms \<times> {case_id c} \<inter> set arms \<times> {case_id d} = {}" by auto
  qed (rule case_round_fills[OF _ assms(2,3)])
  moreover have "(\<Union>c\<in>set cases. set arms \<times> {case_id c}) = set arms \<times> set (map case_id cases)" by auto
  ultimately show ?thesis by simp
qed

lemma measure_rounds_filled:
  assumes "measure_rounds lb cases estimator n arms p m = (Inr u, m')" and "fair_lab lb" and "distinct arms"
    and "distinct (map case_id cases)" and "a \<in> set arms" and "c \<in> set cases"
    and "filled estimator 0 (me_samples m a (case_id c))"
  shows "filled estimator (nat n) (me_samples m' a (case_id c))"
proof -
  have "filled estimator (k + length rs) (me_samples t' a (case_id c))"
    if "foldS (\<lambda>rnd m. if estimator = ''timing'' then timing_round lb cases arms p rnd m
       else foldS (case_round lb estimator arms p rnd) cases m) rs t = (Inr v, t')"
      "filled estimator k (me_samples t a (case_id c))" for rs k t t' v
    using that
  proof (induction rs arbitrary: t k)
    case (Cons r rs)
    from Cons.prems(1) obtain x t1 where t: "(if estimator = ''timing'' then timing_round lb cases arms p r t
       else foldS (case_round lb estimator arms p r) cases t) = (Inr x, t1)"
      "foldS (\<lambda>rnd m. if estimator = ''timing'' then timing_round lb cases arms p rnd m
       else foldS (case_round lb estimator arms p rnd) cases m) rs t1 = (Inr v, t')"
      by (auto simp: bindS_Inr)
    have "(a, case_id c) \<in> set arms \<times> set (map case_id cases)" using assms(5,6) by simp
    then have "filled estimator (Suc k) (me_samples t1 a (case_id c))"
      using fills_in[OF round_fills[OF t(1) assms(2-4)]] Cons.prems(2) unfolding one_more_def by blast
    from Cons.IH[OF t(2) this] show ?case by simp
  qed simp
  from this[OF assms(1)[unfolded measure_rounds_def] assms(7)] show ?thesis by simp
qed

lemma filled_lengths:
  assumes "filled estimator n s"
  shows "\<exists>ns. array_lengths estimator s = Inr ns \<and> (\<forall>k\<in>set ns. k = n)"
  using assms by (cases s) (auto simp: array_lengths_def)

lemma filled_first:
  assumes "COUNTS estimator \<noteq> None"
  shows "filled estimator 0 (first_samples estimator)"
  using assms by (auto simp: first_samples_def COUNTS_def split: if_splits)

text \<open>The parts of a session that was measured to its end.\<close>

lemma collect_panel_parts:
  fixes lb :: "('w, 'r, 'e) lab"
  assumes "collect_panel lb run cases estimator n arms p w = (Inr b, w')"
  obtains session w1 id1 w2 id2 w3 w4 m rows ev where
    "lb_uuid lb w = (session, w1)" "lb_uuid lb w1 = (id1, w2)" "lb_uuid lb w2 = (id2, w3)"
    "begin_session lb session w3 = (Inr (), w4)"
    "measure_rounds lb cases estimator n arms p
       \<lparr>me_rng = lb_rng lb (interleaving_seed lb (rn_id run) cases estimator n arms),
         me_samples = (\<lambda>_ _. first_samples estimator), me_jobs = [], me_w = w4\<rparr> = (Inr (), m)"
    "mapE (bundle_arm session (me_samples m) cases (rn_builds run)) (zip arms [id1, id2]) = Inr rows"
    "end_session lb session (me_w m) = (Inr ev, w')"
    "b = \<lparr>bu_complete = True, bu_arms = rows, bu_run_id = rn_id run, bu_session = session, bu_thresholds = None,
       bu_estimator = Some estimator, bu_regime = None, bu_case_hashes = map (\<lambda>c. (case_id c, c)) cases,
       bu_mode = monitor_mode lb, bu_seed = interleaving_seed lb (rn_id run) cases estimator n arms,
       bu_jobs = me_jobs m, bu_monitor = ev\<rparr>"
proof -
  obtain session w1 where u1: "lb_uuid lb w = (session, w1)" by fastforce
  obtain id1 w2 where u2: "lb_uuid lb w1 = (id1, w2)" by fastforce
  obtain id2 w3 where u3: "lb_uuid lb w2 = (id2, w3)" by fastforce
  define seed where "seed = interleaving_seed lb (rn_id run) cases estimator n arms"
  define start where "start = (\<lambda>w :: 'w. \<lparr>me_rng = lb_rng lb seed,
    me_samples = (\<lambda>_ _. first_samples estimator), me_jobs = [], me_w = w\<rparr>)"
  define finish where "finish = (\<lambda>(m :: ('w, 'r) meas) rows ev w. (Inr \<lparr>bu_complete = True, bu_arms = rows, bu_run_id = rn_id run,
    bu_session = session, bu_thresholds = None, bu_estimator = Some estimator, bu_regime = None,
    bu_case_hashes = map (\<lambda>c. (case_id c, c)) cases, bu_mode = monitor_mode lb, bu_seed = seed,
    bu_jobs = me_jobs m, bu_monitor = ev\<rparr> :: 'e cost_bundle res, w :: 'w))"
  let ?rounds = "measure_rounds lb cases estimator n arms p"
  let ?close = "\<lambda>q. (case q of (Inl e, m) \<Rightarrow> (Inl e, me_w m)
      | (Inr _, m) \<Rightarrow>
          (case mapE (bundle_arm session (me_samples m) cases (rn_builds run)) (zip arms [id1, id2]) of
             Inl e \<Rightarrow> (Inl e, me_w m)
           | Inr rows \<Rightarrow> bindS (end_session lb session (me_w m)) (finish m rows)))"
  have "bindS (begin_session lb session w3) (\<lambda>_ w. ?close (?rounds (start w))) = (Inr b, w')"
    using assms(1) unfolding collect_panel_def u1 u2 u3 Let_def prod.case seed_def[symmetric] finish_def start_def .
  then obtain u w4 where bs: "begin_session lb session w3 = (Inr u, w4)" and c: "?close (?rounds (start w4)) = (Inr b, w')"
    unfolding bindS_Inr by blast
  obtain r m where m0: "?rounds (start w4) = (r, m)" by fastforce
  with c have "?close (r, m) = (Inr b, w')" by (simp only:)
  with m0 have "\<exists>rows. ?rounds (start w4) = (Inr (), m)
    \<and> mapE (bundle_arm session (me_samples m) cases (rn_builds run)) (zip arms [id1, id2]) = Inr rows
    \<and> bindS (end_session lb session (me_w m)) (finish m rows) = (Inr b, w')"
    by (auto split: sum.splits)
  then obtain rows where m: "measure_rounds lb cases estimator n arms p (start w4) = (Inr (), m)"
    and rows: "mapE (bundle_arm session (me_samples m) cases (rn_builds run)) (zip arms [id1, id2]) = Inr rows"
    and "bindS (end_session lb session (me_w m)) (finish m rows) = (Inr b, w')" by blast
  then obtain ev w5 where es: "end_session lb session (me_w m) = (Inr ev, w5)" and b: "finish m rows ev w5 = (Inr b, w')"
    by (auto simp: bindS_Inr)
  show thesis
    by (rule that[OF u1 u2 u3 _ _ rows]) (use bs m es b in \<open>auto simp: start_def seed_def finish_def\<close>)
qed

text \<open>What a collected bundle holds.\<close>

lemma collect_panel_bundle:
  fixes lb :: "('w, 'r, 'e) lab"
  assumes "collect_panel lb run cases estimator n MEASURED_ARMS p w = (Inr b, w')" and "fair_lab lb"
    and "distinct (map case_id cases)" and "COUNTS estimator \<noteq> None"
  shows "bu_complete b \<and> bu_run_id b = rn_id run \<and> bu_estimator b = Some estimator
    \<and> bu_case_hashes b = map (\<lambda>c. (case_id c, c)) cases
    \<and> (\<exists>a1 a2. bu_arms b = [(''baseline'', a1), (''evolved'', a2)] \<and> am_id a1 \<noteq> am_id a2
        \<and> (\<forall>(name, a)\<in>set (bu_arms b). am_session a = bu_session b \<and> rn_builds run name = Some (am_build a)
             \<and> map fst (am_samples a) = map case_id cases
             \<and> (\<forall>(c, s)\<in>set (am_samples a). filled estimator (nat n) s)))"
proof -
  obtain session w1 id1 w2 id2 w3 w4 m rows ev where
    u: "lb_uuid lb w = (session, w1)" and u2: "lb_uuid lb w1 = (id1, w2)" and u3: "lb_uuid lb w2 = (id2, w3)"
    and bs: "begin_session lb session w3 = (Inr (), w4)"
    and m: "measure_rounds lb cases estimator n MEASURED_ARMS p
       \<lparr>me_rng = lb_rng lb (interleaving_seed lb (rn_id run) cases estimator n MEASURED_ARMS),
         me_samples = (\<lambda>_ _. first_samples estimator), me_jobs = [], me_w = w4\<rparr> = (Inr (), m)"
    and rows: "mapE (bundle_arm session (me_samples m) cases (rn_builds run)) (zip MEASURED_ARMS [id1, id2]) = Inr rows"
    and es: "end_session lb session (me_w m) = (Inr ev, w')"
    and b: "b = \<lparr>bu_complete = True, bu_arms = rows, bu_run_id = rn_id run, bu_session = session, bu_thresholds = None,
       bu_estimator = Some estimator, bu_regime = None, bu_case_hashes = map (\<lambda>c. (case_id c, c)) cases,
       bu_mode = monitor_mode lb, bu_seed = interleaving_seed lb (rn_id run) cases estimator n MEASURED_ARMS,
       bu_jobs = me_jobs m, bu_monitor = ev\<rparr>"
    by (rule collect_panel_parts[OF assms(1)])
  have ids: "id1 \<noteq> id2" using assms(2) u2 u3 unfolding fair_lab_def by (metis fst_conv snd_conv)
  have fill: "filled estimator (nat n) (me_samples m a (case_id c))" if "a \<in> set MEASURED_ARMS" "c \<in> set cases" for a c
    by (rule measure_rounds_filled[OF m assms(2) _ assms(3) that])
      (simp_all add: MEASURED_ARMS_def filled_first[OF assms(4)])
  let ?arm = "\<lambda>name i build. \<lparr>am_id = i, am_session = session, am_build = build,
         am_samples = map (\<lambda>c. (case_id c, me_samples m name (case_id c))) cases\<rparr>"
  obtain b1 b2 where builds: "rn_builds run ''baseline'' = Some b1" "rn_builds run ''evolved'' = Some b2"
    and r: "rows = [(''baseline'', ?arm ''baseline'' id1 b1), (''evolved'', ?arm ''evolved'' id2 b2)]"
    using rows by (auto simp: MEASURED_ARMS_def bundle_arm_def bindE_Inr_iff lookupE_def split: option.splits)
  have "\<forall>(c, s)\<in>set (am_samples (?arm name i build)). filled estimator (nat n) s"
    if "name \<in> set MEASURED_ARMS" for name i build using fill[OF that] by auto
  with b r builds ids show ?thesis by (auto simp: o_def MEASURED_ARMS_def)
qed

lemma thresholds_counts:
  "thresholds policy estimator regime = Inr t \<Longrightarrow> COUNTS estimator \<noteq> None"
  by (auto simp: thresholds_def regime_counts_def bindE_Inr_iff split: option.splits)

text \<open>
  A freshly measured bundle is always admissible: whatever the workers do, a session that is
  measured to its end has exactly the regime's number of samples for every case and arm (and every
  companion seed), distinct arm identifiers and one session, so only the session's evidence extension
  can refuse it when it is judged, reused or replayed.
\<close>

theorem collected_bundle_admissible:
  assumes "collect_panel lb run cases estimator (th_count t) MEASURED_ARMS p w = (Inr b, w')"
    and "fair_lab lb" and "distinct (map case_id cases)"
    and "thresholds policy estimator regime = Inr t" and "cq_thresholds policy = Some fixed"
    and "0 \<le> th_count t"
  shows "validate_bundle (b\<lparr>bu_regime := Some regime, bu_thresholds := Some fixed\<rparr>) policy estimator
      (panel_weights cases estimator) (Some (rn_id run)) requirement
    = (case requirement of None \<Rightarrow> Inr ()
       | Some check \<Rightarrow> check (b\<lparr>bu_regime := Some regime, bu_thresholds := Some fixed\<rparr>) estimator (th_count t)
           (sort (map case_id cases)))"
proof -
  note f = collect_panel_bundle[OF assms(1-3) thresholds_counts[OF assms(4)]]
  let ?b = "b\<lparr>bu_regime := Some regime, bu_thresholds := Some fixed\<rparr>"
  let ?w = "panel_weights cases estimator"
  obtain a1 a2 where arms: "bu_arms b = [(''baseline'', a1), (''evolved'', a2)]" "am_id a1 \<noteq> am_id a2"
    "am_session a1 = bu_session b" "am_session a2 = bu_session b"
    and smps: "\<forall>a\<in>{a1, a2}. map fst (am_samples a) = map case_id cases
      \<and> (\<forall>(c, s)\<in>set (am_samples a). filled estimator (nat (th_count t)) s)"
    using f by auto
  note smp = bspec[OF smps]
  have arm: "check_arm estimator (th_count t) ?w a = Inr ()" if "a \<in> {a1, a2}" for a
  proof -
    have k: "set (map fst (am_samples a)) = set (map fst ?w)"
      using smp[OF that] by (metis panel_weights_keys)
    have "mapE (\<lambda>(case_id, s). bindE (array_lengths estimator s) (\<lambda>ns.
        guardE (list_all (\<lambda>n. int n = th_count t) ns) (Incomplete ''Wrong cost sample count''))) (am_samples a)
      = Inr (map (\<lambda>_. ()) (am_samples a))"
    proof (rule mapE_total)
      fix x assume mem: "x \<in> set (am_samples a)"
      obtain c s where cs: "x = (c, s)" by (cases x)
      with mem smp[OF \<open>a \<in> {a1, a2}\<close>] have x: "x = (c, s)" "filled estimator (nat (th_count t)) s" by auto
      obtain ns where ns: "array_lengths estimator s = Inr ns" "\<forall>k\<in>set ns. k = nat (th_count t)"
        using filled_lengths[OF x(2)] by blast
      then have "list_all (\<lambda>n. int n = th_count t) ns" using assms(6) by (auto simp: list_all_iff)
      with ns(1)
      show "(case x of (i, s) \<Rightarrow> bindE (array_lengths estimator s) (\<lambda>ns.
          guardE (list_all (\<lambda>n. int n = th_count t) ns) (Incomplete ''Wrong cost sample count''))) = Inr ()"
        using x(1) by simp
    qed
    with k show ?thesis by (simp add: check_arm_def del: panel_weights_keys)
  qed
  show ?thesis
    using f arms arm assms(4,5)
    by (cases requirement) (simp_all add: validate_bundle_def MEASURED_ARMS_def)
qed

section \<open>The replay agrees with the measurement\<close>

text \<open>What a regime adds to an empty directory.\<close>

lemma regime_bundle_fresh:
  assumes "regime_bundle lb run cases estimator policy p requirement regime n saved w = (Inr b, w')"
    and "saved regime = None" and "fair_lab lb" and "distinct (map case_id cases)"
    and "COUNTS estimator \<noteq> None"
  shows "bu_regime b = Some regime" and "bu_case_hashes b = map (\<lambda>c. (case_id c, c)) cases"
    and "\<forall>a\<in>set MEASURED_ARMS. \<exists>arm. dict_of (bu_arms b) a = Some arm \<and> rn_builds run a = Some (am_build arm)"
proof -
  obtain b0 w1 t where c: "collect_panel lb run cases estimator n MEASURED_ARMS p w = (Inr b0, w1)"
    and b: "b = b0\<lparr>bu_regime := Some regime, bu_thresholds := Some t\<rparr>"
    using assms(1,2) by (auto simp: regime_bundle_def reusable_def bindS_Inr split: option.splits)
  note f = collect_panel_bundle[OF c assms(3-5)]
  from f b show "bu_regime b = Some regime" "bu_case_hashes b = map (\<lambda>c. (case_id c, c)) cases" by auto
  from f b show "\<forall>a\<in>set MEASURED_ARMS. \<exists>arm. dict_of (bu_arms b) a = Some arm \<and> rn_builds run a = Some (am_build arm)"
    by (auto simp: MEASURED_ARMS_def dict_of_def)
qed

lemma replay_check_ok:
  assumes "saved regime = Some b" and "bu_regime b = Some regime"
    and "bu_case_hashes b = map (\<lambda>c. (case_id c, c)) cases"
    and "\<forall>a\<in>set MEASURED_ARMS. \<exists>arm. dict_of (bu_arms b) a = Some arm \<and> rn_builds run a = Some (am_build arm)"
    and "\<forall>q. previous = Some q \<longrightarrow> bu_session b \<noteq> bu_session q"
    and "cost_guard b policy estimator (panel_weights cases estimator) (Some (rn_id run)) requirement = Inr g"
  shows "replay_check run cases estimator policy requirement saved regime previous = Inr (b, g)"
proof -
  have "mapE (\<lambda>a. bindE (lookupE (dict_of (bu_arms b)) a) (\<lambda>arm.
      bindE (lookupE (rn_builds run) a) (\<lambda>build. guardE (am_build arm = build)
        (Incomplete ''Cost bundle build identities changed'')))) MEASURED_ARMS = Inr (map (\<lambda>_. ()) MEASURED_ARMS)"
    by (rule mapE_total) (use assms(4) in \<open>fastforce simp: lookupE_def\<close>)
  with assms show ?thesis by (simp add: replay_check_def split: option.split)
qed

text \<open>The saved bundle of every regime that was judged, each in a session of its own.\<close>

definition fresh_sessions :: "'e saved \<Rightarrow> bool" where
  "fresh_sessions saved \<longleftrightarrow> (\<forall>r r' b b'. saved r = Some b \<longrightarrow> saved r' = Some b' \<longrightarrow> r \<noteq> r' \<longrightarrow>
     bu_session b \<noteq> bu_session b')"

text \<open>One regime of the measurement: its bundle is saved and judged, and later regimes keep it.\<close>

definition judged ::
    "cost_run \<Rightarrow> tcase list \<Rightarrow> string \<Rightarrow> cost_policy \<Rightarrow> 'e requirement option \<Rightarrow> 'e saved \<Rightarrow> string
       \<Rightarrow> guard_result \<Rightarrow> bool" where
  "judged run cases estimator policy requirement saved regime g \<longleftrightarrow>
     (\<exists>b. saved regime = Some b \<and> bu_regime b = Some regime
        \<and> bu_case_hashes b = map (\<lambda>c. (case_id c, c)) cases
        \<and> (\<forall>a\<in>set MEASURED_ARMS. \<exists>arm. dict_of (bu_arms b) a = Some arm \<and> rn_builds run a = Some (am_build arm))
        \<and> cost_guard b policy estimator (panel_weights cases estimator) (Some (rn_id run)) requirement = Inr g)"

lemma judged_replay:
  assumes "judged run cases estimator policy requirement saved regime g" and "fresh_sessions saved"
    and "\<forall>q. previous = Some q \<longrightarrow> (\<exists>r. r \<noteq> regime \<and> saved r = Some q)"
  shows "\<exists>b. saved regime = Some b
    \<and> replay_check run cases estimator policy requirement saved regime previous = Inr (b, g)"
proof -
  obtain b where b: "saved regime = Some b" "bu_regime b = Some regime"
    "bu_case_hashes b = map (\<lambda>c. (case_id c, c)) cases"
    "\<forall>a\<in>set MEASURED_ARMS. \<exists>arm. dict_of (bu_arms b) a = Some arm \<and> rn_builds run a = Some (am_build arm)"
    "cost_guard b policy estimator (panel_weights cases estimator) (Some (rn_id run)) requirement = Inr g"
    using assms(1) by (auto simp: judged_def)
  have "\<forall>q. previous = Some q \<longrightarrow> bu_session b \<noteq> bu_session q"
    using assms(2,3) b(1) unfolding fresh_sessions_def by metis
  from replay_check_ok[where saved = saved and run = run and previous = previous, OF b(1-4) this b(5)] b(1) show ?thesis by blast
qed

lemma measure_from_step:
  assumes "measure_from lb run cases estimator policy p requirement guarded prev ((regime, n) # rest) (saved, w)
      = (Inr g, saved', w')"
    and "\<not> (regime = ''rerun'' \<and> \<not> guarded)" and "saved regime = None"
    and "fair_lab lb" and "distinct (map case_id cases)" and "COUNTS estimator \<noteq> None"
  shows "\<exists>b g1 w1. judged run cases estimator policy requirement (saved(regime \<mapsto> b)) regime g1
    \<and> (if goes_on regime g1
       then measure_from lb run cases estimator policy p requirement guarded (Some g1) rest (saved(regime \<mapsto> b), w1)
          = (Inr g, saved', w')
       else g = g1 \<and> saved' = saved(regime \<mapsto> b))"
proof -
  obtain b w1 g1 where r: "regime_bundle lb run cases estimator policy p requirement regime n saved w = (Inr b, w1)"
    and c: "cost_guard b policy estimator (panel_weights cases estimator) (Some (rn_id run)) requirement = Inr g1"
    and go: "(if goes_on regime g1
       then measure_from lb run cases estimator policy p requirement guarded (Some g1) rest (saved(regime \<mapsto> b), w1)
       else (Inr g1, saved(regime \<mapsto> b), w1)) = (Inr g, saved', w')"
    using assms(1,2) by (auto simp: Let_def split: prod.splits sum.splits)
  note f = regime_bundle_fresh[OF r assms(3-6)]
  have "judged run cases estimator policy requirement (saved(regime \<mapsto> b)) regime g1"
    using f c by (simp add: judged_def)
  with go show ?thesis by (auto split: if_splits)
qed

lemma judged_keep:
  "judged run cases estimator policy requirement saved r g \<Longrightarrow> r' \<noteq> r
    \<Longrightarrow> judged run cases estimator policy requirement (saved(r' \<mapsto> b)) r g"
  by (simp add: judged_def)

text \<open>The regimes that a measurement of an empty directory went through.\<close>

lemma measured_regimes:
  assumes "measure_panel lb run cases estimator policy requirement guarded (Map.empty, w) = (Inr g, saved, w')"
    and "fair_lab lb" and "distinct (map case_id cases)"
    and "regime_counts estimator (cq_protocol policy) = Inr counts"
  shows "\<exists>gs gn. (if map_of counts ''screen'' \<noteq> None
       then judged run cases estimator policy requirement saved ''screen'' gs
         \<and> (if gr_needs_full gs then judged run cases estimator policy requirement saved ''normal'' gn else gn = gs)
       else judged run cases estimator policy requirement saved ''normal'' gn)
     \<and> (if guarded \<and> gr_needs_rerun gn then judged run cases estimator policy requirement saved ''rerun'' g else g = gn)"
proof -
  let ?J = "judged run cases estimator policy requirement"
  obtain p where p: "cq_protocol policy = Some p"
    and m: "measure_from lb run cases estimator policy p requirement guarded None counts (Map.empty, w) = (Inr g, saved, w')"
    using assms(1,4) by (auto simp: measure_panel_def split: option.splits)
  obtain s n r where counts: "counts = (if s \<noteq> 0 then [(''screen'', s)] else []) @ [(''normal'', n), (''rerun'', r)]"
    using regime_counts_sorted[OF assms(4)] by blast
  have ok: "COUNTS estimator \<noteq> None" using assms(4) by (auto simp: regime_counts_def split: option.splits)
  note step = measure_from_step[OF _ _ _ assms(2,3) ok]
  have guard_rerun: "gr_needs_rerun g1 \<Longrightarrow> gr_regime g1 = ''normal''"
    and guard_full: "gr_needs_full g1 \<Longrightarrow> gr_regime g1 = ''screen''" and
    reg: "gr_regime g1 = regime" if "?J sv regime g1" for sv regime g1
    using that guard_estimates by (fastforce simp: judged_def guard_of_def Let_def)+
  have rerun: "if guarded then ?J saved ''rerun'' g \<and> (\<forall>q. q \<noteq> ''rerun'' \<longrightarrow> saved q = sv q)
      else g = g0 \<and> saved = sv"
    if "measure_from lb run cases estimator policy p requirement guarded (Some g0) [(''rerun'', r)] (sv, w1)
      = (Inr g, saved, w')" "sv ''rerun'' = None" for g0 sv w1
  proof (cases guarded)
    case True
    from step[OF that(1) _ that(2)] True show ?thesis by (auto simp: goes_on_def)
  next
    case False
    with that(1) show ?thesis by simp
  qed
  have normal: "\<exists>gn. ?J saved ''normal'' gn \<and> (\<forall>q. q \<noteq> ''rerun'' \<and> q \<noteq> ''normal'' \<longrightarrow> saved q = sv q)
      \<and> (if guarded \<and> gr_needs_rerun gn then ?J saved ''rerun'' g else g = gn)"
    if f: "measure_from lb run cases estimator policy p requirement guarded g0 [(''normal'', n), (''rerun'', r)] (sv, w1)
      = (Inr g, saved, w')" "sv ''rerun'' = None" "sv ''normal'' = None" for g0 sv w1
  proof -
    obtain b g1 w2 where b: "?J (sv(''normal'' \<mapsto> b)) ''normal'' g1"
      "if goes_on ''normal'' g1
       then measure_from lb run cases estimator policy p requirement guarded (Some g1) [(''rerun'', r)]
          (sv(''normal'' \<mapsto> b), w2) = (Inr g, saved, w')
       else g = g1 \<and> saved = sv(''normal'' \<mapsto> b)"
      using step[OF f(1) _ f(3)] by auto
    have go: "goes_on ''normal'' g1 = gr_needs_rerun g1" by (simp add: goes_on_def)
    show ?thesis
    proof (cases "gr_needs_rerun g1")
      case True
      then have "measure_from lb run cases estimator policy p requirement guarded (Some g1) [(''rerun'', r)]
          (sv(''normal'' \<mapsto> b), w2) = (Inr g, saved, w')" using b(2) go by simp
      from rerun[OF this] f(2) have r: "if guarded
          then ?J saved ''rerun'' g \<and> (\<forall>q. q \<noteq> ''rerun'' \<longrightarrow> saved q = (sv(''normal'' \<mapsto> b)) q)
          else g = g1 \<and> saved = sv(''normal'' \<mapsto> b)" by simp
      have "?J saved ''normal'' g1"
        using b(1) r by (cases guarded) (simp_all add: judged_def)
      with r True show ?thesis by (intro exI[of _ g1]) (auto split: if_splits)
    next
      case False
      with b go show ?thesis by (intro exI[of _ g1]) auto
    qed
  qed
  show ?thesis
  proof (cases "s = 0")
    case True
    then have "map_of counts ''screen'' = None" using counts by simp
    moreover have m1: "measure_from lb run cases estimator policy p requirement guarded None
        [(''normal'', n), (''rerun'', r)] (Map.empty, w) = (Inr g, saved, w')"
      using m counts True by simp
    ultimately show ?thesis using normal[OF m1] by (simp only: if_False not_True_eq_False simp_thms) blast
  next
    case False
    then have sc: "map_of counts ''screen'' \<noteq> None" using counts by simp
    obtain b gs w2 where b: "?J ((Map.empty :: 'a saved)(''screen'' \<mapsto> b)) ''screen'' gs"
      "if goes_on ''screen'' gs
       then measure_from lb run cases estimator policy p requirement guarded (Some gs) [(''normal'', n), (''rerun'', r)]
          (Map.empty(''screen'' \<mapsto> b), w2) = (Inr g, saved, w')
       else g = gs \<and> saved = Map.empty(''screen'' \<mapsto> b)"
    proof -
      have m1: "measure_from lb run cases estimator policy p requirement guarded None
          ((''screen'', s) # [(''normal'', n), (''rerun'', r)]) (Map.empty, w) = (Inr g, saved, w')"
        using m counts False by simp
      have "\<not> (''screen'' = ''rerun'' \<and> \<not> guarded)" "Map.empty ''screen'' = None" by simp_all
      from step[OF m1 this] show ?thesis using that by blast
    qed
    show ?thesis
    proof (cases "gr_needs_full gs")
      case True
      then have m2: "measure_from lb run cases estimator policy p requirement guarded (Some gs)
          [(''normal'', n), (''rerun'', r)] (Map.empty(''screen'' \<mapsto> b), w2) = (Inr g, saved, w')"
        using b(2) by (simp add: goes_on_def)
      have "(Map.empty(''screen'' \<mapsto> b)) ''rerun'' = None" "(Map.empty(''screen'' \<mapsto> b)) ''normal'' = None" by simp_all
      from normal[OF m2 this] obtain gn where gn: "?J saved ''normal'' gn"
        "\<forall>q. q \<noteq> ''rerun'' \<and> q \<noteq> ''normal'' \<longrightarrow> saved q = (Map.empty(''screen'' \<mapsto> b)) q"
        "if guarded \<and> gr_needs_rerun gn then ?J saved ''rerun'' g else g = gn" by blast
      have sv: "saved ''screen'' = Some b" using gn(2)[rule_format, of "''screen''"] by simp
      have "?J saved ''screen'' gs" using b(1) sv by (simp add: judged_def)
      with sc True gn(1,3) show ?thesis by (intro exI[of _ gs] exI[of _ gn]) simp
    next
      case full: False
      then have "g = gs" "saved = Map.empty(''screen'' \<mapsto> b)" using b(2) by (simp_all add: goes_on_def)
      moreover have "\<not> gr_needs_rerun gs" using guard_rerun[OF b(1)] reg[OF b(1)] by auto
      ultimately show ?thesis using sc full b(1) by (intro exI[of _ gs] exI[of _ gs]) simp
    qed
  qed
qed

text \<open>
  C21. \<open>decide\<close> recomputes from the raw bundles exactly what the cost stage recorded: replaying the
  bundles that a measurement of an empty directory saved gives the measured result, for guarded and
  report-only panels, whether or not the regimes were escalated.
\<close>

theorem replay_reproduces_measurement:
  assumes "measure_panel lb run cases estimator policy requirement guarded (Map.empty, w) = (Inr g, saved, w')"
    and "fair_lab lb" and "distinct (map case_id cases)" and "fresh_sessions saved"
    and "regime_counts estimator (cq_protocol policy) = Inr counts"
  shows "replay_panel run cases estimator policy requirement guarded counts saved = Inr g"
proof -
  let ?J = "judged run cases estimator policy requirement saved"
  let ?C = "replay_check run cases estimator policy requirement saved"
  obtain gs gn where j: "if map_of counts ''screen'' \<noteq> None
       then ?J ''screen'' gs \<and> (if gr_needs_full gs then ?J ''normal'' gn else gn = gs)
       else ?J ''normal'' gn"
    "if guarded \<and> gr_needs_rerun gn then ?J ''rerun'' g else g = gn"
    using measured_regimes[OF assms(1-3,5)] by blast
  note rep = judged_replay[OF _ assms(4)]
  have "\<exists>r b. r \<noteq> ''rerun'' \<and> saved r = Some b \<and> (if map_of counts ''screen'' \<noteq> None
        then bindE (?C ''screen'' None) (\<lambda>(b, g). if gr_needs_full g then ?C ''normal'' (Some b) else Inr (b, g))
        else ?C ''normal'' None) = Inr (b, gn)"
  proof (cases "map_of counts ''screen'' = None")
    case True
    with j(1) have "?J ''normal'' gn" by simp
    from rep[OF this, of None] obtain b where "saved ''normal'' = Some b" "?C ''normal'' None = Inr (b, gn)" by auto
    with True show ?thesis by (intro exI[of _ "''normal''"] exI[of _ b]) simp
  next
    case False
    with j(1) have "?J ''screen'' gs" by simp
    from rep[OF this, of None] obtain b where b: "saved ''screen'' = Some b" "?C ''screen'' None = Inr (b, gs)" by auto
    show ?thesis
    proof (cases "gr_needs_full gs")
      case True
      have "?J ''normal'' gn" using j(1) False True by simp
      moreover have "\<exists>r. r \<noteq> ''normal'' \<and> saved r = Some b" using b(1) by (intro exI[of _ "''screen''"]) simp
      ultimately obtain c where c: "saved ''normal'' = Some c" "?C ''normal'' (Some b) = Inr (c, gn)"
        using rep[of run cases estimator policy requirement "''normal''" gn "Some b"] by blast
      with b False True show ?thesis by (intro exI[of _ "''normal''"] exI[of _ c]) simp
    next
      case full: False
      with j(1) False have "gn = gs" by simp
      with b False full show ?thesis by (intro exI[of _ "''screen''"] exI[of _ b]) simp
    qed
  qed
  then obtain r b where rb: "r \<noteq> ''rerun''" "saved r = Some b" and first: "(if map_of counts ''screen'' \<noteq> None
        then bindE (?C ''screen'' None) (\<lambda>(b, g). if gr_needs_full g then ?C ''normal'' (Some b) else Inr (b, g))
        else ?C ''normal'' None) = Inr (b, gn)" by blast
  show ?thesis
  proof (cases "guarded \<and> gr_needs_rerun gn")
    case True
    then have "?J ''rerun'' g" using j(2) by simp
    from rep[OF this, of "Some b"] rb obtain c where "saved ''rerun'' = Some c" "?C ''rerun'' (Some b) = Inr (c, g)"
      by auto
    with True show ?thesis unfolding replay_panel_def Let_def first by simp
  next
    case False
    then have "g = gn" using j(2) by (simp split: if_splits)
    with False show ?thesis unfolding replay_panel_def Let_def first by auto
  qed
qed

section \<open>Sessions are fresh\<close>

text \<open>
  \<open>uuid4\<close> never repeats an identifier: \<open>issued\<close> are the identifiers handed out before a state of the world,
  and nothing the stage calls takes one back.
\<close>

definition unique_ids :: "('w, 'r, 'e) lab \<Rightarrow> ('w \<Rightarrow> string set) \<Rightarrow> bool" where
  "unique_ids lb issued \<longleftrightarrow>
     (\<forall>w. fst (lb_uuid lb w) \<notin> issued w \<and> insert (fst (lb_uuid lb w)) (issued w) \<subseteq> issued (snd (lb_uuid lb w)))
     \<and> (\<forall>arm job i w. issued w \<subseteq> issued (snd (lb_run lb arm job i w)))
     \<and> (\<forall>t w. issued w \<subseteq> issued (lb_sleep lb t w))
     \<and> (\<forall>mo i w. lb_monitor lb = Some mo \<longrightarrow>
          issued w \<subseteq> issued (snd (mo_begin mo i w)) \<and> issued w \<subseteq> issued (snd (mo_end mo i w)))"

lemma foldS_issued:
  assumes "\<And>x m. x \<in> set xs \<Longrightarrow> issued (me_w m) \<subseteq> issued (me_w (snd (f x m)))"
  shows "issued (me_w m) \<subseteq> issued (me_w (snd (foldS f xs m)))"
  by (rule foldS_snd[where P = "\<lambda>t. issued (me_w m) \<subseteq> issued (me_w t)"]) (use assms in blast)+

lemma bindS_issued:
  assumes "issued (me_w m) \<subseteq> issued (me_w (snd p))"
    and "\<And>a t. issued (me_w t) \<subseteq> issued (me_w (snd (f a t)))"
  shows "issued (me_w m) \<subseteq> issued (me_w (snd (bindS p f)))"
  by (rule bindS_snd[where P = "\<lambda>t. issued (me_w m) \<subseteq> issued (me_w t)"]) (use assms in blast)+

lemma collect_issued:
  assumes "unique_ids lb issued"
  shows "issued (me_w m) \<subseteq> issued (me_w (snd (collect lb arm job i ws m)))"
proof -
  obtain got w where r: "lb_run lb arm job i (me_w m) = (got, w)" by fastforce
  have "issued (me_w m) \<subseteq> issued (snd (lb_run lb arm job i (me_w m)))"
    using assms by (simp add: unique_ids_def)
  then show ?thesis by (cases got) (auto simp: collect_def r)
qed

lemma take_row_w [simp]: "me_w (snd (take_row estimator arm c seed rows m)) = me_w m"
  by (simp add: take_row_def add_sample_def split: sum.split)

lemma shuffled_w: "shuffled lb arms m = (order, m') \<Longrightarrow> me_w m' = me_w m"
  by (auto simp: shuffled_def split: prod.splits)

lemma timing_round_issued:
  assumes "unique_ids lb issued"
  shows "issued (me_w m) \<subseteq> issued (me_w (snd (timing_round lb cases arms p rnd m)))"
proof -
  obtain order m1 where s: "shuffled lb arms m = (order, m1)" by fastforce
  show ?thesis
  proof (cases "timing_batch_job cases p")
    case (Inr job)
    have "issued (me_w m1) \<subseteq> issued (me_w (snd (timing_round lb cases arms p rnd m)))"
      unfolding timing_round_def s Let_def prod.case Inr sum.case
      by (intro foldS_issued bindS_issued collect_issued[OF assms]) (auto split: prod.split)
    then show ?thesis by (simp add: shuffled_w[OF s])
  qed (simp add: timing_round_def s shuffled_w[OF s])
qed

lemma case_round_issued:
  assumes "unique_ids lb issued"
  shows "issued (me_w m) \<subseteq> issued (me_w (snd (case_round lb estimator arms p rnd c m)))"
proof -
  obtain order m1 where s: "shuffled lb arms m = (order, m1)" by fastforce
  have "issued (me_w m1) \<subseteq> issued (me_w (snd (case_round lb estimator arms p rnd c m)))"
    unfolding case_round_def s Let_def prod.case
    by (intro foldS_issued bindS_issued collect_issued[OF assms]) auto
  then show ?thesis by (simp add: shuffled_w[OF s])
qed

lemma measure_rounds_issued:
  assumes "unique_ids lb issued"
  shows "issued (me_w m) \<subseteq> issued (me_w (snd (measure_rounds lb cases estimator n arms p m)))"
  unfolding measure_rounds_def
  by (rule foldS_issued) (simp add: timing_round_issued[OF assms] foldS_issued case_round_issued[OF assms])

lemma wait_quiet_issued:
  assumes "unique_ids lb issued"
  shows "issued w \<subseteq> issued (snd (wait_quiet n lb d w))"
proof (induction n arbitrary: w)
  case (Suc n)
  have "issued w \<subseteq> issued (lb_sleep lb 10 w)" using assms by (simp add: unique_ids_def)
  with Suc[of "lb_sleep lb 10 w"] show ?case by (subst wait_quiet.simps) auto
qed (subst wait_quiet.simps, simp)

lemma session_issued:
  assumes "unique_ids lb issued"
  shows "issued w \<subseteq> issued (snd (begin_session lb i w))" and "issued w \<subseteq> issued (snd (end_session lb i w))"
proof -
  show "issued w \<subseteq> issued (snd (begin_session lb i w))"
    using assms wait_quiet_issued[OF assms]
    by (cases "lb_monitor lb") (simp_all add: begin_session_def wait_until_quiet_def unique_ids_def)
  show "issued w \<subseteq> issued (snd (end_session lb i w))"
  proof (cases "lb_monitor lb")
    case (Some mo)
    then have "issued w \<subseteq> issued (snd (mo_end mo i w))" using assms by (simp add: unique_ids_def)
    moreover have "snd (end_session lb i w) = snd (mo_end mo i w)"
      using Some by (simp add: end_session_def split: prod.split sum.split)
    ultimately show ?thesis by simp
  qed (simp add: end_session_def)
qed

text \<open>A bundle that is measured now has a session that was not issued before.\<close>

lemma collect_panel_session:
  fixes lb :: "('w, 'r, 'e) lab"
  assumes "unique_ids lb issued" and "collect_panel lb run cases estimator n arms p w = (Inr b, w')"
  shows "bu_session b \<notin> issued w" and "insert (bu_session b) (issued w) \<subseteq> issued w'"
proof -
  have up: "fst (lb_uuid lb v) \<notin> issued v" "insert (fst (lb_uuid lb v)) (issued v) \<subseteq> issued (snd (lb_uuid lb v))" for v
    using assms(1) by (simp_all add: unique_ids_def)
  obtain session w1 id1 w2 id2 w3 w4 m rows ev where
    u: "lb_uuid lb w = (session, w1)" "lb_uuid lb w1 = (id1, w2)" "lb_uuid lb w2 = (id2, w3)"
    and c: "begin_session lb session w3 = (Inr (), w4)"
    and m: "measure_rounds lb cases estimator n arms p
       \<lparr>me_rng = lb_rng lb (interleaving_seed lb (rn_id run) cases estimator n arms),
         me_samples = (\<lambda>_ _. first_samples estimator), me_jobs = [], me_w = w4\<rparr> = (Inr (), m)"
    and es: "end_session lb session (me_w m) = (Inr ev, w')" and b: "bu_session b = session"
    by (rule collect_panel_parts[OF assms(2)]) auto
  show "bu_session b \<notin> issued w" using up(1)[of w] u(1) b by simp
  have "insert session (issued w) \<subseteq> issued w3" using up(2)[of w] up(2)[of w1] up(2)[of w2] u by auto
  also have "\<dots> \<subseteq> issued w4" using session_issued(1)[OF assms(1), of w3 session] c by simp
  also have "\<dots> \<subseteq> issued (me_w m)"
    using measure_rounds_issued[where m = "\<lparr>me_rng = lb_rng lb (interleaving_seed lb (rn_id run) cases estimator n arms),
         me_samples = (\<lambda>_ _. first_samples estimator), me_jobs = [], me_w = w4\<rparr>", OF assms(1)] m by (metis meas.select_convs(4) snd_conv)
  also have "\<dots> \<subseteq> issued w'" using session_issued(2)[OF assms(1), of "me_w m" session] es by simp
  finally show "insert (bu_session b) (issued w) \<subseteq> issued w'" unfolding b .
qed

lemma regime_bundle_session:
  assumes "unique_ids lb issued" and "saved regime = None"
    and "regime_bundle lb run cases estimator policy p requirement regime n saved w = (Inr b, w')"
  shows "bu_session b \<notin> issued w" and "insert (bu_session b) (issued w) \<subseteq> issued w'"
proof -
  obtain b0 t where "collect_panel lb run cases estimator n MEASURED_ARMS p w = (Inr b0, w')"
    and "b = b0\<lparr>bu_regime := Some regime, bu_thresholds := Some t\<rparr>"
    using assms(2,3) by (auto simp: regime_bundle_def reusable_def bindS_Inr split: option.splits)
  with collect_panel_session[OF assms(1)]
  show "bu_session b \<notin> issued w" "insert (bu_session b) (issued w) \<subseteq> issued w'" by auto
qed

lemma measure_from_fresh:
  assumes "unique_ids lb issued"
    and "measure_from lb run cases estimator policy p requirement guarded prev counts (saved, w) = (r, saved', w')"
    and "fresh_sessions saved" and "\<forall>q b. saved q = Some b \<longrightarrow> bu_session b \<in> issued w"
    and "distinct (map fst counts)" and "\<forall>q\<in>set (map fst counts). saved q = None"
  shows "fresh_sessions saved'"
  using assms(2-6)
proof (induction counts arbitrary: prev saved w)
  case (Cons c counts)
  obtain regime n where c: "c = (regime, n)" by fastforce
  obtain got w1 where g: "regime_bundle lb run cases estimator policy p requirement regime n saved w = (got, w1)"
    by fastforce
  show ?case
  proof (cases "(regime = ''rerun'' \<and> \<not> guarded) \<or> (\<exists>e. got = Inl e)")
    case True
    with Cons.prems(1,2) c g show ?thesis by (auto split: if_splits)
  next
    case False
    then obtain b where got: "got = Inr b" and go: "\<not> (regime = ''rerun'' \<and> \<not> guarded)" by (cases got) auto
    have none: "saved regime = None" using Cons.prems(5) c by simp
    note n = regime_bundle_session[OF assms(1) none g[unfolded got]]
    have f: "fresh_sessions (saved(regime \<mapsto> b))"
      using Cons.prems(2,3) n(1) unfolding fresh_sessions_def by (auto split: if_splits) metis+
    have i: "\<forall>q b'. (saved(regime \<mapsto> b)) q = Some b' \<longrightarrow> bu_session b' \<in> issued w1"
      using Cons.prems(3) n(2) by auto
    have d: "distinct (map fst counts)" "\<forall>q\<in>set (map fst counts). (saved(regime \<mapsto> b)) q = None"
      using Cons.prems(4,5) c by auto
    have "saved' = saved(regime \<mapsto> b) \<or> (\<exists>prev'. measure_from lb run cases estimator policy p requirement guarded
        prev' counts (saved(regime \<mapsto> b), w1) = (r, saved', w'))"
      using Cons.prems(1) go unfolding c by (auto simp: g got Let_def split: sum.splits if_splits)
    then show ?thesis using f Cons.IH[OF _ f i d] by blast
  qed
qed simp

text \<open>A measurement of an empty directory saves every regime in a session of its own.\<close>

lemma measured_sessions_fresh:
  assumes "measure_panel lb run cases estimator policy requirement guarded (Map.empty, w) = (r, saved, w')"
    and "unique_ids lb issued"
  shows "fresh_sessions saved"
proof -
  have empty: "fresh_sessions Map.empty" by (simp add: fresh_sessions_def)
  have "saved = Map.empty \<or> (\<exists>p counts. regime_counts estimator (Some p) = Inr counts
      \<and> measure_from lb run cases estimator policy p requirement guarded None counts (Map.empty, w) = (r, saved, w'))"
    using assms(1) by (auto simp: measure_panel_def split: option.splits sum.splits)
  then show ?thesis
  proof (elim disjE exE conjE)
    fix p counts
    assume c: "regime_counts estimator (Some p) = Inr counts"
      and m: "measure_from lb run cases estimator policy p requirement guarded None counts (Map.empty, w) = (r, saved, w')"
    have "distinct (map fst counts)" using regime_counts_sorted[OF c] by auto
    from measure_from_fresh[OF assms(2) m empty _ this] show ?thesis by simp
  qed (simp add: empty)
qed

text \<open>
  C23. A single noisy session never fails a panel: a measurement that ends \<open>failed\<close> is of a guarded panel, and
  two bundles measured in different sessions, the full measurement and a rerun with more samples, were both
  judged and both found a breach.
\<close>

theorem failure_needs_two_breaches:
  assumes "measure_panel lb run cases estimator policy requirement guarded (Map.empty, w) = (Inr g, saved, w')"
    and "fair_lab lb" and "unique_ids lb issued" and "distinct (map case_id cases)"
    and "regime_counts estimator (cq_protocol policy) = Inr counts" and "gr_result g = ''failed''"
  shows "guarded \<and> (\<exists>b1 b2 g1. saved ''normal'' = Some b1 \<and> saved ''rerun'' = Some b2
    \<and> bu_session b1 \<noteq> bu_session b2
    \<and> cost_guard b1 policy estimator (panel_weights cases estimator) (Some (rn_id run)) requirement = Inr g1
    \<and> cost_guard b2 policy estimator (panel_weights cases estimator) (Some (rn_id run)) requirement = Inr g
    \<and> cd_breached (gr_candidate g1) \<and> cd_breached (gr_candidate g) \<and> gr_count g1 < gr_count g)"
proof -
  let ?J = "judged run cases estimator policy requirement saved"
  obtain gs gn where j: "if map_of counts ''screen'' \<noteq> None
       then ?J ''screen'' gs \<and> (if gr_needs_full gs then ?J ''normal'' gn else gn = gs)
       else ?J ''normal'' gn"
    "if guarded \<and> gr_needs_rerun gn then ?J ''rerun'' g else g = gn"
    using measured_regimes[OF assms(1,2,4,5)] by blast
  have shape: "\<exists>t c. thresholds policy estimator regime = Inr t \<and> g1 = guard_of regime t c"
    if "?J regime g1" for regime g1
    using that guard_estimates by (fastforce simp: judged_def)
  have notfail: "gr_result g1 \<noteq> ''failed''" if "?J regime g1" "regime \<noteq> ''rerun''" for regime g1
    using shape[OF that(1)] that(2) by (auto simp: guard_of_def Let_def split: if_splits)
  have gn: "?J ''normal'' gn \<or> ?J ''screen'' gn" using j(1) by (auto split: if_splits)
  then have "gr_result gn \<noteq> ''failed''" using notfail by auto
  then have esc: "guarded" "gr_needs_rerun gn" "?J ''rerun'' g" using j(2) assms(6) by (auto split: if_splits)
  have norm: "?J ''normal'' gn" using gn shape[of "''screen''" gn] esc(2) by (auto simp: guard_of_def Let_def)
  obtain t1 c1 where t1: "thresholds policy estimator ''normal'' = Inr t1" "gn = guard_of ''normal'' t1 c1"
    using shape[OF norm] by blast
  obtain t2 c2 where t2: "thresholds policy estimator ''rerun'' = Inr t2" "g = guard_of ''rerun'' t2 c2"
    using shape[OF esc(3)] by blast
  have counts: "map_of counts ''normal'' = Some (th_count t1)" "map_of counts ''rerun'' = Some (th_count t2)"
    using t1(1) t2(1) assms(5) by (auto simp: thresholds_def bindE_Inr_iff split: option.splits)
  have "th_count t1 < th_count t2"
    using regime_counts_sorted[OF assms(5)] counts by (auto split: if_splits)
  moreover have "cd_breached c1" using esc(2) t1(2) by (simp add: guard_of_def Let_def)
  moreover have "cd_breached c2" using assms(6) t2(2) by (auto simp: guard_of_def Let_def split: if_splits)
  ultimately have "cd_breached (gr_candidate gn) \<and> cd_breached (gr_candidate g) \<and> gr_count gn < gr_count g"
    using t1(2) t2(2) by (simp add: guard_of_def Let_def)
  moreover obtain b1 b2 where b: "saved ''normal'' = Some b1" "saved ''rerun'' = Some b2"
    "cost_guard b1 policy estimator (panel_weights cases estimator) (Some (rn_id run)) requirement = Inr gn"
    "cost_guard b2 policy estimator (panel_weights cases estimator) (Some (rn_id run)) requirement = Inr g"
    using norm esc(3) by (auto simp: judged_def)
  moreover have "bu_session b1 \<noteq> bu_session b2"
    using measured_sessions_fresh[OF assms(1,3)] b(1,2) unfolding fresh_sessions_def by fastforce
  ultimately show ?thesis using esc(1) by blast
qed


section \<open>Witnesses\<close>

text \<open>A laboratory whose evolved build takes twice as long as the baseline.\<close>


definition demo_lab :: "(nat, nat, nat) lab" where
  "demo_lab = \<lparr>lb_run = (\<lambda>arm job i w. (Inr (map (\<lambda>s. \<lparr>wr_seed = s, wr_status = ''ok'', wr_error = [],
       wr_samples = Some [if arm = ''evolved'' then 200 else 100], wr_rss = None\<rparr>) (cj_seeds job)), Suc w)),
     lb_digest = (\<lambda>_. 7), lb_short = (\<lambda>s. s), lb_rng = (\<lambda>s. s), lb_shuffle = (\<lambda>r xs. (xs, Suc r)),
     lb_uuid = (\<lambda>w. (show_nat w, Suc w)), lb_load = (\<lambda>_. 0), lb_cpus = Some 4, lb_clock = (\<lambda>w. w),
     lb_sleep = (\<lambda>t w. w + t), lb_monitor = None\<rparr>"

definition demo_cost_case :: tcase where
  "demo_cost_case = (demo_case ''a'' ''scored'' 1)\<lparr>panel := Some ''timing'', modes := [''timing_reuse'']\<rparr>"

definition demo_protocol :: cost_protocol where
  "demo_protocol = \<lparr>cp_multiplier = Some 2, cp_timing = Some 1, cp_screen = None, cp_companion = None,
     cp_memory = None, cp_warmups = 1, cp_minimum_calls = 1, cp_minimum_ns = 1\<rparr>"

definition demo_fixed :: cost_thresholds where
  "demo_fixed = \<lparr>ct_panel_ratio = 2, ct_screen_fraction = 1 / 2, ct_case_ratio = 3 / 2, ct_floor_bytes = 10, ct_floor_ns = 10\<rparr>"

definition demo_cost_policy :: cost_policy where
  "demo_cost_policy = \<lparr>cq_thresholds = Some demo_fixed, cq_protocol = Some demo_protocol\<rparr>"

definition demo_cost_run :: cost_run where
  "demo_cost_run = \<lparr>rn_id = ''r'', rn_profile = ''iterate-profile'', rn_scope = None, rn_changed = None,
     rn_builds = [''baseline'' \<mapsto> ''b1'', ''evolved'' \<mapsto> ''b2'']\<rparr>"

lemmas demo_defs = demo_lab_def demo_cost_case_def demo_protocol_def demo_cost_policy_def demo_cost_run_def demo_case_def

lemma demo_job: "timing_batch_job [demo_cost_case] demo_protocol = Inr \<lparr>cj_mode = ''timing_batch'', cj_case = None,
   cj_batch = [(demo_cost_case, ''timing_reuse'', 0)], cj_seeds = [0], cj_timeout = 600, cj_protocol = Some (1, 1, 1)\<rparr>"
  by (simp add: timing_batch_job_def demo_defs protocol_fields_def guardE_def)


lemma demo_lab_sel [simp]:
  "lb_run demo_lab arm job i w = (Inr (map (\<lambda>s. \<lparr>wr_seed = s, wr_status = ''ok'', wr_error = [],
       wr_samples = Some [if arm = ''evolved'' then 200 else 100], wr_rss = None\<rparr>) (cj_seeds job)), Suc w)"
  "lb_monitor demo_lab = None" "\<not> too_busy demo_lab w" "lb_shuffle demo_lab r xs = (xs, Suc r)"
  "lb_uuid demo_lab w = (show_nat w, Suc w)"
  by (simp_all add: demo_lab_def too_busy_def)

lemma demo_cost_case_id [simp]: "case_id demo_cost_case = ''a''"
  by (simp add: demo_cost_case_def demo_case_def)

definition demo_after :: "nat \<Rightarrow> (nat, nat) meas \<Rightarrow> (nat, nat) meas" where
  "demo_after rnd m = \<lparr>me_rng = Suc (me_rng m),
     me_samples = (\<lambda>a c. if c = ''a'' \<and> a = ''baseline'' then put_sample 0 (Calls [100]) (me_samples m a c)
       else if c = ''a'' \<and> a = ''evolved'' then put_sample 0 (Calls [200]) (me_samples m a c) else me_samples m a c),
     me_jobs = me_jobs m @ [(show_nat rnd @ ''-batch-baseline'', ''baseline''), (show_nat rnd @ ''-batch-evolved'', ''evolved'')],
     me_w = Suc (Suc (me_w m))\<rparr>"

lemma demo_round: "timing_round demo_lab [demo_cost_case] MEASURED_ARMS demo_protocol rnd m = (Inr (), demo_after rnd m)"
  by (cases m) (simp add: timing_round_def shuffled_def demo_job MEASURED_ARMS_def collect_def bindS_def rows_by_seed_def
    take_row_def add_sample_def value_of_def lookupE_def dict_of_def guardE_def demo_after_def fun_eq_iff)

lemma demo_measured:
  "measure_rounds demo_lab [demo_cost_case] ''timing'' 1 MEASURED_ARMS demo_protocol m = (Inr (), demo_after 0 m)"
  "measure_rounds demo_lab [demo_cost_case] ''timing'' 2 MEASURED_ARMS demo_protocol m = (Inr (), demo_after 1 (demo_after 0 m))"
  by (simp_all add: measure_rounds_def demo_round bindS_def upt_rec numeral_2_eq_2)

lemma demo_fair: "fair_lab demo_lab"
  using show_nat_inj by (fastforce simp: fair_lab_def)

lemma demo_unique: "unique_ids demo_lab (\<lambda>w. show_nat ` {..<w})"
  by (auto simp: unique_ids_def less_Suc_eq demo_lab_def dest!: show_nat_inj)

lemma demo_counts: "regime_counts ''timing'' (Some demo_protocol) = Inr [(''normal'', 1), (''rerun'', 2)]"
  by (simp add: regime_counts_def COUNTS_def demo_protocol_def or_default_def)

lemma demo_zip: "zip MEASURED_ARMS [a, b] = [(''baseline'', a), (''evolved'', b)]"
  by (simp add: MEASURED_ARMS_def)

definition demo_arm :: "nat \<Rightarrow> nat \<Rightarrow> nat \<Rightarrow> string \<Rightarrow> real \<Rightarrow> cost_arm" where
  "demo_arm n w i build x = \<lparr>am_id = show_nat i, am_session = show_nat w, am_build = build,
     am_samples = [(''a'', Rounds (replicate n [x]))]\<rparr>"

lemma demo_session: "begin_session demo_lab session w = (Inr (), w)" "end_session demo_lab session w = (Inr None, w)"
proof -
  show "begin_session demo_lab session w = (Inr (), w)"
    by (simp add: begin_session_def wait_until_quiet_def, subst wait_quiet.simps, simp)
qed (simp add: end_session_def)

lemma demo_rows: "mapE (bundle_arm session smp [demo_cost_case] (rn_builds demo_cost_run)) (zip MEASURED_ARMS [i, j])
    = Inr [(''baseline'', \<lparr>am_id = i, am_session = session, am_build = ''b1'', am_samples = [(''a'', smp ''baseline'' ''a'')]\<rparr>),
       (''evolved'', \<lparr>am_id = j, am_session = session, am_build = ''b2'', am_samples = [(''a'', smp ''evolved'' ''a'')]\<rparr>)]"
  by (simp add: bundle_arm_def lookupE_def demo_cost_run_def demo_zip)

definition demo_start :: "nat \<Rightarrow> nat \<Rightarrow> (nat, nat) meas" where
  "demo_start seed w = \<lparr>me_rng = lb_rng demo_lab seed, me_samples = (\<lambda>_ _. first_samples ''timing''), me_jobs = [], me_w = w\<rparr>"

lemma demo_filled:
  "me_samples (demo_after 0 (demo_start s w)) ''baseline'' ''a'' = Rounds [[100]]"
  "me_samples (demo_after 0 (demo_start s w)) ''evolved'' ''a'' = Rounds [[200]]"
  "me_samples (demo_after 1 (demo_after 0 (demo_start s w))) ''baseline'' ''a'' = Rounds [[100], [100]]"
  "me_samples (demo_after 1 (demo_after 0 (demo_start s w))) ''evolved'' ''a'' = Rounds [[200], [200]]"
  "me_w (demo_after k m) = Suc (Suc (me_w m))"
  by (simp_all add: demo_after_def demo_start_def first_samples_def)

definition demo_bundle :: "nat \<Rightarrow> nat \<Rightarrow> nat \<Rightarrow> (string \<times> string) list \<Rightarrow> nat cost_bundle" where
  "demo_bundle n w seed jobs = \<lparr>bu_complete = True,
     bu_arms = [(''baseline'', demo_arm n w (Suc w) ''b1'' 100), (''evolved'', demo_arm n w (Suc (Suc w)) ''b2'' 200)],
     bu_run_id = ''r'', bu_session = show_nat w, bu_thresholds = None, bu_estimator = Some ''timing'', bu_regime = None,
     bu_case_hashes = [(''a'', demo_cost_case)], bu_mode = ''machine'', bu_seed = seed, bu_jobs = jobs, bu_monitor = None\<rparr>"

lemma demo_collect:
  "\<exists>seed jobs. collect_panel demo_lab demo_cost_run [demo_cost_case] ''timing'' 1 MEASURED_ARMS demo_protocol w
      = (Inr (demo_bundle 1 w seed jobs), w + 5)"
  "\<exists>seed jobs. collect_panel demo_lab demo_cost_run [demo_cost_case] ''timing'' 2 MEASURED_ARMS demo_protocol w
      = (Inr (demo_bundle 2 w seed jobs), w + 7)"
  unfolding collect_panel_def Let_def demo_lab_sel prod.case demo_session bindS_def sum.case demo_start_def[symmetric]
    demo_measured demo_rows demo_filled
  by (simp_all add: demo_bundle_def demo_arm_def numeral_2_eq_2 monitor_mode_def demo_cost_run_def demo_start_def)

lemma demo_thresholds:
  "thresholds demo_cost_policy ''timing'' ''normal'' = Inr \<lparr>th_count = 1, th_noise_panel = ln 2, th_case_ratio = 3 / 2, th_floor = 10\<rparr>"
  "thresholds demo_cost_policy ''timing'' ''rerun'' = Inr \<lparr>th_count = 2, th_noise_panel = ln 2, th_case_ratio = 3 / 2, th_floor = 10\<rparr>"
  using demo_counts by (simp_all add: thresholds_def demo_cost_policy_def demo_fixed_def log_real_def)

lemma demo_estimates: "n = 1 \<or> n = 2 \<Longrightarrow> 0 < x \<Longrightarrow> arm_estimates ''timing'' (demo_arm n w i build x) = Inr [''a'' \<mapsto> x]"
  by (auto simp: arm_estimates_def demo_arm_def cost_estimate_def no_samples_def timing_estimate_def positive_median_def
    median_def dict_of_def numeral_2_eq_2)

lemma demo_guard:
  assumes "bu_arms b = [(''baseline'', demo_arm n w i ''b1'' 100), (''evolved'', demo_arm n w j ''b2'' 200)]"
    and "bu_complete b" "bu_run_id b = ''r''" "bu_session b = show_nat w" "bu_estimator b = Some ''timing''"
    and "i \<noteq> j" and "n = 1 \<and> regime = ''normal'' \<or> n = 2 \<and> regime = ''rerun''"
  shows "\<exists>g. cost_guard (b\<lparr>bu_regime := Some regime, bu_thresholds := Some demo_fixed\<rparr>) demo_cost_policy ''timing''
      (panel_weights [demo_cost_case] ''timing'') (Some ''r'') None = Inr g \<and> cd_breached (gr_candidate g)
      \<and> gr_regime g = regime \<and> gr_needs_rerun g = (regime = ''normal'') \<and> (regime = ''rerun'' \<longrightarrow> gr_result g = ''failed'')"
proof -
  have w: "panel_weights [demo_cost_case] ''timing'' = [(''a'', 1)]" by (simp add: panel_weights_def)
  have ids: "show_nat i \<noteq> show_nat j" using assms(6) show_nat_inj by blast
  obtain t where t: "thresholds demo_cost_policy ''timing'' regime = Inr t" "th_count t = int n" "th_case_ratio t = 3 / 2" "th_floor t = 10"
    using assms(7) demo_thresholds by auto
  have arm: "check_arm ''timing'' (int n) [(''a'', 1)] (demo_arm n w k build x) = Inr ()" for k build x
    by (simp add: check_arm_def demo_arm_def array_lengths_def)
  have v: "validate_bundle (b\<lparr>bu_regime := Some regime, bu_thresholds := Some demo_fixed\<rparr>) demo_cost_policy ''timing''
      [(''a'', 1)] (Some ''r'') None = Inr ()"
    using assms(1-5) t arm ids by (simp add: validate_bundle_def MEASURED_ARMS_def demo_cost_policy_def demo_arm_def)
  obtain c where c: "judge [''a'' \<mapsto> 200] [''a'' \<mapsto> 100] [(''a'', 1)] t = Inr c" "cd_breached c"
    using t by (simp add: judge_def ratio_of_def lookupE_def log_real_def delta_of_def or_default_def)
  have n: "n = 1 \<or> n = 2" using assms(7) by blast
  have "cost_guard (b\<lparr>bu_regime := Some regime, bu_thresholds := Some demo_fixed\<rparr>) demo_cost_policy ''timing''
      [(''a'', 1)] (Some ''r'') None = Inr (guard_of regime t c)"
    using assms(1) v t(1) c(1) demo_estimates[OF n] by (simp add: cost_guard_def dict_of_def lookupE_def)
  then show ?thesis unfolding w using c(2) assms(7) by (auto simp: guard_of_def Let_def)
qed

lemma demo_bundle_guard:
  assumes "n = 1 \<and> regime = ''normal'' \<or> n = 2 \<and> regime = ''rerun''"
  shows "\<exists>g. cost_guard ((demo_bundle n w s jobs)\<lparr>bu_regime := Some regime, bu_thresholds := Some demo_fixed\<rparr>)
      demo_cost_policy ''timing'' (panel_weights [demo_cost_case] ''timing'') (Some ''r'') None = Inr g
      \<and> cd_breached (gr_candidate g) \<and> gr_regime g = regime \<and> gr_needs_rerun g = (regime = ''normal'')
      \<and> (regime = ''rerun'' \<longrightarrow> gr_result g = ''failed'')"
proof -
  let ?b = "demo_bundle n w s jobs"
  have "bu_arms ?b = [(''baseline'', demo_arm n w (Suc w) ''b1'' 100), (''evolved'', demo_arm n w (Suc (Suc w)) ''b2'' 200)]"
    "bu_complete ?b" "bu_run_id ?b = ''r''" "bu_session ?b = show_nat w" "bu_estimator ?b = Some ''timing''"
    by (simp_all add: demo_bundle_def)
  moreover have "Suc w \<noteq> Suc (Suc w)" by (rule n_not_Suc_n)
  ultimately show ?thesis using assms by (rule demo_guard)
qed

lemma demo_measure:
  "\<exists>g saved w'. measure_panel demo_lab demo_cost_run [demo_cost_case] ''timing'' demo_cost_policy None True (Map.empty, 0)
      = (Inr g, saved, w') \<and> gr_result g = ''failed'' \<and> fresh_sessions saved"
proof -
  have run: "rn_id demo_cost_run = ''r''" by (simp add: demo_cost_run_def)
  obtain s1 j1 where b1: "collect_panel demo_lab demo_cost_run [demo_cost_case] ''timing'' 1 MEASURED_ARMS demo_protocol 0
      = (Inr (demo_bundle 1 0 s1 j1), 5)" using demo_collect(1)[of 0] by auto
  obtain s2 j2 where b2: "collect_panel demo_lab demo_cost_run [demo_cost_case] ''timing'' 2 MEASURED_ARMS demo_protocol 5
      = (Inr (demo_bundle 2 5 s2 j2), 12)" using demo_collect(2)[of 5] by auto
  define c1 where "c1 = (demo_bundle 1 0 s1 j1)\<lparr>bu_regime := Some ''normal'', bu_thresholds := Some demo_fixed\<rparr>"
  define c2 where "c2 = (demo_bundle 2 5 s2 j2)\<lparr>bu_regime := Some ''rerun'', bu_thresholds := Some demo_fixed\<rparr>"
  obtain g1 where g1: "cost_guard c1 demo_cost_policy ''timing'' (panel_weights [demo_cost_case] ''timing'') (Some ''r'') None
      = Inr g1" "gr_needs_rerun g1"
    unfolding c1_def using demo_bundle_guard[of 1 "''normal''" 0 s1 j1] by auto
  obtain g2 where g2: "cost_guard c2 demo_cost_policy ''timing'' (panel_weights [demo_cost_case] ''timing'') (Some ''r'') None
      = Inr g2" "gr_result g2 = ''failed''"
    unfolding c2_def using demo_bundle_guard[of 2 "''rerun''" 5 s2 j2] by auto
  have p: "cq_protocol demo_cost_policy = Some demo_protocol" "cq_thresholds demo_cost_policy = Some demo_fixed"
    by (simp_all add: demo_cost_policy_def)
  have r1: "regime_bundle demo_lab demo_cost_run [demo_cost_case] ''timing'' demo_cost_policy demo_protocol None ''normal'' 1
      Map.empty 0 = (Inr c1, 5)" by (simp add: regime_bundle_def reusable_def b1 bindS_def p c1_def)
  have r2: "regime_bundle demo_lab demo_cost_run [demo_cost_case] ''timing'' demo_cost_policy demo_protocol None ''rerun'' 2
      (Map.empty(''normal'' \<mapsto> c1)) 5 = (Inr c2, 12)" by (simp add: regime_bundle_def reusable_def b2 bindS_def p c2_def)
  define saved where "saved = [''normal'' \<mapsto> c1, ''rerun'' \<mapsto> c2]"
  have go: "goes_on ''normal'' g1" using g1(2) by (simp add: goes_on_def)
  have stop: "(if goes_on ''rerun'' g2 then x else y) = y" for x y by (simp add: goes_on_def)
  have yes: "\<not> (r = ''rerun'' \<and> \<not> True)" for r by simp
  have second: "measure_from demo_lab demo_cost_run [demo_cost_case] ''timing'' demo_cost_policy demo_protocol None True (Some g1)
      [(''rerun'', 2)] (Map.empty(''normal'' \<mapsto> c1), 5) = (Inr g2, saved, 12)"
    unfolding measure_from.simps(2) if_not_P[OF yes] r2 prod.case sum.case Let_def run g2(1) stop saved_def by (rule refl)
  have run2: "measure_panel demo_lab demo_cost_run [demo_cost_case] ''timing'' demo_cost_policy None True (Map.empty, 0)
      = (Inr g2, saved, 12)"
    unfolding measure_panel_def p option.case demo_counts sum.case measure_from.simps(2)[where regime = "''normal''"]
      if_not_P[OF yes] r1 prod.case Let_def run g1(1) if_P[OF go] second by (rule refl)
  have "show_nat 0 \<noteq> show_nat 5" using show_nat_inj[of 0 5] by (metis zero_neq_numeral)
  moreover have "bu_session c1 = show_nat 0" "bu_session c2 = show_nat 5"
    unfolding c1_def c2_def by (simp_all add: demo_bundle_def)
  moreover have "r = ''normal'' \<and> b = c1 \<or> r = ''rerun'' \<and> b = c2" if "saved r = Some b" for r b
    using that by (simp add: saved_def fun_upd_def split: if_splits)
  ultimately have "fresh_sessions saved" unfolding fresh_sessions_def by metis
  with run2 g2(2) show ?thesis by blast
qed

theorem collected_bundle_admissible_witness:
  "\<exists>b w'. collect_panel demo_lab demo_cost_run [demo_cost_case] ''timing'' 1 MEASURED_ARMS demo_protocol 0 = (Inr b, w')
    \<and> validate_bundle (b\<lparr>bu_regime := Some ''normal'', bu_thresholds := Some demo_fixed\<rparr>) demo_cost_policy ''timing''
        (panel_weights [demo_cost_case] ''timing'') (Some (rn_id demo_cost_run)) None = Inr ()"
proof -
  define t where "t = \<lparr>th_count = 1, th_noise_panel = ln 2, th_case_ratio = 3 / 2, th_floor = 10 :: real\<rparr>"
  have t: "thresholds demo_cost_policy ''timing'' ''normal'' = Inr t" "th_count t = 1"
    using demo_thresholds(1) by (simp_all add: t_def)
  obtain b where b: "collect_panel demo_lab demo_cost_run [demo_cost_case] ''timing'' (th_count t) MEASURED_ARMS demo_protocol 0
      = (Inr b, 5)" using demo_collect(1)[of 0] t(2) by auto
  have "cq_thresholds demo_cost_policy = Some demo_fixed" by (simp add: demo_cost_policy_def)
  from collected_bundle_admissible[OF b demo_fair _ t(1) this, of None] b t(2) show ?thesis by simp
qed

theorem replay_reproduces_measurement_witness:
  "\<exists>g saved w'. measure_panel demo_lab demo_cost_run [demo_cost_case] ''timing'' demo_cost_policy None True (Map.empty, 0)
      = (Inr g, saved, w')
    \<and> replay_panel demo_cost_run [demo_cost_case] ''timing'' demo_cost_policy None True [(''normal'', 1), (''rerun'', 2)] saved = Inr g"
proof -
  obtain g saved w' where m: "measure_panel demo_lab demo_cost_run [demo_cost_case] ''timing'' demo_cost_policy None True
      (Map.empty, 0) = (Inr g, saved, w')" and f: "fresh_sessions saved" using demo_measure by blast
  have "regime_counts ''timing'' (cq_protocol demo_cost_policy) = Inr [(''normal'', 1), (''rerun'', 2)]"
    by (simp add: demo_cost_policy_def demo_counts)
  from replay_reproduces_measurement[OF m demo_fair _ f this] m show ?thesis by simp
qed

theorem failure_needs_two_breaches_witness:
  "\<exists>g saved w'. measure_panel demo_lab demo_cost_run [demo_cost_case] ''timing'' demo_cost_policy None True (Map.empty, 0)
      = (Inr g, saved, w') \<and> gr_result g = ''failed'' \<and> saved ''normal'' \<noteq> None \<and> saved ''rerun'' \<noteq> None"
proof -
  obtain g saved w' where m: "measure_panel demo_lab demo_cost_run [demo_cost_case] ''timing'' demo_cost_policy None True
      (Map.empty, 0) = (Inr g, saved, w')" and f: "gr_result g = ''failed''" using demo_measure by blast
  have "regime_counts ''timing'' (cq_protocol demo_cost_policy) = Inr [(''normal'', 1), (''rerun'', 2)]"
    by (simp add: demo_cost_policy_def demo_counts)
  from failure_needs_two_breaches[OF m demo_fair demo_unique _ this f] m f show ?thesis by auto
qed

theorem cost_guard_decides_witness:
  "\<exists>b g. cost_guard (b :: nat cost_bundle) demo_cost_policy ''timing'' (panel_weights [demo_cost_case] ''timing'') (Some ''r'') None = Inr g
     \<and> gr_regime g = ''rerun'' \<and> gr_result g = ''failed'' \<and> cd_breached (gr_candidate g)"
proof -
  obtain g where g: "cost_guard ((demo_bundle 2 5 0 [])\<lparr>bu_regime := Some ''rerun'', bu_thresholds := Some demo_fixed\<rparr>)
      demo_cost_policy ''timing'' (panel_weights [demo_cost_case] ''timing'') (Some ''r'') None = Inr g" "gr_result g = ''failed''"
    using demo_bundle_guard[of 2 "''rerun''" 5 0 "[]"] by auto
  with cost_guard_decides[OF g(1)] show ?thesis by blast
qed

end
