(* ===== verification/Canonical.thy ===== *)
theory Canonical
  imports Text
begin

text \<open>
  The canonical JSON of \<open>src/src/qtb/canonical/__init__.py\<close>: \<open>canonical_bytes\<close>, the reader
  \<open>json.loads\<close> behind \<open>read_json\<close>, and the line format of circuit artifacts.

  A text is the list of its UTF-8 bytes. The encoder escapes only ASCII characters and copies the
  others, and the order of UTF-8 byte strings is the order of their code points, so strings are
  handled exactly at the level of bytes. Floats are left out: canonical circuits hold none
  (\<open>number\<close> writes them as hexadecimal strings); a text with a fraction or an exponent is outside
  the model and rejected by the reader here. The surrogate escapes that no UTF-8 text has are rejected
  as well.
\<close>

section \<open>Values\<close>

datatype json =
    JNull
  | JBool bool
  | JInt int
  | JStr string
  | JArr "json list"
  | JObj "(string \<times> json) list"

abbreviation quote_char :: char where "quote_char \<equiv> CHR 0x22"
abbreviation backslash :: char where "backslash \<equiv> CHR 0x5C"
abbreviation newline :: char where "newline \<equiv> CHR 0x0A"

section \<open>Writing\<close>

definition hex_digit :: "nat \<Rightarrow> char" where
  "hex_digit d = (if d < 10 then char_of (48 + d) else char_of (87 + d))"

text \<open>The escapes of \<open>json.dumps\<close> with \<open>ensure_ascii=False\<close>.\<close>

definition escape :: "char \<Rightarrow> string" where
  "escape c = (let n = of_char c :: nat in
     if c = quote_char then [backslash, quote_char]
     else if c = backslash then [backslash, backslash]
     else if n = 10 then [backslash, CHR ''n'']
     else if n = 13 then [backslash, CHR ''r'']
     else if n = 9 then [backslash, CHR ''t'']
     else if n = 12 then [backslash, CHR ''f'']
     else if n = 8 then [backslash, CHR ''b'']
     else if n < 32 then [backslash, CHR ''u'', CHR ''0'', CHR ''0'', hex_digit (n div 16), hex_digit (n mod 16)]
     else [c])"

definition string_lit :: "string \<Rightarrow> string" where
  "string_lit s = quote_char # concat (map escape s) @ [quote_char]"

fun canonical_bytes :: "json \<Rightarrow> string" where
  "canonical_bytes JNull = ''null''"
| "canonical_bytes (JBool b) = (if b then ''true'' else ''false'')"
| "canonical_bytes (JInt i) = show_int i"
| "canonical_bytes (JStr s) = string_lit s"
| "canonical_bytes (JArr vs) = CHR ''['' # join_str '','' (map canonical_bytes vs) @ '']''"
| "canonical_bytes (JObj kvs) = CHR ''{'' # join_str '',''
     (map (\<lambda>kt. string_lit (fst kt) @ CHR '':'' # snd kt)
       (sort_key fst (map (\<lambda>kv. (fst kv, canonical_bytes (snd kv))) kvs))) @ ''}''"

section \<open>Reading\<close>

definition json_space :: "char \<Rightarrow> bool" where
  "json_space c \<longleftrightarrow> (of_char c :: nat) \<in> {32, 9, 10, 13}"

definition skip_ws :: "string \<Rightarrow> string" where
  "skip_ws s = dropWhile json_space s"

definition hex_value :: "char \<Rightarrow> nat option" where
  "hex_value c = (let n = of_char c :: nat in
     if 48 \<le> n \<and> n \<le> 57 then Some (n - 48)
     else if 97 \<le> n \<and> n \<le> 102 then Some (n - 87)
     else if 65 \<le> n \<and> n \<le> 70 then Some (n - 55) else None)"

fun hex4 :: "string \<Rightarrow> (nat \<times> string) option" where
  "hex4 (a # b # c # d # r) =
     (case (hex_value a, hex_value b, hex_value c, hex_value d) of
        (Some i, Some j, Some k, Some l) \<Rightarrow> Some (((i * 16 + j) * 16 + k) * 16 + l, r)
      | _ \<Rightarrow> None)"
| "hex4 s = None"

definition utf8 :: "nat \<Rightarrow> string" where
  "utf8 n =
     (if n < 0x80 then [char_of n]
      else if n < 0x800 then [char_of (0xC0 + n div 64), char_of (0x80 + n mod 64)]
      else if n < 0x10000
      then [char_of (0xE0 + n div 4096), char_of (0x80 + n div 64 mod 64), char_of (0x80 + n mod 64)]
      else [char_of (0xF0 + n div 262144), char_of (0x80 + n div 4096 mod 64),
            char_of (0x80 + n div 64 mod 64), char_of (0x80 + n mod 64)])"

text \<open>The text after \<open>\u\<close>: one code point, or the two halves of a surrogate pair.\<close>

definition unicode_escape :: "string \<Rightarrow> (string \<times> string) option" where
  "unicode_escape s =
     (case hex4 s of
        None \<Rightarrow> None
      | Some (n, r) \<Rightarrow>
          if 0xD800 \<le> n \<and> n < 0xDC00
          then (case r of
              a # b # t \<Rightarrow>
                if a = backslash \<and> b = CHR ''u''
                then (case hex4 t of
                    None \<Rightarrow> None
                  | Some (m, r') \<Rightarrow>
                      if 0xDC00 \<le> m \<and> m < 0xE000
                      then Some (utf8 (0x10000 + (n - 0xD800) * 1024 + (m - 0xDC00)), r') else None)
                else None
            | _ \<Rightarrow> None)
          else if 0xDC00 \<le> n \<and> n < 0xE000 then None
          else Some (utf8 n, r))"

definition unescape :: "char \<Rightarrow> char option" where
  "unescape c =
     (if c = quote_char \<or> c = backslash \<or> c = CHR ''/'' then Some c
      else if c = CHR ''b'' then Some (char_of (8::nat))
      else if c = CHR ''f'' then Some (char_of (12::nat))
      else if c = CHR ''n'' then Some (char_of (10::nat))
      else if c = CHR ''r'' then Some (char_of (13::nat))
      else if c = CHR ''t'' then Some (char_of (9::nat)) else None)"

lemma hex4_shorter: "hex4 s = Some (n, r) \<Longrightarrow> length r < length s"
  by (induction s rule: hex4.induct) (auto split: option.splits)

lemma unicode_escape_shorter [termination_simp]: "unicode_escape s = Some (x, r) \<Longrightarrow> length r < length s"
  by (auto simp: unicode_escape_def dest!: hex4_shorter split: option.splits if_splits list.splits)

text \<open>The rest of a string literal after its opening quote; control characters are refused.\<close>

fun read_string :: "string \<Rightarrow> (string \<times> string) option" where
  "read_string [] = None"
| "read_string (c # s) =
     (if c = quote_char then Some ([], s)
      else if c = backslash
      then (case s of
          [] \<Rightarrow> None
        | e # t \<Rightarrow>
            if e = CHR ''u''
            then (case unicode_escape t of
                None \<Rightarrow> None
              | Some (x, r) \<Rightarrow> map_option (\<lambda>(y, r'). (x @ y, r')) (read_string r))
            else (case unescape e of
                None \<Rightarrow> None
              | Some d \<Rightarrow> map_option (\<lambda>(y, r'). (d # y, r')) (read_string t)))
      else if (of_char c :: nat) < 32 then None
      else map_option (\<lambda>(y, r'). (c # y, r')) (read_string s))"

definition read_int :: "string \<Rightarrow> (int \<times> string) option" where
  "read_int s =
     (let neg = starts_with s ''-''; (d, r) = digits (if neg then tl s else s) in
      if d = [] then None
      else let zero = (hd d = CHR ''0''); r' = (if zero then tl d @ r else r);
               n = int (nat_of_digits (if zero then [hd d] else d)) in
        if r' \<noteq> [] \<and> hd r' \<in> {CHR ''.'', CHR ''e'', CHR ''E''} then None
        else Some (if neg then - n else n, r'))"

definition read_literal :: "string \<Rightarrow> (json \<times> string) option" where
  "read_literal s =
     (if starts_with s ''null'' then Some (JNull, drop 4 s)
      else if starts_with s ''true'' then Some (JBool True, drop 4 s)
      else if starts_with s ''false'' then Some (JBool False, drop 5 s)
      else map_option (\<lambda>(i, r). (JInt i, r)) (read_int s))"

text \<open>\<open>dict(pairs)\<close>: a repeated key keeps its place and takes the later value.\<close>

definition put_key :: "string \<times> 'a \<Rightarrow> (string \<times> 'a) list \<Rightarrow> (string \<times> 'a) list" where
  "put_key kv d =
     (if fst kv \<in> set (map fst d) then map (\<lambda>e. if fst e = fst kv then kv else e) d else d @ [kv])"

definition dict_list :: "(string \<times> 'a) list \<Rightarrow> (string \<times> 'a) list" where
  "dict_list kvs = fold put_key kvs []"

text \<open>
  The recursive descent of \<open>json.loads\<close>; the first argument bounds its depth and the number of its
  steps. \<open>loads\<close> gives it one more than the length of the text, and every step consumes a character.
\<close>

fun read_value :: "nat \<Rightarrow> string \<Rightarrow> (json \<times> string) option"
  and read_elements :: "nat \<Rightarrow> string \<Rightarrow> (json list \<times> string) option"
  and read_members :: "nat \<Rightarrow> string \<Rightarrow> ((string \<times> json) list \<times> string) option"
where
  "read_value 0 s = None"
| "read_value (Suc n) s =
     (case skip_ws s of
        [] \<Rightarrow> None
      | c # t \<Rightarrow>
          if c = quote_char then map_option (\<lambda>(x, r). (JStr x, r)) (read_string t)
          else if c = CHR ''['' then
            (case skip_ws t of
               [] \<Rightarrow> None
             | d # u \<Rightarrow> if d = CHR '']'' then Some (JArr [], u)
                 else map_option (\<lambda>(vs, r). (JArr vs, r)) (read_elements n (d # u)))
          else if c = CHR ''{'' then
            (case skip_ws t of
               [] \<Rightarrow> None
             | d # u \<Rightarrow> if d = CHR ''}'' then Some (JObj [], u)
                 else map_option (\<lambda>(kvs, r). (JObj (dict_list kvs), r)) (read_members n (d # u)))
          else read_literal (c # t))"
| "read_elements 0 s = None"
| "read_elements (Suc n) s =
     (case read_value n s of
        None \<Rightarrow> None
      | Some (v, r) \<Rightarrow>
          (case skip_ws r of
             [] \<Rightarrow> None
           | c # t \<Rightarrow>
               if c = CHR '','' then map_option (\<lambda>(vs, r'). (v # vs, r')) (read_elements n t)
               else if c = CHR '']'' then Some ([v], t) else None))"
| "read_members 0 s = None"
| "read_members (Suc n) s =
     (case skip_ws s of
        [] \<Rightarrow> None
      | q # s1 \<Rightarrow>
          if q \<noteq> quote_char then None
          else (case read_string s1 of
              None \<Rightarrow> None
            | Some (k, s2) \<Rightarrow>
                (case skip_ws s2 of
                   [] \<Rightarrow> None
                 | c # s3 \<Rightarrow>
                     if c \<noteq> CHR '':'' then None
                     else (case read_value n s3 of
                         None \<Rightarrow> None
                       | Some (v, s4) \<Rightarrow>
                           (case skip_ws s4 of
                              [] \<Rightarrow> None
                            | d # t \<Rightarrow>
                                if d = CHR '','' then map_option (\<lambda>(kvs, r). ((k, v) # kvs, r)) (read_members n t)
                                else if d = CHR ''}'' then Some ([(k, v)], t) else None)))))"

definition loads :: "string \<Rightarrow> json option" where
  "loads s =
     (case read_value (Suc (length s)) s of
        None \<Rightarrow> None
      | Some (v, r) \<Rightarrow> if skip_ws r = [] then Some v else None)"

declare read_value.simps [simp del] read_elements.simps [simp del] read_members.simps [simp del]

section \<open>Strings\<close>

lemma hex_value_hex_digit: "d < 16 \<Longrightarrow> hex_value (hex_digit d) = Some d"
proof -
  assume "d < 16"
  then have "d \<in> set [0..<16]" by simp
  then show ?thesis by (simp add: upt_rec hex_value_def hex_digit_def) (elim disjE; simp)
qed

lemma hex4_of_byte:
  assumes "n < 32"
  shows "hex4 (CHR ''0'' # CHR ''0'' # hex_digit (n div 16) # hex_digit (n mod 16) # t) = Some (n, t)"
proof -
  have "hex_value CHR ''0'' = Some 0" by (simp add: hex_value_def)
  with assms show ?thesis by (simp add: hex_value_hex_digit)
qed

lemma read_escape:
  "read_string (escape c @ t) = map_option (\<lambda>(y, r). (c # y, r)) (read_string t)"
proof -
  show ?thesis
  proof (cases "c = quote_char \<or> c = backslash \<or> (of_char c :: nat) \<in> {8, 9, 10, 12, 13}")
    case True
    then have "c = quote_char \<or> c = backslash \<or> c = char_of (8::nat) \<or> c = char_of (9::nat) \<or> c = char_of (10::nat)
      \<or> c = char_of (12::nat) \<or> c = char_of (13::nat)"
      by (metis char_of_char empty_iff insert_iff)
    then show ?thesis
      by (elim disjE; hypsubst) (simp_all add: escape_def Let_def unescape_def case_prod_unfold)
  next
    case False
    define n :: nat where "n = of_char c"
    have c: "c = char_of n" by (simp add: n_def)
    have "n \<notin> {8, 9, 10, 12, 13}" using False by (simp add: n_def)
    then have e: "escape c = (if n < 32
        then [backslash, CHR ''u'', CHR ''0'', CHR ''0'', hex_digit (n div 16), hex_digit (n mod 16)] else [c])"
      using False by (simp add: escape_def Let_def n_def)
    show ?thesis
    proof (cases "n < 32")
      case True
      then have "unicode_escape (CHR ''0'' # CHR ''0'' # hex_digit (n div 16) # hex_digit (n mod 16) # t) = Some ([c], t)"
        by (simp add: unicode_escape_def hex4_of_byte utf8_def c del: hex4.simps)
      with True show ?thesis by (simp add: e case_prod_unfold)
    next
      case ge: False
      then show ?thesis using False by (simp add: e n_def case_prod_unfold)
    qed
  qed
qed

lemma read_string_lit: "read_string (concat (map escape s) @ quote_char # r) = Some (s, r)"
  by (induction s) (simp_all add: read_escape)

section \<open>Integers\<close>

lemma show_nat_first: "n \<noteq> 0 \<Longrightarrow> hd (show_nat n) \<noteq> CHR ''0''"
proof (induction n rule: show_nat.induct)
  case (1 n)
  show ?case
  proof (cases "n < 10")
    case True
    then have "n \<in> set [1..<10]" using 1(2) by simp
    then show ?thesis by (subst show_nat.simps) (simp add: upt_rec show_digit_def, elim disjE; simp)
  next
    case False
    then show ?thesis using 1(1) by (subst show_nat.simps) (simp add: hd_append)
  qed
qed

definition delimited :: "string \<Rightarrow> bool" where
  "delimited r \<longleftrightarrow> r = [] \<or> hd r \<in> {CHR '','', CHR '']'', CHR ''}'', newline}"

lemma delimitedD:
  assumes "delimited r"
  shows "takeWhile is_digit r = []" "dropWhile is_digit r = r"
    "\<not> (r \<noteq> [] \<and> hd r \<in> {CHR ''.'', CHR ''e'', CHR ''E''})"
  using assms by (cases r; auto simp: delimited_def is_digit_def)+

lemma digits_show_nat: "delimited r \<Longrightarrow> digits (show_nat n @ r) = (show_nat n, r)"
  by (simp add: digits_def show_nat_digits delimitedD)

lemma show_nat_hd_digit: "is_digit (hd (show_nat n))"
  using show_nat_digits[of "hd (show_nat n)" n] by simp

lemma show_nat_zero: "show_nat 0 = ''0''"
  by (simp add: show_nat.simps show_digit_def)

lemma read_int_show: "delimited r \<Longrightarrow> read_int (show_int i @ r) = Some (i, r)"
proof -
  assume r: "delimited r"
  have n: "\<not> starts_with (show_nat n @ r) ''-''" for n
    using show_nat_hd_digit[of n] by (cases "show_nat n") (auto simp: is_digit_def)
  have z: "hd (show_nat n) = CHR ''0'' \<longleftrightarrow> n = 0" for n
    using show_nat_first[of n] by (auto simp: show_nat_zero)
  have one: "nat_of_digits [hd (show_nat 0)] = 0" by (simp add: show_nat_zero nat_of_digits_def digit_value_def)
  note r' = delimitedD(3)[OF r]
  show ?thesis
  proof (cases "i < 0")
    case True
    then have "nat (- i) \<noteq> 0" by simp
    with True r' show ?thesis
      by (simp add: read_int_def show_int_def digits_show_nat[OF r] z Let_def)
  next
    case False
    with r' n show ?thesis
      by (cases "i = 0") (simp_all add: read_int_def show_int_def digits_show_nat[OF r] z Let_def one, simp add: show_nat_zero)
  qed
qed

section \<open>The order of keys\<close>

fun ordered :: "json \<Rightarrow> json" where
  "ordered (JArr vs) = JArr (map ordered vs)"
| "ordered (JObj kvs) = JObj (sort_key fst (map (\<lambda>kv. (fst kv, ordered (snd kv))) kvs))"
| "ordered v = v"

text \<open>A dictionary has each key once.\<close>

fun well_keyed :: "json \<Rightarrow> bool" where
  "well_keyed (JArr vs) = list_all well_keyed vs"
| "well_keyed (JObj kvs) = (distinct (map fst kvs) \<and> list_all (\<lambda>kv. well_keyed (snd kv)) kvs)"
| "well_keyed v = True"

text \<open>The text of a value whose objects are already in order.\<close>

fun plain :: "json \<Rightarrow> string" where
  "plain (JArr vs) = CHR ''['' # join_str '','' (map plain vs) @ '']''"
| "plain (JObj kvs) = CHR ''{'' # join_str '','' (map (\<lambda>kv. string_lit (fst kv) @ CHR '':'' # plain (snd kv)) kvs) @ ''}''"
| "plain v = canonical_bytes v"

lemma sort_key_map_snd:
  "sort_key fst (map (\<lambda>kv. (fst kv, h (snd kv))) kvs) = map (\<lambda>kv. (fst kv, h (snd kv))) (sort_key fst kvs)"
proof -
  have ins: "insort_key fst (fst x, h (snd x)) (map (\<lambda>kv. (fst kv, h (snd kv))) ys)
      = map (\<lambda>kv. (fst kv, h (snd kv))) (insort_key fst x ys)" for x ys
    by (induction ys) auto
  show ?thesis by (induction kvs) (simp_all add: ins)
qed

lemma canonical_plain: "canonical_bytes v = plain (ordered v)"
proof (induction v)
  case (JArr vs)
  then have "map canonical_bytes vs = map (plain \<circ> ordered) vs" by simp
  then show ?case by (simp only: canonical_bytes.simps ordered.simps plain.simps list.map_comp)
next
  case (JObj kvs)
  have eq: "map (\<lambda>kv. (fst kv, canonical_bytes (snd kv))) kvs = map (\<lambda>kv. (fst kv, plain (ordered (snd kv)))) kvs"
    using JObj by (auto simp: snds.simps)
  show ?case unfolding canonical_bytes.simps ordered.simps plain.simps eq
    by (simp add: sort_key_map_snd[where h = ordered] sort_key_map_snd[where h = "\<lambda>v. plain (ordered v)"] o_def)
qed simp_all

lemma ordered_well_keyed: "well_keyed v \<Longrightarrow> well_keyed (ordered v)"
proof (induction v)
  case (JObj kvs)
  then have "\<forall>kv\<in>set kvs. well_keyed (ordered (snd kv))" by (auto simp: list_all_iff snds.simps)
  moreover have "distinct (map fst (sort_key fst kvs))"
    using JObj.prems by (simp add: distinct_map)
  ultimately show ?case by (simp add: sort_key_map_snd list_all_iff o_def)
qed (simp_all add: list_all_iff)

section \<open>Reading what was written\<close>

definition opener :: "char \<Rightarrow> bool" where
  "opener c \<longleftrightarrow> c \<in> {quote_char, CHR ''['', CHR ''{'', CHR ''n'', CHR ''t'', CHR ''f'', CHR ''-''} \<or> is_digit c"

lemma show_int_first: "\<exists>c t. show_int i = c # t \<and> (c = CHR ''-'' \<or> is_digit c)"
  using show_nat_hd_digit[of "nat i"] by (cases "show_nat (nat i)") (auto simp: show_int_def)

lemma plain_first: "\<exists>c t. plain v = c # t \<and> opener c"
proof (cases v)
  case (JInt i)
  obtain c t where "show_int i = c # t" "c = CHR ''-'' \<or> is_digit c" using show_int_first by blast
  then show ?thesis using JInt by (auto simp: opener_def)
qed (auto simp: opener_def string_lit_def)

lemma skip_ws_opener: "opener c \<Longrightarrow> skip_ws (c # t) = c # t"
  by (auto simp: skip_ws_def opener_def json_space_def is_digit_def)

lemma skip_ws_punct [simp]:
  "skip_ws (CHR '','' # t) = CHR '','' # t" "skip_ws (CHR '']'' # t) = CHR '']'' # t"
  "skip_ws (CHR ''}'' # t) = CHR ''}'' # t" "skip_ws (CHR '':'' # t) = CHR '':'' # t"
  "skip_ws (quote_char # t) = quote_char # t" "skip_ws [] = []"
  by (simp_all add: skip_ws_def json_space_def)

lemma skip_ws_plain: "skip_ws (plain v @ r) = plain v @ r"
  using plain_first[of v] by (auto simp: skip_ws_opener)

definition reads_back :: "json \<Rightarrow> bool" where
  "reads_back v \<longleftrightarrow> (\<forall>n r. length (plain v) \<le> n \<longrightarrow> delimited r \<longrightarrow> read_value n (plain v @ r) = Some (v, r))"

lemma read_elements_back:
  assumes "\<forall>v\<in>set vs. reads_back v" and "vs \<noteq> []" and "length (join_str '','' (map plain vs)) < n"
  shows "read_elements n (join_str '','' (map plain vs) @ CHR '']'' # r) = Some (vs, r)"
  using assms(2,1,3)
proof (induction vs arbitrary: n rule: list_nonempty_induct)
  case (single v)
  then obtain m where n: "n = Suc m" "length (plain v) \<le> m" by (cases n) auto
  have "read_value m (plain v @ CHR '']'' # r) = Some (v, CHR '']'' # r)"
    using single n(2) by (auto simp: reads_back_def delimited_def)
  then show ?case using n(1) by (simp add: read_elements.simps)
next
  case (cons v vs)
  obtain w ws where vs: "vs = w # ws" using cons.hyps by (cases vs) auto
  define rest where "rest = join_str '','' (map plain vs)"
  have j: "join_str '','' (map plain (v # vs)) = plain v @ CHR '','' # rest" by (simp add: rest_def vs)
  obtain m where n: "n = Suc m" "length (plain v) \<le> m" "length rest < m"
    using cons.prems(2) unfolding j by (cases n) auto
  have "read_value m (plain v @ CHR '','' # rest @ CHR '']'' # r) = Some (v, CHR '','' # rest @ CHR '']'' # r)"
    using cons.prems(1) n(2) by (auto simp: reads_back_def delimited_def)
  moreover have "read_elements m (rest @ CHR '']'' # r) = Some (vs, r)"
    unfolding rest_def using cons.IH[of m] cons.prems(1) n(3) by (simp add: rest_def)
  ultimately show ?case unfolding j n(1) by (simp add: read_elements.simps)
qed

abbreviation member :: "string \<times> json \<Rightarrow> string" where
  "member kv \<equiv> string_lit (fst kv) @ CHR '':'' # plain (snd kv)"

lemma read_member:
  assumes "reads_back (snd kv)" and "length (member kv) \<le> m" and "delimited (d # t)"
  shows "\<exists>s1 s2. member kv @ d # t = quote_char # s1 \<and> read_string s1 = Some (fst kv, CHR '':'' # s2)
    \<and> read_value m s2 = Some (snd kv, d # t)"
proof (intro exI conjI)
  show "member kv @ d # t = quote_char # concat (map escape (fst kv)) @ quote_char # CHR '':'' # plain (snd kv) @ d # t"
    by (simp add: string_lit_def)
  show "read_string (concat (map escape (fst kv)) @ quote_char # CHR '':'' # plain (snd kv) @ d # t)
      = Some (fst kv, CHR '':'' # plain (snd kv) @ d # t)" by (rule read_string_lit)
  show "read_value m (plain (snd kv) @ d # t) = Some (snd kv, d # t)"
    using assms by (auto simp: reads_back_def)
qed

lemma read_members_back:
  assumes "\<forall>kv\<in>set kvs. reads_back (snd kv)" and "kvs \<noteq> []" and "length (join_str '','' (map member kvs)) < n"
  shows "read_members n (join_str '','' (map member kvs) @ CHR ''}'' # r) = Some (kvs, r)"
  using assms(2,1,3)
proof (induction kvs arbitrary: n rule: list_nonempty_induct)
  case (single kv)
  then obtain m where n: "n = Suc m" "length (member kv) \<le> m" by (cases n) auto
  obtain s1 s2 where s: "member kv @ CHR ''}'' # r = quote_char # s1" "read_string s1 = Some (fst kv, CHR '':'' # s2)"
    "read_value m s2 = Some (snd kv, CHR ''}'' # r)"
    using read_member[OF _ n(2), where d = "CHR ''}''" and t = r] single by (auto simp: delimited_def)
  then have "read_members (Suc m) (member kv @ CHR ''}'' # r) = Some ([kv], r)"
    unfolding s(1) by (simp add: read_members.simps)
  then show ?case unfolding n(1) by simp
next
  case (cons kv kvs)
  obtain w ws where vs: "kvs = w # ws" using cons.hyps by (cases kvs) auto
  define rest where "rest = join_str '','' (map member kvs)"
  have j: "join_str '','' (map member (kv # kvs)) = member kv @ CHR '','' # rest" by (simp add: rest_def vs)
  obtain m where n: "n = Suc m" "length (member kv) \<le> m" "length rest < m"
    using cons.prems(2) unfolding j by (cases n) auto
  obtain s1 s2 where s: "member kv @ CHR '','' # rest @ CHR ''}'' # r = quote_char # s1"
    "read_string s1 = Some (fst kv, CHR '':'' # s2)" "read_value m s2 = Some (snd kv, CHR '','' # rest @ CHR ''}'' # r)"
    using read_member[OF _ n(2), where d = "CHR '',''" and t = "rest @ CHR ''}'' # r"] cons.prems(1)
    by (auto simp: delimited_def)
  have "read_members m (rest @ CHR ''}'' # r) = Some (kvs, r)"
    unfolding rest_def using cons.IH[of m] cons.prems(1) n(3) by (simp add: rest_def)
  with s have "read_members (Suc m) (member kv @ CHR '','' # rest @ CHR ''}'' # r) = Some (kv # kvs, r)"
    unfolding s(1) by (simp add: read_members.simps)
  then show ?case unfolding j n(1) by simp
qed

lemma dict_list_distinct: "distinct (map fst kvs) \<Longrightarrow> dict_list kvs = kvs"
proof (induction kvs rule: rev_induct)
  case (snoc kv kvs)
  then show ?case by (simp add: dict_list_def put_key_def)
qed (simp add: dict_list_def)

lemma read_literal_int:
  assumes "delimited r"
  shows "read_literal (show_int i @ r) = Some (JInt i, r)"
proof -
  obtain c t where c: "show_int i = c # t" "c = CHR ''-'' \<or> is_digit c" using show_int_first by blast
  then have "\<not> starts_with (show_int i @ r) ''null''" "\<not> starts_with (show_int i @ r) ''true''"
    "\<not> starts_with (show_int i @ r) ''false''" by (auto simp: is_digit_def)
  then show ?thesis using read_int_show[OF assms] by (simp add: read_literal_def)
qed

lemma read_value_first:
  assumes "opener c" and "c \<notin> {quote_char, CHR ''['', CHR ''{''}"
  shows "read_value (Suc n) (c # t) = read_literal (c # t)"
  using assms by (simp add: read_value.simps skip_ws_opener)

lemma reads_back: "well_keyed v \<Longrightarrow> reads_back v"
proof (induction v)
  case (JInt i)
  obtain c t where c: "show_int i = c # t" "c = CHR ''-'' \<or> is_digit c" using show_int_first by blast
  show ?case unfolding reads_back_def
  proof (intro allI impI)
    fix n r assume "length (plain (JInt i)) \<le> n" "delimited r"
    moreover have "c \<notin> {quote_char, CHR ''['', CHR ''{''}" "opener c" using c(2) by (auto simp: is_digit_def opener_def)
    ultimately show "read_value n (plain (JInt i) @ r) = Some (JInt i, r)"
      using read_literal_int[of r i] c(1) read_value_first[of c "n - 1" "t @ r"] by (cases n) auto
  qed
next
  case (JArr vs)
  then have vs: "\<forall>v\<in>set vs. reads_back v" by (simp add: list_all_iff)
  show ?case unfolding reads_back_def
  proof (intro allI impI)
    fix n r assume n: "length (plain (JArr vs)) \<le> n"
    then obtain m where m: "n = Suc m" "length (join_str '','' (map plain vs)) < m" by (cases n) auto
    show "read_value n (plain (JArr vs) @ r) = Some (JArr vs, r)"
    proof (cases vs)
      case Nil
      then show ?thesis by (simp add: m(1) read_value.simps skip_ws_opener opener_def)
    next
      case (Cons w ws)
      obtain c t where c: "plain w = c # t" "opener c" using plain_first by blast
      obtain u where u: "join_str '','' (map plain vs) = c # u"
        using c(1) Cons by (cases ws) auto
      have c': "c \<noteq> CHR '']''" using c(2) by (auto simp: opener_def is_digit_def)
      have "vs \<noteq> []" using Cons by simp
      from read_elements_back[OF vs this m(2), of r]
      have "read_elements m (c # u @ CHR '']'' # r) = Some (vs, r)" by (simp add: u)
      with c' show ?thesis unfolding m(1) plain.simps u
        by (simp add: read_value.simps skip_ws_opener[OF c(2)] skip_ws_opener[of "CHR ''[''"] opener_def)
    qed
  qed
next
  case (JObj kvs)
  then have vs: "\<forall>kv\<in>set kvs. reads_back (snd kv)" by (auto simp: list_all_iff snds.simps)
  have d: "dict_list kvs = kvs" using JObj.prems by (simp add: dict_list_distinct)
  show ?case unfolding reads_back_def
  proof (intro allI impI)
    fix n r assume n: "length (plain (JObj kvs)) \<le> n"
    then obtain m where m: "n = Suc m" "length (join_str '','' (map member kvs)) < m" by (cases n) auto
    show "read_value n (plain (JObj kvs) @ r) = Some (JObj kvs, r)"
    proof (cases kvs)
      case Nil
      then show ?thesis by (simp add: m(1) read_value.simps skip_ws_opener opener_def)
    next
      case (Cons kv ws)
      obtain u where u: "join_str '','' (map member kvs) = quote_char # u"
        using Cons by (cases ws) (auto simp: string_lit_def)
      have "kvs \<noteq> []" using Cons by simp
      from read_members_back[OF vs this m(2), of r]
      have "read_members m (quote_char # u @ CHR ''}'' # r) = Some (kvs, r)" by (simp add: u)
      then show ?thesis unfolding m(1) plain.simps u
        by (simp add: read_value.simps d skip_ws_opener[of "CHR ''{''"] opener_def)
    qed
  qed
qed (auto simp: reads_back_def read_value.simps skip_ws_opener opener_def read_literal_def string_lit_def read_string_lit neq_Nil_conv Suc_le_eq elim!: less_natE split: nat.split)

lemma canonical_roundtrip:
  assumes "well_keyed v"
  shows "loads (canonical_bytes v) = Some (ordered v)"
proof -
  have "read_value (Suc (length (plain (ordered v)))) (plain (ordered v) @ []) = Some (ordered v, [])"
    using reads_back[OF ordered_well_keyed[OF assms]] unfolding reads_back_def delimited_def by (metis le_SucI order_refl)
  then show ?thesis by (simp add: loads_def canonical_plain)
qed

section \<open>Canonical texts are unique\<close>

lemma escape_no_newline: "newline \<notin> set (escape c)"
proof -
  have h: "newline \<noteq> hex_digit d" if "d < 16" for d
  proof
    assume "newline = hex_digit d"
    moreover have "hex_value newline = None" by (simp add: hex_value_def)
    ultimately show False using hex_value_hex_digit[OF that] by simp
  qed
  show ?thesis using h[of "of_char c div 16"] h[of "of_char c mod 16"] by (auto simp: escape_def Let_def)
qed

lemma join_str_set: "set (join_str sep xs) \<subseteq> set sep \<union> \<Union> (set (map set xs))"
  by (induction sep xs rule: join_str.induct) auto

lemma canonical_no_newline: "newline \<notin> set (canonical_bytes v)"
proof -
  have lit: "newline \<notin> set (string_lit s)" for s using escape_no_newline by (auto simp: string_lit_def)
  have join: "newline \<notin> set (join_str '','' xs)" if "\<forall>x\<in>set xs. newline \<notin> set x" for xs
    using join_str_set[of "'',''" xs] that by auto
  have "newline \<notin> set (plain w)" for w
  proof (induction w)
    case (JInt i)
    have "\<not> is_digit newline" by (simp add: is_digit_def)
    then show ?case using show_nat_digits by (auto simp: show_int_def)
  next
    case (JArr vs)
    then show ?case using join[of "map plain vs"] by auto
  next
    case (JObj kvs)
    then have "\<forall>x\<in>set (map member kvs). newline \<notin> set x" using lit by (auto simp: snds.simps)
    then show ?case using join[of "map member kvs"] by auto
  qed (use lit in auto)
  then show ?thesis by (simp add: canonical_plain)
qed

lemma loads_line: "well_keyed v \<Longrightarrow> loads (canonical_bytes v @ [newline]) = Some (ordered v)"
proof -
  assume "well_keyed v"
  then have "read_value (Suc (length (plain (ordered v) @ [newline]))) (plain (ordered v) @ [newline]) = Some (ordered v, [newline])"
    using reads_back[OF ordered_well_keyed] unfolding reads_back_def delimited_def by simp
  then show ?thesis by (simp add: loads_def canonical_plain skip_ws_def json_space_def)
qed

lemma canonical_eq_iff:
  assumes "well_keyed v" and "well_keyed w"
  shows "canonical_bytes v = canonical_bytes w \<longleftrightarrow> ordered v = ordered w"
  using canonical_roundtrip[OF assms(1)] canonical_roundtrip[OF assms(2)] by (metis canonical_plain option.inject)

lemma sort_key_idem: "sorted (map f xs) \<Longrightarrow> sort_key f xs = xs"
  by (induction xs) (auto intro: insort_is_Cons)

lemma ordered_idem: "ordered (ordered v) = ordered v"
proof (induction v)
  case (JObj kvs)
  have "map (\<lambda>kv. (fst kv, ordered (snd kv))) (sort_key fst (map (\<lambda>kv. (fst kv, ordered (snd kv))) kvs))
      = sort_key fst (map (\<lambda>kv. (fst kv, ordered (snd kv))) kvs)"
    by (rule map_idI) (use JObj in \<open>auto simp: snds.simps\<close>)
  then show ?case by (simp add: sort_key_idem)
qed simp_all

section \<open>Files\<close>

text \<open>\<open>write_json\<close> and \<open>read_json\<close>: the contents of a file, \<open>None\<close> when it cannot be read.\<close>

definition json_file :: "json \<Rightarrow> string" where
  "json_file v = canonical_bytes v @ [newline]"

definition read_json :: "string option \<Rightarrow> json res" where
  "read_json content =
     (case content of
        None \<Rightarrow> Inl (HarnessError ''Cannot read'')
      | Some text \<Rightarrow> (case loads text of None \<Rightarrow> Inl (HarnessError ''Cannot read'') | Some v \<Rightarrow> Inr v))"

text \<open>The lines of a binary stream, each with its newline; only the last may lack it.\<close>

fun stream_lines :: "string \<Rightarrow> string list" where
  "stream_lines [] = []"
| "stream_lines (c # s) =
     (if c = newline then [c] # stream_lines s
      else (case stream_lines s of [] \<Rightarrow> [[c]] | l # ls \<Rightarrow> (c # l) # ls))"

section \<open>Circuits\<close>

text \<open>
  A circuit artifact is the gzip of its lines; compression is transparent here and an artifact is
  its uncompressed text. \<open>sha\<close> is SHA-256.
\<close>

definition circuit_format :: string where "circuit_format = ''qtb-circuit/1''"

definition field :: "string \<Rightarrow> json \<Rightarrow> json option" where
  "field k v = (case v of JObj kvs \<Rightarrow> map_of kvs k | _ \<Rightarrow> None)"

definition write_circuit :: "(string \<Rightarrow> 'h) \<Rightarrow> json \<Rightarrow> json list \<Rightarrow> (string \<times> 'h) res" where
  "write_circuit sha header ops =
     bindE (guardE (field ''format'' header = Some (JStr circuit_format)) (HarnessError ''Unknown circuit format'')) (\<lambda>_.
       let text = concat (map json_file (header # ops)) in Inr (text, sha text))"

definition circuit_line :: "string \<Rightarrow> json res" where
  "circuit_line line =
     (case loads line of
        None \<Rightarrow> Inl ValueError
      | Some v \<Rightarrow> if json_file v \<noteq> line then Inl (HarnessError ''Non-canonical circuit encoding'') else Inr v)"

definition circuit_lines :: "string \<Rightarrow> json list res" where
  "circuit_lines text = mapE circuit_line (stream_lines text)"

text \<open>
  \<open>read_circuit\<close> checks the header before it reads the rest; the hash of a circuit is that of the
  lines it yields.
\<close>

definition is_dict :: "json \<Rightarrow> bool" where
  "is_dict v = (case v of JObj _ \<Rightarrow> True | _ \<Rightarrow> False)"

definition read_circuit :: "string \<Rightarrow> (json \<times> json list) res" where
  "read_circuit text =
     (case stream_lines text of
        [] \<Rightarrow> Inl (HarnessError ''Empty circuit artifact'')
      | l # ls \<Rightarrow>
          bindE (circuit_line l) (\<lambda>header.
          bindE (guardE (is_dict header \<and> field ''format'' header = Some (JStr circuit_format))
            (HarnessError ''Unknown circuit format'')) (\<lambda>_.
          bindE (mapE circuit_line ls) (\<lambda>ops. Inr (header, ops)))))"

definition circuit_hash :: "(string \<Rightarrow> 'h) \<Rightarrow> string \<Rightarrow> 'h res" where
  "circuit_hash sha text = bindE (circuit_lines text) (\<lambda>_. Inr (sha (concat (stream_lines text))))"

lemma concat_stream_lines [simp]: "concat (stream_lines s) = s"
  by (induction s) (auto split: list.splits)

lemma stream_lines_line: "newline \<notin> set l \<Longrightarrow> stream_lines (l @ newline # s) = (l @ [newline]) # stream_lines s"
  by (induction l) auto

lemma stream_lines_json:
  "stream_lines (concat (map json_file vs) @ s) = map json_file vs @ stream_lines s"
  using canonical_no_newline by (induction vs) (simp_all add: json_file_def stream_lines_line)

lemma circuit_line_json:
  assumes "well_keyed v" and "ordered v = v"
  shows "circuit_line (json_file v) = Inr v"
  using loads_line[OF assms(1)] assms(2) by (simp add: circuit_line_def json_file_def)

lemma json_file_ordered: "json_file (ordered v) = json_file v"
  by (simp add: json_file_def canonical_plain ordered_idem)

lemma circuit_line_written: "well_keyed v \<Longrightarrow> circuit_line (json_file v) = Inr (ordered v)"
  using circuit_line_json[of "ordered v"] by (simp add: ordered_well_keyed ordered_idem json_file_ordered)

lemma circuit_line_text: "circuit_line l = Inr v \<Longrightarrow> l = json_file v"
  by (auto simp: circuit_line_def split: option.splits if_splits)

lemma field_ordered:
  assumes "well_keyed v" and "field k v = Some (JStr s)"
  shows "field k (ordered v) = Some (JStr s)"
proof -
  from assms(2) obtain kvs where v: "v = JObj kvs" "map_of kvs k = Some (JStr s)"
    by (auto simp: field_def split: json.splits)
  then have "distinct (map fst (sort_key fst kvs))" using assms(1) by (simp add: distinct_map)
  moreover have "(k, JStr s) \<in> set (sort_key fst kvs)" using map_of_SomeD[OF v(2)] by simp
  ultimately have "map_of (sort_key fst kvs) k = Some (JStr s)" by simp
  then have "map_of (map (\<lambda>kv. (fst kv, ordered (snd kv))) (sort_key fst kvs)) k = Some (ordered (JStr s))"
    using map_of_map[of ordered "sort_key fst kvs"] by (simp add: case_prod_unfold)
  then show ?thesis by (simp add: v(1) field_def sort_key_map_snd)
qed

text \<open>An artifact has one encoding: an accepted text is determined by its values.\<close>

lemma circuit_lines_text:
  assumes "circuit_lines text = Inr vs"
  shows "text = concat (map json_file vs)"
proof -
  have "list_all2 (\<lambda>l v. circuit_line l = Inr v) (stream_lines text) vs"
    using assms by (simp add: circuit_lines_def mapE_Inr_iff)
  then have "stream_lines text = map json_file vs"
    by (induction rule: list_all2_induct) (simp_all add: circuit_line_text)
  then show ?thesis using concat_stream_lines[of "text"] by simp
qed

text \<open>
  C39. A circuit that was written reads back as it was, up to the order of the keys of its objects,
  and the hash of the artifact is the one the writer returned.
\<close>

theorem circuit_roundtrip:
  assumes "well_keyed header" and "\<forall>op\<in>set ops. well_keyed op"
    and "write_circuit sha header ops = Inr (text, h)"
  shows "read_circuit text = Inr (ordered header, map ordered ops) \<and> circuit_hash sha text = Inr h"
proof -
  have f: "field ''format'' header = Some (JStr circuit_format)" and doc: "text = concat (map json_file (header # ops))"
    and h: "h = sha text"
    using assms(3) by (auto simp: write_circuit_def res_simps Let_def)
  have lines: "stream_lines text = json_file header # map json_file ops"
    using stream_lines_json[of "header # ops" "[]"] by (simp add: doc)
  have ops: "mapE circuit_line (map json_file ops) = Inr (map ordered ops)"
    using assms(2) by (simp add: mapE_Inr_iff list_all2_conv_all_nth circuit_line_written)
  have "is_dict (ordered header)" using f by (auto simp: field_def is_dict_def split: json.splits)
  moreover note hd = circuit_line_written[OF assms(1)]
  ultimately have "read_circuit text = Inr (ordered header, map ordered ops)"
    by (simp add: read_circuit_def lines field_ordered[OF assms(1) f] ops guardE_def)
  moreover have "circuit_hash sha text = Inr (sha text)"
    using hd ops lines concat_stream_lines[of "text"] by (simp add: circuit_hash_def circuit_lines_def)
  ultimately show ?thesis by (simp add: h)
qed

section \<open>Witnesses\<close>

definition demo_header :: json where
  "demo_header = JObj [(''num_qubits'', JInt 2), (''format'', JStr circuit_format), (''name'', JStr [newline, quote_char])]"

definition demo_op :: json where
  "demo_op = JArr [JStr ''cx'', JArr [JInt 0, JInt 1], JObj [], JNull, JBool True, JInt (- 17)]"

theorem circuit_roundtrip_witness:
  "\<exists>text. write_circuit length demo_header [demo_op] = Inr (text, length text)
    \<and> read_circuit text = Inr (ordered demo_header, [ordered demo_op])
    \<and> circuit_hash length text = Inr (length text)"
proof -
  have k: "well_keyed demo_header" "well_keyed demo_op" by (simp_all add: demo_header_def demo_op_def)
  have "field ''format'' demo_header = Some (JStr circuit_format)" by (simp add: field_def demo_header_def)
  then obtain doc where w: "write_circuit length demo_header [demo_op] = Inr (doc, length doc)"
    by (simp add: write_circuit_def Let_def)
  from circuit_roundtrip[OF k(1) _ w] k(2) w show ?thesis by auto
qed

end
