(* ===== verification/Storage.thy ===== *)
theory Storage
  imports Canonical
begin

text \<open>
  The append-only record files of \<open>src/src/qtb/coordinator/storage.py\<close>: \<open>append_record\<close> with its search
  for the last complete line in blocks of 64 KiB, \<open>read_records\<close>, and writers that are killed in
  the middle of an append. The lock file makes appends exclusive, so one append is one event; a
  killed one stops after any number of bytes. The abstract view of a file is the list of its
  committed records, and every history of appends refines the same history on lists.
\<close>

section \<open>Operations\<close>

definition BLOCK :: nat where "BLOCK = 65536"

lemma BLOCK_pos [simp]: "0 < BLOCK"
  by (simp add: BLOCK_def)

text \<open>\<open>chunk.rfind(b"\n")\<close>.\<close>

definition rfind_newline :: "string \<Rightarrow> nat option" where
  "rfind_newline s =
     (let tail = takeWhile (\<lambda>c. c \<noteq> newline) (rev s) in
      if length tail = length s then None else Some (length s - length tail - 1))"

text \<open>The loop that looks backwards, block by block, for the end of the last complete line.\<close>

function boundary :: "string \<Rightarrow> nat \<Rightarrow> nat" where
  "boundary s cursor =
     (if cursor = 0 then 0
      else let start = cursor - BLOCK; chunk = take (cursor - start) (drop start s) in
        case rfind_newline chunk of
          Some i \<Rightarrow> start + i + 1
        | None \<Rightarrow> boundary s start)"
  by auto
termination by (relation "measure (\<lambda>(s, cursor). cursor)") auto

declare boundary.simps [simp del]

definition without_tail :: "string \<Rightarrow> string" where
  "without_tail s = (if s \<noteq> [] \<and> last s \<noteq> newline then take (boundary s (length s)) s else s)"

definition old_content :: "string option \<Rightarrow> string" where
  "old_content content = (case content of None \<Rightarrow> [] | Some s \<Rightarrow> s)"

definition append_record :: "json \<Rightarrow> string option \<Rightarrow> string option" where
  "append_record row content = Some (without_tail (old_content content) @ json_file row)"

fun complete_rows :: "string list \<Rightarrow> json list res" where
  "complete_rows [] = Inr []"
| "complete_rows (l # ls) =
     (if last l \<noteq> newline then Inr []
      else (case loads l of
          None \<Rightarrow> Inl (HarnessError ''Corrupt completed record'')
        | Some v \<Rightarrow> bindE (complete_rows ls) (\<lambda>vs. Inr (v # vs))))"

definition read_records :: "string option \<Rightarrow> json list res" where
  "read_records content = (case content of None \<Rightarrow> Inr [] | Some s \<Rightarrow> complete_rows (stream_lines s))"

section \<open>Writers\<close>

text \<open>
  What a history leaves in the file. A killed writer leaves the file as it was (\<open>Idle\<close>), created
  and cut but with nothing written, or with the first bytes of its line.
\<close>

datatype log_event = Appended json | Killed json nat | Idle

definition log_step :: "log_event \<Rightarrow> string option \<Rightarrow> string option" where
  "log_step e content =
     (case e of
        Appended row \<Rightarrow> append_record row content
      | Killed row k \<Rightarrow> Some (without_tail (old_content content) @ take k (json_file row))
      | Idle \<Rightarrow> content)"

definition log_run :: "log_event list \<Rightarrow> string option \<Rightarrow> string option" where
  "log_run es content = fold log_step es content"

text \<open>The abstract history: the records whose line was written to its end.\<close>

definition commits :: "log_event \<Rightarrow> json list" where
  "commits e =
     (case e of
        Appended row \<Rightarrow> [ordered row]
      | Killed row k \<Rightarrow> if length (json_file row) \<le> k then [ordered row] else []
      | Idle \<Rightarrow> [])"

definition proper_event :: "log_event \<Rightarrow> bool" where
  "proper_event e = (case e of Appended row \<Rightarrow> well_keyed row | Killed row k \<Rightarrow> well_keyed row | Idle \<Rightarrow> True)"

section \<open>The search for the last complete line\<close>

text \<open>The reference definition: everything up to the last newline.\<close>

definition complete_part :: "string \<Rightarrow> string" where
  "complete_part s = rev (dropWhile (\<lambda>c. c \<noteq> newline) (rev s))"

lemma complete_part_append:
  "newline \<in> set t \<Longrightarrow> complete_part (s @ t) = s @ complete_part t"
  "newline \<notin> set t \<Longrightarrow> complete_part (s @ t) = complete_part s"
  unfolding complete_part_def by (auto simp: dropWhile_append)

lemma complete_part_length: "length (complete_part s) \<le> length s"
  by (metis complete_part_def length_dropWhile_le length_rev)

lemma complete_part_prefix: "take (length (complete_part s)) s = complete_part s"
proof -
  have "s = complete_part s @ rev (takeWhile (\<lambda>c. c \<noteq> newline) (rev s))"
    unfolding complete_part_def by (metis rev_append rev_rev_ident takeWhile_dropWhile_id)
  then show ?thesis by (metis append_eq_conv_conj)
qed

lemma rfind_None: "rfind_newline s = None \<longleftrightarrow> newline \<notin> set s"
proof -
  have "length (takeWhile P xs) = length xs \<longleftrightarrow> (\<forall>x\<in>set xs. P x)" for P and xs :: string
    by (induction xs) auto
  from this[of "\<lambda>c. c \<noteq> newline" "rev s"] show ?thesis
    by (auto simp: rfind_newline_def Let_def)
qed

lemma rfind_Some: "rfind_newline s = Some i \<Longrightarrow> length (complete_part s) = Suc i \<and> newline \<in> set s"
proof -
  assume i: "rfind_newline s = Some i"
  let ?t = "takeWhile (\<lambda>c. c \<noteq> newline) (rev s)"
  have "length ?t \<le> length s" by (metis length_rev length_takeWhile_le)
  then have "length ?t < length s" "i = length s - length ?t - 1"
    using i by (auto simp: rfind_newline_def Let_def split: if_splits)
  moreover have "length (complete_part s) = length s - length ?t"
    unfolding complete_part_def by (simp add: dropWhile_eq_drop)
  moreover have "newline \<in> set s" using i rfind_None[of s] by auto
  ultimately show ?thesis by auto
qed

lemma boundary_complete: "cursor \<le> length s \<Longrightarrow> boundary s cursor = length (complete_part (take cursor s))"
proof (induction s cursor rule: boundary.induct)
  case (1 s cursor)
  show ?case
  proof (cases "cursor = 0")
    case True
    then show ?thesis by (subst boundary.simps) (simp add: complete_part_def)
  next
    case False
    define start where "start = cursor - BLOCK"
    define chunk where "chunk = take (cursor - start) (drop start s)"
    have split: "take cursor s = take start s @ chunk"
      unfolding chunk_def start_def by (metis diff_le_self le_add_diff_inverse take_add)
    show ?thesis
    proof (cases "rfind_newline chunk")
      case None
      have "newline \<notin> set chunk" using None rfind_None by blast
      then have "complete_part (take cursor s) = complete_part (take start s)"
        unfolding split by (rule complete_part_append(2))
      moreover have "boundary s start = length (complete_part (take start s))"
        using 1(1)[OF False start_def chunk_def None] 1(2) start_def by simp
      ultimately show ?thesis
        by (subst boundary.simps) (simp add: False start_def[symmetric] chunk_def[symmetric] None Let_def)
    next
      case (Some i)
      then have "complete_part (take cursor s) = take start s @ complete_part chunk" "length (complete_part chunk) = Suc i"
        unfolding split using rfind_Some complete_part_append(1) by blast+
      moreover have "length (take start s) = start" using 1(2) by (simp add: start_def)
      ultimately show ?thesis using Some
        by (subst boundary.simps) (simp add: False start_def[symmetric] chunk_def[symmetric] Let_def)
    qed
  qed
qed

lemma complete_part_last: "s = [] \<or> last s = newline \<Longrightarrow> complete_part s = s"
  by (cases s rule: rev_cases) (auto simp: complete_part_def)

text \<open>
  The block-wise search finds exactly the last complete line: what \<open>append_record\<close> keeps of a
  file of any length is everything up to its last newline.
\<close>

theorem without_tail_complete: "without_tail s = complete_part s"
proof (cases "s \<noteq> [] \<and> last s \<noteq> newline")
  case True
  have "boundary s (length s) = length (complete_part s)" using boundary_complete[of "length s" s] by simp
  with True show ?thesis by (simp add: without_tail_def complete_part_prefix)
next
  case False
  then show ?thesis using complete_part_last by (auto simp: without_tail_def)
qed

section \<open>Reading\<close>

lemma json_file_lines: "json_file row \<noteq> []" "last (json_file row) = newline" "newline \<notin> set (canonical_bytes row)"
  by (simp_all add: json_file_def canonical_no_newline)

lemma stream_lines_open: "newline \<notin> set s \<Longrightarrow> s \<noteq> [] \<Longrightarrow> stream_lines s = [s]"
proof (induction s)
  case (Cons c s)
  then show ?case by (cases "s = []") auto
qed simp

lemma complete_rows_log:
  assumes "\<forall>v\<in>set vs. well_keyed v" and "newline \<notin> set tail"
  shows "complete_rows (stream_lines (concat (map json_file vs) @ tail)) = Inr (map ordered vs)"
proof -
  have t: "complete_rows (stream_lines tail) = Inr []"
    using assms(2) by (cases "tail = []") (auto simp: stream_lines_open dest: last_in_set)
  have "complete_rows (map json_file vs @ stream_lines tail) = Inr (map ordered vs)"
    using assms(1)
  proof (induction vs)
    case (Cons v vs)
    then have "loads (json_file v) = Some (ordered v)" by (simp add: json_file_def loads_line)
    with Cons show ?case by (simp add: json_file_lines)
  qed (simp add: t)
  then show ?thesis by (simp add: stream_lines_json)
qed

text \<open>The invariant of a record file: committed records and a tail without a newline.\<close>

definition log_file :: "json list \<Rightarrow> string option \<Rightarrow> bool" where
  "log_file vs content \<longleftrightarrow> (\<forall>v\<in>set vs. well_keyed v)
     \<and> (\<exists>tail. newline \<notin> set tail \<and> old_content content = concat (map json_file vs) @ tail)"

lemma log_file_read: "log_file vs content \<Longrightarrow> read_records content = Inr (map ordered vs)"
proof (cases content)
  case None
  assume "log_file vs content"
  then have "concat (map json_file vs) = []" using None by (auto simp: log_file_def old_content_def)
  then have "vs = []" using json_file_lines(1) by (cases vs) auto
  with None show ?thesis by (simp add: read_records_def)
next
  case (Some s)
  assume "log_file vs content"
  with Some show ?thesis by (auto simp: log_file_def old_content_def read_records_def complete_rows_log)
qed

lemma complete_part_log:
  assumes "newline \<notin> set tail"
  shows "complete_part (concat (map json_file vs) @ tail) = concat (map json_file vs)"
proof -
  have "concat (map json_file vs) = [] \<or> last (concat (map json_file vs)) = newline"
    by (cases vs rule: rev_cases) (simp_all add: json_file_lines)
  then show ?thesis using complete_part_append(2)[OF assms] complete_part_last by simp
qed

definition committed_row :: "log_event \<Rightarrow> json list" where
  "committed_row e =
     (case e of
        Appended row \<Rightarrow> [row]
      | Killed row k \<Rightarrow> if length (json_file row) \<le> k then [row] else []
      | Idle \<Rightarrow> [])"

lemma commits_rows: "commits = (\<lambda>e. map ordered (committed_row e))"
  by (rule ext) (simp add: commits_def committed_row_def split: log_event.splits)

lemma log_step_file:
  assumes "log_file vs content" and "proper_event e"
  shows "log_file (vs @ committed_row e) (log_step e content)"
proof -
  obtain tail where tail: "newline \<notin> set tail" "old_content content = concat (map json_file vs) @ tail"
    and k: "\<forall>v\<in>set vs. well_keyed v" using assms(1) by (auto simp: log_file_def)
  have cut: "without_tail (old_content content) = concat (map json_file vs)"
    using tail by (simp add: without_tail_complete complete_part_log)
  show ?thesis
  proof (cases e)
    case (Appended row)
    then show ?thesis using assms(2) k cut
      by (auto simp: log_file_def log_step_def append_record_def committed_row_def proper_event_def old_content_def intro!: exI[of _ "[]"])
  next
    case (Killed row n)
    show ?thesis
    proof (cases "length (json_file row) \<le> n")
      case True
      then show ?thesis using Killed assms(2) k cut
        by (auto simp: log_file_def log_step_def committed_row_def proper_event_def old_content_def intro!: exI[of _ "[]"])
    next
      case False
      then have "take n (json_file row) = take n (canonical_bytes row)" by (simp add: json_file_def)
      then have "newline \<notin> set (take n (json_file row))" using json_file_lines(3) by (metis in_set_takeD)
      with False show ?thesis using Killed k cut
        by (auto simp: log_file_def log_step_def committed_row_def old_content_def)
    qed
  next
    case Idle
    then show ?thesis using assms(1) by (simp add: log_step_def committed_row_def)
  qed
qed

lemma log_run_file:
  assumes "log_file vs content" and "\<forall>e\<in>set es. proper_event e"
  shows "log_file (vs @ concat (map committed_row es)) (log_run es content)"
  using assms
proof (induction es arbitrary: vs content)
  case (Cons e es)
  from Cons.IH[OF log_step_file[OF Cons.prems(1), of e]] Cons.prems(2) show ?case by (simp add: log_run_def)
qed (simp add: log_run_def)

text \<open>
  C36. A record file refines the list of its committed records: after any history of appends, some
  of them killed at any byte, \<open>read_records\<close> succeeds and returns exactly the records whose lines were
  completed, in order. No torn tail is ever read as a record or spoils the next one.
\<close>

theorem log_refines_list:
  assumes "\<forall>e\<in>set es. proper_event e"
  shows "read_records (log_run es None) = Inr (concat (map commits es))"
proof -
  have "log_file [] None" by (simp add: log_file_def old_content_def)
  from log_file_read[OF log_run_file[OF this assms]] show ?thesis
    by (simp add: map_concat o_def commits_rows)
qed

theorem log_refines_list_witness:
  "read_records (log_run [Appended (JInt 1), Killed (JObj [(''a'', JNull)]) 3, Idle, Appended (JStr ''b''), Killed JNull 5] None)
     = Inr [JInt 1, JStr ''b'', JNull]"
  by (subst log_refines_list) (simp_all add: proper_event_def commits_def json_file_def)

end
