(* ===== verification/Process.thy ===== *)
theory Process
  imports Text "HOL-Library.Multiset"
begin

text \<open>
  Worker processes: \<open>src/src/qtb/coordinator/process.py\<close>. What a process does is given from outside: the
  polls \<open>run_worker\<close> makes while it lives, the rows it wrote, its return code and the tail of its log.
  The model holds the watch loop with its heartbeat timeout and hooks, the validation of the rows,
  the completion of a batch that was cut short, and the restart after a timeout. Paths are strings;
  the JSON-schema validation of a row is the parameter \<open>valid\<close>.
\<close>

section \<open>Rows\<close>

text \<open>An exported circuit: what the verifier needs of a result or of one of its bindings.\<close>

record export =
  ex_output :: string
  ex_layout :: string

text \<open>The answers of an \<open>api_checks\<close> job.\<close>

record api_result =
  api_input_before :: string
  api_input_after :: string
  api_first :: string
  api_again :: string
  api_batch_count :: nat
  api_batch_hashes :: "string list"
  api_individual_hashes :: "string list"
  api_first_layout :: string
  api_again_layout :: string
  api_batch_layouts :: "string list"
  api_individual_layouts :: "string list"
  api_batch_metadata :: "string list"
  api_input_metadata :: "string list"
  api_negative_tests :: "string list"

record wresult =
  wk_status :: string
  wk_mode :: string
  wk_seed :: nat
  wk_error :: "string option"
  wk_not_attempted :: bool
  wk_returncode :: "int option"
  wk_job_file :: "string option"
  wk_output :: string
  wk_output_hash :: "string option"
  wk_layout :: string
  wk_free_parameters :: "string list"
  wk_bindings :: "export list"
  wk_start_times :: "string option"
  wk_circuit_hash :: "string option"
  wk_target_hash :: "string option"
  wk_api :: "api_result option"

definition error_row :: "string \<Rightarrow> nat \<Rightarrow> string \<Rightarrow> bool \<Rightarrow> int \<Rightarrow> wresult" where
  "error_row mode seed err skipped code = \<lparr>wk_status = ''error'', wk_mode = mode, wk_seed = seed,
     wk_error = Some err, wk_not_attempted = skipped, wk_returncode = Some code, wk_job_file = None,
     wk_output = [], wk_output_hash = None, wk_layout = [], wk_free_parameters = [], wk_bindings = [],
     wk_start_times = None, wk_circuit_hash = None, wk_target_hash = None, wk_api = None\<rparr>"

lemma error_row_sel [simp]:
  "wk_seed (error_row mode seed err skipped code) = seed" "wk_mode (error_row mode seed err skipped code) = mode"
  "wk_status (error_row mode seed err skipped code) = ''error''"
  "wk_not_attempted (error_row mode seed err skipped code) = skipped"
  by (simp_all add: error_row_def)

record wjob =
  jb_mode :: string
  jb_seeds :: "nat list"
  jb_timeout :: nat
  jb_body :: string

section \<open>Watching one process\<close>

text \<open>The measurement channel at a poll: silent, closed, or one acknowledged byte.\<close>

datatype signal = Silent | Closed | Boundary "exn option"

record poll =
  po_rows :: nat
  po_abort :: "exn option"
  po_now :: nat
  po_signal :: signal

text \<open>
  The loop of \<open>run_worker\<close> over the polls a process lives through: whether it was stopped by the
  heartbeat timeout, and the exception of a hook that stopped it. The list ends when the process exits.
\<close>

fun watch :: "nat \<Rightarrow> nat \<Rightarrow> nat \<Rightarrow> bool \<Rightarrow> poll list \<Rightarrow> bool \<times> exn option" where
  "watch timeout since finished observed [] = (False, None)"
| "watch timeout since finished observed (p # ps) =
     (let (finished, since) = (if po_rows p > finished then (po_rows p, po_now p) else (finished, since)) in
      case po_abort p of
        Some e \<Rightarrow> (False, Some e)
      | None \<Rightarrow>
          if po_now p - since > timeout then (True, None)
          else if \<not> observed then watch timeout since finished observed ps
          else (case po_signal p of
              Silent \<Rightarrow> watch timeout since finished True ps
            | Closed \<Rightarrow> watch timeout since finished False ps
            | Boundary None \<Rightarrow> watch timeout since finished True ps
            | Boundary (Some e) \<Rightarrow> (False, Some e)))"

record process =
  pr_start :: nat
  pr_polls :: "poll list"
  pr_hooked :: bool
  pr_observed :: bool
  pr_exited :: "exn option"
  pr_reaped :: "exn option"
  pr_rows :: "wresult list res"
  pr_returncode :: int
  pr_log_tail :: string

text \<open>The exception that ends the call: of \<open>reaped\<close>, or else of the loop, or else of \<open>exited\<close>.\<close>

definition abort_of :: "process \<Rightarrow> exn option \<Rightarrow> exn option" where
  "abort_of p stopped =
     (if \<not> pr_hooked p then stopped
      else (case pr_reaped p of
          Some e \<Rightarrow> Some e
        | None \<Rightarrow> (case stopped of Some e \<Rightarrow> Some e | None \<Rightarrow> pr_exited p)))"

section \<open>A batch\<close>

definition duplicate_error :: exn where
  "duplicate_error = HarnessError ''Worker returned duplicate/unrequested results''"

text \<open>The loop over the rows: it returns the seeds it has seen.\<close>

fun check_rows :: "(wresult \<Rightarrow> unit res) \<Rightarrow> wjob \<Rightarrow> nat list \<Rightarrow> wresult list \<Rightarrow> nat list res" where
  "check_rows valid job seen [] = Inr seen"
| "check_rows valid job seen (r # rs) =
     bindE (valid r) (\<lambda>_.
     bindE (guardE (wk_seed r \<in> set (jb_seeds job) \<and> wk_seed r \<notin> set seen \<and> wk_mode r = jb_mode job)
       duplicate_error) (\<lambda>_.
     check_rows valid job (seen @ [wk_seed r]) rs))"

definition stop_reason :: "process \<Rightarrow> bool \<Rightarrow> string" where
  "stop_reason p timed_out =
     (if timed_out then ''Worker timed out'' else ''Worker exited before completing the batch'')
     @ (if pr_log_tail p \<noteq> [] then '': '' @ pr_log_tail p else [])"

definition set_job_file :: "string \<Rightarrow> wresult \<Rightarrow> wresult" where
  "set_job_file file r = (if wk_job_file r = None then r\<lparr>wk_job_file := Some file\<rparr> else r)"

definition skipped_rows :: "wjob \<Rightarrow> nat list \<Rightarrow> int \<Rightarrow> wresult list" where
  "skipped_rows job pending code =
     map (\<lambda>seed. error_row (jb_mode job) seed
        (''Not attempted after abnormal worker exit for seed '' @ show_nat (hd pending)) True code) (tl pending)"

definition pending_seeds :: "nat list \<Rightarrow> nat list \<Rightarrow> nat list" where
  "pending_seeds seeds seen = filter (\<lambda>s. s \<notin> set seen) seeds"

lemma pending_seeds_shorter [termination_simp]:
  "pending_seeds seeds seen \<noteq> [] \<Longrightarrow> length (tl (pending_seeds seeds seen)) < length seeds"
proof -
  assume "pending_seeds seeds seen \<noteq> []"
  then have "length (tl (pending_seeds seeds seen)) < length (pending_seeds seeds seen)" by simp
  also have "\<dots> \<le> length seeds" by (simp add: pending_seeds_def)
  finally show ?thesis .
qed

text \<open>
  \<open>run_worker\<close>; \<open>spawn\<close> is what the process of a directory and job does. A timeout restarts the
  seeds after the interrupted one in a fresh process, another early exit marks them not attempted.
\<close>

function run_worker ::
    "(string \<Rightarrow> wjob \<Rightarrow> process) \<Rightarrow> (wresult \<Rightarrow> unit res) \<Rightarrow> string \<Rightarrow> wjob \<Rightarrow> wresult list res" where
  "run_worker spawn valid directory job =
     (let p = spawn directory job;
          (timed_out, stopped) = watch (jb_timeout job) (pr_start p) 0 (pr_observed p) (pr_polls p) in
      case abort_of p stopped of
        Some e \<Rightarrow> Inl e
      | None \<Rightarrow>
          bindE (pr_rows p) (\<lambda>rows.
          bindE (check_rows valid job [] rows) (\<lambda>seen.
          let pending = pending_seeds (jb_seeds job) seen in
          bindE
            (if pending = [] then Inr rows
             else
               let failed = error_row (jb_mode job) (hd pending) (stop_reason p timed_out) False (pr_returncode p) in
               if timed_out \<and> tl pending \<noteq> []
               then bindE (run_worker spawn valid (directory @ ''/retry-'' @ show_nat (hd (tl pending)))
                      (job\<lparr>jb_seeds := tl pending\<rparr>)) (\<lambda>more. Inr (rows @ failed # more))
               else Inr (rows @ failed # skipped_rows job pending (pr_returncode p)))
            (\<lambda>results. Inr (map (set_job_file (directory @ ''/job.json'')) results)))))"
  by pat_completeness auto
termination
  by (relation "measure (\<lambda>(spawn, valid, directory, job). length (jb_seeds job))") (auto simp: pending_seeds_shorter[simplified])

declare run_worker.simps [simp del]

section \<open>The rows of a batch\<close>

lemma check_rows_seen:
  "check_rows valid job seen rs = Inr seen' \<Longrightarrow> seen' = seen @ map wk_seed rs \<and> (distinct seen \<longrightarrow> distinct seen')
     \<and> (\<forall>r\<in>set rs. wk_seed r \<in> set (jb_seeds job) \<and> wk_mode r = jb_mode job \<and> valid r = Inr ())"
proof (induction rs arbitrary: seen)
  case (Cons r rs)
  then have "check_rows valid job (seen @ [wk_seed r]) rs = Inr seen'" "valid r = Inr ()"
    "wk_seed r \<in> set (jb_seeds job)" "wk_seed r \<notin> set seen" "wk_mode r = jb_mode job"
    by (auto simp: res_simps)
  with Cons.IH[OF this(1)] show ?case by (auto simp: disjoint_iff) blast
qed simp

lemma set_job_file_sel [simp]:
  "wk_seed (set_job_file f r) = wk_seed r" "wk_mode (set_job_file f r) = wk_mode r"
  "wk_status (set_job_file f r) = wk_status r" 
  "wk_job_file (set_job_file f r) = Some (case wk_job_file r of None \<Rightarrow> f | Some g \<Rightarrow> g)"
  by (simp_all add: set_job_file_def split: option.split)

lemma skipped_rows_seeds: "map wk_seed (skipped_rows job pending code) = tl pending"
  by (simp add: skipped_rows_def o_def)

lemma skipped_rows_mode: "r \<in> set (skipped_rows job pending code) \<Longrightarrow> wk_mode r = jb_mode job \<and> wk_status r = ''error''"
  by (auto simp: skipped_rows_def)

text \<open>The rows that processes wrote in the course of a call, and the shape of the answer.\<close>

definition written :: "(string \<Rightarrow> wjob \<Rightarrow> process) \<Rightarrow> wresult \<Rightarrow> bool" where
  "written spawn r \<longleftrightarrow> (\<exists>d j rows r'. pr_rows (spawn d j) = Inr rows \<and> r' \<in> set rows
     \<and> r'\<lparr>wk_job_file := None\<rparr> = r\<lparr>wk_job_file := None\<rparr>)"

lemma written_set_job_file: "written spawn (set_job_file f r) = written spawn r"
  by (simp add: written_def set_job_file_def)

definition batch_ok :: "(string \<Rightarrow> wjob \<Rightarrow> process) \<Rightarrow> wjob \<Rightarrow> wresult list \<Rightarrow> bool" where
  "batch_ok spawn job rows \<longleftrightarrow> mset (map wk_seed rows) = mset (jb_seeds job)
     \<and> (\<forall>r\<in>set rows. wk_mode r = jb_mode job \<and> (wk_status r = ''error'' \<or> written spawn r))"

lemma pending_mset:
  assumes "distinct seen" and "set seen \<subseteq> set seeds" and "distinct seeds"
  shows "mset seen + mset (pending_seeds seeds seen) = mset seeds"
proof -
  have "mset (filter (\<lambda>s. s \<in> set seen) seeds) = mset seen"
    using assms by (intro set_eq_iff_mset_eq_distinct[THEN iffD1]) auto
  then have "mset seen + mset (pending_seeds seeds seen)
      = mset (filter (\<lambda>s. s \<in> set seen) seeds) + mset (filter (\<lambda>s. s \<notin> set seen) seeds)"
    by (simp add: pending_seeds_def)
  also have "\<dots> = mset seeds" by (simp add: mset_filter)
  finally show ?thesis .
qed

lemma batch_ok_append:
  assumes "\<forall>r\<in>set rows. wk_mode r = jb_mode job \<and> written spawn r"
    and "mset (map wk_seed rows) + mset (map wk_seed others) = mset (jb_seeds job)"
    and "\<forall>r\<in>set others. wk_mode r = jb_mode job \<and> (wk_status r = ''error'' \<or> written spawn r)"
  shows "batch_ok spawn job (rows @ others)"
  using assms by (auto simp: batch_ok_def)

lemma run_worker_batch:
  "run_worker spawn valid directory job = Inr rows \<Longrightarrow> distinct (jb_seeds job) \<Longrightarrow> batch_ok spawn job rows"
proof (induction spawn valid directory job arbitrary: rows rule: run_worker.induct)
  case (1 spawn valid directory job)
  define p where "p = spawn directory job"
  obtain timed_out stopped where w: "watch (jb_timeout job) (pr_start p) 0 (pr_observed p) (pr_polls p) = (timed_out, stopped)"
    by fastforce
  obtain got seen results where run: "abort_of p stopped = None" "pr_rows p = Inr got"
    "check_rows valid job [] got = Inr seen" "rows = map (set_job_file (directory @ ''/job.json'')) results"
    and results: "(if pending_seeds (jb_seeds job) seen = [] then Inr got
       else let failed = error_row (jb_mode job) (hd (pending_seeds (jb_seeds job) seen)) (stop_reason p timed_out) False (pr_returncode p) in
         if timed_out \<and> tl (pending_seeds (jb_seeds job) seen) \<noteq> []
         then bindE (run_worker spawn valid (directory @ ''/retry-'' @ show_nat (hd (tl (pending_seeds (jb_seeds job) seen))))
                (job\<lparr>jb_seeds := tl (pending_seeds (jb_seeds job) seen)\<rparr>)) (\<lambda>others. Inr (got @ failed # others))
         else Inr (got @ failed # skipped_rows job (pending_seeds (jb_seeds job) seen) (pr_returncode p))) = Inr results"
    using 1(2) w unfolding run_worker.simps[of spawn valid directory job] p_def[symmetric] Let_def
    by (auto simp: res_simps split: option.splits)
  note seen = check_rows_seen[OF run(3)]
  let ?pending = "pending_seeds (jb_seeds job) seen"
  have ms: "mset (map wk_seed got) + mset ?pending = mset (jb_seeds job)"
    using pending_mset[of seen "jb_seeds job"] seen 1(3) by auto
  have mine: "\<forall>r\<in>set got. wk_mode r = jb_mode job \<and> written spawn r"
    using seen run(2) by (auto simp: written_def p_def)
  have "batch_ok spawn job results"
  proof (cases "?pending = []")
    case True
    then have "results = got" using results by simp
    with batch_ok_append[OF mine, of "[]"] ms True show ?thesis by simp
  next
    case False
    then have pend: "mset ?pending = add_mset (hd ?pending) (mset (tl ?pending))" by (cases ?pending) auto
    obtain others where others: "results = got @ error_row (jb_mode job) (hd ?pending) (stop_reason p timed_out) False (pr_returncode p) # others"
      "mset (map wk_seed others) = mset (tl ?pending)"
      "\<forall>r\<in>set others. wk_mode r = jb_mode job \<and> (wk_status r = ''error'' \<or> written spawn r)"
    proof (cases "timed_out \<and> tl ?pending \<noteq> []")
      case True
      let ?job = "job\<lparr>jb_seeds := tl ?pending\<rparr>"
      from True results False obtain others where m: "run_worker spawn valid (directory @ ''/retry-'' @ show_nat (hd (tl ?pending))) ?job = Inr others"
        "results = got @ error_row (jb_mode job) (hd ?pending) (stop_reason p timed_out) False (pr_returncode p) # others"
        by (auto simp: res_simps)
      have "distinct (tl ?pending)" using 1(3) by (simp add: pending_seeds_def distinct_tl)
      then have "batch_ok spawn ?job others"
        using 1(1)[OF p_def w[symmetric] refl run(1) refl] m(1) True False by simp
      then show ?thesis using that[OF m(2)] by (auto simp: batch_ok_def)
    next
      case other: False
      then have "results = got @ error_row (jb_mode job) (hd ?pending) (stop_reason p timed_out) False (pr_returncode p)
          # skipped_rows job ?pending (pr_returncode p)"
        using results False by (auto simp: Let_def)
      then show ?thesis using that skipped_rows_mode skipped_rows_seeds by metis
    qed
    show ?thesis unfolding others(1)
      by (rule batch_ok_append[OF mine]) (use ms pend others in \<open>auto\<close>)
  qed
  then show ?case unfolding run(4) batch_ok_def by (simp add: o_def written_set_job_file)
qed

lemma run_worker_job_file:
  "run_worker spawn valid directory job = Inr rows \<Longrightarrow> r \<in> set rows \<Longrightarrow> wk_job_file r \<noteq> None"
  by (subst (asm) run_worker.simps)
    (auto simp: res_simps Let_def split: option.splits prod.splits)

text \<open>
  C37. A batch is complete or fails as a whole: the rows \<open>run_worker\<close> returns are one for every
  requested seed and no other, all of the job's mode and with a job file, however often the process was
  stopped or restarted; a row that is not an error was written by a worker process.
\<close>

theorem worker_batch_complete:
  assumes "run_worker spawn valid directory job = Inr rows" and "distinct (jb_seeds job)"
  shows "distinct (map wk_seed rows) \<and> set (map wk_seed rows) = set (jb_seeds job)
    \<and> (\<forall>r\<in>set rows. wk_mode r = jb_mode job \<and> wk_job_file r \<noteq> None \<and> (wk_status r = ''error'' \<or> written spawn r))"
proof -
  have b: "batch_ok spawn job rows" by (rule run_worker_batch[OF assms])
  then have "mset (map wk_seed rows) = mset (jb_seeds job)" by (simp add: batch_ok_def)
  then have "distinct (map wk_seed rows)" "set (map wk_seed rows) = set (jb_seeds job)"
    using assms(2) by (metis mset_eq_imp_distinct_iff, metis set_mset_mset)
  with b run_worker_job_file[OF assms(1)] show ?thesis by (auto simp: batch_ok_def)
qed

section \<open>The heartbeat timeout\<close>

text \<open>The clock advances between two polls.\<close>

fun clocked :: "nat \<Rightarrow> poll list \<Rightarrow> bool" where
  "clocked t [] = True"
| "clocked t (p # ps) = (t < po_now p \<and> clocked (po_now p) ps)"

lemma watch_goes_on:
  assumes "watch timeout since finished observed (p # ps) = (False, None)"
    and "f = max finished (po_rows p)" and "s = (if finished < po_rows p then po_now p else since)"
  shows "po_now p - s \<le> timeout \<and> (\<exists>ob. watch timeout s f ob ps = (False, None))"
proof -
  have "(if po_rows p > finished then (po_rows p, po_now p) else (finished, since)) = (f, s)"
    using assms(2,3) by simp
  then show ?thesis using assms(1)
    by (auto split: option.splits if_splits signal.splits)
qed

lemma watch_bound:
  assumes "watch timeout since finished observed ps = (False, None)" and "clocked t ps"
    and "\<forall>p\<in>set ps. po_rows p \<le> n" and "finished \<le> n" and "since \<le> t" and "t - since \<le> timeout"
  shows "length ps \<le> (n - finished) * (timeout + 1) + (timeout - (t - since))"
  using assms
proof (induction ps arbitrary: since finished observed t)
  case (Cons p ps)
  define f where "f = max finished (po_rows p)"
  define s where "s = (if finished < po_rows p then po_now p else since)"
  obtain ob where go: "po_now p - s \<le> timeout" "watch timeout s f ob ps = (False, None)"
    using watch_goes_on[OF Cons.prems(1) f_def s_def] by blast
  have now: "t < po_now p" "clocked (po_now p) ps" "s \<le> po_now p" "f \<le> n" "\<forall>p\<in>set ps. po_rows p \<le> n"
    using Cons.prems(2-5) by (auto simp: f_def s_def)
  have len: "length ps \<le> (n - f) * (timeout + 1) + (timeout - (po_now p - s))"
    by (rule Cons.IH[OF go(2) now(2,5,4,3) go(1)])
  show ?case
  proof (cases "finished < po_rows p")
    case True
    then have "n - finished = Suc (n - f) + (f - finished - 1)" using now(4) by (simp add: f_def)
    then have "Suc (n - f) * (timeout + 1) \<le> (n - finished) * (timeout + 1)" by (intro mult_le_mono1) simp
    moreover have "length ps + 1 \<le> Suc (n - f) * (timeout + 1)" using len True by (simp add: s_def)
    ultimately have "length ps + 1 \<le> (n - finished) * (timeout + 1)" by (rule order_trans[rotated])
    then show ?thesis unfolding list.size by linarith
  next
    case False
    then have "f = finished" "s = since" by (simp_all add: f_def s_def)
    with len now(1) go(1) Cons.prems(5) show ?thesis by simp
  qed
qed simp

text \<open>
  A hung worker is stopped: with a clock that advances between polls and no more than \<open>n\<close> heartbeat
  rows, a process that lives through more than \<open>(n + 1) * (timeout + 1)\<close> polls has been stopped by the
  heartbeat timeout or by a hook.
\<close>

theorem hung_worker_stopped:
  assumes "clocked start ps" and "\<forall>p\<in>set ps. po_rows p \<le> n" and "(n + 1) * (timeout + 1) \<le> length ps"
  shows "watch timeout start 0 observed ps \<noteq> (False, None)"
proof
  assume "watch timeout start 0 observed ps = (False, None)"
  from watch_bound[OF this assms(1,2)] have "length ps \<le> n * (timeout + 1) + timeout" by simp
  with assms(3) show False by simp
qed

section \<open>Witnesses\<close>

definition demo_row :: "nat \<Rightarrow> wresult" where
  "demo_row seed = (error_row ''quality'' seed [] False 0)\<lparr>wk_status := ''ok''\<rparr>"

definition demo_job :: wjob where
  "demo_job = \<lparr>jb_mode = ''quality'', jb_seeds = [0, 1, 2], jb_timeout = 5, jb_body = []\<rparr>"

text \<open>The first process writes one row and hangs; the second one finishes.\<close>

definition demo_spawn :: "string \<Rightarrow> wjob \<Rightarrow> process" where
  "demo_spawn d j =
     (let first = (jb_seeds j = [0, 1, 2]) in
      \<lparr>pr_start = 0, pr_polls = (if first then [\<lparr>po_rows = 1, po_abort = None, po_now = 3, po_signal = Silent\<rparr>,
           \<lparr>po_rows = 1, po_abort = None, po_now = 9, po_signal = Silent\<rparr>] else []),
       pr_hooked = False, pr_observed = False, pr_exited = None, pr_reaped = None,
       pr_rows = Inr (if first then [demo_row 0] else map demo_row (jb_seeds j)), pr_returncode = 0, pr_log_tail = []\<rparr>)"

lemma demo_batch: "\<exists>rows. run_worker demo_spawn (\<lambda>_. Inr ()) ''d'' demo_job = Inr rows \<and> map wk_status rows = [''ok'', ''error'', ''ok'']"
  by (subst run_worker.simps, subst run_worker.simps)
    (simp add: demo_spawn_def demo_job_def demo_row_def abort_of_def pending_seeds_def set_job_file_def Let_def)

theorem worker_batch_complete_witness:
  "\<exists>rows. run_worker demo_spawn (\<lambda>_. Inr ()) ''d'' demo_job = Inr rows \<and> set (map wk_seed rows) = {0, 1, 2}"
proof -
  obtain rows where r: "run_worker demo_spawn (\<lambda>_. Inr ()) ''d'' demo_job = Inr rows" using demo_batch by blast
  have "distinct (jb_seeds demo_job)" "jb_seeds demo_job = [0, 1, 2]" by (simp_all add: demo_job_def)
  with worker_batch_complete[OF r] r show ?thesis by simp
qed

theorem hung_worker_stopped_witness:
  "watch 1 0 0 False [\<lparr>po_rows = 0, po_abort = None, po_now = 1, po_signal = Silent\<rparr>,
     \<lparr>po_rows = 0, po_abort = None, po_now = 2, po_signal = Silent\<rparr>] \<noteq> (False, None)"
  by (rule hung_worker_stopped[where n = 0]) simp_all

end
