(* ===== verification/Cache.thy ===== *)
theory Cache
  imports Records Process
begin

text \<open>
  The baseline store's quality entries: the second half of \<open>src/src/qtb/coordinator/storage.py\<close>
  (\<open>quality_cache_key\<close>, \<open>cache_quality_observation\<close>, \<open>cached_quality_observation\<close>, invalidation) and
  the entries of \<open>src/src/qtb/coordinator/store.py\<close>. A file system maps paths to bytes; an entry holds
  rows by seed. Digests of structured values are the parameter \<open>digest\<close> applied to the values
  themselves, and \<open>sha\<close> is SHA-256 of a file's bytes. The lock of an entry makes its operations
  atomic towards each other; a killed writer stops between two file operations.
\<close>

section \<open>Rows\<close>

record prefix_output =
  pf_stage :: string
  pf_output :: "string option"
  pf_hash :: "string option"
  pf_job :: "string option"
  pf_retained :: bool

record qcheck =
  qc_check :: check
  qc_prefixes :: "prefix_output list"
  qc_prefix_jobs :: "string list"

text \<open>A line of \<open>observations.jsonl\<close> with the fields that later code reads.\<close>

record qrow =
  qr_id :: string
  qr_case_id :: string
  qr_case_hash :: string
  qr_revision :: string
  qr_build :: string
  qr_seed :: nat
  qr_seed_block :: string
  qr_mode :: string
  qr_worker :: wresult
  qr_reference_hash :: string
  qr_output :: "string option"
  qr_output_hash :: "string option"
  qr_layout :: "string option"
  qr_free_parameters :: "string list"
  qr_metrics :: "metric \<Rightarrow> int option"
  qr_checks :: "qcheck list"
  qr_cache_sha :: "string option"
  qr_cached_from :: "string option"

text \<open>The part of a row the evaluation reads.\<close>

definition observation_of :: "qrow \<Rightarrow> observation" where
  "observation_of r = \<lparr>ob_id = qr_id r, ob_case_id = qr_case_id r, ob_revision = qr_revision r,
     ob_seed = qr_seed r, ob_seed_block = qr_seed_block r, ob_mode = qr_mode r, ob_metrics = qr_metrics r,
     ob_checks = map qc_check (qr_checks r), ob_output_hash = qr_output_hash r,
     ob_layout = (case qr_layout r of None \<Rightarrow> [] | Some l \<Rightarrow> l), ob_cached_from = qr_cached_from r\<rparr>"

section \<open>Keys\<close>

text \<open>\<open>case_hash\<close>: membership and weights do not matter to a compiled observation.\<close>

definition hashed_case :: "tcase \<Rightarrow> tcase" where
  "hashed_case c = c\<lparr>case_id := [], weight := 0, panel := None, family := [], size_band := []\<rparr>"

text \<open>The fields that choose checks stay in the key; the others are left out.\<close>

definition keyed_case :: "tcase \<Rightarrow> tcase" where
  "keyed_case c = c\<lparr>case_id := [], weight := 0, panel := None, family := [], size_band := [],
     seeds_per_block := 0, timeout_s := 0, topology := [], input_group := [], modes := [],
     clifford_variant := None, native_basis := [], variant := None\<rparr>"

definition COST_PROTOCOL_KEYS :: "string list" where
  "COST_PROTOCOL_KEYS = [''warmups'', ''minimum_calls'', ''minimum_ns'', ''screen_rounds'', ''timing_rounds'',
     ''companion_rounds'', ''companion_seeds'', ''memory_processes'', ''rerun_multiplier'']"

record cache_key =
  ke_build :: string
  ke_case :: tcase
  ke_cpu :: "string option"
  ke_harness :: string
  ke_block :: string
  ke_mode :: string
  ke_protocol :: "(string \<times> int) list"
  ke_hash_seed :: string

definition quality_cache_key ::
    "string \<Rightarrow> tcase \<Rightarrow> string option \<Rightarrow> (string \<times> int) list \<Rightarrow> string \<Rightarrow> string \<Rightarrow> string \<Rightarrow> string
       \<Rightarrow> cache_key res" where
  "quality_cache_key build c cpu protocol harness block mode hash_seed =
     (if mode \<notin> {''quality'', ''prefix'', ''roundtrip''}
      then Inl (HarnessError ''Cost observations cannot enter the revision cache'')
      else Inr \<lparr>ke_build = build, ke_case = keyed_case c, ke_cpu = cpu, ke_harness = harness, ke_block = block,
        ke_mode = mode, ke_protocol = filter (\<lambda>(k, v). k \<notin> set COST_PROTOCOL_KEYS) protocol,
        ke_hash_seed = hash_seed\<rparr>)"

section \<open>Entries\<close>

type_synonym files = "string \<rightharpoonup> string"

record store =
  so_files :: files
  so_rows :: "string \<Rightarrow> nat \<rightharpoonup> qrow"
  so_invalid :: "string \<rightharpoonup> string"

definition path_name :: "string \<Rightarrow> string" where
  "path_name p = rev (takeWhile (\<lambda>c. c \<noteq> CHR ''/'') (rev p))"

definition copy_artifact :: "string \<Rightarrow> string \<Rightarrow> files \<Rightarrow> files res" where
  "copy_artifact source dest fs =
     (case fs source of None \<Rightarrow> Inl FileNotFoundError | Some bytes \<Rightarrow> Inr (fs(dest \<mapsto> bytes)))"

definition entry_file :: "string \<Rightarrow> nat \<Rightarrow> string \<Rightarrow> string" where
  "entry_file cache seed name = cache @ ''/'' @ show_nat seed @ ''.'' @ name"

definition cached_name :: "string \<Rightarrow> nat \<Rightarrow> string \<Rightarrow> string" where
  "cached_name cache seed source = entry_file cache seed (path_name source)"

definition prefix_name :: "string \<Rightarrow> nat \<Rightarrow> nat \<Rightarrow> string" where
  "prefix_name cache seed i = entry_file cache seed (''prefix-'' @ show_nat i @ ''.job.json'')"

text \<open>The prefixes of one C6 check: their jobs are copied, their outputs are not kept.\<close>

fun cache_prefixes ::
    "string \<Rightarrow> nat \<Rightarrow> nat \<Rightarrow> prefix_output list \<Rightarrow> files \<Rightarrow> (prefix_output list \<times> string list \<times> files) res" where
  "cache_prefixes cache seed i [] fs = Inr ([], [], fs)"
| "cache_prefixes cache seed i (p # ps) fs =
     (case pf_job p of
        None \<Rightarrow> bindE (cache_prefixes cache seed (Suc i) ps fs) (\<lambda>(qs, jobs, fs). Inr (p # qs, jobs, fs))
      | Some job \<Rightarrow>
          bindE (copy_artifact job (prefix_name cache seed i) fs) (\<lambda>fs.
          bindE (cache_prefixes cache seed (Suc i) ps fs) (\<lambda>(qs, jobs, fs).
            Inr (p\<lparr>pf_job := Some (prefix_name cache seed i), pf_output := None, pf_retained := False\<rparr> # qs,
              prefix_name cache seed i # jobs, fs))))"

definition cache_check :: "string \<Rightarrow> nat \<Rightarrow> qcheck \<Rightarrow> files \<Rightarrow> (qcheck \<times> files) res" where
  "cache_check cache seed k fs =
     (if ck_oracle (qc_check k) \<noteq> Some ''C6'' then Inr (k, fs)
      else bindE (cache_prefixes cache seed 0 (qc_prefixes k) fs) (\<lambda>(qs, jobs, fs).
        Inr (k\<lparr>qc_prefixes := qs, qc_prefix_jobs := (if jobs \<noteq> [] then jobs else qc_prefix_jobs k)\<rparr>, fs)))"

fun cache_checks :: "string \<Rightarrow> nat \<Rightarrow> qcheck list \<Rightarrow> files \<Rightarrow> (qcheck list \<times> files) res" where
  "cache_checks cache seed [] fs = Inr ([], fs)"
| "cache_checks cache seed (k # ks) fs =
     bindE (cache_check cache seed k fs) (\<lambda>(k', fs).
     bindE (cache_checks cache seed ks fs) (\<lambda>(ks', fs). Inr (k' # ks', fs)))"

text \<open>
  \<open>cache_quality_observation\<close>: artifacts first, the row last. \<open>KeyError\<close> without an output.
\<close>

definition cached_row :: "(string \<Rightarrow> string) \<Rightarrow> string \<Rightarrow> nat \<Rightarrow> qrow \<Rightarrow> files \<Rightarrow> (qrow \<times> files) res" where
  "cached_row sha cache seed row fs =
     (case (qr_output row, wk_job_file (qr_worker row)) of
        (Some output, Some job) \<Rightarrow>
          (let out = cached_name cache seed output; job' = cached_name cache seed job in
           bindE (copy_artifact output out fs) (\<lambda>fs.
           case fs out of
             None \<Rightarrow> Inl FileNotFoundError
           | Some bytes \<Rightarrow>
               bindE (copy_artifact job job' fs) (\<lambda>fs.
               bindE (cache_checks cache seed (qr_checks row) fs) (\<lambda>(checks, fs).
               Inr (row\<lparr>qr_output := Some out,
                   qr_worker := (qr_worker row)\<lparr>wk_output := out, wk_job_file := Some job'\<rparr>,
                   qr_cache_sha := Some (sha bytes), qr_checks := checks\<rparr>, fs)))))
      | _ \<Rightarrow> Inl KeyError)"

definition cache_quality_observation ::
    "(string \<Rightarrow> string) \<Rightarrow> string \<Rightarrow> nat \<Rightarrow> qrow \<Rightarrow> store \<Rightarrow> store res" where
  "cache_quality_observation sha cache seed row st =
     bindE (cached_row sha cache seed row (so_files st)) (\<lambda>(row', fs).
       Inr (st\<lparr>so_files := fs, so_rows := (so_rows st)(cache := (so_rows st cache)(seed \<mapsto> row'))\<rparr>))"

definition cached_quality_observation :: "(string \<Rightarrow> string) \<Rightarrow> store \<Rightarrow> string \<Rightarrow> nat \<Rightarrow> qrow option res" where
  "cached_quality_observation sha st cache seed =
     (case so_rows st cache seed of
        None \<Rightarrow> Inl (HarnessError ''Cannot read'')
      | Some row \<Rightarrow>
          (case qr_output row of
             None \<Rightarrow> Inl KeyError
           | Some output \<Rightarrow>
               (case so_files st output of
                  None \<Rightarrow> Inr None
                | Some bytes \<Rightarrow> Inr (if qr_cache_sha row = Some (sha bytes) then Some row else None))))"

definition quality_entry_valid :: "store \<Rightarrow> string \<Rightarrow> bool" where
  "quality_entry_valid st entry \<longleftrightarrow> so_invalid st entry = None"

text \<open>\<open>exists\<close> is whether the entry's directory exists; marking keeps its files.\<close>

definition invalidate_quality_entry :: "bool \<Rightarrow> string \<Rightarrow> string \<Rightarrow> store \<Rightarrow> store" where
  "invalidate_quality_entry exists entry reason st =
     (if exists \<and> quality_entry_valid st entry then st\<lparr>so_invalid := (so_invalid st)(entry \<mapsto> reason)\<rparr> else st)"

definition store_quality_observation ::
    "(string \<Rightarrow> string) \<Rightarrow> string \<Rightarrow> nat \<Rightarrow> qrow \<Rightarrow> store \<Rightarrow> (bool \<times> store) res" where
  "store_quality_observation sha entry seed row st =
     (if \<not> quality_entry_valid st entry then Inr (False, st)
      else bindE (cache_quality_observation sha entry seed row st) (\<lambda>st. Inr (True, st)))"

section \<open>Paths of an entry\<close>

lemma entry_file_inj: "entry_file cache s n = entry_file cache s' n' \<longleftrightarrow> s = s' \<and> n = n'"
proof
  assume "entry_file cache s n = entry_file cache s' n'"
  then have eq: "show_nat s @ CHR ''.'' # n = show_nat s' @ CHR ''.'' # n'" by (simp add: entry_file_def)
  have "\<not> is_digit CHR ''.''" by (simp add: is_digit_def)
  note dot = takeWhile_show_nat[OF this] dropWhile_show_nat[OF this]
  from eq have "show_nat s = show_nat s'" "CHR ''.'' # n = CHR ''.'' # n'" using dot by metis+
  then show "s = s' \<and> n = n'" by (metis list.inject nat_of_show_nat)
qed simp

lemma copy_artifact_Inr: "copy_artifact src dst fs = Inr fs' \<longleftrightarrow> (\<exists>bytes. fs src = Some bytes \<and> fs' = fs(dst \<mapsto> bytes))"
  by (auto simp: copy_artifact_def split: option.splits)

lemma cache_prefixes_files:
  "cache_prefixes cache seed i ps fs = Inr (qs, jobs, fs') \<Longrightarrow> \<forall>j. p \<noteq> prefix_name cache seed j \<Longrightarrow> fs' p = fs p"
  by (induction ps arbitrary: i fs qs jobs)
    (fastforce simp: res_simps copy_artifact_Inr split: option.splits)+

lemma cache_checks_kept:
  assumes "cache_checks cache seed ks fs = Inr (ks', fs')"
  shows "map qc_check ks' = map qc_check ks" and "\<forall>j. p \<noteq> prefix_name cache seed j \<Longrightarrow> fs' p = fs p"
proof -
  have one: "qc_check k' = qc_check k \<and> (\<forall>p. (\<forall>j. p \<noteq> prefix_name cache seed j) \<longrightarrow> fs' p = fs p)"
    if "cache_check cache seed k fs = Inr (k', fs')" for k k' fs fs'
    using that by (auto simp: cache_check_def res_simps cache_prefixes_files split: if_splits)
  have "map qc_check ks' = map qc_check ks \<and> (\<forall>p. (\<forall>j. p \<noteq> prefix_name cache seed j) \<longrightarrow> fs' p = fs p)"
    using assms
  proof (induction ks arbitrary: fs ks')
    case (Cons k ks)
    then obtain k' fs1 ks1 where "cache_check cache seed k fs = Inr (k', fs1)"
      "cache_checks cache seed ks fs1 = Inr (ks1, fs')" "ks' = k' # ks1" by (auto simp: res_simps)
    with one[OF this(1)] Cons.IH[OF this(2)] show ?case by simp
  qed simp
  then show "map qc_check ks' = map qc_check ks" "\<forall>j. p \<noteq> prefix_name cache seed j \<Longrightarrow> fs' p = fs p" by blast+
qed

text \<open>An output whose file name no other artifact of its row has.\<close>

definition own_name :: "string \<Rightarrow> string \<Rightarrow> bool" where
  "own_name output job \<longleftrightarrow> path_name output \<noteq> path_name job
     \<and> \<not> (starts_with (path_name output) ''prefix-'')"

lemma cached_row_files:
  assumes "cached_row sha cache seed row fs = Inr (row', fs')"
  shows "(\<forall>n. p \<noteq> entry_file cache seed n) \<Longrightarrow> fs' p = fs p"
    and "\<exists>output job. qr_output row = Some output \<and> wk_job_file (qr_worker row) = Some job
      \<and> (own_name output job \<longrightarrow> (\<exists>bytes. fs output = Some bytes \<and> fs' (cached_name cache seed output) = Some bytes
          \<and> qr_output row' = Some (cached_name cache seed output) \<and> qr_cache_sha row' = Some (sha bytes)))
      \<and> observation_of row' = observation_of row"
proof -
  obtain out job bytes jbytes checks where r: "qr_output row = Some out" "wk_job_file (qr_worker row) = Some job"
    "fs out = Some bytes" "(fs(cached_name cache seed out \<mapsto> bytes)) job = Some jbytes"
    "cache_checks cache seed (qr_checks row)
       ((fs(cached_name cache seed out \<mapsto> bytes))(cached_name cache seed job \<mapsto> jbytes)) = Inr (checks, fs')"
    "row' = row\<lparr>qr_output := Some (cached_name cache seed out),
       qr_worker := (qr_worker row)\<lparr>wk_output := cached_name cache seed out, wk_job_file := Some (cached_name cache seed job)\<rparr>,
       qr_cache_sha := Some (sha bytes), qr_checks := checks\<rparr>"
    using assms by (auto simp: cached_row_def Let_def res_simps copy_artifact_Inr split: option.splits)
  note kept = cache_checks_kept[OF r(5)]
  show "(\<forall>n. p \<noteq> entry_file cache seed n) \<Longrightarrow> fs' p = fs p"
    using kept(2)[of p] by (simp add: prefix_name_def cached_name_def)
  have "fs' (cached_name cache seed out) = Some bytes" if own: "own_name out job"
  proof -
    have "cached_name cache seed out \<noteq> prefix_name cache seed j" for j
      using own by (auto simp: own_name_def cached_name_def prefix_name_def entry_file_inj)
    moreover have "cached_name cache seed out \<noteq> cached_name cache seed job"
      using own by (simp add: own_name_def cached_name_def entry_file_inj)
    ultimately show ?thesis using kept(2)[of "cached_name cache seed out"] by simp
  qed
  moreover have "observation_of row' = observation_of row" using kept(1) by (simp add: r(6) observation_of_def)
  ultimately show "\<exists>output job. qr_output row = Some output \<and> wk_job_file (qr_worker row) = Some job
      \<and> (own_name output job \<longrightarrow> (\<exists>bytes. fs output = Some bytes \<and> fs' (cached_name cache seed output) = Some bytes
          \<and> qr_output row' = Some (cached_name cache seed output) \<and> qr_cache_sha row' = Some (sha bytes)))
      \<and> observation_of row' = observation_of row"
    using r(1-3,6) by (intro exI[of _ out] exI[of _ job]) simp
qed

text \<open>A row of the entry whose output lies under its own seed in the entry.\<close>

definition in_entry :: "string \<Rightarrow> nat \<Rightarrow> qrow \<Rightarrow> bool" where
  "in_entry entry seed row \<longleftrightarrow> (\<exists>n. qr_output row = Some (entry_file entry seed n))"

text \<open>
  What is stored is reused: after an observation with an artifact name of its own was added to a
  valid entry, reading the entry returns the same observation, with the same bytes behind it, and
  the rows of the other seeds read as before.
\<close>

theorem stored_observation_reused:
  assumes "store_quality_observation sha entry seed row st = Inr (True, st')"
    and "qr_output row = Some output" and "wk_job_file (qr_worker row) = Some job" and "own_name output job"
  shows "\<exists>row'. cached_quality_observation sha st' entry seed = Inr (Some row') \<and> in_entry entry seed row'
      \<and> observation_of row' = observation_of row
      \<and> so_files st' (the (qr_output row')) = so_files st output
      \<and> (\<forall>seed' other. seed' \<noteq> seed \<longrightarrow> cached_quality_observation sha st entry seed' = Inr (Some other)
           \<longrightarrow> in_entry entry seed' other \<longrightarrow> cached_quality_observation sha st' entry seed' = Inr (Some other))"
proof -
  obtain row' fs' where c: "cached_row sha entry seed row (so_files st) = Inr (row', fs')"
    and st': "st' = st\<lparr>so_files := fs', so_rows := (so_rows st)(entry := (so_rows st entry)(seed \<mapsto> row'))\<rparr>"
    using assms(1) by (auto simp: store_quality_observation_def cache_quality_observation_def res_simps split: if_splits)
  obtain bytes where b: "so_files st output = Some bytes" "fs' (cached_name entry seed output) = Some bytes"
    "qr_output row' = Some (cached_name entry seed output)" "qr_cache_sha row' = Some (sha bytes)"
    "observation_of row' = observation_of row"
    using cached_row_files(2)[OF c] assms(2-4) by auto
  have others: "cached_quality_observation sha st' entry seed' = Inr (Some other)"
    if other: "seed' \<noteq> seed" "cached_quality_observation sha st entry seed' = Inr (Some other)" "in_entry entry seed' other"
    for seed' other
  proof -
    obtain n where n: "qr_output other = Some (entry_file entry seed' n)" using other(3) by (auto simp: in_entry_def)
    have "fs' (entry_file entry seed' n) = so_files st (entry_file entry seed' n)"
      by (rule cached_row_files(1)[OF c]) (simp add: entry_file_inj other(1))
    with other n show ?thesis
      by (auto simp: cached_quality_observation_def st' split: option.splits if_splits)
  qed
  have "in_entry entry seed row'" using b(3) by (auto simp: in_entry_def cached_name_def)
  moreover have "cached_quality_observation sha st' entry seed = Inr (Some row')"
    "so_files st' (the (qr_output row')) = so_files st output"
    using b by (simp_all add: cached_quality_observation_def st')
  ultimately show ?thesis using b(5) others by blast
qed

text \<open>Histories of one entry.\<close>

datatype entry_event = Store nat qrow | Invalidate string

fun entry_run :: "(string \<Rightarrow> string) \<Rightarrow> string \<Rightarrow> entry_event list \<Rightarrow> store \<Rightarrow> store res" where
  "entry_run sha entry [] st = Inr st"
| "entry_run sha entry (Store seed row # es) st =
     bindE (store_quality_observation sha entry seed row st) (\<lambda>(stored, st). entry_run sha entry es st)"
| "entry_run sha entry (Invalidate reason # es) st =
     entry_run sha entry es (invalidate_quality_entry True entry reason st)"

text \<open>
  Invalidation is final: once an entry is marked, no history of stores and invalidations makes
  it valid again, changes its rows or loses its first reason.
\<close>

theorem invalidated_entry_final:
  assumes "so_invalid st entry = Some reason"
  shows "entry_run sha entry es st = Inr st"
  using assms
proof (induction es)
  case (Cons e es)
  then show ?case
    by (cases e) (simp_all add: store_quality_observation_def invalidate_quality_entry_def quality_entry_valid_def)
qed simp

section \<open>Witnesses\<close>

definition demo_qrow :: "nat \<Rightarrow> qrow" where
  "demo_qrow seed = \<lparr>qr_id = ''id'', qr_case_id = ''a'', qr_case_hash = ''h'', qr_revision = ''baseline'', qr_build = ''b'',
     qr_seed = seed, qr_seed_block = ''B0'', qr_mode = ''quality'',
     qr_worker = (demo_row seed)\<lparr>wk_job_file := Some ''job.json''\<rparr>, qr_reference_hash = [],
     qr_output = Some ''out.qtb'', qr_output_hash = Some ''o'', qr_layout = Some ''l'', qr_free_parameters = [],
     qr_metrics = (\<lambda>_. Some 1), qr_checks = [], qr_cache_sha = None, qr_cached_from = None\<rparr>"

definition demo_store :: store where
  "demo_store = \<lparr>so_files = [''out.qtb'' \<mapsto> ''circuit'', ''job.json'' \<mapsto> ''job''], so_rows = (\<lambda>_. Map.empty),
     so_invalid = Map.empty\<rparr>"

theorem stored_observation_reused_witness:
  "\<exists>st' row'. store_quality_observation id ''e'' 0 (demo_qrow 0) demo_store = Inr (True, st')
    \<and> cached_quality_observation id st' ''e'' 0 = Inr (Some row') \<and> observation_of row' = observation_of (demo_qrow 0)"
proof -
  have "\<exists>st'. store_quality_observation id ''e'' 0 (demo_qrow 0) demo_store = Inr (True, st')"
    by (simp add: store_quality_observation_def quality_entry_valid_def cache_quality_observation_def cached_row_def
      demo_qrow_def demo_store_def copy_artifact_def Let_def)
  then obtain st' where st: "store_quality_observation id ''e'' 0 (demo_qrow 0) demo_store = Inr (True, st')" by blast
  have "qr_output (demo_qrow 0) = Some ''out.qtb''" "wk_job_file (qr_worker (demo_qrow 0)) = Some ''job.json''"
    "own_name ''out.qtb'' ''job.json''"
    by (simp_all add: demo_qrow_def own_name_def path_name_def)
  from stored_observation_reused[OF st this] st show ?thesis by blast
qed

theorem invalidated_entry_final_witness:
  "entry_run id ''e'' [Store 0 (demo_qrow 0), Invalidate ''again''] (demo_store\<lparr>so_invalid := [''e'' \<mapsto> ''audit'']\<rparr>)
     = Inr (demo_store\<lparr>so_invalid := [''e'' \<mapsto> ''audit'']\<rparr>)"
  by (rule invalidated_entry_final[where reason = "''audit''"]) simp

end
