(* ===== verification/Verify.thy ===== *)
theory Verify
  imports Records Process
begin

text \<open>
  The oracle requests of a session: \<open>verify_many\<close> and \<open>run_verifier\<close> of
  \<open>src/src/qtb/coordinator/__init__.py\<close> and \<open>run_verifier_batch\<close> of \<open>process.py\<close>. The verifier process is
  given from outside by the polls it lives through and the result files it leaves; file hashes and
  the fixtures are parameters. The key of a request, a digest of its content, is read as the content. The
  mark \<open>cached\<close> of a reused result is left out.
\<close>

section \<open>Requests\<close>

record extra =
  xt_controlled :: bool
  xt_covers :: "string list"
  xt_substituted :: "string list"
  xt_start_times :: "string option"
  xt_target :: "string option"

definition no_extra :: extra where
  "no_extra = \<lparr>xt_controlled = False, xt_covers = [], xt_substituted = [], xt_start_times = None, xt_target = None\<rparr>"

record request =
  rq_case :: tcase
  rq_result :: export
  rq_oracle :: string
  rq_reference :: "artifact option"
  rq_extra :: extra

record vjob =
  vj_reference :: string
  vj_reference_hash :: string
  vj_output :: string
  vj_layout :: string
  vj_input_domain :: string
  vj_oracle :: string
  vj_extra :: extra

text \<open>The content of a job: its files by their hashes, under the verifier's identity.\<close>

type_synonym vkey = "string \<times> vjob"

record vprocess =
  vp_start :: nat
  vp_polls :: "(nat \<times> nat) list"
  vp_results :: "nat \<Rightarrow> check res option"
  vp_returncode :: int

record verifier =
  ve_identity :: string
  ve_fixture :: "artifact \<Rightarrow> string res"
  ve_hash :: "string \<Rightarrow> string"
  ve_workers :: nat
  ve_spawn :: "nat \<Rightarrow> nat \<Rightarrow> (vkey \<times> vjob) list \<Rightarrow> vprocess"

text \<open>\<open>reference or (semantic_reference if frozen else circuit)\<close>; \<open>verify_artifact\<close> may raise.\<close>

definition reference_of :: "request \<Rightarrow> artifact" where
  "reference_of q =
     (case rq_reference q of
        Some a \<Rightarrow> a
      | None \<Rightarrow> (case semantic_ref (rq_case q) of RefFrozen a \<Rightarrow> a | RefInput \<Rightarrow> circuit (rq_case q)))"

definition verifier_job :: "verifier \<Rightarrow> request \<Rightarrow> vjob res" where
  "verifier_job v q =
     bindE (ve_fixture v (reference_of q)) (\<lambda>path.
     Inr \<lparr>vj_reference = path, vj_reference_hash = a_sha256 (reference_of q), vj_output = ex_output (rq_result q),
       vj_layout = ex_layout (rq_result q), vj_input_domain = input_domain (rq_case q), vj_oracle = rq_oracle q,
       vj_extra = rq_extra q\<rparr>)"

definition job_key :: "verifier \<Rightarrow> vjob \<Rightarrow> vkey" where
  "job_key v j = (ve_identity v, j\<lparr>vj_reference := ve_hash v (vj_reference j), vj_output := ve_hash v (vj_output j),
     vj_extra := (vj_extra j)\<lparr>xt_target := map_option (ve_hash v) (xt_target (vj_extra j))\<rparr>\<rparr>)"

section \<open>One verifier process\<close>

text \<open>Whether a process is stopped: no new result for longer than the idle timeout.\<close>

fun idle_watch :: "nat \<Rightarrow> nat \<Rightarrow> nat \<Rightarrow> (nat \<times> nat) list \<Rightarrow> bool" where
  "idle_watch idle since finished [] = False"
| "idle_watch idle since finished ((n, now) # ps) =
     (if n > finished then idle_watch idle now n ps
      else if now - since > idle then True
      else idle_watch idle since finished ps)"

definition IDLE_TIMEOUT :: nat where "IDLE_TIMEOUT = 300"

text \<open>The reason a batch of \<open>n\<close> jobs stopped early, if any result file is missing.\<close>

definition run_verifier_batch :: "vprocess \<Rightarrow> nat \<Rightarrow> string option" where
  "run_verifier_batch p n =
     (if list_all (\<lambda>i. vp_results p i \<noteq> None) [0..<n] then None
      else if idle_watch IDLE_TIMEOUT (vp_start p) 0 (vp_polls p)
      then Some (''Verifier timed out after '' @ show_nat IDLE_TIMEOUT @ '' s'')
      else Some (''Verifier exited '' @ show_int (vp_returncode p)))"

definition unverified :: "string \<Rightarrow> check" where
  "unverified oracle = \<lparr>ck_status = ''unverified'', ck_oracle = Some oracle, ck_mode = None, ck_reference_hash = None,
     ck_input_domain = None, ck_covers = [], ck_substituted = [], ck_case_id = None, ck_revision = None,
     ck_union_width = None\<rparr>"

text \<open>The results that exist, and the entries without one; an unreadable result file raises.\<close>

fun gather ::
    "(nat \<Rightarrow> check res option) \<Rightarrow> nat \<Rightarrow> (vkey \<times> vjob) list \<Rightarrow> ((vkey \<times> check) list \<times> (vkey \<times> vjob) list) res"
where
  "gather results i [] = Inr ([], [])"
| "gather results i (e # es) =
     (case results i of
        None \<Rightarrow> bindE (gather results (Suc i) es) (\<lambda>(got, missing). Inr (got, e # missing))
      | Some r \<Rightarrow>
          bindE r (\<lambda>k.
          bindE (gather results (Suc i) es) (\<lambda>(got, missing). Inr ((fst e, k) # got, missing))))"

lemma gather_missing_length: "gather results i es = Inr (got, missing) \<Longrightarrow> length missing \<le> length es"
  by (induction es arbitrary: i got missing) (fastforce simp: res_simps split: option.splits)+

lemma bindE_cong [fundef_cong]:
  "m = m' \<Longrightarrow> (\<And>x. m' = Inr x \<Longrightarrow> f x = g x) \<Longrightarrow> bindE m f = bindE m' g"
  by (cases m') simp_all

text \<open>
  \<open>verify_chunk\<close>: the first missing job stopped the process and is unverified; the jobs after it get
  a fresh process.
\<close>

function verify_chunk ::
    "(nat \<Rightarrow> (vkey \<times> vjob) list \<Rightarrow> vprocess) \<Rightarrow> nat \<Rightarrow> (vkey \<times> vjob) list \<Rightarrow> (vkey \<times> check) list res" where
  "verify_chunk spawn attempt chunk =
     (if chunk = [] then Inr []
      else
        let p = spawn attempt chunk in
        bindE (gather (vp_results p) 0 chunk) (\<lambda>(got, missing).
        case missing of
          [] \<Rightarrow> Inr got
        | e # others \<Rightarrow>
            bindE (verify_chunk spawn (Suc attempt) others) (\<lambda>later.
              Inr (got @ (fst e, unverified (vj_oracle (snd e))) # later))))"
  by pat_completeness auto
termination
  by (relation "measure (\<lambda>(spawn, attempt, chunk). length chunk)") (auto dest: gather_missing_length)

declare verify_chunk.simps [simp del]

function chunks_of :: "nat \<Rightarrow> 'a list \<Rightarrow> 'a list list" where
  "chunks_of n xs = (if xs = [] \<or> n = 0 then [] else take n xs # chunks_of n (drop n xs))"
  by pat_completeness auto
termination by (relation "measure (\<lambda>(n, xs). length xs)") auto

declare chunks_of.simps [simp del]

definition chunk_size :: "nat \<Rightarrow> nat \<Rightarrow> nat" where
  "chunk_size n workers = max 1 (min 50 ((n + workers - 1) div workers))"

definition run_verifier :: "verifier \<Rightarrow> (vkey \<times> vjob) list \<Rightarrow> (vkey \<rightharpoonup> check) res" where
  "run_verifier v pending =
     bindE (mapE (\<lambda>(i, chunk). verify_chunk (ve_spawn v i) 0 chunk)
         (enumerate 0 (chunks_of (chunk_size (length pending) (ve_workers v)) pending)))
       (\<lambda>parts. Inr (dict_of (concat parts)))"

section \<open>Requests of a session\<close>

definition decisive :: "check \<Rightarrow> bool" where
  "decisive k \<longleftrightarrow> ck_status k \<in> {''verified'', ''mismatch''}"

text \<open>The verifier cache: a file that cannot be read is \<open>Inl\<close>.\<close>

type_synonym vcache = "vkey \<rightharpoonup> check res"

definition cached_result :: "vcache \<Rightarrow> vkey \<Rightarrow> check option" where
  "cached_result cache key =
     (case cache key of Some (Inr k) \<Rightarrow> if decisive k then Some k else None | _ \<Rightarrow> None)"

definition pending_jobs :: "vcache \<Rightarrow> (vkey \<times> vjob) list \<Rightarrow> (vkey \<times> vjob) list" where
  "pending_jobs cache jobs =
     fold (\<lambda>e acc. if cached_result cache (fst e) \<noteq> None \<or> fst e \<in> set (map fst acc) then acc else acc @ [e])
       jobs []"

definition save_results :: "(vkey \<rightharpoonup> check) \<Rightarrow> vcache \<Rightarrow> vcache" where
  "save_results fresh cache =
     (\<lambda>key. case fresh key of Some k \<Rightarrow> if decisive k then Some (Inr k) else cache key | None \<Rightarrow> cache key)"

definition verify_many :: "verifier \<Rightarrow> request list \<Rightarrow> vcache \<Rightarrow> check list res \<times> vcache" where
  "verify_many v requests cache =
     (case mapE (\<lambda>q. bindE (verifier_job v q) (\<lambda>j. Inr (job_key v j, j))) requests of
        Inl e \<Rightarrow> (Inl e, cache)
      | Inr jobs \<Rightarrow>
          (let pending = pending_jobs cache jobs in
           case (if pending = [] then Inr Map.empty else run_verifier v pending) of
             Inl e \<Rightarrow> (Inl e, cache)
           | Inr fresh \<Rightarrow>
               (mapE (\<lambda>(key, j). case fresh key of
                    Some k \<Rightarrow> Inr k
                  | None \<Rightarrow> (case cached_result cache key of None \<Rightarrow> Inl KeyError | Some k \<Rightarrow> Inr k)) jobs,
                save_results fresh cache)))"

section \<open>Chunks\<close>

lemma concat_chunks: "0 < n \<Longrightarrow> concat (chunks_of n xs) = xs"
proof (induction n xs rule: chunks_of.induct)
  case (1 n xs)
  then show ?case by (subst chunks_of.simps) auto
qed

lemma chunk_size_pos: "0 < chunk_size n workers"
  by (simp add: chunk_size_def)

section \<open>The verifier's answers\<close>

text \<open>A result that some verifier process left, or the mark of a job that stopped its process.\<close>

definition answered :: "(nat \<Rightarrow> (vkey \<times> vjob) list \<Rightarrow> vprocess) \<Rightarrow> vkey \<times> vjob \<Rightarrow> check \<Rightarrow> bool" where
  "answered spawn e k \<longleftrightarrow> k = unverified (vj_oracle (snd e))
     \<or> (\<exists>n chunk i. i < length chunk \<and> chunk ! i = e \<and> vp_results (spawn n chunk) i = Some (Inr k))"

lemma gather_split:
  assumes "gather results i es = Inr (got, missing)"
  shows "mset (map fst got) + mset (map fst missing) = mset (map fst es)"
    and "set missing \<subseteq> set es"
    and "(key, k) \<in> set got \<Longrightarrow> \<exists>j<length es. fst (es ! j) = key \<and> results (i + j) = Some (Inr k)"
proof -
  have "mset (map fst got) + mset (map fst missing) = mset (map fst es) \<and> set missing \<subseteq> set es
    \<and> (\<forall>(key, k)\<in>set got. \<exists>j<length es. fst (es ! j) = key \<and> results (i + j) = Some (Inr k))"
    using assms
  proof (induction es arbitrary: i got missing)
    case (Cons e es)
    show ?case
    proof (cases "results i")
      case None
      then obtain m where m: "gather results (Suc i) es = Inr (got, m)" "missing = e # m"
        using Cons.prems by (auto simp: res_simps)
      from Cons.IH[OF m(1)] m(2) show ?thesis by fastforce
    next
      case (Some r)
      then obtain k g where g: "r = Inr k" "gather results (Suc i) es = Inr (g, missing)" "got = (fst e, k) # g"
        using Cons.prems by (auto simp: res_simps)
      from Cons.IH[OF g(2)] g(1,3) Some show ?thesis by fastforce
    qed
  qed simp
  then show "mset (map fst got) + mset (map fst missing) = mset (map fst es)" "set missing \<subseteq> set es"
    "(key, k) \<in> set got \<Longrightarrow> \<exists>j<length es. fst (es ! j) = key \<and> results (i + j) = Some (Inr k)" by auto
qed

lemma verify_chunk_answers:
  "verify_chunk spawn attempt chunk = Inr results \<Longrightarrow> distinct (map fst chunk) \<Longrightarrow>
     mset (map fst results) = mset (map fst chunk)
     \<and> (\<forall>(key, k)\<in>set results. \<exists>e\<in>set chunk. fst e = key \<and> answered spawn e k)"
proof (induction spawn attempt chunk arbitrary: results rule: verify_chunk.induct)
  case (1 spawn attempt chunk)
  show ?case
  proof (cases "chunk = []")
    case True
    with 1(2) show ?thesis by (simp add: verify_chunk.simps)
  next
    case False
    define p where "p = spawn attempt chunk"
    obtain got missing where g: "gather (vp_results p) 0 chunk = Inr (got, missing)"
      using 1(2) False by (subst (asm) verify_chunk.simps) (auto simp: p_def res_simps)
    note split = gather_split[OF g]
    have own: "\<exists>e\<in>set chunk. fst e = key \<and> answered spawn e k" if m: "(key, k) \<in> set got" for key k
    proof -
      obtain j where j: "j < length chunk" "fst (chunk ! j) = key" "vp_results p j = Some (Inr k)"
        using split(3)[OF m] by auto
      then have "answered spawn (chunk ! j) k" unfolding answered_def p_def by blast
      with j show ?thesis using nth_mem by blast
    qed
    show ?thesis
    proof (cases missing)
      case Nil
      then have "results = got" using 1(2) False g
        by (subst (asm) verify_chunk.simps) (simp add: p_def[symmetric])
      with split(1) Nil own show ?thesis by auto
    next
      case (Cons e others)
      then obtain later where l: "verify_chunk spawn (Suc attempt) others = Inr later"
        "results = got @ (fst e, unverified (vj_oracle (snd e))) # later"
        using 1(2) False g by (subst (asm) verify_chunk.simps) (auto simp: p_def[symmetric] res_simps)
      have "distinct (map fst missing)"
        using split(1) 1(3) by (metis distinct_append mset_append mset_eq_imp_distinct_iff)
      then have d: "distinct (map fst others)" using Cons by simp
      have IH: "mset (map fst later) = mset (map fst others)
        \<and> (\<forall>(key, k)\<in>set later. \<exists>e\<in>set others. fst e = key \<and> answered spawn e k)"
        by (rule 1(1)[OF False p_def _ _ Cons l(1) d]) (use g in \<open>auto\<close>)
      have "answered spawn e (unverified (vj_oracle (snd e)))" by (simp add: answered_def)
      with IH own split(1,2) Cons l(2) show ?thesis by (fastforce simp: union_ac)
    qed
  qed
qed


lemma chunks_distinct:
  assumes "0 < n" and "distinct (map fst xs)" and "c \<in> set (chunks_of n xs)"
  shows "distinct (map fst c) \<and> set c \<subseteq> set xs"
proof -
  obtain cs1 cs2 where "chunks_of n xs = cs1 @ c # cs2" using split_list[OF assms(3)] by blast
  then have "xs = concat cs1 @ c @ concat cs2" using concat_chunks[OF assms(1), of xs] by simp
  with assms(2) show ?thesis by auto
qed

lemma run_verifier_answers:
  assumes "run_verifier v pending = Inr fresh" and "distinct (map fst pending)"
  shows "dom fresh = fst ` set pending"
    and "fresh key = Some k \<Longrightarrow> \<exists>e\<in>set pending. fst e = key \<and> (\<exists>i. answered (ve_spawn v i) e k)"
proof -
  define cs where "cs = chunks_of (chunk_size (length pending) (ve_workers v)) pending"
  obtain parts where parts: "list_all2 (\<lambda>(i, chunk) part. verify_chunk (ve_spawn v i) 0 chunk = Inr part) (enumerate 0 cs) parts"
    and fresh: "fresh = dict_of (concat parts)"
    using assms(1) by (auto simp: run_verifier_def cs_def res_simps case_prod_unfold)
  have one: "mset (map fst part) = mset (map fst chunk)
      \<and> (\<forall>(key, k)\<in>set part. \<exists>e\<in>set pending. fst e = key \<and> (\<exists>i. answered (ve_spawn v i) e k))"
    if "(i, chunk) \<in> set (enumerate 0 cs)" "verify_chunk (ve_spawn v i) 0 chunk = Inr part" for i chunk part
  proof -
    have "chunk \<in> set cs" using that(1) by (metis map_snd_enumerate set_map snd_conv image_eqI)
    then have "distinct (map fst chunk)" "set chunk \<subseteq> set pending"
      using chunks_distinct[OF chunk_size_pos assms(2)] by (auto simp: cs_def)
    with verify_chunk_answers[OF that(2)] show ?thesis by fastforce
  qed
  have "mset (concat (map (map fst) parts)) = mset (concat (map (\<lambda>(i, chunk). map fst chunk) (enumerate 0 cs)))"
    by (rule mset_concat_list_all2[OF parts]) (use one in auto)
  moreover have "concat (map (\<lambda>(i, chunk). map fst chunk) (enumerate 0 cs)) = map fst pending"
    using concat_chunks[OF chunk_size_pos, of _ _ pending]
    by (simp add: case_prod_unfold map_concat[symmetric] cs_def flip: map_map[of "map fst" snd, unfolded o_def])
  ultimately have "set (map fst (concat parts)) = fst ` set pending"
    by (metis map_concat set_map set_mset_mset)
  then show "dom fresh = fst ` set pending" unfolding fresh dom_dict_of by simp
  show "\<exists>e\<in>set pending. fst e = key \<and> (\<exists>i. answered (ve_spawn v i) e k)" if got: "fresh key = Some k"
  proof -
    obtain part where p: "part \<in> set parts" "(key, k) \<in> set part"
      using dict_of_mem[OF got[unfolded fresh]] by auto
    obtain x where "x \<in> set (enumerate 0 cs)" "verify_chunk (ve_spawn v (fst x)) 0 (snd x) = Inr part"
      using list_all2_right[OF parts p(1)] by auto
    with one[of "fst x" "snd x" part] p(2) show ?thesis by auto
  qed
qed

lemma pending_jobs_props:
  "distinct (map fst (pending_jobs cache jobs))" "set (pending_jobs cache jobs) \<subseteq> set jobs"
  "fst ` set (pending_jobs cache jobs) = {key \<in> fst ` set jobs. cached_result cache key = None}"
proof -
  let ?f = "\<lambda>e acc. if cached_result cache (fst e) \<noteq> None \<or> fst e \<in> set (map fst acc) then acc else acc @ [e]"
  have "distinct (map fst acc) \<Longrightarrow> distinct (map fst (fold ?f jobs acc))" for acc
    by (induction jobs arbitrary: acc) simp_all
  then show "distinct (map fst (pending_jobs cache jobs))" by (simp add: pending_jobs_def)
  have sub: "set (fold ?f jobs acc) \<subseteq> set acc \<union> set jobs" for acc
  proof (induction jobs arbitrary: acc)
    case (Cons j jobs)
    show ?case using Cons[of acc] Cons[of "acc @ [j]"] by auto
  qed simp
  then show "set (pending_jobs cache jobs) \<subseteq> set jobs" using sub[of "[]"] by (simp add: pending_jobs_def)
  have keys: "fst ` set (fold ?f jobs acc) = fst ` set acc \<union> {key \<in> fst ` set jobs. cached_result cache key = None}" for acc
  proof (induction jobs arbitrary: acc)
    case (Cons j jobs)
    then show ?case by (cases "fst j \<in> fst ` set acc"; cases "cached_result cache (fst j)") (auto intro: rev_image_eqI)
  qed simp
  then show "fst ` set (pending_jobs cache jobs) = {key \<in> fst ` set jobs. cached_result cache key = None}"
    using keys[of "[]"] by (simp add: pending_jobs_def)
qed

text \<open>
  C38. Every answer of \<open>verify_many\<close> has evidence: the answers are one per request in order; a decisive
  answer (verified or mismatch) is either a decisive result of the cache for the same content or
  was left by a verifier process for a job of that content. A decisive cached answer is never lost or
  replaced by an indecisive one, and nothing indecisive enters the cache.
\<close>

theorem verify_many_has_evidence:
  assumes "verify_many v requests cache = (Inr answers, cache')"
  shows "list_all2 (\<lambda>q k. \<exists>j. verifier_job v q = Inr j \<and> (decisive k \<longrightarrow>
      cached_result cache (job_key v j) = Some k
      \<or> (\<exists>i n chunk m j'. job_key v j' = job_key v j \<and> m < length chunk \<and> chunk ! m = (job_key v j, j')
           \<and> vp_results (ve_spawn v i n chunk) m = Some (Inr k)))) requests answers
    \<and> (\<forall>key. cache' key \<noteq> cache key \<longrightarrow> (\<exists>k. cache' key = Some (Inr k) \<and> decisive k \<and> cached_result cache key = None))"
proof -
  obtain jobs where jobs: "mapE (\<lambda>q. bindE (verifier_job v q) (\<lambda>j. Inr (job_key v j, j))) requests = Inr jobs"
    using assms by (auto simp: verify_many_def split: sum.splits)
  define pending where "pending = pending_jobs cache jobs"
  note pend = pending_jobs_props[of cache jobs, folded pending_def]
  obtain fresh where fresh: "(if pending = [] then Inr Map.empty else run_verifier v pending) = Inr fresh"
    "mapE (\<lambda>(key, j). case fresh key of Some k \<Rightarrow> Inr k
        | None \<Rightarrow> (case cached_result cache key of None \<Rightarrow> Inl KeyError | Some k \<Rightarrow> Inr k)) jobs = Inr answers"
    "cache' = save_results fresh cache"
    using assms jobs by (auto simp: verify_many_def pending_def[symmetric] Let_def split: sum.splits if_splits)
  have f: "\<exists>e\<in>set pending. fst e = key \<and> (\<exists>i. answered (ve_spawn v i) e k)" if "fresh key = Some k" for key k
    using fresh(1) run_verifier_answers(2)[OF _ pend(1)] that by (auto split: if_splits)
  have keyed: "\<exists>j. e = (job_key v j, j)" if "e \<in> set jobs" for e
    using jobs list_all2_right[of _ requests jobs e] that by (auto simp: res_simps)
  have A: "list_all2 (\<lambda>q e. \<exists>j. verifier_job v q = Inr j \<and> e = (job_key v j, j)) requests jobs"
    using jobs by (auto simp: res_simps elim!: list_all2_mono)
  have B: "list_all2 (\<lambda>e k. fresh (fst e) = Some k \<or> cached_result cache (fst e) = Some k) jobs answers"
    using fresh(2) unfolding mapE_Inr_iff by (rule list_all2_mono) (auto split: option.splits)
  have "list_all2 (\<lambda>q k. \<exists>j. verifier_job v q = Inr j \<and> (fresh (job_key v j) = Some k \<or> cached_result cache (job_key v j) = Some k))
      requests answers"
    by (rule list_all2_trans[OF _ A B]) auto
  then have "list_all2 (\<lambda>q k. \<exists>j. verifier_job v q = Inr j \<and> (decisive k \<longrightarrow>
      cached_result cache (job_key v j) = Some k
      \<or> (\<exists>i n chunk m j'. job_key v j' = job_key v j \<and> m < length chunk \<and> chunk ! m = (job_key v j, j')
           \<and> vp_results (ve_spawn v i n chunk) m = Some (Inr k)))) requests answers"
  proof (rule list_all2_mono)
    fix q k
    assume "\<exists>j. verifier_job v q = Inr j \<and> (fresh (job_key v j) = Some k \<or> cached_result cache (job_key v j) = Some k)"
    then obtain j where j: "verifier_job v q = Inr j" "fresh (job_key v j) = Some k \<or> cached_result cache (job_key v j) = Some k"
      by blast
    have "cached_result cache (job_key v j) = Some k \<or> (\<exists>i n chunk m j'. job_key v j' = job_key v j \<and> m < length chunk
        \<and> chunk ! m = (job_key v j, j') \<and> vp_results (ve_spawn v i n chunk) m = Some (Inr k))" if "decisive k"
    proof (cases "cached_result cache (job_key v j) = Some k")
      case False
      with j(2) f obtain e i where e: "e \<in> set pending" "fst e = job_key v j" "answered (ve_spawn v i) e k" by blast
      obtain j' where j': "e = (job_key v j', j')" using keyed pend(2) e(1) by blast
      have "k \<noteq> unverified (vj_oracle (snd e))" using that by (auto simp: decisive_def unverified_def)
      then show ?thesis using e(2,3) j' unfolding answered_def by auto
    qed simp
    with j(1) show "\<exists>j. verifier_job v q = Inr j \<and> (decisive k \<longrightarrow> cached_result cache (job_key v j) = Some k
      \<or> (\<exists>i n chunk m j'. job_key v j' = job_key v j \<and> m < length chunk \<and> chunk ! m = (job_key v j, j')
           \<and> vp_results (ve_spawn v i n chunk) m = Some (Inr k)))" by blast
  qed
  moreover have "\<exists>k. cache' key = Some (Inr k) \<and> decisive k \<and> cached_result cache key = None"
    if ch: "cache' key \<noteq> cache key" for key
  proof -
    obtain k where k: "fresh key = Some k" "decisive k" "cache' key = Some (Inr k)"
      using ch by (auto simp: fresh(3) save_results_def split: option.splits if_splits)
    then obtain e where "e \<in> set pending" "fst e = key" using f by blast
    then have "key \<in> fst ` set pending" by auto
    then have "cached_result cache key = None" unfolding pend(3) by simp
    with k show ?thesis by blast
  qed
  ultimately show ?thesis by blast
qed

section \<open>Witnesses\<close>

definition demo_check :: "string \<Rightarrow> check" where
  "demo_check status = (unverified ''C1'')\<lparr>ck_status := status\<rparr>"

definition demo_verifier :: verifier where
  "demo_verifier = \<lparr>ve_identity = ''v'', ve_fixture = (\<lambda>a. Inr (a_file a)), ve_hash = (\<lambda>p. p), ve_workers = 1,
     ve_spawn = (\<lambda>i n chunk. \<lparr>vp_start = 0, vp_polls = [], vp_results = (\<lambda>j. Some (Inr (demo_check ''verified''))),
       vp_returncode = 0\<rparr>)\<rparr>"

definition demo_request :: request where
  "demo_request = \<lparr>rq_case = demo_case ''a'' ''scored'' 1, rq_result = \<lparr>ex_output = ''o'', ex_layout = ''l''\<rparr>,
     rq_oracle = ''C1'', rq_reference = None, rq_extra = no_extra\<rparr>"

lemma demo_verify: "\<exists>cache'. verify_many demo_verifier [demo_request, demo_request] Map.empty
    = (Inr [demo_check ''verified'', demo_check ''verified''], cache')"
proof -
  define j where "j = \<lparr>vj_reference = ''circuits/a'', vj_reference_hash = ''00'', vj_output = ''o'', vj_layout = ''l'',
     vj_input_domain = ''all_zero'', vj_oracle = ''C1'', vj_extra = no_extra\<rparr>"
  have job: "verifier_job demo_verifier demo_request = Inr j"
    by (simp add: verifier_job_def demo_verifier_def demo_request_def demo_case_def demo_artifact_def reference_of_def j_def)
  have chunk: "chunks_of (chunk_size (Suc 0) (ve_workers demo_verifier)) [x] = [[x]]" for x :: "vkey \<times> vjob"
    by (subst chunks_of.simps, subst chunks_of.simps) (simp add: chunk_size_def demo_verifier_def)
  have "verify_chunk (ve_spawn demo_verifier i) n [x] = Inr [(fst x, demo_check ''verified'')]" for i n x
    by (subst verify_chunk.simps) (simp add: demo_verifier_def)
  then have "run_verifier demo_verifier [x] = Inr [fst x \<mapsto> demo_check ''verified'']" for x
    by (simp add: run_verifier_def chunk dict_of_def)
  then show ?thesis
    by (simp add: verify_many_def job pending_jobs_def cached_result_def)
qed

theorem verify_many_has_evidence_witness:
  "\<exists>answers cache'. verify_many demo_verifier [demo_request, demo_request] Map.empty = (Inr answers, cache')
    \<and> length answers = 2 \<and> (\<forall>key. cache' key \<noteq> None \<longrightarrow> (\<exists>k. cache' key = Some (Inr k) \<and> decisive k))"
proof -
  obtain answers cache' where m: "verify_many demo_verifier [demo_request, demo_request] Map.empty = (Inr answers, cache')"
    using demo_verify by blast
  from verify_many_has_evidence[OF m] m show ?thesis by (auto dest: list_all2_lengthD)
qed

end
