(* ===== verification/Quality.thy ===== *)
theory Quality
  imports Cache Verify Gate Replay
begin

text \<open>
  The quality stage of \<open>src/src/qtb/coordinator/__init__.py\<close>: jobs, the round trip of the inputs, the plan of
  the quality batches with the rows reused from the baseline store, one batch with its checks, the
  commit of the batches in plan order, and the determinism audit. Workers, verifiers, decoded
  artifacts and digests come from the record \<open>qenv\<close>; a job names itself by a ticket, so its outcome may
  differ from one job to the next but not with the order in which the thread pool runs them. The
  state is the log of observations, the stage's evidence, the store and the verifier cache.
  Progress messages and timings are left out.
\<close>

section \<open>Jobs\<close>

record jspec =
  js_mode :: string
  js_case :: tcase
  js_seeds :: "nat list"
  js_edits :: "string list"
  js_hash_seed :: string

type_synonym ticket = "string \<times> nat \<times> string"

record qstate =
  qs_log :: "qrow list"
  qs_records :: "crec list"
  qs_store :: store
  qs_cache :: vcache

text \<open>
  \<open>qe_killed\<close> says of the state a write of the stage has just left whether the process is killed there, so that an
  interruption between any two writes is an end of the stage.
\<close>

record ('a, 'b) qenv =
  qe_spawn :: "ticket \<Rightarrow> string \<Rightarrow> jspec \<Rightarrow> string \<Rightarrow> wjob \<Rightarrow> process"
  qe_valid :: "wresult \<Rightarrow> unit res"
  qe_dir :: "ticket \<Rightarrow> string"
  qe_circuit :: "string \<Rightarrow> (header \<times> op list) res"
  qe_rops :: "string \<Rightarrow> (nat \<times> ('a, 'b) rop list) res"
  qe_hash :: "string \<Rightarrow> string"
  qe_sha :: "string \<Rightarrow> string"
  qe_layout :: "string \<Rightarrow> layout option"
  qe_target :: "tcase \<Rightarrow> qtarget res"
  qe_case_digest :: "tcase \<Rightarrow> string"
  qe_row_digest :: "string \<times> string \<times> string \<times> string \<times> nat \<times> string \<Rightarrow> string"
  qe_entry :: "cache_key \<Rightarrow> string"
  qe_entry_exists :: "string \<Rightarrow> bool"
  qe_verifier :: verifier
  qe_profile :: string
  qe_builds :: "string \<rightharpoonup> string"
  qe_has_store :: bool
  qe_cpu :: "string option"
  qe_protocol :: "(string \<times> int) list"
  qe_implementation :: string
  qe_batch_size :: nat
  qe_sample :: "string \<Rightarrow> nat \<Rightarrow> nat \<Rightarrow> nat list"
  qe_directory :: string
  qe_killed :: "qstate \<Rightarrow> bool"

definition job ::
    "('a, 'b) qenv \<Rightarrow> ticket \<Rightarrow> string \<Rightarrow> tcase \<Rightarrow> string \<Rightarrow> nat list \<Rightarrow> string list \<Rightarrow> string
       \<Rightarrow> wresult list res" where
  "job env t revision c mode seeds edits hash_seed =
     bindE (guardE (qe_builds env revision \<noteq> None) KeyError) (\<lambda>_.
     bindE (run_worker
         (qe_spawn env t revision \<lparr>js_mode = mode, js_case = c, js_seeds = seeds, js_edits = edits, js_hash_seed = hash_seed\<rparr>)
         (qe_valid env) (qe_dir env t)
         \<lparr>jb_mode = mode, jb_seeds = seeds, jb_timeout = timeout_s c, jb_body = []\<rparr>) (\<lambda>rows.
     Inr (map (set_job_file (qe_dir env t @ ''/job.json'')) rows)))"

definition written :: "('a, 'b) qenv \<Rightarrow> qstate \<Rightarrow> unit res \<times> qstate" where
  "written env st = (if qe_killed env st then Inl (OtherException ''killed'') else Inr (), st)"

lemma written_Inr: "written env st = (Inr u, st') \<longleftrightarrow> \<not> qe_killed env st \<and> st' = st"
  by (auto simp: written_def)

lemma written_snd [simp]: "snd (written env st) = st"
  by (simp add: written_def)

definition evidenceS :: "crec \<Rightarrow> qstate \<Rightarrow> qstate" where
  "evidenceS r st = st\<lparr>qs_records := evidence (qs_records st) r\<rparr>"

section \<open>Round trip\<close>

definition roundtrip_specs :: "string list \<Rightarrow> tcase list \<Rightarrow> (string \<times> tcase) list" where
  "roundtrip_specs revisions cases =
     fold (\<lambda>(rev, c) acc.
         if (rev, a_sha256 (circuit c), a_sha256 (target c))
            \<in> set (map (\<lambda>(r, d). (r, a_sha256 (circuit d), a_sha256 (target d))) acc)
         then acc else acc @ [(rev, c)])
       (concat (map (\<lambda>rev. map (Pair rev) cases) revisions)) []"

definition roundtrip_ok :: "tcase \<Rightarrow> wresult \<Rightarrow> bool" where
  "roundtrip_ok c r \<longleftrightarrow> wk_status r = ''ok'' \<and> wk_circuit_hash r = Some (a_sha256 (circuit c))
     \<and> wk_target_hash r = Some (a_sha256 (target c))"

definition roundtrip :: "('a, 'b) qenv \<Rightarrow> string list \<Rightarrow> tcase list \<Rightarrow> qstate \<Rightarrow> unit res \<times> qstate" where
  "roundtrip env revisions cases st =
     (let specs = enumerate 0 (roundtrip_specs revisions cases) in
      case bindE (mapE (\<lambda>(i, rev, c). job env (''roundtrip'', i, []) rev c ''roundtrip'' [0] [] ''0'') specs) (\<lambda>results.
           mapE (\<lambda>((i, rev, c), rows).
             (case rows of [] \<Rightarrow> Inl IndexError
              | row # _ \<Rightarrow> guardE (roundtrip_ok c row)
                  (HarnessError (''Input roundtrip failed on '' @ rev @ '': '' @ case_id c)))) (zip specs results)) of
        Inl e \<Rightarrow> (Inl e, st)
      | Inr _ \<Rightarrow> (Inr (), evidenceS (record_of ''harness/roundtrip'' ''harness'' ''passed'' ''evolved'' []) st))"

section \<open>One batch\<close>

definition drop_stages :: "nat \<Rightarrow> string list" where
  "drop_stages n = map (\<lambda>s. ''drop_stage:'' @ s) (drop n PIPELINE_STAGES)"

definition rows_of :: "wresult list \<Rightarrow> nat \<rightharpoonup> wresult" where
  "rows_of rows = dict_of (map (\<lambda>r. (wk_seed r, r)) rows)"

text \<open>The prefix compiles of a batch; a row that is missing counts as failed (\<open>None\<close>).\<close>

definition routing_batch ::
    "('a, 'b) qenv \<Rightarrow> nat \<Rightarrow> string \<Rightarrow> tcase \<Rightarrow> nat list \<Rightarrow> (nat \<rightharpoonup> wresult option \<times> wresult option) res" where
  "routing_batch env n revision c seeds =
     (let seeds = routing_replay_seeds c seeds in
      if seeds = [] then Inr Map.empty
      else
        bindE (job env (''batch'', n, ''initial'') revision c ''prefix'' seeds (drop_stages 1) ''0'') (\<lambda>initial.
        bindE (job env (''batch'', n, ''routed'') revision c ''prefix'' seeds (drop_stages 3) ''0'') (\<lambda>routed.
        Inr (\<lambda>seed. if seed \<in> set seeds then Some (rows_of initial seed, rows_of routed seed) else None))))"

definition plain_check :: "string \<Rightarrow> string \<Rightarrow> check" where
  "plain_check oracle status = \<lparr>ck_status = status, ck_oracle = Some oracle, ck_mode = None, ck_reference_hash = None,
     ck_input_domain = None, ck_covers = [], ck_substituted = [], ck_case_id = None, ck_revision = None,
     ck_union_width = None\<rparr>"

definition simple_check :: "check \<Rightarrow> qcheck" where
  "simple_check k = \<lparr>qc_check = k, qc_prefixes = [], qc_prefix_jobs = []\<rparr>"

definition prefix_of :: "string \<Rightarrow> wresult \<Rightarrow> prefix_output" where
  "prefix_of stage r = \<lparr>pf_stage = stage, pf_output = Some (wk_output r), pf_hash = wk_output_hash r,
     pf_job = wk_job_file r, pf_retained = True\<rparr>"

definition is_ok :: "wresult option \<Rightarrow> bool" where
  "is_ok r = (case r of None \<Rightarrow> False | Some w \<Rightarrow> wk_status w = ''ok'')"

text \<open>
  The final layout as the elided permutation; an entry that is no integer is out of range, so that no such list is a
  permutation (sorting it may also raise in Python).
\<close>

definition elided_of :: "layout \<Rightarrow> int list" where
  "elided_of l = map (\<lambda>w. case w of JI i \<Rightarrow> i | JX \<Rightarrow> -1) (ly_final l)"

text \<open>
  \<open>check_routing\<close>: the check a row gets, if its case and seed are in scope. The layouts are compared
  as canonical texts; a differing level-3 layout is only noted.
\<close>

definition check_routing ::
    "('a, 'b) qenv \<Rightarrow> tcase \<Rightarrow> nat \<Rightarrow> string \<Rightarrow> string \<Rightarrow> (nat \<rightharpoonup> wresult option \<times> wresult option)
       \<Rightarrow> qcheck list res" where
  "check_routing env c seed reference_hash lay prefixes =
     (if routing_replay_seeds c [seed] = [] then Inr []
      else case prefixes seed of
        None \<Rightarrow> Inl KeyError
      | Some (initial, routed) \<Rightarrow>
          if \<not> is_ok initial \<or> \<not> is_ok routed then Inr [simple_check (plain_check ''C6'' ''unverified'')]
          else
            let i = the initial; r = the routed in
            bindE (qe_rops env (wk_output i)) (\<lambda>(n0, ops0).
            bindE (qe_rops env (wk_output r)) (\<lambda>(n1, ops1).
            bindE (replay ops0 ops1 (qe_layout env (wk_layout r)) n0 n1
                (map_option elided_of (qe_layout env (wk_layout i)))) (\<lambda>checked.
            Inr [\<lparr>qc_check = (plain_check ''C6''
                     (if lay = wk_layout r \<or> optimization_level c = 3 then rp_status checked else ''mismatch''))
                   \<lparr>ck_covers := rp_covers checked, ck_reference_hash := Some reference_hash,
                    ck_input_domain := Some (input_domain c)\<rparr>,
                 qc_prefixes = [prefix_of ''initial'' i, prefix_of ''routed'' r],
                 qc_prefix_jobs = map (\<lambda>x. case wk_job_file x of None \<Rightarrow> [] | Some f \<Rightarrow> f) [i, r]\<rparr>]))))"

definition row_id :: "('a, 'b) qenv \<Rightarrow> qrow \<Rightarrow> string" where
  "row_id env r = qe_row_digest env (qr_case_id r, qr_case_hash r, qr_build r, qr_revision r, qr_seed r, qr_seed_block r)"

definition fresh_row :: "('a, 'b) qenv \<Rightarrow> string \<Rightarrow> tcase \<Rightarrow> string \<Rightarrow> wresult \<Rightarrow> qrow" where
  "fresh_row env revision c build result =
     (let r = \<lparr>qr_id = [], qr_case_id = case_id c, qr_case_hash = qe_case_digest env (hashed_case c),
         qr_revision = revision, qr_build = build, qr_seed = wk_seed result, qr_seed_block = ''B0'',
         qr_mode = ''quality'', qr_worker = result, qr_reference_hash = reference_sha c, qr_output = None,
         qr_output_hash = None, qr_layout = None, qr_free_parameters = [], qr_metrics = (\<lambda>_. None),
         qr_checks = [], qr_cache_sha = None, qr_cached_from = None\<rparr> in
      r\<lparr>qr_id := row_id env r\<rparr>)"

definition metrics_of :: "check_result \<Rightarrow> metric \<Rightarrow> int option" where
  "metrics_of s m = map_option (\<lambda>(d2, n2). int (case m of D2 \<Rightarrow> d2 | N2 \<Rightarrow> n2)) (cr_metrics s)"

definition lite_due :: "('a, 'b) qenv \<Rightarrow> tcase \<Rightarrow> wresult \<Rightarrow> bool" where
  "lite_due env c r \<longleftrightarrow> qe_profile env = ''confirm-profile'' \<and> role c = ''scored'' \<and> logical_qubits c \<le> 25
     \<and> wk_seed r < 10 \<and> wk_free_parameters r = []"

text \<open>Whether a row asks for C1-lite, with its union width; a circuit too wide for it is unverified at once.\<close>

definition ask_lite :: "('a, 'b) qenv \<Rightarrow> tcase \<Rightarrow> wresult \<Rightarrow> nat option \<Rightarrow> qrow \<Rightarrow> (qrow \<times> nat option) res" where
  "ask_lite env c result width row =
     (if \<not> lite_due env c result then Inr (row, None)
      else (case width of
          None \<Rightarrow> Inl KeyError
        | Some w \<Rightarrow>
            if w \<le> 25 then Inr (row, Some w)
            else Inr (row\<lparr>qr_checks := qr_checks row @
                [simple_check ((plain_check ''C1-lite'' ''unverified'')\<lparr>ck_union_width := Some w\<rparr>)]\<rparr>, None)))"

text \<open>A row with its checks, and the union width when a C1-lite request is still to be verified.\<close>

definition observe ::
    "('a, 'b) qenv \<Rightarrow> string \<Rightarrow> tcase \<Rightarrow> string \<Rightarrow> qtarget \<Rightarrow> (nat \<rightharpoonup> wresult option \<times> wresult option)
       \<Rightarrow> wresult \<Rightarrow> (qrow \<times> nat option) res" where
  "observe env revision c build t prefixes result =
     (let row = fresh_row env revision c build result in
      if wk_status result \<noteq> ''ok'' then Inr (row, None)
      else
        bindE (qe_circuit env (wk_output result)) (\<lambda>(h, ops).
        bindE (structural_result h ops t (qe_layout env (wk_layout result)) (logical_qubits c)
            (map_option (map JI) (initial_layout c)) (constraint_form c)) (\<lambda>(s, width).
        bindE (guardE (wk_output_hash result = Some (qe_hash env (wk_output result)))
            (HarnessError ''Exported output hash mismatch'')) (\<lambda>_.
        let c0 = simple_check (plain_check ''C0'' (if cr_verified s then ''verified'' else ''mismatch''));
            row = row\<lparr>qr_metrics := metrics_of s, qr_output := Some (wk_output result),
              qr_output_hash := wk_output_hash result, qr_layout := Some (wk_layout result),
              qr_free_parameters := wk_free_parameters result, qr_checks := [c0]\<rparr> in
        if \<not> cr_verified s then Inr (row, None)
        else
          bindE (check_routing env c (wk_seed result) (reference_sha c) (wk_layout result) prefixes) (\<lambda>c6.
          ask_lite env c result width (row\<lparr>qr_checks := c0 # c6\<rparr>))))))"

definition quality_batch ::
    "('a, 'b) qenv \<Rightarrow> nat \<Rightarrow> string \<Rightarrow> tcase \<Rightarrow> qtarget \<Rightarrow> nat list \<Rightarrow> ((qrow \<times> nat option) \<times> wresult) list res" where
  "quality_batch env n revision c t batch =
     (case qe_builds env revision of
        None \<Rightarrow> Inl KeyError
      | Some build \<Rightarrow>
          bindE (job env (''batch'', n, ''quality'') revision c ''quality'' batch [] ''0'') (\<lambda>rows.
          bindE (routing_batch env n revision c (map wk_seed (filter (\<lambda>r. wk_status r = ''ok'') rows))) (\<lambda>prefixes.
          mapE (\<lambda>r. bindE (observe env revision c build t prefixes r) (\<lambda>x. Inr (x, r))) rows)))"

section \<open>The plan\<close>

text \<open>The dictionary \<open>run["builds"]\<close> as \<open>same_build\<close> reads it.\<close>

definition builds_of :: "('a, 'b) qenv \<Rightarrow> builds" where
  "builds_of env = \<lparr>b_baseline = qe_builds env ''baseline'', b_evolved = qe_builds env ''evolved''\<rparr>"

definition use_store :: "('a, 'b) qenv \<Rightarrow> bool" where
  "use_store env \<longleftrightarrow> qe_has_store env \<and> \<not> same_build (builds_of env)"

definition baseline_quality_key :: "('a, 'b) qenv \<Rightarrow> tcase \<Rightarrow> cache_key res" where
  "baseline_quality_key env c =
     (case qe_builds env ''baseline'' of
        None \<Rightarrow> Inl KeyError
      | Some build \<Rightarrow> quality_cache_key build c (qe_cpu env) (qe_protocol env) (qe_implementation env)
          ''B0'' ''quality'' ''0'')"

type_synonym row_key = "string \<times> string \<times> nat \<times> string"

definition key_of :: "qrow \<Rightarrow> row_key" where
  "key_of r = (qr_case_id r, qr_revision r, qr_seed r, qr_seed_block r)"

definition missing_seeds :: "row_key set \<Rightarrow> string \<Rightarrow> tcase \<Rightarrow> nat list" where
  "missing_seeds completed revision c =
     filter (\<lambda>s. (case_id c, revision, s, ''B0'') \<notin> completed) [0..<seeds_per_block c]"

text \<open>The store entry to read and fill for a case: none without a store, for the evolved build, or once invalidated.\<close>

definition plan_entry :: "('a, 'b) qenv \<Rightarrow> string \<Rightarrow> tcase \<Rightarrow> store \<Rightarrow> (cache_key \<times> string) option res" where
  "plan_entry env revision c st =
     (if revision = ''baseline'' \<and> use_store env
      then bindE (baseline_quality_key env c) (\<lambda>key.
        Inr (if quality_entry_valid st (qe_entry env key) then Some (key, qe_entry env key) else None))
      else Inr None)"

definition append_row :: "qrow \<Rightarrow> qstate \<Rightarrow> qstate" where
  "append_row row st = st\<lparr>qs_log := qs_log st @ [row]\<rparr>"

text \<open>A stored row under the identity of this comparison.\<close>

definition reused_row :: "('a, 'b) qenv \<Rightarrow> string \<Rightarrow> tcase \<Rightarrow> string \<Rightarrow> qrow \<Rightarrow> qrow" where
  "reused_row env revision c key row =
     (let row = row\<lparr>qr_revision := revision, qr_cached_from := Some key, qr_case_id := case_id c,
        qr_case_hash := qe_case_digest env (hashed_case c)\<rparr> in
      row\<lparr>qr_id := row_id env row\<rparr>)"

definition reuse_seed ::
    "('a, 'b) qenv \<Rightarrow> string \<Rightarrow> tcase \<Rightarrow> string \<Rightarrow> nat \<Rightarrow> qstate \<Rightarrow> bool res \<times> qstate" where
  "reuse_seed env revision c entry seed st =
     (if so_rows (qs_store st) entry seed = None then (Inr False, st)
      else case cached_quality_observation (qe_sha env) (qs_store st) entry seed of
        Inl e \<Rightarrow> (Inl e, st)
      | Inr None \<Rightarrow> (Inr False, st)
      | Inr (Some row) \<Rightarrow>
          bindS (written env (append_row (reused_row env revision c entry row) st)) (\<lambda>_ st. (Inr True, st)))"

fun reuse_seeds ::
    "('a, 'b) qenv \<Rightarrow> string \<Rightarrow> tcase \<Rightarrow> string \<Rightarrow> nat list \<Rightarrow> qstate \<Rightarrow> nat list res \<times> qstate" where
  "reuse_seeds env revision c entry [] st = (Inr [], st)"
| "reuse_seeds env revision c entry (seed # seeds) st =
     bindS (reuse_seed env revision c entry seed st) (\<lambda>reused st.
     bindS (reuse_seeds env revision c entry seeds st) (\<lambda>others st.
     (Inr (if reused then others else seed # others), st)))"

record task =
  tk_revision :: string
  tk_case :: tcase
  tk_target :: qtarget
  tk_batch :: "nat list"
  tk_cache :: "string option"

definition plan_case ::
    "('a, 'b) qenv \<Rightarrow> row_key set \<Rightarrow> string \<times> tcase \<Rightarrow> qstate \<Rightarrow> task list res \<times> qstate" where
  "plan_case env completed rc st =
     (let (revision, c) = rc; seeds = missing_seeds completed revision c in
      bindS (qe_target env c, st) (\<lambda>t st.
      bindS (plan_entry env revision c (qs_store st), st) (\<lambda>entry st.
      bindS (case entry of
               None \<Rightarrow> (Inr seeds, st)
             | Some (key, e) \<Rightarrow> reuse_seeds env revision c e seeds st) (\<lambda>seeds st.
      (if qe_batch_size env = 0 then Inl ValueError
       else Inr (map (\<lambda>batch. \<lparr>tk_revision = revision, tk_case = c, tk_target = t, tk_batch = batch,
              tk_cache = map_option snd entry\<rparr>) (chunks_of (qe_batch_size env) seeds)), st)))))"

fun plan_cases ::
    "('a, 'b) qenv \<Rightarrow> row_key set \<Rightarrow> (string \<times> tcase) list \<Rightarrow> qstate \<Rightarrow> task list res \<times> qstate" where
  "plan_cases env completed [] st = (Inr [], st)"
| "plan_cases env completed (rc # rcs) st =
     bindS (plan_case env completed rc st) (\<lambda>tasks st.
     bindS (plan_cases env completed rcs st) (\<lambda>others st. (Inr (tasks @ others), st)))"

section \<open>Committing the batches\<close>

definition lite_request :: "tcase \<Rightarrow> wresult \<Rightarrow> request" where
  "lite_request c result = \<lparr>rq_case = c, rq_result = \<lparr>ex_output = wk_output result, ex_layout = wk_layout result\<rparr>,
     rq_oracle = ''C1-lite'', rq_reference = None, rq_extra = no_extra\<rparr>"

text \<open>The answers go to the rows that asked for them, in order; \<open>zip(..., strict=True)\<close>.\<close>

fun add_lite ::
    "((qrow \<times> nat option) \<times> wresult) list \<Rightarrow> check list \<Rightarrow> (qrow \<times> wresult) list res" where
  "add_lite [] ks = (if ks = [] then Inr [] else Inl ValueError)"
| "add_lite (((row, None), result) # fs) ks = bindE (add_lite fs ks) (\<lambda>rows. Inr ((row, result) # rows))"
| "add_lite (((row, Some w), result) # fs) [] = Inl ValueError"
| "add_lite (((row, Some w), result) # fs) (k # ks) =
     bindE (add_lite fs ks) (\<lambda>rows.
       Inr ((row\<lparr>qr_checks := qr_checks row
           @ [simple_check (k\<lparr>ck_oracle := Some ''C1-lite'', ck_union_width := Some w\<rparr>)]\<rparr>, result) # rows))"

definition failure_of :: "string \<Rightarrow> qrow \<Rightarrow> wresult \<Rightarrow> crec" where
  "failure_of revision row result =
     record_of (''failure/'' @ qr_id row) ''completeness'' (if wk_not_attempted result then ''unresolved'' else ''failed'')
       (subject_of revision)
       [(''detail'', DStr (case wk_error result of None \<Rightarrow> ''Worker failed'' | Some m \<Rightarrow> m))]"

text \<open>
  A failed compile has its record in the evidence before its row in the log; a fresh baseline row goes to the store last.
\<close>

definition commit_row ::
    "('a, 'b) qenv \<Rightarrow> task \<Rightarrow> qrow \<times> wresult \<Rightarrow> qstate \<Rightarrow> unit res \<times> qstate" where
  "commit_row env tk rr st =
     (let (row, result) = rr in
      bindS (if wk_status result \<noteq> ''ok'' then written env (evidenceS (failure_of (tk_revision tk) row result) st)
             else (Inr (), st)) (\<lambda>_ st.
      bindS (written env (append_row row st)) (\<lambda>_ st.
      case tk_cache tk of
        Some entry \<Rightarrow>
          if wk_status result = ''ok''
          then (case store_quality_observation (qe_sha env) entry (wk_seed result) row (qs_store st) of
              Inl e \<Rightarrow> (Inl e, st)
            | Inr (stored, store) \<Rightarrow> written env (st\<lparr>qs_store := store\<rparr>))
          else (Inr (), st)
      | None \<Rightarrow> (Inr (), st))))"

definition verify_lite :: "('a, 'b) qenv \<Rightarrow> request list \<Rightarrow> qstate \<Rightarrow> check list res \<times> qstate" where
  "verify_lite env requests st =
     (let (answers, cache) = verify_many (qe_verifier env) requests (qs_cache st) in (answers, st\<lparr>qs_cache := cache\<rparr>))"

definition commit_batch :: "('a, 'b) qenv \<Rightarrow> nat \<times> task \<Rightarrow> qstate \<Rightarrow> unit res \<times> qstate" where
  "commit_batch env nt st =
     (let (n, tk) = nt in
      bindS (quality_batch env n (tk_revision tk) (tk_case tk) (tk_target tk) (tk_batch tk), st) (\<lambda>finished st.
      bindS (verify_lite env
          (map (\<lambda>(x, result). lite_request (tk_case tk) result) (filter (\<lambda>((row, width), result). width \<noteq> None) finished)) st)
        (\<lambda>answers st.
      bindS (add_lite finished answers, st) (\<lambda>rows st.
      foldS (commit_row env tk) rows st))))"

text \<open>\<open>quality\<close>; the batches run on a thread pool but touch no state, so each is computed at its commit.\<close>

definition quality :: "('a, 'b) qenv \<Rightarrow> tcase list \<Rightarrow> string list \<Rightarrow> qstate \<Rightarrow> qrow list res \<times> qstate" where
  "quality env cases revisions st =
     bindS (plan_cases env (set (map key_of (qs_log st))) (concat (map (\<lambda>rev. map (Pair rev) cases) revisions)) st)
       (\<lambda>tasks st.
     bindS (foldS (commit_batch env) (enumerate 0 tasks) st) (\<lambda>_ st. (Inr (qs_log st), st)))"

section \<open>The determinism audit\<close>

definition audit_rows :: "string \<Rightarrow> qrow list \<Rightarrow> qrow list" where
  "audit_rows revision rows =
     filter (\<lambda>r. qr_revision r = revision \<and> qr_output_hash r \<notin> {None, Some []} \<and> qr_seed_block r = ''B0'') rows"

definition audit_count :: "nat \<Rightarrow> nat" where
  "audit_count n = min n (max 10 (nat \<lfloor>real n * (5 / 100) + 999 / 1000\<rfloor>))"

text \<open>The sampled rows of one revision with their cases and hash seeds; \<open>rng.sample\<close> picks the positions.\<close>

definition audit_sample ::
    "('a, 'b) qenv \<Rightarrow> tcase list \<Rightarrow> qrow list \<Rightarrow> string \<Rightarrow> (string \<times> tcase \<times> qrow \<times> string) list res" where
  "audit_sample env cases observations revision =
     (let rows = audit_rows revision observations in
      mapE (\<lambda>(i, k). let row = rows ! k in
          case dict_of (map (\<lambda>c. (case_id c, c)) cases) (qr_case_id row) of
            None \<Rightarrow> Inl KeyError
          | Some c \<Rightarrow> Inr (revision, c, row, if odd i then ''1'' else ''0''))
        (enumerate 0 (qe_sample env revision (length rows) (audit_count (length rows)))))"

definition reproduced :: "qrow \<Rightarrow> wresult \<Rightarrow> bool" where
  "reproduced row result \<longleftrightarrow> wk_status result = ''ok'' \<and> wk_output_hash result = qr_output_hash row
     \<and> Some (wk_layout result) = qr_layout row"

definition audit_job :: "('a, 'b) qenv \<Rightarrow> nat \<times> string \<times> tcase \<times> qrow \<times> string \<Rightarrow> bool res" where
  "audit_job env x =
     (let (i, revision, c, row, hash_seed) = x in
      bindE (job env (''audit'', i, []) revision c ''quality'' [qr_seed row] [] hash_seed) (\<lambda>results.
      case results of [] \<Rightarrow> Inl IndexError | result # _ \<Rightarrow> Inr (reproduced row result)))"

definition audit_jobs :: "('a, 'b) qenv \<Rightarrow> (string \<times> tcase \<times> qrow \<times> string) list \<Rightarrow> bool res" where
  "audit_jobs env sampled = bindE (mapE (audit_job env) (enumerate 0 sampled)) (\<lambda>oks. Inr (list_all id oks))"

definition invalidate_case :: "('a, 'b) qenv \<Rightarrow> tcase \<Rightarrow> qstate \<Rightarrow> unit res \<times> qstate" where
  "invalidate_case env c st =
     bindS (baseline_quality_key env c, st) (\<lambda>key st.
       (Inr (), st\<lparr>qs_store := invalidate_quality_entry (qe_entry_exists env (qe_entry env key)) (qe_entry env key)
          (''Determinism audit failed in session '' @ qe_directory env) (qs_store st)\<rparr>))"

definition audit ::
    "('a, 'b) qenv \<Rightarrow> tcase list \<Rightarrow> qrow list \<Rightarrow> string list \<Rightarrow> qstate \<Rightarrow> unit res \<times> qstate" where
  "audit env cases observations revisions st =
     bindS (mapE (audit_sample env cases observations) revisions, st) (\<lambda>samples st.
     bindS (audit_jobs env (concat samples), st) (\<lambda>same st.
     let ok = (same \<and> list_all (\<lambda>revision. audit_rows revision observations \<noteq> []) revisions);
         st = evidenceS (record_of ''audit/determinism'' ''completeness'' (if ok then ''passed'' else ''unresolved'') ''evolved'' []) st in
     if \<not> ok \<and> qe_has_store env \<and> ''baseline'' \<in> set revisions
     then foldS (invalidate_case env) cases st else (Inr (), st)))"

section \<open>Every seed has one row\<close>

text \<open>The rows of the store lie under their own seed, in the one block a comparison has.\<close>

definition store_ok :: "store \<Rightarrow> bool" where
  "store_ok st \<longleftrightarrow> (\<forall>entry seed row. so_rows st entry seed = Some row \<longrightarrow> qr_seed row = seed \<and> qr_seed_block row = ''B0'')"

definition seed_key :: "string \<Rightarrow> tcase \<Rightarrow> nat \<Rightarrow> row_key" where
  "seed_key revision c s = (case_id c, revision, s, ''B0'')"

definition task_keys :: "task \<Rightarrow> row_key list" where
  "task_keys tk = map (seed_key (tk_revision tk) (tk_case tk)) (tk_batch tk)"

text \<open>A step adds rows to the log, with the given keys in some order.\<close>

definition adds :: "row_key multiset \<Rightarrow> qstate \<Rightarrow> qstate \<Rightarrow> bool" where
  "adds keys st st' \<longleftrightarrow> (\<exists>new. qs_log st' = qs_log st @ new \<and> mset (map key_of new) = keys)"

lemma adds_none [simp]: "adds {#} st st"
  by (simp add: adds_def)

lemma adds_trans: "adds k st st' \<Longrightarrow> adds l st' st'' \<Longrightarrow> adds (k + l) st st''"
  unfolding adds_def by (metis append.assoc map_append mset_append)

lemma adds_log: "adds k st st' \<Longrightarrow> qs_log st1 = qs_log st \<Longrightarrow> qs_log st2 = qs_log st' \<Longrightarrow> adds k st1 st2"
  by (simp add: adds_def)

lemma key_of_reused: "key_of (reused_row env revision c key row) = (case_id c, revision, qr_seed row, qr_seed_block row)"
  by (simp add: reused_row_def key_of_def Let_def)

lemma cached_quality_observation_row:
  "cached_quality_observation sha st entry seed = Inr (Some row) \<Longrightarrow> so_rows st entry seed = Some row"
  by (auto simp: cached_quality_observation_def split: option.splits if_splits)

lemma reuse_seeds_keys:
  assumes "reuse_seeds env revision c entry seeds st = (Inr remaining, st')" and "store_ok (qs_store st)"
  shows "qs_store st' = qs_store st
    \<and> (\<exists>keys. adds keys st st' \<and> keys + mset (map (seed_key revision c) remaining) = mset (map (seed_key revision c) seeds))"
  using assms
proof (induction seeds arbitrary: st remaining)
  case (Cons seed seeds)
  then obtain reused st1 others where r: "reuse_seed env revision c entry seed st = (Inr reused, st1)"
    "reuse_seeds env revision c entry seeds st1 = (Inr others, st')"
    "remaining = (if reused then others else seed # others)" by (auto simp: bindS_Inr)
  have one: "qs_store st1 = qs_store st \<and> adds (if reused then {#seed_key revision c seed#} else {#}) st st1"
    using r(1) Cons.prems(2)
    by (auto simp: reuse_seed_def adds_def append_row_def key_of_reused store_ok_def seed_key_def bindS_Inr written_Inr
      split: if_splits sum.splits option.splits dest: cached_quality_observation_row)
  have "store_ok (qs_store st1)" using one Cons.prems(2) by simp
  from Cons.IH[OF r(2) this] obtain keys where k: "adds keys st1 st'"
    "keys + mset (map (seed_key revision c) others) = mset (map (seed_key revision c) seeds)" "qs_store st' = qs_store st1" by blast
  from adds_trans[OF conjunct2[OF one] k(1)]
  have "adds ((if reused then {#seed_key revision c seed#} else {#}) + keys) st st'" .
  moreover have "(if reused then {#seed_key revision c seed#} else {#}) + keys + mset (map (seed_key revision c) remaining)
      = mset (map (seed_key revision c) (seed # seeds))" using k(2) r(3) by auto
  ultimately show ?case using one k(3) by metis
qed auto

lemma plan_case_keys:
  assumes "plan_case env completed (revision, c) st = (Inr tasks, st')" and "store_ok (qs_store st)"
  shows "qs_store st' = qs_store st \<and> (\<exists>keys. adds keys st st'
    \<and> keys + mset (concat (map task_keys tasks)) = mset (map (seed_key revision c) (missing_seeds completed revision c)))
    \<and> (\<forall>tk\<in>set tasks. tk_revision tk = revision \<and> tk_case tk = c)"
proof -
  obtain t entry seeds where p: "qe_target env c = Inr t" "plan_entry env revision c (qs_store st) = Inr entry"
    "(case entry of None \<Rightarrow> (Inr (missing_seeds completed revision c), st)
      | Some (key, e) \<Rightarrow> reuse_seeds env revision c e (missing_seeds completed revision c) st) = (Inr seeds, st')"
    "0 < qe_batch_size env"
    "tasks = map (\<lambda>batch. \<lparr>tk_revision = revision, tk_case = c, tk_target = t, tk_batch = batch,
              tk_cache = map_option snd entry\<rparr>) (chunks_of (qe_batch_size env) seeds)"
    using assms(1) unfolding plan_case_def Let_def prod.case bindS_Inr by (auto split: if_splits)
  have "concat (map task_keys tasks) = concat (map (map (seed_key revision c)) (chunks_of (qe_batch_size env) seeds))"
    by (simp add: p(5) task_keys_def o_def)
  then have keys: "concat (map task_keys tasks) = map (seed_key revision c) seeds"
    using p(4) by (simp add: concat_chunks flip: map_concat)
  have "qs_store st' = qs_store st \<and> (\<exists>keys. adds keys st st'
    \<and> keys + mset (map (seed_key revision c) seeds) = mset (map (seed_key revision c) (missing_seeds completed revision c)))"
  proof (cases entry)
    case None
    then show ?thesis using p(3) by (intro conjI exI[of _ "{#}"]) auto
  next
    case (Some e)
    then obtain key d where e: "entry = Some (key, d)" by (cases e) auto
    with p(3) have "reuse_seeds env revision c d (missing_seeds completed revision c) st = (Inr seeds, st')" by simp
    from reuse_seeds_keys[OF this assms(2)] show ?thesis by simp
  qed
  then show ?thesis unfolding keys by (auto simp: p(5))
qed

definition panel_missing :: "row_key set \<Rightarrow> (string \<times> tcase) list \<Rightarrow> row_key list" where
  "panel_missing completed rcs = concat (map (\<lambda>(rev, c). map (seed_key rev c) (missing_seeds completed rev c)) rcs)"

lemma plan_cases_keys:
  assumes "plan_cases env completed rcs st = (Inr tasks, st')" and "store_ok (qs_store st)"
  shows "qs_store st' = qs_store st \<and> (\<exists>keys. adds keys st st'
    \<and> keys + mset (concat (map task_keys tasks)) = mset (panel_missing completed rcs))"
  using assms
proof (induction rcs arbitrary: st tasks)
  case (Cons rc rcs)
  obtain rev c where rc: "rc = (rev, c)" by force
  obtain t1 st1 t2 where p: "plan_case env completed (rev, c) st = (Inr t1, st1)"
    "plan_cases env completed rcs st1 = (Inr t2, st')" "tasks = t1 @ t2"
    using Cons.prems(1) by (auto simp: bindS_Inr rc)
  obtain k1 where k1: "qs_store st1 = qs_store st" "adds k1 st st1"
    "k1 + mset (concat (map task_keys t1)) = mset (map (seed_key rev c) (missing_seeds completed rev c))"
    using plan_case_keys[OF p(1) Cons.prems(2)] by blast
  obtain k2 where k2: "qs_store st' = qs_store st1" "adds k2 st1 st'"
    "k2 + mset (concat (map task_keys t2)) = mset (panel_missing completed rcs)"
    using Cons.IH[OF p(2)] k1(1) Cons.prems(2) by auto
  have "(k1 + k2) + mset (concat (map task_keys tasks)) = mset (panel_missing completed (rc # rcs))"
    using k1(3) k2(3) by (simp add: p(3) rc panel_missing_def) (metis (no_types) add.assoc add.left_commute)
  with adds_trans[OF k1(2) k2(2)] k1(1) k2(1) show ?case by auto
qed (auto simp: panel_missing_def intro!: exI[of _ "{#}"])

lemma adds_rows: "adds (mset (map key_of rows)) st (st\<lparr>qs_log := qs_log st @ rows\<rparr>)"
  by (auto simp: adds_def)

lemma key_of_fresh: "key_of (fresh_row env revision c build result) = seed_key revision c (wk_seed result)"
  by (simp add: fresh_row_def key_of_def seed_key_def Let_def)

text \<open>What every row of a batch keeps of the fresh one.\<close>

definition same_identity :: "qrow \<Rightarrow> qrow \<Rightarrow> bool" where
  "same_identity r s \<longleftrightarrow> key_of r = key_of s \<and> qr_id r = qr_id s \<and> qr_cached_from r = qr_cached_from s
     \<and> qr_build r = qr_build s \<and> qr_worker r = qr_worker s"

lemma same_identity_update [simp]:
  "same_identity (r\<lparr>qr_checks := ks\<rparr>) s = same_identity r s" "same_identity (r\<lparr>qr_metrics := m\<rparr>) s = same_identity r s"
  "same_identity (r\<lparr>qr_output := out\<rparr>) s = same_identity r s"
  "same_identity (r\<lparr>qr_output_hash := h\<rparr>) s = same_identity r s"
  "same_identity (r\<lparr>qr_layout := l\<rparr>) s = same_identity r s"
  "same_identity (r\<lparr>qr_free_parameters := ps\<rparr>) s = same_identity r s" "same_identity s s"
  by (simp_all add: same_identity_def key_of_def)

lemma ask_lite_identity: "ask_lite env c result width row = Inr (row', w) \<Longrightarrow> same_identity row r \<Longrightarrow> same_identity row' r"
  by (auto simp: ask_lite_def split: if_splits option.splits)

lemma observe_identity:
  assumes "observe env revision c build t prefixes result = Inr (row, width)"
  shows "same_identity row (fresh_row env revision c build result)"
    and "wk_status result \<noteq> ''ok'' \<Longrightarrow> width = None \<and> qr_checks row = [] \<and> qr_output_hash row = None"
proof -
  show "same_identity row (fresh_row env revision c build result)"
    using assms unfolding observe_def Let_def
    by (auto simp: bindE_Inr_iff split: if_split_asm elim!: ask_lite_identity)
  show "wk_status result \<noteq> ''ok'' \<Longrightarrow> width = None \<and> qr_checks row = [] \<and> qr_output_hash row = None"
    using assms by (auto simp: observe_def Let_def fresh_row_def)
qed

lemma job_seeds:
  assumes "job env t revision c mode seeds edits hash_seed = Inr rows" and "distinct seeds"
  shows "mset (map wk_seed rows) = mset seeds"
proof -
  obtain rows' where r: "run_worker
         (qe_spawn env t revision \<lparr>js_mode = mode, js_case = c, js_seeds = seeds, js_edits = edits, js_hash_seed = hash_seed\<rparr>)
         (qe_valid env) (qe_dir env t)
         \<lparr>jb_mode = mode, jb_seeds = seeds, jb_timeout = timeout_s c, jb_body = []\<rparr> = Inr rows'"
    "rows = map (set_job_file (qe_dir env t @ ''/job.json'')) rows'"
    using assms(1) by (auto simp: job_def res_simps)
  have "mset (map wk_seed rows') = mset seeds" using run_worker_batch[OF r(1)] assms(2) by (simp add: batch_ok_def)
  then show ?thesis by (simp add: r(2) o_def)
qed

lemma quality_batch_rows:
  assumes "quality_batch env n revision c t batch = Inr finished" and "distinct batch"
  shows "mset (map (\<lambda>((row, width), result). key_of row) finished) = mset (map (seed_key revision c) batch)"
    and "((row, width), result) \<in> set finished \<Longrightarrow>
      \<exists>build. same_identity row (fresh_row env revision c build result) \<and> (wk_status result \<noteq> ''ok'' \<longrightarrow> width = None)"
proof -
  obtain build rows prefixes where q: "qe_builds env revision = Some build"
    "job env (''batch'', n, ''quality'') revision c ''quality'' batch [] ''0'' = Inr rows"
    "list_all2 (\<lambda>r y. bindE (observe env revision c build t prefixes r) (\<lambda>x. Inr (x, r)) = Inr y) rows finished"
    using assms(1) by (auto simp: quality_batch_def res_simps split: option.splits)
  then have l: "list_all2 (\<lambda>r y. snd y = r \<and> observe env revision c build t prefixes r = Inr (fst y)) rows finished"
    by (auto simp: res_simps elim!: list_all2_mono)
  have "list_all2 (\<lambda>r y. seed_key revision c (wk_seed r) = (case y of ((row, width), result) \<Rightarrow> key_of row)) rows finished"
    using l by (rule list_all2_mono) (auto simp: same_identity_def key_of_fresh dest!: observe_identity(1))
  then have "map (\<lambda>((row, width), result). key_of row) finished = map (seed_key revision c) (map wk_seed rows)"
    by (induction rule: list_all2_induct) auto
  then show "mset (map (\<lambda>((row, width), result). key_of row) finished) = mset (map (seed_key revision c) batch)"
    using job_seeds[OF q(2) assms(2)] by (metis mset_map)
  assume "((row, width), result) \<in> set finished"
  from list_all2_right[OF l this] have "observe env revision c build t prefixes result = Inr (row, width)" by auto
  then show "\<exists>build. same_identity row (fresh_row env revision c build result) \<and> (wk_status result \<noteq> ''ok'' \<longrightarrow> width = None)"
    using observe_identity by blast
qed

lemma add_lite_rows:
  "add_lite finished ks = Inr rows \<Longrightarrow> list_all2 (\<lambda>((row, width), result) (row', result').
     result' = result \<and> same_identity row' row \<and> (width = None \<longrightarrow> row' = row)) finished rows"
  by (induction finished ks arbitrary: rows rule: add_lite.induct)
    (auto simp: res_simps same_identity_def key_of_def split: if_splits)

lemma commit_row_adds:
  assumes "commit_row env tk rr st = (Inr u, st')"
  shows "adds {#key_of (fst rr)#} st st'"
proof -
  obtain row result where rr: "rr = (row, result)" by force
  obtain v s1 where c: "(if wk_status result \<noteq> ''ok'' then written env (evidenceS (failure_of (tk_revision tk) row result) st)
      else (Inr (), st)) = (Inr v, s1)"
    "(case tk_cache tk of
        Some entry \<Rightarrow>
          if wk_status result = ''ok''
          then (case store_quality_observation (qe_sha env) entry (wk_seed result) row (qs_store (append_row row s1)) of
              Inl e \<Rightarrow> (Inl e, append_row row s1)
            | Inr (stored, store) \<Rightarrow> written env ((append_row row s1)\<lparr>qs_store := store\<rparr>))
          else (Inr (), append_row row s1)
      | None \<Rightarrow> (Inr (), append_row row s1)) = (Inr u, st')"
    using assms unfolding commit_row_def rr Let_def prod.case bindS_Inr written_Inr by blast
  from c(1) have "qs_log s1 = qs_log st" by (auto simp: written_Inr evidenceS_def split: if_splits)
  moreover from c(2) have "qs_log st' = qs_log (append_row row s1)"
    by (auto simp: written_Inr split: option.splits if_splits sum.splits)
  ultimately show ?thesis by (simp add: rr adds_def append_row_def)
qed

lemma foldS_adds:
  assumes "foldS f xs st = (Inr u, st')"
    and "\<And>x st st' u. x \<in> set xs \<Longrightarrow> f x st = (Inr u, st') \<Longrightarrow> adds (g x) st st'"
  shows "adds (sum_list (map g xs)) st st'"
  using assms
proof (induction xs arbitrary: st)
  case (Cons x xs)
  then obtain v t where t: "f x st = (Inr v, t)" "foldS f xs t = (Inr u, st')" by (auto simp: bindS_Inr)
  have "adds (sum_list (map g xs)) t st'" by (rule Cons.IH[OF t(2)]) (use Cons.prems(2) in auto)
  with adds_trans[OF Cons.prems(2)[OF _ t(1)]] show ?case by simp
qed simp

lemma commit_batch_adds:
  assumes "commit_batch env (n, tk) st = (Inr u, st')" and "distinct (tk_batch tk)"
  shows "adds (mset (task_keys tk)) st st'"
proof -
  obtain finished answers rows st1 where c:
    "quality_batch env n (tk_revision tk) (tk_case tk) (tk_target tk) (tk_batch tk) = Inr finished"
    "verify_lite env (map (\<lambda>(x, result). lite_request (tk_case tk) result)
        (filter (\<lambda>((row, width), result). width \<noteq> None) finished)) st = (Inr answers, st1)"
    "add_lite finished answers = Inr rows" "foldS (commit_row env tk) rows st1 = (Inr u, st')"
    using assms(1) unfolding commit_batch_def Let_def prod.case bindS_Inr by auto
  have "list_all2 (\<lambda>x y. (case x of ((row, width), result) \<Rightarrow> key_of row) = key_of (fst y)) finished rows"
    using add_lite_rows[OF c(3)] by (rule list_all2_mono) (auto simp: same_identity_def)
  then have k: "map (key_of \<circ> fst) rows = map (\<lambda>((row, width), result). key_of row) finished"
    by (induction rule: list_all2_induct) auto
  have "sum_list (map (\<lambda>rr. {#key_of (fst rr)#}) rows) = mset (map (key_of \<circ> fst) rows)"
    by (induction rows) auto
  also have "\<dots> = mset (task_keys tk)"
    unfolding k using quality_batch_rows(1)[OF c(1) assms(2)] by (simp add: task_keys_def)
  finally have "adds (mset (task_keys tk)) st1 st'"
    using foldS_adds[OF c(4), of "\<lambda>rr. {#key_of (fst rr)#}"] commit_row_adds by metis
  moreover have "qs_log st1 = qs_log st" using c(2) by (auto simp: verify_lite_def split: prod.splits)
  ultimately show ?thesis by (simp add: adds_def)
qed

lemma distinct_batches:
  "0 < n \<Longrightarrow> distinct xs \<Longrightarrow> batch \<in> set (chunks_of n xs) \<Longrightarrow> distinct batch"
  by (metis concat_chunks distinct_concat_iff)

lemma task_batches_distinct:
  assumes "distinct (concat (map task_keys tasks))" and "tk \<in> set tasks"
  shows "distinct (tk_batch tk)"
proof -
  have "distinct (task_keys tk)" using assms by (auto simp: distinct_concat_iff)
  then show ?thesis unfolding task_keys_def distinct_map by blast
qed

lemma commit_batches_adds:
  assumes "foldS (commit_batch env) (enumerate 0 tasks) st = (Inr u, st')" and "distinct (concat (map task_keys tasks))"
  shows "adds (mset (concat (map task_keys tasks))) st st'"
proof -
  have "adds (sum_list (map (\<lambda>nt. mset (task_keys (snd nt))) (enumerate 0 tasks))) st st'"
  proof (rule foldS_adds[OF assms(1)])
    fix nt st st' u
    assume nt: "nt \<in> set (enumerate 0 tasks)" "commit_batch env nt st = (Inr u, st')"
    then have "snd nt \<in> set tasks" by (metis map_snd_enumerate image_eqI set_map)
    from task_batches_distinct[OF assms(2) this] nt(2) show "adds (mset (task_keys (snd nt))) st st'"
      by (cases nt) (auto dest: commit_batch_adds)
  qed
  moreover have "map (\<lambda>nt. mset (task_keys (snd nt))) (enumerate 0 tasks) = map (mset \<circ> task_keys) (map snd (enumerate 0 tasks))"
    by (simp only: map_map o_def)
  ultimately show ?thesis by (simp add: mset_concat o_def)
qed

lemma set_panel_missing:
  "set (panel_missing completed rcs) = {(case_id c, rev, s, ''B0'') |rev c s. (rev, c) \<in> set rcs \<and> s < seeds_per_block c} - completed"
  by (auto simp: panel_missing_def missing_seeds_def seed_key_def)

lemma distinct_panel_missing:
  assumes "distinct (map (\<lambda>(rev, c). (rev, case_id c)) rcs)"
  shows "distinct (panel_missing completed rcs)"
  using assms
proof (induction rcs)
  case (Cons rc rcs)
  obtain rev c where rc: "rc = (rev, c)" by force
  have "distinct (map (seed_key rev c) (missing_seeds completed rev c))"
    by (simp add: distinct_map inj_on_def seed_key_def missing_seeds_def)
  moreover have "set (map (seed_key rev c) (missing_seeds completed rev c)) \<inter> set (panel_missing completed rcs) = {}"
    using Cons.prems by (force simp: set_panel_missing seed_key_def rc)
  ultimately show ?case using Cons by (simp add: panel_missing_def rc)
qed (simp add: panel_missing_def)

definition panel_of :: "tcase list \<Rightarrow> string list \<Rightarrow> (string \<times> tcase) list" where
  "panel_of cases revisions = concat (map (\<lambda>rev. map (Pair rev) cases) revisions)"

lemma set_panel: "set (panel_of cases revisions) = set revisions \<times> set cases"
  by (auto simp: panel_of_def)

lemma distinct_panel:
  "distinct (map case_id cases) \<Longrightarrow> distinct revisions
    \<Longrightarrow> distinct (map (\<lambda>(rev, c). (rev, case_id c)) (panel_of cases revisions))"
proof (induction revisions)
  case (Cons rev revisions)
  have "distinct (map (\<lambda>(rev, c). (rev, case_id c)) (map (Pair rev) cases))"
    using Cons.prems(1) by (auto simp: distinct_map inj_on_def)
  then show ?case using Cons by (auto simp: panel_of_def)
qed (simp add: panel_of_def)

lemma quality_rows:
  assumes "quality env cases revisions st = (Inr rows, st')" and "store_ok (qs_store st)"
    and "distinct (map case_id cases)" and "distinct revisions"
  shows "\<exists>new. rows = qs_log st @ new \<and> distinct (map key_of new)
    \<and> set (map key_of new) = {(case_id c, rev, s, ''B0'') |rev c s. rev \<in> set revisions \<and> c \<in> set cases \<and> s < seeds_per_block c}
        - set (map key_of (qs_log st))"
proof -
  let ?done = "set (map key_of (qs_log st))"
  obtain tasks st1 u where q: "plan_cases env ?done (panel_of cases revisions) st = (Inr tasks, st1)"
    "foldS (commit_batch env) (enumerate 0 tasks) st1 = (Inr u, st')" "rows = qs_log st'"
    using assms(1) by (auto simp: quality_def panel_of_def bindS_Inr)
  obtain keys where k: "adds keys st st1"
    "keys + mset (concat (map task_keys tasks)) = mset (panel_missing ?done (panel_of cases revisions))"
    using plan_cases_keys[OF q(1) assms(2)] by blast
  have d: "distinct (panel_missing ?done (panel_of cases revisions))"
    by (rule distinct_panel_missing[OF distinct_panel[OF assms(3,4)]])
  have "distinct (concat (map task_keys tasks))"
    using d k(2) by (metis distinct_append mset_append mset_eq_imp_distinct_iff ex_mset)
  from adds_trans[OF k(1) commit_batches_adds[OF q(2) this]] k(2)
  obtain new where new: "qs_log st' = qs_log st @ new"
    "mset (map key_of new) = mset (panel_missing ?done (panel_of cases revisions))" by (auto simp: adds_def)
  have "distinct (map key_of new)" using d new(2) by (metis mset_eq_imp_distinct_iff)
  moreover have "set (map key_of new) = set (panel_missing ?done (panel_of cases revisions))"
    using new(2) by (metis set_mset_mset)
  ultimately show ?thesis using new(1) q(3) unfolding set_panel_missing set_panel
    by (intro exI[of _ new]) auto
qed

text \<open>
  C13. Exactly one row per seed: when \<open>quality\<close> returns, it has added to the log, whatever an earlier
  attempt left there, one row for every (case, revision, seed) of the panel that had none, and no other row.
\<close>

theorem quality_adds_missing_rows:
  assumes "quality env cases revisions st = (Inr rows, st')" and "store_ok (qs_store st)"
    and "distinct (map case_id cases)" and "distinct revisions"
  shows "\<exists>new. rows = qs_log st @ new \<and> distinct (map key_of new)
    \<and> set (map key_of new) = {(case_id c, rev, s, ''B0'') |rev c s. rev \<in> set revisions \<and> c \<in> set cases \<and> s < seeds_per_block c}
        - set (map key_of (qs_log st))"
  by (rule quality_rows[OF assms])

end
