(* ===== verification/QualityInv.thy ===== *)
theory QualityInv
  imports Quality
begin

text \<open>
  What the quality stage of \<open>src/src/qtb/coordinator/__init__.py\<close> guarantees however it ends, by value or by an
  exception: a failed compile has its completeness record before its row, stored rows are read and
  written for the baseline of two different builds only, and a failed determinism audit takes the
  store's entries out of use. The composition with \<open>aggregate_checks\<close> shows that a finished panel
  passes its completeness check.
\<close>

section \<open>Failed compiles are recorded\<close>

definition recorded :: "crec list \<Rightarrow> qrow \<Rightarrow> bool" where
  "recorded recs r \<longleftrightarrow> (\<exists>rec\<in>set recs. cr_id rec = ''failure/'' @ qr_id r \<and> cr_kind rec = ''completeness''
     \<and> cr_result rec \<in> {''failed'', ''unresolved''})"

definition failures_recorded :: "qstate \<Rightarrow> bool" where
  "failures_recorded st \<longleftrightarrow> (\<forall>r\<in>set (qs_log st). qr_cached_from r = None \<longrightarrow> wk_status (qr_worker r) \<noteq> ''ok''
     \<longrightarrow> recorded (qs_records st) r)"

lemma recorded_failure_of: "recorded recs r \<Longrightarrow> recorded (evidence recs (failure_of revision row result)) r"
  by (auto simp: recorded_def evidence_def failure_of_def)

lemma recorded_new: "recorded (evidence recs (failure_of revision row result)) row"
  by (auto simp: recorded_def evidence_def failure_of_def)

lemma reuse_seed_recorded:
  "failures_recorded st \<Longrightarrow> failures_recorded (snd (reuse_seed env revision c entry seed st))"
  by (auto simp: reuse_seed_def failures_recorded_def append_row_def reused_row_def Let_def bindS_def written_def
    split: sum.split option.split)

lemma reuse_seeds_recorded:
  "failures_recorded st \<Longrightarrow> failures_recorded (snd (reuse_seeds env revision c entry seeds st))"
proof (induction seeds arbitrary: st)
  case (Cons seed seeds)
  show ?case unfolding reuse_seeds.simps
    by (rule bindS_snd[where P = failures_recorded, OF reuse_seed_recorded[OF Cons.prems]],
        rule bindS_snd[where P = failures_recorded, OF Cons.IH]) auto
qed simp

text \<open>A plan changes only the log of the state, by the rows it reuses.\<close>

lemma plan_case_snd:
  assumes "P st" and "\<And>entry key seeds. plan_entry env revision c (qs_store st) = Inr (Some (key, entry))
      \<Longrightarrow> P (snd (reuse_seeds env revision c entry seeds st))"
  shows "P (snd (plan_case env completed (revision, c) st))"
  unfolding plan_case_def Let_def prod.case
proof (rule bindS_snd[where P = P])
  show "P (snd (qe_target env c, st))" using assms(1) by simp
  fix t s
  assume "(qe_target env c, st) = (Inr t, s)" and "P s"
  then have s: "s = st" by simp
  show "P (snd (bindS (plan_entry env revision c (qs_store s), s) (\<lambda>entry st. bindS (case entry of
               None \<Rightarrow> (Inr (missing_seeds completed revision c), st)
             | Some (key, e) \<Rightarrow> reuse_seeds env revision c e (missing_seeds completed revision c) st) (\<lambda>seeds st.
      (if qe_batch_size env = 0 then Inl ValueError
       else Inr (map (\<lambda>batch. \<lparr>tk_revision = revision, tk_case = c, tk_target = t, tk_batch = batch,
              tk_cache = map_option snd entry\<rparr>) (chunks_of (qe_batch_size env) seeds)), st)))))"
    unfolding s
  proof (rule bindS_snd[where P = P])
    show "P (snd (plan_entry env revision c (qs_store st), st))" using assms(1) by simp
    fix entry s'
    assume e: "(plan_entry env revision c (qs_store st), st) = (Inr entry, s')"
    show "P (snd (bindS (case entry of
               None \<Rightarrow> (Inr (missing_seeds completed revision c), s')
             | Some (key, e) \<Rightarrow> reuse_seeds env revision c e (missing_seeds completed revision c) s') (\<lambda>seeds st.
      (if qe_batch_size env = 0 then Inl ValueError
       else Inr (map (\<lambda>batch. \<lparr>tk_revision = revision, tk_case = c, tk_target = t, tk_batch = batch,
              tk_cache = map_option snd entry\<rparr>) (chunks_of (qe_batch_size env) seeds)), st))))"
      by (rule bindS_snd[where P = P]) (use e assms in \<open>auto split: option.split\<close>)
  qed
qed

lemma plan_cases_snd:
  assumes "P st" and "\<And>rev c st entry key seeds. (rev, c) \<in> set rcs \<Longrightarrow> P st
      \<Longrightarrow> plan_entry env rev c (qs_store st) = Inr (Some (key, entry)) \<Longrightarrow> P (snd (reuse_seeds env rev c entry seeds st))"
  shows "P (snd (plan_cases env completed rcs st))"
  using assms
proof (induction rcs arbitrary: st)
  case (Cons rc rcs)
  obtain rev c where rc: "rc = (rev, c)" by force
  show ?case unfolding plan_cases.simps
  proof (rule bindS_snd[where P = P])
    show "P (snd (plan_case env completed rc st))"
      unfolding rc by (rule plan_case_snd) (use Cons.prems in \<open>auto simp: rc\<close>)
    fix tasks s
    assume "P s"
    then have "P (snd (plan_cases env completed rcs s))" using Cons.IH Cons.prems(2) by simp
    then show "P (snd (bindS (plan_cases env completed rcs s) (\<lambda>others st. (Inr (tasks @ others), st))))"
      by (rule bindS_snd[where P = P]) simp
  qed
qed simp

text \<open>The tasks of a plan, and the rows of a batch.\<close>

lemma reuse_seeds_store: "qs_store (snd (reuse_seeds env revision c entry seeds st)) = qs_store st"
proof (induction seeds arbitrary: st)
  case (Cons seed seeds)
  have "qs_store (snd (reuse_seed env revision c entry seed st)) = qs_store st"
    by (auto simp: reuse_seed_def append_row_def bindS_def written_def split: sum.split option.split)
  then show ?case unfolding reuse_seeds.simps
    by (rule bindS_snd[where P = "\<lambda>s. qs_store s = qs_store st"])
      (rule bindS_snd[where P = "\<lambda>s. qs_store s = qs_store st"], auto simp: Cons.IH)
qed simp

lemma plan_case_store: "qs_store (snd (plan_case env completed (revision, c) st)) = qs_store st"
  by (rule plan_case_snd[where P = "\<lambda>s. qs_store s = qs_store st"]) (simp_all add: reuse_seeds_store)

definition planned :: "('a, 'b) qenv \<Rightarrow> (string \<times> tcase) list \<Rightarrow> store \<Rightarrow> task \<Rightarrow> bool" where
  "planned env rcs st tk \<longleftrightarrow> (tk_revision tk, tk_case tk) \<in> set rcs
     \<and> (\<forall>entry. tk_cache tk = Some entry
          \<longrightarrow> (\<exists>key. plan_entry env (tk_revision tk) (tk_case tk) st = Inr (Some (key, entry))))"

lemma plan_cases_planned:
  assumes "plan_cases env completed rcs st = (Inr tasks, st')" and "tk \<in> set tasks"
  shows "planned env rcs (qs_store st) tk"
  using assms
proof (induction rcs arbitrary: st tasks)
  case (Cons rc rcs)
  obtain rev c where rc: "rc = (rev, c)" by force
  obtain t1 st1 t2 where p: "plan_case env completed (rev, c) st = (Inr t1, st1)"
    "plan_cases env completed rcs st1 = (Inr t2, st')" "tasks = t1 @ t2"
    using Cons.prems(1) by (auto simp: bindS_Inr rc)
  show ?case
  proof (cases "tk \<in> set t1")
    case True
    then show ?thesis using p(1) unfolding plan_case_def Let_def prod.case bindS_Inr
      by (auto simp: planned_def rc split: if_splits)
  next
    case False
    with Cons.IH[OF p(2)] Cons.prems(2) p(3) have "planned env rcs (qs_store st1) tk" by simp
    moreover have "qs_store st1 = qs_store st"
      using plan_case_store[of env completed rev c st] by (simp add: p(1))
    ultimately show ?thesis by (simp add: planned_def)
  qed
qed simp

definition batch_row :: "('a, 'b) qenv \<Rightarrow> task \<Rightarrow> qrow \<times> wresult \<Rightarrow> bool" where
  "batch_row env tk rr \<longleftrightarrow> (\<exists>build. same_identity (fst rr) (fresh_row env (tk_revision tk) (tk_case tk) build (snd rr)))
     \<and> distinct (tk_batch tk)"

lemma commit_batch_snd:
  assumes "P st" and "distinct (tk_batch tk)" and "\<And>st cache. P st \<Longrightarrow> P (st\<lparr>qs_cache := cache\<rparr>)"
    and "\<And>st rr. P st \<Longrightarrow> batch_row env tk rr \<Longrightarrow> P (snd (commit_row env tk rr st))"
  shows "P (snd (commit_batch env (n, tk) st))"
  unfolding commit_batch_def Let_def prod.case
proof (rule bindS_snd[where P = P])
  fix finished s
  assume f: "(quality_batch env n (tk_revision tk) (tk_case tk) (tk_target tk) (tk_batch tk), st) = (Inr finished, s)" and "P s"
  let ?requests = "map (\<lambda>(x, result). lite_request (tk_case tk) result)
      (filter (\<lambda>((row, width), result). width \<noteq> None) finished)"
  show "P (snd (bindS (verify_lite env ?requests s)
        (\<lambda>answers st. bindS (add_lite finished answers, st) (\<lambda>rows st. foldS (commit_row env tk) rows st))))"
  proof (rule bindS_snd[where P = P])
    show "P (snd (verify_lite env ?requests s))"
      using assms(3) \<open>P s\<close> by (simp add: verify_lite_def split: prod.split)
    fix answers s1
    assume "P s1"
    show "P (snd (bindS (add_lite finished answers, s1) (\<lambda>rows st. foldS (commit_row env tk) rows st)))"
    proof (rule bindS_snd[where P = P])
      show "P (snd (add_lite finished answers, s1))" using \<open>P s1\<close> by simp
      fix rows s2
      assume r: "(add_lite finished answers, s1) = (Inr rows, s2)" and "P s2"
      show "P (snd (foldS (commit_row env tk) rows s2))"
      proof (rule foldS_snd[where P = P, OF \<open>P s2\<close>])
        fix rr s3
        assume rr: "rr \<in> set rows" and "P s3"
        from r have "add_lite finished answers = Inr rows" by simp
        from list_all2_right[OF add_lite_rows[OF this] rr] obtain row width result where
          x: "((row, width), result) \<in> set finished" "snd rr = result" "same_identity (fst rr) row" by auto
        from f have "quality_batch env n (tk_revision tk) (tk_case tk) (tk_target tk) (tk_batch tk) = Inr finished" by simp
        from quality_batch_rows(2)[OF this assms(2) x(1)] x(2,3) assms(2) have "batch_row env tk rr"
          by (auto simp: batch_row_def same_identity_def)
        with assms(4) \<open>P s3\<close> show "P (snd (commit_row env tk rr s3))" by blast
      qed
    qed
  qed
qed (simp add: assms(1))

text \<open>The rule for an invariant of \<open>quality\<close>.\<close>

lemma quality_snd:
  assumes "P st" and "store_ok (qs_store st)" and "distinct (map case_id cases)" and "distinct revisions"
    and reuse: "\<And>rev c s entry key seeds. P s \<Longrightarrow> plan_entry env rev c (qs_store s) = Inr (Some (key, entry))
      \<Longrightarrow> P (snd (reuse_seeds env rev c entry seeds s))"
    and cache: "\<And>s cache. P s \<Longrightarrow> P (s\<lparr>qs_cache := cache\<rparr>)"
    and commit: "\<And>s tk rr. P s \<Longrightarrow> batch_row env tk rr \<Longrightarrow> planned env (panel_of cases revisions) (qs_store st) tk
      \<Longrightarrow> P (snd (commit_row env tk rr s))"
  shows "P (snd (quality env cases revisions st))"
  unfolding quality_def panel_of_def[symmetric]
proof (rule bindS_snd[where P = P])
  let ?done = "set (map key_of (qs_log st))"
  show "P (snd (plan_cases env ?done (panel_of cases revisions) st))"
    by (rule plan_cases_snd[where P = P, OF assms(1)]) (use reuse in blast)
  fix tasks s
  assume p: "plan_cases env ?done (panel_of cases revisions) st = (Inr tasks, s)" and "P s"
  obtain keys where "keys + mset (concat (map task_keys tasks)) = mset (panel_missing ?done (panel_of cases revisions))"
    using plan_cases_keys[OF p assms(2)] by blast
  with distinct_panel_missing[OF distinct_panel[OF assms(3,4)], of ?done]
  have d: "distinct (concat (map task_keys tasks))"
    by (metis distinct_append mset_append mset_eq_imp_distinct_iff ex_mset)
  show "P (snd (bindS (foldS (commit_batch env) (enumerate 0 tasks) s) (\<lambda>_ st. (Inr (qs_log st), st))))"
  proof (rule bindS_snd[where P = P])
    show "P (snd (foldS (commit_batch env) (enumerate 0 tasks) s))"
    proof (rule foldS_snd[where P = P, OF \<open>P s\<close>])
      fix nt s'
      assume nt: "nt \<in> set (enumerate 0 tasks)" and "P s'"
      then have tk: "snd nt \<in> set tasks" by (metis map_snd_enumerate image_eqI set_map)
      have "P (snd (commit_batch env (fst nt, snd nt) s'))"
        by (rule commit_batch_snd[where P = P, OF \<open>P s'\<close> task_batches_distinct[OF d tk]])
          (use cache commit plan_cases_planned[OF p tk] in auto)
      then show "P (snd (commit_batch env nt s'))" by simp
    qed
  qed simp
qed

text \<open>The writes of a commit, each of which may be the last: the rule for what holds after every one.\<close>

lemma commit_row_snd:
  assumes "P st"
    and "wk_status result \<noteq> ''ok'' \<Longrightarrow> P (evidenceS (failure_of (tk_revision tk) row result) st)"
  defines "st1 \<equiv> if wk_status result \<noteq> ''ok'' then evidenceS (failure_of (tk_revision tk) row result) st else st"
  assumes "P (append_row row st1)"
    and "\<And>entry stored so. tk_cache tk = Some entry \<Longrightarrow> wk_status result = ''ok'' \<Longrightarrow>
      store_quality_observation (qe_sha env) entry (wk_seed result) row (qs_store st) = Inr (stored, so)
      \<Longrightarrow> P ((append_row row st1)\<lparr>qs_store := so\<rparr>)"
  shows "P (snd (commit_row env tk (row, result) st))"
  unfolding commit_row_def Let_def prod.case
proof (rule bindS_snd[where P = P])
  show "P (snd (if wk_status result \<noteq> ''ok'' then written env (evidenceS (failure_of (tk_revision tk) row result) st)
      else (Inr (), st)))" using assms(1,2) by simp
  fix v s
  assume "(if wk_status result \<noteq> ''ok'' then written env (evidenceS (failure_of (tk_revision tk) row result) st)
      else (Inr (), st)) = (Inr v, s)"
  then have s: "s = st1" by (auto simp: st1_def written_Inr split: if_splits)
  show "P (snd (bindS (written env (append_row row s)) (\<lambda>_ st. case tk_cache tk of
        Some entry \<Rightarrow>
          if wk_status result = ''ok''
          then (case store_quality_observation (qe_sha env) entry (wk_seed result) row (qs_store st) of
              Inl e \<Rightarrow> (Inl e, st)
            | Inr (stored, store) \<Rightarrow> written env (st\<lparr>qs_store := store\<rparr>))
          else (Inr (), st)
      | None \<Rightarrow> (Inr (), st))))"
    unfolding s
  proof (rule bindS_snd[where P = P])
    fix v s
    assume "written env (append_row row st1) = (Inr v, s)"
    then have s: "s = append_row row st1" by (simp add: written_Inr)
    have "qs_store (append_row row st1) = qs_store st" by (simp add: append_row_def st1_def evidenceS_def)
    with assms(4,5) show "P (snd (case tk_cache tk of
        Some entry \<Rightarrow>
          if wk_status result = ''ok''
          then (case store_quality_observation (qe_sha env) entry (wk_seed result) row (qs_store s) of
              Inl e \<Rightarrow> (Inl e, s)
            | Inr (stored, store) \<Rightarrow> written env (s\<lparr>qs_store := store\<rparr>))
          else (Inr (), s)
      | None \<Rightarrow> (Inr (), s)))"
      unfolding s by (auto split: option.split sum.split)
  qed (simp add: assms(4))
qed

lemma commit_row_recorded:
  assumes "failures_recorded st" and "batch_row env tk (row, result)"
  shows "failures_recorded (snd (commit_row env tk (row, result) st))"
proof -
  have w: "qr_worker row = result" using assms(2)
    by (auto simp: batch_row_def same_identity_def fresh_row_def Let_def)
  show ?thesis
    by (rule commit_row_snd[where P = failures_recorded]) (use assms(1) w in
      \<open>auto simp: failures_recorded_def append_row_def evidenceS_def recorded_failure_of recorded_new\<close>)
qed

text \<open>
  C14. No failed compile goes unrecorded: however \<open>quality\<close> ends, by value, by an exception or killed between any
  two of its writes, every row of the log that a worker did not finish and that was not reused has its
  completeness record, failed or unresolved, in the evidence of the stage. The killing is
  \<open>qe_killed\<close> of the environment, which is arbitrary: after each write of a record, a row or an entry of the store
  the stage may end there, so a row is never ahead of its record.
\<close>

theorem quality_failures_recorded:
  assumes "failures_recorded st" and "store_ok (qs_store st)" and "distinct (map case_id cases)" and "distinct revisions"
  shows "failures_recorded (snd (quality env cases revisions st))"
proof (rule quality_snd[where P = failures_recorded, OF assms])
  fix s tk rr
  assume "failures_recorded s" and "batch_row env tk rr"
  then show "failures_recorded (snd (commit_row env tk rr s))" using commit_row_recorded by (cases rr) blast
qed (erule reuse_seeds_recorded, simp add: failures_recorded_def)

section \<open>The baseline store\<close>

text \<open>What a stage may do with the store, from its state before.\<close>

definition store_use :: "('a, 'b) qenv \<Rightarrow> qstate \<Rightarrow> qstate \<Rightarrow> bool" where
  "store_use env st st' \<longleftrightarrow> so_invalid (qs_store st') = so_invalid (qs_store st)
    \<and> (\<exists>new. qs_log st' = qs_log st @ new
        \<and> (\<forall>r\<in>set new. qr_cached_from r \<noteq> None \<longrightarrow> use_store env \<and> qr_revision r = ''baseline''))
    \<and> (\<forall>entry seed. so_rows (qs_store st') entry seed \<noteq> so_rows (qs_store st) entry seed \<longrightarrow> use_store env
        \<and> so_invalid (qs_store st) entry = None
        \<and> (\<exists>row. so_rows (qs_store st') entry seed = Some row \<and> qr_revision row = ''baseline'' \<and> qr_cached_from row = None))"

lemma store_use_refl: "store_use env st st"
  by (simp add: store_use_def)

lemma store_use_append:
  assumes "store_use env st s" and "qr_cached_from r \<noteq> None \<Longrightarrow> use_store env \<and> qr_revision r = ''baseline''"
    and "qs_log s' = qs_log s @ [r]" and "qs_store s' = qs_store s"
  shows "store_use env st s'"
proof -
  from assms(1) obtain new where "qs_log s = qs_log st @ new"
    "\<forall>r\<in>set new. qr_cached_from r \<noteq> None \<longrightarrow> use_store env \<and> qr_revision r = ''baseline''" by (auto simp: store_use_def)
  then have "qs_log s' = qs_log st @ (new @ [r])"
    "\<forall>r\<in>set (new @ [r]). qr_cached_from r \<noteq> None \<longrightarrow> use_store env \<and> qr_revision r = ''baseline''"
    using assms(2,3) by auto
  with assms(1,4) show ?thesis unfolding store_use_def by metis
qed

lemma store_use_store:
  assumes "store_use env st s" and "so_invalid so = so_invalid (qs_store s)"
    and "\<And>e k. so_rows so e k \<noteq> so_rows (qs_store s) e k \<Longrightarrow> use_store env \<and> so_invalid (qs_store st) e = None
        \<and> (\<exists>row. so_rows so e k = Some row \<and> qr_revision row = ''baseline'' \<and> qr_cached_from row = None)"
  shows "store_use env st (s\<lparr>qs_store := so\<rparr>)"
proof -
  have "use_store env \<and> so_invalid (qs_store st) e = None
      \<and> (\<exists>row. so_rows so e k = Some row \<and> qr_revision row = ''baseline'' \<and> qr_cached_from row = None)"
    if "so_rows so e k \<noteq> so_rows (qs_store st) e k" for e k
  proof (cases "so_rows so e k = so_rows (qs_store s) e k")
    case True
    with that assms(1) show ?thesis unfolding store_use_def True by blast
  qed (rule assms(3))
  with assms(1,2) show ?thesis by (simp add: store_use_def)
qed

lemma plan_entry_Some:
  assumes "plan_entry env revision c so = Inr (Some (key, entry))"
  shows "use_store env" and "revision = ''baseline''" and "so_invalid so entry = None"
proof -
  from assms have "revision = ''baseline'' \<and> use_store env"
    unfolding plan_entry_def by (cases "revision = ''baseline'' \<and> use_store env") simp_all
  then show "use_store env" "revision = ''baseline''" by simp_all
  show "so_invalid so entry = None"
    using assms by (auto simp: plan_entry_def res_simps quality_entry_valid_def split: if_splits)
qed

lemma reuse_seeds_use:
  assumes "store_use env st s" and "use_store env" and "revision = ''baseline''"
  shows "store_use env st (snd (reuse_seeds env revision c entry seeds s))"
  using assms(1)
proof (induction seeds arbitrary: s)
  case (Cons seed seeds)
  have "store_use env st (snd (reuse_seed env revision c entry seed s))"
    using Cons.prems
    by (auto simp: reuse_seed_def assms(2,3) append_row_def reused_row_def Let_def bindS_def written_def
      split: sum.split option.split intro!: store_use_append[OF Cons.prems])
  then show ?case unfolding reuse_seeds.simps
    by (rule bindS_snd[where P = "store_use env st"])
      (rule bindS_snd[where P = "store_use env st"], auto simp: Cons.IH)
qed simp

lemma stored_row:
  assumes "store_quality_observation sha entry seed row so = Inr (stored, so')"
  shows "so_invalid so' = so_invalid so
    \<and> (\<forall>e k. so_rows so' e k \<noteq> so_rows so e k \<longrightarrow> e = entry \<and> k = seed
        \<and> (\<exists>row'. so_rows so' e k = Some row' \<and> qr_revision row' = qr_revision row \<and> qr_cached_from row' = qr_cached_from row
             \<and> qr_seed row' = qr_seed row \<and> qr_seed_block row' = qr_seed_block row))"
proof (cases "quality_entry_valid so entry")
  case True
  then obtain row' fs where c: "cached_row sha entry seed row (so_files so) = Inr (row', fs)"
    "so' = so\<lparr>so_files := fs, so_rows := (so_rows so)(entry := (so_rows so entry)(seed \<mapsto> row'))\<rparr>"
    using assms by (auto simp: store_quality_observation_def cache_quality_observation_def res_simps)
  have "qr_revision row' = qr_revision row \<and> qr_cached_from row' = qr_cached_from row
      \<and> qr_seed row' = qr_seed row \<and> qr_seed_block row' = qr_seed_block row"
    using c(1) by (auto simp: cached_row_def Let_def res_simps split: option.splits)
  then show ?thesis by (auto simp: c(2) split: if_splits)
next
  case False
  then show ?thesis using assms by (simp add: store_quality_observation_def)
qed

lemma commit_row_use:
  assumes "store_use env st s" and "batch_row env tk (row, result)"
    and "planned env rcs (qs_store st) tk"
  shows "store_use env st (snd (commit_row env tk (row, result) s))"
proof -
  obtain build where w: "same_identity row (fresh_row env (tk_revision tk) (tk_case tk) build result)"
    using assms(2) by (auto simp: batch_row_def)
  then have id: "qr_cached_from row = None" "qr_revision row = tk_revision tk"
    by (simp_all add: same_identity_def fresh_row_def key_of_def Let_def)
  define s1 where "s1 = append_row row (if wk_status result \<noteq> ''ok''
    then evidenceS (failure_of (tk_revision tk) row result) s else s)"
  have u: "store_use env st s1"
    by (rule store_use_append[OF assms(1), of row]) (simp_all add: id s1_def append_row_def evidenceS_def)
  show ?thesis
  proof (rule commit_row_snd[where P = "store_use env st", OF assms(1)])
    show "store_use env st (evidenceS (failure_of (tk_revision tk) row result) s)"
      using assms(1) by (simp add: store_use_def evidenceS_def)
    show "store_use env st (append_row row (if wk_status result \<noteq> ''ok''
        then evidenceS (failure_of (tk_revision tk) row result) s else s))" using u by (simp only: s1_def)
    fix entry stored so
    assume e: "tk_cache tk = Some entry"
      "store_quality_observation (qe_sha env) entry (wk_seed result) row (qs_store s) = Inr (stored, so)"
    obtain key where "plan_entry env (tk_revision tk) (tk_case tk) (qs_store st) = Inr (Some (key, entry))"
      using assms(3) e(1) by (auto simp: planned_def)
    note pe = plan_entry_Some[OF this]
    have s1: "qs_store s1 = qs_store s" by (simp add: s1_def append_row_def evidenceS_def)
    note so = stored_row[OF e(2)]
    have "store_use env st (s1\<lparr>qs_store := so\<rparr>)"
    proof (rule store_use_store[OF u])
      show "so_invalid so = so_invalid (qs_store s1)" using so by (simp add: s1)
      fix e k
      assume "so_rows so e k \<noteq> so_rows (qs_store s1) e k"
      with so obtain row' where "e = entry" "so_rows so e k = Some row'" "qr_revision row' = qr_revision row"
        "qr_cached_from row' = qr_cached_from row" unfolding s1 by blast
      with pe id show "use_store env \<and> so_invalid (qs_store st) e = None
        \<and> (\<exists>row. so_rows so e k = Some row \<and> qr_revision row = ''baseline'' \<and> qr_cached_from row = None)" by simp
    qed
    then show "store_use env st ((append_row row (if wk_status result \<noteq> ''ok''
        then evidenceS (failure_of (tk_revision tk) row result) s else s))\<lparr>qs_store := so\<rparr>)" by (simp only: s1_def)
  qed
qed

text \<open>
  The store serves the baseline of two different builds only: however \<open>quality\<close> ends, a row it reused is a
  baseline row, an entry it changed was valid and now holds a freshly compiled baseline row there, and
  in an A/A session it neither reads nor writes the store.
\<close>

theorem quality_store_use:
  assumes "store_ok (qs_store st)" and "distinct (map case_id cases)" and "distinct revisions"
  shows "store_use env st (snd (quality env cases revisions st))"
proof (rule quality_snd[where P = "store_use env st", OF store_use_refl assms])
  fix rev c s entry key seeds
  assume "store_use env st s" and "plan_entry env rev c (qs_store s) = Inr (Some (key, entry))"
  then show "store_use env st (snd (reuse_seeds env rev c entry seeds s))"
    using reuse_seeds_use plan_entry_Some by metis
next
  fix s tk rr
  assume "store_use env st s" and "batch_row env tk rr" and "planned env (panel_of cases revisions) (qs_store st) tk"
  then show "store_use env st (snd (commit_row env tk rr s))" using commit_row_use by (cases rr) blast
qed (simp add: store_use_def)

section \<open>The determinism audit\<close>

lemma audit_count_eq: "audit_count n = min n (max 10 ((n + 19) div 20))"
proof -
  have "\<lfloor>real n * (5 / 100) + 999 / 1000\<rfloor> = int ((n + 19) div 20)"
  proof (rule floor_unique)
    let ?q = "(n + 19) div 20"
    have "20 * ?q \<le> n + 19" "n + 19 < 20 * ?q + 20" by linarith+
    then have "20 * real ?q \<le> real n + 19" "real n < 20 * real ?q + 1"
      by (metis of_nat_add of_nat_le_iff of_nat_mult of_nat_numeral) linarith
    then show "real_of_int (int ?q) \<le> real n * (5 / 100) + 999 / 1000"
      "real n * (5 / 100) + 999 / 1000 < real_of_int (int ?q) + 1" by simp_all
  qed
  then show ?thesis by (simp add: audit_count_def)
qed

lemma invalidate_case_effect:
  assumes "invalidate_case env c st = (Inr u, st')"
  shows "qs_records st' = qs_records st \<and> so_invalid (qs_store st) \<subseteq>\<^sub>m so_invalid (qs_store st')
    \<and> (\<exists>key. baseline_quality_key env c = Inr key
        \<and> (qe_entry_exists env (qe_entry env key) \<longrightarrow> \<not> quality_entry_valid (qs_store st') (qe_entry env key)))"
  using assms by (auto simp: invalidate_case_def bindS_Inr invalidate_quality_entry_def quality_entry_valid_def map_le_def)

lemma invalidate_cases_effect:
  "foldS (invalidate_case env) cases st = (Inr u, st') \<Longrightarrow>
    qs_records st' = qs_records st \<and> so_invalid (qs_store st) \<subseteq>\<^sub>m so_invalid (qs_store st')
    \<and> (\<forall>c\<in>set cases. \<exists>key. baseline_quality_key env c = Inr key
        \<and> (qe_entry_exists env (qe_entry env key) \<longrightarrow> \<not> quality_entry_valid (qs_store st') (qe_entry env key)))"
proof (induction cases arbitrary: st)
  case (Cons c cases)
  then obtain v s where i: "invalidate_case env c st = (Inr v, s)" "foldS (invalidate_case env) cases s = (Inr u, st')"
    by (auto simp: bindS_Inr)
  note one = invalidate_case_effect[OF i(1)] and rest = Cons.IH[OF i(2)]
  from one obtain key where k: "baseline_quality_key env c = Inr key"
    "qe_entry_exists env (qe_entry env key) \<longrightarrow> \<not> quality_entry_valid (qs_store s) (qe_entry env key)" by blast
  have "\<not> quality_entry_valid (qs_store st') e" if "\<not> quality_entry_valid (qs_store s) e" for e
    using that rest by (auto simp: quality_entry_valid_def map_le_def dom_def)
  with k one rest show ?case by (auto intro: map_le_trans)
qed simp

lemma enumerate_mem:
  assumes "x \<in> set xs"
  shows "\<exists>i. (i, x) \<in> set (enumerate 0 xs)"
proof -
  obtain i where "i < length xs" "xs ! i = x" using assms by (auto simp: in_set_conv_nth)
  then have "enumerate 0 xs ! i = (i, x)" "i < length (enumerate 0 xs)" by (simp_all add: nth_enumerate_eq)
  then show ?thesis by (metis nth_mem)
qed

lemma audit_jobs_reproduced:
  assumes "audit_jobs env sampled = Inr True" and "(revision, c, row, hash_seed) \<in> set sampled"
  shows "\<exists>t result others. job env t revision c ''quality'' [qr_seed row] [] hash_seed = Inr (result # others) \<and> reproduced row result"
proof -
  obtain oks where o: "list_all2 (\<lambda>x y. audit_job env x = Inr y) (enumerate 0 sampled) oks" and ok: "list_all id oks"
    using assms(1) by (auto simp: audit_jobs_def res_simps)
  obtain i where "(i, revision, c, row, hash_seed) \<in> set (enumerate 0 sampled)"
    using enumerate_mem[OF assms(2)] by blast
  from list_all2_left[OF o this] obtain y where y: "y \<in> set oks"
    "audit_job env (i, revision, c, row, hash_seed) = Inr y" by auto
  from y(1) ok have "y" by (auto simp: list_all_iff)
  with y(2) obtain results where j: "job env (''audit'', i, []) revision c ''quality'' [qr_seed row] [] hash_seed = Inr results"
    "(case results of [] \<Rightarrow> Inl IndexError | result # _ \<Rightarrow> Inr (reproduced row result)) = Inr True"
    by (auto simp: audit_job_def bindE_Inr_iff)
  show ?thesis
  proof (cases results)
    case (Cons result others)
    with j show ?thesis by (intro exI[of _ "(''audit'', i, [])"] exI[of _ result] exI[of _ others]) simp
  qed (use j(2) in simp)
qed

text \<open>What any session may later do to the store: publish rows of any entry, or mark an entry invalid.\<close>

inductive store_step :: "store \<Rightarrow> store \<Rightarrow> bool" where
  store_published: "store_quality_observation sha entry seed row so = Inr (stored, so') \<Longrightarrow> store_step so so'"
| store_invalidated: "store_step so (invalidate_quality_entry exists entry reason so)"

interpretation invalidations: write_once store_step so_invalid
proof unfold_locales
  fix so so' :: store and entry reason
  assume "store_step so so'" and "so_invalid so entry = Some reason"
  then show "so_invalid so' entry = Some reason"
    by cases (auto simp: invalidate_quality_entry_def quality_entry_valid_def dest: stored_row)
qed

lemma invalid_never_planned:
  assumes "\<not> quality_entry_valid so entry" and "store_step\<^sup>*\<^sup>* so so'"
  shows "plan_entry env revision c so' \<noteq> Inr (Some (key, entry))"
proof
  assume "plan_entry env revision c so' = Inr (Some (key, entry))"
  from plan_entry_Some(3)[OF this] invalidations.entry_stable[OF assms(2)] assms(1) show False
    by (auto simp: quality_entry_valid_def)
qed

text \<open>
  C16. The audit fails closed: if it passes, every audited revision had rows, and every sampled row was compiled
  again by a job that finished with the row's own output hash and layout. Otherwise, with a store and the
  baseline audited, the entry of each of its cases that exists is out of use for good: whatever any
  sessions store or invalidate later, no session plans to read or fill it again.
\<close>

theorem audit_fails_closed:
  fixes env :: "('a, 'b) qenv"
  assumes "audit env cases observations revisions st = (Inr u, st')"
  shows "if result_of (qs_records st') ''audit/determinism'' = Some ''passed''
    then \<forall>revision\<in>set revisions. audit_rows revision observations \<noteq> []
      \<and> (\<exists>sampled. audit_sample env cases observations revision = Inr sampled
           \<and> (\<forall>(rev, c, row, hash_seed)\<in>set sampled. \<exists>t result others.
                job env t rev c ''quality'' [qr_seed row] [] hash_seed = Inr (result # others)
                \<and> wk_status result = ''ok'' \<and> wk_output_hash result = qr_output_hash row \<and> Some (wk_layout result) = qr_layout row))
    else qe_has_store env \<and> ''baseline'' \<in> set revisions \<longrightarrow> (\<forall>c\<in>set cases. \<exists>key. baseline_quality_key env c = Inr key
      \<and> (qe_entry_exists env (qe_entry env key) \<longrightarrow> (\<forall>so. store_step\<^sup>*\<^sup>* (qs_store st') so \<longrightarrow>
            plan_entry env ''baseline'' c so = Inr None
            \<and> (\<forall>env' revision' c' key'. plan_entry (env' :: ('a, 'b) qenv) revision' c' so \<noteq> Inr (Some (key', qe_entry env key))))))"
proof -
  obtain samples same where a: "mapE (audit_sample env cases observations) revisions = Inr samples"
    "audit_jobs env (concat samples) = Inr same"
    and rest: "(let ok = (same \<and> list_all (\<lambda>revision. audit_rows revision observations \<noteq> []) revisions);
         st = evidenceS (record_of ''audit/determinism'' ''completeness'' (if ok then ''passed'' else ''unresolved'') ''evolved'' []) st in
     if \<not> ok \<and> qe_has_store env \<and> ''baseline'' \<in> set revisions
     then foldS (invalidate_case env) cases st else (Inr (), st)) = (Inr u, st')"
    using assms unfolding audit_def bindS_Inr by auto
  define ok where "ok = (same \<and> list_all (\<lambda>revision. audit_rows revision observations \<noteq> []) revisions)"
  define st1 where "st1 = evidenceS (record_of ''audit/determinism'' ''completeness'' (if ok then ''passed'' else ''unresolved'') ''evolved'' []) st"
  have r: "(if \<not> ok \<and> qe_has_store env \<and> ''baseline'' \<in> set revisions then foldS (invalidate_case env) cases st1 else (Inr (), st1)) = (Inr u, st')"
    using rest unfolding Let_def ok_def[symmetric] st1_def[symmetric] .
  have "qs_records st' = qs_records st1" using r invalidate_cases_effect by (auto split: if_splits)
  then have res: "result_of (qs_records st') ''audit/determinism'' = Some (if ok then ''passed'' else ''unresolved'')"
    using result_of_evidence[of "qs_records st" "record_of ''audit/determinism'' ''completeness'' (if ok then ''passed'' else ''unresolved'') ''evolved'' []"]
    by (simp add: st1_def evidenceS_def)
  show ?thesis
  proof (cases ok)
    case True
    have "\<exists>sampled. audit_sample env cases observations revision = Inr sampled \<and> (\<forall>(rev, c, row, hash_seed)\<in>set sampled.
         \<exists>t result others. job env t rev c ''quality'' [qr_seed row] [] hash_seed = Inr (result # others)
           \<and> wk_status result = ''ok'' \<and> wk_output_hash result = qr_output_hash row \<and> Some (wk_layout result) = qr_layout row)"
      if rev: "revision \<in> set revisions" for revision
    proof -
      obtain sampled where s: "sampled \<in> set samples" "audit_sample env cases observations revision = Inr sampled"
        using list_all2_left[OF a(1)[unfolded mapE_Inr_iff] rev] by blast
      with audit_jobs_reproduced[of env "concat samples", unfolded reproduced_def] a(2) True show ?thesis by (fastforce simp: ok_def)
    qed
    with True res show ?thesis by (simp add: ok_def list_all_iff)
  next
    case False
    have "\<exists>key. baseline_quality_key env c = Inr key
      \<and> (qe_entry_exists env (qe_entry env key) \<longrightarrow> (\<forall>so. store_step\<^sup>*\<^sup>* (qs_store st') so \<longrightarrow>
            plan_entry env ''baseline'' c so = Inr None
            \<and> (\<forall>env' revision' c' key'. plan_entry (env' :: ('a, 'b) qenv) revision' c' so \<noteq> Inr (Some (key', qe_entry env key)))))"
      if "qe_has_store env" "''baseline'' \<in> set revisions" "c \<in> set cases" for c
    proof -
      have "foldS (invalidate_case env) cases st1 = (Inr u, st')" using r False that(1,2) by simp
      with invalidate_cases_effect that(3) obtain key where k: "baseline_quality_key env c = Inr key"
        "qe_entry_exists env (qe_entry env key) \<longrightarrow> \<not> quality_entry_valid (qs_store st') (qe_entry env key)" by blast
      show ?thesis
      proof (intro exI[of _ key] conjI impI allI)
        fix so assume e: "qe_entry_exists env (qe_entry env key)" and "store_step\<^sup>*\<^sup>* (qs_store st') so"
        with k(2) have never: "plan_entry (env' :: ('a, 'b) qenv) revision' c' so \<noteq> Inr (Some (key', qe_entry env key))"
          for env' revision' c' key' using invalid_never_planned by metis
        then show "plan_entry (env' :: ('a, 'b) qenv) revision' c' so \<noteq> Inr (Some (key', qe_entry env key))"
          for env' revision' c' key' .
        show "plan_entry env ''baseline'' c so = Inr None"
          using never[of env "''baseline''" c key] by (simp add: plan_entry_def k(1) split: if_splits)
      qed (rule k(1))
    qed
    with res False show ?thesis by simp
  qed
qed

section \<open>A finished panel is complete\<close>

lemma card_panel:
  fixes cases :: "tcase list" and revisions :: "string list"
  assumes "distinct (map case_id cases)" and "distinct revisions"
  shows "card {(case_id c, rev, s, ''B0'') |rev c s. rev \<in> set revisions \<and> c \<in> set cases \<and> s < seeds_per_block c}
    = length revisions * sum_list (map seeds_per_block cases)"
proof -
  let ?keys = "panel_missing {} (panel_of cases revisions)"
  have "length ?keys = length revisions * sum_list (map seeds_per_block cases)"
    by (induction revisions) (simp_all add: panel_missing_def panel_of_def missing_seeds_def length_concat o_def)
  moreover have "distinct ?keys" by (rule distinct_panel_missing[OF distinct_panel[OF assms]])
  moreover have "set ?keys = {(case_id c, rev, s, ''B0'') |rev c s. rev \<in> set revisions \<and> c \<in> set cases \<and> s < seeds_per_block c}"
    unfolding set_panel_missing set_panel by auto
  ultimately show ?thesis using distinct_card by metis
qed

lemma aggregate_completeness:
  assumes "aggregate_checks profile cases obs recs = Inr out"
  shows "completeness_row (profile_prefix profile) cases (b0_rows obs) \<in> set out"
proof -
  obtain mid checks where out: "out = foldl evidence mid (completeness_row (profile_prefix profile) cases (b0_rows obs)
        # oracle_rows (profile_prefix profile) cases checks ''C0''
        @ oracle_rows (profile_prefix profile) cases checks ''C6'')"
    using aggregate_checks_rows[OF assms] by blast
  show ?thesis unfolding out by (rule aggregate_row_member[OF refl]) simp
qed

text \<open>
  C15. A finished panel is complete: when \<open>quality\<close> returns for both revisions, on a log that held at most
  rows of this panel, \<open>aggregate_checks\<close> on its rows writes a passed completeness record.
\<close>

theorem quality_completes_panel:
  assumes "quality env cases [''baseline'', ''evolved''] st = (Inr rows, st')" and "store_ok (qs_store st)"
    and "distinct (map case_id cases)" and "distinct (map key_of (qs_log st))"
    and "\<forall>r\<in>set (qs_log st). \<exists>c\<in>set cases. qr_case_id r = case_id c \<and> qr_revision r \<in> {''baseline'', ''evolved''}
          \<and> qr_seed r < seeds_per_block c \<and> qr_seed_block r = ''B0''"
    and "aggregate_checks profile cases (map observation_of rows) recs = Inr out"
  shows "record_of (profile_prefix profile @ ''6/completeness'') ''completeness'' ''passed'' ''evolved'' [] \<in> set out"
proof -
  let ?revs = "[''baseline'', ''evolved'']"
  let ?panel = "{(case_id c, rev, s, ''B0'') |rev c s. rev \<in> set ?revs \<and> c \<in> set cases \<and> s < seeds_per_block c}"
  have d: "distinct ?revs" by simp
  obtain new where new: "rows = qs_log st @ new" "distinct (map key_of new)"
    "set (map key_of new) = ?panel - set (map key_of (qs_log st))"
    using quality_rows[OF assms(1-3) d] by blast
  have old: "set (map key_of (qs_log st)) \<subseteq> ?panel"
  proof
    fix k
    assume "k \<in> set (map key_of (qs_log st))"
    then obtain r where r: "r \<in> set (qs_log st)" "k = key_of r" by auto
    with assms(5) obtain c where "c \<in> set cases" "qr_case_id r = case_id c" "qr_revision r \<in> set ?revs"
      "qr_seed r < seeds_per_block c" "qr_seed_block r = ''B0''" by auto
    with r(2) show "k \<in> ?panel" unfolding key_of_def by blast
  qed
  have keys: "set (map key_of rows) = ?panel" using new(1,3) old by auto
  have dist: "distinct (map key_of rows)" using new assms(4) by auto
  have "length rows = card ?panel" using distinct_card[OF dist] unfolding keys by simp
  also have "\<dots> = expected_observations cases"
    unfolding card_panel[OF assms(3) d] by (simp add: expected_observations_def)
  finally have len: "length rows = expected_observations cases" .
  have "qr_seed_block r = ''B0''" if "r \<in> set rows" for r
  proof -
    have "key_of r \<in> ?panel" unfolding keys[symmetric] using that by simp
    then show ?thesis by (auto simp: key_of_def)
  qed
  then have "b0_rows (map observation_of rows) = map observation_of rows"
    by (simp add: b0_rows_def observation_of_def filter_map o_def)
  with aggregate_completeness[OF assms(6)] len show ?thesis by (simp add: completeness_row_def)
qed

section \<open>Witnesses\<close>

text \<open>A comparison whose baseline rows are stored and whose workers stop before the first row.\<close>

definition demo_qenv :: "(unit, unit) qenv" where
  "demo_qenv = \<lparr>
     qe_spawn = (\<lambda>t revision js d j. \<lparr>pr_start = 0, pr_polls = [], pr_hooked = False, pr_observed = False, pr_exited = None,
       pr_reaped = None, pr_rows = Inr [], pr_returncode = 1, pr_log_tail = []\<rparr>),
     qe_valid = (\<lambda>_. Inr ()), qe_dir = (\<lambda>t. ''jobs''), qe_circuit = (\<lambda>_. Inl FileNotFoundError),
     qe_rops = (\<lambda>_. Inl FileNotFoundError), qe_hash = (\<lambda>_. []), qe_sha = id, qe_layout = (\<lambda>_. None),
     qe_target = (\<lambda>_. Inr \<lparr>t_qubits = 2, t_instructions = [], t_native_2q = []\<rparr>),
     qe_case_digest = (\<lambda>c. []), qe_row_digest = (\<lambda>_. ''row''), qe_entry = (\<lambda>key. ''e''), qe_entry_exists = (\<lambda>_. True),
     qe_verifier = demo_verifier, qe_profile = ''iterations-profile'',
     qe_builds = [''baseline'' \<mapsto> ''b'', ''evolved'' \<mapsto> ''x''], qe_has_store = True, qe_cpu = None, qe_protocol = [],
     qe_implementation = [], qe_batch_size = 2, qe_sample = (\<lambda>_ n k. [0..<k]), qe_directory = ''session'', qe_killed = (\<lambda>_. False)\<rparr>"

definition demo_qstate :: qstate where
  "demo_qstate = \<lparr>qs_log = [], qs_records = [], qs_store = demo_store\<lparr>so_rows := (\<lambda>_. Map.empty)(''e'' := [0 \<mapsto>
     (demo_qrow 0)\<lparr>qr_cache_sha := Some ''circuit''\<rparr>, 1 \<mapsto> (demo_qrow 1)\<lparr>qr_cache_sha := Some ''circuit''\<rparr>])\<rparr>,
     qs_cache = Map.empty\<rparr>"

definition demo_panel :: "tcase list" where
  "demo_panel = [demo_case ''a'' ''scored'' 1]"

lemma demo_qstate_ok: "store_ok (qs_store demo_qstate)" "failures_recorded demo_qstate"
  by (auto simp: demo_qstate_def store_ok_def demo_store_def demo_qrow_def failures_recorded_def split: if_splits)

lemma demo_panel_ok: "distinct (map case_id demo_panel)" "distinct [''baseline'', ''evolved'']"
  by (simp_all add: demo_panel_def)

lemma demo_job_fails:
  assumes "revision \<in> {''baseline'', ''evolved''}"
  shows "job demo_qenv t revision c mode (s # ss) edits h = Inr (map (set_job_file ''jobs/job.json'')
    (error_row mode s ''Worker exited before completing the batch'' False 1
      # skipped_rows \<lparr>jb_mode = mode, jb_seeds = s # ss, jb_timeout = timeout_s c, jb_body = []\<rparr> (s # ss) 1))"
proof -
  have f: "set_job_file x (set_job_file x r) = set_job_file x r" for x r
    by (simp add: set_job_file_def)
  have "\<exists>b. qe_builds demo_qenv revision = Some b" using assms by (auto simp: demo_qenv_def)
  then show ?thesis
    by (auto simp: job_def demo_qenv_def run_worker.simps[of _ _ "''jobs''"] abort_of_def pending_seeds_def
      stop_reason_def f o_def Let_def)
qed

lemma demo_written: "written demo_qenv st = (Inr (), st)"
  by (simp add: written_def demo_qenv_def)

lemma demo_quality: "\<exists>rows st'. quality demo_qenv demo_panel [''baseline'', ''evolved''] demo_qstate = (Inr rows, st')
    \<and> (\<forall>r\<in>set rows. qr_checks r = [])"
proof -
  have target: "\<exists>t. qe_target demo_qenv c = Inr t" for c by (simp add: demo_qenv_def)
  have builds: "qe_builds demo_qenv ''baseline'' = Some ''b''" "qe_builds demo_qenv ''evolved'' = Some ''x''"
    by (simp_all add: demo_qenv_def)
  have use: "use_store demo_qenv" by (simp add: use_store_def builds_of_def same_build_def builds) (simp add: demo_qenv_def)
  have size: "qe_batch_size demo_qenv = 2" by (simp add: demo_qenv_def)
  have entry: "plan_entry demo_qenv ''baseline'' c (qs_store demo_qstate) = Inr (Some (key, ''e''))"
    if "baseline_quality_key demo_qenv c = Inr key" for c key
    using that by (simp add: plan_entry_def use demo_qstate_def quality_entry_valid_def demo_store_def) (simp add: demo_qenv_def)
  have key: "\<exists>key. baseline_quality_key demo_qenv c = Inr key" for c
    by (simp add: baseline_quality_key_def builds quality_cache_key_def)
  have reuse: "\<exists>s. reuse_seeds demo_qenv ''baseline'' c ''e'' [0, 1] demo_qstate = (Inr [], s) \<and> (\<forall>r\<in>set (qs_log s). qr_checks r = [])" for c
    by (simp add: reuse_seed_def bindS_def demo_written demo_qstate_def demo_store_def cached_quality_observation_def append_row_def
      demo_qrow_def) (simp add: demo_qenv_def reused_row_def Let_def)
  let ?c = "demo_case ''a'' ''scored'' 1"
  obtain t where t: "qe_target demo_qenv ?c = Inr t" using target by blast
  obtain k where k: "baseline_quality_key demo_qenv ?c = Inr k" using key by blast
  obtain s where s: "reuse_seeds demo_qenv ''baseline'' ?c ''e'' [0, 1] demo_qstate = (Inr [], s)"
    "\<forall>r\<in>set (qs_log s). qr_checks r = []" using reuse by blast
  have missing: "missing_seeds {} revision ?c = [0, 1]" for revision by (simp add: missing_seeds_def demo_case_def upt_rec)
  have none: "plan_entry demo_qenv ''evolved'' ?c so = Inr None" for so by (simp add: plan_entry_def)
  have chunks: "chunks_of 2 [] = []" "chunks_of 2 [0, 1 :: nat] = [[0, 1]]"
    by (subst chunks_of.simps, simp) (subst chunks_of.simps, simp add: chunks_of.simps[of _ "[]"])
  define tk where "tk = \<lparr>tk_revision = ''evolved'', tk_case = ?c, tk_target = t, tk_batch = [0, 1], tk_cache = None\<rparr>"
  have plan: "plan_cases demo_qenv {} (panel_of demo_panel [''baseline'', ''evolved'']) demo_qstate = (Inr [tk], s)"
    by (simp add: panel_of_def demo_panel_def plan_case_def bindS_def t entry[OF k] s(1) none missing size chunks tk_def
        del: reuse_seeds.simps One_nat_def)
  obtain rows where rows: "job demo_qenv (''batch'', 0, ''quality'') ''evolved'' ?c ''quality'' [0, 1] [] ''0'' = Inr rows"
    "\<forall>r\<in>set rows. wk_status r = ''error''"
    using demo_job_fails[of "''evolved''" _ ?c "''quality''" 0 "[1]"] by (auto simp: skipped_rows_def)
  have none_ok: "filter (\<lambda>r. wk_status r = ''ok'') rows = []" using rows(2) by (simp add: filter_empty_conv)
  have obs: "observe demo_qenv ''evolved'' ?c ''x'' t p r = Inr (fresh_row demo_qenv ''evolved'' ?c ''x'' r, None)"
    if "r \<in> set rows" for p r
    using rows(2) that by (simp add: observe_def Let_def)
  have batch: "quality_batch demo_qenv 0 ''evolved'' ?c t [0, 1]
      = Inr (map (\<lambda>r. ((fresh_row demo_qenv ''evolved'' ?c ''x'' r, None), r)) rows)"
  proof -
    have "routing_batch demo_qenv 0 ''evolved'' ?c [] = Inr Map.empty"
      by (simp add: routing_batch_def routing_replay_seeds_def)
    moreover have "mapE (\<lambda>r. bindE (observe demo_qenv ''evolved'' ?c ''x'' t p r) (\<lambda>x. Inr (x, r))) rows
        = Inr (map (\<lambda>r. ((fresh_row demo_qenv ''evolved'' ?c ''x'' r, None), r)) rows)" for p
      by (rule mapE_total) (simp add: obs)
    ultimately show ?thesis by (simp add: quality_batch_def builds rows(1) none_ok del: One_nat_def)
  qed
  have lite: "add_lite (map (\<lambda>r. ((f r, None), r)) rs) [] = Inr (map (\<lambda>r. (f r, r)) rs)" for f :: "wresult \<Rightarrow> qrow" and rs
    by (induction rs) simp_all
  have filter_none: "filter (\<lambda>((row, width), result). width \<noteq> None) (map (\<lambda>r. ((f r, None), r)) rs) = []"
    for f :: "wresult \<Rightarrow> qrow" and rs by (induction rs) simp_all
  have fold_ok: "\<exists>s'. foldS (commit_row demo_qenv tk) rs s = (Inr (), s') \<and> qs_log s' = qs_log s @ map fst rs" for rs s
  proof (induction rs arbitrary: s)
    case (Cons r rs)
    have "\<exists>s1. commit_row demo_qenv tk r s = (Inr (), s1) \<and> qs_log s1 = qs_log s @ [fst r]"
      by (cases r) (simp add: commit_row_def tk_def append_row_def evidenceS_def Let_def bindS_def demo_written)
    then obtain s1 where s1: "commit_row demo_qenv tk r s = (Inr (), s1)" "qs_log s1 = qs_log s @ [fst r]" by blast
    obtain s' where "foldS (commit_row demo_qenv tk) rs s1 = (Inr (), s')" "qs_log s' = qs_log s1 @ map fst rs"
      using Cons by blast
    with s1 show ?case by (simp add: bindS_def)
  qed simp
  have verify: "verify_lite demo_qenv [] s = (Inr [], s\<lparr>qs_cache := save_results Map.empty (qs_cache s)\<rparr>)" for s
    by (simp add: verify_lite_def verify_many_def pending_jobs_def)
  have "\<exists>s'. commit_batch demo_qenv (0, tk) s = (Inr (), s') \<and> (\<forall>r\<in>set (qs_log s'). qr_checks r = [])"
  proof -
    let ?rows = "map (\<lambda>r. (fresh_row demo_qenv ''evolved'' ?c ''x'' r, r)) rows"
    let ?s = "s\<lparr>qs_cache := save_results Map.empty (qs_cache s)\<rparr>"
    obtain s' where s': "foldS (commit_row demo_qenv tk) ?rows ?s = (Inr (), s')" "qs_log s' = qs_log s @ map fst ?rows"
      using fold_ok[of ?rows ?s] by auto
    have "commit_batch demo_qenv (0, tk) s = (Inr (), s')"
      using s'(1) by (simp add: commit_batch_def bindS_def batch filter_none verify lite tk_def del: One_nat_def)
    moreover have "\<forall>r\<in>set (qs_log s'). qr_checks r = []"
      using s(2) by (auto simp: s'(2) fresh_row_def Let_def)
    ultimately show ?thesis by blast
  qed
  then obtain s' where s': "commit_batch demo_qenv (0, tk) s = (Inr (), s')" "\<forall>r\<in>set (qs_log s'). qr_checks r = []" by blast
  have log: "set (map key_of (qs_log demo_qstate)) = {}" by (simp add: demo_qstate_def)
  have "quality demo_qenv demo_panel [''baseline'', ''evolved''] demo_qstate = (Inr (qs_log s'), s')"
    unfolding quality_def panel_of_def[symmetric] log plan by (simp add: bindS_def s'(1))
  with s'(2) show ?thesis by blast
qed

theorem quality_adds_missing_rows_witness:
  "\<exists>rows st'. quality demo_qenv demo_panel [''baseline'', ''evolved''] demo_qstate = (Inr rows, st')
    \<and> distinct (map key_of rows) \<and> (''a'', ''evolved'', 1, ''B0'') \<in> set (map key_of rows)"
proof -
  obtain rows st' where q: "quality demo_qenv demo_panel [''baseline'', ''evolved''] demo_qstate = (Inr rows, st')"
    using demo_quality by blast
  obtain new where new: "rows = qs_log demo_qstate @ new" "distinct (map key_of new)"
    "set (map key_of new) = {(case_id c, rev, s, ''B0'') |rev c s. rev \<in> set [''baseline'', ''evolved'']
        \<and> c \<in> set demo_panel \<and> s < seeds_per_block c} - set (map key_of (qs_log demo_qstate))"
    using quality_adds_missing_rows[OF q demo_qstate_ok(1) demo_panel_ok] by blast
  have "(''a'', ''evolved'', 1, ''B0'') \<in> set (map key_of new)"
    unfolding new(3) by (auto simp: demo_panel_def demo_case_def demo_qstate_def)
  with q new show ?thesis by (simp add: demo_qstate_def)
qed

theorem quality_failures_recorded_witness:
  "failures_recorded (snd (quality (demo_qenv\<lparr>qe_killed := (\<lambda>st. qs_records st \<noteq> [])\<rparr>) demo_panel [''baseline'', ''evolved''] demo_qstate))"
  by (rule quality_failures_recorded[OF demo_qstate_ok(2,1) demo_panel_ok])

theorem quality_store_use_witness:
  "store_use demo_qenv demo_qstate (snd (quality demo_qenv demo_panel [''baseline'', ''evolved''] demo_qstate))"
  by (rule quality_store_use[OF demo_qstate_ok(1) demo_panel_ok])

theorem quality_completes_panel_witness:
  "\<exists>rows out. aggregate_checks ''iterations-profile'' demo_panel (map observation_of rows) [] = Inr out
    \<and> record_of ''IA6/completeness'' ''completeness'' ''passed'' ''evolved'' [] \<in> set out"
proof -
  obtain rows st' where q: "quality demo_qenv demo_panel [''baseline'', ''evolved''] demo_qstate = (Inr rows, st')"
    "\<forall>r\<in>set rows. qr_checks r = []" using demo_quality by blast
  have "concat (map (\<lambda>row. map (Pair row) (ob_checks row)) (b0_rows (map observation_of rows))) = []"
    using q(2) by (auto simp: b0_rows_def observation_of_def)
  then have "all_checks (b0_rows (map observation_of rows)) = Inr []" by (simp only: all_checks_def mapE.simps bindE.simps)
  then obtain out where a: "aggregate_checks ''iterations-profile'' demo_panel (map observation_of rows) [] = Inr out"
    by (simp add: aggregate_checks_def aggregate_oracle_def Let_def)
  have "distinct (map key_of (qs_log demo_qstate))" "\<forall>r\<in>set (qs_log demo_qstate). \<exists>c\<in>set demo_panel.
      qr_case_id r = case_id c \<and> qr_revision r \<in> {''baseline'', ''evolved''}
          \<and> qr_seed r < seeds_per_block c \<and> qr_seed_block r = ''B0''" by (simp_all add: demo_qstate_def)
  from quality_completes_panel[OF q(1) demo_qstate_ok(1) demo_panel_ok(1) this a] a
  show ?thesis by (auto simp: profile_prefix_def)
qed

theorem audit_fails_closed_witness:
  "\<exists>u st'. audit demo_qenv demo_panel [demo_qrow 0] [''baseline''] demo_qstate = (Inr u, st')
    \<and> plan_entry demo_qenv ''baseline'' (demo_case ''a'' ''scored'' 1) (qs_store st') = Inr None"
proof -
  let ?c = "demo_case ''a'' ''scored'' 1"
  have rows: "audit_rows ''baseline'' [demo_qrow 0] = [demo_qrow 0]" by (simp add: audit_rows_def demo_qrow_def)
  have "audit_count 1 = 1" by (simp add: audit_count_eq)
  then have sample: "audit_sample demo_qenv demo_panel [demo_qrow 0] ''baseline'' = Inr [(''baseline'', ?c, demo_qrow 0, ''0'')]"
    by (simp add: audit_sample_def rows demo_panel_def dict_of_def demo_qenv_def)
      (simp add: demo_qrow_def demo_case_def)
  have jobs: "audit_jobs demo_qenv [(''baseline'', ?c, demo_qrow 0, ''0'')] = Inr False"
    by (simp add: audit_jobs_def audit_job_def demo_job_fails reproduced_def)
  have "qe_builds demo_qenv ''baseline'' = Some ''b''" by (simp add: demo_qenv_def)
  then have "\<exists>key. baseline_quality_key demo_qenv ?c = Inr key"
    by (simp add: baseline_quality_key_def quality_cache_key_def)
  then obtain key where key: "baseline_quality_key demo_qenv ?c = Inr key" by blast
  have "\<exists>st'. audit demo_qenv demo_panel [demo_qrow 0] [''baseline''] demo_qstate = (Inr (), st')
    \<and> qs_records st' = evidence (qs_records demo_qstate) (record_of ''audit/determinism'' ''completeness'' ''unresolved'' ''evolved'' [])"
    using key by (simp add: audit_def bindS_def sample jobs invalidate_case_def evidenceS_def Let_def)
      (simp add: demo_panel_def invalidate_case_def bindS_def)
  then have "\<exists>u st'. audit demo_qenv demo_panel [demo_qrow 0] [''baseline''] demo_qstate = (Inr u, st')
    \<and> result_of (qs_records st') ''audit/determinism'' \<noteq> Some ''passed''"
    using result_of_evidence[of "qs_records demo_qstate" "record_of ''audit/determinism'' ''completeness'' ''unresolved'' ''evolved'' []"]
    by auto
  then obtain u st' where a: "audit demo_qenv demo_panel [demo_qrow 0] [''baseline''] demo_qstate = (Inr u, st')"
    "result_of (qs_records st') ''audit/determinism'' \<noteq> Some ''passed''" by blast
  have "qe_has_store demo_qenv" "\<And>e. qe_entry_exists demo_qenv e" by (simp_all add: demo_qenv_def)
  with audit_fails_closed[OF a(1)] a show ?thesis by (auto simp: demo_panel_def)
qed

end
