(* ===== verification/Checks.thy ===== *)
theory Checks
  imports Quality
begin

text \<open>
  The correctness stage's suites, \<open>src/src/qtb/coordinator/checks.py\<close>: the frozen C1-C5 regression suite with its
  API contract checks, and C7 on the Clifford variants. Jobs, artifacts and the verifier come from the
  environment of the quality stage; a suite case is a manifest case with its oracle, the number of
  its bindings and their references. The state is the two logs of checks, the evidence of the stage
  and the verifier cache. The free text \<open>detail\<close> of a failed check and progress messages are left out.
\<close>

section \<open>Data\<close>

record suite_case =
  su_case :: tcase
  su_oracle :: string
  su_bindings :: nat
  su_references :: "artifact list"

record ('a, 'b) cenv =
  ce_q :: "('a, 'b) qenv"
  ce_suite :: "suite_case list res"
  ce_parameters :: "tcase \<Rightarrow> string list res"
  ce_target_file :: "tcase \<Rightarrow> string"

text \<open>A row of \<open>correctness.jsonl\<close> or \<open>clifford.jsonl\<close>: a check with the seed it is about.\<close>

record crow =
  cw_check :: check
  cw_seed :: nat
  cw_cached_from :: "string option"

record cstate =
  cs_correctness :: "crow list"
  cs_clifford :: "crow list"
  cs_records :: "crec list"
  cs_cache :: vcache

definition recordC :: "crec \<Rightarrow> cstate \<Rightarrow> cstate" where
  "recordC r st = st\<lparr>cs_records := evidence (cs_records st) r\<rparr>"

definition verifyC :: "('a, 'b) cenv \<Rightarrow> request list \<Rightarrow> cstate \<Rightarrow> check list res \<times> cstate" where
  "verifyC env requests st =
     (let (answers, cache) = verify_many (qe_verifier (ce_q env)) requests (cs_cache st) in
      (answers, st\<lparr>cs_cache := cache\<rparr>))"

definition prefixC :: "('a, 'b) cenv \<Rightarrow> string" where
  "prefixC env = profile_prefix (qe_profile (ce_q env))"

section \<open>One compiled seed\<close>

text \<open>\<open>_api_ok\<close>; a finished job without its answers raises.\<close>

definition api_ok :: "wresult \<Rightarrow> bool res" where
  "api_ok r =
     (if wk_status r \<noteq> ''ok'' then Inr False
      else (case wk_api r of
          None \<Rightarrow> Inl KeyError
        | Some a \<Rightarrow> Inr (api_input_before a = api_input_after a \<and> api_first a = api_again a \<and> api_batch_count a = 2
            \<and> api_batch_hashes a = api_individual_hashes a \<and> api_first_layout a = api_again_layout a
            \<and> api_batch_layouts a = api_individual_layouts a \<and> api_batch_metadata a = api_input_metadata a
            \<and> list_all (\<lambda>e. e = ''TranspilerError'') (api_negative_tests a))))"

text \<open>A check that is known, or the index of a pending oracle request.\<close>

datatype planned = Ready check | Pending nat

definition bare_check :: "string \<Rightarrow> check" where
  "bare_check status = (plain_check [] status)\<lparr>ck_oracle := None\<rparr>"

definition export_of :: "wresult \<Rightarrow> export" where
  "export_of r = \<lparr>ex_output = wk_output r, ex_layout = wk_layout r\<rparr>"

text \<open>The exports a parametric circuit is verified with: its bindings, or itself for each of them.\<close>

definition bound_outputs :: "suite_case \<Rightarrow> wresult \<Rightarrow> export list" where
  "bound_outputs su r = (if wk_free_parameters r = [] then replicate (su_bindings su) (export_of r) else wk_bindings r)"

definition binding_request :: "suite_case \<Rightarrow> export \<times> artifact \<Rightarrow> request" where
  "binding_request su br = \<lparr>rq_case = su_case su, rq_result = fst br, rq_oracle = ''C1'', rq_reference = Some (snd br),
     rq_extra = no_extra\<rparr>"

definition oracle_extra :: "('a, 'b) cenv \<Rightarrow> suite_case \<Rightarrow> wresult \<Rightarrow> extra" where
  "oracle_extra env su r =
     (if su_oracle su = ''C5''
      then no_extra\<lparr>xt_start_times := Some (case wk_start_times r of None \<Rightarrow> ''[]'' | Some s \<Rightarrow> s),
             xt_target := Some (ce_target_file env (su_case su))\<rparr>
      else no_extra\<lparr>xt_controlled := su_oracle su = ''C1'' \<and> logical_qubits (su_case su) \<le> 2\<rparr>)"

text \<open>\<open>_plan\<close>: the checks of a compiled seed, with the requests it adds to those already collected.\<close>

definition plan_seed ::
    "('a, 'b) cenv \<Rightarrow> suite_case \<Rightarrow> wresult \<Rightarrow> request list \<Rightarrow> (planned list \<times> request list) res" where
  "plan_seed env su r requests =
     (let c = su_case su in
      if wk_status r \<noteq> ''ok'' then Inr ([Ready (bare_check ''mismatch'')], requests)
      else
        bindE (qe_target (ce_q env) c) (\<lambda>t.
        bindE (qe_circuit (ce_q env) (wk_output r)) (\<lambda>(h, ops).
        bindE (structural_result h ops t (qe_layout (ce_q env) (wk_layout r)) (logical_qubits c)
            (map_option (map JI) (initial_layout c)) (constraint_form c)) (\<lambda>(s, width).
        let c0 = Ready (plain_check ''C0'' (if cr_verified s then ''verified'' else ''mismatch'')) in
        if su_oracle su = ''C4''
        then bindE (ce_parameters env c) (\<lambda>allowed.
          let extra = (if set (wk_free_parameters r) \<subseteq> set allowed then [] else [Ready (bare_check ''mismatch'')]);
              outputs = bound_outputs su r in
          if length outputs \<noteq> length (su_references su)
          then Inr (c0 # extra @ [Ready (bare_check ''unverified'')], requests)
          else Inr (c0 # extra @ map Pending [length requests..<length requests + length outputs],
                requests @ map (binding_request su) (zip outputs (su_references su))))
        else Inr ([c0, Pending (length requests)],
          requests @ [\<lparr>rq_case = c, rq_result = export_of r, rq_oracle = su_oracle su, rq_reference = None,
             rq_extra = oracle_extra env su r\<rparr>])))))"

fun plan_seeds ::
    "('a, 'b) cenv \<Rightarrow> (suite_case \<times> wresult) list \<Rightarrow> request list
       \<Rightarrow> ((suite_case \<times> wresult \<times> planned list) list \<times> request list) res" where
  "plan_seeds env [] requests = Inr ([], requests)"
| "plan_seeds env ((su, r) # rs) requests =
     bindE (plan_seed env su r requests) (\<lambda>(checks, requests).
     bindE (plan_seeds env rs requests) (\<lambda>(plans, requests). Inr ((su, r, checks) # plans, requests)))"

definition answer_of :: "check list \<Rightarrow> planned \<Rightarrow> check res" where
  "answer_of verdicts p =
     (case p of Ready k \<Rightarrow> Inr k | Pending i \<Rightarrow> if i < length verdicts then Inr (verdicts ! i) else Inl IndexError)"

section \<open>The regression suite\<close>

definition behavior_id :: "string \<Rightarrow> tcase \<Rightarrow> nat \<Rightarrow> string" where
  "behavior_id revision c seed = ''behavior/'' @ revision @ ''/'' @ case_id c @ ''/'' @ show_nat seed"

text \<open>One check of a plan: appended to the log, and to the evidence when it is a mismatch.\<close>

definition behavior_check ::
    "string \<Rightarrow> check list \<Rightarrow> suite_case \<times> wresult \<times> planned \<Rightarrow> cstate \<Rightarrow> string res \<times> cstate" where
  "behavior_check revision verdicts x st =
     (let (su, r, p) = x; c = su_case su in
      bindS (answer_of verdicts p, st) (\<lambda>k st.
        let st = st\<lparr>cs_correctness := cs_correctness st
              @ [\<lparr>cw_check = k\<lparr>ck_case_id := Some (case_id c), ck_revision := Some revision\<rparr>, cw_seed = wk_seed r, cw_cached_from = None\<rparr>]\<rparr> in
        (Inr (ck_status k),
         if ck_status k = ''mismatch''
         then recordC (record_of (behavior_id revision c (wk_seed r)) ''correctness'' ''failed'' (subject_of revision) []) st
         else st)))"

definition api_check :: "string \<Rightarrow> suite_case \<times> wresult list \<Rightarrow> cstate \<Rightarrow> string res \<times> cstate" where
  "api_check revision x st =
     (let (su, rows) = x in
      bindS (case rows of [] \<Rightarrow> Inl IndexError | r # _ \<Rightarrow> api_ok r, st) (\<lambda>ok st.
        (Inr (if ok then ''verified'' else ''mismatch''),
         if ok then st
         else recordC (record_of (''api/'' @ revision @ ''/'' @ case_id (su_case su)) ''correctness'' ''failed''
                (subject_of revision) []) st)))"

definition suite_jobs ::
    "('a, 'b) cenv \<Rightarrow> string \<Rightarrow> string \<Rightarrow> (suite_case \<Rightarrow> nat list) \<Rightarrow> suite_case list \<Rightarrow> wresult list list res" where
  "suite_jobs env revision mode seeds cases =
     mapE (\<lambda>(i, su). job (ce_q env) (revision, i, mode) revision (su_case su) mode (seeds su) [] ''0'') (enumerate 0 cases)"

definition api_cases :: "suite_case list \<Rightarrow> suite_case list" where
  "api_cases cases = filter (\<lambda>su. optimization_level (su_case su) = 2 \<and> initial_layout (su_case su) = None) cases"

definition all_ok :: "wresult list list \<Rightarrow> bool" where
  "all_ok rows = list_all (list_all (\<lambda>r. wk_status r = ''ok'')) rows"

definition DECISIVE :: "string list" where
  "DECISIVE = [''verified'', ''mismatch'']"

definition behavior_record :: "('a, 'b) cenv \<Rightarrow> string \<Rightarrow> string list \<Rightarrow> crec" where
  "behavior_record env revision statuses =
     record_of (prefixC env @ ''1/C1-C5/'' @ revision) ''correctness''
       (if statuses \<noteq> [] \<and> list_all (\<lambda>s. s = ''verified'') statuses then ''passed'' else ''unresolved'')
       (subject_of revision) []"

definition behavior_revision ::
    "('a, 'b) cenv \<Rightarrow> suite_case list \<Rightarrow> string \<Rightarrow> cstate \<Rightarrow> bool res \<times> cstate" where
  "behavior_revision env cases revision st =
     bindS (suite_jobs env revision ''quality'' (\<lambda>su. [0..<seeds_per_block (su_case su)]) cases, st) (\<lambda>compiled st.
     bindS (suite_jobs env revision ''api_checks'' (\<lambda>su. [0]) (api_cases cases), st) (\<lambda>api st.
     bindS (plan_seeds env (concat (map (\<lambda>(su, rows). map (Pair su) rows) (zip cases compiled))) [], st)
       (\<lambda>(plans, requests) st.
     bindS (verifyC env requests st) (\<lambda>verdicts st.
     bindS (mapS (behavior_check revision verdicts) (concat (map (\<lambda>(su, r, ps). map (\<lambda>p. (su, r, p)) ps) plans)) st)
       (\<lambda>statuses st.
     bindS (mapS (api_check revision) (zip (api_cases cases) api) st) (\<lambda>api_statuses st.
     (Inr (all_ok (compiled @ api) \<and> list_all (\<lambda>s. s \<in> set DECISIVE) statuses),
      recordC (behavior_record env revision (statuses @ api_statuses)) st)))))))"

text \<open>\<open>behavior_checks\<close>: one revision at a time, then the aggregate over both.\<close>

definition behavior_checks ::
    "('a, 'b) cenv \<Rightarrow> string list \<Rightarrow> cstate \<Rightarrow> bool res \<times> cstate" where
  "behavior_checks env revisions st =
     bindS (ce_suite env, st) (\<lambda>cases st.
     bindS (mapS (behavior_revision env cases) revisions st) (\<lambda>decisive st.
       let needed = map (\<lambda>revision. prefixC env @ ''1/C1-C5/'' @ revision) [''baseline'', ''evolved''];
           passed = map cr_id (filter (\<lambda>r. cr_result r = ''passed'') (cs_records st)) in
       (Inr (list_all id decisive),
        recordC (record_of (prefixC env @ ''1/C1-C5'') ''correctness''
          (if set needed \<subseteq> set passed then ''passed'' else ''unresolved'') ''evolved'' []) st)))"

section \<open>The Clifford variants\<close>

definition CLIFFORD_SEEDS :: "string \<Rightarrow> nat" where
  "CLIFFORD_SEEDS pre = (if pre = ''CA'' then 10 else 3)"

definition CLIFFORD_FULL_MODE :: "string \<Rightarrow> bool" where
  "CLIFFORD_FULL_MODE pre \<longleftrightarrow> pre = ''CA''"

record cmode =
  cm_name :: string
  cm_edits :: "string list"
  cm_covers :: "string list"
  cm_substituted :: "string list"

definition clifford_modes :: "string \<Rightarrow> cmode list" where
  "clifford_modes pre =
     filter (\<lambda>m. CLIFFORD_FULL_MODE pre \<or> cm_name m \<noteq> ''full'')
       [\<lparr>cm_name = ''full'', cm_edits = [], cm_covers = PIPELINE_STAGES, cm_substituted = []\<rparr>,
        \<lparr>cm_name = ''prefix'', cm_edits = [''drop_stage:optimization'', ''unitary_synthesis_method=clifford''],
          cm_covers = take 4 PIPELINE_STAGES, cm_substituted = [''unitary_synthesis'']\<rparr>]"

text \<open>The variant that is compiled in place of a case, for every input state.\<close>

definition clifford_case :: "tcase \<Rightarrow> artifact \<Rightarrow> tcase" where
  "clifford_case c a = c\<lparr>circuit := a, input_domain := ''all_inputs'', qubits_initially_zero := False\<rparr>"

record clabel =
  cl_revision :: string
  cl_case :: tcase
  cl_variant :: artifact
  cl_mode :: cmode

definition clifford_labels :: "string \<Rightarrow> string list \<Rightarrow> tcase list \<Rightarrow> clabel list" where
  "clifford_labels pre revisions cases =
     concat (map (\<lambda>revision. concat (map (\<lambda>c. case clifford_variant c of
         None \<Rightarrow> []
       | Some a \<Rightarrow> map (\<lambda>m. \<lparr>cl_revision = revision, cl_case = c, cl_variant = a, cl_mode = m\<rparr>) (clifford_modes pre)) cases))
       revisions)"

definition clifford_request :: "clabel \<Rightarrow> wresult \<Rightarrow> request" where
  "clifford_request l r = \<lparr>rq_case = clifford_case (cl_case l) (cl_variant l), rq_result = export_of r, rq_oracle = ''C7'',
     rq_reference = Some (cl_variant l),
     rq_extra = no_extra\<lparr>xt_covers := cm_covers (cl_mode l), xt_substituted := cm_substituted (cl_mode l)\<rparr>\<rparr>"

text \<open>The requests in order, and for each output the check or the index of its request.\<close>

fun plan_clifford :: "(clabel \<times> wresult) list \<Rightarrow> request list \<Rightarrow> (clabel \<times> wresult \<times> planned) list \<times> request list" where
  "plan_clifford [] requests = ([], requests)"
| "plan_clifford ((l, r) # lrs) requests =
     (if wk_status r = ''ok''
      then let (plans, others) = plan_clifford lrs (requests @ [clifford_request l r]) in
        ((l, r, Pending (length requests)) # plans, others)
      else let (plans, others) = plan_clifford lrs requests in
        ((l, r, Ready (bare_check ''unverified'')) # plans, others))"

definition clifford_row :: "clabel \<Rightarrow> wresult \<Rightarrow> check \<Rightarrow> crow" where
  "clifford_row l r k = \<lparr>cw_check = k\<lparr>ck_case_id := Some (case_id (cl_case l)), ck_revision := Some (cl_revision l),
     ck_mode := Some (cm_name (cl_mode l)), ck_oracle := Some ''C7''\<rparr>, cw_seed = wk_seed r, cw_cached_from = None\<rparr>"

definition clifford_id :: "clabel \<Rightarrow> nat \<Rightarrow> string" where
  "clifford_id l seed = ''C7/'' @ cl_revision l @ ''/'' @ case_id (cl_case l) @ ''/'' @ cm_name (cl_mode l) @ ''/'' @ show_nat seed"

definition clifford_check :: "check list \<Rightarrow> clabel \<times> wresult \<times> planned \<Rightarrow> cstate \<Rightarrow> string res \<times> cstate" where
  "clifford_check verdicts x st =
     (let (l, r, p) = x in
      bindS (answer_of verdicts p, st) (\<lambda>k st.
        let st = st\<lparr>cs_clifford := cs_clifford st @ [clifford_row l r k]\<rparr> in
        (Inr (ck_status k),
         if ck_status k = ''mismatch''
         then recordC (record_of (clifford_id l (wk_seed r)) ''correctness'' ''failed'' (subject_of (cl_revision l)) []) st
         else st)))"

definition clifford_passed :: "crow list \<Rightarrow> bool" where
  "clifford_passed rows =
     (let checks = filter (\<lambda>w. ck_mode (cw_check w) = Some ''prefix'') rows in
      set (map (\<lambda>w. ck_revision (cw_check w)) checks) = {Some ''baseline'', Some ''evolved''}
      \<and> list_all (\<lambda>w. ck_status (cw_check w) = ''verified'') checks)"

definition clifford_checks ::
    "('a, 'b) cenv \<Rightarrow> tcase list \<Rightarrow> string list \<Rightarrow> cstate \<Rightarrow> bool res \<times> cstate" where
  "clifford_checks env cases revisions st =
     (let pre = prefixC env; labels = clifford_labels pre revisions cases in
      bindS (mapE (\<lambda>(i, l). job (ce_q env) (''C7'', i, []) (cl_revision l) (clifford_case (cl_case l) (cl_variant l))
           ''prefix'' [0..<CLIFFORD_SEEDS pre] (cm_edits (cl_mode l)) ''0'') (enumerate 0 labels), st) (\<lambda>outputs st.
      let (planned, requests) = plan_clifford (concat (map (\<lambda>(l, rows). map (Pair l) rows) (zip labels outputs))) [] in
      bindS (verifyC env requests st) (\<lambda>verdicts st.
      bindS (mapS (clifford_check verdicts) planned st) (\<lambda>statuses st.
      (Inr (list_all (\<lambda>s. s \<in> set DECISIVE) statuses),
       recordC (record_of (pre @ ''1/C7'') ''correctness'' (if clifford_passed (cs_clifford st) then ''passed'' else ''unresolved'')
         ''evolved'' []) st)))))"

section \<open>Mismatches are recorded\<close>

definition failed_record :: "crec list \<Rightarrow> string \<Rightarrow> bool" where
  "failed_record recs i \<longleftrightarrow> (\<exists>r\<in>set recs. cr_id r = i \<and> cr_kind r = ''correctness'' \<and> cr_result r = ''failed'')"

lemma failed_record_kept:
  "failed_record recs i \<Longrightarrow> cr_id r \<noteq> i \<or> cr_kind r = ''correctness'' \<and> cr_result r = ''failed''
    \<Longrightarrow> failed_record (evidence recs r) i"
  by (auto simp: failed_record_def evidence_def)

lemma failed_record_new: "failed_record (evidence recs (record_of i ''correctness'' ''failed'' s d)) i"
  by (auto simp: failed_record_def evidence_def)

text \<open>The record a mismatching row of either log has.\<close>

definition row_record :: "crow \<Rightarrow> string" where
  "row_record w = ''behavior/'' @ the (ck_revision (cw_check w)) @ ''/'' @ the (ck_case_id (cw_check w)) @ ''/'' @ show_nat (cw_seed w)"

definition clifford_record :: "crow \<Rightarrow> string" where
  "clifford_record w = ''C7/'' @ the (ck_revision (cw_check w)) @ ''/'' @ the (ck_case_id (cw_check w)) @ ''/''
     @ the (ck_mode (cw_check w)) @ ''/'' @ show_nat (cw_seed w)"

definition mismatches_recorded :: "cstate \<Rightarrow> bool" where
  "mismatches_recorded st \<longleftrightarrow>
     (\<forall>w\<in>set (cs_correctness st). ck_status (cw_check w) = ''mismatch'' \<longrightarrow> failed_record (cs_records st) (row_record w))
     \<and> (\<forall>w\<in>set (cs_clifford st). ck_status (cw_check w) = ''mismatch'' \<longrightarrow> failed_record (cs_records st) (clifford_record w))"

lemma prefixC_cases: "prefixC env = ''CA'' \<or> prefixC env = ''IA''"
  by (simp add: prefixC_def profile_prefix_def)

text \<open>Aggregates have identifiers of their own, so writing one keeps every failure.\<close>

lemma recordC_aggregate:
  assumes "mismatches_recorded st" and "cr_id r = prefixC env @ s"
  shows "mismatches_recorded (recordC r st)"
proof -
  have "cr_id r \<noteq> row_record w \<and> cr_id r \<noteq> clifford_record w" for w
    using assms(2) prefixC_cases[of env] by (auto simp: row_record_def clifford_record_def)
  with assms(1) show ?thesis by (simp add: mismatches_recorded_def recordC_def failed_record_kept)
qed

lemma recordC_failure:
  "mismatches_recorded st \<Longrightarrow> mismatches_recorded (recordC (record_of i ''correctness'' ''failed'' s d) st)"
  by (simp add: mismatches_recorded_def recordC_def failed_record_kept)

lemma behavior_check_recorded:
  assumes "mismatches_recorded st"
  shows "mismatches_recorded (snd (behavior_check revision verdicts x st))"
proof -
  obtain su r p where x: "x = (su, r, p)" by (cases x)
  show ?thesis unfolding x behavior_check_def Let_def prod.case
  proof (rule bindS_snd[where P = mismatches_recorded])
    fix k s
    assume "mismatches_recorded s"
    then show "mismatches_recorded (snd (Inr (ck_status k),
         if ck_status k = ''mismatch''
         then recordC (record_of (behavior_id revision (su_case su) (wk_seed r)) ''correctness'' ''failed'' (subject_of revision) [])
           (s\<lparr>cs_correctness := cs_correctness s @ [\<lparr>cw_check = k\<lparr>ck_case_id := Some (case_id (su_case su)), ck_revision := Some revision\<rparr>,
             cw_seed = wk_seed r, cw_cached_from = None\<rparr>]\<rparr>)
         else s\<lparr>cs_correctness := cs_correctness s @ [\<lparr>cw_check = k\<lparr>ck_case_id := Some (case_id (su_case su)), ck_revision := Some revision\<rparr>,
             cw_seed = wk_seed r, cw_cached_from = None\<rparr>]\<rparr>))"
      by (auto simp: mismatches_recorded_def recordC_def row_record_def behavior_id_def failed_record_kept failed_record_new)
  qed (simp add: assms)
qed

lemma clifford_check_recorded:
  assumes "mismatches_recorded st"
  shows "mismatches_recorded (snd (clifford_check verdicts x st))"
proof -
  obtain l r p where x: "x = (l, r, p)" by (cases x)
  show ?thesis unfolding x clifford_check_def Let_def prod.case
  proof (rule bindS_snd[where P = mismatches_recorded])
    fix k s
    assume "mismatches_recorded s"
    then show "mismatches_recorded (snd (Inr (ck_status k),
         if ck_status k = ''mismatch''
         then recordC (record_of (clifford_id l (wk_seed r)) ''correctness'' ''failed'' (subject_of (cl_revision l)) [])
           (s\<lparr>cs_clifford := cs_clifford s @ [clifford_row l r k]\<rparr>)
         else s\<lparr>cs_clifford := cs_clifford s @ [clifford_row l r k]\<rparr>))"
      by (auto simp: mismatches_recorded_def recordC_def clifford_record_def clifford_row_def clifford_id_def
        failed_record_kept failed_record_new)
  qed (simp add: assms)
qed

lemma api_check_recorded:
  "mismatches_recorded st \<Longrightarrow> mismatches_recorded (snd (api_check revision x st))"
  unfolding api_check_def by (cases x) (auto simp: recordC_failure split: list.split intro!: bindS_snd[where P = mismatches_recorded])

lemma verifyC_recorded: "mismatches_recorded st \<Longrightarrow> mismatches_recorded (snd (verifyC env requests st))"
  by (simp add: verifyC_def mismatches_recorded_def split: prod.split)

lemmas recorded_intros = bindS_snd[where P = mismatches_recorded] mapS_snd[where P = mismatches_recorded] verifyC_recorded
  behavior_check_recorded api_check_recorded clifford_check_recorded

lemma behavior_revision_recorded:
  assumes "mismatches_recorded st"
  shows "mismatches_recorded (snd (behavior_revision env cases revision st))"
  unfolding behavior_revision_def
  by (intro recorded_intros; (simp add: assms split: prod.split)?; (intro recorded_intros allI impI)?;
      (simp add: assms recordC_aggregate behavior_record_def)?)

text \<open>
  No mismatch is lost: however the suites end, by value or by an exception, every mismatching row of their
  logs has its failed correctness record in the evidence, so neither the gate nor the verdict can pass.
\<close>

theorem suites_record_mismatches:
  assumes "mismatches_recorded st"
  shows "mismatches_recorded (snd (behavior_checks env revisions st))
    \<and> mismatches_recorded (snd (clifford_checks env cases revisions st))"
proof
  show "mismatches_recorded (snd (behavior_checks env revisions st))"
    unfolding behavior_checks_def
    by (intro recorded_intros; (simp add: assms Let_def recordC_aggregate behavior_revision_recorded)?)
  show "mismatches_recorded (snd (clifford_checks env cases revisions st))"
    unfolding clifford_checks_def Let_def
    by (intro recorded_intros; (simp add: assms split: prod.split)?; (intro recorded_intros allI impI)?;
        (simp add: assms recordC_aggregate)?)
qed

section \<open>A passed suite is complete\<close>

definition behavior_row :: "string \<Rightarrow> suite_case \<times> wresult \<times> planned \<Rightarrow> check \<Rightarrow> crow" where
  "behavior_row revision x k = \<lparr>cw_check = k\<lparr>ck_case_id := Some (case_id (su_case (fst x))), ck_revision := Some revision\<rparr>,
     cw_seed = wk_seed (fst (snd x)), cw_cached_from = None\<rparr>"

lemma behavior_check_Inr:
  assumes "behavior_check revision verdicts x st = (Inr y, st')"
  shows "\<exists>k. answer_of verdicts (snd (snd x)) = Inr k \<and> y = ck_status k
    \<and> cs_correctness st' = cs_correctness st @ [behavior_row revision x k] \<and> cs_clifford st' = cs_clifford st"
  using assms by (cases x) (auto simp: behavior_check_def Let_def bindS_Inr behavior_row_def recordC_def)

lemma behavior_checks_rows:
  assumes "mapS (behavior_check revision verdicts) xs st = (Inr ys, st')"
  shows "\<exists>ks. list_all2 (\<lambda>x k. answer_of verdicts (snd (snd x)) = Inr k) xs ks \<and> ys = map ck_status ks
    \<and> cs_correctness st' = cs_correctness st @ map2 (behavior_row revision) xs ks"
  using assms
proof (induction xs arbitrary: st ys)
  case (Cons x xs)
  then obtain y t zs where m: "behavior_check revision verdicts x st = (Inr y, t)"
    "mapS (behavior_check revision verdicts) xs t = (Inr zs, st')" "ys = y # zs" by (auto simp: bindS_Inr)
  obtain k where k: "answer_of verdicts (snd (snd x)) = Inr k" "y = ck_status k"
    "cs_correctness t = cs_correctness st @ [behavior_row revision x k]"
    using behavior_check_Inr[OF m(1)] by blast
  obtain ks where ks: "list_all2 (\<lambda>x k. answer_of verdicts (snd (snd x)) = Inr k) xs ks" "zs = map ck_status ks"
    "cs_correctness st' = cs_correctness t @ map2 (behavior_row revision) xs ks" using Cons.IH[OF m(2)] by blast
  from k ks m(3) show ?case by (intro exI[of _ "k # ks"]) simp
qed simp

lemma api_checks_log:
  "mapS (api_check revision) xs st = (Inr ys, st') \<Longrightarrow> cs_correctness st' = cs_correctness st
    \<and> list_all2 (\<lambda>(su, rows) y. y = ''verified'' \<longrightarrow> (\<exists>r others. rows = r # others \<and> api_ok r = Inr True)) xs ys"
proof (induction xs arbitrary: st ys)
  case (Cons x xs)
  then obtain y t zs where m: "api_check revision x st = (Inr y, t)"
    "mapS (api_check revision) xs t = (Inr zs, st')" "ys = y # zs" by (auto simp: bindS_Inr)
  have "cs_correctness t = cs_correctness st
    \<and> (case x of (su, rows) \<Rightarrow> y = ''verified'' \<longrightarrow> (\<exists>r others. rows = r # others \<and> api_ok r = Inr True))"
    using m(1) by (cases x) (auto simp: api_check_def bindS_Inr recordC_def split: list.splits if_splits)
  with Cons.IH[OF m(2)] m(3) show ?case by auto
qed simp

lemma plan_seeds_all2:
  "plan_seeds env rs requests = Inr (plans, requests') \<Longrightarrow> list_all2 (\<lambda>(su, r) (su', r', ps).
     su' = su \<and> r' = r \<and> (\<exists>rq rq'. plan_seed env su r rq = Inr (ps, rq'))) rs plans"
  by (induction env rs requests arbitrary: plans rule: plan_seeds.induct) (auto simp: res_simps)

text \<open>The plan of a seed: a mismatch, or the structural check of a finished compile with more.\<close>

lemma plan_seed_checks:
  assumes "plan_seed env su r rq = Inr (ps, rq')"
  shows "if wk_status r = ''ok'' then \<exists>s. Ready (plain_check ''C0'' s) \<in> set ps else ps = [Ready (bare_check ''mismatch'')]"
  using assms by (auto simp: plan_seed_def Let_def res_simps split: if_splits)

definition seed_verified :: "crow list \<Rightarrow> string \<Rightarrow> tcase \<Rightarrow> nat \<Rightarrow> bool" where
  "seed_verified rows revision c s \<longleftrightarrow> (\<exists>w\<in>set rows. ck_status (cw_check w) = ''verified'' \<and> ck_oracle (cw_check w) = Some ''C0''
     \<and> ck_case_id (cw_check w) = Some (case_id c) \<and> ck_revision (cw_check w) = Some revision \<and> cw_seed w = s)"

lemma list_all2_zip:
  assumes "list_all2 P xs ys" and "x \<in> set xs"
  shows "\<exists>y. P x y \<and> (x, y) \<in> set (zip xs ys)"
  using assms by (induction rule: list_all2_induct) auto

text \<open>Every case has its rows, one for every seed that was asked for.\<close>

lemma suite_jobs_rows:
  assumes "suite_jobs env revision mode seeds cases = Inr out" and "su \<in> set cases" and "distinct (seeds su)"
  shows "\<exists>rows. (su, rows) \<in> set (zip cases out) \<and> mset (map wk_seed rows) = mset (seeds su)"
proof -
  note j = assms(1)[unfolded suite_jobs_def mapE_Inr_iff]
  obtain i where i: "i < length cases" "cases ! i = su" using assms(2) by (metis in_set_conv_nth)
  have "length out = length cases" using list_all2_lengthD[OF j] by simp
  then have c: "job (ce_q env) (revision, i, mode) revision (su_case su) mode (seeds su) [] ''0'' = Inr (out ! i)"
    "(su, out ! i) \<in> set (zip cases out)"
    using list_all2_nthD[OF j, of i] i by (auto simp: nth_enumerate_eq set_zip)
  with job_seeds[OF c(1) assms(3)] show ?thesis by blast
qed

text \<open>A loop over plans whose checks are all verified has the checks of every plan among its rows.\<close>

lemma verified_plan_row:
  assumes "list_all2 (\<lambda>x k. answer_of verdicts (snd (snd x)) = Inr k) flat ks" and "\<forall>k\<in>set ks. ck_status k = ''verified''"
    and "(su, r, p) \<in> set flat"
  shows "\<exists>k. answer_of verdicts p = Inr k \<and> ck_status k = ''verified''
    \<and> behavior_row revision (su, r, p) k \<in> set (map2 (behavior_row revision) flat ks)"
proof -
  obtain k where k: "answer_of verdicts p = Inr k" "((su, r, p), k) \<in> set (zip flat ks)"
    using list_all2_zip[OF assms(1,3)] by auto
  then have "ck_status k = ''verified''" using assms(2) by (auto dest: set_zip_rightD)
  moreover have "behavior_row revision (su, r, p) k \<in> set (map2 (behavior_row revision) flat ks)"
    unfolding set_map by (rule image_eqI[OF _ k(2)]) simp
  ultimately show ?thesis using k(1) by blast
qed

lemma verified_plan:
  assumes "plan_seed env su r rq = Inr (ps, rq')" and "\<And>p. p \<in> set ps \<Longrightarrow> \<exists>k. answer_of verdicts p = Inr k
      \<and> ck_status k = ''verified'' \<and> behavior_row revision (su, r, p) k \<in> set rows"
  shows "seed_verified rows revision (su_case su) (wk_seed r)"
proof -
  note checks = plan_seed_checks[OF assms(1)]
  have "wk_status r = ''ok''"
  proof (rule ccontr)
    assume "wk_status r \<noteq> ''ok''"
    with checks have "Ready (bare_check ''mismatch'') \<in> set ps" by simp
    from assms(2)[OF this] show False by (simp add: answer_of_def bare_check_def plain_check_def)
  qed
  with checks obtain status where "Ready (plain_check ''C0'' status) \<in> set ps" by auto
  from assms(2)[OF this] obtain k where k: "k = plain_check ''C0'' status" "ck_status k = ''verified''"
    "behavior_row revision (su, r, Ready (plain_check ''C0'' status)) k \<in> set rows" by (auto simp: answer_of_def)
  show ?thesis unfolding seed_verified_def
    by (rule bexI[OF _ k(3)]) (use k(1,2) in \<open>simp add: behavior_row_def plain_check_def\<close>)
qed

text \<open>
  A passed suite is complete: if \<open>behavior_revision\<close> leaves a passed record of its revision, every check it
  appended is verified, among them the structural check of every seed of every case of the suite, and the
  API contract held for every case it applies to.
\<close>

theorem passed_suite_complete:
  assumes "behavior_revision env cases revision st = (Inr d, st')"
    and "r \<in> set (cs_records st')" and "cr_id r = prefixC env @ ''1/C1-C5/'' @ revision" and "cr_result r = ''passed''"
  shows "\<exists>rows. cs_correctness st' = cs_correctness st @ rows \<and> (\<forall>w\<in>set rows. ck_status (cw_check w) = ''verified'')
    \<and> (\<forall>su\<in>set (map su_case cases). \<forall>s<seeds_per_block su. seed_verified rows revision su s)
    \<and> (\<forall>su\<in>set (api_cases cases). \<exists>result. api_ok result = Inr True \<and> wk_seed result = 0)"
proof -
  let ?pairs = "\<lambda>compiled. concat (map (\<lambda>(su, rows). map (Pair su) rows) (zip cases compiled))"
  let ?flat = "\<lambda>plans. concat (map (\<lambda>(su, r, ps). map (\<lambda>p. (su, r, p)) ps) plans)"
  obtain compiled api plans requests verdicts st1 statuses st2 api_statuses st3 where b:
    "suite_jobs env revision ''quality'' (\<lambda>su. [0..<seeds_per_block (su_case su)]) cases = Inr compiled"
    "suite_jobs env revision ''api_checks'' (\<lambda>su. [0]) (api_cases cases) = Inr api"
    "plan_seeds env (?pairs compiled) [] = Inr (plans, requests)" "verifyC env requests st = (Inr verdicts, st1)"
    "mapS (behavior_check revision verdicts) (?flat plans) st1 = (Inr statuses, st2)"
    "mapS (api_check revision) (zip (api_cases cases) api) st2 = (Inr api_statuses, st3)"
    "st' = recordC (behavior_record env revision (statuses @ api_statuses)) st3"
    using assms(1) unfolding behavior_revision_def by (clarsimp simp: bindS_Inr split: prod.splits)
  have "r = behavior_record env revision (statuses @ api_statuses)"
    using assms(2,3) evidence_log.put_unique[of r "cs_records st3" "behavior_record env revision (statuses @ api_statuses)"]
    by (simp add: b(7) recordC_def behavior_record_def)
  with assms(4) have all: "\<forall>s\<in>set statuses. s = ''verified''" "\<forall>s\<in>set api_statuses. s = ''verified''"
    by (auto simp: behavior_record_def list_all_iff split: if_splits)
  obtain ks where ks: "list_all2 (\<lambda>x k. answer_of verdicts (snd (snd x)) = Inr k) (?flat plans) ks"
    "statuses = map ck_status ks" "cs_correctness st2 = cs_correctness st1 @ map2 (behavior_row revision) (?flat plans) ks"
    using behavior_checks_rows[OF b(5)] by blast
  let ?rows = "map2 (behavior_row revision) (?flat plans) ks"
  have good: "\<forall>k\<in>set ks. ck_status k = ''verified''" using all(1) ks(2) by simp
  have "seed_verified ?rows revision (su_case su) s" if su: "su \<in> set cases" "s < seeds_per_block (su_case su)" for su s
  proof -
    obtain rows where rows: "(su, rows) \<in> set (zip cases compiled)" "mset (map wk_seed rows) = mset [0..<seeds_per_block (su_case su)]"
      using suite_jobs_rows[OF b(1) su(1)] by auto
    have "s \<in> set (map wk_seed rows)" using su(2) arg_cong[OF rows(2), of set_mset] by simp
    then obtain res where res: "res \<in> set rows" "wk_seed res = s" by (metis image_iff set_map)
    with rows(1) have "(su, res) \<in> set (?pairs compiled)" by (auto intro!: bexI[of _ "(su, rows)"])
    from list_all2_left[OF plan_seeds_all2[OF b(3)] this] obtain ps rq rq' where
      ps: "(su, res, ps) \<in> set plans" "plan_seed env su res rq = Inr (ps, rq')" by auto
    have "(su, res, p) \<in> set (?flat plans)" if "p \<in> set ps" for p
      using that ps(1) by (auto intro!: bexI[of _ "(su, res, ps)"])
    from verified_plan_row[OF ks(1) good this] verified_plan[OF ps(2)] res(2) show ?thesis by blast
  qed
  moreover have "\<exists>result. api_ok result = Inr True \<and> wk_seed result = 0" if su: "su \<in> set (api_cases cases)" for su
  proof -
    obtain rows where rows: "(su, rows) \<in> set (zip (api_cases cases) api)" "mset (map wk_seed rows) = mset [0]"
      using suite_jobs_rows[OF b(2) su] by auto
    from list_all2_left[OF api_checks_log[OF b(6), THEN conjunct2] rows(1)] all(2)
    obtain res others where res: "rows = res # others" "api_ok res = Inr True" by auto
    with rows(2) have "wk_seed res = 0" by (auto dest: arg_cong[of _ _ set_mset])
    with res(2) show ?thesis by blast
  qed
  moreover have "\<forall>w\<in>set ?rows. ck_status (cw_check w) = ''verified''"
    using good by (auto simp: behavior_row_def dest!: set_zip_rightD)
  moreover have "cs_correctness st1 = cs_correctness st" "cs_correctness st3 = cs_correctness st2"
    using b(4) api_checks_log[OF b(6)] by (auto simp: verifyC_def split: prod.splits)
  ultimately show ?thesis using ks(3) b(7) by (intro exI[of _ ?rows]) (simp add: recordC_def)
qed

section \<open>A passed C7 covers the panel\<close>

lemma clifford_check_Inr:
  assumes "clifford_check verdicts x st = (Inr y, st')"
  shows "\<exists>k. y = ck_status k \<and> cs_clifford st' = cs_clifford st @ [clifford_row (fst x) (fst (snd x)) k]"
  using assms by (cases x) (auto simp: clifford_check_def Let_def bindS_Inr recordC_def)

lemma clifford_check_rows:
  assumes "mapS (clifford_check verdicts) xs st = (Inr ys, st')" and "(l, r, p) \<in> set xs"
  shows "\<exists>k. clifford_row l r k \<in> set (cs_clifford st')"
  using assms
proof (induction xs arbitrary: st ys)
  case (Cons x xs)
  then obtain y t zs where m: "clifford_check verdicts x st = (Inr y, t)"
    "mapS (clifford_check verdicts) xs t = (Inr zs, st')" by (auto simp: bindS_Inr)
  show ?case
  proof (cases "x = (l, r, p)")
    case True
    obtain k where "cs_clifford t = cs_clifford st @ [clifford_row (fst x) (fst (snd x)) k]"
      using clifford_check_Inr[OF m(1)] by blast
    with True have k: "clifford_row l r k \<in> set (cs_clifford t)" by simp
    have "set (cs_clifford t) \<subseteq> set (cs_clifford (snd (mapS (clifford_check verdicts) xs t)))"
      by (rule mapS_snd[where P = "\<lambda>s. set (cs_clifford t) \<subseteq> set (cs_clifford s)"])
        (auto simp: clifford_check_def Let_def recordC_def bindS_def split: prod.splits sum.splits)
    with k m(2) show ?thesis by auto
  next
    case False
    with Cons show ?thesis using m(2) by auto
  qed
qed simp

lemma plan_clifford_map: "map (\<lambda>(l, r, p). (l, r)) (fst (plan_clifford lrs requests)) = lrs"
  by (induction lrs requests rule: plan_clifford.induct) (auto split: prod.splits)

lemma clifford_label:
  assumes "revision \<in> set revisions" and "c \<in> set cases" and "clifford_variant c = Some a"
  shows "\<exists>l\<in>set (clifford_labels pre revisions cases). cl_revision l = revision \<and> cl_case l = c \<and> cm_name (cl_mode l) = ''prefix''"
proof -
  let ?m = "\<lparr>cm_name = ''prefix'', cm_edits = [''drop_stage:optimization'', ''unitary_synthesis_method=clifford''],
          cm_covers = take 4 PIPELINE_STAGES, cm_substituted = [''unitary_synthesis'']\<rparr>"
  have "?m \<in> set (clifford_modes pre)" by (simp add: clifford_modes_def)
  then have "\<lparr>cl_revision = revision, cl_case = c, cl_variant = a, cl_mode = ?m\<rparr> \<in> set (clifford_labels pre revisions cases)"
    unfolding clifford_labels_def using assms by (force simp: set_concat)
  then show ?thesis by (rule rev_bexI) simp
qed

text \<open>
  A passed C7 covers the panel: if \<open>clifford_checks\<close> leaves a passed C7 record, both revisions have checks in
  the Clifford log, and every case with a Clifford variant has, for each revision it ran and each of the
  profile's seeds, a verified prefix-mode C7 check there.
\<close>

theorem clifford_passed_covers:
  assumes "clifford_checks env cases revisions st = (Inr d, st')"
    and "r \<in> set (cs_records st')" and "cr_id r = prefixC env @ ''1/C7''" and "cr_result r = ''passed''"
    and "revision \<in> set revisions" and "c \<in> set cases" and "clifford_variant c = Some a"
    and "s < CLIFFORD_SEEDS (prefixC env)"
  shows "\<exists>w\<in>set (cs_clifford st'). ck_status (cw_check w) = ''verified'' \<and> ck_oracle (cw_check w) = Some ''C7''
    \<and> ck_mode (cw_check w) = Some ''prefix'' \<and> ck_revision (cw_check w) = Some revision
    \<and> ck_case_id (cw_check w) = Some (case_id c) \<and> cw_seed w = s"
proof -
  let ?pre = "prefixC env" let ?labels = "clifford_labels ?pre revisions cases"
  let ?pairs = "\<lambda>outputs. concat (map (\<lambda>(l, rows). map (Pair l) rows) (zip ?labels outputs))"
  let ?ending = "\<lambda>st2. recordC (record_of (?pre @ ''1/C7'') ''correctness''
     (if clifford_passed (cs_clifford st2) then ''passed'' else ''unresolved'') ''evolved'' []) st2"
  obtain outputs where o: "mapE (\<lambda>(i, l). job (ce_q env) (''C7'', i, []) (cl_revision l) (clifford_case (cl_case l) (cl_variant l))
           ''prefix'' [0..<CLIFFORD_SEEDS ?pre] (cm_edits (cl_mode l)) ''0'') (enumerate 0 ?labels) = Inr outputs"
    "(let (plans, requests) = plan_clifford (?pairs outputs) [] in
       bindS (verifyC env requests st) (\<lambda>verdicts st. bindS (mapS (clifford_check verdicts) plans st) (\<lambda>statuses st.
       (Inr (list_all (\<lambda>s. s \<in> set DECISIVE) statuses), ?ending st)))) = (Inr d, st')"
    using assms(1) unfolding clifford_checks_def Let_def by (auto simp: bindS_Inr)
  obtain plans requests where p: "plan_clifford (?pairs outputs) [] = (plans, requests)" by fastforce
  obtain verdicts st1 statuses st2 where m: "mapS (clifford_check verdicts) plans st1 = (Inr statuses, st2)" "st' = ?ending st2"
    using o(2) unfolding p Let_def prod.case bindS_Inr by blast
  note b = o(1)[unfolded mapE_Inr_iff] p m
  have "r = record_of (?pre @ ''1/C7'') ''correctness'' (if clifford_passed (cs_clifford st2) then ''passed'' else ''unresolved'') ''evolved'' []"
    using assms(2,3) evidence_log.put_unique[of r "cs_records st2"] by (simp add: b(4) recordC_def)
  with assms(4) have passed: "clifford_passed (cs_clifford st2)" by (simp split: if_splits)
  obtain l where l: "l \<in> set ?labels" "cl_revision l = revision" "cl_case l = c" "cm_name (cl_mode l) = ''prefix''"
    using clifford_label[OF assms(5-7)] by blast
  obtain i where i: "i < length ?labels" "?labels ! i = l" using l(1) by (metis in_set_conv_nth)
  have "length outputs = length ?labels" using list_all2_lengthD[OF b(1)] by simp
  then have j: "job (ce_q env) (''C7'', i, []) revision (clifford_case c (cl_variant l)) ''prefix'' [0..<CLIFFORD_SEEDS ?pre]
      (cm_edits (cl_mode l)) ''0'' = Inr (outputs ! i)" "(l, outputs ! i) \<in> set (zip ?labels outputs)"
    using list_all2_nthD[OF b(1), of i] i l(2,3) by (auto simp: nth_enumerate_eq set_zip)
  have "s \<in> set (map wk_seed (outputs ! i))"
    using arg_cong[OF job_seeds[OF j(1)], of set_mset] assms(8) by simp
  then obtain res where res: "res \<in> set (outputs ! i)" "wk_seed res = s" by (metis image_iff set_map)
  with j(2) have "(l, res) \<in> set (?pairs outputs)" by (auto intro!: bexI[of _ "(l, outputs ! i)"])
  then have "(l, res) \<in> set (map (\<lambda>(l, r, p). (l, r)) plans)"
    using plan_clifford_map[of "?pairs outputs" "[]"] b(2) by simp
  then obtain p where "(l, res, p) \<in> set plans" by auto
  from clifford_check_rows[OF b(3) this] obtain k where k: "clifford_row l res k \<in> set (cs_clifford st2)" by blast
  then have "ck_status k = ''verified''"
    using passed l(4) by (auto simp: clifford_passed_def clifford_row_def list_all_iff)
  with k l res(2) show ?thesis by (intro bexI[of _ "clifford_row l res k"]) (simp_all add: b(4) recordC_def clifford_row_def)
qed

section \<open>Witnesses\<close>

text \<open>Workers that finish every seed with an empty circuit, and a verifier that accepts everything.\<close>

definition demo_api :: api_result where
  "demo_api = \<lparr>api_input_before = [], api_input_after = [], api_first = [], api_again = [], api_batch_count = 2,
     api_batch_hashes = [], api_individual_hashes = [], api_first_layout = [], api_again_layout = [], api_batch_layouts = [],
     api_individual_layouts = [], api_batch_metadata = [], api_input_metadata = [], api_negative_tests = [''TranspilerError'']\<rparr>"

definition good_row :: "string \<Rightarrow> nat \<Rightarrow> wresult" where
  "good_row mode seed = (Process.demo_row seed)\<lparr>wk_mode := mode, wk_api := Some demo_api\<rparr>"

definition good_qenv :: "(unit, unit) qenv" where
  "good_qenv = \<lparr>
     qe_spawn = (\<lambda>t revision js d j. \<lparr>pr_start = 0, pr_polls = [], pr_hooked = False, pr_observed = False, pr_exited = None,
       pr_reaped = None, pr_rows = Inr (map (good_row (jb_mode j)) (jb_seeds j)), pr_returncode = 0, pr_log_tail = []\<rparr>),
     qe_valid = (\<lambda>_. Inr ()), qe_dir = (\<lambda>t. ''jobs''), qe_circuit = (\<lambda>_. Inr (\<lparr>h_qubits = 2, h_clbits = 0\<rparr>, [])),
     qe_rops = (\<lambda>_. Inl FileNotFoundError), qe_hash = (\<lambda>_. []), qe_sha = id, qe_layout = (\<lambda>_. None),
     qe_target = (\<lambda>_. Inr \<lparr>t_qubits = 2, t_instructions = [], t_native_2q = []\<rparr>),
     qe_case_digest = (\<lambda>c. []), qe_row_digest = (\<lambda>_. ''row''), qe_entry = (\<lambda>key. ''e''), qe_entry_exists = (\<lambda>_. True),
     qe_verifier = demo_verifier, qe_profile = ''iterations-profile'',
     qe_builds = [''baseline'' \<mapsto> ''b'', ''evolved'' \<mapsto> ''x''], qe_has_store = True, qe_cpu = None, qe_protocol = [],
     qe_implementation = [], qe_batch_size = 2, qe_sample = (\<lambda>_ n k. [0..<k]), qe_directory = ''session'', qe_killed = (\<lambda>_. False)\<rparr>"

definition demo_suite :: "suite_case list" where
  "demo_suite = [\<lparr>su_case = demo_case ''a'' ''scored'' 1, su_oracle = ''C1'', su_bindings = 0, su_references = []\<rparr>]"

definition demo_cenv :: "(unit, unit) cenv" where
  "demo_cenv = \<lparr>ce_q = good_qenv, ce_suite = Inr demo_suite, ce_parameters = (\<lambda>_. Inr []), ce_target_file = (\<lambda>_. [])\<rparr>"

definition demo_cstate :: cstate where
  "demo_cstate = \<lparr>cs_correctness = [], cs_clifford = [], cs_records = [], cs_cache = Map.empty\<rparr>"

lemma demo_chunk: "verify_chunk (ve_spawn demo_verifier i) n chunk = Inr (map (\<lambda>e. (fst e, Verify.demo_check ''verified'')) chunk)"
proof (cases chunk)
  case (Cons e es)
  have "gather (\<lambda>j. Some (Inr (Verify.demo_check ''verified''))) m xs = Inr (map (\<lambda>e. (fst e, Verify.demo_check ''verified'')) xs, [])"
    for m :: nat and xs :: "(vkey \<times> vjob) list" by (induction xs arbitrary: m) simp_all
  then show ?thesis using Cons by (subst verify_chunk.simps) (simp add: demo_verifier_def)
qed (subst verify_chunk.simps, simp)

lemma demo_verify_all:
  "\<exists>cache. verify_many demo_verifier requests Map.empty = (Inr (map (\<lambda>_. Verify.demo_check ''verified'') requests), cache)"
proof -
  let ?job = "\<lambda>q. \<lparr>vj_reference = a_file (reference_of q), vj_reference_hash = a_sha256 (reference_of q),
     vj_output = ex_output (rq_result q), vj_layout = ex_layout (rq_result q), vj_input_domain = input_domain (rq_case q),
     vj_oracle = rq_oracle q, vj_extra = rq_extra q\<rparr>"
  define jobs where "jobs = map (\<lambda>q. (job_key demo_verifier (?job q), ?job q)) requests"
  have j: "mapE (\<lambda>q. bindE (verifier_job demo_verifier q) (\<lambda>j. Inr (job_key demo_verifier j, j))) requests = Inr jobs"
    unfolding jobs_def by (rule mapE_total) (simp add: verifier_job_def demo_verifier_def)
  define pending where "pending = pending_jobs Map.empty jobs"
  note p = pending_jobs_props[of Map.empty jobs, folded pending_def]
  have "mapE (\<lambda>(i, chunk). verify_chunk (ve_spawn demo_verifier i) 0 chunk) xs
      = Inr (map (\<lambda>(i, chunk). map (\<lambda>e. (fst e, Verify.demo_check ''verified'')) chunk) xs)" for xs
    by (rule mapE_total) (auto simp: demo_chunk)
  then have r: "run_verifier demo_verifier pending = Inr (dict_of (concat (map (\<lambda>(i, chunk).
      map (\<lambda>e. (fst e, Verify.demo_check ''verified'')) chunk) (enumerate 0 (chunks_of (chunk_size (length pending) 1) pending)))))"
    by (simp add: run_verifier_def) (simp add: demo_verifier_def)
  have "map (\<lambda>(i, chunk). map (\<lambda>e. (fst e, Verify.demo_check ''verified'')) chunk) (enumerate 0 cs)
      = map (map (\<lambda>e. (fst e, Verify.demo_check ''verified''))) (map snd (enumerate 0 cs))" for cs :: "(vkey \<times> vjob) list list"
    unfolding map_map by (rule map_cong) auto
  then have fresh: "run_verifier demo_verifier pending = Inr (dict_of (map (\<lambda>e. (fst e, Verify.demo_check ''verified'')) pending))"
    unfolding r by (simp add: concat_chunks[OF chunk_size_pos] flip: map_concat)
  define f where "f = (if pending = [] then Map.empty else dict_of (map (\<lambda>e. (fst e, Verify.demo_check ''verified'')) pending))"
  have f: "f (fst e) = Some (Verify.demo_check ''verified'')" if "e \<in> set jobs" for e
  proof -
    have "fst e \<in> fst ` set pending" using that unfolding p(3) by (simp add: cached_result_def)
    then have "fst e \<in> dom f" by (auto simp: f_def dom_dict_of image_image)
    then obtain k where k: "f (fst e) = Some k" by blast
    then have "(fst e, k) \<in> set (map (\<lambda>e. (fst e, Verify.demo_check ''verified'')) pending)"
      by (auto simp: f_def split: if_splits dest!: dict_of_mem)
    with k show ?thesis by auto
  qed
  have "mapE (\<lambda>(key, j). case f key of Some k \<Rightarrow> Inr k
        | None \<Rightarrow> (case cached_result Map.empty key of None \<Rightarrow> Inl KeyError | Some k \<Rightarrow> Inr k)) jobs
      = Inr (map (\<lambda>_. Verify.demo_check ''verified'') jobs)" by (rule mapE_total) (auto dest: f)
  moreover have "(if pending = [] then Inr Map.empty else run_verifier demo_verifier pending) = Inr f"
    by (simp add: f_def fresh)
  ultimately show ?thesis
    by (simp add: verify_many_def j pending_def[symmetric]) (simp add: jobs_def o_def)
qed

lemma good_rows_checked:
  "distinct (seen @ ss) \<Longrightarrow> set ss \<subseteq> set (jb_seeds j)
    \<Longrightarrow> check_rows (\<lambda>_. Inr ()) j seen (map (good_row (jb_mode j)) ss) = Inr (seen @ ss)"
  by (induction ss arbitrary: seen) (auto simp: good_row_def Process.demo_row_def)

lemma good_job:
  assumes "revision \<in> {''baseline'', ''evolved''}" and "distinct seeds"
  shows "job good_qenv t revision c mode seeds edits h = Inr (map (\<lambda>s. set_job_file ''jobs/job.json'' (good_row mode s)) seeds)"
proof -
  have f: "set_job_file x (set_job_file x r) = set_job_file x r" for x r
    by (simp add: set_job_file_def)
  have "\<exists>b. qe_builds good_qenv revision = Some b" using assms by (auto simp: good_qenv_def)
  moreover have "check_rows (\<lambda>_. Inr ()) \<lparr>jb_mode = mode, jb_seeds = seeds, jb_timeout = timeout_s c, jb_body = []\<rparr> []
      (map (good_row mode) seeds) = Inr seeds"
    using good_rows_checked[of "[]" seeds "\<lparr>jb_mode = mode, jb_seeds = seeds, jb_timeout = timeout_s c, jb_body = []\<rparr>"] assms(2)
    by simp
  ultimately show ?thesis
    by (auto simp: job_def good_qenv_def run_worker.simps[of _ _ "''jobs''"] abort_of_def pending_seeds_def f Let_def)
qed

text \<open>Workers that stop at once: every seed is a recorded mismatch.\<close>

theorem suites_record_mismatches_witness:
  "mismatches_recorded (snd (behavior_checks demo_cenv [''baseline'', ''evolved''] demo_cstate))
    \<and> mismatches_recorded (snd (clifford_checks demo_cenv [demo_case ''a'' ''scored'' 1] [''baseline'', ''evolved''] demo_cstate))"
  by (rule suites_record_mismatches) (simp add: mismatches_recorded_def demo_cstate_def)

lemma demo_c0: "\<exists>s w. structural_result \<lparr>h_qubits = 2, h_clbits = 0\<rparr> [] \<lparr>t_qubits = 2, t_instructions = [], t_native_2q = []\<rparr>
    None 2 None ''target'' = Inr (s, w) \<and> cr_verified s"
proof -
  have "permutation_errors (map JI (int_range 2)) (map JI (int_range 2)) (map JI (int_range 2)) 2 2 None = []"
    by (simp add: permutation_errors_def is_permutation_def int_range_def the_ints_def nth_int_def upt_rec)
  then show ?thesis
    by (simp add: structural_result_def run_checker_def new_checker_def checker_result_def layout_errors_def Let_def)
qed

lemma demo_plan_seed:
  assumes "wk_status r = ''ok''" and "su \<in> set demo_suite"
  shows "\<exists>q. plan_seed demo_cenv su r rq = Inr ([Ready (plain_check ''C0'' ''verified''), Pending (length rq)], rq @ [q])"
  using demo_c0 assms by (auto simp: plan_seed_def demo_cenv_def good_qenv_def demo_suite_def demo_case_def Let_def)

lemma demo_behavior_rows:
  assumes "\<forall>x\<in>set xs. \<exists>k. answer_of verdicts (snd (snd x)) = Inr k \<and> ck_status k = ''verified''"
  shows "\<exists>s'. mapS (behavior_check ''baseline'' verdicts) xs s = (Inr (replicate (length xs) ''verified''), s')"
  using assms
proof (induction xs arbitrary: s)
  case (Cons x xs)
  obtain s1 where s1: "behavior_check ''baseline'' verdicts x s = (Inr ''verified'', s1)"
    using Cons.prems by (cases x) (auto simp: behavior_check_def bindS_def Let_def)
  obtain s2 where "mapS (behavior_check ''baseline'' verdicts) xs s1 = (Inr (replicate (length xs) ''verified''), s2)"
    using Cons by fastforce
  with s1 show ?case by (simp add: bindS_def)
qed simp

lemma demo_behavior: "\<exists>d st'. behavior_revision demo_cenv demo_suite ''baseline'' demo_cstate = (Inr d, st')
    \<and> behavior_record demo_cenv ''baseline'' [''verified''] \<in> set (cs_records st')"
proof -
  define su where "su = \<lparr>su_case = demo_case ''a'' ''scored'' 1, su_oracle = ''C1'', su_bindings = 0, su_references = []\<rparr>"
  define R where "R = (\<lambda>mode s. set_job_file ''jobs/job.json'' (good_row mode s))"
  have suite: "demo_suite = [su]" by (simp add: demo_suite_def su_def)
  have seeds: "[0..<seeds_per_block (su_case su)] = [0, 1]" by (simp add: su_def demo_case_def upt_rec)
  have api: "api_cases demo_suite = [su]" by (simp add: api_cases_def suite) (simp add: su_def demo_case_def)
  have q: "ce_q demo_cenv = good_qenv" by (simp add: demo_cenv_def)
  have j1: "suite_jobs demo_cenv ''baseline'' ''quality'' (\<lambda>su. [0..<seeds_per_block (su_case su)]) demo_suite
      = Inr [[R ''quality'' 0, R ''quality'' 1]]"
    by (simp add: suite_jobs_def suite q seeds good_job R_def del: upt_conv_Cons One_nat_def)
  have j2: "suite_jobs demo_cenv ''baseline'' ''api_checks'' (\<lambda>su. [0]) (api_cases demo_suite) = Inr [[R ''api_checks'' 0]]"
    by (simp add: suite_jobs_def api q good_job R_def)
  have ok: "wk_status (R m s) = ''ok''" for m s by (simp add: R_def good_row_def Process.demo_row_def)
  have su: "su \<in> set demo_suite" by (simp add: suite)
  obtain q1 q2 where p: "plan_seed demo_cenv su (R ''quality'' 0) [] = Inr ([Ready (plain_check ''C0'' ''verified''), Pending 0], [q1])"
    "plan_seed demo_cenv su (R ''quality'' 1) [q1] = Inr ([Ready (plain_check ''C0'' ''verified''), Pending 1], [q1, q2])"
    using demo_plan_seed[OF ok su] by (metis append_Cons append_Nil length_Cons list.size(3) One_nat_def)
  have plans: "plan_seeds demo_cenv [(su, R ''quality'' 0), (su, R ''quality'' 1)] [] = Inr ([(su, R ''quality'' 0,
      [Ready (plain_check ''C0'' ''verified''), Pending 0]), (su, R ''quality'' 1, [Ready (plain_check ''C0'' ''verified''), Pending 1])], [q1, q2])"
    using p by simp
  obtain cache where v: "verifyC demo_cenv [q1, q2] demo_cstate
      = (Inr [Verify.demo_check ''verified'', Verify.demo_check ''verified''], demo_cstate\<lparr>cs_cache := cache\<rparr>)"
    using demo_verify_all[of "[q1, q2]"] by (auto simp: verifyC_def q good_qenv_def demo_cstate_def)
  let ?verdicts = "[Verify.demo_check ''verified'', Verify.demo_check ''verified'']"
  obtain s2 where s2: "mapS (behavior_check ''baseline'' ?verdicts) [(su, R ''quality'' 0, Ready (plain_check ''C0'' ''verified'')),
      (su, R ''quality'' 0, Pending 0), (su, R ''quality'' 1, Ready (plain_check ''C0'' ''verified'')), (su, R ''quality'' 1, Pending 1)]
      (demo_cstate\<lparr>cs_cache := cache\<rparr>) = (Inr (replicate 4 ''verified''), s2)"
    using demo_behavior_rows[of "[(su, R ''quality'' 0, Ready (plain_check ''C0'' ''verified'')), (su, R ''quality'' 0, Pending 0),
      (su, R ''quality'' 1, Ready (plain_check ''C0'' ''verified'')), (su, R ''quality'' 1, Pending 1)]" ?verdicts
      "demo_cstate\<lparr>cs_cache := cache\<rparr>"]
    by (auto simp: answer_of_def plain_check_def Verify.demo_check_def unverified_def numeral_eq_Suc)
  have a: "mapS (api_check ''baseline'') [(su, [R ''api_checks'' 0])] s2 = (Inr [''verified''], s2)"
  proof -
    have "wk_api (R ''api_checks'' 0) = Some demo_api" by (simp add: R_def good_row_def set_job_file_def)
    then have "api_ok (R ''api_checks'' 0) = Inr True" using ok by (simp add: api_ok_def demo_api_def)
    then show ?thesis by (simp add: api_check_def bindS_def)
  qed
  have "behavior_record demo_cenv ''baseline'' (replicate 4 ''verified'' @ [''verified'']) = behavior_record demo_cenv ''baseline'' [''verified'']"
    by (simp add: behavior_record_def list_all_iff)
  moreover have "behavior_record demo_cenv ''baseline'' [''verified'']
      \<in> set (cs_records (recordC (behavior_record demo_cenv ''baseline'' [''verified'']) s2))" by (simp add: recordC_def evidence_def)
  ultimately show ?thesis
    by (simp add: behavior_revision_def bindS_def suite j1[unfolded suite] api[unfolded suite] j2[unfolded api] plans v s2 a
        del: One_nat_def plan_seeds.simps mapS.simps)
qed

theorem passed_suite_complete_witness:
  "\<exists>rows. seed_verified rows ''baseline'' (demo_case ''a'' ''scored'' 1) 1"
proof -
  obtain d st' where b: "behavior_revision demo_cenv demo_suite ''baseline'' demo_cstate = (Inr d, st')"
    "behavior_record demo_cenv ''baseline'' [''verified''] \<in> set (cs_records st')" using demo_behavior by blast
  have "demo_case ''a'' ''scored'' 1 \<in> set (map su_case demo_suite)" "seeds_per_block (demo_case ''a'' ''scored'' 1) = 2"
    by (simp_all add: demo_suite_def) (simp add: demo_case_def)
  moreover have "cr_id (behavior_record demo_cenv ''baseline'' [''verified'']) = prefixC demo_cenv @ ''1/C1-C5/'' @ ''baseline''"
    "cr_result (behavior_record demo_cenv ''baseline'' [''verified'']) = ''passed''" by (simp_all add: behavior_record_def)
  ultimately show ?thesis using passed_suite_complete[OF b(1,2)] by (metis one_less_numeral_iff semiring_norm(76))
qed

lemma demo_clifford_rows:
  assumes "\<forall>x\<in>set xs. answer_of verdicts (snd (snd x)) = Inr (Verify.demo_check ''verified'')"
  shows "\<exists>ys s'. mapS (clifford_check verdicts) xs s = (Inr ys, s')
    \<and> cs_clifford s' = cs_clifford s @ map (\<lambda>(l, r, p). clifford_row l r (Verify.demo_check ''verified'')) xs"
  using assms
proof (induction xs arbitrary: s)
  case (Cons x xs)
  obtain l r p where x: "x = (l, r, p)" by (cases x)
  obtain s1 where s1: "clifford_check verdicts x s = (Inr ''verified'', s1)"
    "cs_clifford s1 = cs_clifford s @ [clifford_row l r (Verify.demo_check ''verified'')]"
    using Cons.prems by (auto simp: x clifford_check_def bindS_def Verify.demo_check_def Let_def)
  obtain ys s' where "mapS (clifford_check verdicts) xs s1 = (Inr ys, s')"
    "cs_clifford s' = cs_clifford s1 @ map (\<lambda>(l, r, p). clifford_row l r (Verify.demo_check ''verified'')) xs"
    using Cons by fastforce
  with s1 show ?case by (simp add: x bindS_def)
qed simp

definition demo_clifford_panel :: "tcase list" where
  "demo_clifford_panel = [(demo_case ''a'' ''scored'' 1)\<lparr>clifford_variant := Some demo_artifact\<rparr>]"

lemma demo_clifford: "\<exists>d st'. clifford_checks demo_cenv demo_clifford_panel [''baseline'', ''evolved''] demo_cstate = (Inr d, st')
    \<and> record_of ''IA1/C7'' ''correctness'' ''passed'' ''evolved'' [] \<in> set (cs_records st')"
proof -
  have pre: "prefixC demo_cenv = ''IA''" by (simp add: prefixC_def demo_cenv_def good_qenv_def profile_prefix_def)
  define lb where "lb = (\<lambda>rev. hd (clifford_labels ''IA'' [rev] demo_clifford_panel))"
  have labels: "clifford_labels ''IA'' [''baseline'', ''evolved''] demo_clifford_panel = [lb ''baseline'', lb ''evolved'']"
    "cl_revision (lb rev) = rev" "cm_name (cl_mode (lb rev)) = ''prefix''" for rev
    by (simp_all add: lb_def clifford_labels_def demo_clifford_panel_def clifford_modes_def CLIFFORD_FULL_MODE_def)
  define rows where "rows = (\<lambda>rev :: string. map (\<lambda>s. set_job_file ''jobs/job.json'' (good_row ''prefix'' s)) [0..<3])"
  have ok: "\<forall>r\<in>set (rows rev). wk_status r = ''ok''" "rows rev \<noteq> []" for rev :: string
    by (auto simp: rows_def good_row_def Process.demo_row_def)
  have jobs: "mapE (\<lambda>(i, l). job (ce_q demo_cenv) (''C7'', i, []) (cl_revision l) (clifford_case (cl_case l) (cl_variant l))
           ''prefix'' [0..<CLIFFORD_SEEDS ''IA''] (cm_edits (cl_mode l)) ''0'') (enumerate 0 [lb ''baseline'', lb ''evolved''])
      = Inr [rows ''baseline'', rows ''evolved'']"
    by (simp add: demo_cenv_def labels(2) good_job CLIFFORD_SEEDS_def rows_def)
  let ?pairs = "map (Pair (lb ''baseline'')) (rows ''baseline'') @ map (Pair (lb ''evolved'')) (rows ''evolved'')"
  have plan: "\<forall>(l, r)\<in>set lrs. wk_status r = ''ok'' \<Longrightarrow> \<exists>plans others. plan_clifford lrs rq = (plans, rq @ others)
      \<and> length others = length lrs \<and> (\<forall>(l, r, p)\<in>set plans. \<exists>i<length rq + length lrs. p = Pending i)
      \<and> map (\<lambda>(l, r, p). (l, r)) plans = lrs" for lrs rq
  proof (induction lrs rq rule: plan_clifford.induct)
    case (2 l r lrs rq)
    then obtain plans others where "plan_clifford lrs (rq @ [clifford_request l r]) = (plans, (rq @ [clifford_request l r]) @ others)"
      "length others = length lrs" "\<forall>(l, r, p)\<in>set plans. \<exists>i<length (rq @ [clifford_request l r]) + length lrs. p = Pending i"
      "map (\<lambda>(l, r, p). (l, r)) plans = lrs" by fastforce
    with 2(3) show ?case by auto
  qed simp
  have "\<forall>(l, r)\<in>set ?pairs. wk_status r = ''ok''" using ok by auto
  from plan[OF this, of "[]"] obtain plans requests where p: "plan_clifford ?pairs [] = (plans, requests)"
    "length requests = length ?pairs" "\<forall>(l, r, p)\<in>set plans. \<exists>i<length ?pairs. p = Pending i"
    "map (\<lambda>(l, r, p). (l, r)) plans = ?pairs" by auto
  obtain cache where v: "verifyC demo_cenv requests demo_cstate
      = (Inr (map (\<lambda>_. Verify.demo_check ''verified'') requests), demo_cstate\<lparr>cs_cache := cache\<rparr>)"
    using demo_verify_all[of requests] by (auto simp: verifyC_def demo_cenv_def good_qenv_def demo_cstate_def)
  let ?verdicts = "map (\<lambda>_. Verify.demo_check ''verified'') requests"
  have "\<forall>x\<in>set plans. answer_of ?verdicts (snd (snd x)) = Inr (Verify.demo_check ''verified'')"
    using p(2,3) by (fastforce simp: answer_of_def)
  from demo_clifford_rows[OF this] obtain ys s2 where s2:
    "mapS (clifford_check ?verdicts) plans (demo_cstate\<lparr>cs_cache := cache\<rparr>) = (Inr ys, s2)"
    "cs_clifford s2 = cs_clifford (demo_cstate\<lparr>cs_cache := cache\<rparr>) @ map (\<lambda>(l, r, p). clifford_row l r (Verify.demo_check ''verified'')) plans"
    by blast
  have "map (\<lambda>(l, r, p). clifford_row l r (Verify.demo_check ''verified'')) plans
      = map (\<lambda>(l, r). clifford_row l r (Verify.demo_check ''verified'')) (map (\<lambda>(l, r, p). (l, r)) plans)" by auto
  then have log: "cs_clifford s2 = map (\<lambda>(l, r). clifford_row l r (Verify.demo_check ''verified'')) ?pairs"
    using s2(2) p(4) by (simp add: demo_cstate_def)
  have "clifford_passed (cs_clifford s2)"
    unfolding log clifford_passed_def Let_def using ok(2)
    by (auto simp: clifford_row_def labels(2,3) list_all_iff Verify.demo_check_def filter_map o_def image_constant_conv)
  then show ?thesis
    unfolding clifford_checks_def Let_def pre labels(1) jobs
    by (simp add: bindS_def p(1) v s2(1) recordC_def evidence_def)
qed

theorem clifford_passed_covers_witness:
  "\<exists>d st' w. clifford_checks demo_cenv demo_clifford_panel [''baseline'', ''evolved''] demo_cstate = (Inr d, st')
    \<and> w \<in> set (cs_clifford st') \<and> ck_status (cw_check w) = ''verified'' \<and> cw_seed w = 2"
proof -
  obtain d st' where c: "clifford_checks demo_cenv demo_clifford_panel [''baseline'', ''evolved''] demo_cstate = (Inr d, st')"
    "record_of ''IA1/C7'' ''correctness'' ''passed'' ''evolved'' [] \<in> set (cs_records st')" using demo_clifford by blast
  have pre: "prefixC demo_cenv = ''IA''" by (simp add: prefixC_def demo_cenv_def good_qenv_def profile_prefix_def)
  have "\<exists>w\<in>set (cs_clifford st'). ck_status (cw_check w) = ''verified'' \<and> ck_oracle (cw_check w) = Some ''C7''
    \<and> ck_mode (cw_check w) = Some ''prefix'' \<and> ck_revision (cw_check w) = Some ''evolved''
    \<and> ck_case_id (cw_check w) = Some (case_id (hd demo_clifford_panel)) \<and> cw_seed w = 2"
    by (rule clifford_passed_covers[OF c, where a = demo_artifact])
      (simp_all add: pre demo_clifford_panel_def CLIFFORD_SEEDS_def)
  with c(1) show ?thesis by blast
qed

end
