(* ===== verification/Report.thy ===== *)
theory Report
  imports Evaluate
begin

text \<open>
  \<open>make_decision\<close> of \<open>src/src/qtb/reporter/__init__.py\<close>: what a decision reports of the
  evaluation besides its status (\<open>Verdict.decision_status\<close>): the objective, the trade score, the
  largest change of every zero-baseline case, the open reasons and the missing records. The
  fields copied unchanged from \<open>run.json\<close>, the fingerprints and the Markdown rendering are left
  out. The lemmas say when a zero-baseline change is reported and that it is the worst one.
\<close>

section \<open>Zero-baseline cases\<close>

text \<open>
  One entry of \<open>zero_baseline_deltas\<close>: the worst change with its seed, both values and the number
  of seeds, or \<open>None\<close> when a paired observation is missing.
\<close>

record zero_delta =
  zd_case :: string
  zd_metric :: metric
  zd_worst :: "(int \<times> nat \<times> int \<times> int \<times> nat) option"

datatype zero_report = Unavailable string | Reported "zero_delta list"

text \<open>\<open>rows\<close>: the observations of block B0 by case, revision and seed; a later one wins.\<close>

definition b0_table :: "observation list \<Rightarrow> obs_table" where
  "b0_table rows c rv s =
     dict_of (map (\<lambda>r. ((ob_case_id r, ob_revision r, ob_seed r), r))
       (filter (\<lambda>r. ob_seed_block r = ''B0'' \<and> ob_mode r = ''quality'') rows)) (c, rv, s)"

text \<open>The loop over the seeds stops at the first missing value.\<close>

fun zero_pairs ::
    "obs_table \<Rightarrow> string \<Rightarrow> metric \<Rightarrow> nat list \<Rightarrow> (int \<times> nat \<times> int \<times> int) list" where
  "zero_pairs obs c m [] = []"
| "zero_pairs obs c m (s # ss) =
     (case (obs_metric obs c ''baseline'' s m, obs_metric obs c ''evolved'' s m) of
        (Some b, Some e) \<Rightarrow> (e - b, s, b, e) # zero_pairs obs c m ss
      | _ \<Rightarrow> [])"

text \<open>\<open>max(deltas, key=lambda item: item[0])\<close>: the first of the largest; nothing to take from none.\<close>

fun first_max :: "(int \<times> 'a) list \<Rightarrow> (int \<times> 'a) res" where
  "first_max [] = Inl ValueError"
| "first_max (d # ds) = Inr (foldl (\<lambda>best x. if fst best < fst x then x else best) d ds)"

definition zero_delta_of :: "obs_table \<Rightarrow> tcase \<Rightarrow> metric \<Rightarrow> zero_delta res" where
  "zero_delta_of obs c m =
     (let deltas = zero_pairs obs (case_id c) m [0..<seeds_per_block c] in
      if length deltas \<noteq> seeds_per_block c
      then Inr \<lparr>zd_case = case_id c, zd_metric = m, zd_worst = None\<rparr>
      else bindE (first_max deltas) (\<lambda>(delta, seed, b, e).
        Inr \<lparr>zd_case = case_id c, zd_metric = m, zd_worst = Some (delta, seed, b, e, length deltas)\<rparr>))"

definition zero_baseline_deltas :: "tcase list \<Rightarrow> observation list \<Rightarrow> zero_report res" where
  "zero_baseline_deltas cases rows =
     (let zero = filter (\<lambda>c. role c = ''zero_baseline'') cases; obs = b0_table rows in
      if zero = [] then Inr (Unavailable ''No zero-baseline cases'')
      else bindE (mapE (\<lambda>(c, m). zero_delta_of obs c m)
             (concat (map (\<lambda>c. [(c, D2), (c, N2)]) zero))) (\<lambda>ds. Inr (Reported ds)))"

section \<open>Objective and trade score\<close>

type_synonym summaries = "(string \<times> panel_result option) list"

text \<open>A summary that is not a panel's has none of the keys read here.\<close>

definition panel_summary :: "summaries \<Rightarrow> string \<Rightarrow> estimate option" where
  "panel_summary summaries i =
     (case dict_of summaries i of Some (Some p) \<Rightarrow> Some (p_estimate p) | _ \<Rightarrow> None)"

definition objective_of :: "summaries \<Rightarrow> string \<Rightarrow> (string \<times> estimate) list" where
  "objective_of summaries prefix =
     (case panel_summary summaries (prefix @ ''2/improvement'') of
        None \<Rightarrow> []
      | Some e \<Rightarrow> [(if prefix = ''CA'' then ''confirm'' else ''cz'', e)])"

definition trade_score :: "summaries \<Rightarrow> string \<Rightarrow> real option" where
  "trade_score summaries prefix =
     (case (panel_summary summaries (prefix @ ''2/improvement''),
            panel_summary summaries (prefix @ ''3/primary/N2'')) of
        (Some depth, Some gates) \<Rightarrow>
          if 0 < e_score depth \<and> 0 < e_score gates
          then Some (sqrt (e_score depth * e_score gates)) else None
      | _ \<Rightarrow> None)"

section \<open>The decision\<close>

record decision =
  dn_status :: string
  dn_improved :: "bool option"
  dn_records :: "crec list"
  dn_required :: "string list"
  dn_objective :: "(string \<times> estimate) list"
  dn_trade :: "real option"
  dn_zero :: zero_report
  dn_reasons :: "(string \<times> string) list"
  dn_missing :: "string list"

text \<open>\<open>{"PASS": True, ...}.get(status)\<close>: what the decision claims of the objective.\<close>

definition improved_under_constraints :: "string \<Rightarrow> bool option" where
  "improved_under_constraints status =
     map_of [(''PASS'', True), (''NO_IMPROVEMENT'', False), (''CONSTRAINT_VIOLATION'', False)] status"

definition open_reasons :: "crec list \<Rightarrow> (string \<times> string) list" where
  "open_reasons recs =
     map (\<lambda>r. (cr_id r, cr_result r))
       (filter (\<lambda>r. cr_result r \<notin> {''passed'', ''passed_on_rerun''}) recs)"

definition make_decision ::
    "string \<Rightarrow> crec list \<Rightarrow> string list \<Rightarrow> summaries \<Rightarrow> observation list \<Rightarrow> tcase list
       \<Rightarrow> string option \<Rightarrow> decision res" where
  "make_decision profile recs ids summaries rows cases session_status =
     bindE (decision_status recs ids session_status) (\<lambda>status.
     bindE (zero_baseline_deltas cases rows) (\<lambda>zero.
       let prefix = profile_prefix profile in
       Inr \<lparr>dn_status = status, dn_improved = improved_under_constraints status,
         dn_records = recs, dn_required = sort ids,
         dn_objective = objective_of summaries prefix, dn_trade = trade_score summaries prefix,
         dn_zero = zero, dn_reasons = open_reasons recs,
         dn_missing = sorted_set (filter (\<lambda>i. i \<notin> cr_id ` set recs) ids)\<rparr>))"

section \<open>The worst change\<close>

lemma zero_pairs_seeds: "map (fst \<circ> snd) (zero_pairs obs c m ss) = take (length (zero_pairs obs c m ss)) ss"
  by (induction ss) (auto split: option.split)

lemma zero_pairs_values:
  "(d, s, b, e) \<in> set (zero_pairs obs c m ss) \<Longrightarrow>
     s \<in> set ss \<and> obs_metric obs c ''baseline'' s m = Some b \<and> obs_metric obs c ''evolved'' s m = Some e
     \<and> d = e - b"
  by (induction ss) (auto split: option.splits)

lemma zero_pairs_complete:
  "length (zero_pairs obs c m ss) = length ss \<longleftrightarrow>
     (\<forall>s\<in>set ss. obs_metric obs c ''baseline'' s m \<noteq> None \<and> obs_metric obs c ''evolved'' s m \<noteq> None)"
  by (induction ss) (auto split: option.split)

lemma fold_max:
  fixes d :: "int \<times> 'a"
  shows "foldl (\<lambda>best x. if fst best < fst x then x else best) d ds \<in> set (d # ds)
    \<and> (\<forall>x\<in>set (d # ds). fst x \<le> fst (foldl (\<lambda>best x. if fst best < fst x then x else best) d ds))"
proof (induction ds arbitrary: d)
  case (Cons x xs)
  let ?d = "if fst d < fst x then x else d"
  have "fst d \<le> fst ?d" "fst x \<le> fst ?d" by auto
  moreover note Cons.IH[of ?d]
  ultimately show ?case by (auto split: if_splits)
qed simp

lemma first_max_Inr: "first_max ds = Inr w \<Longrightarrow> w \<in> set ds \<and> (\<forall>x\<in>set ds. fst x \<le> fst w)"
proof (cases ds)
  case (Cons d xs)
  assume "first_max ds = Inr w"
  then show ?thesis using fold_max[of d xs] by (simp add: Cons)
qed simp

text \<open>
  A zero-baseline case is reported exactly when both revisions have a value for every seed of
  its block; the reported change is then that of a seed of the block, and no seed of the block
  has a larger one.
\<close>

theorem zero_delta_is_worst:
  assumes "zero_delta_of obs c m = Inr z"
  shows "(zd_worst z = None \<longleftrightarrow>
      (\<exists>s<seeds_per_block c. obs_metric obs (case_id c) ''baseline'' s m = None
        \<or> obs_metric obs (case_id c) ''evolved'' s m = None))
    \<and> (\<forall>d seed b e n. zd_worst z = Some (d, seed, b, e, n) \<longrightarrow> seed < seeds_per_block c
        \<and> obs_metric obs (case_id c) ''baseline'' seed m = Some b
        \<and> obs_metric obs (case_id c) ''evolved'' seed m = Some e \<and> d = e - b
        \<and> (\<forall>s b' e'. s < seeds_per_block c \<longrightarrow> obs_metric obs (case_id c) ''baseline'' s m = Some b'
             \<longrightarrow> obs_metric obs (case_id c) ''evolved'' s m = Some e' \<longrightarrow> e' - b' \<le> d))"
proof -
  let ?n = "seeds_per_block c"
  let ?ds = "zero_pairs obs (case_id c) m [0..<?n]"
  have full: "length ?ds = ?n \<longleftrightarrow> (\<forall>s<?n. obs_metric obs (case_id c) ''baseline'' s m \<noteq> None
      \<and> obs_metric obs (case_id c) ''evolved'' s m \<noteq> None)"
    using zero_pairs_complete[of obs "case_id c" m "[0..<?n]"] by auto
  show ?thesis
  proof (cases "length ?ds = ?n")
    case True
    with assms obtain w where w: "first_max ?ds = Inr w"
      "z = (case w of (d, s, b, e) \<Rightarrow> \<lparr>zd_case = case_id c, zd_metric = m, zd_worst = Some (d, s, b, e, length ?ds)\<rparr>)"
      by (auto simp: zero_delta_of_def Let_def bindE_Inr_iff)
    have "(e' - b', s, b', e') \<in> set ?ds"
      if "s < ?n" "obs_metric obs (case_id c) ''baseline'' s m = Some b'"
        "obs_metric obs (case_id c) ''evolved'' s m = Some e'" for s b' e'
    proof -
      have "map (fst \<circ> snd) ?ds = [0..<?n]" using zero_pairs_seeds[of obs "case_id c" m "[0..<?n]"] True by simp
      with that(1) have "s \<in> set (map (fst \<circ> snd) ?ds)" by simp
      then obtain d b e where "(d, s, b, e) \<in> set ?ds" by auto
      with zero_pairs_values[OF this] that show ?thesis by simp
    qed
    then have mem: "(e' - b', s, b', e') \<in> set ?ds"
      if "s < ?n" "obs_metric obs (case_id c) ''baseline'' s m = Some b'"
        "obs_metric obs (case_id c) ''evolved'' s m = Some e'" for s b' e' using that by blast
    obtain d s b e where we: "w = (d, s, b, e)" by (cases w) auto
    have z: "zd_worst z = Some (d, s, b, e, length ?ds)" by (simp add: w(2) we)
    have m: "(d, s, b, e) \<in> set ?ds" and top: "\<forall>x\<in>set ?ds. fst x \<le> d"
      using first_max_Inr[OF w(1)] by (simp_all add: we)
    have v: "s < ?n \<and> obs_metric obs (case_id c) ''baseline'' s m = Some b
        \<and> obs_metric obs (case_id c) ''evolved'' s m = Some e \<and> d = e - b"
      using zero_pairs_values[OF m] by simp
    have best: "e' - b' \<le> d" if "s' < ?n" "obs_metric obs (case_id c) ''baseline'' s' m = Some b'"
        "obs_metric obs (case_id c) ''evolved'' s' m = Some e'" for s' b' e'
      using top mem[OF that] by fastforce
    have "(zd_worst z = None) = (\<exists>s<?n. obs_metric obs (case_id c) ''baseline'' s m = None
        \<or> obs_metric obs (case_id c) ''evolved'' s m = None)"
      unfolding z using full True by blast
    then show ?thesis unfolding z using v best by simp
  next
    case False
    with assms have "zd_worst z = None" by (auto simp: zero_delta_of_def Let_def)
    with False full show ?thesis by auto
  qed
qed

end
