(* ===== verification/Decide.thy ===== *)
theory Decide
  imports Session Costs Report
begin

text \<open>
  \<open>src/src/qtb/coordinator/decide.py\<close>: the
  snapshot of the stage states and their committed evidence, the stages a verdict requires, the
  merged evidence, and the decision. The snapshot reads files one after another while stages
  may be running, so the session directory is a function of time there. What the decision reads
  besides the snapshot (the archived profile, the observations, saved cost bundles, the Clifford
  rows and what the notes quote) is the record \<open>archive\<close>. The lemmas show what a verdict says
  about the stages and their records, and that a snapshot is one state of the directory.
\<close>

section \<open>A stable view of the stages\<close>

text \<open>
  The bytes of every \<open>state.json\<close> and the rows of every \<open>evidence.json\<close> at one instant; reading
  a file is one step, and the bytes of a state and its hash come from the same read.
\<close>

record stage_files =
  sf_state :: "stage \<Rightarrow> string option"
  sf_evidence :: "stage \<Rightarrow> crec list option"

type_synonym states = "stage \<Rightarrow> stage_state option"

type_synonym snapshot = "states \<times> (stage \<Rightarrow> string option) \<times> (stage \<Rightarrow> crec list)"

fun stage_index :: "stage \<Rightarrow> nat" where
  "stage_index Compile = 0"
| "stage_index Quality = 1"
| "stage_index Correctness = 2"
| "stage_index UnitTests = 3"
| "stage_index Cost = 4"

text \<open>The committed rows of a stage, as its state and its evidence file give them.\<close>

definition committed_rows :: "stage \<Rightarrow> stage_state option \<Rightarrow> crec list option \<Rightarrow> crec list" where
  "committed_rows st v rows =
     (let rs = (case rows of None \<Rightarrow> [] | Some rs \<Rightarrow> rs) in
      if status_of v = ''complete'' then rs
      else if status_of v = ''failed''
      then filter (\<lambda>r. cr_id r = ''harness/error/'' @ stage_name st) rs
      else [])"

text \<open>
  One turn of the loop of \<open>_snapshot\<close>, started at time \<open>t\<close>: five states, then the evidence of
  each stage, then five hashes; \<open>None\<close> when a state changed meanwhile.
\<close>

definition load_state :: "(string \<Rightarrow> stage_state res) \<Rightarrow> string option \<Rightarrow> stage_state option res" where
  "load_state loads b = (case b of None \<Rightarrow> Inr None | Some c \<Rightarrow> bindE (loads c) (\<lambda>v. Inr (Some v)))"

definition snapshot_turn ::
    "(string \<Rightarrow> stage_state res) \<Rightarrow> (string \<Rightarrow> string) \<Rightarrow> (nat \<Rightarrow> stage_files) \<Rightarrow> nat
       \<Rightarrow> snapshot option res" where
  "snapshot_turn loads sha view t =
     (let content = (\<lambda>st. sf_state (view (t + stage_index st)) st) in
      bindE (mapE (\<lambda>st. bindE (load_state loads (content st)) (\<lambda>v. Inr (st, v))) STAGE_ORDER) (\<lambda>loaded.
      let states = (\<lambda>st. case map_of loaded st of None \<Rightarrow> None | Some v \<Rightarrow> v);
          hashes = (\<lambda>st. map_option sha (content st));
          rows = (\<lambda>st. committed_rows st (states st) (sf_evidence (view (t + 5 + stage_index st)) st))
      in Inr (if list_all (\<lambda>st. hashes st = map_option sha (sf_state (view (t + 10 + stage_index st)) st))
                   STAGE_ORDER
              then Some (states, hashes, rows) else None)))"

text \<open>\<open>while True\<close>: the loop ends when a turn saw no change, or raises.\<close>

partial_function (option) snapshot ::
    "(string \<Rightarrow> stage_state res) \<Rightarrow> (string \<Rightarrow> string) \<Rightarrow> (nat \<Rightarrow> stage_files) \<Rightarrow> nat
       \<Rightarrow> snapshot res option" where
  "snapshot loads sha view t =
     (case snapshot_turn loads sha view t of
        Inl e \<Rightarrow> Some (Inl e)
      | Inr (Some snap) \<Rightarrow> Some (Inr snap)
      | Inr None \<Rightarrow> snapshot loads sha view (t + 15))"

section \<open>What a decision reads\<close>

text \<open>Fields of the stage states that only the report shows.\<close>

datatype reused = OneKey string | KeyList "string list"

record stage_extra =
  sx_host :: "string option"
  sx_seconds :: "real option"
  sx_reused :: "(string \<times> reused) list"

text \<open>
  \<open>ar_stored_baseline\<close> is what \<open>_stored_baseline_note\<close> finds: \<open>None\<close> when there is nothing to
  look up, else the stored entry's key and records, if there is one. \<open>ar_first_computed\<close> is
  \<open>store.first_computed\<close>, \<open>ar_bundle_modes\<close> the measurement modes of the readable cost bundles.
\<close>

record 'e archive =
  ar_manifest_format :: string
  ar_policy_format :: string
  ar_manifest_hash :: string
  ar_policy_hash :: string
  ar_profile :: string
  ar_cases :: "tcase list"
  ar_policy :: policy
  ar_cost_policy :: cost_policy
  ar_run_id :: string
  ar_scope :: "(string \<times> scope) list option"
  ar_changed :: "string list option"
  ar_requirement :: "'e requirement option"
  ar_validator :: "string option"
  ar_saved :: "string \<Rightarrow> 'e saved"
  ar_clifford :: "check list"
  ar_extra :: "stage \<Rightarrow> stage_extra"
  ar_stored_baseline :: "(string \<times> crec list) option option"
  ar_first_computed :: "string \<Rightarrow> string \<Rightarrow> string option"
  ar_bundle_modes :: "string list"
  ar_amended_at :: "nat \<Rightarrow> string"
  ar_implementation :: string

definition archived_profile :: "'e archive \<Rightarrow> run \<Rightarrow> unit res" where
  "archived_profile a r =
     bindE (guardE (ar_manifest_format a = ''qtb-manifest/1'' \<and> ar_policy_format a = ''qtb-policy/1'')
       (HarnessError ''Unknown archived profile format'')) (\<lambda>_.
     bindE (guardE (rn_manifest r = ar_manifest_hash a) (HarnessError ''Archived manifest hash mismatch'')) (\<lambda>_.
     guardE (rn_policy r = ar_policy_hash a) (HarnessError ''Archived policy hash mismatch'')))"

text \<open>The run as the cost component reads it.\<close>

definition cost_view :: "'e archive \<Rightarrow> run \<Rightarrow> cost_run" where
  "cost_view a r =
     \<lparr>rn_id = ar_run_id a, rn_profile = run.rn_profile r, rn_scope = ar_scope a,
      rn_changed = ar_changed a,
      rn_builds = (\<lambda>arm. if arm = ''baseline'' then b_baseline (run.rn_builds r)
                     else if arm = ''evolved'' then b_evolved (run.rn_builds r) else None)\<rparr>"

definition scope_of_level :: "'e archive \<Rightarrow> nat \<Rightarrow> scope option" where
  "scope_of_level a n = (case ar_scope a of None \<Rightarrow> None | Some s \<Rightarrow> map_of s (show_nat n))"

section \<open>The stages a verdict requires\<close>

definition gate_state :: "states \<Rightarrow> string option" where
  "gate_state states =
     (case states Quality of
        None \<Rightarrow> None
      | Some q \<Rightarrow> if ss_status q = ''complete'' then ss_gate q else None)"

definition required_stages ::
    "session \<Rightarrow> run \<Rightarrow> tcase list \<Rightarrow> policy \<Rightarrow> states \<Rightarrow> stage list res" where
  "required_stages s r cases policy states =
     bindE (if gate_state states \<in> {Some ''improved'', Some ''aa''}
            then bindE (if status_of (states Correctness) = ''complete''
                        then cost_due s r cases policy else Inr None) (\<lambda>due.
                 Inr ([Correctness] @ (if due \<noteq> None then [Cost] else [])))
            else Inr []) (\<lambda>opened.
     Inr ([Compile, Quality] @ opened
          @ (if status_of (states UnitTests) \<in> {''running'', ''failed'', ''complete''}
             then [UnitTests] else [])))"

definition pending_stages :: "states \<Rightarrow> stage list \<Rightarrow> stage list" where
  "pending_stages states required =
     filter (\<lambda>st. status_of (states st) \<notin> set FINAL \<union> {''failed''}) required"

section \<open>The merged evidence\<close>

text \<open>\<open>evidence\<close> and \<open>seen\<close>: every row with the stage it came from.\<close>

definition merge_row :: "stage \<Rightarrow> crec \<Rightarrow> (crec \<times> stage) list \<Rightarrow> (crec \<times> stage) list res" where
  "merge_row st r merged =
     (case map_of (map (\<lambda>(r, st). (cr_id r, st)) merged) (cr_id r) of
        Some first \<Rightarrow> Inl (HarnessError (''Record '' @ cr_id r @ '' appears in both ''
          @ stage_name first @ '' and '' @ stage_name st))
      | None \<Rightarrow> Inr (merged @ [(r, st)]))"

definition merge_stages :: "(stage \<Rightarrow> crec list) \<Rightarrow> (crec \<times> stage) list res" where
  "merge_stages by_stage = foldE (\<lambda>st. foldE (merge_row st) (by_stage st)) STAGE_ORDER []"

definition preflight_failed :: "crec list \<Rightarrow> bool" where
  "preflight_failed rs =
     list_ex (\<lambda>r. cr_id r = ''baseline/preflight'' \<and> cr_result r = ''failed'') rs"

text \<open>After a failed preflight only the rows of \<open>compile\<close> and \<open>correctness\<close>, and crashes, count.\<close>

definition set_aside :: "(crec \<times> stage) list \<Rightarrow> crec list" where
  "set_aside merged =
     map fst (filter (\<lambda>(r, st). st \<in> {Compile, Correctness} \<or> cr_kind r = ''harness'') merged)"

definition final_evidence ::
    "'e archive \<Rightarrow> session \<Rightarrow> run \<Rightarrow> states \<Rightarrow> (stage \<Rightarrow> crec list)
       \<Rightarrow> (bool \<times> observation list \<times> crec list) res" where
  "final_evidence a s r states by_stage =
     bindE (merge_stages by_stage) (\<lambda>merged.
     let broken = preflight_failed (map fst merged);
         rows = (if broken \<or> status_of (states Quality) \<noteq> ''complete'' then [] else sn_obs s);
         recs = (if broken then set_aside merged else map fst merged) in
     bindE (if status_of (states Cost) = ''complete''
            then replay_costs (cost_view a r) (ar_cases a) (ar_cost_policy a) (ar_requirement a)
                   (ar_saved a) recs
            else Inr recs) (\<lambda>recs.
     bindE (if \<not> broken \<and> status_of (states Quality) = ''complete''
               \<and> status_of (states Correctness) = ''complete''
            then bindE (stage_coverage (scope_of_level a) (ar_cases a) rows (ar_clifford a)
                   (profile_prefix (run.rn_profile r))) (\<lambda>row. Inr (recs @ [row]))
            else Inr recs) (\<lambda>recs.
     Inr (broken, rows, recs))))"

text \<open>The IDs a \<open>PASS\<close> needs: those of the evaluation, the cost panels and the upstream tests.\<close>

definition decision_ids ::
    "'e archive \<Rightarrow> run \<Rightarrow> stage list \<Rightarrow> string list \<Rightarrow> string list res" where
  "decision_ids a r required ids =
     (let prefix = profile_prefix (run.rn_profile r) in
      bindE (if ar_scope a \<noteq> None
             then bindE (required_cost_panels (cost_view a r) (ar_cases a)) (\<lambda>panels.
                  Inr (sorted_set (ids @ map (\<lambda>(name, p). prefix @ ''5/'' @ name) panels)))
             else Inr ids) (\<lambda>ids.
      Inr (if UnitTests \<in> set required then sorted_set (ids @ [prefix @ ''1/upstream'']) else ids)))"

section \<open>Notes and the table of stages\<close>

definition or_none :: "string option \<Rightarrow> string" where
  "or_none m = (case m of None \<Rightarrow> ''None'' | Some s \<Rightarrow> s)"

text \<open>The UTF-8 bytes of the ellipsis that ends a shortened key.\<close>

definition ELLIPSIS :: string where
  "ELLIPSIS = [CHR 0xE2, CHR 0x80, CHR 0xA6]"

definition short_key :: "string \<Rightarrow> string" where
  "short_key k = take 12 k @ ELLIPSIS"

definition truthy :: "string option \<Rightarrow> bool" where
  "truthy m \<longleftrightarrow> m \<noteq> None \<and> m \<noteq> Some []"

record stage_row =
  sr_stage :: stage
  sr_status :: string
  sr_required :: bool
  sr_host :: "string option"
  sr_seconds :: "real option"
  sr_attempts :: "nat option"
  sr_note :: string
  sr_reused :: "(string \<times> reused) list"

definition stage_note :: "states \<Rightarrow> stage list \<Rightarrow> stage \<Rightarrow> string" where
  "stage_note states required st =
     (case states st of
        Some v \<Rightarrow>
          if st = Quality \<and> truthy (ss_gate v)
          then ''gate '' @ the (ss_gate v) @ '': ''
               @ (case ss_gate_reason v of None \<Rightarrow> [] | Some m \<Rightarrow> m)
          else if truthy (ss_reason v) then the (ss_reason v) else []
      | None \<Rightarrow>
          if st = UnitTests then ''optional''
          else if st \<notin> set required then ''not needed'' else [])"

definition stage_rows :: "'e archive \<Rightarrow> states \<Rightarrow> stage list \<Rightarrow> stage_row list" where
  "stage_rows a states required =
     map (\<lambda>st. let started = (states st \<noteq> None); x = ar_extra a st in
        \<lparr>sr_stage = st, sr_status = status_of (states st), sr_required = (st \<in> set required),
         sr_host = (if started then sx_host x else None),
         sr_seconds = (if started then sx_seconds x else None),
         sr_attempts = map_option ss_attempts (states st),
         sr_note = take 300 (stage_note states required st),
         sr_reused = (if started then sx_reused x else [])\<rparr>) STAGE_ORDER"

text \<open>\<open>_reuse_notes\<close>: which baseline halves came from the store.\<close>

definition REUSED_FIELDS :: "(stage \<times> string \<times> string) list" where
  "REUSED_FIELDS =
     [(Compile, ''baseline_build'', ''baseline build''),
      (Quality, ''baseline_quality'', ''baseline quality''),
      (Correctness, ''baseline_correctness'', ''baseline correctness''),
      (UnitTests, ''baseline_unit_tests'', ''baseline unit tests'')]"

definition store_kind :: "string \<Rightarrow> string option" where
  "store_kind field =
     map_of [(''baseline_correctness'', ''correctness''), (''baseline_unit_tests'', ''unit-tests'')] field"

definition reuse_note :: "'e archive \<Rightarrow> bool \<Rightarrow> stage \<times> string \<times> string \<Rightarrow> string \<Rightarrow> string list" where
  "reuse_note a has_store sf key =
     (case sf of (st, field, label) \<Rightarrow>
      let first = (if has_store then (case store_kind field of None \<Rightarrow> None
                                     | Some k \<Rightarrow> ar_first_computed a k key) else None);
          when = (if truthy first then '', first computed '' @ take 10 (the first) else []) in
      [label @ '': from the store (key '' @ short_key key @ when @ '').''])"

definition reuse_notes :: "'e archive \<Rightarrow> bool \<Rightarrow> states \<Rightarrow> string list" where
  "reuse_notes a has_store states =
     concat (map (\<lambda>(st, field, label).
       if states st = None then []
       else (case map_of (sx_reused (ar_extra a st)) field of
               None \<Rightarrow> []
             | Some (KeyList []) \<Rightarrow> []
             | Some (KeyList ks) \<Rightarrow>
                 [label @ '': from the store ('' @ show_nat (length ks) @ '' entries).'']
             | Some (OneKey []) \<Rightarrow> []
             | Some (OneKey k) \<Rightarrow> reuse_note a has_store (st, field, label) k)) REUSED_FIELDS)"

text \<open>
  \<open>_stored_baseline_note\<close>: without a correctness stage, what the store knows of the baseline;
  the records are those of the entry stored under the key.
\<close>

definition stored_baseline_note :: "'e archive \<Rightarrow> run \<Rightarrow> string option" where
  "stored_baseline_note a r =
     (if rn_store r = None \<or> b_baseline (run.rn_builds r) = None then None
      else case ar_stored_baseline a of
        None \<Rightarrow> None
      | Some None \<Rightarrow> Some ''Baseline correctness: not known from the store for this baseline.''
      | Some (Some (key, rows)) \<Rightarrow>
          let result = (case filter (\<lambda>r. cr_id r = ''baseline/preflight'') rows of
                          [] \<Rightarrow> ''unknown'' | p # ps \<Rightarrow> cr_result p) in
          Some (''Baseline correctness: known from the store (key '' @ short_key key
            @ ''): preflight '' @ result @ ''.''
            @ (if result = ''failed'' then '' The baseline is broken.'' else [])))"

text \<open>\<open>_cost_evidence_note\<close>.\<close>

definition cost_evidence_note :: "'e archive \<Rightarrow> run \<Rightarrow> string" where
  "cost_evidence_note a r =
     (case rn_requirements r ''cost_evidence'' of
        Some q \<Rightarrow> ''Cost evidence: monitored ('' @ or_none (rq_contract q)
          @ ''); every bundle is checked by '' @ or_none (ar_validator a) @ ''.''
      | None \<Rightarrow>
          if ''unlabelled'' \<in> set (ar_bundle_modes a)
          then ''Cost evidence: unmonitored, from a harness that did not label its measurement ''
               @ ''mode; it is not monitored evidence.''
          else if \<exists>m\<in>set (ar_bundle_modes a). m \<noteq> ''machine''
          then ''Cost evidence: '' @ join_str '', '' (sorted_set (ar_bundle_modes a))
               @ '' mode, but this session requires no ''
               @ ''evidence contract, so no monitoring evidence was validated.''
          else ''Cost evidence: machine mode (machine lock and load checks; no monitoring contract).'')"

text \<open>\<open>notes\<close> of \<open>amend.py\<close>.\<close>

definition amendment_note :: "'e archive \<Rightarrow> amendment \<Rightarrow> string" where
  "amendment_note a m =
     ''Amendment '' @ show_nat (amendment.am_index m) @ '' ('' @ take 10 (ar_amended_at a (amendment.am_index m)) @ ''): ''
     @ stage_name (amendment.am_stage m) @ '' was measured by a later harness than the one that compiled (''
     @ join_str '', '' (''harness identity'' # sorted_set (map fst (amendment.am_session m)))
     @ '' re-pinned; reason: '' @ amendment.am_reason m @ '').''"

definition closed_notes :: "'e archive \<Rightarrow> run \<Rightarrow> states \<Rightarrow> string list" where
  "closed_notes a r states =
     (if gate_state states = Some ''closed''
      then (''Correctness, unit tests and cost not checked: the quality gate is closed (''
            @ or_none (case states Quality of None \<Rightarrow> None | Some q \<Rightarrow> ss_gate_reason q) @ '').'')
           # (case stored_baseline_note a r of None \<Rightarrow> [] | Some n \<Rightarrow> [n])
      else [])"

definition noisy_notes :: "states \<Rightarrow> string list" where
  "noisy_notes states =
     concat (map (\<lambda>st. if status_of (states st) = ''noisy''
       then [stage_name st @ '': no clean measurement. The last invocation detected interference ''
             @ ''and was discarded ('' @ or_none (case states st of None \<Rightarrow> None | Some v \<Rightarrow> ss_reason v)
             @ ''); this is not an observed regression.'']
       else []) STAGE_ORDER)"

definition pending_note :: "states \<Rightarrow> stage list \<Rightarrow> string" where
  "pending_note states pending =
     ''Unfinished required stages: ''
     @ join_str '', '' (map (\<lambda>st. stage_name st @ '' ('' @ status_of (states st) @ '')'') pending)
     @ ''. The verdict stays INCONCLUSIVE until they finish.''"

definition decision_notes ::
    "'e archive \<Rightarrow> run \<Rightarrow> states \<Rightarrow> bool \<Rightarrow> stage list \<Rightarrow> string list" where
  "decision_notes a r states broken pending =
     (if broken then [''The baseline failed its correctness preflight: the quality evidence was set aside.'']
      else [])
     @ closed_notes a r states
     @ (if status_of (states UnitTests) \<in> {''not started'', ''skipped''}
        then [''Upstream tests: not run.''] else [])
     @ noisy_notes states
     @ (if status_of (states Cost) = ''complete'' then [cost_evidence_note a r] else [])
     @ (if pending \<noteq> [] then [pending_note states pending] else [])
     @ reuse_notes a (rn_store r \<noteq> None) states
     @ (if hs_implementation (run.rn_hashes r) \<notin> {None, Some (ar_implementation a)}
        then [''Decided by a different harness version than the one that compiled.''] else [])
     @ map (amendment_note a) (rn_amendments r)"

section \<open>The decision\<close>

text \<open>What \<open>decide\<close> adds to the decision: its view of the stages, and the evidence it merged.\<close>

record stage_decision = decision +
  dn_stages :: "stage_row list"
  dn_hashes :: "stage \<Rightarrow> string option"
  dn_notes :: "string list"
  dn_evidence :: "crec list"

definition decide_snapshot :: "'e archive \<Rightarrow> session \<Rightarrow> run \<Rightarrow> snapshot \<Rightarrow> stage_decision res" where
  "decide_snapshot a s r snap =
     (case snap of (states, hashes, by_stage) \<Rightarrow>
      bindE (archived_profile a r) (\<lambda>_.
      bindE (required_stages s r (ar_cases a) (ar_policy a) states) (\<lambda>required.
      bindE (final_evidence a s r states by_stage) (\<lambda>(broken, rows, recs).
      bindE (evaluate_quality (ar_profile a) (ar_cases a) (ar_policy a) rows recs)
        (\<lambda>(records, ids, summaries).
      bindE (decision_ids a r required ids) (\<lambda>ids.
      let pending = pending_stages states required in
      bindE (make_decision (run.rn_profile r) records ids summaries rows (ar_cases a)
               (if pending = [] then None else Some ''INCONCLUSIVE'')) (\<lambda>d.
        Inr (decision.extend d (stage_decision.fields (stage_rows a states required) hashes
               (decision_notes a r states broken pending) recs)))))))))"

text \<open>
  \<open>decide\<close> begun at time \<open>t\<close>: the exit status and the decision; \<open>None\<close> when the snapshot never
  gets a stable view.
\<close>

definition decide ::
    "(string \<Rightarrow> stage_state res) \<Rightarrow> (string \<Rightarrow> string) \<Rightarrow> (nat \<Rightarrow> stage_files) \<Rightarrow> nat
       \<Rightarrow> 'e archive \<Rightarrow> session \<Rightarrow> (nat option \<times> stage_decision) res option" where
  "decide loads sha view t a s =
     (case sn_run s of
        None \<Rightarrow> Some (Inl (Precondition ''not a session; run compile first''))
      | Some r0 \<Rightarrow>
          (case snapshot loads sha view t of
             None \<Rightarrow> None
           | Some snap \<Rightarrow> Some (bindE snap (\<lambda>snap.
               bindE (decide_snapshot a s (effective r0 None) snap) (\<lambda>d.
                 Inr (exit_code (dn_status d), d))))))"

section \<open>The snapshot is one state of the directory\<close>

text \<open>
  Two facts about the writers: the bytes of a state file never come back after a change (every
  state carries its attempt and its times), and a stage whose state says \<open>complete\<close> or
  \<open>failed\<close> keeps its evidence file until that state changes.
\<close>

definition never_back :: "(nat \<Rightarrow> stage_files) \<Rightarrow> (string \<Rightarrow> string) \<Rightarrow> bool" where
  "never_back view sha \<longleftrightarrow> (\<forall>st t1 t2 t3. t1 \<le> t2 \<longrightarrow> t2 \<le> t3 \<longrightarrow>
     map_option sha (sf_state (view t1) st) = map_option sha (sf_state (view t3) st) \<longrightarrow>
     sf_state (view t2) st = sf_state (view t1) st)"

definition settled_evidence ::
    "(nat \<Rightarrow> stage_files) \<Rightarrow> (string \<Rightarrow> stage_state res) \<Rightarrow> bool" where
  "settled_evidence view loads \<longleftrightarrow> (\<forall>st t1 t2 b v. t1 \<le> t2 \<longrightarrow>
     (\<forall>t. t1 \<le> t \<longrightarrow> t \<le> t2 \<longrightarrow> sf_state (view t) st = Some b) \<longrightarrow> loads b = Inr v \<longrightarrow>
     ss_status v \<in> {''complete'', ''failed''} \<longrightarrow>
     sf_evidence (view t2) st = sf_evidence (view t1) st)"

definition held_at ::
    "(string \<Rightarrow> stage_state res) \<Rightarrow> (string \<Rightarrow> string) \<Rightarrow> stage_files \<Rightarrow> snapshot \<Rightarrow> bool" where
  "held_at loads sha files snap \<longleftrightarrow>
     (case snap of (states, hashes, by_stage) \<Rightarrow> \<forall>st.
        load_state loads (sf_state files st) = Inr (states st)
        \<and> hashes st = map_option sha (sf_state files st)
        \<and> by_stage st = committed_rows st (states st) (sf_evidence files st))"

lemma all_stages: "(\<forall>st. P st) \<longleftrightarrow> (\<forall>st\<in>set STAGE_ORDER. P st)"
proof
  assume a: "\<forall>st\<in>set STAGE_ORDER. P st"
  show "\<forall>st. P st"
  proof
    fix st show "P st" using a by (cases st) (auto simp: STAGE_ORDER_def)
  qed
qed blast

lemma stage_index_less: "stage_index st < 5"
  by (cases st) auto

lemma loaded_states:
  assumes "mapE (\<lambda>st. bindE (f st) (\<lambda>v. Inr (st, v))) STAGE_ORDER = Inr loaded"
  shows "\<exists>v. map_of loaded st = Some v \<and> f st = Inr v"
proof -
  have g: "mapE (\<lambda>st. bindE (f st) (\<lambda>v. Inr (st, v))) sts = Inr loaded \<Longrightarrow> st \<in> set sts \<Longrightarrow>
      \<exists>v. map_of loaded st = Some v \<and> f st = Inr v" for sts loaded
  proof (induction sts arbitrary: loaded)
    case (Cons x xs)
    then show ?case by (auto simp: bindE_Inr_iff split: if_splits)
  qed simp
  have "st \<in> set STAGE_ORDER" by (cases st) (simp_all add: STAGE_ORDER_def)
  with g[OF assms] show ?thesis .
qed

lemma snapshot_turn_Some:
  assumes "snapshot_turn loads sha view t = Inr (Some (states, hashes, by_stage))"
  shows "load_state loads (sf_state (view (t + stage_index st)) st) = Inr (states st)
    \<and> hashes st = map_option sha (sf_state (view (t + stage_index st)) st)
    \<and> hashes st = map_option sha (sf_state (view (t + 10 + stage_index st)) st)
    \<and> by_stage st = committed_rows st (states st) (sf_evidence (view (t + 5 + stage_index st)) st)"
proof -
  let ?states = "\<lambda>loaded st. case map_of loaded st of None \<Rightarrow> None | Some v \<Rightarrow> v"
  let ?hashes = "\<lambda>st. map_option sha (sf_state (view (t + stage_index st)) st)"
  obtain loaded where l: "mapE (\<lambda>st. bindE (load_state loads (sf_state (view (t + stage_index st)) st))
      (\<lambda>v. Inr (st, v))) STAGE_ORDER = Inr loaded"
    and r: "(if list_all (\<lambda>st. ?hashes st = map_option sha (sf_state (view (t + 10 + stage_index st)) st)) STAGE_ORDER
      then Some (?states loaded, ?hashes,
        \<lambda>st. committed_rows st (?states loaded st) (sf_evidence (view (t + 5 + stage_index st)) st))
      else None) = Some (states, hashes, by_stage)"
    using assms unfolding snapshot_turn_def Let_def bindE_Inr_iff sum.inject by blast
  from r have s: "states = ?states loaded" and h: "hashes = ?hashes"
    and b: "by_stage = (\<lambda>st. committed_rows st (?states loaded st)
      (sf_evidence (view (t + 5 + stage_index st)) st))"
    and e: "\<forall>st\<in>set STAGE_ORDER. ?hashes st = map_option sha (sf_state (view (t + 10 + stage_index st)) st)"
    by (simp_all only: list_all_iff prod.inject option.inject option.distinct split: if_splits)
  from loaded_states[OF l, of st] obtain v where "map_of loaded st = Some v"
    "load_state loads (sf_state (view (t + stage_index st)) st) = Inr v" by blast
  then show ?thesis using e[folded all_stages] by (simp add: s h b)
qed

lemma turn_held:
  assumes "snapshot_turn loads sha view t = Inr (Some snap)"
    and "never_back view sha" and "settled_evidence view loads"
  shows "held_at loads sha (view (t + 9)) snap"
proof -
  obtain states hashes by_stage where snap: "snap = (states, hashes, by_stage)" by (cases snap)
  note turn = snapshot_turn_Some[OF assms(1)[unfolded snap]]
  have "load_state loads (sf_state (view (t + 9)) st) = Inr (states st)
      \<and> hashes st = map_option sha (sf_state (view (t + 9)) st)
      \<and> by_stage st = committed_rows st (states st) (sf_evidence (view (t + 9)) st)" for st
  proof -
    let ?b = "sf_state (view (t + stage_index st)) st" and ?r = "t + 5 + stage_index st"
    have ends: "map_option sha ?b = map_option sha (sf_state (view (t + 10 + stage_index st)) st)"
      using turn[of st] by (elim conjE) (erule subst, assumption)
    have same: "sf_state (view u) st = ?b" if "t + stage_index st \<le> u" "u \<le> t + 10 + stage_index st" for u
      using that ends
      by (rule assms(2)[unfolded never_back_def, rule_format, of "t + stage_index st" u "t + 10 + stage_index st"])
    have nine: "sf_state (view (t + 9)) st = ?b" by (rule same) (use stage_index_less[of st] in simp_all)
    have "committed_rows st (states st) (sf_evidence (view ?r) st)
        = committed_rows st (states st) (sf_evidence (view (t + 9)) st)"
    proof (cases "status_of (states st) \<in> {''complete'', ''failed''}")
      case True
      then obtain b v where v: "?b = Some b" "states st = Some v" "loads b = Inr v"
        using turn[of st] by (auto simp: load_state_def status_of_def bindE_Inr_iff split: option.splits)
      have "sf_evidence (view (t + 9)) st = sf_evidence (view ?r) st"
        using assms(3)[unfolded settled_evidence_def, rule_format, of ?r "t + 9" st b v] same v True
          stage_index_less[of st] by (simp add: status_of_def)
      then show ?thesis by simp
    qed (simp add: committed_rows_def)
    with turn[of st] nine show ?thesis by simp
  qed
  then show ?thesis by (simp add: held_at_def snap)
qed

lemma snapshot_ended:
  assumes "snapshot loads sha view t = Some r"
  shows "\<exists>u\<ge>t. snapshot_turn loads sha view u = (case r of Inl e \<Rightarrow> Inl e | Inr snap \<Rightarrow> Inr (Some snap))"
proof (rule snapshot.raw_induct[where P = "\<lambda>loads sha view t r. \<exists>u\<ge>t. snapshot_turn loads sha view u
    = (case r of Inl e \<Rightarrow> Inl e | Inr snap \<Rightarrow> Inr (Some snap))", OF _ assms])
  fix loop loads sha view t r
  assume IH: "\<And>loads sha view t r. loop loads sha view t = Some r \<Longrightarrow> \<exists>u\<ge>t. snapshot_turn loads sha view u
      = (case r of Inl e \<Rightarrow> Inl e | Inr snap \<Rightarrow> Inr (Some snap))"
    and r: "(case snapshot_turn loads sha view t of Inl e \<Rightarrow> Some (Inl e)
       | Inr None \<Rightarrow> loop loads sha view (t + 15) | Inr (Some snap) \<Rightarrow> Some (Inr snap)) = Some r"
  show "\<exists>u\<ge>t. snapshot_turn loads sha view u = (case r of Inl e \<Rightarrow> Inl e | Inr snap \<Rightarrow> Inr (Some snap))"
  proof (cases "snapshot_turn loads sha view t = Inr None")
    case True
    with r IH[of loads sha view "t + 15" r] obtain u where "t + 15 \<le> u"
      "snapshot_turn loads sha view u = (case r of Inl e \<Rightarrow> Inl e | Inr snap \<Rightarrow> Inr (Some snap))" by auto
    then show ?thesis by (intro exI[of _ u]) simp
  next
    case False
    with r show ?thesis by (intro exI[of _ t]) (auto split: sum.splits option.splits)
  qed
qed

text \<open>
  C8. A snapshot of \<open>decide\<close>, taken while stages may be running, is the state of the directory at
  one instant: at that instant every \<open>state.json\<close> held the state and hash returned, and the rows
  returned are the committed evidence of those states. This rests on the writers alone: state
  files never return to earlier bytes, and a finished stage keeps its evidence file until its
  state changes.
\<close>

theorem snapshot_consistent:
  assumes "snapshot loads sha view t = Some (Inr snap)"
    and "never_back view sha" and "settled_evidence view loads"
  shows "\<exists>u\<ge>t. held_at loads sha (view u) snap"
proof -
  from snapshot_ended[OF assms(1)] obtain u where "t \<le> u"
    "snapshot_turn loads sha view u = Inr (Some snap)" by auto
  from turn_held[OF this(2) assms(2,3)] \<open>t \<le> u\<close> show ?thesis by (intro exI[of _ "u + 9"]) simp
qed

lemma quiet_turn:
  assumes "\<forall>u\<ge>T. sf_state (view u) = sf_state (view T)" and "T \<le> t"
  shows "snapshot_turn loads sha view t \<noteq> Inr None"
proof -
  have q: "sf_state (view (t + k)) = sf_state (view T)" for k
    by (rule assms(1)[rule_format]) (use assms(2) in simp)
  have "sf_state (view (t + stage_index st)) st = sf_state (view (t + 10 + stage_index st)) st" for st
    unfolding add.assoc q ..
  then have a: "list_all (\<lambda>st. map_option sha (sf_state (view (t + stage_index st)) st)
      = map_option sha (sf_state (view (t + 10 + stage_index st)) st)) STAGE_ORDER"
    by (simp add: list_all_iff)
  then show ?thesis by (simp add: snapshot_turn_def Let_def bindE_Inr_iff)
qed

text \<open>
  C9. Once no stage writes its state any more, \<open>decide\<close> gets its snapshot (or the exception of an
  unreadable state): the loop cannot go on for ever.
\<close>

theorem snapshot_returns:
  assumes "\<forall>u\<ge>T. sf_state (view u) = sf_state (view T)"
  shows "\<exists>r. snapshot loads sha view t = Some r"
proof (induction "T - t" arbitrary: t rule: less_induct)
  case less
  show ?case
  proof (cases "snapshot_turn loads sha view t = Inr None")
    case True
    with quiet_turn[OF assms, of t] have "t < T" by force
    then have "T - (t + 15) < T - t" by simp
    from less[OF this] True show ?thesis by (subst snapshot.simps) simp
  next
    case False
    then show ?thesis by (subst snapshot.simps) (auto split: sum.split option.split)
  qed
qed

end
