(* ===== verification/DecideInv.thy ===== *)
theory DecideInv
  imports Decide
begin

text \<open>
  What a decision says of the stages and of their committed records: the merge keeps every row
  and its owner, replaying the cost bundles replaces only the cost panels' own rows, a \<open>PASS\<close>
  has no unfinished required stage behind it, and a crash is never hidden.
\<close>

section \<open>Merging\<close>

definition owned_rows :: "stage \<Rightarrow> crec list \<Rightarrow> (crec \<times> stage) list" where
  "owned_rows st rs = map (\<lambda>r. (r, st)) rs"

lemma merge_row_Inr:
  "merge_row st r acc = Inr t \<longleftrightarrow> t = acc @ [(r, st)]
     \<and> map_of (map (\<lambda>(r, st). (cr_id r, st)) acc) (cr_id r) = None"
  by (auto simp: merge_row_def split: option.splits)

lemma merge_rows_Inr:
  "foldE (merge_row st) rs acc = Inr merged \<Longrightarrow>
     merged = acc @ owned_rows st rs"
proof (induction rs arbitrary: acc)
  case (Cons r rs)
  from Cons.prems have f: "foldE (merge_row st) rs (acc @ [(r, st)]) = Inr merged"
    by (auto simp: merge_row_Inr bindE_Inr_iff)
  from Cons.IH[OF f] show ?case by (auto simp: owned_rows_def)
qed (simp add: owned_rows_def)

lemma merge_stages_Inr:
  assumes "merge_stages by_stage = Inr merged"
  shows "merged = concat (map (\<lambda>st. owned_rows st (by_stage st)) STAGE_ORDER)"
proof -
  have "merged = acc @ concat (map (\<lambda>st. owned_rows st (by_stage st)) sts)"
    if "foldE (\<lambda>st. foldE (merge_row st) (by_stage st)) sts acc = Inr merged" for sts acc
    using that
  proof (induction sts arbitrary: acc)
    case (Cons x xs)
    then obtain t where t: "foldE (merge_row x) (by_stage x) acc = Inr t"
      "foldE (\<lambda>st. foldE (merge_row st) (by_stage st)) xs t = Inr merged" by (auto simp: bindE_Inr_iff)
    from Cons.IH[OF t(2)] merge_rows_Inr[OF t(1)] show ?case by simp
  qed simp
  from this[of STAGE_ORDER "[]"] assms show ?thesis by (simp add: merge_stages_def)
qed

lemma merged_row:
  assumes "merge_stages by_stage = Inr merged"
  shows "(x, st) \<in> set merged \<longleftrightarrow> x \<in> set (by_stage st)"
  using all_stages[of "\<lambda>st. st \<in> set STAGE_ORDER"]
  by (auto simp: merge_stages_Inr[OF assms] owned_rows_def)

section \<open>Replaying the cost bundles\<close>

definition cost_row :: "string \<Rightarrow> crec \<Rightarrow> bool" where
  "cost_row profile x \<longleftrightarrow> (\<exists>name. cr_id x = profile_prefix profile @ ''5/'' @ name)"

lemma evidence_keeps: "x \<in> set recs \<Longrightarrow> cr_id x \<noteq> cr_id r \<Longrightarrow> x \<in> set (evidence recs r)"
  by (simp add: evidence_def)

lemma replay_one_keeps:
  assumes "replay_one run policy requirement guarded_panels saved np recs = Inr recs'"
    and "x \<in> set recs" and "\<not> cost_row (cost_run.rn_profile run) x"
  shows "x \<in> set recs'"
proof -
  obtain name cases estimator where np: "np = (name, cases, estimator)" by (cases np)
  let ?i = "profile_prefix (cost_run.rn_profile run) @ ''5/'' @ name"
  have ne: "cr_id x \<noteq> ?i" using assms(3) by (auto simp: cost_row_def)
  have "recs' = recs \<or> (\<exists>r. recs' = evidence recs r \<and> cr_id r = ?i)"
  proof (cases "\<not> list_ex (\<lambda>r. saved name r \<noteq> None) REGIMES \<and> \<not> list_ex (\<lambda>r. cr_id r = ?i) recs")
    case True
    with assms(1) show ?thesis by (simp add: replay_one_def np Let_def)
  next
    case False
    let ?guarded = "name \<in> set (map fst guarded_panels)"
    let ?replay = "\<lambda>counts. replay_panel run cases estimator policy requirement ?guarded counts (saved name)"
    from assms(1) obtain counts where "(case ?replay counts of
        Inr g \<Rightarrow> Inr (evidence recs (cost_record (profile_prefix (cost_run.rn_profile run)) name ?guarded g))
      | Inl e \<Rightarrow> if unreadable e
          then Inr (evidence recs (record_of ?i ''cost'' (if ?guarded then ''unresolved'' else ''not_evaluated'')
                 ''evolved'' [(''detail'', DStr (exn_message e))]))
          else Inl e) = Inr recs'"
      unfolding replay_one_def np Let_def prod.case if_not_P[OF False] bindE_Inr_iff by blast
    then show ?thesis
      by (cases "?replay counts") (auto simp: cost_record_def split: if_split_asm)
  qed
  then show ?thesis using assms(2) ne evidence_keeps by metis
qed

lemma replay_costs_keeps:
  assumes "replay_costs run cases policy requirement saved recs = Inr recs'"
    and "x \<in> set recs" and "\<not> cost_row (cost_run.rn_profile run) x"
  shows "x \<in> set recs'"
proof (cases "rn_scope run = None")
  case True
  with assms show ?thesis by (simp add: replay_costs_def)
next
  case False
  with assms(1) obtain g ps where "foldE (replay_one run policy requirement g saved) ps recs = Inr recs'"
    by (auto simp: replay_costs_def bindE_Inr_iff)
  from foldE_invariant[OF this, of "\<lambda>rs. x \<in> set rs"] assms(2,3) replay_one_keeps show ?thesis by blast
qed

section \<open>The parts of a decision\<close>

lemma decide_snapshot_Inr:
  assumes "decide_snapshot a s r (states, hashes, by_stage) = Inr d"
  obtains required broken rows recs ids0 summaries ids st where
    "archived_profile a r = Inr ()"
    "required_stages s r (ar_cases a) (ar_policy a) states = Inr required"
    "final_evidence a s r states by_stage = Inr (broken, rows, recs)"
    "evaluate_quality (ar_profile a) (ar_cases a) (ar_policy a) rows recs = Inr (dn_records d, ids0, summaries)"
    "decision_ids a r required ids0 = Inr ids" "dn_required d = sort ids"
    "decision_status (dn_records d) ids
       (if pending_stages states required = [] then None else Some ''INCONCLUSIVE'') = Inr st"
    "dn_status d = st" "dn_evidence d = recs" "dn_improved d = improved_under_constraints st"
    "dn_hashes d = hashes"
proof -
  from assms obtain required broken rows recs records ids0 summaries ids e where
    *: "archived_profile a r = Inr ()"
    "required_stages s r (ar_cases a) (ar_policy a) states = Inr required"
    "final_evidence a s r states by_stage = Inr (broken, rows, recs)"
    "evaluate_quality (ar_profile a) (ar_cases a) (ar_policy a) rows recs = Inr (records, ids0, summaries)"
    "decision_ids a r required ids0 = Inr ids"
    "make_decision (run.rn_profile r) records ids summaries rows (ar_cases a)
       (if pending_stages states required = [] then None else Some ''INCONCLUSIVE'') = Inr e"
    "d = decision.extend e (stage_decision.fields (stage_rows a states required) hashes
               (decision_notes a r states broken (pending_stages states required)) recs)"
    unfolding decide_snapshot_def Let_def
    by (clarsimp simp: bindE_Inr_iff split: prod.splits)
  from *(6) obtain st zero where st: "decision_status records ids
      (if pending_stages states required = [] then None else Some ''INCONCLUSIVE'') = Inr st"
    and e: "dn_status e = st" "dn_records e = records" "dn_required e = sort ids"
      "dn_improved e = improved_under_constraints st"
    unfolding make_decision_def Let_def by (clarsimp simp: bindE_Inr_iff)
  show ?thesis
    by (rule that[of required broken rows recs ids0 summaries ids st])
      (use * st e in \<open>simp_all add: decision.extend_def stage_decision.fields_def\<close>)
qed

lemma final_evidence_keeps:
  assumes "final_evidence a s r states by_stage = Inr (broken, rows, recs)"
    and "x \<in> set (by_stage st)" and "st \<in> {Compile, Correctness} \<or> cr_kind x = ''harness'' \<or> \<not> broken"
    and "\<not> cost_row (run.rn_profile r) x"
  shows "x \<in> set recs"
proof -
  let ?cover = "stage_coverage (scope_of_level a) (ar_cases a) rows (ar_clifford a)
     (profile_prefix (run.rn_profile r))"
  from assms(1) obtain merged recs1 where m: "merge_stages by_stage = Inr merged"
    and b: "broken = preflight_failed (map fst merged)"
    and r1: "(if status_of (states Cost) = ''complete''
            then replay_costs (cost_view a r) (ar_cases a) (ar_cost_policy a) (ar_requirement a)
                   (ar_saved a) (if broken then set_aside merged else map fst merged)
            else Inr (if broken then set_aside merged else map fst merged)) = Inr recs1"
    and c: "(if \<not> broken \<and> status_of (states Quality) = ''complete''
               \<and> status_of (states Correctness) = ''complete''
            then bindE ?cover (\<lambda>row. Inr (recs1 @ [row])) else Inr recs1) = Inr recs"
    unfolding final_evidence_def Let_def bindE_Inr_iff sum.inject prod.inject by blast
  from c have r2: "recs = recs1 \<or> (\<exists>row. recs = recs1 @ [row])"
    by (auto simp: bindE_Inr_iff split: if_splits)
  from assms(2) have "(x, st) \<in> set merged" by (simp add: merged_row[OF m])
  with assms(3) have "x \<in> set (if broken then set_aside merged else map fst merged)"
    by (force simp: set_aside_def)
  moreover have "cost_run.rn_profile (cost_view a r) = run.rn_profile r" by (simp add: cost_view_def)
  ultimately have "x \<in> set recs1" using r1 assms(4) replay_costs_keeps by (metis sum.inject(2))
  with r2 show ?thesis by auto
qed

lemma evaluation_keeps:
  assumes "evaluate_quality profile cases policy rows recs = Inr (records, ids, summ)"
  shows "set recs \<subseteq> set records \<and> set (pl_required_ids policy) \<subseteq> set ids
    \<and> profile_prefix profile @ ''2/improvement'' \<in> set ids"
  using evaluation_extends[OF assms] by auto

lemma decision_ids_keep:
  assumes "decision_ids a r required ids = Inr ids'"
  shows "set ids \<subseteq> set ids'
    \<and> (UnitTests \<in> set required \<longrightarrow> profile_prefix (run.rn_profile r) @ ''1/upstream'' \<in> set ids')
    \<and> (\<forall>panels n. ar_scope a \<noteq> None \<longrightarrow> required_cost_panels (cost_view a r) (ar_cases a) = Inr panels
          \<longrightarrow> n \<in> fst ` set panels \<longrightarrow> profile_prefix (run.rn_profile r) @ ''5/'' @ n \<in> set ids')"
proof -
  let ?pre = "profile_prefix (run.rn_profile r)"
  from assms obtain ids1 where i: "(if ar_scope a \<noteq> None
      then bindE (required_cost_panels (cost_view a r) (ar_cases a)) (\<lambda>panels.
                  Inr (sorted_set (ids @ map (\<lambda>(name, p). ?pre @ ''5/'' @ name) panels)))
      else Inr ids) = Inr ids1"
    and j: "ids' = (if UnitTests \<in> set required then sorted_set (ids1 @ [?pre @ ''1/upstream'']) else ids1)"
    unfolding decision_ids_def Let_def bindE_Inr_iff sum.inject by blast
  have "set ids \<subseteq> set ids1" using i by (auto simp: bindE_Inr_iff set_sorted_set split: if_splits)
  moreover have "set ids1 \<subseteq> set ids'" by (auto simp: j set_sorted_set)
  moreover have "?pre @ ''5/'' @ n \<in> set ids1" if "ar_scope a \<noteq> None"
      "required_cost_panels (cost_view a r) (ar_cases a) = Inr panels" "n \<in> fst ` set panels" for panels n
    using i that by (force simp: set_sorted_set)
  moreover have "UnitTests \<in> set required \<longrightarrow> ?pre @ ''1/upstream'' \<in> set ids'" by (simp add: j set_sorted_set)
  ultimately show ?thesis by blast
qed

lemma decision_status_Inr:
  assumes "decision_status recs ids session = Inr v" and "session \<in> {None, Some ''INCONCLUSIVE''}"
  shows "distinct (map cr_id recs)"
    and "v = ''ERROR'' \<longleftrightarrow> (\<exists>x\<in>set recs. cr_result x = ''failed'' \<and> cr_kind x = ''harness'')"
    and "v \<noteq> ''ERROR'' \<Longrightarrow> session = Some ''INCONCLUSIVE'' \<Longrightarrow> v = ''INCONCLUSIVE''"
    and "v = ''PASS'' \<Longrightarrow> session = None \<and> (\<forall>x\<in>set recs. cr_result x \<noteq> ''failed'') \<and> all_passed recs ids"
proof -
  from assms(1) obtain s where s: "verdict recs ids = Inr s"
    and v: "v = (case session of None \<Rightarrow> s | Some t \<Rightarrow> if s \<noteq> ''ERROR'' then t else s)"
    unfolding decision_status_def bindE_Inr_iff by blast
  from s have ok: "verdict_input_ok recs ids" and c: "s = classify_records recs ids"
    by (simp_all add: verdict_Inr_iff)
  from ok show d: "distinct (map cr_id recs)" by (simp add: verdict_input_ok_def)
  have "s = ''ERROR'' \<longleftrightarrow> failed_with recs (\<lambda>r. cr_kind r = ''harness'')"
    unfolding c classify_records_alt[OF d] by simp
  moreover have "v = ''ERROR'' \<longleftrightarrow> s = ''ERROR''"
    using assms(2) by (cases "s = ''ERROR''") (auto simp: v)
  ultimately show "v = ''ERROR'' \<longleftrightarrow> (\<exists>x\<in>set recs. cr_result x = ''failed'' \<and> cr_kind x = ''harness'')"
    by (simp add: failed_with_def)
  show "v = ''INCONCLUSIVE''" if "v \<noteq> ''ERROR''" "session = Some ''INCONCLUSIVE''"
    using that by (auto simp: v split: if_splits)
  show "session = None \<and> (\<forall>x\<in>set recs. cr_result x \<noteq> ''failed'') \<and> all_passed recs ids" if "v = ''PASS''"
  proof -
    have "session = None \<and> s = ''PASS''" using that assms(2) by (auto simp: v split: if_splits)
    then show ?thesis using classify_PASS_iff[OF ok] c by simp
  qed
qed

section \<open>What a decision says of the stages\<close>

text \<open>
  C5. A \<open>PASS\<close> of \<open>decide\<close> has every required stage behind it finished, no failed row in what the
  compile and correctness stages committed and no crash in any stage (cost panels are judged
  again from their bundles), and a passed record for every ID of the policy, for the improvement,
  for every cost panel the change requires and, once they started, for the upstream tests.
\<close>

theorem decide_pass_sound:
  assumes "decide_snapshot a s r (states, hashes, by_stage) = Inr d" and "dn_status d = ''PASS''"
  defines "prefix \<equiv> profile_prefix (run.rn_profile r)"
    and "passed \<equiv> \<lambda>i. \<exists>x\<in>set (dn_records d). cr_id x = i \<and> cr_result x \<in> {''passed'', ''passed_on_rerun''}"
  shows "\<exists>required. required_stages s r (ar_cases a) (ar_policy a) states = Inr required
    \<and> (\<forall>st\<in>set required. status_of (states st) \<in> {''complete'', ''skipped'', ''failed''})
    \<and> (\<forall>st. \<forall>x\<in>set (by_stage st). st \<in> {Compile, Correctness} \<or> cr_kind x = ''harness'' \<longrightarrow>
          \<not> cost_row (run.rn_profile r) x \<longrightarrow> cr_result x \<noteq> ''failed'')
    \<and> (\<forall>i\<in>set (pl_required_ids (ar_policy a)). passed i)
    \<and> passed (profile_prefix (ar_profile a) @ ''2/improvement'')
    \<and> (UnitTests \<in> set required \<longrightarrow> passed (prefix @ ''1/upstream''))
    \<and> (\<forall>panels n. ar_scope a \<noteq> None \<longrightarrow> required_cost_panels (cost_view a r) (ar_cases a) = Inr panels
          \<longrightarrow> n \<in> fst ` set panels \<longrightarrow> passed (prefix @ ''5/'' @ n))"
proof -
  obtain required broken rows recs ids0 summaries ids where
    p: "required_stages s r (ar_cases a) (ar_policy a) states = Inr required"
    "final_evidence a s r states by_stage = Inr (broken, rows, recs)"
    "evaluate_quality (ar_profile a) (ar_cases a) (ar_policy a) rows recs = Inr (dn_records d, ids0, summaries)"
    "decision_ids a r required ids0 = Inr ids"
    "decision_status (dn_records d) ids
       (if pending_stages states required = [] then None else Some ''INCONCLUSIVE'') = Inr ''PASS''"
    by (rule decide_snapshot_Inr[OF assms(1)]) (use assms(2) in simp)
  have some: "(if pending_stages states required = [] then None else Some ''INCONCLUSIVE'')
    \<in> {None, Some ''INCONCLUSIVE''}" by simp
  have v: "pending_stages states required = []" "\<forall>x\<in>set (dn_records d). cr_result x \<noteq> ''failed''"
    "all_passed (dn_records d) ids"
    using decision_status_Inr(4)[OF p(5) some refl] by (auto split: if_splits)
  have all: "passed i" if "i \<in> set ids" for i using v(3) that by (simp add: passed_def all_passed_def)
  note e = evaluation_keeps[OF p(3)] and k = decision_ids_keep[OF p(4), folded prefix_def]
  have fin: "\<forall>st\<in>set required. status_of (states st) \<in> {''complete'', ''skipped'', ''failed''}"
    using v(1) by (auto simp: pending_stages_def FINAL_def filter_empty_conv)
  have rows: "cr_result x \<noteq> ''failed''" if "x \<in> set (by_stage st)" "st \<in> {Compile, Correctness} \<or> cr_kind x = ''harness''"
      "\<not> cost_row (run.rn_profile r) x" for st x
  proof -
    have "x \<in> set recs" by (rule final_evidence_keeps[OF p(2) that(1) _ that(3)]) (use that(2) in blast)
    with e v(2) show ?thesis by blast
  qed
  show ?thesis
    using p(1) fin rows all e k by (intro exI[of _ required]) blast
qed

text \<open>
  C6. While a required stage is not started, running or noisy, \<open>decide\<close> answers \<open>INCONCLUSIVE\<close>, or
  \<open>ERROR\<close> exactly when a crash is on record, and claims nothing about the improvement.
\<close>

theorem decide_waits_for_stages:
  assumes "decide_snapshot a s r (states, hashes, by_stage) = Inr d"
    and "required_stages s r (ar_cases a) (ar_policy a) states = Inr required"
    and "st \<in> set required" and "status_of (states st) \<notin> {''complete'', ''skipped'', ''failed''}"
  shows "dn_status d = (if \<exists>x\<in>set (dn_records d). cr_result x = ''failed'' \<and> cr_kind x = ''harness''
      then ''ERROR'' else ''INCONCLUSIVE'') \<and> dn_improved d = None"
proof -
  obtain ids v where d: "decision_status (dn_records d) ids
       (if pending_stages states required = [] then None else Some ''INCONCLUSIVE'') = Inr v"
    "dn_status d = v" "dn_improved d = improved_under_constraints v"
    by (rule decide_snapshot_Inr[OF assms(1)]) (use assms(2) in simp)
  have "st \<in> set (pending_stages states required)"
    using assms(3,4) by (simp add: pending_stages_def FINAL_def)
  then have "pending_stages states required \<noteq> []" by force
  with d(1) have n: "decision_status (dn_records d) ids (Some ''INCONCLUSIVE'') = Inr v" by simp
  show ?thesis
    using decision_status_Inr(2,3)[OF n] d(2,3) by (auto simp: improved_under_constraints_def)
qed

text \<open>
  C7. A crash is never hidden: when a \<open>failed\<close> stage committed its \<open>harness/error\<close> record, every
  decision is \<open>ERROR\<close>, whatever the other stages found, also after a failed preflight and after
  the cost bundles are replayed.
\<close>

theorem decide_crash_is_error:
  assumes "decide_snapshot a s r (states, hashes, by_stage) = Inr d"
    and "x \<in> set (by_stage st)" and "cr_id x = ''harness/error/'' @ stage_name st"
    and "cr_kind x = ''harness''" and "cr_result x = ''failed''"
  shows "dn_status d = ''ERROR'' \<and> x \<in> set (dn_records d)"
proof -
  obtain required broken rows recs ids0 summaries ids v where
    p: "final_evidence a s r states by_stage = Inr (broken, rows, recs)"
    "evaluate_quality (ar_profile a) (ar_cases a) (ar_policy a) rows recs = Inr (dn_records d, ids0, summaries)"
    "decision_status (dn_records d) ids
       (if pending_stages states required = [] then None else Some ''INCONCLUSIVE'') = Inr v"
    "dn_status d = v"
    by (rule decide_snapshot_Inr[OF assms(1)])
  have "\<not> cost_row (run.rn_profile r) x" by (simp add: cost_row_def assms(3) profile_prefix_def)
  with final_evidence_keeps[OF p(1) assms(2)] assms(4) have "x \<in> set recs" by blast
  with evaluation_keeps[OF p(2)] have m: "x \<in> set (dn_records d)" by blast
  have "v = ''ERROR''"
    using decision_status_Inr(2)[OF p(3)] m assms(4,5) by (auto split: if_splits)
  with m p(4) show ?thesis by simp
qed

section \<open>A session that passes\<close>

definition demo_rows :: "observation list" where
  "demo_rows = [demo_obs ''a'' ''baseline'' 0 4, demo_obs ''a'' ''baseline'' 1 4,
     demo_obs ''a'' ''evolved'' 0 2, demo_obs ''a'' ''evolved'' 1 2]"

definition demo_rules :: policy where
  "demo_rules = (demo_policy [])\<lparr>pl_required_ids := [''IA2/improvement'']\<rparr>"

definition demo_kvs :: "(obs_key \<times> observation) list" where
  "demo_kvs = map (\<lambda>r. ((ob_case_id r, ob_revision r, ob_seed r), r)) demo_rows"

lemma demo_observed: "collect_observations demo_rows [] = Inr demo_kvs"
  by (simp add: demo_kvs_def demo_rows_def demo_obs_def Let_def)

lemma demo_metrics:
  "s < 2 \<Longrightarrow> obs_metric (table_of demo_kvs) ''a'' ''baseline'' s m = Some 4"
  "s < 2 \<Longrightarrow> obs_metric (table_of demo_kvs) ''a'' ''evolved'' s m = Some 2"
  by (auto simp: obs_metric_def table_of_def demo_kvs_def demo_rows_def demo_obs_def less_2_cases_iff)

lemma demo_case_sel: "case_id (demo_case i r w) = i" "role (demo_case i r w) = r"
  "seeds_per_block (demo_case i r w) = 2" "panel (demo_case i r w) = None"
  by (simp_all add: demo_case_def)

lemma demo_pair:
  assumes "w \<in> {None, Some [''a'' \<mapsto> 1]}"
  shows "\<exists>p. paired_panel [demo_case ''a'' ''scored'' 1] (table_of demo_kvs) m [0..<2] w = Inr p
    \<and> e_ln_score (p_estimate p) = ln 2 - ln 4 \<and> e_SE (p_estimate p) = 0 \<and> e_score (p_estimate p) = exp (ln 2 - ln 4)"
proof -
  let ?d = "ln 2 - ln 4 :: real"
  have w: "case_weights [demo_case ''a'' ''scored'' 1] w ''a'' = Some 1"
    using assms by (auto simp: case_weights_def dict_of_def demo_case_def)
  have "case_differences (table_of demo_kvs) m [0..<2] ''a'' = Inr (replicate 2 ?d)"
    using case_differences_const[of "[0..<2]" "table_of demo_kvs" m "''a''" ?d]
    by (simp add: paired_difference_Inr demo_metrics)
  moreover have "estimate (replicate 2 ?d) = Inr \<lparr>e_ln_score = ?d, e_score = exp ?d, e_SE = 0,
      e_ln_plus_2SE = ?d, e_deltas = replicate 2 ?d\<rparr>" by (simp add: estimate_def Let_def)
  moreover have "accumulate 1 (zip [1] [replicate 2 ?d]) (replicate 2 0) = replicate 2 ?d"
    using accumulate_const[of "[(1, replicate 2 ?d)]" 2 ?d 1 0] by simp
  ultimately show ?thesis
    by (simp add: paired_panel_def w lookupE_def case_estimate_def Let_def demo_case_sel)
qed

lemma demo_less: "exp (ln 2 - ln 4) * 20 \<le> (21 :: real)" "ln 2 - ln 4 < (0::real)"
proof -
  show "ln 2 - ln 4 < (0::real)" by simp
  then have "exp (ln 2 - ln 4) < exp (0::real)" by (simp only: exp_less_cancel_iff)
  then have "exp (ln 2 - ln 4) < (1::real)" by (simp only: exp_zero)
  then show "exp (ln 2 - ln 4) * 20 \<le> (21 :: real)" by linarith
qed


lemma decision_status_PASS:
  assumes "verdict_input_ok recs ids" and "\<forall>x\<in>set recs. cr_result x = ''passed''" and "set ids \<subseteq> cr_id ` set recs"
  shows "decision_status recs ids None = Inr ''PASS''"
proof -
  have "all_passed recs ids" using assms(2,3) by (fastforce simp: all_passed_def)
  with assms(2) classify_PASS_iff[OF assms(1)] have "classify_records recs ids = ''PASS''" by auto
  with assms(1) show ?thesis by (simp add: decision_status_def verdict_Inr_iff[THEN iffD2])
qed

definition demo_ids :: "string list" where
  "demo_ids = [''IA2/improvement'', ''IA3/primary/N2'', ''IA3/primary/D2'', ''IA4/cap/a/D2'', ''IA4/cap/a/N2'']"

lemma demo_graded:
  "\<exists>recs ids summ. (\<forall>kept. evaluate_quality ''iterations-profile'' [demo_case ''a'' ''scored'' 1] demo_rules
       demo_rows kept = Inr (kept @ recs, ids, summ))
     \<and> map cr_id recs = demo_ids \<and> (\<forall>x\<in>set recs. row_ok x \<and> cr_result x = ''passed'')
     \<and> (\<forall>x\<in>set recs. is_improvement_id (cr_id x) \<longrightarrow> cr_kind x = ''improvement'')
     \<and> set ids = set demo_ids \<and> distinct ids"
proof -
  have "\<forall>m. \<exists>p. paired_panel [demo_case ''a'' ''scored'' 1] (table_of demo_kvs) m [0..<2] None = Inr p
    \<and> e_ln_score (p_estimate p) = ln 2 - ln 4 \<and> e_SE (p_estimate p) = 0" using demo_pair[of None] by blast
  from choice[OF this] obtain p where p: "\<And>m. paired_panel [demo_case ''a'' ''scored'' 1] (table_of demo_kvs) m [0..<2] None = Inr (p m)"
    "\<And>m. e_ln_score (p_estimate (p m)) = ln 2 - ln 4" "\<And>m. e_SE (p_estimate (p m)) = 0" by blast
  have "\<forall>m. \<exists>q. paired_panel [demo_case ''a'' ''scored'' 1] (table_of demo_kvs) m [0..<2] (Some [''a'' \<mapsto> 1]) = Inr q
    \<and> e_score (p_estimate q) = exp (ln 2 - ln 4)" using demo_pair[of "Some [''a'' \<mapsto> 1]"] by blast
  from choice[OF this] obtain q where q: "\<And>m. paired_panel [demo_case ''a'' ''scored'' 1] (table_of demo_kvs) m [0..<2] (Some [''a'' \<mapsto> 1]) = Inr (q m)"
    "\<And>m. e_score (p_estimate (q m)) = exp (ln 2 - ln 4)" by blast
  note grade = demo_observed panel_record_def panel_step_def panel_decision_def Let_def basis_panels_def cap_step_def
    demo_case_sel p q demo_less demo_rules_def demo_policy_def panel_valid_def cap_id_def profile_prefix_def
    exact_step_def
  show ?thesis
    by (simp add: evaluate_quality_def grade)
      (simp add: demo_ids_def set_sorted_set distinct_sorted_set row_ok_def KINDS_def RESULTS_def
        is_improvement_id_def ends_with_def)
qed

definition demo_run_file :: run where
  "demo_run_file = \<lparr>rn_format = ''qtb-run/3'', run.rn_profile = ''iterations-profile'',
     rn_hashes = \<lparr>hs_coordinator = None, hs_implementation = None\<rparr>, rn_manifest = ''m'', rn_policy = ''p'',
     rn_builds = \<lparr>b_baseline = None, b_evolved = None\<rparr>, rn_store = None, rn_store_key = None,
     rn_sources = ([], []), rn_requirements = Map.empty, rn_amendments = []\<rparr>"

definition demo_measured :: session where
  "demo_measured = \<lparr>sn_run = Some demo_run_file, sn_state = (\<lambda>_. None), sn_evidence = (\<lambda>_. None),
     sn_invocations = (\<lambda>_. []), sn_clean = None, sn_obs = demo_rows, sn_decision = None, sn_files = []\<rparr>"

definition demo_archive :: "unit archive" where
  "demo_archive = \<lparr>ar_manifest_format = ''qtb-manifest/1'', ar_policy_format = ''qtb-policy/1'',
     ar_manifest_hash = ''m'', ar_policy_hash = ''p'', ar_profile = ''iterations-profile'',
     ar_cases = [demo_case ''a'' ''scored'' 1], ar_policy = demo_rules, ar_cost_policy = demo_cost_policy,
     ar_run_id = ''r'', ar_scope = None, ar_changed = None, ar_requirement = None, ar_validator = None,
     ar_saved = (\<lambda>_ _. None), ar_clifford = [],
     ar_extra = (\<lambda>_. \<lparr>sx_host = None, sx_seconds = None, sx_reused = []\<rparr>), ar_stored_baseline = None,
     ar_first_computed = (\<lambda>_ _. None), ar_bundle_modes = [], ar_amended_at = (\<lambda>_. []),
     ar_implementation = ''i''\<rparr>"

lemma demo_archive_sel [simp]:
  "archived_profile demo_archive demo_run_file = Inr ()" "ar_profile demo_archive = ''iterations-profile''"
  "ar_cases demo_archive = [demo_case ''a'' ''scored'' 1]" "ar_policy demo_archive = demo_rules"
  "ar_scope demo_archive = None" "run.rn_profile demo_run_file = ''iterations-profile''"
  by (simp_all add: archived_profile_def demo_archive_def demo_run_file_def)

text \<open>Compile and quality are complete; the gate and the correctness stage vary.\<close>

fun demo_stages :: "string option \<Rightarrow> string option \<Rightarrow> states" where
  "demo_stages g c Compile = Some (new_state ''complete'' 1)"
| "demo_stages g c Quality = Some ((new_state ''complete'' 1)\<lparr>ss_gate := g\<rparr>)"
| "demo_stages g c Correctness = map_option (\<lambda>status. new_state status 1) c"
| "demo_stages g c UnitTests = None"
| "demo_stages g c Cost = None"

definition demo_crash :: crec where
  "demo_crash = record_of ''harness/error/correctness'' ''harness'' ''failed'' ''evolved'' []"

fun demo_committed :: "string option \<Rightarrow> stage \<Rightarrow> crec list" where
  "demo_committed c Correctness = (if c = Some ''failed'' then [demo_crash] else [])"
| "demo_committed c st = []"

lemma demo_required:
  "c \<noteq> Some ''complete'' \<Longrightarrow> required_stages demo_measured demo_run_file [demo_case ''a'' ''scored'' 1] demo_rules
     (demo_stages g c) = Inr (if g \<in> {Some ''improved'', Some ''aa''} then [Compile, Quality, Correctness]
                              else [Compile, Quality])"
  by (cases c) (auto simp: required_stages_def gate_state_def status_of_def new_state_def)

lemma demo_final_evidence:
  "c \<noteq> Some ''complete'' \<Longrightarrow> final_evidence demo_archive demo_measured demo_run_file (demo_stages g c) (demo_committed c)
     = Inr (False, demo_rows, if c = Some ''failed'' then [demo_crash] else [])"
  by (cases c) (simp_all add: final_evidence_def merge_stages_def merge_row_def STAGE_ORDER_def preflight_failed_def
      status_of_def new_state_def demo_crash_def demo_measured_def Let_def)

definition demo_waiting :: "string option \<Rightarrow> string option \<Rightarrow> stage list" where
  "demo_waiting g c = pending_stages (demo_stages g c) (if g \<in> {Some ''improved'', Some ''aa''}
      then [Compile, Quality, Correctness] else [Compile, Quality])"

lemma demo_decision:
  fixes g c :: "string option"
  assumes "c \<noteq> Some ''complete''"
  shows "\<exists>d. decide_snapshot demo_archive demo_measured demo_run_file (demo_stages g c, \<lambda>_. None, demo_committed c) = Inr d
    \<and> dn_status d = (if c = Some ''failed'' then ''ERROR'' else if demo_waiting g c = [] then ''PASS'' else ''INCONCLUSIVE'')"
proof -
  let ?kept = "if c = Some ''failed'' then [demo_crash] else []"
  obtain recs ids summ where e: "\<And>kept. evaluate_quality ''iterations-profile'' [demo_case ''a'' ''scored'' 1] demo_rules
       demo_rows kept = Inr (kept @ recs, ids, summ)"
    and r: "map cr_id recs = demo_ids" "\<forall>x\<in>set recs. row_ok x \<and> cr_result x = ''passed''"
      "\<forall>x\<in>set recs. is_improvement_id (cr_id x) \<longrightarrow> cr_kind x = ''improvement''"
      "set ids = set demo_ids" "distinct ids" using demo_graded by blast
  have n: "set demo_ids \<subseteq> cr_id ` set recs" "distinct (map cr_id recs)" using r(1) by (simp_all add: demo_ids_def flip: set_map)
  have ok: "verdict_input_ok (?kept @ recs) ids"
  proof -
    have "''harness/error/correctness'' \<notin> cr_id ` set recs" using r(1) by (simp add: demo_ids_def flip: set_map)
    then have "distinct (map cr_id (?kept @ recs))" using n(2) by (simp add: demo_crash_def)
    moreover have "row_ok demo_crash" "\<not> is_improvement_id (cr_id demo_crash)"
      by (simp_all add: demo_crash_def row_ok_def KINDS_def RESULTS_def is_improvement_id_def ends_with_def)
    moreover have "''IA2/improvement'' \<in> set ids" unfolding r(4) by (simp add: demo_ids_def)
    moreover from this have "ids \<noteq> []" by (cases ids) simp_all
    moreover have "is_improvement_id ''IA2/improvement''" by (simp add: is_improvement_id_def ends_with_def)
    ultimately show ?thesis
      unfolding verdict_input_ok_def using r(2,3,5) by (intro conjI) (blast | simp)+
  qed
  let ?session = "if demo_waiting g c = [] then None else Some ''INCONCLUSIVE''"
  have v: "decision_status (?kept @ recs) ids ?session = Inr (if c = Some ''failed'' then ''ERROR''
      else if demo_waiting g c = [] then ''PASS'' else ''INCONCLUSIVE'')"
  proof (cases "c = Some ''failed''")
    case True
    have "classify_records (?kept @ recs) ids = ''ERROR''"
      using ok True by (subst classify_records_alt) (auto simp: verdict_input_ok_def failed_with_def demo_crash_def)
    with ok True show ?thesis by (simp add: decision_status_def verdict_Inr_iff[THEN iffD2])
  next
    case False
    have "classify_records recs ids = ''PASS''"
      using ok False r(2,4) n classify_PASS_iff[of recs ids] by (force simp: all_passed_def)
    with ok False show ?thesis by (simp add: decision_status_def verdict_Inr_iff[THEN iffD2])
  qed
  let ?required = "if g \<in> {Some ''improved'', Some ''aa''} then [Compile, Quality, Correctness] else [Compile, Quality]"
  have u: "UnitTests \<notin> set ?required" by simp
  have z: "zero_baseline_deltas [demo_case ''a'' ''scored'' 1] demo_rows = Inr (Unavailable ''No zero-baseline cases'')"
    by (simp add: zero_baseline_deltas_def demo_case_sel)
  have "\<exists>m. make_decision ''iterations-profile'' (?kept @ recs) ids summ demo_rows [demo_case ''a'' ''scored'' 1] ?session = Inr m
    \<and> dn_status m = (if c = Some ''failed'' then ''ERROR'' else if demo_waiting g c = [] then ''PASS'' else ''INCONCLUSIVE'')"
    by (simp only: make_decision_def v z bindE.simps Let_def) simp
  then obtain m where m: "make_decision ''iterations-profile'' (?kept @ recs) ids summ demo_rows
      [demo_case ''a'' ''scored'' 1] ?session = Inr m"
    "dn_status m = (if c = Some ''failed'' then ''ERROR'' else if demo_waiting g c = [] then ''PASS'' else ''INCONCLUSIVE'')"
    by blast
  show ?thesis
    unfolding decide_snapshot_def prod.case demo_archive_sel bindE.simps demo_required[OF assms(1)]
      demo_final_evidence[OF assms(1)] e decision_ids_def Let_def if_not_P[OF u] demo_waiting_def
    by (simp add: m(1)[unfolded demo_waiting_def] m(2)[unfolded demo_waiting_def] decision.extend_def stage_decision.fields_def
      del: insert_iff split del: if_split)
qed

section \<open>Witnesses\<close>

theorem decide_pass_sound_witness:
  "\<exists>d. decide_snapshot demo_archive demo_measured demo_run_file
       (demo_stages None None, \<lambda>_. None, demo_committed None) = Inr d \<and> dn_status d = ''PASS''
     \<and> (\<exists>x\<in>set (dn_records d). cr_id x = ''IA2/improvement'' \<and> cr_result x \<in> {''passed'', ''passed_on_rerun''})"
proof -
  obtain d where d: "decide_snapshot demo_archive demo_measured demo_run_file
       (demo_stages None None, \<lambda>_. None, demo_committed None) = Inr d" "dn_status d = ''PASS''"
    using demo_decision[of None None]
    by (auto simp: demo_waiting_def pending_stages_def status_of_def new_state_def FINAL_def)
  from decide_pass_sound[OF d] have "\<forall>i\<in>set (pl_required_ids demo_rules). \<exists>x\<in>set (dn_records d).
      cr_id x = i \<and> cr_result x \<in> {''passed'', ''passed_on_rerun''}" unfolding demo_archive_sel by blast
  with d show ?thesis by (auto simp: demo_rules_def)
qed

theorem decide_waits_for_stages_witness:
  "\<exists>d. decide_snapshot demo_archive demo_measured demo_run_file
       (demo_stages (Some ''improved'') (Some ''noisy''), \<lambda>_. None, demo_committed (Some ''noisy'')) = Inr d
     \<and> dn_status d \<in> {''ERROR'', ''INCONCLUSIVE''} \<and> dn_improved d = None"
proof -
  let ?states = "demo_stages (Some ''improved'') (Some ''noisy'')"
  obtain d where d: "decide_snapshot demo_archive demo_measured demo_run_file
       (?states, \<lambda>_. None, demo_committed (Some ''noisy'')) = Inr d"
    using demo_decision[of "Some ''noisy''" "Some ''improved''"] by auto
  have "required_stages demo_measured demo_run_file (ar_cases demo_archive) (ar_policy demo_archive) ?states
      = Inr [Compile, Quality, Correctness]"
    using demo_required[of "Some ''noisy''" "Some ''improved''"] by simp
  from decide_waits_for_stages[OF d this, of Correctness] d show ?thesis
    by (simp add: status_of_def new_state_def split: if_splits)
qed

theorem decide_crash_is_error_witness:
  "\<exists>d. decide_snapshot demo_archive demo_measured demo_run_file
       (demo_stages (Some ''improved'') (Some ''failed''), \<lambda>_. None, demo_committed (Some ''failed'')) = Inr d
     \<and> dn_status d = ''ERROR'' \<and> demo_crash \<in> set (dn_records d)"
proof -
  obtain d where d: "decide_snapshot demo_archive demo_measured demo_run_file
       (demo_stages (Some ''improved'') (Some ''failed''), \<lambda>_. None, demo_committed (Some ''failed'')) = Inr d"
    using demo_decision[of "Some ''failed''" "Some ''improved''"] by auto
  from decide_crash_is_error[OF d, of demo_crash Correctness] d show ?thesis by (simp add: demo_crash_def)
qed

text \<open>A view of a directory where the correctness stage fails while the snapshot is being taken.\<close>

definition demo_view :: "nat \<Rightarrow> stage_files" where
  "demo_view t = \<lparr>sf_state = (\<lambda>st. if st = Compile then Some ''complete''
       else if st = Correctness then Some (if t < 7 then ''running'' else ''failed'') else None),
     sf_evidence = (\<lambda>_. Some [])\<rparr>"

definition demo_loads :: "string \<Rightarrow> stage_state res" where
  "demo_loads b = Inr (new_state b 1)"

lemma demo_view_quiet: "\<forall>u\<ge>7. sf_state (demo_view u) = sf_state (demo_view 7)"
  by (simp add: demo_view_def)

theorem snapshot_returns_witness: "\<exists>r. snapshot demo_loads (\<lambda>b. b) demo_view 0 = Some r"
  using snapshot_returns[OF demo_view_quiet] .

lemma demo_snapshot: "\<exists>snap. snapshot demo_loads (\<lambda>b. b) demo_view 0 = Some (Inr snap)"
  by (simp add: snapshot.simps snapshot_turn_def demo_view_def demo_loads_def STAGE_ORDER_def load_state_def Let_def)

theorem snapshot_consistent_witness:
  "\<exists>snap u. snapshot demo_loads (\<lambda>b. b) demo_view 0 = Some (Inr snap) \<and> held_at demo_loads (\<lambda>b. b) (demo_view u) snap"
proof -
  obtain snap where s: "snapshot demo_loads (\<lambda>b. b) demo_view 0 = Some (Inr snap)" using demo_snapshot by blast
  have "never_back demo_view (\<lambda>b. b)" by (auto simp: never_back_def demo_view_def)
  moreover have "settled_evidence demo_view demo_loads" by (simp add: settled_evidence_def demo_view_def)
  ultimately show ?thesis using snapshot_consistent[OF s] s by blast
qed

end
