(* ===== verification/Allocation.thy ===== *)
theory Allocation
  imports Text
begin

text \<open>
  The allocation a job runs in: \<open>src/lsf/context.py\<close>. A CPU list, the slots of the hosts and the
  checks of an allocation are modelled on the texts of the \<open>LSB_*\<close> variables; the regular
  expressions of \<open>selectors\<close> and the affinity file are inputs. A value of a selector is a number
  or a text.
\<close>

section \<open>CPU lists\<close>

definition partition_at :: "char \<Rightarrow> string \<Rightarrow> string \<times> string" where
  "partition_at c s = (takeWhile (\<lambda>d. d \<noteq> c) s, drop 1 (dropWhile (\<lambda>d. d \<noteq> c) s))"

fun split_at :: "char \<Rightarrow> string \<Rightarrow> string list" where
  "split_at c [] = [[]]"
| "split_at c (d # s) =
     (if d = c then [] # split_at c s
      else case split_at c s of [] \<Rightarrow> [[d]] | w # ws \<Rightarrow> (d # w) # ws)"

text \<open>
  \<open>int(text)\<close> of an unsigned number, as CPU lists hold them; the empty text, a sign or any other
  character is the \<open>ValueError\<close>.
\<close>

definition int_of :: "string \<Rightarrow> nat option" where
  "int_of s = (if s \<noteq> [] \<and> list_all is_digit s then Some (nat_of_digits s) else None)"

definition cpu_range :: "string \<Rightarrow> nat list option" where
  "cpu_range part =
     (let (low, high) = partition_at (CHR ''-'') part in
      case (int_of low, int_of (if high = [] then low else high)) of
        (Some a, Some b) \<Rightarrow> if b < a then None else Some [a..<b + 1]
      | _ \<Rightarrow> None)"

fun cpu_parts :: "string list \<Rightarrow> nat list \<Rightarrow> nat list option" where
  "cpu_parts [] cpus = Some cpus"
| "cpu_parts (p # ps) cpus =
     (if strip p = [] then cpu_parts ps cpus
      else case cpu_range (strip p) of None \<Rightarrow> None | Some r \<Rightarrow> cpu_parts ps (cpus @ r))"

definition parse_cpu_list :: "string option \<Rightarrow> nat list option" where
  "parse_cpu_list s =
     (let text1 = map (\<lambda>c. if c = CHR '' '' then CHR '','' else c) (case s of None \<Rightarrow> [] | Some t \<Rightarrow> t) in
      case cpu_parts (split_at (CHR '','') text1) [] of
        None \<Rightarrow> None
      | Some [] \<Rightarrow> None
      | Some cpus \<Rightarrow> Some (sorted_set cpus))"

section \<open>The hosts\<close>

text \<open>\<open>str.split()\<close>: the words between runs of white space.\<close>

fun words_of :: "string \<Rightarrow> string \<Rightarrow> string list" where
  "words_of [] w = (if w = [] then [] else [w])"
| "words_of (c # s) w =
     (if is_space c then (if w = [] then words_of s [] else w # words_of s [])
      else words_of s (w @ [c]))"

fun pairs_of :: "string list \<Rightarrow> (string \<times> string) list" where
  "pairs_of (a # b # ws) = (a, b) # pairs_of ws"
| "pairs_of ws = []"

fun put_slot :: "string \<Rightarrow> nat \<Rightarrow> (string \<times> nat) list \<Rightarrow> (string \<times> nat) list" where
  "put_slot h n [] = [(h, n)]"
| "put_slot h n ((k, v) # r) = (if k = h then (k, n) # r else (k, v) # put_slot h n r)"

definition slots_of :: "string \<Rightarrow> (string \<times> nat) list \<Rightarrow> nat" where
  "slots_of h d = (case map_of d h of None \<Rightarrow> 0 | Some n \<Rightarrow> n)"

definition host_slots :: "string \<Rightarrow> string \<Rightarrow> (string \<times> nat) list" where
  "host_slots mcpu hosts =
     (let ws = words_of mcpu [] in
      if ws \<noteq> [] \<and> even (length ws) \<and> list_all (\<lambda>(h, n). int_of n \<noteq> None) (pairs_of ws)
      then foldl (\<lambda>d (h, n). put_slot h (nat_of_digits n) d) [] (pairs_of ws)
      else foldl (\<lambda>d h. put_slot h (slots_of h d + 1) d) [] (words_of hosts []))"

definition short_host :: "string \<Rightarrow> string" where
  "short_host h = takeWhile (\<lambda>c. c \<noteq> CHR ''.'') h"

section \<open>The allocation of a job\<close>

datatype tval = TNum nat | TStr string

type_synonym tier = "(string \<times> tval option) list"

record allocation =
  al_scheduler :: "string option"
  al_host :: string
  al_hosts :: "(string \<times> nat) list"
  al_slots :: "nat option"
  al_request :: "string option"
  al_exclusive :: bool
  al_single_host :: bool
  al_selectors :: "(string \<times> tval) list"
  al_bind_cpus :: "nat list option"
  al_file_cpus :: "nat list option"

text \<open>\<open>from_environment\<close>: the variables, the host, its affinity file and the parsed selectors.\<close>

definition from_environment ::
    "(string \<rightharpoonup> string) \<Rightarrow> string \<Rightarrow> (string \<times> tval) list \<Rightarrow> nat list option \<Rightarrow> allocation" where
  "from_environment environ host selected file_cpus =
     (let get = (\<lambda>k. case environ k of None \<Rightarrow> [] | Some v \<Rightarrow> v);
          request = (if get ''LSB_EFFECTIVE_RSRCREQ'' \<noteq> [] then get ''LSB_EFFECTIVE_RSRCREQ''
                     else get ''LSB_SUB_RES_REQ'');
          compact = filter (\<lambda>c. \<not> is_space c) request in
      \<lparr>al_scheduler = (if get ''LSB_JOBID'' \<noteq> [] then Some ''lsf'' else None), al_host = host,
       al_hosts = host_slots (get ''LSB_MCPU_HOSTS'') (get ''LSB_HOSTS''),
       al_slots = int_of (get ''LSB_DJOB_NUMPROC''),
       al_request = (if request = [] then None else Some request),
       al_exclusive = contains_str compact ''affinity[core(1,exclusive=(core,alljobs))'',
       al_single_host = contains_str compact ''span[hosts=1]'',
       al_selectors = selected, al_bind_cpus = parse_cpu_list (environ ''LSB_BIND_CPU_LIST''),
       al_file_cpus = file_cpus\<rparr>)"

definition tier_problems :: "tier \<Rightarrow> (string \<times> tval) list \<Rightarrow> string \<Rightarrow> string list" where
  "tier_problems tier selected what =
     map (\<lambda>(n, v). what @ n)
       (filter (\<lambda>(n, v). v \<noteq> None \<and> map_of selected n \<noteq> v) tier)"

definition host_problems :: "allocation \<Rightarrow> string list" where
  "host_problems a =
     (case al_hosts a of
        [(h, n)] \<Rightarrow> if short_host h \<noteq> short_host (al_host a)
                   then [''this process does not run on the allocated host''] else []
      | _ \<Rightarrow> [''the allocation does not span exactly one host''])"

definition allocation_problems :: "allocation \<Rightarrow> nat \<Rightarrow> bool \<Rightarrow> tier \<Rightarrow> string list" where
  "allocation_problems a slots exclusive_cores tier =
     (if al_scheduler a \<noteq> Some ''lsf''
      then [''not running inside an LSF job (LSB_JOBID is not set)'']
      else
       (if al_slots a \<noteq> Some slots then [''LSF did not grant the slots the job needs''] else [])
       @ host_problems a
       @ (if \<not> exclusive_cores then []
          else (if al_request a = None \<or> al_request a = Some []
                then [''the job's resource request is unavailable, so exclusivity is unproven'']
                else (if \<not> al_exclusive a then [''the job did not request exclusive cores''] else [])
                     @ (if \<not> al_single_host a then [''the job did not request span[hosts=1]''] else []))
               @ tier_problems tier (al_selectors a)
                   ''the request does not select the approved hardware tier ''))"

end
