(* ===== verification/Monitor.thy ===== *)
theory Monitor
  imports Complex_Main Allocation
begin

text \<open>
  The cost monitor \<open>src/lsf/cost_monitor.py\<close>: check A with its thresholds, the choice of cores,
  the preflight with its idle probe, and the lifecycle hooks of one worker process
  (\<open>WorkerHooks\<close>), which cut its life into windows and judge each. A reading of the counters is
  an input of the hook that takes it. Counters and times are reals; a field of recorded evidence
  that may be absent is an option, so that the validator can read the same records
  (theory \<open>CostEvidence\<close>). Logging and the diagnostics files are left out.
\<close>

section \<open>Thresholds and check A\<close>

record thresholds =
  th_window :: real
  th_idle :: real
  th_fraction :: real
  th_floor :: real

definition THRESHOLDS :: thresholds where
  "THRESHOLDS = \<lparr>th_window = 2, th_idle = 2, th_fraction = 15 / 100, th_floor = 3 / 100\<rparr>"

definition COST_SLOTS :: nat where "COST_SLOTS = 9"

definition CONTRACT :: string where "CONTRACT = ''qtb-lsf-monitor/3''"

definition EVIDENCE_FORMAT :: string where "EVIDENCE_FORMAT = ''qtb-lsf-monitor-evidence/1''"

definition LAYOUT :: string where "LAYOUT = ''monitor=core0,worker=core1,reserved=core2-8''"

definition check_a :: "real \<Rightarrow> real \<Rightarrow> thresholds \<Rightarrow> bool \<times> real" where
  "check_a foreign seconds th =
     (let limit = max (th_fraction th * seconds) (th_floor th) in (foreign \<le> limit, limit))"

record window =
  w_index :: nat
  w_start :: "real option"
  w_end :: "real option"
  w_seconds :: "real option"
  w_busy :: "real option"
  w_cpu :: "real option"
  w_foreign :: "real option"
  w_final :: bool
  w_measurement :: "nat option"

definition decisive :: "window \<Rightarrow> bool" where
  "decisive w = (w_measurement w \<noteq> None)"

text \<open>The reasons a window fails; a window without its counters is the \<open>KeyError\<close>.\<close>

definition judge_window :: "window \<Rightarrow> thresholds \<Rightarrow> string list res" where
  "judge_window w th =
     (case (w_seconds w, w_foreign w) of
        (Some seconds, Some foreign) \<Rightarrow>
          Inr (if fst (check_a foreign seconds th) then [] else [''A: foreign CPU''])
      | _ \<Rightarrow> Inl KeyError)"

section \<open>The record of a worker process\<close>

record wrecord =
  wc_job :: string
  wc_process :: nat
  wc_aborted :: bool
  wc_cpus :: "nat list"
  wc_launched :: "real option"
  wc_exited :: "real option"
  wc_returncode :: "int option"
  wc_windows :: "window list"
  wc_measurements :: "(real option \<times> real option) list"

text \<open>
  One reading: the time, the busy seconds of the worker core, the CPU seconds of the worker and
  its live descendants, and the entries completed so far.
\<close>

record sample =
  sm_time :: real
  sm_busy :: real
  sm_cpu :: "(nat \<times> real) list"

record hooks =
  hk_pid :: nat
  hk_record :: wrecord
  hk_window :: sample
  hk_final :: "window option"
  hk_aborted :: bool
  hk_measuring :: "nat option"

definition monitor_failure :: "string \<Rightarrow> exn" where
  "monitor_failure m = HarnessError m"

section \<open>Placement\<close>

text \<open>\<open>_verify\<close>: the masks of the threads that could be read, descendants first.\<close>

definition verify_masks :: "(nat \<times> nat list option) list \<Rightarrow> nat list \<Rightarrow> exn \<Rightarrow> unit res" where
  "verify_masks tasks cpus problem =
     foldE (\<lambda>(tid, mask) _. case mask of
              None \<Rightarrow> Inr ()
            | Some m \<Rightarrow> guardE (set m = set cpus) problem) tasks ()"

text \<open>\<open>_layout\<close>: \<open>siblings\<close> is the topology of the host, \<open>None\<close> when it cannot be read.\<close>

record core_layout =
  ly_name :: string
  ly_mask :: "nat list"
  ly_monitor :: "nat list"
  ly_worker :: "nat list"
  ly_reserved :: "nat list list"

definition core_of :: "(nat \<Rightarrow> nat list option) \<Rightarrow> nat \<Rightarrow> nat list res" where
  "core_of siblings cpu =
     (case siblings cpu of
        None \<Rightarrow> Inl (Precondition ''the topology of a CPU is unreadable'')
      | Some s \<Rightarrow> if s = [] \<or> cpu \<notin> set s
                  then Inl (Precondition ''the topology of a CPU is unreadable'') else Inr s)"

definition granted_ok :: "nat list option \<Rightarrow> nat list \<Rightarrow> bool" where
  "granted_ok granted ours = (case granted of None \<Rightarrow> True | Some g \<Rightarrow> g = [] \<or> set g = set ours)"

definition choose_layout ::
    "nat list \<Rightarrow> nat list \<Rightarrow> (nat \<Rightarrow> nat list option) \<Rightarrow> allocation \<Rightarrow> core_layout res" where
  "choose_layout affinity online siblings a =
     (let ours = sorted_set affinity in
      if online \<noteq> [] \<and> set online \<subseteq> set ours
      then Inl (Precondition ''not bound: the CPU mask is every CPU of the host'')
      else bindE (mapE (core_of siblings) ours) (\<lambda>all_cores.
        let cores = first_distinct all_cores in
        bindE (guardE (list_all (\<lambda>c. set c \<subseteq> set ours) cores)
          (Precondition ''the CPU mask holds only part of the physical cores'')) (\<lambda>_.
        bindE (guardE (length cores = COST_SLOTS)
          (Precondition ''the CPU mask does not cover the exclusive cores of the allocation'')) (\<lambda>_.
        bindE (guardE (granted_ok (al_bind_cpus a) ours \<and> granted_ok (al_file_cpus a) ours)
          (Precondition ''the CPU mask differs from LSF's'')) (\<lambda>_.
        let ordered = sort_key (\<lambda>c. Min (set c)) cores in
        Inr \<lparr>ly_name = LAYOUT, ly_mask = ours, ly_monitor = ordered ! 0, ly_worker = ordered ! 1,
             ly_reserved = drop 2 ordered\<rparr>)))))"

section \<open>The idle probe and the preflight\<close>

record idle =
  id_seconds :: "real option"
  id_foreign :: "real option"

definition idle_probe :: "sample \<Rightarrow> sample \<Rightarrow> thresholds \<Rightarrow> (idle \<times> bool) res" where
  "idle_probe before after th =
     (let foreign = sm_busy after - sm_busy before; seconds = sm_time after - sm_time before in
      if seconds \<le> 0 \<or> foreign < 0
      then Inl (monitor_failure ''the idle probe read invalid counters'')
      else Inr (\<lparr>id_seconds = Some seconds, id_foreign = Some foreign\<rparr>, fst (check_a foreign seconds th)))"

text \<open>
  \<open>prepare\<close> after the requirement check: the problems of the allocation and of the probe, then
  layout, machine and pinning (each a \<open>Precondition\<close>), then the idle probe. \<open>machine\<close> is the
  number of physical cores read, \<open>pinned\<close> what verifying the coordinator's threads answers.
\<close>

record probe =
  pb_unavailable :: "string option"
  pb_affinity :: "nat list"
  pb_online :: "nat list"
  pb_siblings :: "nat \<Rightarrow> nat list option"
  pb_tasks :: "(nat \<times> nat list option) list"
  pb_before :: sample
  pb_after :: sample

definition physical_cores :: "probe \<Rightarrow> nat" where
  "physical_cores p =
     card (set (concat (map (\<lambda>cpu. case pb_siblings p cpu of
        None \<Rightarrow> [] | Some s \<Rightarrow> if s = [] then [] else [s]) (pb_online p))))"

definition place :: "probe \<Rightarrow> allocation \<Rightarrow> nat option \<Rightarrow> core_layout res" where
  "place p a wanted =
     bindE (choose_layout (pb_affinity p) (pb_online p) (pb_siblings p) a) (\<lambda>ly.
     bindE (guardE (wanted = None \<or> wanted = Some (physical_cores p))
       (Precondition ''the host is not of the approved hardware tier'')) (\<lambda>_.
     bindE (verify_masks (pb_tasks p) (ly_monitor ly)
       (Precondition ''a coordinator thread runs outside the monitor core'')) (\<lambda>_. Inr ly)))"

definition prepare_monitor ::
    "thresholds \<Rightarrow> tier \<Rightarrow> nat option \<Rightarrow> string list \<Rightarrow> allocation \<Rightarrow> probe \<Rightarrow> (core_layout \<times> idle) res" where
  "prepare_monitor th tier wanted requirement_problems a p =
     bindE (guardE (requirement_problems = [])
       (Precondition ''This monitor cannot produce the session's cost evidence'')) (\<lambda>_.
     let problems = allocation_problems a COST_SLOTS True tier
           @ (case pb_unavailable p of None \<Rightarrow> [] | Some m \<Rightarrow> [m]) in
     bindE (if problems = [] then place p a wanted
            else Inl (Precondition ''Monitored cost cannot run in this allocation'')) (\<lambda>ly.
     bindE (idle_probe (pb_before p) (pb_after p) th) (\<lambda>(i, clean).
       if clean then Inr (ly, i) else Inl (Contaminated ''idle probe: foreign CPU on the worker core''))))"

section \<open>The hooks of one worker process\<close>

definition launch :: "string \<Rightarrow> nat \<Rightarrow> nat \<Rightarrow> nat list \<Rightarrow> sample \<Rightarrow> hooks" where
  "launch label process pid cpus s =
     \<lparr>hk_pid = pid,
      hk_record = \<lparr>wc_job = label, wc_process = process, wc_aborted = False, wc_cpus = cpus,
        wc_launched = Some (sm_time s), wc_exited = None, wc_returncode = None, wc_windows = [],
        wc_measurements = []\<rparr>,
      hk_window = s, hk_final = None, hk_aborted = False, hk_measuring = None\<rparr>"

definition cpu_at :: "(nat \<times> real) list \<Rightarrow> nat \<Rightarrow> real" where
  "cpu_at d pid = (case map_of d pid of None \<Rightarrow> 0 | Some v \<Rightarrow> v)"

text \<open>\<open>_close\<close>: a descendant that disappeared was reaped into its parent's time.\<close>

definition cpu_delta :: "nat \<Rightarrow> (nat \<times> real) list \<Rightarrow> (nat \<times> real) list \<Rightarrow> real" where
  "cpu_delta own before after =
     sum_list (map (\<lambda>(pid, v). v - cpu_at before pid) after)
     - sum_list (map snd (filter (\<lambda>(pid, v). pid \<notin> fst ` set after \<and> pid \<noteq> own) before))"

definition close_window :: "hooks \<Rightarrow> sample \<Rightarrow> bool \<Rightarrow> (hooks \<times> window) res" where
  "close_window h e final =
     (let s = hk_window h; seconds = sm_time e - sm_time s; busy = sm_busy e - sm_busy s;
          cpu = cpu_delta (hk_pid h) (sm_cpu s) (sm_cpu e) in
      if seconds \<le> 0 then Inl (monitor_failure ''invalid monitor window'')
      else if busy < 0 \<or> cpu_at (sm_cpu e) (hk_pid h) < cpu_at (sm_cpu s) (hk_pid h)
      then Inl (monitor_failure ''a monitor counter went backwards'')
      else let cpu = max cpu 0 in
        Inr (h\<lparr>hk_window := e\<rparr>,
             \<lparr>w_index = length (wc_windows (hk_record h)), w_start = Some (sm_time s),
              w_end = Some (sm_time e), w_seconds = Some seconds, w_busy = Some busy,
              w_cpu = Some cpu, w_foreign = Some (busy - cpu), w_final = final,
              w_measurement = hk_measuring h\<rparr>))"

text \<open>\<open>_judge\<close>: the window is recorded; a failed decisive one aborts the measurement.\<close>

definition record_window :: "thresholds \<Rightarrow> hooks \<Rightarrow> window \<Rightarrow> (hooks \<times> bool) res" where
  "record_window th h w =
     bindE (judge_window w th) (\<lambda>reasons.
       let r = hk_record h; r = r\<lparr>wc_windows := wc_windows r @ [w]\<rparr> in
       if reasons = [] \<or> \<not> decisive w then Inr (h\<lparr>hk_record := r\<rparr>, False)
       else Inr (h\<lparr>hk_aborted := True, hk_record := r\<lparr>wc_aborted := True\<rparr>\<rparr>, True))"

definition cut :: "thresholds \<Rightarrow> hooks \<Rightarrow> sample \<Rightarrow> (hooks \<times> bool) res" where
  "cut th h s = bindE (close_window h s False) (\<lambda>(h, w). record_window th h w)"

text \<open>\<open>measurement\<close>: \<open>begins\<close> says whether the worker's byte is \<open>B\<close>; \<open>E\<close> otherwise.\<close>

definition set_end :: "(real option \<times> real option) list \<Rightarrow> nat \<Rightarrow> real \<Rightarrow> (real option \<times> real option) list" where
  "set_end ms i t = ms[i := (fst (ms ! i), Some t)]"

definition boundary :: "thresholds \<Rightarrow> hooks \<Rightarrow> bool \<Rightarrow> unit res \<Rightarrow> sample \<Rightarrow> (hooks \<times> bool) res" where
  "boundary th h begins verified s =
     (if begins \<noteq> (hk_measuring h = None)
      then Inl (monitor_failure ''invalid measurement boundary'')
      else bindE verified (\<lambda>_.
        bindE (if sm_time (hk_window h) < sm_time s then cut th h s else Inr (h, False)) (\<lambda>(h, problem).
        if problem then Inr (h, True)
        else let r = hk_record h in
          (case hk_measuring h of
             None \<Rightarrow> Inr (h\<lparr>hk_measuring := Some (length (wc_measurements r)),
                hk_record := r\<lparr>wc_measurements := wc_measurements r @ [(Some (sm_time s), None)]\<rparr>\<rparr>, False)
           | Some i \<Rightarrow> Inr (h\<lparr>hk_measuring := None,
                hk_record := r\<lparr>wc_measurements := set_end (wc_measurements r) i (sm_time s)\<rparr>\<rparr>, False)))))"

definition on_progress :: "thresholds \<Rightarrow> hooks \<Rightarrow> unit res \<Rightarrow> sample \<Rightarrow> (hooks \<times> bool) res" where
  "on_progress th h verified s =
     (if sm_time s - sm_time (hk_window h) < th_window th then Inr (h, False)
      else bindE verified (\<lambda>_. cut th h s))"

definition on_exited :: "hooks \<Rightarrow> sample \<Rightarrow> hooks res" where
  "on_exited h s = bindE (close_window h s True) (\<lambda>(h, w). Inr (h\<lparr>hk_final := Some w\<rparr>))"

definition on_reaped :: "thresholds \<Rightarrow> hooks \<Rightarrow> real \<Rightarrow> int \<Rightarrow> (hooks \<times> bool) res" where
  "on_reaped th h now returncode =
     (let r = (hk_record h)\<lparr>wc_exited := Some now, wc_returncode := Some returncode\<rparr>;
          h = h\<lparr>hk_record := r\<rparr> in
      if hk_aborted h then Inr (h, False)
      else case hk_final h of
        None \<Rightarrow> Inl (monitor_failure ''no final monitor window'')
      | Some w \<Rightarrow> record_window th (h\<lparr>hk_record := r\<lparr>wc_exited := w_end w\<rparr>\<rparr>) w)"

text \<open>What happens between launch and exit: a progress poll or a boundary byte, with its reading.\<close>

datatype hook_event =
    Progress "unit res" sample
  | Boundary bool "unit res" sample

fun on_event :: "thresholds \<Rightarrow> hooks \<Rightarrow> hook_event \<Rightarrow> (hooks \<times> bool) res" where
  "on_event th h (Progress verified s) = on_progress th h verified s"
| "on_event th h (Boundary begins verified s) = boundary th h begins verified s"

text \<open>The events of a process up to the first one that aborts the measurement.\<close>

fun run_events :: "thresholds \<Rightarrow> hooks \<Rightarrow> hook_event list \<Rightarrow> (hooks \<times> bool) res" where
  "run_events th h [] = Inr (h, False)"
| "run_events th h (e # es) =
     bindE (on_event th h e) (\<lambda>(h, problem). if problem then Inr (h, True) else run_events th h es)"

definition run_process ::
    "thresholds \<Rightarrow> hooks \<Rightarrow> hook_event list \<Rightarrow> sample \<Rightarrow> real \<Rightarrow> int \<Rightarrow> (hooks \<times> bool) res" where
  "run_process th h es at_exit now returncode =
     bindE (run_events th h es) (\<lambda>(h, problem).
       if problem then bindE (on_reaped th h now returncode) (\<lambda>(h, _). Inr (h, True))
       else bindE (on_exited h at_exit) (\<lambda>h. on_reaped th h now returncode))"

end
