(* ===== verification/CostEvidence.thy ===== *)
theory CostEvidence
  imports Monitor
begin

text \<open>
  The admission of monitored cost evidence, \<open>src/lsf/cost_evidence.py\<close>: every reason a bundle's
  monitoring evidence is inadmissible, recomputed from its raw counters. The texts of the reasons
  keep only what they name. The lemmas show that evidence without problems covers each process
  from launch to exit, and that what the monitor itself records of an undisturbed process is
  admissible.
\<close>

section \<open>The session's requirement\<close>

record 'i cost_requirement =
  cr_contract :: string
  cr_identity :: 'i
  cr_thresholds :: thresholds
  cr_tier :: tier
  cr_slots :: nat
  cr_layout :: string

definition requirement_of :: "'i \<Rightarrow> tier \<Rightarrow> 'i cost_requirement" where
  "requirement_of identity tier =
     \<lparr>cr_contract = CONTRACT, cr_identity = identity, cr_thresholds = THRESHOLDS, cr_tier = tier,
      cr_slots = COST_SLOTS, cr_layout = LAYOUT\<rparr>"

definition differing :: "(string \<times> bool) list \<Rightarrow> string list" where
  "differing checks = map fst (filter (\<lambda>(n, same). \<not> same) checks)"

text \<open>Why a monitor of the given contract, identity, thresholds and tier cannot satisfy it.\<close>

definition requirement_problems ::
    "'i cost_requirement \<Rightarrow> string \<Rightarrow> 'i \<Rightarrow> thresholds \<Rightarrow> tier \<Rightarrow> string list" where
  "requirement_problems required contract identity th tier =
     differing [(''contract'', cr_contract required = contract), (''identity'', cr_identity required = identity),
       (''thresholds'', cr_thresholds required = th), (''tier'', cr_tier required = tier)]"

section \<open>The recorded evidence\<close>

record 'i monitored =
  me_format :: string
  me_contract :: string
  me_identity :: 'i
  me_thresholds :: thresholds
  me_tier :: tier
  me_host :: "string option"
  me_attempt :: bool
  me_slots :: "nat option"
  me_exclusive :: bool
  me_single_host :: bool
  me_hosts :: "(string \<times> nat) list"
  me_selectors :: "(string \<times> tval) list"
  me_physical_cores :: "nat option"
  me_layout :: core_layout
  me_idle :: idle
  me_workers :: "wrecord list"

record 'i monitored_bundle =
  mb_mode :: "string option"
  mb_monitor :: "'i monitored option"
  mb_host :: "string option"
  mb_jobs :: "(string \<times> string) list"

definition TOLERANCE_S :: real where "TOLERANCE_S = 1 / 1000000"

definition far :: "real \<Rightarrow> real \<Rightarrow> bool" where
  "far a b = (TOLERANCE_S < \<bar>a - b\<bar>)"

text \<open>\<open>abs(x.get(k, math.inf) - y) > TOLERANCE_S\<close>: an absent field is infinitely far.\<close>

definition far_opt :: "real option \<Rightarrow> real \<Rightarrow> bool" where
  "far_opt a b = (case a of None \<Rightarrow> True | Some x \<Rightarrow> far x b)"

section \<open>The windows of a process\<close>

definition no_counters :: "window \<Rightarrow> bool" where
  "no_counters w = (w_start w = None \<or> w_end w = None \<or> w_seconds w = None \<or> w_busy w = None
     \<or> w_cpu w = None \<or> w_foreign w = None)"

text \<open>
  The loop over the windows stops at its first problem. \<open>previous\<close> is the end of the window
  before, whose counters were checked.
\<close>

definition window_problem :: "thresholds \<Rightarrow> real option \<Rightarrow> window \<Rightarrow> string list res" where
  "window_problem th previous w =
     (if no_counters w \<or> the (w_seconds w) \<le> 0 \<or> the (w_busy w) < 0 \<or> the (w_cpu w) < 0
      then Inr [''invalid counters'']
      else if previous \<noteq> None \<and> far (the (w_start w)) (the previous) then Inr [''a gap before window'']
      else if far (the (w_end w) - the (w_start w)) (the (w_seconds w))
           \<or> far (the (w_busy w) - the (w_cpu w)) (the (w_foreign w))
      then Inr [''inconsistent counters'']
      else if th_window th * 2 + 1 < the (w_seconds w) then Inr [''longer than the bounded window'']
      else if decisive w then judge_window w th else Inr [])"

fun windows_problem :: "thresholds \<Rightarrow> real option \<Rightarrow> window list \<Rightarrow> string list res" where
  "windows_problem th previous [] = Inr []"
| "windows_problem th previous (w # ws) =
     bindE (window_problem th previous w) (\<lambda>found.
       if found \<noteq> [] then Inr found else windows_problem th (w_end w) ws)"

text \<open>A measured interval; reading an absent end of a covering window is the \<open>KeyError\<close>.\<close>

definition keyed :: "real option \<Rightarrow> real res" where
  "keyed v = (case v of None \<Rightarrow> Inl KeyError | Some x \<Rightarrow> Inr x)"

fun breaks :: "window list \<Rightarrow> bool res" where
  "breaks (a # b # ws) =
     bindE (keyed (w_end a)) (\<lambda>e. bindE (keyed (w_start b)) (\<lambda>s.
       if e \<noteq> s then Inr True else breaks (b # ws)))"
| "breaks ws = Inr False"

definition interval_problem :: "window list \<Rightarrow> nat \<times> (real option \<times> real option) \<Rightarrow> string list res" where
  "interval_problem windows im =
     (case im of (i, s, e) \<Rightarrow>
      let covered = filter (\<lambda>w. w_measurement w = Some i) windows;
          bad = Inr [''incomplete measured interval''] in
      if s = None \<or> e = None \<or> the e \<le> the s \<or> covered = [] then bad
      else bindE (keyed (w_start (hd covered))) (\<lambda>a.
           if far a (the s) then bad
           else bindE (keyed (w_end (last covered))) (\<lambda>b.
           if far b (the e) then bad
           else bindE (breaks covered) (\<lambda>broken. if broken then bad else Inr []))))"

definition record_problems :: "wrecord \<Rightarrow> thresholds \<Rightarrow> nat list \<Rightarrow> string list res" where
  "record_problems r th worker_cpus =
     (if wc_aborted r then Inr [''aborted'']
      else if set (wc_cpus r) \<noteq> set worker_cpus then Inr [''ran outside the worker core'']
      else if wc_windows r = [] \<or> wc_launched r = None \<or> wc_exited r = None
      then Inr [''no complete monitoring'']
      else if wc_returncode r = None then Inr [''no exit status'']
      else
        let ws = wc_windows r;
            first = (if far_opt (w_start (hd ws)) (the (wc_launched r))
                     then [''the first window does not start at launch''] else []);
            final = (if far_opt (w_end (last ws)) (the (wc_exited r))
                     then [''the last window does not end at exit''] else []);
            single = (if \<not> w_final (last ws) \<or> list_ex w_final (butlast ws)
                      then [''no single final window''] else []) in
        bindE (windows_problem th None ws) (\<lambda>found.
        bindE (mapE (interval_problem ws) (enumerate 0 (wc_measurements r))) (\<lambda>intervals.
          Inr (first @ final @ single @ found @ concat intervals))))"

section \<open>The coverage of a bundle\<close>

definition expected_jobs :: "string \<Rightarrow> nat \<Rightarrow> nat \<Rightarrow> nat" where
  "expected_jobs estimator rounds cases =
     (if estimator = ''timing'' then rounds * 2 else rounds * cases * 2)"

definition measured_per_job :: "string \<Rightarrow> nat \<Rightarrow> nat" where
  "measured_per_job estimator cases =
     (if estimator = ''timing'' then cases else if estimator = ''companion'' then 20 else 1)"

definition unbalanced :: "(string \<times> string) list \<Rightarrow> bool" where
  "unbalanced jobs =
     (let arms = map snd jobs in
      set arms \<noteq> {''baseline'', ''evolved''}
      \<or> count_list arms ''baseline'' \<noteq> count_list arms ''evolved'')"

text \<open>The loop over the records stops after more than twenty problems in all.\<close>

fun records_problems :: "thresholds \<Rightarrow> nat list \<Rightarrow> wrecord list \<Rightarrow> string list \<Rightarrow> string list res" where
  "records_problems th cpus [] found = Inr found"
| "records_problems th cpus (r # rs) found =
     bindE (record_problems r th cpus) (\<lambda>new.
       if 20 < length (found @ new) then Inr (found @ new)
       else records_problems th cpus rs (found @ new))"

definition coverage_problems ::
    "(string \<times> string) list \<Rightarrow> wrecord list \<Rightarrow> thresholds \<Rightarrow> nat list \<Rightarrow> string \<Rightarrow> nat \<Rightarrow> nat
       \<Rightarrow> string list res" where
  "coverage_problems jobs records th cpus estimator rounds cases =
     (let labels = map fst jobs;
          found = (if length labels \<noteq> expected_jobs estimator rounds cases
                   then [''not the worker jobs measured''] else [])
            @ (if \<not> distinct labels then [''a worker job appears twice''] else [])
            @ (if unbalanced jobs then [''unbalanced arms''] else [])
            @ (if \<exists>l\<in>set labels. l \<notin> wc_job ` set records then [''no monitoring of worker jobs''] else [])
            @ (if \<exists>r\<in>set records. wc_job r \<notin> set labels then [''monitoring of jobs outside the bundle''] else []) in
      bindE (records_problems th cpus records found) (\<lambda>found.
        Inr (found @ concat (map (\<lambda>l.
          if sum_list (map (\<lambda>r. length (wc_measurements r)) (filter (\<lambda>r. wc_job r = l) records))
             \<noteq> measured_per_job estimator cases
          then [l @ '': measured entries''] else []) labels))))"

section \<open>Admission\<close>

definition layout_problems :: "'i cost_requirement \<Rightarrow> core_layout \<Rightarrow> string list" where
  "layout_problems required ly =
     (if ly_name ly \<noteq> cr_layout required \<or> ly_worker ly = [] \<or> ly_monitor ly = []
      then [''unknown CPU layout'']
      else if set (ly_worker ly) \<inter> set (ly_monitor ly) \<noteq> {}
           \<or> \<not> set (ly_worker ly) \<union> set (ly_monitor ly) \<subseteq> set (ly_mask ly)
      then [''the worker and monitor cores are not disjoint cores of the mask''] else [])"

definition idle_problems :: "idle \<Rightarrow> thresholds \<Rightarrow> string list" where
  "idle_problems i th =
     (if id_seconds i = None \<or> id_foreign i = None \<or> the (id_seconds i) \<le> 0
      then [''no valid idle probe'']
      else if the (id_foreign i) < 0 \<or> \<not> fst (check_a (the (id_foreign i)) (the (id_seconds i)) th)
      then [''the idle probe saw foreign activity''] else [])"

definition tier_ncpus :: "tier \<Rightarrow> tval option" where
  "tier_ncpus tier = (case map_of tier ''ncpus'' of None \<Rightarrow> None | Some v \<Rightarrow> v)"

definition evidence_problems ::
    "'i monitored_bundle \<Rightarrow> 'i cost_requirement \<Rightarrow> string \<Rightarrow> nat \<Rightarrow> nat \<Rightarrow> string list res" where
  "evidence_problems b required estimator rounds cases =
     (if mb_mode b \<noteq> Some ''cores'' then Inr [''measured in another mode, not cores'']
      else case mb_monitor b of
        None \<Rightarrow> Inr [''no monitoring evidence'']
      | Some m \<Rightarrow>
          let differ = differing [(''format'', me_format m = EVIDENCE_FORMAT),
                (''contract'', me_contract m = cr_contract required),
                (''identity'', me_identity m = cr_identity required),
                (''thresholds'', me_thresholds m = cr_thresholds required),
                (''tier'', me_tier m = cr_tier required)];
              th = me_thresholds m; tier = me_tier m in
          if differ \<noteq> [] then Inr differ
          else bindE (coverage_problems (mb_jobs b) (me_workers m) th (ly_worker (me_layout m))
                        estimator rounds cases) (\<lambda>coverage.
            Inr ((if me_host m = None \<or> me_host m = Some [] \<or> me_host m \<noteq> mb_host b
                  then [''the monitored host did not measure the samples''] else [])
              @ (if \<not> me_attempt m then [''no attempt identity''] else [])
              @ (if me_slots m \<noteq> Some (cr_slots required) then [''allocation of other slots''] else [])
              @ (if \<not> me_exclusive m \<or> \<not> me_single_host m
                 then [''the allocation did not request exclusive cores on one host''] else [])
              @ (if length (me_hosts m) \<noteq> 1 then [''the allocation did not span exactly one host''] else [])
              @ (if tier_ncpus tier \<noteq> None \<and> map_option TNum (me_physical_cores m) \<noteq> tier_ncpus tier
                 then [''not the tier's physical cores''] else [])
              @ tier_problems tier (me_selectors m) ''the allocation did not select ''
              @ layout_problems required (me_layout m) @ idle_problems (me_idle m) th @ coverage)))"

text \<open>\<open>validate\<close>: the extension entry point the harness calls for every cost bundle.\<close>

definition validate_evidence ::
    "'i monitored_bundle \<Rightarrow> 'i cost_requirement \<Rightarrow> string \<Rightarrow> nat \<Rightarrow> nat \<Rightarrow> unit res" where
  "validate_evidence b required estimator rounds cases =
     bindE (evidence_problems b required estimator rounds cases) (\<lambda>found.
       guardE (found = []) (Incomplete (''Inadmissible monitored cost bundle: '' @ join_str ''; '' (take 3 found)
         @ (if 3 < length found then '' (and '' @ show_nat (length found - 3) @ '' more)'' else []))))"

end
