(* ===== verification/MonitorInv.thy ===== *)
theory MonitorInv
  imports CostEvidence
begin

text \<open>
  The monitor meets its validator. A chain of windows covers an interval without a gap; evidence
  without problems is nearly such a chain from launch to exit, so what it measured is bounded by
  the tolerance; and the hooks of an undisturbed process keep exact chains, of the whole life and
  of every measured interval, so their record has no problem.
\<close>

section \<open>Admissible evidence covers the process\<close>

definition seconds_of :: "window list \<Rightarrow> real" where
  "seconds_of ws = sum_list (map (\<lambda>w. the (w_seconds w)) ws)"

definition window_sound :: "thresholds \<Rightarrow> window \<Rightarrow> bool" where
  "window_sound th w \<longleftrightarrow> \<not> no_counters w \<and> 0 < the (w_seconds w) \<and> the (w_seconds w) \<le> th_window th * 2 + 1
     \<and> \<bar>the (w_end w) - the (w_start w) - the (w_seconds w)\<bar> \<le> TOLERANCE_S
     \<and> (decisive w \<longrightarrow> the (w_foreign w) \<le> max (th_fraction th * the (w_seconds w)) (th_floor th))"

lemma window_problem_Nil:
  assumes "window_problem th previous w = Inr []"
  shows "window_sound th w" and "previous \<noteq> None \<Longrightarrow> \<bar>the (w_start w) - the previous\<bar> \<le> TOLERANCE_S"
proof -
  have n: "\<not> (no_counters w \<or> the (w_seconds w) \<le> 0 \<or> the (w_busy w) < 0 \<or> the (w_cpu w) < 0)"
    "\<not> (previous \<noteq> None \<and> far (the (w_start w)) (the previous))"
    "\<not> (far (the (w_end w) - the (w_start w)) (the (w_seconds w))
           \<or> far (the (w_busy w) - the (w_cpu w)) (the (w_foreign w)))"
    "\<not> th_window th * 2 + 1 < the (w_seconds w)" "decisive w \<Longrightarrow> judge_window w th = Inr []"
    using assms by (simp_all add: window_problem_def split: if_splits)
  have "the (w_foreign w) \<le> max (th_fraction th * the (w_seconds w)) (th_floor th)" if "decisive w"
    using n(5)[OF that] by (auto simp: judge_window_def check_a_def Let_def split: option.splits if_splits)
  with n(1,3,4) show "window_sound th w" by (simp add: window_sound_def far_def)
  show "\<bar>the (w_start w) - the previous\<bar> \<le> TOLERANCE_S" if "previous \<noteq> None"
    using n(2) that by (simp add: far_def)
qed

lemma windows_problem_Nil:
  assumes "windows_problem th previous (w # ws) = Inr []"
  shows "(\<forall>v\<in>set (w # ws). window_sound th v)
    \<and> \<bar>seconds_of (w # ws) - (the (w_end (last (w # ws))) - the (w_start w))\<bar>
        \<le> (2 * real (length ws) + 1) * TOLERANCE_S"
  using assms
proof (induction ws arbitrary: previous w)
  case Nil
  then have "window_problem th previous w = Inr []" by (auto simp: bindE_Inr_iff split: if_splits)
  from window_problem_Nil(1)[OF this] show ?case
    by (simp add: window_sound_def seconds_of_def) linarith
next
  case (Cons v ws)
  from Cons.prems have p: "window_problem th previous w = Inr []" "windows_problem th (w_end w) (v # ws) = Inr []"
    by (auto simp: bindE_Inr_iff split: if_splits)
  note w = window_problem_Nil(1)[OF p(1)] and IH = Cons.IH[OF p(2)]
  from p(2) have "window_problem th (w_end w) v = Inr []" by (auto simp: bindE_Inr_iff split: if_splits)
  moreover have "w_end w \<noteq> None" using w by (simp add: window_sound_def no_counters_def)
  ultimately have gap: "\<bar>the (w_start v) - the (w_end w)\<bar> \<le> TOLERANCE_S" by (rule window_problem_Nil(2))
  have len: "\<bar>the (w_end w) - the (w_start w) - the (w_seconds w)\<bar> \<le> TOLERANCE_S"
    using w by (simp add: window_sound_def)
  have e: "(2 * real (length (v # ws)) + 1) * TOLERANCE_S
      = (2 * real (length ws) + 1) * TOLERANCE_S + 2 * TOLERANCE_S" by (simp add: algebra_simps)
  have s: "seconds_of (w # v # ws) = the (w_seconds w) + seconds_of (v # ws)" by (simp add: seconds_of_def)
  have l: "last (w # v # ws) = last (v # ws)" by simp
  show ?case unfolding e s l using IH w gap len by (auto simp del: last.simps)
qed

text \<open>A process without problems is covered by its windows.\<close>

lemma process_covered:
  assumes "record_problems r th cpus = Inr []"
  shows "\<exists>l e. wc_launched r = Some l \<and> wc_exited r = Some e
    \<and> \<bar>seconds_of (wc_windows r) - (e - l)\<bar> \<le> (2 * real (length (wc_windows r)) + 1) * TOLERANCE_S
    \<and> (\<forall>w\<in>set (wc_windows r). window_sound th w)"
proof -
  have n: "wc_windows r \<noteq> []" "wc_launched r \<noteq> None" "wc_exited r \<noteq> None"
    using assms by (auto simp: record_problems_def split: if_splits)
  then obtain w ws l e where r: "wc_windows r = w # ws" "wc_launched r = Some l" "wc_exited r = Some e"
    by (auto simp: neq_Nil_conv)
  from assms n have p: "windows_problem th None (w # ws) = Inr []"
    "\<not> far_opt (w_start w) l" "\<not> far_opt (w_end (last (w # ws))) e"
    by (auto simp: record_problems_def Let_def bindE_Inr_iff r split: if_splits)
  note c = windows_problem_Nil[OF p(1)]
  from p(2,3) have ends: "\<bar>the (w_start w) - l\<bar> \<le> TOLERANCE_S" "\<bar>the (w_end (last (w # ws))) - e\<bar> \<le> TOLERANCE_S"
    by (auto simp: far_opt_def far_def split: option.splits)
  have k: "(2 * real (length (w # ws)) + 1) * TOLERANCE_S
      = (2 * real (length ws) + 1) * TOLERANCE_S + 2 * TOLERANCE_S" by (simp add: algebra_simps)
  have "\<bar>seconds_of (w # ws) - (e - l)\<bar> \<le> (2 * real (length (w # ws)) + 1) * TOLERANCE_S"
    unfolding k using c ends by linarith
  with c show ?thesis unfolding r by blast
qed

text \<open>
  C34. A monitored process without problems was watched from launch to exit: the seconds of its
  windows add up to its life within two tolerances per window and one more, no window is longer
  than the bound, and in every measured window the foreign CPU time stays within check A's limit.
\<close>

theorem admissible_covers_process:
  assumes "record_problems r th cpus = Inr []"
  shows "\<exists>l e. wc_launched r = Some l \<and> wc_exited r = Some e
    \<and> \<bar>seconds_of (wc_windows r) - (e - l)\<bar> \<le> (2 * real (length (wc_windows r)) + 1) * TOLERANCE_S
    \<and> (\<forall>w\<in>set (wc_windows r). window_sound th w)"
  by (rule process_covered[OF assms])

section \<open>An admissible bundle\<close>

lemma records_problems_grow: "records_problems th cpus rs found = Inr out \<Longrightarrow> \<exists>more. out = found @ more"
proof (induction rs arbitrary: found)
  case (Cons r rs)
  from Cons.prems obtain new where "record_problems r th cpus = Inr new"
    "(if 20 < length (found @ new) then Inr (found @ new) else records_problems th cpus rs (found @ new)) = Inr out"
    by (auto simp: bindE_Inr_iff)
  with Cons.IH[of "found @ new"] show ?case by (auto split: if_splits)
qed simp

lemma records_problems_Nil:
  "records_problems th cpus rs [] = Inr [] \<Longrightarrow> \<forall>r\<in>set rs. record_problems r th cpus = Inr []"
proof (induction rs)
  case (Cons r rs)
  from Cons.prems obtain new where n: "record_problems r th cpus = Inr new"
    "(if 20 < length ([] @ new) then Inr ([] @ new) else records_problems th cpus rs ([] @ new)) = Inr []"
    unfolding records_problems.simps bindE_Inr_iff by blast
  from n(2) have "new = []" by (auto dest: records_problems_grow split: if_splits)
  with n Cons.IH show ?case by simp
qed simp

lemma concat_map_Nil: "concat (map f xs) = [] \<longleftrightarrow> (\<forall>x\<in>set xs. f x = [])"
  by (induction xs) auto

definition job_covered :: "'i monitored \<Rightarrow> string \<Rightarrow> string \<Rightarrow> nat \<Rightarrow> bool" where
  "job_covered m label estimator cases \<longleftrightarrow>
     (\<exists>r\<in>set (me_workers m). wc_job r = label)
     \<and> sum_list (map (\<lambda>r. length (wc_measurements r)) (filter (\<lambda>r. wc_job r = label) (me_workers m)))
         = measured_per_job estimator cases"

lemma coverage_problems_Nil:
  assumes "coverage_problems (mb_jobs b) (me_workers m) th cpus estimator rounds cases = Inr []"
  shows "length (mb_jobs b) = expected_jobs estimator rounds cases \<and> distinct (map fst (mb_jobs b))
    \<and> \<not> unbalanced (mb_jobs b) \<and> (\<forall>r\<in>set (me_workers m). record_problems r th cpus = Inr [])
    \<and> (\<forall>(label, arm)\<in>set (mb_jobs b). job_covered m label estimator cases)
    \<and> (\<forall>r\<in>set (me_workers m). wc_job r \<in> set (map fst (mb_jobs b)))"
proof -
  let ?labels = "map fst (mb_jobs b)"
  let ?found = "(if length ?labels \<noteq> expected_jobs estimator rounds cases then [''not the worker jobs measured''] else [])
            @ (if \<not> distinct ?labels then [''a worker job appears twice''] else [])
            @ (if unbalanced (mb_jobs b) then [''unbalanced arms''] else [])
            @ (if \<exists>l\<in>set ?labels. l \<notin> wc_job ` set (me_workers m) then [''no monitoring of worker jobs''] else [])
            @ (if \<exists>r\<in>set (me_workers m). wc_job r \<notin> set ?labels then [''monitoring of jobs outside the bundle''] else [])"
  let ?entries = "\<lambda>l. if sum_list (map (\<lambda>r. length (wc_measurements r)) (filter (\<lambda>r. wc_job r = l) (me_workers m)))
             \<noteq> measured_per_job estimator cases then [l @ '': measured entries''] else []"
  from assms obtain out where o: "records_problems th cpus (me_workers m) ?found = Inr out"
    "out @ concat (map ?entries ?labels) = []"
    unfolding coverage_problems_def Let_def bindE_Inr_iff sum.inject by blast
  from records_problems_grow[OF o(1)] o(2) have f: "?found = []" "out = []" "concat (map ?entries ?labels) = []"
    by (simp_all only: append_is_Nil_conv) blast+
  have all: "\<forall>r\<in>set (me_workers m). record_problems r th cpus = Inr []"
    using o(1) unfolding f(1,2) by (rule records_problems_Nil)
  have n: "length (mb_jobs b) = expected_jobs estimator rounds cases" "distinct ?labels" "\<not> unbalanced (mb_jobs b)"
    "\<forall>l\<in>set ?labels. l \<in> wc_job ` set (me_workers m)" "\<forall>r\<in>set (me_workers m). wc_job r \<in> set ?labels"
    using f(1) by (simp_all only: append_is_Nil_conv length_map split: if_splits) blast+
  have "\<forall>l\<in>set ?labels. ?entries l = []" using f(3) by (simp only: concat_map_Nil)
  then have "job_covered m l estimator cases" if "l \<in> set ?labels" for l
    using n(4) that unfolding job_covered_def by (fastforce split: if_splits)
  with all n(1-3,5) show ?thesis by fastforce
qed

text \<open>A balanced list of jobs has half of them in each arm.\<close>

lemma balanced_arms:
  assumes "\<not> unbalanced jobs" and "length jobs = 2 * n" and "arm \<in> {''baseline'', ''evolved''}"
  shows "length (filter (\<lambda>j. snd j = arm) jobs) = n"
proof -
  have ne: "''baseline'' \<noteq> ''evolved''" by simp
  have arms: "\<forall>j\<in>set jobs. snd j = ''baseline'' \<or> snd j = ''evolved''"
    and same: "count_list (map snd jobs) ''baseline'' = count_list (map snd jobs) ''evolved''"
    using assms(1) unfolding unbalanced_def Let_def by auto
  have cl: "count_list (map snd js) a = length (filter (\<lambda>j. snd j = a) js)" for js :: "(string \<times> string) list" and a
    by (induction js) auto
  have "length js = length (filter (\<lambda>j. snd j = ''baseline'') js) + length (filter (\<lambda>j. snd j = ''evolved'') js)"
    if "\<forall>j\<in>set js. snd j = ''baseline'' \<or> snd j = ''evolved''" for js :: "(string \<times> string) list"
    using that ne by (induction js) auto
  from this[OF arms] same assms(2,3) show ?thesis unfolding cl by auto
qed

text \<open>Grouping the terms of a sum by the keys of a list without duplicates.\<close>

lemma sum_list_groups:
  fixes g :: "'b \<Rightarrow> nat"
  assumes "distinct ks" and "\<forall>x\<in>set xs. f x \<in> set ks"
  shows "sum_list (map g xs) = sum_list (map (\<lambda>k. sum_list (map g (filter (\<lambda>x. f x = k) xs))) ks)"
  using assms(2)
proof (induction xs)
  case (Cons x xs)
  have one: "sum_list (map (\<lambda>k. if f x = k then g x else 0) ks) = g x"
    using assms(1) Cons.prems by (simp add: sum_list_map_eq_sum_count2 distinct_count_atmost_1 sum_list_distinct_conv_sum_set)
  have "sum_list (map (\<lambda>k. sum_list (map g (filter (\<lambda>x. f x = k) (x # xs)))) ks)
      = sum_list (map (\<lambda>k. (if f x = k then g x else 0) + sum_list (map g (filter (\<lambda>x. f x = k) xs))) ks)"
    by (rule arg_cong[where f = sum_list], rule map_cong) auto
  also have "\<dots> = g x + sum_list (map (\<lambda>k. sum_list (map g (filter (\<lambda>x. f x = k) xs))) ks)"
    unfolding sum_list_addf one ..
  finally show ?case using Cons by simp
qed simp


section \<open>Chains of windows\<close>

fun chain :: "real \<Rightarrow> window list \<Rightarrow> real \<Rightarrow> bool" where
  "chain a [] b = (a = b)"
| "chain a (w # ws) b = (w_start w = Some a \<and> (\<exists>e. w_end w = Some e \<and> chain e ws b))"

lemma chain_snoc:
  "chain a ws b \<Longrightarrow> w_start w = Some b \<Longrightarrow> w_end w = Some c \<Longrightarrow> chain a (ws @ [w]) c"
  by (induction ws arbitrary: a) auto

lemma chain_ends:
  "chain a ws b \<Longrightarrow> ws \<noteq> [] \<Longrightarrow> w_start (hd ws) = Some a \<and> w_end (last ws) = Some b"
proof (induction ws arbitrary: a)
  case (Cons w ws)
  then show ?case by (cases ws) auto
qed simp

lemma chain_unbroken: "chain a ws b \<Longrightarrow> breaks ws = Inr False"
proof (induction ws arbitrary: a rule: breaks.induct)
  case (1 v w ws)
  then show ?case by (auto simp: keyed_def)
qed simp_all

text \<open>A window the monitor closed over \<open>[a, b]\<close> and judged clean.\<close>

definition clean_window :: "thresholds \<Rightarrow> real \<Rightarrow> real \<Rightarrow> window \<Rightarrow> bool" where
  "clean_window th a b w \<longleftrightarrow> w_start w = Some a \<and> w_end w = Some b \<and> w_seconds w = Some (b - a) \<and> a < b
     \<and> (\<exists>busy cpu. w_busy w = Some busy \<and> w_cpu w = Some cpu \<and> w_foreign w = Some (busy - cpu)
          \<and> 0 \<le> busy \<and> 0 \<le> cpu \<and> (decisive w \<longrightarrow> fst (check_a (busy - cpu) (b - a) th)))"

lemma far_refl [simp]: "\<not> far a a"
  by (simp add: far_def TOLERANCE_S_def)

lemma clean_window_ok:
  assumes "clean_window th a b w" and "b - a \<le> th_window th * 2 + 1" and "previous \<in> {None, Some a}"
  shows "window_problem th previous w = Inr []"
  using assms by (auto simp: clean_window_def window_problem_def no_counters_def judge_window_def)

lemma clean_chain_ok:
  assumes "chain a ws b" and "\<forall>w\<in>set ws. \<exists>x y. clean_window th x y w"
    and "\<forall>w\<in>set ws. the (w_seconds w) \<le> th_window th * 2 + 1" and "previous \<in> {None, Some a}"
  shows "windows_problem th previous ws = Inr []"
  using assms
proof (induction ws arbitrary: a previous)
  case (Cons w ws)
  then obtain y where w: "clean_window th a y w" "w_end w = Some y" "chain y ws b"
    by (auto simp: clean_window_def)
  have "window_problem th previous w = Inr []"
    using clean_window_ok[OF w(1) _ Cons.prems(4)] Cons.prems(3) w(1) by (simp add: clean_window_def)
  moreover have "windows_problem th (Some y) ws = Inr []"
    using Cons.IH[OF w(3)] Cons.prems(2,3) by simp
  ultimately show ?case by (simp add: w(2))
qed simp

section \<open>What the hooks keep\<close>

definition windows_of :: "hooks \<Rightarrow> nat \<Rightarrow> window list" where
  "windows_of h i = filter (\<lambda>w. w_measurement w = Some i) (wc_windows (hk_record h))"

text \<open>A measured interval: begun at a boundary, and chained to its end or to the last reading.\<close>

definition interval_kept :: "hooks \<Rightarrow> nat \<Rightarrow> bool" where
  "interval_kept h i \<longleftrightarrow> (\<exists>a b. chain a (windows_of h i) b
     \<and> wc_measurements (hk_record h) ! i = (Some a, if hk_measuring h = Some i then None else Some b)
     \<and> (hk_measuring h = Some i \<longrightarrow> b = sm_time (hk_window h)))"

definition hooks_ok :: "thresholds \<Rightarrow> hooks \<Rightarrow> bool" where
  "hooks_ok th h \<longleftrightarrow> \<not> hk_aborted h \<and> \<not> wc_aborted (hk_record h)
     \<and> (\<exists>l. wc_launched (hk_record h) = Some l \<and> chain l (wc_windows (hk_record h)) (sm_time (hk_window h)))
     \<and> (\<forall>w\<in>set (wc_windows (hk_record h)). \<not> w_final w \<and> (\<exists>a b. clean_window th a b w)
          \<and> (\<forall>i. w_measurement w = Some i \<longrightarrow> i < length (wc_measurements (hk_record h))))
     \<and> (\<forall>i<length (wc_measurements (hk_record h)). interval_kept h i)
     \<and> (\<forall>i. hk_measuring h = Some i \<longrightarrow> i < length (wc_measurements (hk_record h)))"

lemma launch_ok: "hooks_ok th (launch label process pid cpus s)"
  by (simp add: hooks_ok_def launch_def)

lemma close_window_Inr:
  assumes "close_window h s f = Inr (h', w)"
  shows "h' = h\<lparr>hk_window := s\<rparr>" and "w_final w = f" and "w_measurement w = hk_measuring h"
    and "fst (check_a (the (w_foreign w)) (the (w_seconds w)) th) \<or> \<not> decisive w \<Longrightarrow>
      clean_window th (sm_time (hk_window h)) (sm_time s) w"
    and "judge_window w th = Inr (if fst (check_a (the (w_foreign w)) (the (w_seconds w)) th) then [] else [''A: foreign CPU''])"
  using assms
  by (auto simp: close_window_def Let_def clean_window_def judge_window_def split: if_splits)

lemma record_window_Inr:
  assumes "record_window th h w = Inr (h', False)"
  shows "h' = h\<lparr>hk_record := (hk_record h)\<lparr>wc_windows := wc_windows (hk_record h) @ [w]\<rparr>\<rparr>"
    and "judge_window w th = Inr [] \<or> \<not> decisive w"
  using assms by (auto simp: record_window_def Let_def bindE_Inr_iff split: if_splits)

lemma cut_Inr:
  assumes "cut th h s = Inr (h', False)"
  obtains w where "h' = h\<lparr>hk_window := s,
      hk_record := (hk_record h)\<lparr>wc_windows := wc_windows (hk_record h) @ [w]\<rparr>\<rparr>"
    "clean_window th (sm_time (hk_window h)) (sm_time s) w" "\<not> w_final w" "w_measurement w = hk_measuring h"
proof -
  from assms obtain g w where c: "close_window h s False = Inr (g, w)" "record_window th g w = Inr (h', False)"
    by (auto simp: cut_def bindE_Inr_iff)
  note cw = close_window_Inr[OF c(1)] and rw = record_window_Inr[OF c(2)]
  have "clean_window th (sm_time (hk_window h)) (sm_time s) w"
    using cw(4)[of th] cw(5)[of th] rw(2) by (auto split: if_splits)
  with cw(1-3) rw(1) show ?thesis by (intro that[of w]) simp_all
qed

lemma cut_ok:
  assumes "hooks_ok th h" and "cut th h s = Inr (h', False)"
  shows "hooks_ok th h' \<and> sm_time (hk_window h') = sm_time s \<and> hk_measuring h' = hk_measuring h
    \<and> wc_measurements (hk_record h') = wc_measurements (hk_record h)"
proof -
  obtain w where h': "h' = h\<lparr>hk_window := s,
      hk_record := (hk_record h)\<lparr>wc_windows := wc_windows (hk_record h) @ [w]\<rparr>\<rparr>"
    and w: "clean_window th (sm_time (hk_window h)) (sm_time s) w" "\<not> w_final w" "w_measurement w = hk_measuring h"
    by (rule cut_Inr[OF assms(2)])
  have "interval_kept h' i" if i: "i < length (wc_measurements (hk_record h))" for i
  proof -
    from assms(1) i obtain a b where k: "chain a (windows_of h i) b"
      "wc_measurements (hk_record h) ! i = (Some a, if hk_measuring h = Some i then None else Some b)"
      "hk_measuring h = Some i \<longrightarrow> b = sm_time (hk_window h)"
      by (auto simp: hooks_ok_def interval_kept_def)
    show ?thesis
    proof (cases "hk_measuring h = Some i")
      case True
      then have "windows_of h' i = windows_of h i @ [w]" by (simp add: windows_of_def h' w(3))
      moreover have "chain a (windows_of h i @ [w]) (sm_time s)"
        using chain_snoc[OF k(1)] k(3) w(1) True by (simp add: clean_window_def)
      ultimately show ?thesis using k(2) True by (auto simp: interval_kept_def h')
    next
      case False
      then have "windows_of h' i = windows_of h i" by (simp add: windows_of_def h' w(3))
      with k False show ?thesis by (auto simp: interval_kept_def h')
    qed
  qed
  moreover from assms(1) w(1) obtain l where "wc_launched (hk_record h) = Some l"
    "chain l (wc_windows (hk_record h) @ [w]) (sm_time s)"
    by (auto simp: hooks_ok_def clean_window_def intro: chain_snoc)
  ultimately have "hooks_ok th h'"
    using assms(1) w by (auto simp: hooks_ok_def h')
  then show ?thesis by (simp add: h')
qed

lemma boundary_ok:
  assumes "hooks_ok th h" and "boundary th h begins verified s = Inr (h', False)"
    and "sm_time (hk_window h) \<le> sm_time s"
  shows "hooks_ok th h' \<and> sm_time (hk_window h') = sm_time s"
proof -
  from assms(2) obtain g where g: "(if sm_time (hk_window h) < sm_time s then cut th h s else Inr (h, False)) = Inr (g, False)"
    and h': "h' = (case hk_measuring g of
         None \<Rightarrow> g\<lparr>hk_measuring := Some (length (wc_measurements (hk_record g))),
            hk_record := (hk_record g)\<lparr>wc_measurements := wc_measurements (hk_record g) @ [(Some (sm_time s), None)]\<rparr>\<rparr>
       | Some i \<Rightarrow> g\<lparr>hk_measuring := None,
            hk_record := (hk_record g)\<lparr>wc_measurements := set_end (wc_measurements (hk_record g)) i (sm_time s)\<rparr>\<rparr>)"
    unfolding boundary_def Let_def
    by (cases "begins \<noteq> (hk_measuring h = None)") (auto simp: bindE_Inr_iff split: prod.splits if_split_asm option.splits)
  have ok: "hooks_ok th g" and t: "sm_time (hk_window g) = sm_time s"
    using g cut_ok[OF assms(1)] assms(1,3) by (auto split: if_splits)
  show ?thesis
  proof (cases "hk_measuring g")
    case None
    let ?n = "length (wc_measurements (hk_record g))"
    have "interval_kept h' i" if "i < Suc ?n" for i
    proof (cases "i = ?n")
      case True
      have "windows_of g ?n = []" using ok by (auto simp: windows_of_def hooks_ok_def filter_empty_conv)
      then have "windows_of h' i = []" by (simp add: windows_of_def h' None True)
      then show ?thesis by (simp add: interval_kept_def h' None True t)
    next
      case False
      with that have "i < ?n" by simp
      with ok have "interval_kept g i" unfolding hooks_ok_def by blast
      then obtain a b where "chain a (windows_of g i) b"
        "wc_measurements (hk_record g) ! i = (Some a, Some b)"
        by (auto simp: interval_kept_def None)
      with False that show ?thesis
        by (auto simp: interval_kept_def h' None windows_of_def nth_append)
    qed
    then show ?thesis using ok by (auto simp: hooks_ok_def h' None t less_Suc_eq)
  next
    case (Some j)
    have j: "j < length (wc_measurements (hk_record g))" using ok Some by (simp add: hooks_ok_def)
    have "interval_kept h' i" if "i < length (wc_measurements (hk_record g))" for i
    proof -
      from that ok obtain a b where k: "chain a (windows_of g i) b"
        "wc_measurements (hk_record g) ! i = (Some a, if j = i then None else Some b)"
        "j = i \<longrightarrow> b = sm_time (hk_window g)"
        by (auto simp: hooks_ok_def interval_kept_def Some)
      have "windows_of h' i = windows_of g i" by (simp add: windows_of_def h' Some)
      with k j that t show ?thesis
        by (cases "j = i") (auto simp: interval_kept_def h' Some set_end_def)
    qed
    then show ?thesis using ok by (auto simp: hooks_ok_def h' Some t set_end_def)
  qed
qed

fun reading :: "hook_event \<Rightarrow> sample" where
  "reading (Progress verified s) = s"
| "reading (Boundary begins verified s) = s"

lemma run_events_ok:
  assumes "run_events th h es = Inr (h', False)" and "hooks_ok th h"
    and "sorted (sm_time (hk_window h) # map (\<lambda>e. sm_time (reading e)) es)"
  shows "hooks_ok th h'"
  using assms
proof (induction es arbitrary: h)
  case (Cons e es)
  from Cons.prems(1) obtain g where g: "on_event th h e = Inr (g, False)" "run_events th g es = Inr (h', False)"
    by (auto simp: bindE_Inr_iff split: if_splits)
  have t: "sm_time (hk_window h) \<le> sm_time (reading e)" using Cons.prems(3) by simp
  have "hooks_ok th g \<and> (hk_window g = hk_window h \<or> sm_time (hk_window g) = sm_time (reading e))"
  proof (cases e)
    case (Progress verified s)
    with g(1) cut_ok[OF Cons.prems(2)] Cons.prems(2) show ?thesis
      by (auto simp: on_progress_def bindE_Inr_iff split: if_splits)
  next
    case (Boundary begins verified s)
    with g(1) t boundary_ok[OF Cons.prems(2)] show ?thesis by auto
  qed
  moreover from this have "sorted (sm_time (hk_window g) # map (\<lambda>e. sm_time (reading e)) es)"
    using Cons.prems(3) by auto
  ultimately show ?case using Cons.IH[OF g(2)] by blast
qed simp

lemma run_events_fields:
  assumes "run_events th h es = Inr (h', False)"
  shows "wc_cpus (hk_record h') = wc_cpus (hk_record h)"
  using assms
proof (induction es arbitrary: h)
  case (Cons e es)
  from Cons.prems obtain g where g: "on_event th h e = Inr (g, False)" "run_events th g es = Inr (h', False)"
    by (auto simp: bindE_Inr_iff split: if_splits)
  have "wc_cpus (hk_record g) = wc_cpus (hk_record h)"
    using g(1) by (cases e) (auto simp: on_progress_def boundary_def Let_def bindE_Inr_iff elim!: cut_Inr
        split: if_splits option.splits)
  with Cons.IH[OF g(2)] show ?case by simp
qed simp

definition all_closed :: "(real option \<times> real option) list \<Rightarrow> bool" where
  "all_closed ms \<longleftrightarrow> (\<forall>(a, b)\<in>set ms. \<exists>x y. a = Some x \<and> b = Some y \<and> x < y)"

lemma closed_not_measuring:
  assumes "hooks_ok th g" and "all_closed (wc_measurements (hk_record g))"
  shows "hk_measuring g = None"
proof (cases "hk_measuring g")
  case (Some i)
  with assms(1) have i: "i < length (wc_measurements (hk_record g))" "interval_kept g i"
    by (simp_all add: hooks_ok_def)
  from i(2) Some obtain a where a: "wc_measurements (hk_record g) ! i = (Some a, None)"
    by (auto simp: interval_kept_def)
  from nth_mem[OF i(1)] have "(Some a, None) \<in> set (wc_measurements (hk_record g))" by (simp only: a)
  with assms(2) show ?thesis by (fastforce simp: all_closed_def)
qed

text \<open>The record of a process that ended without a problem: the hooks' windows and a final one.\<close>

lemma run_process_record:
  assumes "run_process th (launch label process pid cpus s) es at_exit now returncode = Inr (h, False)"
    and "sorted (sm_time s # map (\<lambda>e. sm_time (reading e)) es)"
    and "all_closed (wc_measurements (hk_record h))"
  obtains g w where "hooks_ok th g" "hk_measuring g = None" "w_final w" "w_measurement w = None"
    "clean_window th (sm_time (hk_window g)) (sm_time at_exit) w" "wc_cpus (hk_record g) = cpus"
    "hk_record h = (hk_record g)\<lparr>wc_returncode := Some returncode, wc_exited := w_end w,
       wc_windows := wc_windows (hk_record g) @ [w]\<rparr>"
proof -
  from assms(1) obtain g g' w where g: "run_events th (launch label process pid cpus s) es = Inr (g, False)"
    and c: "close_window g at_exit True = Inr (g', w)"
    and r: "on_reaped th (g'\<lparr>hk_final := Some w\<rparr>) now returncode = Inr (h, False)"
    by (auto simp: run_process_def on_exited_def bindE_Inr_iff split: if_splits)
  have ok: "hooks_ok th g"
    by (rule run_events_ok[OF g launch_ok]) (use assms(2) in \<open>simp add: launch_def\<close>)
  note cw = close_window_Inr[OF c]
  let ?r = "(hk_record g)\<lparr>wc_returncode := Some returncode, wc_exited := w_end w\<rparr>"
  have "record_window th (g'\<lparr>hk_final := Some w, hk_record := ?r\<rparr>) w = Inr (h, False)"
    using r ok by (simp add: on_reaped_def Let_def cw(1) hooks_ok_def)
  from record_window_Inr(1)[OF this]
  have h: "hk_record h = ?r\<lparr>wc_windows := wc_windows (hk_record g) @ [w]\<rparr>" by simp
  have m: "hk_measuring g = None"
    by (rule closed_not_measuring[OF ok]) (use assms(3) in \<open>simp add: h\<close>)
  show ?thesis
    by (rule that[OF ok m _ _ _ _ h])
      (use cw(2,3) cw(4)[of th] run_events_fields[OF g] m in \<open>simp_all add: decisive_def launch_def\<close>)
qed

lemma kept_interval_admissible:
  assumes "hooks_ok th g" and "hk_measuring g = None" and "i < length (wc_measurements (hk_record g))"
    and "all_closed (wc_measurements (hk_record g))" and "w_measurement w = None"
  shows "interval_problem (wc_windows (hk_record g) @ [w]) (i, wc_measurements (hk_record g) ! i) = Inr []"
proof -
  have "interval_kept g i" using assms(1,3) by (simp add: hooks_ok_def)
  then obtain a b where a: "chain a (windows_of g i) b" "wc_measurements (hk_record g) ! i = (Some a, Some b)"
    using assms(2) by (auto simp: interval_kept_def)
  have "(Some a, Some b) \<in> set (wc_measurements (hk_record g))" using nth_mem[OF assms(3)] by (simp only: a(2))
  with assms(4) have lt: "a < b" by (fastforce simp: all_closed_def)
  have cov: "filter (\<lambda>w. w_measurement w = Some i) (wc_windows (hk_record g) @ [w]) = windows_of g i"
    by (simp add: windows_of_def assms(5))
  have "windows_of g i \<noteq> []" using a(1) lt by (cases "windows_of g i") auto
  with chain_ends[OF a(1)] chain_unbroken[OF a(1)] lt show ?thesis
    unfolding interval_problem_def Let_def prod.case a(2) cov by (simp add: keyed_def)
qed

text \<open>
  C33. What the monitor records of an undisturbed process is admissible: when no hook reported a
  problem, readings came in the order of time and no window outgrew the bound, and every measured
  interval was closed after it began, the validator finds no problem in the record.
\<close>

theorem clean_process_admissible:
  assumes "run_process th (launch label process pid cpus s) es at_exit now returncode = Inr (h, False)"
    and "sorted (sm_time s # map (\<lambda>e. sm_time (reading e)) es)"
    and "\<forall>w\<in>set (wc_windows (hk_record h)). the (w_seconds w) \<le> th_window th * 2 + 1"
    and "all_closed (wc_measurements (hk_record h))"
  shows "record_problems (hk_record h) th cpus = Inr []"
proof -
  obtain g w where g: "hooks_ok th g" "hk_measuring g = None" "w_final w" "w_measurement w = None"
    "clean_window th (sm_time (hk_window g)) (sm_time at_exit) w" "wc_cpus (hk_record g) = cpus"
    and h: "hk_record h = (hk_record g)\<lparr>wc_returncode := Some returncode, wc_exited := w_end w,
       wc_windows := wc_windows (hk_record g) @ [w]\<rparr>"
    by (rule run_process_record[OF assms(1,2,4)])
  let ?ws = "wc_windows (hk_record g) @ [w]" and ?ms = "wc_measurements (hk_record g)"
  obtain l where l: "wc_launched (hk_record g) = Some l" "chain l (wc_windows (hk_record g)) (sm_time (hk_window g))"
    using g(1) by (auto simp: hooks_ok_def)
  have ch: "chain l ?ws (sm_time at_exit)" using chain_snoc[OF l(2)] g(5) by (simp add: clean_window_def)
  have win: "windows_problem th None ?ws = Inr []"
    by (rule clean_chain_ok[OF ch]) (use g(1,5) assms(3) in \<open>auto simp: h hooks_ok_def\<close>)
  have intervals: "mapE (interval_problem ?ws) (enumerate 0 ?ms) = Inr (map (\<lambda>_. []) (enumerate 0 ?ms))"
  proof (rule mapE_total)
    fix x assume "x \<in> set (enumerate 0 ?ms)"
    then have x: "fst x < length ?ms" "x = (fst x, ?ms ! fst x)"
      by (auto simp: in_set_enumerate_eq prod_eq_iff)
    show "interval_problem ?ws x = Inr []"
      by (subst x(2), rule kept_interval_admissible[OF g(1,2) x(1) _ g(4)]) (use assms(4) in \<open>simp add: h\<close>)
  qed
  have single: "\<not> list_ex w_final (wc_windows (hk_record g))" "\<not> wc_aborted (hk_record g)"
    using g(1) by (auto simp: hooks_ok_def list_ex_iff)
  have ends: "\<not> far_opt (w_start (hd ?ws)) l" "w_end w = Some (sm_time at_exit)"
    using chain_ends[OF ch] g(5) by (simp_all add: far_opt_def clean_window_def)
  show ?thesis
    unfolding record_problems_def Let_def h
    using win intervals single ends g(3,6) l(1) by (simp add: far_opt_def)
qed

section \<open>Witnesses\<close>

definition demo_reading :: "real \<Rightarrow> sample" where
  "demo_reading t = \<lparr>sm_time = t, sm_busy = t, sm_cpu = [(7, t)]\<rparr>"

definition demo_events :: "hook_event list" where
  "demo_events = [Boundary True (Inr ()) (demo_reading 1), Boundary False (Inr ()) (demo_reading 2)]"

definition demo_watched :: "(hooks \<times> bool) res" where
  "demo_watched = run_process THRESHOLDS (launch ''j'' 1 7 [2, 3] (demo_reading 0)) demo_events (demo_reading 3) 3 0"

lemma demo_watched_clean:
  "\<exists>h. demo_watched = Inr (h, False) \<and> all_closed (wc_measurements (hk_record h))
     \<and> (\<forall>w\<in>set (wc_windows (hk_record h)). the (w_seconds w) \<le> th_window THRESHOLDS * 2 + 1)"
  by (simp add: demo_watched_def run_process_def demo_events_def demo_reading_def launch_def boundary_def cut_def
      close_window_def record_window_def judge_window_def check_a_def THRESHOLDS_def cpu_delta_def cpu_at_def Let_def
      on_exited_def on_reaped_def decisive_def set_end_def all_closed_def)

theorem clean_process_admissible_witness:
  "\<exists>h. demo_watched = Inr (h, False) \<and> record_problems (hk_record h) THRESHOLDS [2, 3] = Inr []"
proof -
  obtain h where h: "demo_watched = Inr (h, False)" "all_closed (wc_measurements (hk_record h))"
    "\<forall>w\<in>set (wc_windows (hk_record h)). the (w_seconds w) \<le> th_window THRESHOLDS * 2 + 1"
    using demo_watched_clean by blast
  have "sorted (sm_time (demo_reading 0) # map (\<lambda>e. sm_time (reading e)) demo_events)"
    by (simp add: demo_events_def demo_reading_def)
  from clean_process_admissible[OF h(1)[unfolded demo_watched_def] this h(3,2)] h(1) show ?thesis by blast
qed

definition demo_wrecord :: wrecord where
  "demo_wrecord = \<lparr>wc_job = ''j'', wc_process = 1, wc_aborted = False, wc_cpus = [2, 3], wc_launched = Some 0,
     wc_exited = Some 2, wc_returncode = Some 0, wc_windows = [\<lparr>w_index = 0, w_start = Some 0, w_end = Some 2,
       w_seconds = Some 2, w_busy = Some 1, w_cpu = Some 1, w_foreign = Some 0, w_final = True, w_measurement = None\<rparr>],
     wc_measurements = []\<rparr>"

theorem admissible_covers_process_witness:
  "\<bar>seconds_of (wc_windows demo_wrecord) - 2\<bar> \<le> 3 * TOLERANCE_S"
proof -
  have "record_problems demo_wrecord THRESHOLDS [2, 3] = Inr []"
    by (simp add: record_problems_def demo_wrecord_def window_problem_def no_counters_def far_def far_opt_def
        TOLERANCE_S_def THRESHOLDS_def decisive_def)
  from admissible_covers_process[OF this] show ?thesis by (simp add: demo_wrecord_def)
qed

definition demo_window :: "nat \<Rightarrow> nat option \<Rightarrow> window" where
  "demo_window i m = \<lparr>w_index = i, w_start = Some (real i), w_end = Some (real i + 1), w_seconds = Some 1,
     w_busy = Some 1, w_cpu = Some 1, w_foreign = Some 0, w_final = (i = 2), w_measurement = m\<rparr>"

definition demo_measured_job :: "string \<Rightarrow> wrecord" where
  "demo_measured_job label = \<lparr>wc_job = label, wc_process = 1, wc_aborted = False, wc_cpus = [2, 3],
     wc_launched = Some 0, wc_exited = Some 3, wc_returncode = Some 0,
     wc_windows = [demo_window 0 None, demo_window 1 (Some 0), demo_window 2 None],
     wc_measurements = [(Some 1, Some 2)]\<rparr>"

lemma demo_measured_job_ok: "record_problems (demo_measured_job label) THRESHOLDS [2, 3] = Inr []"
  by (simp add: record_problems_def demo_measured_job_def demo_window_def window_problem_def no_counters_def far_def
      far_opt_def TOLERANCE_S_def THRESHOLDS_def decisive_def judge_window_def check_a_def interval_problem_def
      keyed_def Let_def)

definition demo_required :: "nat cost_requirement" where
  "demo_required = requirement_of 0 [(''ncpus'', Some (TNum 18))]"

definition demo_monitored :: "nat monitored_bundle" where
  "demo_monitored = \<lparr>mb_mode = Some ''cores'',
     mb_monitor = Some \<lparr>me_format = EVIDENCE_FORMAT, me_contract = CONTRACT, me_identity = 0,
       me_thresholds = THRESHOLDS, me_tier = [(''ncpus'', Some (TNum 18))], me_host = Some ''h'', me_attempt = True,
       me_slots = Some COST_SLOTS, me_exclusive = True, me_single_host = True, me_hosts = [(''h'', 9)],
       me_selectors = [(''ncpus'', TNum 18)], me_physical_cores = Some 18,
       me_layout = \<lparr>ly_name = LAYOUT, ly_mask = [0, 1, 2, 3], ly_monitor = [0, 1], ly_worker = [2, 3], ly_reserved = []\<rparr>,
       me_idle = \<lparr>id_seconds = Some 2, id_foreign = Some 0\<rparr>,
       me_workers = [demo_measured_job ''b'', demo_measured_job ''e'']\<rparr>,
     mb_host = Some ''h'', mb_jobs = [(''b'', ''baseline''), (''e'', ''evolved'')]\<rparr>"

lemma demo_admitted: "validate_evidence demo_monitored demo_required ''timing'' 1 1 = Inr ()"
proof -
  have "unbalanced [(''b'', ''baseline''), (''e'', ''evolved'')] = False" by (auto simp: unbalanced_def)
  moreover have "wc_job (demo_measured_job l) = l" "wc_measurements (demo_measured_job l) = [(Some 1, Some 2)]" for l
    by (simp_all add: demo_measured_job_def)
  ultimately have "coverage_problems [(''b'', ''baseline''), (''e'', ''evolved'')]
      [demo_measured_job ''b'', demo_measured_job ''e''] THRESHOLDS [2, 3] ''timing'' 1 1 = Inr []"
    by (simp add: coverage_problems_def expected_jobs_def measured_per_job_def demo_measured_job_ok Let_def)
  then show ?thesis
    by (simp add: validate_evidence_def evidence_problems_def demo_monitored_def demo_required_def requirement_of_def
        differing_def tier_ncpus_def tier_problems_def layout_problems_def idle_problems_def check_a_def THRESHOLDS_def
        Let_def)
qed


text \<open>
  A measured window without its counters is a problem of the record, but the interval it covers
  is still read: the \<open>KeyError\<close> then escapes the validator.
\<close>

lemma damaged_window_raises:
  "record_problems ((demo_measured_job ''j'')\<lparr>wc_windows := [demo_window 0 None,
      (demo_window 1 (Some 0))\<lparr>w_start := None\<rparr>, demo_window 2 None]\<rparr>) THRESHOLDS [2, 3] = Inl KeyError"
  by (simp add: record_problems_def demo_measured_job_def demo_window_def window_problem_def no_counters_def far_def
      far_opt_def TOLERANCE_S_def THRESHOLDS_def decisive_def judge_window_def check_a_def interval_problem_def
      keyed_def Let_def)

end
