(* ===== verification/Results.thy ===== *)
theory Results
  imports Prelude
begin

text \<open>
  The baseline results of the store, \<open>src/src/qtb/coordinator/store.py\<close> (\<open>results_dir\<close>,
  \<open>read_results\<close>, \<open>publish_results\<close>): an entry is the files one session wrote and the session
  that published them. Publication is a rename, so an entry is there whole or not at all; what
  the other sessions publish while an entry is being filled is an argument. Time stamps and the
  names of private directories are left out.
\<close>

section \<open>Publishing and reading\<close>

definition RESULT_KINDS :: "string list" where
  "RESULT_KINDS = [''correctness'', ''unit-tests'']"

record 'f result_entry =
  re_files :: 'f
  re_session :: string

type_synonym 'f results = "string \<times> string \<Rightarrow> 'f result_entry option"

definition results_dir :: "string \<Rightarrow> string \<Rightarrow> (string \<times> string) res" where
  "results_dir kind key =
     (if kind \<in> set RESULT_KINDS then Inr (kind, key) else Inl (HarnessError ''Unknown store result kind''))"

definition read_results :: "string \<Rightarrow> string \<Rightarrow> 'f results \<Rightarrow> 'f result_entry option res" where
  "read_results kind key st = bindE (results_dir kind key) (\<lambda>final. Inr (st final))"

text \<open>
  An entry that is there is kept; else the files are written aside and renamed, and a rename onto an
  entry that another session published meanwhile fails and keeps that entry.
\<close>

definition publish_results ::
    "string \<Rightarrow> string \<Rightarrow> 'f res \<Rightarrow> string \<Rightarrow> ('f results \<Rightarrow> 'f results) \<Rightarrow> 'f results \<Rightarrow> unit res \<times> 'f results" where
  "publish_results kind key fill session others st =
     bindS (results_dir kind key, st) (\<lambda>final st.
       if st final \<noteq> None then (Inr (), st)
       else
         let st = others st in
         bindS (fill, st) (\<lambda>files st.
           (Inr (), if st final = None then st(final \<mapsto> \<lparr>re_files = files, re_session = session\<rparr>) else st)))"

section \<open>The first publisher wins\<close>

text \<open>Other sessions publish entries of their own and change none.\<close>

definition fair_others :: "('f results \<Rightarrow> 'f results) \<Rightarrow> bool" where
  "fair_others others \<longleftrightarrow> (\<forall>st. st \<subseteq>\<^sub>m others st)"

inductive publish_step :: "'f results \<Rightarrow> 'f results \<Rightarrow> bool" where
  "fair_others others \<Longrightarrow> publish_step st (snd (publish_results kind key fill session others st))"

lemma publish_results_grows:
  assumes "fair_others others"
  shows "st \<subseteq>\<^sub>m snd (publish_results kind key fill session others st)"
proof -
  have o: "st \<subseteq>\<^sub>m others st" using assms by (simp add: fair_others_def)
  have "st \<subseteq>\<^sub>m (others st)(final \<mapsto> e)" if "others st final = None" for final e
    using o that by (auto simp: map_le_def dom_def)
  with o show ?thesis
    by (auto simp: publish_results_def results_dir_def bindS_def Let_def split: sum.split)
qed

interpretation published: write_once "publish_step" "\<lambda>st. st"
proof unfold_locales
  fix s s' :: "'f results" and k v
  assume "publish_step s s'" and "s k = Some v"
  then have "s \<subseteq>\<^sub>m s'" by (auto elim!: publish_step.cases intro: publish_results_grows)
  with \<open>s k = Some v\<close> show "s' k = Some v" unfolding map_le_def by (metis domI)
qed

lemma publish_results_present:
  assumes "publish_results kind key fill session others st = (Inr u, st')"
  shows "\<exists>e. st' (kind, key) = Some e"
  using assms
  by (auto simp: publish_results_def results_dir_def bindS_def Let_def split: sum.splits if_splits)

text \<open>A key nobody else publishes holds the files its session wrote.\<close>

lemma publish_results_own:
  assumes "kind \<in> set RESULT_KINDS" and "st (kind, key) = None" and "others st (kind, key) = None"
    and "publish_results kind key (Inr files) session others st = (Inr u, st')"
  shows "st' (kind, key) = Some \<lparr>re_files = files, re_session = session\<rparr>"
  using assms by (auto simp: publish_results_def results_dir_def bindS_def Let_def)

end
