(* ===== verification/Upstream.thy ===== *)
theory Upstream
  imports Results Text Gate
begin

text \<open>
  The baseline's own tests, \<open>src/src/qtb/coordinator/upstream.py\<close>: what a pytest run and a
  \<open>cargo test\<close> log say, \<open>judge\<close>, and \<open>upstream_checks\<close> with the baseline half reused from the
  store. What the test processes do is given: pytest's exit with the rows of its plugin, and
  cargo's log. Copying the test tree, the pytest configuration and the environment of the processes
  are file work; the paths of logs and records are left out of the results.
\<close>

section \<open>Python tests\<close>

record test_row =
  tr_nodeid :: string
  tr_when :: string
  tr_outcome :: string
  tr_detail :: string

record suite_result =
  sr_completed :: bool
  sr_failed :: "string list"
  sr_passed :: "string list"
  sr_records :: "test_row list"
  sr_cached_from :: "string option"

text \<open>How pytest ended: with an exit status, or stopped by its time limit or a refused environment.\<close>

datatype pytest_end = Exited int | Stopped

definition PYTEST_COMPLETED :: "int list" where
  "PYTEST_COMPLETED = [0, 1]"

definition compact_results :: "test_row list \<Rightarrow> test_row list" where
  "compact_results rows = map (\<lambda>r. if tr_outcome r = ''failed'' then r else r\<lparr>tr_detail := []\<rparr>) rows"

definition python_suite :: "pytest_end \<times> test_row list \<Rightarrow> suite_result" where
  "python_suite run =
     (let (exit, rows) = run in
      \<lparr>sr_completed = (case exit of Exited code \<Rightarrow> code \<in> set PYTEST_COMPLETED | Stopped \<Rightarrow> False),
       sr_failed = sorted_set (map tr_nodeid (filter (\<lambda>r. tr_outcome r = ''failed'') rows)),
       sr_passed = sorted_set (map tr_nodeid (filter (\<lambda>r. tr_when r = ''call'' \<and> tr_outcome r = ''passed'') rows)),
       sr_records = compact_results rows, sr_cached_from = None\<rparr>)"

section \<open>Rust tests\<close>

fun lines_of :: "string \<Rightarrow> string list" where
  "lines_of [] = [[]]"
| "lines_of (c # s) =
     (if c = CHR 0x0A then [] # lines_of s
      else case lines_of s of [] \<Rightarrow> [[c]] | l # ls \<Rightarrow> (c # l) # ls)"

text \<open>
  \<open>RUST_TEST\<close> on one line: the name takes every character up to the first blank, and only blanks may
  follow the outcome. A match never reaches another line's test, for it ends in blanks.
\<close>

definition rust_line :: "string \<Rightarrow> (string \<times> string) option" where
  "rust_line l =
     (let name = takeWhile (\<lambda>c. \<not> is_space c) (drop 5 l); rest = dropWhile (\<lambda>c. \<not> is_space c) (drop 5 l) in
      if starts_with l ''test '' \<and> name \<noteq> [] \<and> starts_with rest '' ... ''
      then map_option (Pair name)
        (find (\<lambda>w. starts_with (drop 5 rest) w \<and> list_all is_space (drop (length w) (drop 5 rest)))
          [''ok'', ''FAILED'', ''ignored''])
      else None)"

definition rust_outcomes :: "string \<Rightarrow> (string \<times> string) list" where
  "rust_outcomes contents = List.map_filter rust_line (lines_of contents)"

text \<open>The tests with an outcome; the last line of a name counts.\<close>

definition rust_named :: "(string \<times> string) list \<Rightarrow> string \<Rightarrow> string list" where
  "rust_named outcomes w = sorted_set (filter (\<lambda>n. dict_of outcomes n = Some w) (map fst outcomes))"

text \<open>Cargo's own end does not count: only executed tests do. No log reads as an empty one.\<close>

definition rust_suite :: "string option \<Rightarrow> suite_result" where
  "rust_suite file =
     (let contents = (case file of None \<Rightarrow> [] | Some t \<Rightarrow> t); outcomes = rust_outcomes contents in
      \<lparr>sr_completed = (contains_str contents ''test result:'' \<and> \<not> contains_str contents ''could not compile''),
       sr_failed = rust_named outcomes ''FAILED'', sr_passed = rust_named outcomes ''ok'',
       sr_records = [], sr_cached_from = None\<rparr>)"

section \<open>The judgement\<close>

definition regressions :: "suite_result \<Rightarrow> suite_result \<Rightarrow> string list" where
  "regressions b e =
     sorted_set (filter (\<lambda>t. t \<notin> set (sr_failed b)) (sr_failed e) @ filter (\<lambda>t. t \<notin> set (sr_passed e)) (sr_passed b))"

definition judge_suite ::
    "suite_result \<Rightarrow> suite_result \<Rightarrow> (string \<times> string) \<times> (string \<times> string) \<times> string list" where
  "judge_suite b e =
     (let base =
        (if \<not> sr_completed b then (''unresolved'', ''Baseline suite did not complete'')
         else if sr_failed b \<noteq> []
         then (''unresolved'', show_nat (length (sr_failed b)) @ '' known-bad baseline failures'')
         else (''passed'', [])) in
      if \<not> sr_completed e then (base, (''unresolved'', ''Evolved suite did not complete''), [])
      else if \<not> sr_completed b
      then if sr_failed e \<noteq> []
        then (base, (''unresolved'', ''No complete baseline to compare failures with''), [])
        else (base, (''passed'', []), [])
      else if regressions b e \<noteq> []
      then (base, (''failed'', show_nat (length (regressions b e)) @ '' tests regressed against baseline''), regressions b e)
      else (base, (''passed'', []), []))"

section \<open>The checks\<close>

record unit_tests_key =
  uk_build :: string
  uk_harness :: "string option"
  uk_dev_tests_lock :: string
  uk_test_tree :: "(string \<times> string) list"
  uk_budgets :: "string \<times> string"
  uk_machine_cpu :: "string option"

text \<open>
  \<open>ue_files\<close> are the baseline snapshot's files with their entries; the suites run for \<open>baseline\<close>,
  \<open>evolved\<close> and \<open>evolved-own\<close>, the candidate's own tests.
\<close>

record uenv =
  ue_profile :: string
  ue_builds :: builds
  ue_has_store :: bool
  ue_files :: "(string \<times> string) list"
  ue_key_fields :: unit_tests_key
  ue_digest :: "unit_tests_key \<Rightarrow> string"
  ue_directory :: string
  ue_changed_paths :: "string list"
  ue_python :: "string \<Rightarrow> (pytest_end \<times> test_row list) res"
  ue_rust :: "string \<Rightarrow> string option res"
  ue_others :: "(suite_result \<times> suite_result) results \<Rightarrow> (suite_result \<times> suite_result) results"

record ustate =
  us_records :: "crec list"
  us_results :: "(suite_result \<times> suite_result) results"
  us_changed :: "string list \<times> string list"
  us_own :: "suite_result option"

definition test_tree :: "(string \<times> string) list \<Rightarrow> (string \<times> string) list" where
  "test_tree files = filter (\<lambda>(path, entry). starts_with path ''test/'') files"

definition baseline_unit_tests_key :: "uenv \<Rightarrow> string option res" where
  "baseline_unit_tests_key env =
     (if \<not> ue_has_store env \<or> same_build (ue_builds env) then Inr None
      else case b_baseline (ue_builds env) of
        None \<Rightarrow> Inl KeyError
      | Some build \<Rightarrow> Inr (Some (ue_digest env
          ((ue_key_fields env)\<lparr>uk_build := build, uk_test_tree := test_tree (ue_files env)\<rparr>))))"

definition run_suites :: "uenv \<Rightarrow> string \<Rightarrow> (suite_result \<times> suite_result) res" where
  "run_suites env revision =
     bindE (ue_python env revision) (\<lambda>p.
     bindE (ue_rust env revision) (\<lambda>r. Inr (python_suite p, rust_suite r)))"

definition from_store :: "string \<Rightarrow> suite_result \<Rightarrow> suite_result" where
  "from_store key r = r\<lparr>sr_cached_from := Some key\<rparr>"

text \<open>The baseline half: read from the store, or run and, when both suites completed, published.\<close>

definition baseline_half ::
    "uenv \<Rightarrow> string option \<Rightarrow> (suite_result \<times> suite_result) results
       \<Rightarrow> (suite_result \<times> suite_result) res \<times> (suite_result \<times> suite_result) results" where
  "baseline_half env key st =
     bindS (case key of None \<Rightarrow> Inr None | Some k \<Rightarrow> read_results ''unit-tests'' k st, st) (\<lambda>entry st.
       case entry of
         Some e \<Rightarrow> (Inr (from_store (the key) (fst (re_files e)), from_store (the key) (snd (re_files e))), st)
       | None \<Rightarrow>
           bindS (run_suites env ''baseline'', st) (\<lambda>(p, r) st.
             case key of
               Some k \<Rightarrow>
                 if sr_completed p \<and> sr_completed r
                 then bindS (publish_results ''unit-tests'' k (Inr (p, r)) (ue_directory env) (ue_others env) st)
                   (\<lambda>_ st. (Inr (p, r), st))
                 else (Inr (p, r), st)
             | None \<Rightarrow> (Inr (p, r), st)))"

definition upstream_id :: "string \<Rightarrow> string \<Rightarrow> string \<Rightarrow> string" where
  "upstream_id pre suite revision = pre @ ''1/upstream/'' @ suite @ revision"

definition suite_details :: "suite_result \<Rightarrow> string \<Rightarrow> (string \<times> dval) list \<Rightarrow> (string \<times> dval) list" where
  "suite_details r detail judged =
     [(''detail'', DStr detail), (''completed'', DBool (sr_completed r))]
     @ (case sr_cached_from r of None \<Rightarrow> [] | Some k \<Rightarrow> [(''cached_from'', DStr k)])
     @ judged @ [(''passed_count'', DNat (length (sr_passed r)))]"

text \<open>The two records of a suite, the baseline's failures as known-bad tests.\<close>

definition suite_records :: "string \<Rightarrow> string \<times> suite_result \<times> suite_result \<Rightarrow> crec list" where
  "suite_records pre x =
     (let (suite, b, e) = x; (base, judged, regressed) = judge_suite b e in
      [record_of (upstream_id pre suite ''baseline'') ''correctness'' (fst base) ''reference''
         (suite_details b (snd base) [(''known_bad'', DStrs (sr_failed b))]),
       record_of (upstream_id pre suite ''evolved'') ''correctness'' (fst judged) ''evolved''
         (suite_details e (snd judged) [(''failed'', DStrs (sr_failed e)), (''regressions'', DStrs regressed)])])"

definition upstream_records :: "string \<Rightarrow> (string \<times> suite_result \<times> suite_result) list \<Rightarrow> crec list" where
  "upstream_records pre suites = concat (map (suite_records pre) suites)"

definition upstream_checks :: "uenv \<Rightarrow> ustate \<Rightarrow> unit res \<times> ustate" where
  "upstream_checks env st =
     (let pre = profile_prefix (ue_profile env);
          st = st\<lparr>us_changed := (filter (\<lambda>p. starts_with p ''test/'') (ue_changed_paths env),
            filter (\<lambda>p. ends_with p ''.rs'') (ue_changed_paths env))\<rparr> in
      bindS (baseline_unit_tests_key env, st) (\<lambda>key st.
      bindS (let (half, results) = baseline_half env key (us_results st) in (half, st\<lparr>us_results := results\<rparr>)) (\<lambda>(pb, rb) st.
      bindS (run_suites env ''evolved'', st) (\<lambda>(pe, re) st.
      let rows = upstream_records pre [([], pb, pe), (''rust/'', rb, re)];
          st = st\<lparr>us_records := foldl evidence (us_records st) rows\<rparr> in
      bindS (ue_python env ''evolved-own'', st) (\<lambda>p st.
      let evolved_passed = list_all (\<lambda>r. cr_result r = ''passed'')
            (filter (\<lambda>r. cr_id r \<in> cr_id ` set rows \<and> cr_subject r = ''evolved'') (us_records st)) in
      (Inr (), st\<lparr>us_own := Some (python_suite p),
         us_records := evidence (us_records st) (record_of (pre @ ''1/upstream'') ''correctness''
           (if evolved_passed then ''passed'' else ''unresolved'') ''evolved'' [])\<rparr>))))))"

section \<open>Nothing the baseline passes is lost\<close>

text \<open>
  What a passed comparison means: the candidate's run completed; against a complete baseline it fails
  no test the baseline did not fail and passes every test the baseline passed, and without one it
  fails nothing.
\<close>

definition kept_passing :: "suite_result \<Rightarrow> suite_result \<Rightarrow> bool" where
  "kept_passing b e \<longleftrightarrow> sr_completed e
     \<and> (if sr_completed b then set (sr_failed e) \<subseteq> set (sr_failed b) \<and> set (sr_passed b) \<subseteq> set (sr_passed e)
        else sr_failed e = [])"

lemma regressions_Nil: "regressions b e = [] \<longleftrightarrow>
    set (sr_failed e) \<subseteq> set (sr_failed b) \<and> set (sr_passed b) \<subseteq> set (sr_passed e)"
  by (auto simp: regressions_def sorted_set_Nil_iff filter_empty_conv)

lemma judge_suite_passed: "fst (fst (snd (judge_suite b e))) = ''passed'' \<longleftrightarrow> kept_passing b e"
  by (auto simp: judge_suite_def kept_passing_def regressions_Nil Let_def)

lemma judge_suite_failed: "fst (fst (snd (judge_suite b e))) = ''failed'' \<longleftrightarrow>
    sr_completed b \<and> sr_completed e \<and> regressions b e \<noteq> []"
  by (auto simp: judge_suite_def Let_def)

lemma upstream_records_pair:
  "upstream_records pre [([], pb, pe), (''rust/'', rb, re)] =
     suite_records pre ([], pb, pe) @ suite_records pre (''rust/'', rb, re)"
  by (simp add: upstream_records_def)

lemma suite_records_ids:
  "map cr_id (suite_records pre (suite, b, e)) = [upstream_id pre suite ''baseline'', upstream_id pre suite ''evolved'']"
  by (simp add: suite_records_def split: prod.split)

lemma upstream_records_ids:
  "distinct (map cr_id (upstream_records pre [([], pb, pe), (''rust/'', rb, re)]))"
  by (simp add: upstream_records_pair suite_records_ids upstream_id_def)

text \<open>After a log has taken rows of distinct identifiers, its records of those identifiers are the rows.\<close>

lemma logged_rows:
  assumes "distinct (map cr_id rows)"
  shows "{r \<in> set (foldl evidence rs rows). cr_id r \<in> cr_id ` set rows} = set rows"
proof -
  have u: "y = x" if "x \<in> set rows" "y \<in> set rows" "cr_id y = cr_id x" for x y
    using assms that by (meson distinct_map inj_onD)
  show ?thesis
  proof (intro equalityI subsetI)
    fix r assume "r \<in> {r \<in> set (foldl evidence rs rows). cr_id r \<in> cr_id ` set rows}"
    then obtain x where "x \<in> set rows" "cr_id r = cr_id x" "r \<in> set (foldl evidence rs rows)" by auto
    with evidence_log.puts_unique[OF this(1) u[OF this(1)] this(3) this(2)] show "r \<in> set rows" by simp
  qed (auto intro: evidence_log.puts_member u)
qed

lemma suite_records_evolved:
  "list_all (\<lambda>r. cr_subject r = ''evolved'' \<longrightarrow> cr_result r = ''passed'') (suite_records pre (suite, b, e))
    \<longleftrightarrow> kept_passing b e"
  by (simp add: suite_records_def split: prod.split) (metis fst_conv judge_suite_passed snd_conv)

text \<open>What one call of the checks did: the two halves it compared and the records it wrote.\<close>

lemma upstream_checks_Inr:
  assumes "upstream_checks env st = (Inr u, st')"
  obtains key pb rb results pe re
  where "baseline_unit_tests_key env = Inr key" "baseline_half env key (us_results st) = (Inr (pb, rb), results)"
    "run_suites env ''evolved'' = Inr (pe, re)" "us_results st' = results"
    "us_records st' = evidence (foldl evidence (us_records st)
        (upstream_records (profile_prefix (ue_profile env)) [([], pb, pe), (''rust/'', rb, re)]))
      (record_of (profile_prefix (ue_profile env) @ ''1/upstream'') ''correctness''
        (if kept_passing pb pe \<and> kept_passing rb re then ''passed'' else ''unresolved'') ''evolved'' [])"
proof -
  let ?pre = "profile_prefix (ue_profile env)"
  note run = assms[unfolded upstream_checks_def Let_def]
  obtain key where k: "baseline_unit_tests_key env = Inr key"
    using run by (cases "baseline_unit_tests_key env") (simp_all add: bindS_def)
  obtain half results where h: "baseline_half env key (us_results st) = (half, results)" by force
  obtain pb rb where b: "half = Inr (pb, rb)" using run by (cases half) (auto simp: bindS_def k h)
  obtain pe re where e: "run_suites env ''evolved'' = Inr (pe, re)"
    using run by (cases "run_suites env ''evolved''") (auto simp: bindS_def k h b)
  obtain p where p: "ue_python env ''evolved-own'' = Inr p"
    using run by (cases "ue_python env ''evolved-own''") (auto simp: bindS_def k h b e)
  note s = k h[unfolded b] e
  let ?rows = "upstream_records ?pre [([], pb, pe), (''rust/'', rb, re)]"
  have "list_all (\<lambda>r. cr_result r = ''passed'') (filter (\<lambda>r. cr_id r \<in> cr_id ` set ?rows \<and> cr_subject r = ''evolved'')
        (foldl evidence (us_records st) ?rows))
      \<longleftrightarrow> (\<forall>r\<in>{r \<in> set (foldl evidence (us_records st) ?rows). cr_id r \<in> cr_id ` set ?rows}. cr_subject r = ''evolved'' \<longrightarrow> cr_result r = ''passed'')"
    by (auto simp: list_all_iff)
  also have "\<dots> \<longleftrightarrow> list_all (\<lambda>r. cr_subject r = ''evolved'' \<longrightarrow> cr_result r = ''passed'') ?rows"
    by (simp only: logged_rows[OF upstream_records_ids] list_all_iff)
  also have "\<dots> \<longleftrightarrow> kept_passing pb pe \<and> kept_passing rb re"
    by (simp only: upstream_records_pair list_all_append suite_records_evolved)
  finally show ?thesis using that[OF s] run by (auto simp: bindS_def k h b e p)
qed

text \<open>
  C24. The upstream tests pass exactly when nothing the baseline passes is lost: the candidate's Python and Rust
  suites completed, fail no test that the complete baseline does not fail, and pass every test it
  passes; the baseline's own failures never count against the candidate.
\<close>

theorem upstream_passes_iff:
  assumes "upstream_checks env st = (Inr u, st')" and "baseline_unit_tests_key env = Inr key"
    and "baseline_half env key (us_results st) = (Inr (pb, rb), results)"
    and "run_suites env ''evolved'' = Inr (pe, re)"
  shows "result_of (us_records st') (profile_prefix (ue_profile env) @ ''1/upstream'') = Some ''passed''
    \<longleftrightarrow> kept_passing pb pe \<and> kept_passing rb re"
proof -
  obtain k p r results' p' r' where o: "baseline_unit_tests_key env = Inr k"
    "baseline_half env k (us_results st) = (Inr (p, r), results')" "run_suites env ''evolved'' = Inr (p', r')"
    and records: "us_records st' = evidence (foldl evidence (us_records st)
        (upstream_records (profile_prefix (ue_profile env)) [([], p, p'), (''rust/'', r, r')]))
      (record_of (profile_prefix (ue_profile env) @ ''1/upstream'') ''correctness''
        (if kept_passing p p' \<and> kept_passing r r' then ''passed'' else ''unresolved'') ''evolved'' [])"
    by (rule upstream_checks_Inr[OF assms(1)])
  have "k = key" using o(1) assms(2) by simp
  with o(2) assms(3) have "p = pb" "r = rb" by simp_all
  moreover from o(3) assms(4) have "p' = pe" "r' = re" by simp_all
  ultimately show ?thesis unfolding records by (simp add: result_of_evidence[of _ "record_of i k' v s d" for i k' v s d, simplified])
qed

section \<open>The stored baseline\<close>

lemma from_store_sel [simp]:
  "sr_completed (from_store key b) = sr_completed b" "sr_failed (from_store key b) = sr_failed b"
  "sr_passed (from_store key b) = sr_passed b"
  by (simp_all add: from_store_def)

lemma judge_suite_cached: "judge_suite (from_store key b) e = judge_suite b e"
  by (simp only: judge_suite_def regressions_def from_store_sel)

text \<open>
  C25. The first completed baseline under a key is the one every later session compares with: what a session
  measured and published is read back, marked with its key, after any publications of any
  sessions, whatever the reading session's own baseline would do, and it judges every
  candidate as it did when measured.
\<close>

theorem stored_suites_reused:
  assumes "baseline_half env (Some key) st = (Inr (p, r), st1)" and "st (''unit-tests'', key) = None"
    and "ue_others env st (''unit-tests'', key) = None" and "sr_completed p" and "sr_completed r"
    and "publish_step\<^sup>*\<^sup>* st1 st2"
  shows "baseline_half env' (Some key) st2 = (Inr (from_store key p, from_store key r), st2)
    \<and> judge_suite (from_store key p) e = judge_suite p e \<and> judge_suite (from_store key r) e = judge_suite r e"
proof -
  have read: "read_results ''unit-tests'' key st' = Inr (st' (''unit-tests'', key))" for st' :: "(suite_result \<times> suite_result) results"
    by (simp add: read_results_def results_dir_def RESULT_KINDS_def)
  have "run_suites env ''baseline'' = Inr (p, r)"
    "publish_results ''unit-tests'' key (Inr (p, r)) (ue_directory env) (ue_others env) st = (Inr (), st1)"
    using assms(1,2,4,5) by (auto simp: baseline_half_def bindS_Inr read split: if_splits)
  from publish_results_own[OF _ assms(2,3) this(2)]
  have "st1 (''unit-tests'', key) = Some \<lparr>re_files = (p, r), re_session = ue_directory env\<rparr>"
    by (simp add: RESULT_KINDS_def)
  from published.entry_stable[OF assms(6) this]
  show ?thesis by (simp add: baseline_half_def read bindS_def judge_suite_cached)
qed

section \<open>Sample runs\<close>

definition demo_suite_rows :: "test_row list" where
  "demo_suite_rows = [\<lparr>tr_nodeid = ''a'', tr_when = ''call'', tr_outcome = ''passed'', tr_detail = []\<rparr>,
     \<lparr>tr_nodeid = ''b'', tr_when = ''call'', tr_outcome = ''failed'', tr_detail = ''known''\<rparr>]"

definition demo_log :: string where
  "demo_log = ''test x::y ... ok'' @ [CHR 0x0A] @ ''test result: ok''"

definition demo_uenv :: uenv where
  "demo_uenv = \<lparr>ue_profile = ''iterations-profile'', ue_builds = \<lparr>b_baseline = Some ''b'', b_evolved = Some ''x''\<rparr>,
     ue_has_store = True, ue_files = [(''test/a'', ''0'')],
     ue_key_fields = \<lparr>uk_build = [], uk_harness = None, uk_dev_tests_lock = [], uk_test_tree = [], uk_budgets = ([], []),
       uk_machine_cpu = None\<rparr>,
     ue_digest = uk_build, ue_directory = ''s'', ue_changed_paths = [''test/a'', ''src/b.rs''],
     ue_python = (\<lambda>_. Inr (Exited 1, demo_suite_rows)), ue_rust = (\<lambda>_. Inr (Some demo_log)),
     ue_others = id\<rparr>"

definition demo_python :: suite_result where
  "demo_python = \<lparr>sr_completed = True, sr_failed = [''b''], sr_passed = [''a''], sr_records = demo_suite_rows,
     sr_cached_from = None\<rparr>"

definition demo_rust :: suite_result where
  "demo_rust = \<lparr>sr_completed = True, sr_failed = [], sr_passed = [''x::y''], sr_records = [], sr_cached_from = None\<rparr>"

definition demo_ustate :: ustate where
  "demo_ustate = \<lparr>us_records = [], us_results = (\<lambda>_. None), us_changed = ([], []), us_own = None\<rparr>"

lemma demo_suites: "run_suites demo_uenv revision = Inr (demo_python, demo_rust)"
proof -
  have "python_suite (Exited 1, demo_suite_rows) = demo_python" by code_simp
  moreover have "rust_suite (Some demo_log) = demo_rust" by code_simp
  ultimately show ?thesis by (simp add: run_suites_def demo_uenv_def)
qed

lemma demo_key: "baseline_unit_tests_key demo_uenv = Inr (Some ''b'')"
  by (simp add: baseline_unit_tests_key_def demo_uenv_def same_build_def)

lemma demo_half: "\<exists>results. baseline_half demo_uenv (Some ''b'') (\<lambda>_. None) = (Inr (demo_python, demo_rust), results)"
  by (simp add: baseline_half_def demo_suites bindS_def read_results_def results_dir_def RESULT_KINDS_def
      publish_results_def demo_python_def demo_rust_def Let_def split: prod.split)

theorem upstream_passes_iff_witness:
  "\<exists>st'. upstream_checks demo_uenv demo_ustate = (Inr (), st')
    \<and> result_of (us_records st') ''IA1/upstream'' = Some ''passed''"
proof -
  obtain results where half: "baseline_half demo_uenv (Some ''b'') (\<lambda>_. None) = (Inr (demo_python, demo_rust), results)"
    using demo_half by blast
  have own: "\<exists>p. ue_python demo_uenv ''evolved-own'' = Inr p" and pre: "profile_prefix (ue_profile demo_uenv) = ''IA''"
    by (simp_all add: demo_uenv_def profile_prefix_def)
  have h: "baseline_half demo_uenv (Some ''b'') (us_results demo_ustate) = (Inr (demo_python, demo_rust), results)"
    by (simp add: demo_ustate_def half)
  with own obtain st' where r: "upstream_checks demo_uenv demo_ustate = (Inr (), st')"
    by (auto simp: upstream_checks_def Let_def bindS_def demo_key demo_suites)
  have kept: "kept_passing demo_python demo_python" "kept_passing demo_rust demo_rust"
    by (simp_all add: kept_passing_def demo_python_def demo_rust_def)
  have "result_of (us_records st') (profile_prefix (ue_profile demo_uenv) @ ''1/upstream'') = Some ''passed''"
    unfolding upstream_passes_iff[OF r demo_key h demo_suites] by (intro conjI kept)
  then show ?thesis using r by (intro exI[of _ st'] conjI) (simp_all add: pre)
qed

theorem stored_suites_reused_witness:
  "\<exists>st. baseline_half (demo_uenv\<lparr>ue_python := (\<lambda>_. Inl KeyError)\<rparr>) (Some ''b'') st
    = (Inr (from_store ''b'' demo_python, from_store ''b'' demo_rust), st)"
proof -
  obtain results where half: "baseline_half demo_uenv (Some ''b'') (\<lambda>_. None) = (Inr (demo_python, demo_rust), results)"
    using demo_half by blast
  from stored_suites_reused[OF half] show ?thesis
    by (auto simp: demo_uenv_def demo_python_def demo_rust_def)
qed

end
