(* ===== verification/Schedule.thy ===== *)
theory Schedule
  imports Metrics
begin

text \<open>
  The C5 oracle: \<open>src/verifier/qtb_verifier/schedule.py\<close> and the durations \<open>run_job\<close> of
  \<open>src/verifier/qtb_verifier/__main__.py\<close> infers from the target. An operation holds its wires from its
  start for the duration the target gives it; the end of the last operation on each wire is the state
  of the check. Numbers are reals without rounding, as everywhere in the development.
\<close>

section \<open>Data\<close>

record sop =
  so_name :: string
  so_qargs :: "int list"
  so_cargs :: "int list"
  so_params :: "jnum list"
  so_unit :: "string option"

text \<open>\<open>st_dt\<close> is \<open>None\<close> when the target has no time step; properties are those with qubits.\<close>

record starget =
  st_dt :: "jnum option"
  st_instructions :: "(string \<times> (int list \<times> jnum option) list) list"
  st_acquire_alignment :: real
  st_pulse_alignment :: real
  st_granularity :: real
  st_min_length :: real

record sresult =
  sr_status :: string
  sr_errors :: "string list"
  sr_makespan :: real

text \<open>\<open>round\<close> to the nearest integer, halves to the even one; \<open>%\<close> with the sign of the divisor.\<close>

definition py_round :: "real \<Rightarrow> int" where
  "py_round x = (let f = \<lfloor>x\<rfloor>; d = x - of_int f in
     if d < 1 / 2 then f else if d > 1 / 2 then f + 1 else if even f then f else f + 1)"

definition fdiv :: "real \<Rightarrow> real \<Rightarrow> real res" where
  "fdiv x y = (if y = 0 then Inl ZeroDivisionError else Inr (x / y))"

definition fmod :: "real \<Rightarrow> real \<Rightarrow> real res" where
  "fmod x y = (if y = 0 then Inl ZeroDivisionError else Inr (x - y * of_int \<lfloor>x / y\<rfloor>))"

text \<open>\<open>math.isfinite\<close>, and the value when it is.\<close>

fun finite_value :: "jnum \<Rightarrow> real option res" where
  "finite_value (JFinite r) = Inr (Some r)"
| "finite_value JNonFinite = Inr None"
| "finite_value JOverflow = Inl OverflowError"
| "finite_value JBadString = Inl TypeError"
| "finite_value JBadType = Inl TypeError"

section \<open>The durations of the target\<close>

definition instruction_properties :: "starget \<Rightarrow> string \<Rightarrow> (int list \<rightharpoonup> jnum option) option" where
  "instruction_properties t name = map_option dict_of (dict_of (st_instructions t) name)"

definition given_duration :: "jnum option \<Rightarrow> real res" where
  "given_duration d = (case d of None \<Rightarrow> Inl TypeError | Some j \<Rightarrow> numeric j)"

definition target_duration :: "starget \<Rightarrow> real \<Rightarrow> sop \<Rightarrow> real res" where
  "target_duration t dt p =
     (if so_name p = ''barrier'' then Inr 0
      else if so_name p = ''delay'' then
        (if so_unit p \<noteq> Some ''dt'' then Inl (HarnessError ''Scheduled delays must be in dt units'')
         else case so_params p of [] \<Rightarrow> Inl IndexError | j # _ \<Rightarrow> numeric j)
      else case instruction_properties t (so_name p) of
          None \<Rightarrow> Inl KeyError
        | Some props \<Rightarrow>
            (case props (so_qargs p) of
               None \<Rightarrow> Inl KeyError
             | Some d \<Rightarrow> bindE (given_duration d) (\<lambda>x. bindE (fdiv x dt) (\<lambda>y. Inr (of_int (py_round y))))))"

section \<open>The check of a schedule\<close>

type_synonym ends = "(qwire \<times> real) list"

definition end_of :: "ends \<Rightarrow> qwire \<Rightarrow> real" where
  "end_of ends w = (case map_of ends w of None \<Rightarrow> 0 | Some x \<Rightarrow> x)"

definition put_end :: "real \<Rightarrow> qwire \<Rightarrow> ends \<Rightarrow> ends" where
  "put_end x w ends = (w, x) # filter (\<lambda>e. fst e \<noteq> w) ends"

definition quantum_wires :: "sop \<Rightarrow> qwire list" where
  "quantum_wires p = map Q (so_qargs p)"

definition swires :: "sop \<Rightarrow> qwire list" where
  "swires p = quantum_wires p @ map C (so_cargs p)"

definition error_if :: "bool \<Rightarrow> string \<Rightarrow> string list" where
  "error_if b m = (if b then [m] else [])"

text \<open>\<open>start % alignment\<close>, for every operation but a barrier or a delay.\<close>

definition alignment_errors :: "starget \<Rightarrow> sop \<Rightarrow> real \<Rightarrow> string list res" where
  "alignment_errors t p start =
     (if so_name p \<in> {''barrier'', ''delay''} then Inr []
      else bindE (fmod start (if so_name p = ''measure'' then st_acquire_alignment t else st_pulse_alignment t))
        (\<lambda>r. Inr (error_if (r \<noteq> 0) ''Alignment violation'')))"

definition pulse_errors :: "starget \<Rightarrow> sop \<Rightarrow> real \<Rightarrow> string list res" where
  "pulse_errors t p duration =
     (if so_name p \<in> {''barrier'', ''delay'', ''measure''} \<or> duration = 0 then Inr []
      else bindE (fmod duration (st_granularity t)) (\<lambda>r.
        Inr (error_if (r \<noteq> 0 \<or> duration < st_min_length t)
          ''Pulse duration violates granularity or minimum length'')))"

text \<open>How long an operation holds its wires, and whether its duration differs from the target's.\<close>

definition occupied :: "starget \<Rightarrow> real option \<Rightarrow> sop \<Rightarrow> real \<Rightarrow> (real \<times> string list) res" where
  "occupied t dt p duration =
     (case (case instruction_properties t (so_name p) of None \<Rightarrow> None
            | Some props \<Rightarrow> (case props (so_qargs p) of None \<Rightarrow> None | Some d \<Rightarrow> d), dt) of
        (Some j, Some step) \<Rightarrow>
          bindE (numeric j) (\<lambda>x. bindE (fdiv x step) (\<lambda>y.
            let d = of_int (py_round y) in
            Inr (d, error_if (\<bar>duration - d\<bar> > 1 / 100000000) ''Duration input differs from target'')))
      | _ \<Rightarrow> Inr (duration, []))"

definition check_op ::
    "starget \<Rightarrow> real option \<Rightarrow> sop \<times> jnum \<times> jnum \<Rightarrow> string list \<times> ends \<Rightarrow> (string list \<times> ends) res" where
  "check_op t dt x acc =
     (let (p, start, duration) = x; (errors, ends) = acc in
      bindE (finite_value start) (\<lambda>s.
      bindE (if s = None then Inr None else finite_value duration) (\<lambda>d.
      case (s, d) of
        (Some s, Some d) \<Rightarrow>
          bindE (alignment_errors t p s) (\<lambda>e3.
          bindE (pulse_errors t p d) (\<lambda>e4.
          bindE (occupied t dt p d) (\<lambda>(held, e5).
          Inr (errors
              @ error_if (s < 0 \<or> d < 0) ''Negative start or duration''
              @ error_if (list_ex (\<lambda>w. s < end_of ends w) (swires p)) ''Overlap or dependency violation''
              @ error_if (list_ex (\<lambda>w. s > end_of ends w) (quantum_wires p)) ''Idle gap without delay''
              @ e3 @ e4 @ e5,
            fold (put_end (s + held)) (swires p) ends))))
      | _ \<Rightarrow> Inr (errors @ [''Non-finite schedule value''], ends))))"

definition verify_schedule :: "sop list \<Rightarrow> jnum list \<Rightarrow> jnum list \<Rightarrow> starget \<Rightarrow> sresult res" where
  "verify_schedule ops starts durations t =
     (if length ops \<noteq> length starts \<or> length starts \<noteq> length durations
      then Inr \<lparr>sr_status = ''mismatch'', sr_errors = [''Missing schedule entries''], sr_makespan = 0\<rparr>
      else
        bindE (case st_dt t of None \<Rightarrow> Inr None | Some j \<Rightarrow> if j = JFinite 0 then Inr None else bindE (numeric j) (\<lambda>x. Inr (Some x)))
          (\<lambda>dt.
        bindE (foldE (check_op t dt) (zip ops (zip starts durations)) ([], [])) (\<lambda>(errors, ends).
        Inr \<lparr>sr_status = (if errors \<noteq> [] then ''mismatch'' else ''verified''), sr_errors = errors,
           sr_makespan = (if ends = [] then 0 else foldl max (snd (hd ends)) (map snd (tl ends)))\<rparr>)))"

text \<open>The C5 job of \<open>run_job\<close>: an exception leaves the schedule unverified.\<close>

definition verify_c5 :: "sop list \<Rightarrow> jnum list \<Rightarrow> starget \<Rightarrow> sresult res" where
  "verify_c5 ops starts t =
     bindE (given_duration (st_dt t)) (\<lambda>dt.
     bindE (mapE (target_duration t dt) ops) (\<lambda>durations.
     verify_schedule ops starts (map JFinite durations) t))"

definition c5_status :: "sop list \<Rightarrow> jnum list \<Rightarrow> starget \<Rightarrow> string" where
  "c5_status ops starts t = (case verify_c5 ops starts t of Inl _ \<Rightarrow> ''unverified'' | Inr r \<Rightarrow> sr_status r)"

section \<open>A verified schedule is tight\<close>

lemma end_of_put: "end_of (put_end x w ends) v = (if v = w then x else end_of ends v)"
proof -
  have "map_of (filter (\<lambda>e. fst e \<noteq> w) ends) v = map_of ends v" if "v \<noteq> w"
    using that by (induction ends) auto
  then show ?thesis by (simp add: end_of_def put_end_def)
qed

lemma end_of_fold: "end_of (fold (put_end x) ws ends) v = (if v \<in> set ws then x else end_of ends v)"
  by (induction ws arbitrary: ends) (simp_all add: end_of_put)

lemma error_if_Nil [simp]: "error_if b m = [] \<longleftrightarrow> \<not> b"
  by (simp add: error_if_def)

lemma occupied_Inr:
  assumes "occupied t dt p d = Inr (held, [])" and "0 \<le> d"
  shows "0 \<le> held \<and> \<bar>d - held\<bar> \<le> 1 / 100000000"
proof (cases "held = d")
  case False
  with assms(1) obtain n :: int where n: "held = of_int n" "\<bar>d - held\<bar> \<le> 1 / 100000000"
    unfolding occupied_def bindE_Inr_iff Let_def by (auto split: option.splits simp: bindE_Inr_iff)
  with assms(2) have "real_of_int n > - 1" by linarith
  then have "0 \<le> n" by linarith
  with n show ?thesis by simp
qed (use assms in simp)

text \<open>A step that leaves no error: its start is the end of every one of its qubits.\<close>

lemma check_op_clean:
  assumes "check_op t dt (p, start, duration) (es, ends) = Inr ([], ends')"
  obtains s d held where "es = []" "start = JFinite s" "duration = JFinite d" "0 \<le> held"
    "\<bar>d - held\<bar> \<le> 1 / 100000000" "\<forall>w\<in>set (swires p). end_of ends w \<le> s"
    "\<forall>q\<in>set (so_qargs p). end_of ends (Q q) = s" "ends' = fold (put_end (s + held)) (swires p) ends"
proof -
  obtain x y where xy: "finite_value start = Inr x" "(if x = None then Inr None else finite_value duration) = Inr y"
    and r: "(case (x, y) of
        (Some s, Some d) \<Rightarrow>
          bindE (alignment_errors t p s) (\<lambda>e3.
          bindE (pulse_errors t p d) (\<lambda>e4.
          bindE (occupied t dt p d) (\<lambda>(held, e5).
          Inr (es
              @ error_if (s < 0 \<or> d < 0) ''Negative start or duration''
              @ error_if (list_ex (\<lambda>w. s < end_of ends w) (swires p)) ''Overlap or dependency violation''
              @ error_if (list_ex (\<lambda>w. s > end_of ends w) (quantum_wires p)) ''Idle gap without delay''
              @ e3 @ e4 @ e5,
            fold (put_end (s + held)) (swires p) ends))))
      | _ \<Rightarrow> Inr (es @ [''Non-finite schedule value''], ends)) = Inr ([], ends')"
    using assms unfolding check_op_def Let_def prod.case bindE_Inr_iff by blast
  obtain s where s: "x = Some s" using r by (cases x) auto
  obtain d where d: "y = Some d" using r s by (cases y) auto
  have f: "start = JFinite s" "duration = JFinite d"
    using xy by (cases start; cases duration; simp add: s d)+
  obtain held where o: "occupied t dt p d = Inr (held, [])" and n: "es = []" "0 \<le> s" "0 \<le> d"
    and w: "\<not> list_ex (\<lambda>w. s < end_of ends w) (swires p)" "\<not> list_ex (\<lambda>w. s > end_of ends w) (quantum_wires p)"
    and e: "ends' = fold (put_end (s + held)) (swires p) ends"
    using r unfolding s d option.case prod.case bindE_Inr_iff by auto
  have a: "\<forall>w\<in>set (swires p). end_of ends w \<le> s" using w(1) by (auto simp: list_ex_iff)
  have "\<forall>q\<in>set (so_qargs p). s \<le> end_of ends (Q q)" using w(2) by (auto simp: list_ex_iff quantum_wires_def)
  with a have "\<forall>q\<in>set (so_qargs p). end_of ends (Q q) = s" by (force simp: swires_def quantum_wires_def)
  with occupied_Inr[OF o n(3)] show ?thesis using that n(1) f a e by blast
qed

text \<open>Operations with their starts and the time they hold their wires.\<close>

type_synonym timed = "(sop \<times> real \<times> real) list"

definition busy :: "timed \<Rightarrow> int \<Rightarrow> real" where
  "busy ts q = sum_list (map (\<lambda>(p, s, h). if q \<in> set (so_qargs p) then h else 0) ts)"

definition no_overlap :: "timed \<Rightarrow> bool" where
  "no_overlap ts \<longleftrightarrow> sorted_wrt (\<lambda>(p, s, h) (p', s', h').
     set (swires p) \<inter> set (swires p') \<noteq> {} \<longrightarrow> s + h \<le> s') ts"

definition no_gap :: "timed \<Rightarrow> bool" where
  "no_gap ts \<longleftrightarrow> (\<forall>before p s h others. ts = before @ (p, s, h) # others
     \<longrightarrow> (\<forall>q\<in>set (so_qargs p). s = busy before q))"

lemma no_gap_snoc: "no_gap (ts @ [(p, s, h)]) \<longleftrightarrow> no_gap ts \<and> (\<forall>q\<in>set (so_qargs p). s = busy ts q)"
proof
  assume g: "no_gap ts \<and> (\<forall>q\<in>set (so_qargs p). s = busy ts q)"
  show "no_gap (ts @ [(p, s, h)])" unfolding no_gap_def
  proof (intro allI impI)
    fix bf p' s' h' others
    assume eq: "ts @ [(p, s, h)] = bf @ (p', s', h') # others"
    show "\<forall>q\<in>set (so_qargs p'). s' = busy bf q"
    proof (cases others rule: rev_cases)
      case Nil
      with eq g show ?thesis by simp
    next
      case (snoc zs z)
      with eq have "ts = bf @ (p', s', h') # zs" by simp
      with g show ?thesis unfolding no_gap_def by blast
    qed
  qed
next
  assume g: "no_gap (ts @ [(p, s, h)])"
  have "no_gap ts" unfolding no_gap_def
  proof (intro allI impI)
    fix bf p' s' h' others
    assume "ts = bf @ (p', s', h') # others"
    then have "ts @ [(p, s, h)] = bf @ (p', s', h') # (others @ [(p, s, h)])" by simp
    with g show "\<forall>q\<in>set (so_qargs p'). s' = busy bf q" unfolding no_gap_def by blast
  qed
  moreover have "ts @ [(p, s, h)] = ts @ (p, s, h) # []" by simp
  ultimately show "no_gap ts \<and> (\<forall>q\<in>set (so_qargs p). s = busy ts q)"
    using g unfolding no_gap_def by blast
qed

definition timed_op :: "sop \<times> jnum \<times> jnum \<Rightarrow> sop \<times> real \<times> real \<Rightarrow> bool" where
  "timed_op x y \<longleftrightarrow> (case (x, y) of ((p, start, duration), (p', s, h)) \<Rightarrow>
     p' = p \<and> start = JFinite s \<and> 0 \<le> h \<and> (\<exists>d. duration = JFinite d \<and> \<bar>d - h\<bar> \<le> 1 / 100000000))"

lemma checked_ops_tight:
  assumes "foldE (check_op t dt) xs ([], []) = Inr ([], ends)"
  shows "\<exists>ts. list_all2 timed_op xs ts \<and> no_overlap ts \<and> no_gap ts
    \<and> (\<forall>(p, s, h)\<in>set ts. \<forall>w\<in>set (swires p). s + h \<le> end_of ends w) \<and> (\<forall>q. end_of ends (Q q) = busy ts q)"
  using assms
proof (induction xs arbitrary: ends rule: rev_induct)
  case Nil
  then show ?case by (intro exI[of _ "[]"]) (simp add: no_overlap_def no_gap_def busy_def end_of_def)
next
  case (snoc x xs)
  obtain p start duration where x: "x = (p, start, duration)" by (cases x)
  obtain es mid where mid: "foldE (check_op t dt) xs ([], []) = Inr (es, mid)"
    "check_op t dt (p, start, duration) (es, mid) = Inr ([], ends)"
    using snoc.prems by (auto simp: foldE_append bindE_Inr_iff x)
  from mid(2) obtain s d held where c: "es = []" "start = JFinite s" "duration = JFinite d" "0 \<le> held"
    "\<bar>d - held\<bar> \<le> 1 / 100000000" "\<forall>w\<in>set (swires p). end_of mid w \<le> s"
    "\<forall>q\<in>set (so_qargs p). end_of mid (Q q) = s" "ends = fold (put_end (s + held)) (swires p) mid"
    by (rule check_op_clean)
  from snoc.IH mid(1) c(1) obtain ts where ts: "list_all2 timed_op xs ts" "no_overlap ts" "no_gap ts"
    "\<forall>(p, s, h)\<in>set ts. \<forall>w\<in>set (swires p). s + h \<le> end_of mid w" "\<forall>q. end_of mid (Q q) = busy ts q" by blast
  have later: "end_of mid w \<le> end_of ends w" for w
    using c(4,6) by (auto simp: c(8) end_of_fold intro: add_increasing2)
  have q: "Q q \<in> set (swires p) \<longleftrightarrow> q \<in> set (so_qargs p)" for q by (auto simp: swires_def quantum_wires_def)
  let ?ts = "ts @ [(p, s, held)]"
  have "no_overlap ?ts"
    using ts(2,4) c(6) by (fastforce simp: no_overlap_def sorted_wrt_append)
  moreover have "no_gap ?ts" using ts(3,5) c(7) by (simp add: no_gap_snoc)
  moreover have "list_all2 timed_op (xs @ [x]) ?ts"
    using ts(1) c by (auto simp: list_all2_appendI timed_op_def x)
  moreover have "\<forall>(p, s, h)\<in>set ?ts. \<forall>w\<in>set (swires p). s + h \<le> end_of ends w"
    using ts(4) later by (fastforce simp: c(8) end_of_fold intro: order_trans)
  moreover have "\<forall>q. end_of ends (Q q) = busy ?ts q"
    using ts(5) c(7) by (auto simp: c(8) end_of_fold q busy_def)
  ultimately show ?case by blast
qed

text \<open>
  C26. A verified schedule is tight and has no conflict: every start is finite, every operation holds its wires
  for the time the target gives it, two operations that share a wire follow each other without
  overlap in program order, and on each of its qubits an operation starts exactly when the
  earlier operations of that qubit have used up their times.
\<close>

theorem c5_verified_tight:
  assumes "c5_status ops starts t = ''verified''"
  shows "\<exists>dt ds ts. given_duration (st_dt t) = Inr dt \<and> mapE (target_duration t dt) ops = Inr ds
    \<and> map fst ts = ops \<and> starts = map (\<lambda>(p, s, h). JFinite s) ts
    \<and> list_all2 (\<lambda>d (p, s, h). \<bar>d - h\<bar> \<le> 1 / 100000000 \<and> 0 \<le> h) ds ts \<and> no_overlap ts \<and> no_gap ts"
proof -
  obtain r where "verify_c5 ops starts t = Inr r" "sr_status r = ''verified''"
    using assms by (auto simp: c5_status_def split: sum.splits)
  then obtain dt ds where d: "given_duration (st_dt t) = Inr dt" "mapE (target_duration t dt) ops = Inr ds"
    and v: "verify_schedule ops starts (map JFinite ds) t = Inr r" "sr_status r = ''verified''"
    by (auto simp: verify_c5_def bindE_Inr_iff)
  have len: "length ops = length starts" "length starts = length ds"
    using v by (auto simp: verify_schedule_def split: if_splits)
  obtain step ends where e: "foldE (check_op t step) (zip ops (zip starts (map JFinite ds))) ([], []) = Inr ([], ends)"
    using v len by (auto simp: verify_schedule_def bindE_Inr_iff split: if_splits)
  obtain ts where ts: "list_all2 timed_op (zip ops (zip starts (map JFinite ds))) ts" "no_overlap ts" "no_gap ts"
    using checked_ops_tight[OF e] by blast
  have n: "length ts = length ops" using list_all2_lengthD[OF ts(1)] len by simp
  have step: "fst (ts ! i) = ops ! i \<and> starts ! i = JFinite (fst (snd (ts ! i))) \<and> 0 \<le> snd (snd (ts ! i))
      \<and> \<bar>ds ! i - snd (snd (ts ! i))\<bar> \<le> 1 / 100000000" if "i < length ops" for i
    using list_all2_nthD[OF ts(1), of i] that len by (auto simp: timed_op_def split: prod.splits)
  have "map fst ts = ops" "starts = map (\<lambda>(p, s, h). JFinite s) ts"
    "list_all2 (\<lambda>d (p, s, h). \<bar>d - h\<bar> \<le> 1 / 100000000 \<and> 0 \<le> h) ds ts"
    using step n len by (auto intro!: nth_equalityI simp: list_all2_conv_all_nth split_beta)
  with d ts(2,3) show ?thesis by blast
qed

definition demo_starget :: starget where
  "demo_starget = \<lparr>st_dt = Some (JFinite 1), st_instructions = [(''x'', [([0], Some (JFinite 32))])],
     st_acquire_alignment = 1, st_pulse_alignment = 1, st_granularity = 1, st_min_length = 1\<rparr>"

definition demo_sops :: "sop list" where
  "demo_sops = [\<lparr>so_name = ''x'', so_qargs = [0], so_cargs = [], so_params = [], so_unit = None\<rparr>,
     \<lparr>so_name = ''delay'', so_qargs = [0], so_cargs = [], so_params = [JFinite 8], so_unit = Some ''dt''\<rparr>,
     \<lparr>so_name = ''x'', so_qargs = [0], so_cargs = [], so_params = [], so_unit = None\<rparr>]"

lemma demo_schedule: "c5_status demo_sops [JFinite 0, JFinite 32, JFinite 40] demo_starget = ''verified''"
  by (simp add: c5_status_def verify_c5_def verify_schedule_def demo_sops_def demo_starget_def given_duration_def
      target_duration_def instruction_properties_def dict_of_def fdiv_def fmod_def py_round_def check_op_def
      alignment_errors_def pulse_errors_def occupied_def error_if_def swires_def quantum_wires_def end_of_def put_end_def
      Let_def)

theorem c5_verified_tight_witness:
  "\<exists>ts. map fst ts = demo_sops \<and> no_overlap ts \<and> no_gap ts"
  using c5_verified_tight[OF demo_schedule] by blast

end
