(* ===== verification/Launcher.thy ===== *)
theory Launcher
  imports ManagerInv Lifecycle
begin

text \<open>
  The launcher \<open>src/lsf/submit.py\<close> and the commands of \<open>src/lsf/control.py\<close>: the effective
  configuration of a new session, the options a resume may repeat, the checks before a resume, and the
  submission of a manager. Paths are texts that the host resolves; the scheduler and its
  answers are those of the manager. Printing, logging and the archived launch of the previous
  epoch are left out.
\<close>

section \<open>Refusals\<close>

text \<open>\<open>Refused\<close> with its exit status; any other exception escapes the launcher.\<close>

datatype halt = Refused string nat | Escaped exn

fun bindH :: "halt + 'a \<Rightarrow> ('a \<Rightarrow> halt + 'b) \<Rightarrow> halt + 'b" where
  "bindH (Inl h) f = Inl h"
| "bindH (Inr a) f = f a"

definition refuse_if :: "bool \<Rightarrow> string \<Rightarrow> nat \<Rightarrow> halt + unit" where
  "refuse_if b m code = (if b then Inl (Refused m code) else Inr ())"

definition escape :: "'a res \<Rightarrow> halt + 'a" where
  "escape r = (case r of Inl e \<Rightarrow> Inl (Escaped e) | Inr a \<Rightarrow> Inr a)"

lemma bindH_Inr_iff [res_simps]: "bindH m f = Inr y \<longleftrightarrow> (\<exists>x. m = Inr x \<and> f x = Inr y)"
  by (cases m) auto

lemma refuse_if_Inr_iff [res_simps]: "refuse_if b m code = Inr u \<longleftrightarrow> \<not> b"
  by (simp add: refuse_if_def)

lemma escape_Inr_iff [res_simps]: "escape r = Inr a \<longleftrightarrow> r = Inr a"
  by (cases r) (simp_all add: escape_def)

section \<open>Options\<close>

definition LAUNCH_JOBS :: "string list" where
  "LAUNCH_JOBS = [''compile'', ''quality'', ''correctness'', ''unit-tests'', ''cost'', ''clean'', ''manager'']"

record options =
  op_baseline :: "string option"
  op_evolved :: "string option"
  op_profile :: string
  op_store :: "string option"
  op_root :: "string option"
  op_no_unit_tests :: bool
  op_queue :: "string option"
  op_job_queue :: "string \<Rightarrow> string option"
  op_mem_gb :: "string \<Rightarrow> real"
  op_wall :: "string \<Rightarrow> string"
  op_cost_model :: "string option"
  op_cost_ncpus :: "int option"
  op_cost_max_r1m :: real
  op_resume :: bool
  op_upgrade_cost :: bool
  op_reason :: "string option"
  op_log_level :: "string option"

definition DEFAULT_MEM_GB :: "string \<Rightarrow> real" where
  "DEFAULT_MEM_GB kind = (if kind = ''compile'' then 64 else if kind = ''cost'' then 16
     else if kind \<in> {''clean'', ''manager''} then 4 else 32)"

definition DEFAULT_WALL :: "string \<Rightarrow> string" where
  "DEFAULT_WALL kind = (if kind = ''compile'' then ''6:00'' else if kind = ''unit-tests'' then ''10:00''
     else if kind = ''cost'' then ''8:00'' else if kind = ''clean'' then ''1:00''
     else if kind = ''manager'' then ''168:00'' else ''12:00'')"

text \<open>\<open>parser().parse_args([])\<close>.\<close>

definition DEFAULTS :: options where
  "DEFAULTS = \<lparr>op_baseline = None, op_evolved = None, op_profile = ''iterations-profile'', op_store = None, op_root = None,
     op_no_unit_tests = False, op_queue = None, op_job_queue = (\<lambda>_. None), op_mem_gb = DEFAULT_MEM_GB,
     op_wall = DEFAULT_WALL, op_cost_model = None, op_cost_ncpus = None, op_cost_max_r1m = 10, op_resume = False,
     op_upgrade_cost = False, op_reason = None, op_log_level = None\<rparr>"

text \<open>The host: \<open>ho_resolve\<close> is \<open>expanduser().resolve()\<close>, \<open>ho_level\<close> is \<open>resolve_level\<close> and
  \<open>ho_number\<close> prints a number with \<open>:g\<close>.\<close>

record host =
  ho_environ :: "string \<rightharpoonup> string"
  ho_resolve :: "string \<Rightarrow> string"
  ho_is_dir :: "string \<Rightarrow> bool"
  ho_exists :: "string \<Rightarrow> bool"
  ho_parent :: "string \<Rightarrow> string"
  ho_level :: "string option \<Rightarrow> string res"
  ho_number :: "real \<Rightarrow> string"
  ho_run_id :: string
  ho_python :: string
  ho_project :: string
  ho_identity :: string

record resource =
  rs_queue :: "string option"
  rs_mem_gb :: real
  rs_wall :: string
  rs_slots :: nat

record config =
  cf_run_id :: string
  cf_session :: string
  cf_lsf_dir :: string
  cf_store :: string
  cf_baseline :: string
  cf_evolved :: string
  cf_profile :: string
  cf_unit_tests :: bool
  cf_python :: string
  cf_project :: string
  cf_log_level :: string
  cf_resources :: "string \<Rightarrow> resource"
  cf_cost_model :: "string option"
  cf_cost_ncpus :: "int option"
  cf_cost_max_r1m :: real
  cf_max_cost_retries :: nat
  cf_identity :: string

section \<open>The configuration of a new session\<close>

definition lsf_directory :: "string \<Rightarrow> string" where
  "lsf_directory session = session @ ''.lsf''"

text \<open>\<open>MODEL\<close> and \<open>QUEUE\<close>: letters, digits and \<open>_.-\<close>; \<open>$\<close> allows a final newline.\<close>

definition plain_name :: "string \<Rightarrow> bool" where
  "plain_name s = (let t = cut_newline s in
     t \<noteq> [] \<and> list_all (\<lambda>c. is_alnum c \<or> c \<in> {CHR ''_'', CHR ''.'', CHR ''-''}) t)"

text \<open>\<open>args.x or environ.get(name)\<close> of a path: any path given is true, an empty variable is not.\<close>

definition given_path :: "host \<Rightarrow> string option \<Rightarrow> string \<Rightarrow> string option" where
  "given_path ho arg name = (case arg of Some p \<Rightarrow> Some p
     | None \<Rightarrow> (case ho_environ ho name of Some (c # s) \<Rightarrow> Some (c # s) | _ \<Rightarrow> None))"

definition existing_directory :: "host \<Rightarrow> string \<Rightarrow> halt + string" where
  "existing_directory ho p = bindH (refuse_if (\<not> ho_is_dir ho p) ''is not an existing directory'' EXIT_PRECONDITION)
     (\<lambda>_. Inr p)"

definition job_resource :: "options \<Rightarrow> string \<Rightarrow> halt + resource" where
  "job_resource op kind =
     (let queue = or_str (op_job_queue op kind) (op_queue op) in
      bindH (refuse_if (case queue of None \<Rightarrow> False | Some q \<Rightarrow> \<not> plain_name q) (''invalid queue name for '' @ kind) EXIT_USAGE) (\<lambda>_.
      bindH (refuse_if (\<not> op_mem_gb op kind > 0) (''--'' @ kind @ ''-mem-gb must be positive'') EXIT_USAGE) (\<lambda>_.
      bindH (case wall_seconds (op_wall op kind) of
               Inl e \<Rightarrow> if e = ValueError then Inl (Refused (''--'' @ kind @ ''-wall'') EXIT_USAGE) else Inl (Escaped e)
             | Inr _ \<Rightarrow> Inr ()) (\<lambda>_.
      Inr \<lparr>rs_queue = queue, rs_mem_gb = op_mem_gb op kind, rs_wall = op_wall op kind, rs_slots = slots kind\<rparr>))))"

fun job_resources :: "options \<Rightarrow> string list \<Rightarrow> halt + (string \<times> resource) list" where
  "job_resources op [] = Inr []"
| "job_resources op (kind # kinds) =
     bindH (job_resource op kind) (\<lambda>r. bindH (job_resources op kinds) (\<lambda>rs. Inr ((kind, r) # rs)))"

text \<open>The seconds of a run limit that was accepted.\<close>

definition wall_s :: "options \<Rightarrow> string \<Rightarrow> nat" where
  "wall_s op kind = (case wall_seconds (op_wall op kind) of Inl _ \<Rightarrow> 0 | Inr n \<Rightarrow> n)"

definition given_level :: "host \<Rightarrow> string option \<Rightarrow> halt + string" where
  "given_level ho arg = (case ho_level ho arg of
     Inl e \<Rightarrow> if e = ValueError then Inl (Refused ''Unknown log level'' EXIT_USAGE) else Inl (Escaped e)
   | Inr l \<Rightarrow> Inr l)"

definition resolve :: "host \<Rightarrow> options \<Rightarrow> halt + config" where
  "resolve ho op =
     (case given_path ho (op_store op) ''QTB_STORE'' of
        None \<Rightarrow> Inl (Refused ''pass --store DIR (or set QTB_STORE)'' EXIT_USAGE)
      | Some store \<Rightarrow>
     (case given_path ho (op_root op) ''QTB_SESSION'' of
        None \<Rightarrow> Inl (Refused ''pass --results-root DIR (or set QTB_SESSION)'' EXIT_USAGE)
      | Some dir \<Rightarrow>
     (case (op_baseline op, op_evolved op) of
        (Some b, Some e) \<Rightarrow>
          let store = ho_resolve ho store; session = ho_resolve ho dir; lsf_dir = lsf_directory session in
          bindH (existing_directory ho store) (\<lambda>_.
          bindH (refuse_if (ho_exists ho session) ''already exists: each launch starts a new session'' EXIT_PRECONDITION) (\<lambda>_.
          bindH (refuse_if (\<not> ho_is_dir ho (ho_parent ho session)) ''The session's parent does not exist'' EXIT_PRECONDITION) (\<lambda>_.
          bindH (refuse_if (ho_exists ho lsf_dir) ''already exists; pass a new --results-root'' EXIT_PRECONDITION) (\<lambda>_.
          bindH (existing_directory ho (ho_resolve ho b)) (\<lambda>baseline.
          bindH (existing_directory ho (ho_resolve ho e)) (\<lambda>evolved.
          bindH (refuse_if (op_cost_model op = None \<and> op_cost_ncpus op = None) ''choose the approved cost hardware tier'' EXIT_USAGE) (\<lambda>_.
          bindH (refuse_if (case op_cost_model op of None \<Rightarrow> False | Some m \<Rightarrow> \<not> plain_name m) ''invalid --cost-model'' EXIT_USAGE) (\<lambda>_.
          bindH (refuse_if (case op_cost_ncpus op of None \<Rightarrow> False | Some n \<Rightarrow> n \<le> int (slots ''cost''))
              ''--cost-ncpus must exceed the cores cost reserves'' EXIT_USAGE) (\<lambda>_.
          bindH (refuse_if (\<not> op_cost_max_r1m op > 0) ''--cost-max-r1m must be positive'' EXIT_USAGE) (\<lambda>_.
          bindH (job_resources op LAUNCH_JOBS) (\<lambda>resources.
          bindH (refuse_if (list_ex (\<lambda>kind. wall_s op ''manager'' \<le> wall_s op kind) (filter (\<lambda>kind. kind \<noteq> ''manager'') LAUNCH_JOBS))
              ''--manager-wall must be longer than every stage's wall limit'' EXIT_USAGE) (\<lambda>_.
          bindH (given_level ho (op_log_level op)) (\<lambda>level.
          Inr \<lparr>cf_run_id = ho_run_id ho, cf_session = session, cf_lsf_dir = lsf_dir, cf_store = store,
             cf_baseline = baseline, cf_evolved = evolved, cf_profile = op_profile op,
             cf_unit_tests = (\<not> op_no_unit_tests op), cf_python = ho_python ho, cf_project = ho_project ho,
             cf_log_level = level, cf_resources = (\<lambda>kind. the (map_of resources kind)), cf_cost_model = op_cost_model op,
             cf_cost_ncpus = op_cost_ncpus op, cf_cost_max_r1m = op_cost_max_r1m op,
             cf_max_cost_retries = MAX_COST_RETRIES, cf_identity = ho_identity ho\<rparr>)))))))))))))
      | _ \<Rightarrow> Inl (Refused ''pass --baseline and --evolved, the checkouts to compare'' EXIT_USAGE))))"

section \<open>Options given with a resume\<close>

datatype oval = OPath "string option" | OText "string option" | OFlag bool | OInt "int option" | ONum real

definition underscored :: "string \<Rightarrow> string" where
  "underscored kind = map (\<lambda>c. if c = CHR ''-'' then CHR ''_'' else c) kind"

text \<open>\<open>vars(args)\<close> without \<open>RESUME_OPTIONS\<close>.\<close>

definition option_values :: "options \<Rightarrow> (string \<times> oval) list" where
  "option_values op =
     [(''baseline'', OPath (op_baseline op)), (''evolved'', OPath (op_evolved op)), (''profile'', OText (Some (op_profile op))),
      (''store'', OPath (op_store op)), (''no_unit_tests'', OFlag (op_no_unit_tests op)), (''queue'', OText (op_queue op))]
     @ concat (map (\<lambda>kind. [(underscored kind @ ''_queue'', OText (op_job_queue op kind)),
          (underscored kind @ ''_mem_gb'', ONum (op_mem_gb op kind)), (underscored kind @ ''_wall'', OText (Some (op_wall op kind)))])
        LAUNCH_JOBS)
     @ [(''cost_model'', OText (op_cost_model op)), (''cost_ncpus'', OInt (op_cost_ncpus op)),
        (''cost_max_r1m'', ONum (op_cost_max_r1m op))]"

definition normal :: "host \<Rightarrow> oval \<Rightarrow> oval" where
  "normal ho v = (case v of OPath (Some p) \<Rightarrow> OPath (Some (ho_resolve ho p)) | _ \<Rightarrow> v)"

text \<open>\<open>_recorded_options\<close>; the common queue only when every job has the same one.\<close>

definition recorded_options :: "config \<Rightarrow> (string \<times> oval) list" where
  "recorded_options cf =
     [(''baseline'', OPath (Some (cf_baseline cf))), (''evolved'', OPath (Some (cf_evolved cf))),
      (''store'', OPath (Some (cf_store cf))), (''profile'', OText (Some (cf_profile cf))),
      (''no_unit_tests'', OFlag (\<not> cf_unit_tests cf)), (''cost_model'', OText (cf_cost_model cf)),
      (''cost_ncpus'', OInt (cf_cost_ncpus cf)), (''cost_max_r1m'', ONum (cf_cost_max_r1m cf))]
     @ (case remdups (map (\<lambda>kind. rs_queue (cf_resources cf kind)) LAUNCH_JOBS) of
          [q] \<Rightarrow> [(''queue'', OText q)] | _ \<Rightarrow> [])
     @ concat (map (\<lambda>kind. [(underscored kind @ ''_queue'', OText (rs_queue (cf_resources cf kind))),
          (underscored kind @ ''_mem_gb'', ONum (rs_mem_gb (cf_resources cf kind))),
          (underscored kind @ ''_wall'', OText (Some (rs_wall (cf_resources cf kind))))]) LAUNCH_JOBS)"

definition changed_options :: "host \<Rightarrow> options \<Rightarrow> config \<Rightarrow> string list" where
  "changed_options ho op cf =
     sort (map fst (filter (\<lambda>(k, v). map_of (option_values DEFAULTS) k \<noteq> Some v
         \<and> dict_of (recorded_options cf) k \<noteq> Some (normal ho v)) (option_values op)))"

section \<open>Submitting a manager\<close>

text \<open>What the launcher reads and writes: the ledger, the launch file, the session and the scheduler's world.\<close>

record 'w lstate =
  ls_ledger :: ledger
  ls_launch :: config
  ls_session :: session
  ls_world :: 'w

definition bindL ::
    "(halt + 'a) \<times> 's \<Rightarrow> ('a \<Rightarrow> 's \<Rightarrow> (halt + 'b) \<times> 's) \<Rightarrow> (halt + 'b) \<times> 's" where
  "bindL x f = (case x of (Inl h, s) \<Rightarrow> (Inl h, s) | (Inr a, s) \<Rightarrow> f a s)"

lemma bindL_Inr: "bindL x f = (Inr y, s') \<longleftrightarrow> (\<exists>a s. x = (Inr a, s) \<and> f a s = (Inr y, s'))"
  by (auto simp: bindL_def split: prod.split sum.split)

definition manager_spec :: "host \<Rightarrow> config \<Rightarrow> string \<Rightarrow> jobspec" where
  "manager_spec ho cf key =
     (let r = cf_resources cf ''manager'' in
      \<lparr>js_kind = ''manager'', js_name = ''qtb-'' @ cf_run_id cf @ ''-'' @ key,
       js_command = [cf_python cf, ''-P'', ''-m'', ''lsf.manager'', ''--lsf-dir'', cf_lsf_dir cf],
       js_queue = rs_queue r, js_mem = ho_number ho (rs_mem_gb r), js_wall = rs_wall r,
       js_output = cf_lsf_dir cf @ ''/logs/'' @ cf_run_id cf @ ''/manager.%J.out'',
       js_selector = no_selector, js_rerunnable = True, js_exclude = []\<rparr>)"

definition submitted_status :: "string \<Rightarrow> job_status" where
  "submitted_status outcome = (if outcome = ''accepted'' then Submitted
     else if outcome = ''rejected'' then Rejected else Ambiguous)"

text \<open>\<open>_submit_manager\<close>: the intent is in the ledger before \<open>bsub\<close> runs, and its answer after.\<close>

definition submit_manager ::
    "'w world \<Rightarrow> host \<Rightarrow> string \<Rightarrow> 'w lstate \<Rightarrow> (halt + string option) \<times> 'w lstate" where
  "submit_manager wd ho key st =
     (let spec = manager_spec ho (ls_launch st) key in
      bindL (escape (argv spec), st) (\<lambda>_ st.
      bindL (escape (reserve key ''manager'' None (js_name spec) (wd_now wd (ls_world st)) (ls_ledger st)), st) (\<lambda>l st.
      let st = st\<lparr>ls_ledger := l\<rparr>; (answer, w) = submit (wd_runner wd) spec (ls_world st); st = st\<lparr>ls_world := w\<rparr> in
      bindL (escape answer, st) (\<lambda>r st.
      let st = st\<lparr>ls_ledger := update key (\<lambda>e. e\<lparr>je_status := submitted_status (sr_outcome r), je_job_id := sr_job_id r\<rparr>)
                  (ls_ledger st)\<rparr> in
      if sr_outcome r \<noteq> ''accepted''
      then (Inl (Refused (''LSF did not accept the manager ('' @ sr_outcome r @ '')'') EXIT_ERROR), st)
      else (Inr (sr_job_id r), st)))))"

text \<open>\<open>submit\<close>: creating the orchestration directory, the launch file and the ledger of a new session.\<close>

definition submit_session ::
    "'w world \<Rightarrow> host \<Rightarrow> config \<Rightarrow> 'w lstate \<Rightarrow> (halt + string option) \<times> 'w lstate" where
  "submit_session wd ho cf st =
     bindL (if ho_exists ho (cf_lsf_dir cf) then Inl (Escaped (OSError ''File exists'')) else Inr (), st) (\<lambda>_ st.
       submit_manager wd ho ''manager'' (st\<lparr>ls_launch := cf, ls_ledger := create_ledger\<rparr>))"

section \<open>Resuming\<close>

text \<open>What the scheduler knows of a manager job: its status and history by ID, or the jobs of its name.\<close>

definition manager_statuses :: "'w world \<Rightarrow> job_entry \<Rightarrow> 'w \<Rightarrow> jstatus list res \<times> 'w" where
  "manager_statuses wd e w =
     (case je_job_id e of
        Some (c # i) \<Rightarrow>
          (let (answer, w) = query (wd_runner wd) (wd_json wd) (c # i) w in
           case answer of
             Inl x \<Rightarrow> (Inl x, w)
           | Inr s \<Rightarrow>
               if st_state s = ''NOTFOUND''
               then let (past, w) = history (wd_runner wd) (c # i) w in
                 (Inr [case past of None \<Rightarrow> s | Some p \<Rightarrow> p], w)
               else (Inr [s], w))
      | _ \<Rightarrow> find_jobs (wd_runner wd) (wd_json wd) (je_name e) w)"

definition live_job :: "jstatus \<Rightarrow> bool" where
  "live_job s \<longleftrightarrow> st_state s \<noteq> ''NOTFOUND'' \<and> \<not> terminal s"

definition unsettled :: "job_entry \<Rightarrow> bool" where
  "unsettled e \<longleftrightarrow> je_status e \<in> ACTIVE \<or> je_status e = Unreconciled"

text \<open>\<open>_check_jobs_ended\<close>: a stage job must be settled; a manager that is not live is settled here.\<close>

definition check_job_ended :: "'w world \<Rightarrow> job_entry \<Rightarrow> 'w lstate \<Rightarrow> (halt + unit) \<times> 'w lstate" where
  "check_job_ended wd e st =
     (if \<not> unsettled e then (Inr (), st)
      else if je_stage e \<noteq> ''manager''
      then (Inl (Refused (''job '' @ je_key e @ '' is '' @ status_text (je_status e) @ '' in the ledger; settle it first'')
             EXIT_PRECONDITION), st)
      else
        let (answer, w) = manager_statuses wd e (ls_world st); st = st\<lparr>ls_world := w\<rparr> in
        (case answer of
           Inl x \<Rightarrow> (Inl (if is_query_failed x then Refused ''cannot check the manager job'' EXIT_PRECONDITION
                         else Escaped x), st)
         | Inr found \<Rightarrow>
             if list_ex live_job found
             then (Inl (Refused ''the manager job is still live; stop it first'' EXIT_PRECONDITION), st)
             else (Inr (), st\<lparr>ls_ledger := update (je_key e) (\<lambda>e. e\<lparr>je_status := Terminal, je_host := None\<rparr>) (ls_ledger st)\<rparr>)))"

fun check_jobs_ended :: "'w world \<Rightarrow> job_entry list \<Rightarrow> 'w lstate \<Rightarrow> (halt + unit) \<times> 'w lstate" where
  "check_jobs_ended wd [] st = (Inr (), st)"
| "check_jobs_ended wd (e # es) st = bindL (check_job_ended wd e st) (\<lambda>_ st. check_jobs_ended wd es st)"

text \<open>\<open>_unfinished\<close>: the stages a new manager would run, in order.\<close>

definition launched_stages :: "config \<Rightarrow> stage list" where
  "launched_stages cf = (if cf_unit_tests cf then STAGE_ORDER else filter (\<lambda>st. st \<noteq> UnitTests) STAGE_ORDER)"

definition unfinished_stages :: "config \<Rightarrow> session \<Rightarrow> stage list res" where
  "unfinished_stages cf s =
     (if sn_run s = None then Inr (launched_stages cf)
      else bindE (mapE (\<lambda>st. bindE (read_state s st) (\<lambda>v. Inr (st, v))) (launched_stages cf)) (\<lambda>states.
        Inr (map fst (filter (\<lambda>(st, v). status_of v \<notin> set FINAL) states))))"

text \<open>\<open>_upgrade_cost\<close>: a refused amendment refuses the resume.\<close>

definition upgrade_cost :: "env \<Rightarrow> requirement \<Rightarrow> options \<Rightarrow> 'w lstate \<Rightarrow> (halt + unit) \<times> 'w lstate" where
  "upgrade_cost en req op st =
     (if \<not> op_upgrade_cost op then (Inr (), st)
      else if sn_run (ls_session st) = None
      then (Inl (Refused ''--upgrade-cost needs a compiled session'' EXIT_PRECONDITION), st)
      else (case amend_cost en [(''cost_evidence'', req)] (case op_reason op of None \<Rightarrow> [] | Some r \<Rightarrow> r) (ls_session st) of
          Inl e \<Rightarrow> (Inl (if is_harness_error e then Refused (''--upgrade-cost: '' @ exn_message e) EXIT_PRECONDITION
                        else Escaped e), st)
        | Inr (s, a) \<Rightarrow> (Inr (), st\<lparr>ls_session := s\<rparr>)))"

text \<open>\<open>_check_harness\<close>: no identity a stage is pinned to may differ from the running one.\<close>

definition pinned_here :: "string option \<Rightarrow> string option \<Rightarrow> bool" where
  "pinned_here pinned here \<longleftrightarrow> pinned = None \<or> pinned = here"

definition check_pinned :: "env \<Rightarrow> session \<Rightarrow> stage list \<Rightarrow> halt + unit" where
  "check_pinned en s pending =
     (case sn_run s of
        None \<Rightarrow> Inr ()
      | Some r \<Rightarrow> refuse_if (\<not> list_all (\<lambda>st. let h = rn_hashes (effective r (Some st)) in
            pinned_here (hs_coordinator h) (hs_coordinator (en_identities en))
            \<and> pinned_here (hs_implementation h) (hs_implementation (en_identities en))) pending)
          ''a stage is pinned to another harness'' EXIT_PRECONDITION)"

text \<open>\<open>_resume_locked\<close>.\<close>

definition refreshed :: "host \<Rightarrow> string \<Rightarrow> config \<Rightarrow> config" where
  "refreshed ho level cf = cf\<lparr>cf_python := ho_python ho, cf_project := ho_project ho, cf_identity := ho_identity ho,
     cf_log_level := level\<rparr>"

definition resume_level :: "host \<Rightarrow> options \<Rightarrow> config \<Rightarrow> halt + string" where
  "resume_level ho op cf =
     (if (case or_str (op_log_level op) (ho_environ ho ''LSF_LOG_LEVEL'') of Some (c # l) \<Rightarrow> True | _ \<Rightarrow> False)
      then given_level ho (op_log_level op) else Inr (cf_log_level cf))"

definition resume_key :: "ledger \<Rightarrow> string" where
  "resume_key l = ''manager-r'' @ show_nat (epoch l + 1)"

definition resume_locked ::
    "'w world \<Rightarrow> host \<Rightarrow> env \<Rightarrow> requirement \<Rightarrow> options \<Rightarrow> 'w lstate \<Rightarrow> (halt + string option) \<times> 'w lstate" where
  "resume_locked wd ho en req op st =
     bindL (refuse_if (clean_status (ls_session st) \<notin> {None, Some []}) ''is cleaned (or cleaning)'' EXIT_PRECONDITION, st) (\<lambda>_ st.
     bindL (check_jobs_ended wd (lg_jobs (ls_ledger st)) st) (\<lambda>_ st.
     bindL (escape (unfinished_stages (ls_launch st) (ls_session st)), st) (\<lambda>pending st.
     bindL (upgrade_cost en req op st) (\<lambda>_ st.
     bindL (check_pinned en (ls_session st) pending, st) (\<lambda>_ st.
     bindL (resume_level ho op (ls_launch st), st) (\<lambda>level st.
     let key = resume_key (ls_ledger st) in
     submit_manager wd ho key (st\<lparr>ls_launch := refreshed ho level (ls_launch st), ls_ledger := begin_epoch (ls_ledger st)\<rparr>)))))))"

text \<open>\<open>resume_target\<close>, then \<open>resume\<close> under the orchestration lock.\<close>

definition resume_target :: "host \<Rightarrow> options \<Rightarrow> config \<Rightarrow> halt + unit" where
  "resume_target ho op cf =
     bindH (refuse_if (op_upgrade_cost op \<and> strip (case op_reason op of None \<Rightarrow> [] | Some r \<Rightarrow> r) = [])
         ''--upgrade-cost needs --reason'' EXIT_USAGE) (\<lambda>_.
     case given_path ho (op_root op) ''QTB_SESSION'' of
       None \<Rightarrow> Inl (Refused ''pass --results-root DIR, the session to resume'' EXIT_USAGE)
     | Some dir \<Rightarrow>
         let lsf_dir = lsf_directory (ho_resolve ho dir) in
         bindH (refuse_if (\<not> ho_exists ho (lsf_dir @ ''/launch.json'') \<or> \<not> ho_exists ho (lsf_dir @ ''/ledger.json''))
             ''was this session launched with lsf/submit.py?'' EXIT_PRECONDITION) (\<lambda>_.
         refuse_if (changed_options ho op cf \<noteq> [])
           (''--resume keeps the recorded launch; changed: '' @ join_str '', '' (changed_options ho op cf)) EXIT_USAGE))"

definition resume ::
    "'w world \<Rightarrow> host \<Rightarrow> env \<Rightarrow> requirement \<Rightarrow> bool \<Rightarrow> options \<Rightarrow> 'w lstate \<Rightarrow> (halt + string option) \<times> 'w lstate" where
  "resume wd ho en req lock_busy op st =
     (if lock_busy then (Inl (Refused ''a manager holds the session; stop it first'' EXIT_PRECONDITION), st)
      else resume_locked wd ho en req op st)"

text \<open>\<open>main\<close>: the exit status, or an exception that is no refusal. \<open>missing_commands\<close> are LSF commands.\<close>

definition launcher_main ::
    "'w world \<Rightarrow> host \<Rightarrow> env \<Rightarrow> requirement \<Rightarrow> string list \<Rightarrow> bool \<Rightarrow> options \<Rightarrow> 'w lstate \<Rightarrow> nat res \<times> 'w lstate" where
  "launcher_main wd ho en req missing_commands lock_busy op st =
     (let (r, st) =
        bindL (refuse_if (op_upgrade_cost op \<and> \<not> op_resume op) ''pass --resume too'' EXIT_USAGE, st) (\<lambda>_ st.
        bindL (if op_resume op then bindH (resume_target ho op (ls_launch st)) (\<lambda>_. Inr None)
               else bindH (resolve ho op) (\<lambda>cf. Inr (Some cf)), st) (\<lambda>cf st.
        bindL (refuse_if (missing_commands \<noteq> []) ''LSF commands not found'' EXIT_PRECONDITION, st) (\<lambda>_ st.
        case cf of
          None \<Rightarrow> resume wd ho en req lock_busy op st
        | Some cf \<Rightarrow> submit_session wd ho cf st))) in
      (case r of
         Inl (Refused m code) \<Rightarrow> Inr code
       | Inl (Escaped e) \<Rightarrow> Inl e
       | Inr _ \<Rightarrow> Inr EXIT_OK, st))"

section \<open>Stopping and reaping\<close>

text \<open>\<open>stop\<close>: a query that fails reads like a manager that is not running.\<close>

definition stop_manager :: "'w world \<Rightarrow> string \<Rightarrow> ledger \<Rightarrow> 'w \<Rightarrow> nat res \<times> 'w" where
  "stop_manager wd user l w =
     (case latest l ''manager'' of
        None \<Rightarrow> (Inr EXIT_PRECONDITION, w)
      | Some e \<Rightarrow>
          (case je_job_id e of
             Some (c # i) \<Rightarrow>
               (let (answer, w) = query (wd_runner wd) (wd_json wd) (c # i) w in
                case answer of
                  Inl x \<Rightarrow> (if is_query_failed x then Inr EXIT_OK else Inl x, w)
                | Inr s \<Rightarrow>
                    if \<not> live_job s then (Inr EXIT_OK, w)
                    else if st_name s \<noteq> Some (je_name e) \<or> st_user s \<noteq> Some user then (Inr EXIT_PRECONDITION, w)
                    else let (ok, w) = cancel (wd_runner wd) (c # i) w in (Inr (if ok then EXIT_OK else EXIT_ERROR), w))
           | _ \<Rightarrow> (Inr EXIT_PRECONDITION, w)))"

text \<open>\<open>reap\<close>: cancel what a dead manager left, and say whether anything is still unconfirmed.\<close>

definition reap_session :: "'w world \<Rightarrow> launch \<Rightarrow> bool \<Rightarrow> 'w mgr \<Rightarrow> ('w mgr \<times> nat res) option" where
  "reap_session wd la lock_busy m =
     (if lock_busy then Some (m, Inr EXIT_PRECONDITION)
      else (case reap wd la m of
          None \<Rightarrow> None
        | Some (m, Inl x) \<Rightarrow> Some (m, Inl x)
        | Some (m, Inr cancelled) \<Rightarrow>
            Some (m, Inr (if list_ex unsettled (lg_jobs (mg_ledger m)) then EXIT_ERROR else EXIT_OK))))"

text \<open>A scheduler that gives no answer makes \<open>stop\<close> report success without cancelling anything.\<close>

lemma stop_without_answer:
  assumes "latest l ''manager'' = Some e" and "je_job_id e = Some (c # i)"
    and "query (wd_runner wd) (wd_json wd) (c # i) w = (Inl (query_failed why), w')"
  shows "stop_manager wd user l w = (Inr EXIT_OK, w')"
  using assms by (simp add: stop_manager_def query_failed_def is_query_failed_def)

section \<open>A resume starts one manager\<close>

lemma check_job_ended_Inr:
  assumes "check_job_ended wd e st = (Inr u, st')"
  shows "ls_session st' = ls_session st \<and> ls_launch st' = ls_launch st
    \<and> (unsettled e \<longrightarrow> je_stage e = ''manager'')
    \<and> ls_ledger st' = (if unsettled e then update (je_key e) (\<lambda>e. e\<lparr>je_status := Terminal, je_host := None\<rparr>) (ls_ledger st)
        else ls_ledger st)"
  using assms by (auto simp: check_job_ended_def Let_def split: if_splits prod.splits sum.splits)

text \<open>The entries of some keys settled.\<close>

definition settle_keys :: "string set \<Rightarrow> ledger \<Rightarrow> ledger" where
  "settle_keys ks l = l\<lparr>lg_jobs := map (\<lambda>e. if je_key e \<in> ks then e\<lparr>je_status := Terminal, je_host := None\<rparr> else e) (lg_jobs l)\<rparr>"

lemma update_settle: "update k (\<lambda>e. e\<lparr>je_status := Terminal, je_host := None\<rparr>) l = settle_keys {k} l"
  by (simp add: update_def settle_keys_def)

lemma settle_settle: "settle_keys ks (settle_keys ks' l) = settle_keys (ks \<union> ks') l"
  by (auto simp: settle_keys_def)

lemma settle_none: "settle_keys {} l = l"
  by (simp add: settle_keys_def)

lemma check_jobs_ended_Inr:
  assumes "check_jobs_ended wd es st = (Inr u, st')"
  shows "ls_session st' = ls_session st \<and> ls_launch st' = ls_launch st
    \<and> (\<forall>e\<in>set es. unsettled e \<longrightarrow> je_stage e = ''manager'')
    \<and> ls_ledger st' = settle_keys (je_key ` {e \<in> set es. unsettled e}) (ls_ledger st)"
  using assms
proof (induction es arbitrary: st)
  case (Cons e es)
  then obtain v mid where m: "check_job_ended wd e st = (Inr v, mid)" "check_jobs_ended wd es mid = (Inr u, st')"
    by (auto simp: bindL_Inr)
  have "{x \<in> set (e # es). unsettled x} = (if unsettled e then {e} else {}) \<union> {x \<in> set es. unsettled x}" by auto
  then show ?case using check_job_ended_Inr[OF m(1)] Cons.IH[OF m(2)]
    by (auto simp: update_settle settle_settle image_Un Un_commute)
qed (simp add: settle_none)

lemma settle_keys_sel [simp]:
  "lg_resumes (settle_keys ks l) = lg_resumes l" "epoch (settle_keys ks l) = epoch l"
  "map je_key (lg_jobs (settle_keys ks l)) = map je_key (lg_jobs l)"
  by (simp_all add: settle_keys_def epoch_def o_def if_distrib[of je_key])

lemma settle_all_settled:
  assumes "distinct (map je_key (lg_jobs l))"
    and "e \<in> set (lg_jobs (settle_keys (je_key ` {e \<in> set (lg_jobs l). unsettled e}) l))"
  shows "\<not> unsettled e"
proof
  assume u: "unsettled e"
  obtain x where x: "x \<in> set (lg_jobs l)"
    "e = (if je_key x \<in> je_key ` {e \<in> set (lg_jobs l). unsettled e} then x\<lparr>je_status := Terminal, je_host := None\<rparr> else x)"
    using assms(2) by (auto simp: settle_keys_def)
  show False
  proof (cases "je_key x \<in> je_key ` {e \<in> set (lg_jobs l). unsettled e}")
    case True
    with x(2) u show False by (simp add: unsettled_def ACTIVE_def)
  next
    case False
    with x u show False by auto
  qed
qed

lemma settle_keeps:
  assumes "distinct (map je_key (lg_jobs l))" and "\<forall>e\<in>set (lg_jobs l). unsettled e \<longrightarrow> je_stage e = ''manager''"
    and "e \<in> set (lg_jobs l)" and "je_stage e \<noteq> ''manager''"
  shows "e \<in> set (lg_jobs (settle_keys (je_key ` {e \<in> set (lg_jobs l). unsettled e}) l))"
proof -
  have "je_key e \<notin> je_key ` {e \<in> set (lg_jobs l). unsettled e}"
  proof
    assume "je_key e \<in> je_key ` {e \<in> set (lg_jobs l). unsettled e}"
    then obtain x where x: "x \<in> set (lg_jobs l)" "unsettled x" "je_key x = je_key e" by auto
    with assms(1,3) have "x = e" by (meson distinct_map inj_onD)
    with x assms(2,4) show False by blast
  qed
  with assms(3) show ?thesis by (force simp: settle_keys_def)
qed

lemma settle_ok:
  assumes "ledger_ok l" and "\<forall>e\<in>set (lg_jobs l). entry_ok e"
  shows "ledger_ok (settle_keys ks l) \<and> (\<forall>e\<in>set (lg_jobs (settle_keys ks l)). entry_ok e)"
proof -
  let ?f = "\<lambda>e. if je_key e \<in> ks then e\<lparr>je_status := Terminal, je_host := None\<rparr> else e"
  have f: "je_key (?f e) = je_key e" "je_epoch (?f e) = je_epoch e" "je_stage (?f e) = je_stage e"
    "je_attempt (?f e) = je_attempt e" for e by simp_all
  have jobs: "jobs_of (settle_keys ks l) st = map ?f (jobs_of l st)" for st
    by (simp add: jobs_of_def settle_keys_def filter_map o_def if_distrib[of je_stage])
  have "map je_attempt (jobs_of (settle_keys ks l) ''cost'') = map je_attempt (jobs_of l ''cost'')"
    unfolding jobs by (simp add: o_def if_distrib[of je_attempt])
  moreover have "\<forall>e\<in>set (jobs_of (settle_keys ks l) ''cost''). je_attempt e \<noteq> None"
    using assms(1) unfolding jobs by (auto simp: ledger_ok_def)
  moreover have "\<forall>e\<in>set (lg_jobs (settle_keys ks l)). je_epoch e \<le> epoch l"
    using assms(1) by (auto simp: ledger_ok_def settle_keys_def)
  ultimately have "ledger_ok (settle_keys ks l)" using assms(1) by (simp add: ledger_ok_def)
  moreover have "\<forall>e\<in>set (lg_jobs (settle_keys ks l)). entry_ok e"
    using assms(2) by (auto simp: settle_keys_def entry_ok_def)
  ultimately show ?thesis ..
qed

text \<open>An accepted manager: one entry more, submitted under its key.\<close>

lemma submit_manager_Inr:
  assumes "submit_manager wd ho key st = (Inr i, st')"
  obtains e where "job (ls_ledger st) key = None" "je_key e = key" "je_stage e = ''manager''" "je_status e = Submitted"
    "je_attempt e = None" "je_epoch e = epoch (ls_ledger st)" "entry_ok e"
    "ls_ledger st' = (ls_ledger st)\<lparr>lg_jobs := lg_jobs (ls_ledger st) @ [e]\<rparr>"
    "ls_session st' = ls_session st" "ls_launch st' = ls_launch st" "je_job_id e = i"
proof -
  let ?spec = "manager_spec ho (ls_launch st) key"
  obtain answer w where q: "submit (wd_runner wd) ?spec (ls_world st) = (answer, w)" by force
  obtain l r where l: "reserve key ''manager'' None (js_name ?spec) (wd_now wd (ls_world st)) (ls_ledger st) = Inr l"
    and s: "answer = Inr r" "sr_outcome r = ''accepted''" "i = sr_job_id r"
    and st': "st' = st\<lparr>ls_ledger := update key (\<lambda>e. e\<lparr>je_status := submitted_status (sr_outcome r), je_job_id := sr_job_id r\<rparr>) l,
       ls_world := w\<rparr>"
    using assms by (auto simp: submit_manager_def bindL_Inr escape_Inr_iff Let_def q split: if_splits)
  let ?n = "new_entry key ''manager'' None (js_name ?spec) (wd_now wd (ls_world st)) (epoch (ls_ledger st))"
  let ?e = "?n\<lparr>je_status := Submitted, je_job_id := i\<rparr>"
  have none: "job (ls_ledger st) key = None" and l': "l = (ls_ledger st)\<lparr>lg_jobs := lg_jobs (ls_ledger st) @ [?n]\<rparr>"
    using l by (auto simp: reserve_def split: if_splits)
  have "\<forall>x\<in>set (lg_jobs (ls_ledger st)). je_key x \<noteq> key" using none by (auto simp: job_None_iff)
  then have "ls_ledger st' = (ls_ledger st)\<lparr>lg_jobs := lg_jobs (ls_ledger st) @ [?e]\<rparr>"
    using s(2,3) by (simp add: st' l' update_def submitted_status_def new_entry_def map_idI)
  with none show ?thesis by (intro that[of ?e]) (simp_all add: new_entry_def entry_ok_def st')
qed

text \<open>A new epoch with one manager satisfies the ledger's invariant.\<close>

lemma new_manager_inv:
  assumes "ledger_ok l" and "\<forall>e\<in>set (lg_jobs l). entry_ok e" and "job l (je_key e) = None"
    and "je_stage e = ''manager''" and "je_attempt e = None" and "je_epoch e = epoch l + 1" and "entry_ok e"
  shows "ledger_inv ((begin_epoch l)\<lparr>lg_jobs := lg_jobs l @ [e]\<rparr>) \<and>
    budget_used ((begin_epoch l)\<lparr>lg_jobs := lg_jobs l @ [e]\<rparr>) = 0"
proof -
  let ?l = "(begin_epoch l)\<lparr>lg_jobs := lg_jobs l @ [e]\<rparr>"
  have b: "lg_jobs (begin_epoch l) = lg_jobs l" "epoch ?l = epoch l + 1" "epoch (begin_epoch l) = epoch l + 1"
    by (simp_all add: begin_epoch_def epoch_def)
  have jobs: "jobs_of ?l st = jobs_of l st @ (if st = ''manager'' then [e] else [])" for st
    using assms(4) by (simp add: jobs_of_def b)
  have older: "\<forall>x\<in>set (lg_jobs l). je_epoch x \<noteq> epoch l + 1" using assms(1) by (fastforce simp: ledger_ok_def)
  have cur: "current ?l st = (if st = ''manager'' then [e] else [])" for st
    using older assms(6) by (auto simp: current_def jobs b(2) filter_empty_conv) (auto simp: jobs_of_def)
  have "ledger_ok ?l"
    using assms(1,3,4,6) older by (auto simp: ledger_ok_def jobs b job_None_iff le_Suc_eq)
  moreover have "one_job ?l" by (auto simp: one_job_def cur)
  moreover have "budget_used ?l = 0" by (simp add: budget_used_def cost_attempts_def cur)
  ultimately show ?thesis using assms(2,7) by (auto simp: ledger_inv_def b)
qed

text \<open>What a resume that returns a job has checked and done.\<close>

lemma resume_Inr:
  assumes "resume wd ho en req lock_busy op st = (Inr i, st')"
  obtains lm pending e where
    "\<forall>e\<in>set (lg_jobs (ls_ledger st)). unsettled e \<longrightarrow> je_stage e = ''manager''"
    "lm = settle_keys (je_key ` {e \<in> set (lg_jobs (ls_ledger st)). unsettled e}) (ls_ledger st)"
    "unfinished_stages (ls_launch st) (ls_session st) = Inr pending"
    "check_pinned en (ls_session st') pending = Inr ()" "job (begin_epoch (lm)) (je_key e) = None"
    "je_key e = resume_key (ls_ledger st)" "je_stage e = ''manager''" "je_status e = Submitted"
    "je_attempt e = None" "je_epoch e = epoch (ls_ledger st) + 1" "entry_ok e"
    "ls_ledger st' = (begin_epoch (lm))\<lparr>lg_jobs := lg_jobs (lm) @ [e]\<rparr>"
proof -
  have "resume_locked wd ho en req op st = (Inr i, st')" using assms by (auto simp: resume_def split: if_splits)
  then obtain u mid pending v mid2 level w where
    c: "check_jobs_ended wd (lg_jobs (ls_ledger st)) st = (Inr u, mid)"
    and p: "unfinished_stages (ls_launch mid) (ls_session mid) = Inr pending"
    and a: "upgrade_cost en req op mid = (Inr v, mid2)"
    and h: "check_pinned en (ls_session mid2) pending = Inr w"
    and s: "submit_manager wd ho (resume_key (ls_ledger mid2))
      (mid2\<lparr>ls_launch := refreshed ho level (ls_launch mid2), ls_ledger := begin_epoch (ls_ledger mid2)\<rparr>) = (Inr i, st')"
    by (auto simp: resume_locked_def bindL_Inr escape_Inr_iff Let_def)
  note cj = check_jobs_ended_Inr[OF c]
  have same: "ls_ledger mid2 = ls_ledger mid"
    using a by (auto simp: upgrade_cost_def split: if_splits sum.splits)
  obtain e where e: "job (begin_epoch (ls_ledger mid2)) (resume_key (ls_ledger mid2)) = None"
    "je_key e = resume_key (ls_ledger mid2)" "je_stage e = ''manager''" "je_status e = Submitted" "je_attempt e = None"
    "je_epoch e = epoch (begin_epoch (ls_ledger mid2))" "entry_ok e"
    "ls_ledger st' = (begin_epoch (ls_ledger mid2))\<lparr>lg_jobs := lg_jobs (begin_epoch (ls_ledger mid2)) @ [e]\<rparr>"
    "ls_session st' = ls_session mid2"
    by (rule submit_manager_Inr[OF s]) simp
  show ?thesis
  proof (rule that[of "ls_ledger mid" pending e])
    show "je_key e = resume_key (ls_ledger st)" using e(2) cj by (simp add: same resume_key_def)
    show "je_epoch e = epoch (ls_ledger st) + 1" using e(6) cj by (simp add: same begin_epoch_def epoch_def)
    show "ls_ledger st' = (begin_epoch (ls_ledger mid))\<lparr>lg_jobs := lg_jobs (ls_ledger mid) @ [e]\<rparr>"
      using e(8) by (simp add: same begin_epoch_def)
  qed (use cj p h e same in simp_all)
qed

section \<open>What runs in the scheduler\<close>

text \<open>
  \<open>alive w\<close> are the jobs that have not ended, by ID and name, in a state of the world. A truthful scheduler starts
  jobs only when \<open>bsub\<close> is run, under the name it is given; a job ID that it reports as ended or unknown, or a
  name for which it lists no job that has not ended, belongs to no live job.
\<close>

definition truthful :: "'w world \<Rightarrow> ('w \<Rightarrow> (string \<times> string) set) \<Rightarrow> bool" where
  "truthful wd alive \<longleftrightarrow>
     (\<forall>a w. alive (snd (wd_runner wd a w)) \<subseteq> alive w \<union> {(i, n). \<exists>rest. a = ''bsub'' # ''-J'' # n # rest})
     \<and> (\<forall>i s w w'. query (wd_runner wd) (wd_json wd) i w = (Inr s, w') \<longrightarrow> \<not> live_job s \<longrightarrow> i \<notin> fst ` alive w')
     \<and> (\<forall>n found w w'. find_jobs (wd_runner wd) (wd_json wd) n w = (Inr found, w') \<longrightarrow> \<not> list_ex live_job found
          \<longrightarrow> n \<notin> snd ` alive w')"

definition entry_live :: "('w \<Rightarrow> (string \<times> string) set) \<Rightarrow> 'w \<Rightarrow> job_entry \<Rightarrow> bool" where
  "entry_live alive w e \<longleftrightarrow> (\<exists>i. (i, je_name e) \<in> alive w
     \<and> (case je_job_id e of Some (c # s) \<Rightarrow> i = c # s | _ \<Rightarrow> True))"

lemma entry_live_mono: "alive w' \<subseteq> alive w \<Longrightarrow> entry_live alive w' e \<Longrightarrow> entry_live alive w e"
  unfolding entry_live_def by blast

lemma asking_starts_nothing:
  assumes "truthful wd alive"
  shows "query (wd_runner wd) (wd_json wd) i w = (r, w') \<Longrightarrow> alive w' \<subseteq> alive w"
    and "find_jobs (wd_runner wd) (wd_json wd) n w = (r2, w') \<Longrightarrow> alive w' \<subseteq> alive w"
    and "history (wd_runner wd) i w = (r3, w') \<Longrightarrow> alive w' \<subseteq> alive w"
proof -
  have r: "alive (snd (wd_runner wd (c # a) w)) \<subseteq> alive w" if "c \<noteq> ''bsub''" for c a
  proof -
    have "alive (snd (wd_runner wd (c # a) w)) \<subseteq> alive w \<union> {(i, n). \<exists>rest. c # a = ''bsub'' # ''-J'' # n # rest}"
      using assms unfolding truthful_def by blast
    with that show ?thesis by auto
  qed
  have b: "alive (snd (bjobs (wd_runner wd) (wd_json wd) ts w)) \<subseteq> alive w" for ts
  proof -
    have "snd (bjobs (wd_runner wd) (wd_json wd) ts w)
        = snd (wd_runner wd (''bjobs'' # ''-a'' # ''-json'' # ''-o'' # FIELDS # ts) w)"
      by (simp add: bjobs_def split: prod.split)
    with r[of "''bjobs''" "''-a'' # ''-json'' # ''-o'' # FIELDS # ts"] show ?thesis by simp
  qed
  show "query (wd_runner wd) (wd_json wd) i w = (r, w') \<Longrightarrow> alive w' \<subseteq> alive w"
    using b[of "[i]"] by (auto simp: query_def split: prod.splits)
  show "find_jobs (wd_runner wd) (wd_json wd) n w = (r2, w') \<Longrightarrow> alive w' \<subseteq> alive w"
    using b[of "[''-J'', n]"] by (auto simp: find_jobs_def split: prod.splits)
  show "history (wd_runner wd) i w = (r3, w') \<Longrightarrow> alive w' \<subseteq> alive w"
    using r[of "''bhist''" "[''-l'', ''-n'', ''0'', i]"] by (auto simp: history_def split: prod.splits)
qed

lemma manager_statuses_live:
  assumes "truthful wd alive" and "manager_statuses wd e w = (r, w')"
  shows "alive w' \<subseteq> alive w" and "r = Inr found \<Longrightarrow> \<not> list_ex live_job found \<Longrightarrow> \<not> entry_live alive w' e"
proof -
  note quiet = asking_starts_nothing[OF assms(1)]
  show "alive w' \<subseteq> alive w"
  proof (cases "\<exists>c i. je_job_id e = Some (c # i)")
    case True
    then obtain c i where j: "je_job_id e = Some (c # i)" by blast
    obtain answer w1 where q: "query (wd_runner wd) (wd_json wd) (c # i) w = (answer, w1)" by fastforce
    obtain past w2 where h: "history (wd_runner wd) (c # i) w1 = (past, w2)" by fastforce
    have "w' = w1 \<or> w' = w2" using assms(2) j q h by (auto simp: manager_statuses_def split: sum.splits if_splits)
    with quiet(1)[OF q] quiet(3)[OF h] show ?thesis by blast
  next
    case False
    then have "manager_statuses wd e w = find_jobs (wd_runner wd) (wd_json wd) (je_name e) w"
      by (auto simp: manager_statuses_def split: option.split list.split)
    with assms(2) quiet(2) show ?thesis by metis
  qed
  show "\<not> entry_live alive w' e" if found: "r = Inr found" and none: "\<not> list_ex live_job found"
  proof (cases "\<exists>c i. je_job_id e = Some (c # i)")
    case True
    then obtain c i where j: "je_job_id e = Some (c # i)" by blast
    obtain answer w1 where q: "query (wd_runner wd) (wd_json wd) (c # i) w = (answer, w1)" by fastforce
    obtain past w2 where h: "history (wd_runner wd) (c # i) w1 = (past, w2)" by fastforce
    obtain s where s: "answer = Inr s" "\<not> live_job s" and w: "alive w' \<subseteq> alive w1"
      using assms(2) found none j q h quiet(3)[OF h]
      by (auto simp: manager_statuses_def live_job_def split: sum.splits if_splits)
    from assms(1) q s have "c # i \<notin> fst ` alive w1" unfolding truthful_def by blast
    with w show ?thesis unfolding entry_live_def j by force
  next
    case False
    then have m: "manager_statuses wd e w = find_jobs (wd_runner wd) (wd_json wd) (je_name e) w"
      by (auto simp: manager_statuses_def split: option.split list.split)
    have "je_name e \<notin> snd ` alive w'" using assms found none unfolding m truthful_def by blast
    then show ?thesis unfolding entry_live_def by force
  qed
qed

lemma check_job_ended_live:
  assumes "truthful wd alive" and "check_job_ended wd e st = (Inr u, st')"
  shows "alive (ls_world st') \<subseteq> alive (ls_world st) \<and> (unsettled e \<longrightarrow> \<not> entry_live alive (ls_world st') e)"
proof (cases "unsettled e")
  case True
  obtain r w where m: "manager_statuses wd e (ls_world st) = (r, w)" by fastforce
  from assms(2) True m obtain found where "r = Inr found" "\<not> list_ex live_job found" "ls_world st' = w"
    by (auto simp: check_job_ended_def Let_def split: if_splits sum.splits)
  with manager_statuses_live[OF assms(1) m] show ?thesis by blast
qed (use assms(2) in \<open>simp add: check_job_ended_def\<close>)

lemma check_jobs_ended_live:
  assumes "truthful wd alive" and "check_jobs_ended wd es st = (Inr u, st')"
  shows "alive (ls_world st') \<subseteq> alive (ls_world st) \<and> (\<forall>e\<in>set es. unsettled e \<longrightarrow> \<not> entry_live alive (ls_world st') e)"
  using assms(2)
proof (induction es arbitrary: st)
  case (Cons e es)
  then obtain v mid where m: "check_job_ended wd e st = (Inr v, mid)" "check_jobs_ended wd es mid = (Inr u, st')"
    by (auto simp: bindL_Inr)
  from check_job_ended_live[OF assms(1) m(1)] Cons.IH[OF m(2)] entry_live_mono[of alive "ls_world st'" "ls_world mid" e]
  show ?case by auto
qed simp

lemma manager_argv: "\<exists>rest. argv (manager_spec ho cf key) = Inr (''bsub'' # ''-J'' # js_name (manager_spec ho cf key) # rest)"
proof -
  have "js_kind (manager_spec ho cf key) = ''manager''" by (simp add: manager_spec_def Let_def)
  then show ?thesis by (simp add: argv_def resource_request_def Let_def)
qed

lemma submit_manager_live:
  assumes "truthful wd alive" and "submit_manager wd ho key st = (Inr i, st')"
  shows "alive (ls_world st') \<subseteq> alive (ls_world st) \<union> {(j, n). n = ''qtb-'' @ cf_run_id (ls_launch st) @ ''-'' @ key}"
proof -
  let ?spec = "manager_spec ho (ls_launch st) key"
  obtain rest where a: "argv ?spec = Inr (''bsub'' # ''-J'' # js_name ?spec # rest)" using manager_argv by blast
  obtain p w where r: "wd_runner wd (''bsub'' # ''-J'' # js_name ?spec # rest) (ls_world st) = (p, w)" by fastforce
  then have "submit (wd_runner wd) ?spec (ls_world st) = (Inr (classify_submit p), w)" by (simp add: submit_def a)
  then have "ls_world st' = w"
    using assms(2) by (auto simp: submit_manager_def bindL_Inr escape_Inr_iff Let_def split: if_splits)
  moreover have "js_name ?spec = ''qtb-'' @ cf_run_id (ls_launch st) @ ''-'' @ key" by (simp add: manager_spec_def Let_def)
  moreover have "alive (snd (wd_runner wd (''bsub'' # ''-J'' # js_name ?spec # rest) (ls_world st)))
      \<subseteq> alive (ls_world st) \<union> {(i, n). \<exists>r. ''bsub'' # ''-J'' # js_name ?spec # rest = ''bsub'' # ''-J'' # n # r}"
    using assms(1) unfolding truthful_def by blast
  ultimately show ?thesis unfolding r by auto
qed

text \<open>The jobs of the ledger that a resume found, when it has submitted its manager.\<close>

lemma resume_live:
  assumes "truthful wd alive" and "resume wd ho en req lock_busy op st = (Inr i, st')"
    and "\<forall>e\<in>set (lg_jobs (ls_ledger st)). je_name e = ''qtb-'' @ cf_run_id (ls_launch st) @ ''-'' @ je_key e"
    and "\<forall>e\<in>set (lg_jobs (ls_ledger st)). \<not> unsettled e \<longrightarrow> \<not> entry_live alive (ls_world st) e"
    and "e \<in> set (lg_jobs (ls_ledger st))" and "je_key e \<noteq> resume_key (ls_ledger st)"
  shows "\<not> entry_live alive (ls_world st') e"
proof -
  have "resume_locked wd ho en req op st = (Inr i, st')" using assms(2) by (auto simp: resume_def split: if_splits)
  then obtain u mid v mid2 level where
    c: "check_jobs_ended wd (lg_jobs (ls_ledger st)) st = (Inr u, mid)"
    and a: "upgrade_cost en req op mid = (Inr v, mid2)"
    and s: "submit_manager wd ho (resume_key (ls_ledger mid2))
      (mid2\<lparr>ls_launch := refreshed ho level (ls_launch mid2), ls_ledger := begin_epoch (ls_ledger mid2)\<rparr>) = (Inr i, st')"
    by (auto simp: resume_locked_def bindL_Inr escape_Inr_iff Let_def)
  have same: "ls_ledger mid2 = ls_ledger mid" "ls_launch mid2 = ls_launch mid" "ls_world mid2 = ls_world mid"
    using a by (auto simp: upgrade_cost_def split: if_splits sum.splits)
  note cj = check_jobs_ended_Inr[OF c] and cl = check_jobs_ended_live[OF assms(1) c]
  have dead: "\<not> entry_live alive (ls_world mid) e"
    using cl assms(4,5) entry_live_mono[of alive "ls_world mid" "ls_world st" e] by blast
  have key: "resume_key (ls_ledger mid) = resume_key (ls_ledger st)" using cj by (simp add: resume_key_def)
  have name: "je_name e \<noteq> ''qtb-'' @ cf_run_id (ls_launch st) @ ''-'' @ resume_key (ls_ledger st)"
    using assms(3,5,6) by auto
  have "alive (ls_world st') \<subseteq> alive (ls_world mid)
      \<union> {(j, n). n = ''qtb-'' @ cf_run_id (ls_launch st) @ ''-'' @ resume_key (ls_ledger st)}"
    using submit_manager_live[OF assms(1) s] conjunct1[OF conjunct2[OF cj]] by (simp add: same refreshed_def key)
  with dead name show ?thesis unfolding entry_live_def by blast
qed


section \<open>The stages of a resume are pinned to its harness\<close>

lemma unfinished_stages_mem:
  assumes "unfinished_stages cf s = Inr pending" and "v \<in> set (launched_stages cf)" and "read_state s v = Inr x"
    and "status_of x \<notin> set FINAL"
  shows "v \<in> set pending"
proof (cases "sn_run s = None")
  case False
  with assms(1) obtain states where st: "list_all2 (\<lambda>v y. \<exists>x. read_state s v = Inr x \<and> (v, x) = y) (launched_stages cf) states"
    "pending = map fst (filter (\<lambda>(v, x). status_of x \<notin> set FINAL) states)"
    by (auto simp: unfinished_stages_def res_simps)
  obtain y where "y \<in> set states" "\<exists>x. read_state s v = Inr x \<and> y = (v, x)"
    using list_all2_left[OF st(1) assms(2)] by blast
  with assms(3) have "(v, x) \<in> set states" by auto
  with assms(4) show ?thesis unfolding st(2) by force
qed (use assms in \<open>simp add: unfinished_stages_def\<close>)

text \<open>
  C28. A resume submits no work its stages would refuse: every unfinished stage of the launch runs under the
  harness identities it is pinned to, so the check each stage makes when it opens the session passes, given
  that the run records a coordinator identity and the profile's files are unchanged.
\<close>

theorem resumed_stages_pinned:
  assumes "resume wd ho en req lock_busy op st = (Inr i, st')" and "sn_run (ls_session st') = Some r"
    and "v \<in> set (launched_stages (ls_launch st))" and "read_state (ls_session st) v = Inr x" and "status_of x \<notin> set FINAL"
    and "hs_coordinator (rn_hashes (effective r (Some v))) \<noteq> None"
    and "rn_manifest (effective r (Some v)) = en_manifest en" and "rn_policy (effective r (Some v)) = en_policy_hash en"
  shows "check_harness en (effective r (Some v)) = Inr ()"
proof -
  obtain pending where p: "unfinished_stages (ls_launch st) (ls_session st) = Inr pending"
    "check_pinned en (ls_session st') pending = Inr ()"
    by (rule resume_Inr[OF assms(1)])
  have "v \<in> set pending" by (rule unfinished_stages_mem[OF p(1) assms(3-5)])
  with p(2) have "pinned_here (hs_coordinator (rn_hashes (effective r (Some v)))) (hs_coordinator (en_identities en))"
    "pinned_here (hs_implementation (rn_hashes (effective r (Some v)))) (hs_implementation (en_identities en))"
    by (auto simp: check_pinned_def assms(2) refuse_if_def list_all_iff Let_def split: if_splits)
  with assms(6-8) show ?thesis by (auto simp: check_harness_def pinned_here_def)
qed

section \<open>Repeating the options of a launch\<close>

lemma job_resources_Inr:
  assumes "job_resources op kinds = Inr rs" and "kind \<in> set kinds"
  shows "\<exists>r. map_of rs kind = Some r \<and> rs_queue r = or_str (op_job_queue op kind) (op_queue op)
    \<and> rs_mem_gb r = op_mem_gb op kind \<and> rs_wall r = op_wall op kind"
  using assms
proof (induction kinds arbitrary: rs)
  case (Cons k kinds)
  then obtain r rs' where r: "job_resource op k = Inr r" "job_resources op kinds = Inr rs'" "rs = (k, r) # rs'"
    by (auto simp: bindH_Inr_iff)
  then show ?case using Cons.IH[OF r(2)] Cons.prems(2) by (auto simp: job_resource_def Let_def bindH_Inr_iff)
qed simp

lemma resolve_Inr:
  assumes "resolve ho op = Inr cf"
  obtains b e store where "op_baseline op = Some b" "op_evolved op = Some e" "given_path ho (op_store op) ''QTB_STORE'' = Some store"
    "cf_baseline cf = ho_resolve ho b" "cf_evolved cf = ho_resolve ho e" "cf_store cf = ho_resolve ho store"
    "cf_profile cf = op_profile op" "cf_unit_tests cf = (\<not> op_no_unit_tests op)" "cf_cost_model cf = op_cost_model op"
    "cf_cost_ncpus cf = op_cost_ncpus op" "cf_cost_max_r1m cf = op_cost_max_r1m op"
    "\<And>kind. kind \<in> set LAUNCH_JOBS \<Longrightarrow> rs_queue (cf_resources cf kind) = or_str (op_job_queue op kind) (op_queue op)
      \<and> rs_mem_gb (cf_resources cf kind) = op_mem_gb op kind \<and> rs_wall (cf_resources cf kind) = op_wall op kind"
proof -
  obtain store dir b e where g: "given_path ho (op_store op) ''QTB_STORE'' = Some store"
    "given_path ho (op_root op) ''QTB_SESSION'' = Some dir" "op_baseline op = Some b" "op_evolved op = Some e"
    using assms unfolding resolve_def by (auto split: option.splits)
  obtain rs level where r: "job_resources op LAUNCH_JOBS = Inr rs" and
    cf: "cf = \<lparr>cf_run_id = ho_run_id ho, cf_session = ho_resolve ho dir, cf_lsf_dir = lsf_directory (ho_resolve ho dir),
       cf_store = ho_resolve ho store, cf_baseline = ho_resolve ho b, cf_evolved = ho_resolve ho e, cf_profile = op_profile op,
       cf_unit_tests = (\<not> op_no_unit_tests op), cf_python = ho_python ho, cf_project = ho_project ho,
       cf_log_level = level, cf_resources = (\<lambda>kind. the (map_of rs kind)), cf_cost_model = op_cost_model op,
       cf_cost_ncpus = op_cost_ncpus op, cf_cost_max_r1m = op_cost_max_r1m op,
       cf_max_cost_retries = MAX_COST_RETRIES, cf_identity = ho_identity ho\<rparr>"
    using assms unfolding resolve_def g option.case prod.case Let_def existing_directory_def bindH_Inr_iff sum.inject
    by blast
  show ?thesis
  proof (rule that[OF g(3,4,1)])
    fix kind assume "kind \<in> set LAUNCH_JOBS"
    from job_resources_Inr[OF r this]
    show "rs_queue (cf_resources cf kind) = or_str (op_job_queue op kind) (op_queue op)
      \<and> rs_mem_gb (cf_resources cf kind) = op_mem_gb op kind \<and> rs_wall (cf_resources cf kind) = op_wall op kind"
      by (auto simp: cf)
  qed (simp_all add: cf)
qed

lemma remdups_single: "remdups xs = [a] \<longleftrightarrow> xs \<noteq> [] \<and> set xs \<subseteq> {a}"
proof
  assume "remdups xs = [a]"
  then have "set xs = {a}" by (metis list.simps(15) set_empty set_remdups empty_set)
  then show "xs \<noteq> [] \<and> set xs \<subseteq> {a}" by auto
next
  assume h: "xs \<noteq> [] \<and> set xs \<subseteq> {a}"
  then have s: "set xs = {a}" by (metis set_empty subset_singletonD)
  have "length (remdups xs) = 1" by (simp add: length_remdups_card_conv s)
  then obtain b where "remdups xs = [b]" by (auto simp: length_Suc_conv)
  moreover from this s have "b = a" by (metis list.set_intros(1) set_remdups singletonD)
  ultimately show "remdups xs = [a]" by simp
qed

definition recorded_keys :: "string list" where
  "recorded_keys = [''baseline'', ''evolved'', ''store'', ''profile'', ''no_unit_tests'', ''cost_model'', ''cost_ncpus'', ''cost_max_r1m'']
     @ concat (map (\<lambda>kind. [underscored kind @ ''_queue'', underscored kind @ ''_mem_gb'', underscored kind @ ''_wall'']) LAUNCH_JOBS)"

lemma recorded_keys_distinct: "distinct (''queue'' # recorded_keys)"
  by code_simp

lemma recorded_map: "(k, v) \<in> set (recorded_options cf) \<Longrightarrow> dict_of (recorded_options cf) k = Some v"
proof -
  have "distinct (map fst (recorded_options cf))"
    using recorded_keys_distinct
    by (auto simp: recorded_options_def recorded_keys_def map_concat o_def split: list.split)
  then show "(k, v) \<in> set (recorded_options cf) \<Longrightarrow> dict_of (recorded_options cf) k = Some v"
    by (simp add: dict_of_distinct)
qed

lemma recorded_queue:
  "dict_of (recorded_options cf) ''queue'' =
     (case remdups (map (\<lambda>kind. rs_queue (cf_resources cf kind)) LAUNCH_JOBS) of [q] \<Rightarrow> Some (OText q) | _ \<Rightarrow> None)"
proof (cases "\<exists>q. remdups (map (\<lambda>kind. rs_queue (cf_resources cf kind)) LAUNCH_JOBS) = [q]")
  case True
  then obtain q where q: "remdups (map (\<lambda>kind. rs_queue (cf_resources cf kind)) LAUNCH_JOBS) = [q]" by blast
  then have "(''queue'', OText q) \<in> set (recorded_options cf)" by (simp add: recorded_options_def)
  from recorded_map[OF this] show ?thesis by (simp add: q)
next
  case False
  then have e: "(case remdups (map (\<lambda>kind. rs_queue (cf_resources cf kind)) LAUNCH_JOBS) of [q] \<Rightarrow> f q | _ \<Rightarrow> d) = d"
    for f :: "string option \<Rightarrow> 'a" and d by (auto split: list.split)
  have "''queue'' \<notin> set recorded_keys" using recorded_keys_distinct by simp
  then have "dict_of (recorded_options cf) ''queue'' = None"
    unfolding dict_of_def map_of_eq_None_iff recorded_options_def e
    by (simp add: recorded_keys_def image_UN LAUNCH_JOBS_def underscored_def)
  then show ?thesis unfolding e .
qed

text \<open>An option that repeats what was recorded, or is left at its default, is no change.\<close>

definition is_change :: "host \<Rightarrow> config \<Rightarrow> string \<times> oval \<Rightarrow> bool" where
  "is_change ho cf x \<longleftrightarrow> map_of (option_values DEFAULTS) (fst x) \<noteq> Some (snd x)
     \<and> dict_of (recorded_options cf) (fst x) \<noteq> Some (normal ho (snd x))"

lemma default_queues: "kind \<in> set LAUNCH_JOBS \<Longrightarrow> map_of (option_values DEFAULTS) (underscored kind @ ''_queue'') = Some (OText None)"
  by (auto simp: LAUNCH_JOBS_def option_values_def DEFAULTS_def underscored_def)

lemma job_options_kept:
  assumes "resolve ho op = Inr cf" and "kind \<in> set LAUNCH_JOBS" and "op_job_queue op kind \<noteq> Some []"
  shows "\<not> is_change ho cf (underscored kind @ ''_queue'', OText (op_job_queue op kind))"
    and "\<not> is_change ho cf (underscored kind @ ''_mem_gb'', ONum (op_mem_gb op kind))"
    and "\<not> is_change ho cf (underscored kind @ ''_wall'', OText (Some (op_wall op kind)))"
proof -
  obtain r: "rs_queue (cf_resources cf kind) = or_str (op_job_queue op kind) (op_queue op)"
    "rs_mem_gb (cf_resources cf kind) = op_mem_gb op kind" "rs_wall (cf_resources cf kind) = op_wall op kind"
    using resolve_Inr[OF assms(1)] assms(2) by metis
  have m: "(underscored kind @ ''_queue'', OText (rs_queue (cf_resources cf kind))) \<in> set (recorded_options cf)"
    "(underscored kind @ ''_mem_gb'', ONum (rs_mem_gb (cf_resources cf kind))) \<in> set (recorded_options cf)"
    "(underscored kind @ ''_wall'', OText (Some (rs_wall (cf_resources cf kind)))) \<in> set (recorded_options cf)"
    using assms(2) by (auto simp: recorded_options_def)
  show "\<not> is_change ho cf (underscored kind @ ''_mem_gb'', ONum (op_mem_gb op kind))"
    "\<not> is_change ho cf (underscored kind @ ''_wall'', OText (Some (op_wall op kind)))"
    using recorded_map[OF m(2)] recorded_map[OF m(3)] by (simp_all add: is_change_def normal_def r)
  show "\<not> is_change ho cf (underscored kind @ ''_queue'', OText (op_job_queue op kind))"
  proof (cases "op_job_queue op kind")
    case None
    then show ?thesis using default_queues[OF assms(2)] by (simp add: is_change_def)
  next
    case (Some q)
    with recorded_map[OF m(1)] assms(3) show ?thesis by (simp add: is_change_def normal_def r or_str_def)
  qed
qed

definition base_options :: "options \<Rightarrow> (string \<times> oval) list" where
  "base_options op =
     [(''baseline'', OPath (op_baseline op)), (''evolved'', OPath (op_evolved op)), (''profile'', OText (Some (op_profile op))),
      (''store'', OPath (op_store op)), (''no_unit_tests'', OFlag (op_no_unit_tests op))]"

definition cost_options :: "options \<Rightarrow> (string \<times> oval) list" where
  "cost_options op = [(''cost_model'', OText (op_cost_model op)), (''cost_ncpus'', OInt (op_cost_ncpus op)),
     (''cost_max_r1m'', ONum (op_cost_max_r1m op))]"

lemma plain_options_kept:
  assumes "resolve ho op = Inr cf" and "x \<in> set (base_options op @ cost_options op)"
  shows "\<not> is_change ho cf x"
proof -
  obtain b e store where r: "op_baseline op = Some b" "op_evolved op = Some e"
    "given_path ho (op_store op) ''QTB_STORE'' = Some store"
    "cf_baseline cf = ho_resolve ho b" "cf_evolved cf = ho_resolve ho e" "cf_store cf = ho_resolve ho store"
    "cf_profile cf = op_profile op" "cf_unit_tests cf = (\<not> op_no_unit_tests op)" "cf_cost_model cf = op_cost_model op"
    "cf_cost_ncpus cf = op_cost_ncpus op" "cf_cost_max_r1m cf = op_cost_max_r1m op"
    using resolve_Inr[OF assms(1)] by metis
  show ?thesis
  proof (cases "x = (''store'', OPath None)")
    case True
    then show ?thesis by (simp add: is_change_def option_values_def DEFAULTS_def)
  next
    case False
    have "op_store op = None \<or> op_store op = Some store" using r(3) by (cases "op_store op") (simp_all add: given_path_def)
    then have "\<forall>x\<in>set (base_options op @ cost_options op). x \<noteq> (''store'', OPath None)
        \<longrightarrow> (fst x, normal ho (snd x)) \<in> set (recorded_options cf)"
      by (elim disjE) (simp_all add: base_options_def cost_options_def normal_def recorded_options_def r(1,2,4-))
    with assms(2) False have "(fst x, normal ho (snd x)) \<in> set (recorded_options cf)" by blast
    from recorded_map[OF this] show ?thesis by (simp add: is_change_def)
  qed
qed

lemma queue_option_kept:
  "is_change ho cf (''queue'', OText (op_queue op)) \<longleftrightarrow>
     (\<exists>q. op_queue op = Some q \<and> (\<exists>kind\<in>set LAUNCH_JOBS. rs_queue (cf_resources cf kind) \<noteq> Some q))"
proof -
  have d: "map_of (option_values DEFAULTS) ''queue'' = Some (OText None)"
    by (simp add: option_values_def DEFAULTS_def)
  have "dict_of (recorded_options cf) ''queue'' = Some (OText (Some q))
      \<longleftrightarrow> remdups (map (\<lambda>kind. rs_queue (cf_resources cf kind)) LAUNCH_JOBS) = [Some q]" for q
    unfolding recorded_queue by (auto split: list.split)
  then have "dict_of (recorded_options cf) ''queue'' = Some (OText (Some q))
      \<longleftrightarrow> (\<forall>kind\<in>set LAUNCH_JOBS. rs_queue (cf_resources cf kind) = Some q)" for q
    unfolding remdups_single by (auto simp: LAUNCH_JOBS_def)
  then show ?thesis by (cases "op_queue op") (auto simp: is_change_def d normal_def)
qed

text \<open>
  C29. A resume accepts the options its session was launched with: of the options that \<open>resolve\<close> turned into the
  recorded launch none counts as changed, with one exception. \<open>--queue\<close> given beside another queue for
  some job is reported as changed although it repeats the launch, because the ledger records queues by job only.
\<close>

theorem repeated_options_accepted:
  assumes "resolve ho op = Inr cf" and "\<forall>kind\<in>set LAUNCH_JOBS. op_job_queue op kind \<noteq> Some []"
  shows "changed_options ho op cf =
    (if \<exists>q. op_queue op = Some q \<and> (\<exists>kind\<in>set LAUNCH_JOBS. rs_queue (cf_resources cf kind) \<noteq> Some q)
     then [''queue''] else [])"
proof -
  let ?jobs = "concat (map (\<lambda>kind. [(underscored kind @ ''_queue'', OText (op_job_queue op kind)),
          (underscored kind @ ''_mem_gb'', ONum (op_mem_gb op kind)), (underscored kind @ ''_wall'', OText (Some (op_wall op kind)))])
        LAUNCH_JOBS)"
  have parts: "option_values op = base_options op @ [(''queue'', OText (op_queue op))] @ ?jobs @ cost_options op"
    by (simp add: option_values_def base_options_def cost_options_def)
  have none: "filter (is_change ho cf) xs = []" if "\<forall>x\<in>set xs. \<not> is_change ho cf x" for xs
    using that by (simp add: filter_empty_conv)
  have "\<forall>x\<in>set ?jobs. \<not> is_change ho cf x"
    using job_options_kept[OF assms(1)] assms(2) by auto
  moreover have "\<forall>x\<in>set (base_options op). \<not> is_change ho cf x" "\<forall>x\<in>set (cost_options op). \<not> is_change ho cf x"
    using plain_options_kept[OF assms(1)] by simp_all
  ultimately have "filter (is_change ho cf) (option_values op)
      = (if is_change ho cf (''queue'', OText (op_queue op)) then [(''queue'', OText (op_queue op))] else [])"
    unfolding parts filter_append by (simp add: none)
  moreover have "changed_options ho op cf = sort (map fst (filter (is_change ho cf) (option_values op)))"
    unfolding changed_options_def is_change_def by (simp only: case_prod_unfold)
  ultimately have "changed_options ho op cf = (if is_change ho cf (''queue'', OText (op_queue op)) then [''queue''] else [])"
    by simp
  then show ?thesis unfolding queue_option_kept .
qed

section \<open>Sample runs\<close>

definition demo_host :: host where
  "demo_host = \<lparr>ho_environ = Map.empty, ho_resolve = id, ho_is_dir = (\<lambda>p. p \<noteq> ''/s/new''), ho_exists = (\<lambda>_. False),
     ho_parent = (\<lambda>_. ''/s''), ho_level = (\<lambda>_. Inr ''INFO''), ho_number = (\<lambda>_. ''4''), ho_run_id = ''r'', ho_python = ''python'',
     ho_project = ''/p'', ho_identity = ''i''\<rparr>"

definition demo_options :: options where
  "demo_options = DEFAULTS\<lparr>op_baseline := Some ''/a'', op_evolved := Some ''/b'', op_store := Some ''/store'',
     op_root := Some ''/s/new'', op_cost_ncpus := Some 56, op_queue := Some ''normal'',
     op_job_queue := (\<lambda>kind. if kind = ''cost'' then Some ''quiet'' else None)\<rparr>"

lemma demo_resolve: "\<exists>cf. resolve demo_host demo_options = Inr cf"
proof -
  have walls: "\<forall>kind\<in>set LAUNCH_JOBS. \<exists>n. wall_seconds (DEFAULT_WALL kind) = Inr n"
    by (simp add: LAUNCH_JOBS_def DEFAULT_WALL_def wall_seconds_def cut_newline_def digits_def is_digit_def minutes_of_def
        digit_value_def Let_def)
  have names: "plain_name ''normal''" "plain_name ''quiet''" by code_simp+
  have order: "\<not> list_ex (\<lambda>kind. wall_s demo_options ''manager'' \<le> wall_s demo_options kind) (filter (\<lambda>kind. kind \<noteq> ''manager'') LAUNCH_JOBS)"
    by (simp add: LAUNCH_JOBS_def wall_s_def demo_options_def DEFAULTS_def DEFAULT_WALL_def wall_seconds_def cut_newline_def
        digits_def is_digit_def minutes_of_def digit_value_def nat_of_digits_def Let_def)
  have one: "\<exists>r. job_resource demo_options kind = Inr r" if k: "kind \<in> set LAUNCH_JOBS" for kind
  proof -
    obtain n where "wall_seconds (DEFAULT_WALL kind) = Inr n" using walls k by blast
    then have w: "wall_seconds (op_wall demo_options kind) = Inr n" by (simp add: demo_options_def DEFAULTS_def)
    have m: "op_mem_gb demo_options kind > 0" by (simp add: demo_options_def DEFAULTS_def DEFAULT_MEM_GB_def)
    have q: "\<not> (case or_str (op_job_queue demo_options kind) (op_queue demo_options) of None \<Rightarrow> False | Some q \<Rightarrow> \<not> plain_name q)"
      using names by (simp add: demo_options_def or_str_def)
    show ?thesis by (simp add: job_resource_def Let_def refuse_if_def q w m)
  qed
  have "\<exists>rs. job_resources demo_options kinds = Inr rs" if "set kinds \<subseteq> set LAUNCH_JOBS" for kinds
    using that
  proof (induction kinds)
    case (Cons k kinds)
    then obtain rs r where "job_resources demo_options kinds = Inr rs" "job_resource demo_options k = Inr r"
      using one[of k] by auto
    then show ?case by simp
  qed simp
  then obtain rs where "job_resources demo_options LAUNCH_JOBS = Inr rs" by blast
  moreover have "op_baseline demo_options = Some ''/a''" "op_evolved demo_options = Some ''/b''"
    "op_store demo_options = Some ''/store''" "op_root demo_options = Some ''/s/new''" "op_cost_model demo_options = None"
    "op_cost_ncpus demo_options = Some 56" "op_cost_max_r1m demo_options = 10"
    by (simp_all add: demo_options_def DEFAULTS_def)
  moreover have "ho_resolve demo_host p = p" "ho_is_dir demo_host p = (p \<noteq> ''/s/new'')" "\<not> ho_exists demo_host p"
    "ho_parent demo_host p = ''/s''" "ho_level demo_host x = Inr ''INFO''" for p x
    by (simp_all add: demo_host_def)
  ultimately show ?thesis using order
    by (simp add: resolve_def given_path_def existing_directory_def refuse_if_def given_level_def slots_def COST_SLOTS_def Let_def)
qed

theorem repeated_options_accepted_witness:
  "\<exists>cf. resolve demo_host demo_options = Inr cf \<and> changed_options demo_host demo_options cf = [''queue'']"
proof -
  obtain cf where cf: "resolve demo_host demo_options = Inr cf" using demo_resolve by blast
  have "rs_queue (cf_resources cf ''cost'') = or_str (op_job_queue demo_options ''cost'') (op_queue demo_options)"
    using resolve_Inr[OF cf] by (metis LAUNCH_JOBS_def list.set_intros)
  then have "rs_queue (cf_resources cf ''cost'') = Some ''quiet''" by (simp add: demo_options_def or_str_def)
  then have "\<exists>kind\<in>set LAUNCH_JOBS. rs_queue (cf_resources cf kind) \<noteq> Some ''normal''"
    by (intro bexI[of _ "''cost''"]) (simp_all add: LAUNCH_JOBS_def)
  moreover have "op_queue demo_options = Some ''normal''" "\<forall>kind\<in>set LAUNCH_JOBS. op_job_queue demo_options kind \<noteq> Some []"
    by (simp_all add: demo_options_def)
  ultimately have "changed_options demo_host demo_options cf = [''queue'']"
    using repeated_options_accepted[OF cf] by simp
  with cf show ?thesis by blast
qed

text \<open>A manager that is gone, and a scheduler that accepts the next one.\<close>

definition demo_scheduler :: "unit world" where
  "demo_scheduler = \<lparr>wd_runner = (\<lambda>a w. (if hd a = ''bsub'' then Exited 0 ''Job <8> is submitted'' [] else Exited 255 [] ''Job <7> is not found'', w)),
     wd_json = (\<lambda>_. Inr []), wd_clock = (\<lambda>_. 0), wd_now = (\<lambda>_. 0), wd_sleep = (\<lambda>t w. w), wd_nonce = (\<lambda>w. ([], w)),
     wd_session = (\<lambda>_. True), wd_state = (\<lambda>w st. None), wd_record = (\<lambda>w k. None), wd_cleaned = (\<lambda>_. None),
     wd_other_inputs = (\<lambda>_. []), wd_decide = (\<lambda>w. (Inl KeyError, w)), wd_blocker = (\<lambda>_. Inr None)\<rparr>"

definition demo_manager :: job_entry where
  "demo_manager = (new_entry ''manager'' ''manager'' None ''qtb-r-manager'' 0 0)\<lparr>je_status := Submitted, je_job_id := Some ''7''\<rparr>"

definition demo_config :: config where
  "demo_config = \<lparr>cf_run_id = ''r'', cf_session = ''/s/new'', cf_lsf_dir = ''/s/new.lsf'', cf_store = ''/store'', cf_baseline = ''/a'',
     cf_evolved = ''/b'', cf_profile = ''iterations-profile'', cf_unit_tests = True, cf_python = ''python'', cf_project = ''/p'',
     cf_log_level = ''INFO'', cf_resources = (\<lambda>kind. \<lparr>rs_queue = None, rs_mem_gb = 4, rs_wall = ''1:00'', rs_slots = 16\<rparr>),
     cf_cost_model = None, cf_cost_ncpus = Some 56, cf_cost_max_r1m = 10, cf_max_cost_retries = 20, cf_identity = ''i''\<rparr>"

definition demo_lstate :: "unit lstate" where
  "demo_lstate = \<lparr>ls_ledger = create_ledger\<lparr>lg_jobs := [demo_manager]\<rparr>, ls_launch = demo_config,
     ls_session = empty_session\<lparr>sn_run := Some (new_run demo_env demo_args)\<rparr>, ls_world = ()\<rparr>"

definition demo_requirement :: requirement where
  "demo_requirement = \<lparr>rq_contract = None, rq_entry_point = []\<rparr>"

lemma demo_gone: "manager_statuses demo_scheduler demo_manager () = (Inr [status_only ''7'' ''NOTFOUND'' None], ())"
  by code_simp

lemma argv_manager: "\<exists>rest. argv (manager_spec ho cf key) = Inr (''bsub'' # rest)"
  using manager_argv by blast

lemma demo_accepted: "submit (wd_runner demo_scheduler) (manager_spec demo_host cf key) ()
    = (Inr \<lparr>sr_outcome = ''accepted'', sr_job_id = Some ''8''\<rparr>, ())"
proof -
  have "classify_submit (Exited 0 ''Job <8> is submitted'' []) = \<lparr>sr_outcome = ''accepted'', sr_job_id = Some ''8''\<rparr>" by code_simp
  then show ?thesis using argv_manager[of demo_host cf key] by (auto simp: submit_def demo_scheduler_def)
qed

lemma demo_resumed: "\<exists>st'. resume demo_scheduler demo_host demo_env demo_requirement False DEFAULTS demo_lstate = (Inr (Some ''8''), st')
    \<and> ls_session st' = ls_session demo_lstate"
proof -
  have u: "unsettled demo_manager" "je_stage demo_manager = ''manager''" "je_key demo_manager = ''manager''"
    by (simp_all add: demo_manager_def new_entry_def unsettled_def ACTIVE_def)
  have ended: "check_jobs_ended demo_scheduler [demo_manager] st
      = (Inr (), st\<lparr>ls_ledger := update ''manager'' (\<lambda>e. e\<lparr>je_status := Terminal, je_host := None\<rparr>) (ls_ledger st)\<rparr>)"
    for st :: "unit lstate"
    using demo_gone u by (simp add: check_job_ended_def bindL_def live_job_def status_only_def)
  have r: "ls_ledger demo_lstate = create_ledger\<lparr>lg_jobs := [demo_manager]\<rparr>" "ls_launch demo_lstate = demo_config"
    "sn_run (ls_session demo_lstate) = Some (new_run demo_env demo_args)" "clean_status (ls_session demo_lstate) = None"
    "sn_state (ls_session demo_lstate) = (\<lambda>_. None)"
    by (simp_all add: demo_lstate_def clean_status_def empty_session_def)
  have p: "unfinished_stages demo_config (ls_session demo_lstate) = Inr STAGE_ORDER"
    by (simp add: unfinished_stages_def launched_stages_def demo_config_def STAGE_ORDER_def read_state_def r status_of_def FINAL_def)
  have h: "check_pinned demo_env (ls_session demo_lstate) STAGE_ORDER = Inr ()"
    by (simp add: check_pinned_def r refuse_if_def STAGE_ORDER_def new_run_def effective_def pinned_here_def demo_env_def Let_def)
  have l: "resume_level demo_host DEFAULTS demo_config = Inr ''INFO''"
    by (simp add: resume_level_def DEFAULTS_def or_str_def demo_host_def demo_config_def)
  define l1 where "l1 = update ''manager'' (\<lambda>e. e\<lparr>je_status := Terminal, je_host := None\<rparr>) (create_ledger\<lparr>lg_jobs := [demo_manager]\<rparr>)"
  define mid where "mid = demo_lstate\<lparr>ls_ledger := l1\<rparr>"
  define next_st where "next_st = mid\<lparr>ls_launch := refreshed demo_host ''INFO'' demo_config, ls_ledger := begin_epoch l1\<rparr>"
  have c: "check_jobs_ended demo_scheduler (lg_jobs (ls_ledger demo_lstate)) demo_lstate = (Inr (), mid)"
    using ended[of demo_lstate] by (simp only: r(1) mid_def l1_def) (simp add: r(1))
  have m: "ls_launch mid = demo_config" "ls_session mid = ls_session demo_lstate" "ls_ledger mid = l1"
    by (simp_all add: mid_def r)
  have up: "upgrade_cost demo_env demo_requirement DEFAULTS mid = (Inr (), mid)" by (simp add: upgrade_cost_def DEFAULTS_def)
  have none: "job (begin_epoch l1) (resume_key l1) = None"
    using u(3) by (simp add: l1_def job_def begin_epoch_def update_def resume_key_def)
  have n: "ls_ledger next_st = begin_epoch l1" "ls_launch next_st = refreshed demo_host ''INFO'' demo_config" "ls_world next_st = ()"
    "ls_session next_st = ls_session demo_lstate"
    by (simp_all add: next_st_def m)
  have "resume demo_scheduler demo_host demo_env demo_requirement False DEFAULTS demo_lstate
      = submit_manager demo_scheduler demo_host (resume_key l1) next_st"
    by (simp add: resume_def resume_locked_def bindL_def refuse_if_def c m p h l up escape_def r(4) next_st_def Let_def
        del: check_jobs_ended.simps)
  moreover obtain rest where "argv (manager_spec demo_host (refreshed demo_host ''INFO'' demo_config) (resume_key l1)) = Inr (''bsub'' # rest)"
    using argv_manager by blast
  ultimately show ?thesis
    by (simp add: submit_manager_def bindL_def escape_def n reserve_def none demo_accepted Let_def)
qed

lemma demo_lstate_inv: "ledger_inv (ls_ledger demo_lstate)"
proof -
  have l: "ls_ledger demo_lstate = create_ledger\<lparr>lg_jobs := [demo_manager]\<rparr>" by (simp add: demo_lstate_def)
  have e: "je_stage demo_manager = ''manager''" "je_epoch demo_manager = 0" "entry_ok demo_manager"
    by (simp_all add: demo_manager_def new_entry_def entry_ok_def)
  have jobs: "jobs_of (create_ledger\<lparr>lg_jobs := [demo_manager]\<rparr>) st = (if st = ''manager'' then [demo_manager] else [])" for st
    by (simp add: jobs_of_def e)
  have cur: "current (create_ledger\<lparr>lg_jobs := [demo_manager]\<rparr>) st = (if st = ''manager'' then [demo_manager] else [])" for st
    unfolding current_def jobs by (simp add: e epoch_def create_ledger_def)
  show ?thesis unfolding l ledger_inv_def
    by (simp add: ledger_ok_def jobs e one_job_def cur budget_used_def cost_attempts_def)
qed


theorem resumed_stages_pinned_witness:
  "\<exists>r. sn_run (ls_session demo_lstate) = Some r \<and> check_harness demo_env (effective r (Some Quality)) = Inr ()"
proof -
  obtain st' where st': "resume demo_scheduler demo_host demo_env demo_requirement False DEFAULTS demo_lstate = (Inr (Some ''8''), st')"
    "ls_session st' = ls_session demo_lstate" using demo_resumed by blast
  have r: "sn_run (ls_session demo_lstate) = Some (new_run demo_env demo_args)" by (simp add: demo_lstate_def empty_session_def)
  have v: "Quality \<in> set (launched_stages (ls_launch demo_lstate))" "read_state (ls_session demo_lstate) Quality = Inr None"
    "status_of None \<notin> set FINAL"
    by (simp_all add: demo_lstate_def demo_config_def launched_stages_def STAGE_ORDER_def read_state_def empty_session_def
        status_of_def FINAL_def)
  have h: "hs_coordinator (rn_hashes (effective (new_run demo_env demo_args) (Some Quality))) \<noteq> None"
    "rn_manifest (effective (new_run demo_env demo_args) (Some Quality)) = en_manifest demo_env"
    "rn_policy (effective (new_run demo_env demo_args) (Some Quality)) = en_policy_hash demo_env"
    by (simp_all add: effective_def new_run_def demo_env_def)
  from resumed_stages_pinned[OF st'(1) _ v h] st'(2) r show ?thesis by simp
qed

end
