(* ===== verification/Stages.thy ===== *)
theory Stages
  imports Checks Upstream Costs Session
begin

text \<open>
  The bodies of the stages, \<open>src/src/qtb/coordinator/stages.py\<close>: each composes the operations of the other
  components and returns the fields of its final state. What a body needs of the session is the
  environment of the components it calls; the baseline halves that the sessions share through the
  store are those of \<open>Results\<close>. Progress messages and steps are left out.
\<close>

section \<open>Fields of a final state\<close>

type_synonym reused = "(string \<times> string list) list"

record stage_fields =
  sf_body :: body_fields
  sf_reused :: reused

definition no_fields :: body_fields where
  "no_fields = \<lparr>bf_gate = None, bf_gate_reason = None, bf_cost_due = None\<rparr>"

section \<open>Compile\<close>

text \<open>\<open>Comparison.roundtrip_cases\<close>: the panel, the regression suite and the Clifford variants.\<close>

definition roundtrip_cases :: "tcase list \<Rightarrow> suite_case list \<Rightarrow> tcase list" where
  "roundtrip_cases cases suite =
     cases @ map su_case suite
     @ concat (map (\<lambda>c. case clifford_variant c of None \<Rightarrow> [] | Some a \<Rightarrow> [c\<lparr>circuit := a\<rparr>]) cases)"

text \<open>A build gives the environment its jobs run in and the store key of a baseline that was reused.\<close>

definition compile_body ::
    "(('a, 'b) cenv \<times> string option) res \<Rightarrow> tcase list \<Rightarrow> qstate \<Rightarrow> stage_fields res \<times> qstate" where
  "compile_body build cases st =
     bindS (build, st) (\<lambda>(env, store_key) st.
     bindS (ce_suite env, st) (\<lambda>suite st.
     bindS (roundtrip (ce_q env) [''baseline'', ''evolved''] (roundtrip_cases cases suite) st) (\<lambda>_ st.
     (Inr \<lparr>sf_body = no_fields,
        sf_reused = (case store_key of None \<Rightarrow> [] | Some k \<Rightarrow> [(''baseline_build'', [k])])\<rparr>, st))))"

section \<open>Quality\<close>

definition required_quality :: "string \<Rightarrow> string list \<Rightarrow> string list" where
  "required_quality pre required =
     filter (\<lambda>i. i \<in> {''harness/roundtrip'', ''audit/determinism'', pre @ ''1/C0'', pre @ ''1/C6'', pre @ ''1/C1-lite''}
       \<or> starts_with i (pre @ ''2/'') \<or> starts_with i (pre @ ''3/'')
       \<or> starts_with i (pre @ ''4/'') \<or> starts_with i (pre @ ''6/'')) required"

definition improvements_of :: "string \<Rightarrow> string list" where
  "improvements_of pre = (pre @ ''2/improvement'') # (if pre = ''CA'' then [''CA3/breadth''] else [])"

text \<open>
  The cases are those \<open>quality_cases\<close> selects; \<open>before\<close> is the evidence of the compile stage.
\<close>

definition quality_body ::
    "('a, 'b) qenv \<Rightarrow> builds \<Rightarrow> tcase list \<Rightarrow> policy \<Rightarrow> crec list res \<Rightarrow> qstate \<Rightarrow> stage_fields res \<times> qstate" where
  "quality_body env builds manifest policy before st =
     (let cases = quality_cases manifest; pre = profile_prefix (qe_profile env) in
      bindS (quality env cases [''baseline'', ''evolved''] st) (\<lambda>rows st.
      bindS (audit env cases rows [''baseline'', ''evolved''] st) (\<lambda>_ st.
      bindS (case aggregate_checks (qe_profile env) cases (map observation_of rows) (qs_records st) of
               Inl e \<Rightarrow> (Inl e, st) | Inr recs \<Rightarrow> (Inr (), st\<lparr>qs_records := recs\<rparr>)) (\<lambda>_ st.
      bindS (bindE before (\<lambda>compiled.
               evaluate_quality (qe_profile env) manifest policy (map observation_of rows) (compiled @ qs_records st)), st)
        (\<lambda>(records, required, summaries) st.
      let (state, reason) = gate builds records (required_quality pre required) (improvements_of pre);
          reused = sorted_set (concat (map (\<lambda>r. case qr_cached_from r of None \<Rightarrow> [] | Some k \<Rightarrow> if k = [] then [] else [k]) rows)) in
      (Inr \<lparr>sf_body = \<lparr>bf_gate = Some state, bf_gate_reason = Some reason, bf_cost_due = None\<rparr>,
         sf_reused = (if reused = [] then [] else [(''baseline_quality'', reused)])\<rparr>, st))))))"

section \<open>Correctness\<close>

text \<open>
  The key of the baseline half: every input its answer depends on. Of the worker's environment the
  code keys the constant \<open>SERIAL\<close>.
\<close>

record correctness_key =
  bk_build :: string
  bk_implementation :: "string option"
  bk_harness :: "string option"
  bk_suite :: string
  bk_manifest :: string
  bk_policy :: string
  bk_verifier :: string
  bk_machine_cpu :: "string option"
  bk_clifford :: "nat \<times> bool"
  bk_tolerances :: string

type_synonym stored_half = "(string \<times> crow) list \<times> crec list"

record ('a, 'b) benv =
  be_c :: "('a, 'b) cenv"
  be_cases :: "tcase list"
  be_builds :: builds
  be_key_fields :: "correctness_key res"
  be_digest :: "correctness_key \<Rightarrow> string"
  be_others :: "stored_half results \<Rightarrow> stored_half results"

record bstate =
  bs_c :: cstate
  bs_results :: "stored_half results"

definition baseline_correctness_key :: "('a, 'b) benv \<Rightarrow> string option res" where
  "baseline_correctness_key env =
     (let pre = prefixC (be_c env) in
      if \<not> qe_has_store (ce_q (be_c env)) \<or> same_build (be_builds env) then Inr None
      else case b_baseline (be_builds env) of
        None \<Rightarrow> Inl KeyError
      | Some build \<Rightarrow> bindE (be_key_fields env) (\<lambda>k.
          Inr (Some (be_digest env (k\<lparr>bk_build := build, bk_clifford := (CLIFFORD_SEEDS pre, CLIFFORD_FULL_MODE pre)\<rparr>)))))"

definition is_baseline_correctness :: "string \<Rightarrow> string \<Rightarrow> bool" where
  "is_baseline_correctness pre i \<longleftrightarrow>
     starts_with i ''behavior/baseline/'' \<or> starts_with i ''api/baseline/'' \<or> starts_with i ''C7/baseline/''
     \<or> i \<in> {pre @ ''1/C1-C5/baseline'', ''baseline/preflight''}"

definition liftC :: "(cstate \<Rightarrow> 'r res \<times> cstate) \<Rightarrow> bstate \<Rightarrow> 'r res \<times> bstate" where
  "liftC f st = (let (out, c) = f (bs_c st) in (out, st\<lparr>bs_c := c\<rparr>))"

text \<open>\<open>store_baseline_correctness\<close>: the baseline's rows of both logs and its records.\<close>

definition baseline_rows :: "crow list \<Rightarrow> crow list" where
  "baseline_rows ws = filter (\<lambda>w. ck_revision (cw_check w) = Some ''baseline'') ws"

definition stored_rows :: "cstate \<Rightarrow> (string \<times> crow) list" where
  "stored_rows c = map (Pair ''correctness.jsonl'') (baseline_rows (cs_correctness c))
     @ map (Pair ''clifford.jsonl'') (baseline_rows (cs_clifford c))"

definition store_baseline_correctness :: "('a, 'b) benv \<Rightarrow> string \<Rightarrow> bstate \<Rightarrow> unit res \<times> bstate" where
  "store_baseline_correctness env key st =
     (let files = (stored_rows (bs_c st),
            filter (\<lambda>r. is_baseline_correctness (prefixC (be_c env)) (cr_id r)) (cs_records (bs_c st)));
          (out, results) = publish_results ''correctness'' key (Inr files) (qe_directory (ce_q (be_c env))) (be_others env) (bs_results st) in
      (out, st\<lparr>bs_results := results\<rparr>))"

text \<open>\<open>dict(row, cached_from=key)\<close> of a record: the detail is set in its place or added.\<close>

definition put_detail :: "string \<Rightarrow> dval \<Rightarrow> (string \<times> dval) list \<Rightarrow> (string \<times> dval) list" where
  "put_detail k v ds =
     (if k \<in> fst ` set ds then map (\<lambda>d. if fst d = k then (k, v) else d) ds else ds @ [(k, v)])"

definition cached_record :: "string \<Rightarrow> crec \<Rightarrow> crec" where
  "cached_record key r = r\<lparr>cr_details := put_detail ''cached_from'' (DStr key) (cr_details r)\<rparr>"

definition load_row :: "string \<Rightarrow> string \<times> crow \<Rightarrow> cstate \<Rightarrow> cstate" where
  "load_row key line c =
     (let w = (snd line)\<lparr>cw_cached_from := Some key\<rparr> in
      if fst line = ''correctness.jsonl'' then c\<lparr>cs_correctness := cs_correctness c @ [w]\<rparr>
      else if fst line = ''clifford.jsonl'' then c\<lparr>cs_clifford := cs_clifford c @ [w]\<rparr>
      else c)"

definition load_half :: "string \<Rightarrow> stored_half \<Rightarrow> cstate \<Rightarrow> cstate" where
  "load_half key half c =
     fold (\<lambda>r. recordC (cached_record key r)) (snd half) (fold (load_row key) (fst half) c)"

definition preflight_record :: "crec list \<Rightarrow> crec" where
  "preflight_record recs = record_of ''baseline/preflight'' ''correctness''
     (if list_ex (\<lambda>r. cr_subject r = ''reference'' \<and> cr_result r = ''failed'') recs then ''failed'' else ''passed'')
     ''reference'' []"

text \<open>The baseline half when the store has none.\<close>

definition run_baseline :: "('a, 'b) benv \<Rightarrow> string option \<Rightarrow> bstate \<Rightarrow> unit res \<times> bstate" where
  "run_baseline env key st =
     bindS (liftC (behavior_checks (be_c env) [''baseline'']) st) (\<lambda>decisive st.
     bindS (liftC (clifford_checks (be_c env) (be_cases env) [''baseline'']) st) (\<lambda>decisive' st.
     let st = st\<lparr>bs_c := recordC (preflight_record (cs_records (bs_c st))) (bs_c st)\<rparr> in
     case key of
       Some k \<Rightarrow> if decisive \<and> decisive' then store_baseline_correctness env k st else (Inr (), st)
     | None \<Rightarrow> (Inr (), st)))"

definition correctness_half :: "('a, 'b) benv \<Rightarrow> string option \<Rightarrow> bstate \<Rightarrow> reused res \<times> bstate" where
  "correctness_half env key st =
     bindS (case key of None \<Rightarrow> Inr None | Some k \<Rightarrow> read_results ''correctness'' k (bs_results st), st) (\<lambda>entry st.
       case entry of
         Some e \<Rightarrow> (Inr [(''baseline_correctness'', [the key])], st\<lparr>bs_c := load_half (the key) (re_files e) (bs_c st)\<rparr>)
       | None \<Rightarrow> bindS (run_baseline env key st) (\<lambda>_ st. (Inr [], st)))"

definition preflight_of :: "crec list \<Rightarrow> crec res" where
  "preflight_of recs = (case find (\<lambda>r. cr_id r = ''baseline/preflight'') recs of
     None \<Rightarrow> Inl (OtherException ''StopIteration'') | Some r \<Rightarrow> Inr r)"

definition check_evolved :: "('a, 'b) benv \<Rightarrow> bstate \<Rightarrow> unit res \<times> bstate" where
  "check_evolved env st =
     bindS (preflight_of (cs_records (bs_c st)), st) (\<lambda>preflight st.
     if cr_result preflight = ''failed'' then (Inr (), st)
     else
       bindS (liftC (behavior_checks (be_c env) [''evolved'']) st) (\<lambda>_ st.
       bindS (liftC (clifford_checks (be_c env) (be_cases env) [''evolved'']) st) (\<lambda>_ st. (Inr (), st))))"

definition correctness_body :: "('a, 'b) benv \<Rightarrow> bstate \<Rightarrow> stage_fields res \<times> bstate" where
  "correctness_body env st =
     (let c = (bs_c st)\<lparr>cs_correctness := [], cs_clifford := [], cs_records := reset_evidence (cs_records (bs_c st))\<rparr> in
      bindS (baseline_correctness_key env, st\<lparr>bs_c := c\<rparr>) (\<lambda>key st.
      bindS (correctness_half env key st) (\<lambda>reused st.
      bindS (check_evolved env st) (\<lambda>_ st.
      (Inr \<lparr>sf_body = no_fields, sf_reused = reused\<rparr>, st)))))"

section \<open>Unit tests and cost\<close>

definition has_cached_from :: "crec \<Rightarrow> bool" where
  "has_cached_from r \<longleftrightarrow> (case map_of (cr_details r) ''cached_from'' of Some (DStr k) \<Rightarrow> k \<noteq> [] | _ \<Rightarrow> False)"

definition unit_tests_body :: "uenv \<Rightarrow> ustate \<Rightarrow> stage_fields res \<times> ustate" where
  "unit_tests_body env st =
     bindS (upstream_checks env (st\<lparr>us_records := reset_evidence (us_records st)\<rparr>)) (\<lambda>_ st.
     bindS (baseline_unit_tests_key env, st) (\<lambda>key st.
     (Inr \<lparr>sf_body = no_fields,
        sf_reused = (if list_ex has_cached_from (us_records st)
          then [(''baseline_unit_tests'', case key of None \<Rightarrow> [] | Some k \<Rightarrow> [k])] else [])\<rparr>, st)))"

text \<open>The panels that cannot be measured leave one unresolved record; every other exception ends the stage.\<close>

definition cost_body ::
    "('w, 'r, 'e) lab \<Rightarrow> session \<Rightarrow> Session.run \<Rightarrow> policy \<Rightarrow> cost_run \<Rightarrow> tcase list \<Rightarrow> cost_policy
       \<Rightarrow> 'e CostGuard.requirement option \<Rightarrow> ('w, 'e) cost_state \<Rightarrow> stage_fields res \<times> ('w, 'e) cost_state" where
  "cost_body lb s r grading run cases policy requirement st =
     bindS (cost_due s r cases grading, st\<lparr>cs_evidence := reset_evidence (cs_evidence st)\<rparr>) (\<lambda>due st.
     bindS (case measure_costs lb run cases policy requirement st of
         (Inl e, st) \<Rightarrow>
           if is_incomplete e
           then (Inr (), st\<lparr>cs_evidence := evidence (cs_evidence st)
             (record_of (profile_prefix (cost_run.rn_profile run) @ ''5/timing'') ''cost'' ''unresolved'' ''evolved''
               [(''detail'', DStr (exn_message e))])\<rparr>)
           else (Inl e, st)
       | (Inr u, st) \<Rightarrow> (Inr u, st)) (\<lambda>_ st.
     (Inr \<lparr>sf_body = no_fields\<lparr>bf_cost_due := due\<rparr>, sf_reused = []\<rparr>, st)))"

section \<open>Steps of the suites\<close>

text \<open>
  The records a suite of some revisions writes: the failures and the aggregate of a revision, and the aggregates
  over both. What every step of the suites keeps, the suites keep.
\<close>

definition suite_record :: "string \<Rightarrow> string list \<Rightarrow> crec \<Rightarrow> bool" where
  "suite_record pre revisions r \<longleftrightarrow>
     (\<exists>revision\<in>set revisions. cr_subject r = subject_of revision
        \<and> (starts_with (cr_id r) (''behavior/'' @ revision @ ''/'') \<or> starts_with (cr_id r) (''api/'' @ revision @ ''/'')
          \<or> starts_with (cr_id r) (''C7/'' @ revision @ ''/'') \<or> cr_id r = pre @ ''1/C1-C5/'' @ revision))
     \<or> cr_subject r = ''evolved'' \<and> cr_id r \<in> {pre @ ''1/C1-C5'', pre @ ''1/C7''}"

locale suite_steps =
  fixes kept :: "cstate \<Rightarrow> bool" and pre :: string and revisions :: "string list"
  assumes kept_cache: "kept st \<Longrightarrow> kept (st\<lparr>cs_cache := cache\<rparr>)"
    and kept_correctness: "kept st \<Longrightarrow> revision \<in> set revisions \<Longrightarrow> ck_revision (cw_check w) = Some revision
      \<Longrightarrow> kept (st\<lparr>cs_correctness := cs_correctness st @ [w]\<rparr>)"
    and kept_clifford: "kept st \<Longrightarrow> revision \<in> set revisions \<Longrightarrow> ck_revision (cw_check w) = Some revision
      \<Longrightarrow> kept (st\<lparr>cs_clifford := cs_clifford st @ [w]\<rparr>)"
    and kept_record: "kept st \<Longrightarrow> suite_record pre revisions r \<Longrightarrow> kept (recordC r st)"
begin

lemmas kept_intros = bindS_snd[where P = kept] mapS_snd[where P = kept]

lemma verifyC_kept: "kept st \<Longrightarrow> kept (snd (verifyC env requests st))"
  by (simp add: verifyC_def kept_cache split: prod.split)

lemma behavior_check_kept:
  assumes "kept st" and "revision \<in> set revisions"
  shows "kept (snd (behavior_check revision verdicts x st))"
proof -
  obtain su r p where x: "x = (su, r, p)" by (cases x)
  have s: "suite_record pre revisions (record_of (behavior_id revision c seed) k v (subject_of revision) d)" for c seed k v d
    using assms(2) by (auto simp: suite_record_def behavior_id_def starts_with_iff)
  have "kept (st\<lparr>cs_correctness := cs_correctness st @ [w]\<rparr>)" if "ck_revision (cw_check w) = Some revision" for w
    by (rule kept_correctness[OF assms that])
  with s show ?thesis unfolding x by (auto simp: behavior_check_def Let_def bindS_def assms kept_record split: sum.split)
qed

lemma api_check_kept:
  assumes "kept st" and "revision \<in> set revisions"
  shows "kept (snd (api_check revision x st))"
proof -
  have "suite_record pre revisions (record_of (''api/'' @ revision @ ''/'' @ i) k v (subject_of revision) d)" for i k v d
    using assms(2) by (auto simp: suite_record_def starts_with_iff)
  then show ?thesis by (cases x) (auto simp: api_check_def bindS_def assms kept_record split: sum.split list.split)
qed

lemma behavior_revision_kept:
  assumes "kept st" and "revision \<in> set revisions" and "prefixC env = pre"
  shows "kept (snd (behavior_revision env cases revision st))"
proof -
  have a: "suite_record pre revisions (behavior_record env revision statuses)" for statuses
    using assms(2,3) by (auto simp: suite_record_def behavior_record_def)
  show ?thesis unfolding behavior_revision_def
    by (intro kept_intros; (simp add: assms split: prod.split)?; (intro kept_intros allI impI)?;
        (simp add: assms a kept_record verifyC_kept behavior_check_kept api_check_kept)?)
qed

lemma behavior_checks_kept:
  assumes "kept st" and "prefixC env = pre"
  shows "kept (snd (behavior_checks env revisions st))"
proof -
  have "suite_record pre revisions (record_of (pre @ ''1/C1-C5'') k v ''evolved'' d)" for k v d
    by (simp add: suite_record_def)
  then show ?thesis unfolding behavior_checks_def
    by (intro kept_intros; (simp add: assms Let_def kept_record behavior_revision_kept)?)
qed

lemma clifford_check_kept:
  assumes "kept st" and "cl_revision (fst x) \<in> set revisions"
  shows "kept (snd (clifford_check verdicts x st))"
proof -
  obtain l r p where x: "x = (l, r, p)" by (cases x)
  have s: "suite_record pre revisions (record_of (clifford_id l seed) k v (subject_of (cl_revision l)) d)" for seed k v d
    using assms(2) x by (auto simp: suite_record_def clifford_id_def starts_with_iff)
  have "kept (st\<lparr>cs_clifford := cs_clifford st @ [clifford_row l r k]\<rparr>)" for k
    by (rule kept_clifford[OF assms]) (simp add: clifford_row_def x)
  with s show ?thesis unfolding x by (auto simp: clifford_check_def Let_def bindS_def assms kept_record split: sum.split)
qed

lemma clifford_checks_kept:
  assumes "kept st" and "prefixC env = pre"
  shows "kept (snd (clifford_checks env cases revisions st))"
proof -
  let ?labels = "clifford_labels pre revisions cases"
  have a: "suite_record pre revisions (record_of (pre @ ''1/C7'') k v ''evolved'' d)" for k v d
    by (simp add: suite_record_def)
  have l: "cl_revision (fst x) \<in> set revisions"
    if "x \<in> set (fst (plan_clifford (concat (map (\<lambda>(l, rows). map (Pair l) rows) (zip ?labels outputs))) requests))"
    for x outputs requests
  proof -
    let ?lrs = "concat (map (\<lambda>(l, rows). map (Pair l) rows) (zip ?labels outputs))"
    obtain l r p where x: "x = (l, r, p)" by (cases x)
    have "(\<lambda>(l, r, p). (l, r)) x \<in> set (map (\<lambda>(l, r, p). (l, r)) (fst (plan_clifford ?lrs requests)))"
      using that by (intro image_eqI[THEN set_map[THEN equalityD2, THEN subsetD]]) auto
    then have "(l, r) \<in> set ?lrs" unfolding plan_clifford_map x by simp
    then have "l \<in> set ?labels" by (auto dest: set_zip_leftD)
    then show ?thesis unfolding x by (auto simp: clifford_labels_def split: option.splits)
  qed
  show ?thesis unfolding clifford_checks_def Let_def assms(2)
  proof (rule kept_intros(1), simp add: assms(1))
    fix outputs s
    assume k: "kept s"
    obtain plans requests where p: "plan_clifford (concat (map (\<lambda>(l, rows). map (Pair l) rows) (zip ?labels outputs))) [] = (plans, requests)"
      by force
    have "kept (snd (clifford_check verdicts x s))" if "x \<in> set plans" "kept s" for verdicts x s
      using clifford_check_kept[OF that(2) l] that(1) p by (metis fst_conv)
    then show "kept (snd (case plan_clifford (concat (map (\<lambda>(l, rows). map (Pair l) rows) (zip ?labels outputs))) [] of
        (planned, requests) \<Rightarrow> bindS (verifyC env requests s) (\<lambda>verdicts st.
          bindS (mapS (clifford_check verdicts) planned st) (\<lambda>statuses st.
          (Inr (list_all (\<lambda>s. s \<in> set DECISIVE) statuses),
           recordC (record_of (pre @ ''1/C7'') ''correctness'' (if clifford_passed (cs_clifford st) then ''passed'' else ''unresolved'')
             ''evolved'' []) st)))))"
      unfolding p prod.case by (intro kept_intros; (simp add: k a kept_record verifyC_kept)?)
  qed
qed

end

section \<open>What the suites keep\<close>

definition unique_ids :: "cstate \<Rightarrow> bool" where
  "unique_ids c \<longleftrightarrow> distinct (map cr_id (cs_records c))"

definition baseline_only :: "cstate \<Rightarrow> bool" where
  "baseline_only c \<longleftrightarrow>
     (\<forall>w\<in>set (cs_correctness c) \<union> set (cs_clifford c). ck_revision (cw_check w) = Some ''baseline'')"

definition clean_reference :: "crec list \<Rightarrow> bool" where
  "clean_reference recs \<longleftrightarrow> (\<forall>r\<in>set recs. cr_subject r = ''reference'' \<longrightarrow> cr_result r \<noteq> ''failed'')"

interpretation keeps_unique: suite_steps unique_ids pre revisions for pre revisions
  by unfold_locales (simp_all add: unique_ids_def recordC_def evidence_log.put_distinct)

interpretation keeps_baseline: suite_steps baseline_only pre "[''baseline'']" for pre
  by unfold_locales (auto simp: baseline_only_def recordC_def)

interpretation keeps_clean: suite_steps "\<lambda>c. clean_reference (cs_records c)" pre "[''evolved'']" for pre
  by unfold_locales (auto simp: clean_reference_def recordC_def evidence_def suite_record_def subject_of_def)

section \<open>Sound stored halves\<close>

text \<open>
  A half is sound when its rows are the baseline's, each mismatching row has its failed record, and its preflight
  record fails whenever one of its records of the reference does.
\<close>

definition preflight_sound :: "crec list \<Rightarrow> bool" where
  "preflight_sound recs \<longleftrightarrow>
     (\<exists>r\<in>set recs. cr_id r = ''baseline/preflight'' \<and> (cr_result r \<noteq> ''failed'' \<longrightarrow> clean_reference recs))"

definition line_record :: "string \<times> crow \<Rightarrow> string" where
  "line_record line = (if fst line = ''correctness.jsonl'' then row_record (snd line) else clifford_record (snd line))"

definition sound_half :: "stored_half \<Rightarrow> bool" where
  "sound_half half \<longleftrightarrow> distinct (map cr_id (snd half)) \<and> preflight_sound (snd half)
     \<and> (\<forall>line\<in>set (fst half). ck_revision (cw_check (snd line)) = Some ''baseline''
         \<and> (ck_status (cw_check (snd line)) = ''mismatch'' \<longrightarrow> failed_record (snd half) (line_record line)))"

definition sound_results :: "stored_half results \<Rightarrow> bool" where
  "sound_results st \<longleftrightarrow> (\<forall>key e. st (''correctness'', key) = Some e \<longrightarrow> sound_half (re_files e))"

definition sound_others :: "(stored_half results \<Rightarrow> stored_half results) \<Rightarrow> bool" where
  "sound_others others \<longleftrightarrow> (\<forall>st. sound_results st \<longrightarrow> sound_results (others st))"

lemma publish_sound:
  assumes "sound_results st" and "sound_others others" and "sound_half files"
  shows "sound_results (snd (publish_results ''correctness'' key (Inr files) session others st))"
  using assms by (auto simp: publish_results_def results_dir_def RESULT_KINDS_def bindS_def Let_def
      sound_results_def sound_others_def)

lemma stored_half_sound:
  assumes "unique_ids c" and "mismatches_recorded c" and "preflight_sound (cs_records c)"
  shows "sound_half (stored_rows c, filter (\<lambda>r. is_baseline_correctness pre (cr_id r)) (cs_records c))"
proof -
  let ?recs = "filter (\<lambda>r. is_baseline_correctness pre (cr_id r)) (cs_records c)"
  have f: "failed_record ?recs i" if "failed_record (cs_records c) i" "is_baseline_correctness pre i" for i
    using that by (auto simp: failed_record_def)
  have "is_baseline_correctness pre (row_record w)" "is_baseline_correctness pre (clifford_record w)"
    if "ck_revision (cw_check w) = Some ''baseline''" for w
    using that by (auto simp: is_baseline_correctness_def row_record_def clifford_record_def starts_with_iff)
  with f have "\<forall>line\<in>set (stored_rows c). ck_revision (cw_check (snd line)) = Some ''baseline''
      \<and> (ck_status (cw_check (snd line)) = ''mismatch'' \<longrightarrow> failed_record ?recs (line_record line))"
    using assms(2) by (auto simp: stored_rows_def baseline_rows_def line_record_def mismatches_recorded_def)
  moreover have "preflight_sound ?recs"
    using assms(3) by (auto simp: preflight_sound_def clean_reference_def is_baseline_correctness_def)
  moreover have "distinct (map cr_id ?recs)" using assms(1) by (simp add: unique_ids_def distinct_map_filter)
  ultimately show ?thesis by (simp add: sound_half_def)
qed

lemma preflight_record_sound: "preflight_sound (evidence recs (preflight_record recs))"
  unfolding preflight_sound_def
  by (rule bexI[of _ "preflight_record recs"])
    (auto simp: preflight_record_def evidence_def clean_reference_def list_ex_iff)

section \<open>Reading a stored half\<close>

lemma evidence_rows:
  "distinct (map cr_id (rs @ rows)) \<Longrightarrow> foldl evidence rs rows = rs @ rows"
proof (induction rows arbitrary: rs)
  case (Cons x rows)
  then have "cr_id x \<notin> cr_id ` set rs" by auto
  then have "evidence rs x = rs @ [x]" unfolding evidence_def by (metis (mono_tags, lifting) filter_True image_eqI)
  with Cons.IH[of "rs @ [x]"] Cons.prems show ?case by simp
qed simp

lemma load_records:
  "fold (\<lambda>r. recordC (f r)) recs c = c\<lparr>cs_records := foldl evidence (cs_records c) (map f recs)\<rparr>"
  by (induction recs arbitrary: c) (simp_all add: recordC_def)

lemma load_rows:
  "cs_correctness (fold (load_row key) lines c) = cs_correctness c
      @ map (\<lambda>l. (snd l)\<lparr>cw_cached_from := Some key\<rparr>) (filter (\<lambda>l. fst l = ''correctness.jsonl'') lines)"
  "cs_clifford (fold (load_row key) lines c) = cs_clifford c
      @ map (\<lambda>l. (snd l)\<lparr>cw_cached_from := Some key\<rparr>) (filter (\<lambda>l. fst l = ''clifford.jsonl'') lines)"
  "cs_records (fold (load_row key) lines c) = cs_records c"
  by (induction lines arbitrary: c) (simp_all add: load_row_def Let_def)

lemma cached_record_sel [simp]:
  "cr_id (cached_record key r) = cr_id r" "cr_kind (cached_record key r) = cr_kind r"
  "cr_result (cached_record key r) = cr_result r" "cr_subject (cached_record key r) = cr_subject r"
  by (simp_all add: cached_record_def)

lemma load_half_records:
  assumes "sound_half half" and "cs_records c = []"
  shows "cs_records (load_half key half c) = map (cached_record key) (snd half)"
proof -
  have "distinct (map cr_id ([] @ map (cached_record key) (snd half)))"
    using assms(1) by (simp add: sound_half_def o_def)
  from evidence_rows[OF this] show ?thesis by (simp add: load_half_def load_records load_rows assms(2))
qed

lemma load_half_sound:
  fixes key :: string
  assumes "sound_half half" and "cs_correctness c = []" and "cs_clifford c = []" and "cs_records c = []"
  defines "c' \<equiv> load_half key half c"
  shows "unique_ids c' \<and> baseline_only c' \<and> mismatches_recorded c' \<and> preflight_sound (cs_records c')"
proof -
  note recs = load_half_records[OF assms(1,4), of key, folded c'_def]
  have logs: "cs_correctness c' = map (\<lambda>l. (snd l)\<lparr>cw_cached_from := Some key\<rparr>) (filter (\<lambda>l. fst l = ''correctness.jsonl'') (fst half))"
    "cs_clifford c' = map (\<lambda>l. (snd l)\<lparr>cw_cached_from := Some key\<rparr>) (filter (\<lambda>l. fst l = ''clifford.jsonl'') (fst half))"
    by (simp_all add: c'_def load_half_def load_records load_rows assms(2,3))
  have f: "failed_record (cs_records c') i = failed_record (snd half) i" for i
    unfolding recs by (auto simp: failed_record_def)
  have r: "row_record (w\<lparr>cw_cached_from := k\<rparr>) = row_record w" "clifford_record (w\<lparr>cw_cached_from := k\<rparr>) = clifford_record w" for w k
    by (simp_all add: row_record_def clifford_record_def)
  have lines: "\<And>l. l \<in> set (fst half) \<Longrightarrow> ck_revision (cw_check (snd l)) = Some ''baseline''"
    "\<And>l. l \<in> set (fst half) \<Longrightarrow> ck_status (cw_check (snd l)) = ''mismatch'' \<Longrightarrow> failed_record (snd half) (line_record l)"
    using assms(1) by (auto simp: sound_half_def)
  have "mismatches_recorded c'" unfolding mismatches_recorded_def logs f
    using lines(2) by (force simp: r line_record_def)
  moreover have "baseline_only c'" unfolding baseline_only_def logs using lines(1) by auto
  moreover have "unique_ids c'" using assms(1) by (simp add: unique_ids_def recs sound_half_def o_def)
  moreover have "preflight_sound (cs_records c')"
    using assms(1) unfolding recs by (auto simp: sound_half_def preflight_sound_def clean_reference_def)
  ultimately show ?thesis by simp
qed

section \<open>The correctness stage\<close>

text \<open>What holds of the checks before the candidate is looked at.\<close>

definition half_done :: "bstate \<Rightarrow> bool" where
  "half_done st \<longleftrightarrow> unique_ids (bs_c st) \<and> baseline_only (bs_c st) \<and> mismatches_recorded (bs_c st)
     \<and> sound_results (bs_results st)"

lemma liftC_eq: "liftC f st = (fst (f (bs_c st)), st\<lparr>bs_c := snd (f (bs_c st))\<rparr>)"
  by (simp add: liftC_def split: prod.split)

lemma baseline_suites_done:
  assumes "half_done st"
  shows "half_done (snd (liftC (behavior_checks env [''baseline'']) st))"
    "half_done (snd (liftC (clifford_checks env cases [''baseline'']) st))"
  using assms suites_record_mismatches[of "bs_c st" env "[''baseline'']" cases]
    keeps_unique.behavior_checks_kept[of "bs_c st" env _ "[''baseline'']", OF _ refl]
    keeps_baseline.behavior_checks_kept[of "bs_c st" env, OF _ refl]
    keeps_unique.clifford_checks_kept[of "bs_c st" env _ cases "[''baseline'']", OF _ refl]
    keeps_baseline.clifford_checks_kept[of "bs_c st" env _ cases, OF _ refl]
  by (simp_all add: half_done_def liftC_eq)

lemma preflight_done:
  assumes "half_done st"
  defines "st' \<equiv> st\<lparr>bs_c := recordC (preflight_record (cs_records (bs_c st))) (bs_c st)\<rparr>"
  shows "half_done st' \<and> preflight_sound (cs_records (bs_c st'))"
proof -
  have "cr_id (preflight_record recs) \<noteq> row_record w" "cr_id (preflight_record recs) \<noteq> clifford_record w" for recs w
    by (simp_all add: preflight_record_def row_record_def clifford_record_def)
  then have "mismatches_recorded (bs_c st')"
    using assms(1) by (simp add: st'_def half_done_def mismatches_recorded_def recordC_def failed_record_kept)
  with assms(1) show ?thesis
    by (simp add: st'_def half_done_def unique_ids_def baseline_only_def recordC_def evidence_log.put_distinct
        preflight_record_sound)
qed

lemma store_half_done:
  assumes "half_done st" and "preflight_sound (cs_records (bs_c st))" and "sound_others (be_others env)"
  shows "half_done (snd (store_baseline_correctness env key st))
    \<and> bs_c (snd (store_baseline_correctness env key st)) = bs_c st"
proof -
  let ?files = "(stored_rows (bs_c st), filter (\<lambda>r. is_baseline_correctness (prefixC (be_c env)) (cr_id r)) (cs_records (bs_c st)))"
  have "sound_half ?files" using assms(1,2) by (simp add: stored_half_sound half_done_def)
  then have "sound_results (snd (publish_results ''correctness'' key (Inr ?files) (qe_directory (ce_q (be_c env)))
      (be_others env) (bs_results st)))"
    using assms(1,3) by (intro publish_sound) (simp_all add: half_done_def)
  with assms(1) show ?thesis by (auto simp: store_baseline_correctness_def half_done_def Let_def split: prod.split)
qed

lemma run_baseline_done:
  assumes "half_done st" and "sound_others (be_others env)" and "run_baseline env key st = (out, st')"
  shows "half_done st' \<and> (out = Inr u \<longrightarrow> preflight_sound (cs_records (bs_c st')))"
proof -
  obtain d st1 where b: "liftC (behavior_checks (be_c env) [''baseline'']) st = (d, st1)" by force
  have h1: "half_done st1" using baseline_suites_done(1)[OF assms(1), of "be_c env"] b by simp
  show ?thesis
  proof (cases d)
    case (Inr decisive)
    obtain d' st2 where c: "liftC (clifford_checks (be_c env) (be_cases env) [''baseline'']) st1 = (d', st2)" by force
    have h2: "half_done st2" using baseline_suites_done(2)[OF h1, of "be_c env" "be_cases env"] c by simp
    show ?thesis
    proof (cases d')
      case (Inr decisive')
      let ?st3 = "st2\<lparr>bs_c := recordC (preflight_record (cs_records (bs_c st2))) (bs_c st2)\<rparr>"
      note h3 = preflight_done[OF h2]
      have "st' = ?st3 \<or> (\<exists>k. store_baseline_correctness env k ?st3 = (out, st'))"
        using assms(3) \<open>d = Inr decisive\<close> Inr b c
        by (auto simp: run_baseline_def bindS_def Let_def split: option.splits if_splits)
      then have "st' = ?st3 \<or> (\<exists>k. st' = snd (store_baseline_correctness env k ?st3))" by (metis snd_conv)
      then show ?thesis using h3 store_half_done[OF conjunct1[OF h3] conjunct2[OF h3] assms(2)] by auto
    qed (use assms(3) Inr b c h2 in \<open>auto simp: run_baseline_def bindS_def\<close>)
  qed (use assms(3) b h1 in \<open>auto simp: run_baseline_def bindS_def\<close>)
qed

lemma correctness_half_done:
  assumes "half_done st" and "sound_others (be_others env)" and "correctness_half env key st = (out, st')"
    and "cs_correctness (bs_c st) = []" and "cs_clifford (bs_c st) = []" and "cs_records (bs_c st) = []"
  shows "half_done st' \<and> (out = Inr u \<longrightarrow> preflight_sound (cs_records (bs_c st')))"
proof -
  have read: "read_results ''correctness'' k (bs_results st) = Inr (bs_results st (''correctness'', k))" for k
    by (simp add: read_results_def results_dir_def RESULT_KINDS_def)
  show ?thesis
  proof (cases "case key of None \<Rightarrow> None | Some k \<Rightarrow> bs_results st (''correctness'', k)")
    case None
    then have "(out, st') = bindS (run_baseline env key st) (\<lambda>_ st. (Inr [], st))"
      using assms(3) by (auto simp: correctness_half_def bindS_def read split: option.splits)
    moreover obtain o' s' where r: "run_baseline env key st = (o', s')" by force
    ultimately show ?thesis using run_baseline_done[OF assms(1,2) r, of "()"]
      by (cases o') (auto simp: bindS_def)
  next
    case (Some e)
    then obtain k where k: "key = Some k" "bs_results st (''correctness'', k) = Some e" by (cases key) auto
    then have st': "st' = st\<lparr>bs_c := load_half k (re_files e) (bs_c st)\<rparr>"
      using assms(3) by (auto simp: correctness_half_def bindS_def read)
    have "sound_half (re_files e)" using assms(1) k(2) by (auto simp: half_done_def sound_results_def)
    from load_half_sound[OF this assms(4,5,6), of k] assms(1) show ?thesis by (simp add: st' half_done_def)
  qed
qed

lemma check_evolved_snd:
  assumes "P st" and "\<And>s. P s \<Longrightarrow> P (snd (liftC (behavior_checks (be_c env) [''evolved'']) s))"
    and "\<And>s. P s \<Longrightarrow> P (snd (liftC (clifford_checks (be_c env) (be_cases env) [''evolved'']) s))"
  shows "P (snd (check_evolved env st))"
  unfolding check_evolved_def
proof (rule bindS_snd[where P = P])
  fix r s assume "P s"
  moreover have "P (snd (bindS (liftC (behavior_checks (be_c env) [''evolved'']) s) (\<lambda>_ st.
      bindS (liftC (clifford_checks (be_c env) (be_cases env) [''evolved'']) st) (\<lambda>_ st. (Inr (), st)))))" if "P s" for s
    by (intro bindS_snd[where P = P]; (simp add: that assms(2,3))?)
  ultimately show "P (snd (if cr_result r = ''failed'' then (Inr (), s)
     else bindS (liftC (behavior_checks (be_c env) [''evolved'']) s) (\<lambda>_ st.
       bindS (liftC (clifford_checks (be_c env) (be_cases env) [''evolved'']) st) (\<lambda>_ st. (Inr (), st)))))" by simp
qed (simp add: assms(1))

lemma check_evolved_kept:
  assumes "mismatches_recorded (bs_c st)" and "sound_results (bs_results st)"
  shows "mismatches_recorded (bs_c (snd (check_evolved env st))) \<and> sound_results (bs_results (snd (check_evolved env st)))"
  using assms
  by (intro check_evolved_snd[where P = "\<lambda>s. mismatches_recorded (bs_c s) \<and> sound_results (bs_results s)"])
    (simp_all add: liftC_eq suites_record_mismatches[THEN conjunct1] suites_record_mismatches[THEN conjunct2])

text \<open>
  C17. No mismatch is lost in the correctness stage, shared halves included: from a store whose halves are sound,
  however the stage ends every mismatching row of its logs, its own or read from the store, has its
  failed correctness record in the evidence, and the store it leaves is sound again.
\<close>

theorem correctness_stage_sound:
  assumes "sound_results (bs_results st)" and "sound_others (be_others env)"
    and "correctness_body env st = (out, st')"
  shows "mismatches_recorded (bs_c st') \<and> sound_results (bs_results st')"
proof -
  let ?st0 = "st\<lparr>bs_c := (bs_c st)\<lparr>cs_correctness := [], cs_clifford := [], cs_records := reset_evidence (cs_records (bs_c st))\<rparr>\<rparr>"
  let ?P = "\<lambda>s. mismatches_recorded (bs_c s) \<and> sound_results (bs_results s)"
  have start: "half_done ?st0" "?P ?st0"
    using assms(1) by (simp_all add: half_done_def unique_ids_def baseline_only_def mismatches_recorded_def reset_evidence_def)
  have "?P (snd (correctness_body env st))" unfolding correctness_body_def Let_def
  proof (rule bindS_snd[where P = ?P])
    fix key s assume "(baseline_correctness_key env, ?st0) = (Inr key, s)"
    then have s: "s = ?st0" by simp
    have h: "?P (snd (correctness_half env key s))"
      using correctness_half_done[OF start(1) assms(2), of key] unfolding s
      by (simp add: reset_evidence_def) (metis half_done_def prod.collapse)
    show "?P (snd (bindS (correctness_half env key s) (\<lambda>reused st. bindS (check_evolved env st) (\<lambda>_ st.
        (Inr \<lparr>sf_body = no_fields, sf_reused = reused\<rparr>, st)))))"
      by (intro bindS_snd[where P = ?P] h) (simp_all add: check_evolved_kept)
  qed (use start(2) in simp)
  with assms(3) show ?thesis by simp
qed

text \<open>
  C18. The candidate is never checked against a baseline that failed: if any row of the correctness stage's logs is
  about the evolved revision, no record of the stage about the reference has failed, whether the
  baseline half was run or read from the store.
\<close>

theorem evolved_needs_preflight:
  assumes "sound_results (bs_results st)" and "sound_others (be_others env)"
    and "correctness_body env st = (out, st')"
    and "w \<in> set (cs_correctness (bs_c st')) \<union> set (cs_clifford (bs_c st'))"
    and "ck_revision (cw_check w) = Some ''evolved''"
  shows "\<forall>r\<in>set (cs_records (bs_c st')). cr_subject r = ''reference'' \<longrightarrow> cr_result r \<noteq> ''failed''"
proof -
  let ?st0 = "st\<lparr>bs_c := (bs_c st)\<lparr>cs_correctness := [], cs_clifford := [], cs_records := []\<rparr>\<rparr>"
  note body = assms(3)[unfolded correctness_body_def Let_def reset_evidence_def]
  have start: "half_done ?st0"
    using assms(1) by (simp add: half_done_def unique_ids_def baseline_only_def mismatches_recorded_def)
  have only: "\<not> baseline_only (bs_c st')" using assms(4,5) by (force simp: baseline_only_def)
  obtain key where key: "baseline_correctness_key env = Inr key"
    using body only start by (cases "baseline_correctness_key env") (auto simp: bindS_def half_done_def)
  obtain o1 st1 where h: "correctness_half env key ?st0 = (o1, st1)" by force
  note d = correctness_half_done[OF start assms(2) h, simplified]
  obtain u where o1: "o1 = Inr u"
    using body only d by (cases o1) (auto simp: bindS_def key h half_done_def)
  have st': "st' = snd (check_evolved env st1)"
    using body by (auto simp: bindS_def key h o1 split: prod.splits sum.splits)
  have d: "half_done st1" "preflight_sound (cs_records (bs_c st1))"
    using d o1 by simp_all
  obtain r where r: "r \<in> set (cs_records (bs_c st1))" "cr_id r = ''baseline/preflight''"
    "cr_result r \<noteq> ''failed'' \<longrightarrow> clean_reference (cs_records (bs_c st1))"
    using d(2) by (auto simp: preflight_sound_def)
  have "x = r" if "x \<in> set (cs_records (bs_c st1))" "cr_id x = ''baseline/preflight''" for x
    using d(1) r(1,2) that unfolding half_done_def unique_ids_def by (metis distinct_map inj_onD)
  moreover from r(1,2) obtain x where x: "find (\<lambda>r. cr_id r = ''baseline/preflight'') (cs_records (bs_c st1)) = Some x"
    by (cases "find (\<lambda>r. cr_id r = ''baseline/preflight'') (cs_records (bs_c st1))") (auto simp: find_None_iff)
  moreover from x have "x \<in> set (cs_records (bs_c st1)) \<and> cr_id x = ''baseline/preflight''" by (auto simp: find_Some_iff)
  ultimately have "x = r" by simp
  with x have p: "preflight_of (cs_records (bs_c st1)) = Inr r" by (simp add: preflight_of_def)
  have "cr_result r \<noteq> ''failed''"
    using only d(1) by (auto simp: st' check_evolved_def p bindS_def half_done_def)
  with r(3) have clean: "clean_reference (cs_records (bs_c st1))" by blast
  let ?P = "\<lambda>s. clean_reference (cs_records (bs_c s))"
  have "?P (snd (check_evolved env st1))"
    using clean keeps_clean.behavior_checks_kept[OF _ refl] keeps_clean.clifford_checks_kept[OF _ refl]
    by (intro check_evolved_snd[where P = ?P]) (simp_all add: liftC_eq)
  then show ?thesis by (simp add: st' clean_reference_def)
qed

section \<open>Sample runs\<close>

text \<open>
  A suite of one parametric case at one seed without bindings, a store that has the baseline half, and workers that
  finish; the candidate's suites run.
\<close>

definition one_case :: suite_case where
  "one_case = \<lparr>su_case = (demo_case ''a'' ''scored'' 1)\<lparr>seeds_per_block := 1, optimization_level := 1\<rparr>, su_oracle = ''C4'',
     su_bindings = 0, su_references = []\<rparr>"

definition demo_benv :: "(unit, unit) benv" where
  "demo_benv = \<lparr>be_c = \<lparr>ce_q = good_qenv, ce_suite = Inr [one_case], ce_parameters = (\<lambda>_. Inr []), ce_target_file = (\<lambda>_. [])\<rparr>,
     be_cases = [], be_builds = \<lparr>b_baseline = Some ''b'', b_evolved = Some ''x''\<rparr>,
     be_key_fields = Inr \<lparr>bk_build = [], bk_implementation = None, bk_harness = None, bk_suite = [], bk_manifest = [],
       bk_policy = [], bk_verifier = [], bk_machine_cpu = None, bk_clifford = (0, False), bk_tolerances = []\<rparr>,
     be_digest = bk_build, be_others = id\<rparr>"

definition demo_half :: stored_half where
  "demo_half = ([], [record_of ''baseline/preflight'' ''correctness'' ''passed'' ''reference'' []])"

definition demo_bstate :: bstate where
  "demo_bstate = \<lparr>bs_c = demo_cstate,
     bs_results = [(''correctness'', ''b'') \<mapsto> \<lparr>re_files = demo_half, re_session = ''other''\<rparr>]\<rparr>"

lemma demo_bstate_sound: "sound_results (bs_results demo_bstate)" "sound_others (be_others demo_benv)"
  by (auto simp: sound_results_def demo_bstate_def sound_half_def demo_half_def preflight_sound_def clean_reference_def
      sound_others_def demo_benv_def)

theorem correctness_stage_sound_witness:
  "\<exists>out st'. correctness_body demo_benv demo_bstate = (out, st') \<and> mismatches_recorded (bs_c st')"
proof -
  obtain out st' where "correctness_body demo_benv demo_bstate = (out, st')" by force
  with correctness_stage_sound[OF demo_bstate_sound this] show ?thesis by blast
qed

definition demo_evolved_row :: crow where
  "demo_evolved_row = \<lparr>cw_check = (plain_check ''C0'' ''verified'')\<lparr>ck_case_id := Some ''a'', ck_revision := Some ''evolved''\<rparr>,
     cw_seed = 0, cw_cached_from = None\<rparr>"

interpretation keeps_row: suite_steps "\<lambda>c. w \<in> set (cs_correctness c)" pre revisions for w pre revisions
  by unfold_locales (auto simp: recordC_def)

lemma demo_one_case: "\<exists>d c'. behavior_checks (be_c demo_benv) [''evolved''] c = (Inr d, c')
    \<and> demo_evolved_row \<in> set (cs_correctness c')"
proof -
  let ?env = "be_c demo_benv"
  define r where "r = set_job_file ''jobs/job.json'' (good_row ''quality'' 0)"
  have q: "ce_q ?env = good_qenv" by (simp add: demo_benv_def)
  have j: "suite_jobs ?env ''evolved'' ''quality'' (\<lambda>su. [0..<seeds_per_block (su_case su)]) [one_case] = Inr [[r]]"
    by (simp add: suite_jobs_def q good_job r_def) (simp add: one_case_def)
  have a: "api_cases [one_case] = []" by (simp add: api_cases_def one_case_def)
  have ja: "suite_jobs ?env ''evolved'' ''api_checks'' (\<lambda>su. [0]) [] = Inr []" by (simp add: suite_jobs_def)
  have r: "wk_status r = ''ok''" "wk_free_parameters r = []" "wk_seed r = 0"
    by (simp_all add: r_def good_row_def Process.demo_row_def error_row_def set_job_file_def)
  have "plan_seed ?env one_case r [] = Inr ([Ready (plain_check ''C0'' ''verified'')], [])"
    using demo_c0 r by (auto simp: plan_seed_def demo_benv_def good_qenv_def one_case_def demo_case_def bound_outputs_def Let_def)
  then have p: "plan_seeds ?env [(one_case, r)] [] = Inr ([(one_case, r, [Ready (plain_check ''C0'' ''verified'')])], [])" by simp
  obtain c1 where v: "verifyC ?env [] c = (Inr [], c1)" by (simp add: verifyC_def verify_many_def pending_jobs_def)
  have k: "behavior_check ''evolved'' [] (one_case, r, Ready (plain_check ''C0'' ''verified'')) c1
      = (Inr ''verified'', c1\<lparr>cs_correctness := cs_correctness c1 @ [demo_evolved_row]\<rparr>)"
    by (simp add: behavior_check_def answer_of_def bindS_def Let_def r demo_evolved_row_def plain_check_def one_case_def demo_case_def)
  have s: "ce_suite ?env = Inr [one_case]" by (simp add: demo_benv_def)
  have b: "behavior_revision ?env [one_case] ''evolved'' c = (Inr True, recordC (behavior_record ?env ''evolved'' [''verified''])
      (c1\<lparr>cs_correctness := cs_correctness c1 @ [demo_evolved_row]\<rparr>))"
    unfolding behavior_revision_def
    by (simp add: bindS_def j a ja p v k r all_ok_def DECISIVE_def del: plan_seeds.simps mapS.simps) (simp add: k r bindS_def)
  show ?thesis
    by (intro exI[of _ True]) (simp add: behavior_checks_def bindS_def s b Let_def recordC_def)
qed

theorem evolved_needs_preflight_witness:
  "\<exists>out st'. correctness_body demo_benv demo_bstate = (out, st') \<and> demo_evolved_row \<in> set (cs_correctness (bs_c st'))
    \<and> (\<forall>r\<in>set (cs_records (bs_c st')). cr_subject r = ''reference'' \<longrightarrow> cr_result r \<noteq> ''failed'')"
proof -
  obtain out st' where run: "correctness_body demo_benv demo_bstate = (out, st')" by force
  have key: "baseline_correctness_key demo_benv = Inr (Some ''b'')"
    by (simp add: baseline_correctness_key_def demo_benv_def good_qenv_def same_build_def)
  define c where "c = load_half ''b'' demo_half (demo_cstate\<lparr>cs_correctness := [], cs_clifford := [], cs_records := []\<rparr>)"
  define st1 where "st1 = demo_bstate\<lparr>bs_c := c\<rparr>"
  have half: "correctness_half demo_benv (Some ''b'') (demo_bstate\<lparr>bs_c := demo_cstate\<lparr>cs_correctness := [], cs_clifford := [], cs_records := []\<rparr>\<rparr>)
      = (Inr [(''baseline_correctness'', [''b''])], st1)"
    by (simp add: correctness_half_def read_results_def results_dir_def RESULT_KINDS_def bindS_def demo_bstate_def c_def st1_def)
  have "bs_c demo_bstate = demo_cstate" by (simp add: demo_bstate_def)
  then have st': "st' = snd (check_evolved demo_benv st1)"
    using run by (auto simp: correctness_body_def Let_def bindS_def key half reset_evidence_def split: prod.splits sum.splits)
  have "cs_records c = [cached_record ''b'' (record_of ''baseline/preflight'' ''correctness'' ''passed'' ''reference'' [])]"
    using load_half_records[of demo_half] by (simp add: c_def) (simp add: demo_half_def sound_half_def preflight_sound_def clean_reference_def)
  then have p: "preflight_of (cs_records (bs_c st1)) = Inr (cached_record ''b'' (record_of ''baseline/preflight'' ''correctness'' ''passed'' ''reference'' []))"
    by (simp add: st1_def preflight_of_def)
  obtain d c' where b: "behavior_checks (be_c demo_benv) [''evolved''] (bs_c st1) = (Inr d, c')" "demo_evolved_row \<in> set (cs_correctness c')"
    using demo_one_case by blast
  have "demo_evolved_row \<in> set (cs_correctness (snd (clifford_checks (be_c demo_benv) (be_cases demo_benv) [''evolved''] c')))"
    by (rule keeps_row.clifford_checks_kept[OF b(2) refl])
  then have row: "demo_evolved_row \<in> set (cs_correctness (bs_c st'))"
    by (auto simp: st' check_evolved_def bindS_def p liftC_eq b split: sum.split prod.split)
  have "ck_revision (cw_check demo_evolved_row) = Some ''evolved''" by (simp add: demo_evolved_row_def)
  from evolved_needs_preflight[OF demo_bstate_sound run UnI1[OF row] this] run row show ?thesis by blast
qed

end
