(* ===== verification/Spec2Isabelle.thy ===== *)
theory Spec2Isabelle
  imports Prelude Records Verdict Statistics Evaluate Scope Gate Metrics Replay Session Lifecycle
    Resume Text Retry Scheduler Manager ManagerInv ManagerLive CostGuard Costs Canonical Storage
    Process Cache Verify Quality QualityInv Checks Report Decide DecideInv Allocation Monitor CostEvidence MonitorInv
    Results Upstream Schedule Launcher Stages
begin

text \<open>
  A verification development of qiskit-transpile-bench.
\<close>

end
